(* ===== verification/Prelude.thy ===== *)
theory Prelude
  imports Main "HOL-Library.Sublist" "HOL-Library.Char_ord" "HOL-Library.List_Lexorder"
begin

section \<open>Strings, ordered containers and collections shared by every component\<close>

text \<open>
  A Rust \<open>String\<close> is a sequence of Unicode scalar values. The development reads an Isabelle
  \<open>char\<close> (0 to 255) as the scalar value of the same number, so a \<open>string\<close> is a Rust
  string whose characters lie in U+0000 to U+00FF. On that range the classifications of the
  Rust standard library are written out exactly: \<open>char::is_whitespace\<close>,
  \<open>char::is_control\<close>, \<open>to_lowercase\<close>, \<open>to_ascii_lowercase\<close> and the UTF-8
  width of a character. Ordering of strings is lexicographic on the scalar values, which is the
  byte order of their UTF-8 encodings.

  \<open>BTreeSet\<close> is a sorted list without repetitions, \<open>BTreeMap\<close> an association list
  sorted by key: iteration order and equality are then those of the Rust containers.
\<close>

named_theorems str_simps \<open>rewrite rules for string operations\<close>
named_theorems bset_simps \<open>rewrite rules for ordered sets\<close>
named_theorems bmap_simps \<open>rewrite rules for ordered maps\<close>

subsection \<open>Characters\<close>

definition code :: "char \<Rightarrow> nat" where
  "code c = of_char c"

definition is_whitespace :: "char \<Rightarrow> bool" where
  "is_whitespace c =
     (let n = code c in (9 \<le> n \<and> n \<le> 13) \<or> n = 32 \<or> n = 133 \<or> n = 160)"

definition is_control :: "char \<Rightarrow> bool" where
  "is_control c = (let n = code c in n < 32 \<or> (127 \<le> n \<and> n < 160))"

definition is_ascii_upper :: "char \<Rightarrow> bool" where
  "is_ascii_upper c = (let n = code c in 65 \<le> n \<and> n \<le> 90)"

definition is_ascii_lower :: "char \<Rightarrow> bool" where
  "is_ascii_lower c = (let n = code c in 97 \<le> n \<and> n \<le> 122)"

definition is_ascii_digit :: "char \<Rightarrow> bool" where
  "is_ascii_digit c = (let n = code c in 48 \<le> n \<and> n \<le> 57)"

definition is_ascii_alphanumeric :: "char \<Rightarrow> bool" where
  "is_ascii_alphanumeric c = (is_ascii_upper c \<or> is_ascii_lower c \<or> is_ascii_digit c)"

definition is_ascii_hexdigit :: "char \<Rightarrow> bool" where
  "is_ascii_hexdigit c =
     (let n = code c in is_ascii_digit c \<or> (97 \<le> n \<and> n \<le> 102) \<or> (65 \<le> n \<and> n \<le> 70))"

definition ascii_lower :: "char \<Rightarrow> char" where
  "ascii_lower c = (if is_ascii_upper c then char_of (code c + 32) else c)"

definition ascii_upper :: "char \<Rightarrow> char" where
  "ascii_upper c = (if is_ascii_lower c then char_of (code c - 32) else c)"

text \<open>Lower case on U+0000 to U+00FF: the ASCII capitals and U+00C0 to U+00DE without U+00D7.\<close>

definition lower_char :: "char \<Rightarrow> char" where
  "lower_char c =
     (let n = code c in
      if (65 \<le> n \<and> n \<le> 90) \<or> (192 \<le> n \<and> n \<le> 222 \<and> n \<noteq> 215) then char_of (n + 32) else c)"

definition len_utf8 :: "char \<Rightarrow> nat" where
  "len_utf8 c = (if code c < 128 then 1 else 2)"

lemma code_char_of: "n < 256 \<Longrightarrow> code (char_of n) = n"
  by (simp add: code_def)

lemma ascii_lower_idem [simp]: "ascii_lower (ascii_lower c) = ascii_lower c"
  by (auto simp: ascii_lower_def is_ascii_upper_def Let_def code_char_of)

lemma lower_char_idem [simp]: "lower_char (lower_char c) = lower_char c"
  by (auto simp: lower_char_def Let_def code_char_of)

lemma whitespace_not_upper: "is_whitespace c \<Longrightarrow> ascii_lower c = c"
  by (auto simp: ascii_lower_def is_ascii_upper_def is_whitespace_def Let_def)

lemma whitespace_ascii_lower [simp]: "is_whitespace (ascii_lower c) = is_whitespace c"
  by (auto simp: ascii_lower_def is_ascii_upper_def is_whitespace_def Let_def code_char_of)

lemma control_slash [simp]: "\<not> is_control (CHR ''/'')"
  by (simp add: is_control_def code_def)

lemma whitespace_slash [simp]: "\<not> is_whitespace (CHR ''/'')"
  by (simp add: is_whitespace_def code_def)

subsection \<open>Strings\<close>

definition str_len :: "string \<Rightarrow> nat" where
  \<comment> \<open>\<open>str::len\<close>: the length in UTF-8 bytes\<close>
  "str_len s = sum_list (map len_utf8 s)"

definition to_lowercase :: "string \<Rightarrow> string" where
  "to_lowercase = map lower_char"

definition to_ascii_lowercase :: "string \<Rightarrow> string" where
  "to_ascii_lowercase = map ascii_lower"

definition starts_with :: "string \<Rightarrow> string \<Rightarrow> bool" where
  "starts_with s p = (take (length p) s = p)"

definition ends_with :: "string \<Rightarrow> string \<Rightarrow> bool" where
  "ends_with s p = starts_with (rev s) (rev p)"

text \<open>A text between single quotes, as the messages show names.\<close>

definition quote :: "string \<Rightarrow> string" where
  "quote s = CHR 0x27 # s @ [CHR 0x27]"

definition strip_prefix :: "string \<Rightarrow> string \<Rightarrow> string option" where
  "strip_prefix p s = (if starts_with s p then Some (drop (length p) s) else None)"

text \<open>\<open>str::find\<close>: the first position where the needle occurs.\<close>

fun str_find :: "string \<Rightarrow> string \<Rightarrow> nat option" where
  "str_find n [] = (if n = [] then Some 0 else None)"
| "str_find n (h # hs) =
     (if starts_with (h # hs) n then Some 0 else map_option Suc (str_find n hs))"

definition contains :: "string \<Rightarrow> string \<Rightarrow> bool" where
  "contains hay n = (str_find n hay \<noteq> None)"

definition trim_start_matches :: "(char \<Rightarrow> bool) \<Rightarrow> string \<Rightarrow> string" where
  "trim_start_matches = dropWhile"

definition trim_end_matches :: "(char \<Rightarrow> bool) \<Rightarrow> string \<Rightarrow> string" where
  "trim_end_matches p s = rev (dropWhile p (rev s))"

definition trim_end :: "string \<Rightarrow> string" where
  "trim_end = trim_end_matches is_whitespace"

definition trim :: "string \<Rightarrow> string" where
  "trim s = trim_end (trim_start_matches is_whitespace s)"

text \<open>\<open>str::split\<close> on the characters of a predicate: always at least one piece.\<close>

fun split_on :: "(char \<Rightarrow> bool) \<Rightarrow> string \<Rightarrow> string list" where
  "split_on p [] = [[]]"
| "split_on p (c # cs) =
     (if p c then [] # split_on p cs
      else (case split_on p cs of [] \<Rightarrow> [[c]] | w # ws \<Rightarrow> (c # w) # ws))"

fun join :: "string \<Rightarrow> string list \<Rightarrow> string" where
  "join sep [] = []"
| "join sep [w] = w"
| "join sep (w # ws) = w @ sep @ join sep ws"

text \<open>\<open>split_whitespace\<close>: the maximal non-blank pieces.\<close>

definition split_whitespace :: "string \<Rightarrow> string list" where
  "split_whitespace s = filter (\<lambda>w. w \<noteq> []) (split_on is_whitespace s)"

text \<open>\<open>rsplit_once(c)\<close> and \<open>split_once(c)\<close> for one character.\<close>

definition split_once :: "char \<Rightarrow> string \<Rightarrow> (string \<times> string) option" where
  "split_once c s =
     (if c \<in> set s
      then Some (takeWhile (\<lambda>x. x \<noteq> c) s, tl (dropWhile (\<lambda>x. x \<noteq> c) s)) else None)"

definition rsplit_once :: "char \<Rightarrow> string \<Rightarrow> (string \<times> string) option" where
  "rsplit_once c s =
     (case split_once c (rev s) of None \<Rightarrow> None | Some (b, a) \<Rightarrow> Some (rev a, rev b))"

lemma starts_with_prefix: "starts_with s p \<longleftrightarrow> prefix p s"
  by (auto simp: starts_with_def prefix_def) (metis append_take_drop_id)

lemma ends_with_suffix: "ends_with s p \<longleftrightarrow> suffix p s"
  by (simp add: ends_with_def starts_with_prefix suffix_to_prefix)

lemma str_find_Some:
  "str_find n h = Some i \<Longrightarrow> prefix n (drop i h) \<and> i + length n \<le> length h"
  by (induction n h arbitrary: i rule: str_find.induct)
     (auto simp: starts_with_prefix split: if_splits dest: prefix_length_le)

lemma str_find_first:
  "prefix n (drop i h) \<Longrightarrow> i \<le> length h \<Longrightarrow> \<exists>j \<le> i. str_find n h = Some j"
proof (induction n h arbitrary: i rule: str_find.induct)
  case (1 n)
  then show ?case by auto
next
  case (2 n h hs)
  then show ?case by (cases i) (fastforce simp: starts_with_prefix)+
qed

lemma contains_iff: "contains hay n \<longleftrightarrow> (\<exists>a b. hay = a @ n @ b)"
proof
  assume "contains hay n"
  then obtain i where "str_find n hay = Some i" by (auto simp: contains_def)
  then have "prefix n (drop i hay)" by (simp add: str_find_Some)
  then obtain b where "drop i hay = n @ b" by (auto simp: prefix_def)
  then have "hay = take i hay @ n @ b" by (metis append_take_drop_id)
  then show "\<exists>a b. hay = a @ n @ b" by blast
next
  assume "\<exists>a b. hay = a @ n @ b"
  then obtain a b where "hay = a @ n @ b" by blast
  then have "prefix n (drop (length a) hay)" by simp
  then show "contains hay n"
    using str_find_first [of n "length a" hay] \<open>hay = a @ n @ b\<close> by (auto simp: contains_def)
qed

lemma contains_append: "contains c n \<Longrightarrow> contains (a @ c @ b) n"
proof -
  assume "contains c n"
  then obtain x y where "c = x @ n @ y" by (auto simp: contains_iff)
  then have "a @ c @ b = (a @ x) @ n @ (y @ b)" by simp
  then show ?thesis unfolding contains_iff by blast
qed

lemma split_on_not_Nil [simp]: "split_on p s \<noteq> []"
proof (cases s)
  case (Cons a l)
  have "p a \<or> split_on p l = [] \<or> (\<exists>w ws. split_on p l = w # ws)" by (meson neq_Nil_conv)
  then show ?thesis using Cons by auto
qed simp

lemma split_on_pieces: "w \<in> set (split_on p s) \<Longrightarrow> c \<in> set w \<Longrightarrow> \<not> p c"
proof (induction s arbitrary: w)
  case (Cons a s)
  then show ?case
    by (cases "split_on p s") (auto split: if_splits, blast)
qed simp

lemma split_on_no_sep: "(\<forall>c \<in> set s. \<not> p c) \<Longrightarrow> split_on p s = [s]"
  by (induction s) auto

lemma split_on_append_sep:
  "(\<forall>c \<in> set w. \<not> p c) \<Longrightarrow> p c \<Longrightarrow> split_on p (w @ c # s) = w # split_on p s"
  by (induction w) auto

lemma join_Cons: "ws \<noteq> [] \<Longrightarrow> join sep (w # ws) = w @ sep @ join sep ws"
  by (cases ws) auto

lemma join_split_on [simp]: "join [c] (split_on (\<lambda>x. x = c) s) = s"
proof (induction s)
  case (Cons a s)
  then show ?case
    by (cases "split_on (\<lambda>x. x = c) s"; cases "tl (split_on (\<lambda>x. x = c) s)")
       (auto simp: join_Cons)
qed simp

lemma split_on_join:
  assumes "ws \<noteq> []" and "\<forall>w \<in> set ws. c \<notin> set w"
  shows "split_on (\<lambda>x. x = c) (join [c] ws) = ws"
  using assms
proof (induction ws rule: list_nonempty_induct)
  case (single w)
  then show ?case by (auto intro!: split_on_no_sep)
next
  case (cons w ws)
  then have "\<forall>x \<in> set w. \<not> x = c" by auto
  with cons show ?case by (simp add: join_Cons split_on_append_sep)
qed

lemma join_eq_Nil: "join sep ws = [] \<longleftrightarrow> ws = [] \<or> ws = [[]] \<or> (\<forall>w \<in> set ws. w = []) \<and> sep = []"
  by (induction sep ws rule: join.induct) auto

subsection \<open>Trimming\<close>

lemma trim_end_matches_idem [simp]:
  "trim_end_matches p (trim_end_matches p s) = trim_end_matches p s"
  by (simp add: trim_end_matches_def)

lemma trim_end_matches_last: "trim_end_matches p s \<noteq> [] \<Longrightarrow> \<not> p (last (trim_end_matches p s))"
  using hd_dropWhile [of p "rev s"] by (simp add: trim_end_matches_def last_rev)

lemma dropWhile_id: "s = [] \<or> \<not> p (hd s) \<Longrightarrow> dropWhile p s = s"
  by (cases s) auto

lemma trim_end_matches_id: "s = [] \<or> \<not> p (last s) \<Longrightarrow> trim_end_matches p s = s"
  by (auto simp: trim_end_matches_def hd_rev intro!: dropWhile_id)
     (metis dropWhile_id hd_rev rev_rev_ident)

lemma set_trim_end_matches: "set (trim_end_matches p s) \<subseteq> set s"
  by (auto simp: trim_end_matches_def dest: set_dropWhileD)

lemma set_trim: "set (trim s) \<subseteq> set s"
  using set_trim_end_matches set_dropWhileD
  by (fastforce simp: trim_def trim_end_def trim_start_matches_def)

definition trimmed :: "string \<Rightarrow> bool" where
  "trimmed s = (s \<noteq> [] \<longrightarrow> \<not> is_whitespace (hd s) \<and> \<not> is_whitespace (last s))"

lemma trim_id: "trimmed s \<Longrightarrow> trim s = s"
  by (cases "s = []")
     (auto simp: trim_def trim_end_def trim_start_matches_def trimmed_def
        dropWhile_id trim_end_matches_id)

lemma prefix_trim_end_matches: "prefix (trim_end_matches p s) s"
proof -
  have "suffix (dropWhile p (rev s)) (rev s)" by (rule suffix_dropWhile)
  then show ?thesis by (simp add: trim_end_matches_def suffix_to_prefix)
qed

lemma prefix_hd: "prefix p s \<Longrightarrow> p \<noteq> [] \<Longrightarrow> hd p = hd s"
  by (auto simp: prefix_def)

lemma trimmed_trim [simp]: "trimmed (trim s)"
proof -
  let ?d = "dropWhile is_whitespace s"
  have t: "trim s = trim_end_matches is_whitespace ?d"
    by (simp add: trim_def trim_end_def trim_start_matches_def)
  show ?thesis
  proof (cases "trim s = []")
    case False
    then have "?d \<noteq> []" unfolding t by (cases ?d) (simp_all add: trim_end_matches_def)
    then have "\<not> is_whitespace (hd ?d)" by (rule hd_dropWhile)
    moreover have "hd (trim s) = hd ?d"
      using False t prefix_trim_end_matches prefix_hd by metis
    ultimately show ?thesis
      using False t trim_end_matches_last by (auto simp: trimmed_def)
  qed (simp add: trimmed_def)
qed

lemma trim_idem [simp]: "trim (trim s) = trim s"
  by (simp add: trim_id)

lemma length_trim: "length (trim s) \<le> length s"
proof -
  let ?d = "dropWhile is_whitespace s"
  have "length (dropWhile is_whitespace (rev ?d)) \<le> length (rev ?d)" by (rule length_dropWhile_le)
  also have "\<dots> \<le> length s" by (simp add: length_dropWhile_le)
  finally show ?thesis
    by (simp add: trim_def trim_end_def trim_start_matches_def trim_end_matches_def)
qed

subsection \<open>Lines and numbers\<close>

text \<open>
  \<open>str::lines\<close>: the pieces between newlines; a piece that a newline ends loses one
  \<open>CR\<close> before it, a last piece without a newline is kept as it is, or dropped when empty.
\<close>

definition cut_cr :: "string \<Rightarrow> string" where
  "cut_cr l = (if l \<noteq> [] \<and> last l = CHR 0x0D then butlast l else l)"

abbreviation newline :: "char \<Rightarrow> bool" where
  "newline c \<equiv> c = CHR 0x0A"

definition str_lines :: "string \<Rightarrow> string list" where
  "str_lines s =
     (let ps = split_on newline s
      in map cut_cr (butlast ps) @ (if last ps = [] then [] else [last ps]))"

lemma split_on_append: "p c \<Longrightarrow> split_on p (a @ c # b) = split_on p a @ split_on p b"
proof (induction a)
  case (Cons x a)
  then show ?case
    by (cases "split_on p a") auto
qed simp

lemma str_lines_append: "str_lines (a @ CHR 0x0A # b) = map cut_cr (split_on newline a) @ str_lines b"
  by (simp add: str_lines_def split_on_append Let_def butlast_append)

lemma split_on_end: "split_on p (a @ [c]) = split_on p a @ [[]]" if "p c"
  using split_on_append [of p c a "[]"] that by simp

lemma last_split_on: "last (split_on p s) = [] \<longleftrightarrow> s = [] \<or> p (last s)"
proof (cases s rule: rev_cases)
  case (snoc xs x)
  show ?thesis
  proof (cases "p x")
    case True
    then show ?thesis by (simp add: snoc split_on_end)
  next
    case False
    have "last (split_on p (xs @ [x])) \<noteq> []"
      using False
    proof (induction xs)
      case (Cons a xs)
      then show ?case by (cases "split_on p (xs @ [x])") (auto split: if_splits)
    qed simp
    then show ?thesis using False by (simp add: snoc)
  qed
qed simp

lemma trim_cut_cr: "trim (cut_cr l) = trim l"
proof (cases "l \<noteq> [] \<and> last l = CHR 0x0D")
  case True
  then obtain x where l: "l = x @ [CHR 0x0D]" by (cases l rule: rev_cases) auto
  have ws: "is_whitespace (CHR 0x0D)" by code_simp
  have "trim (x @ [CHR 0x0D]) = trim x"
  proof (cases "\<forall>c \<in> set x. is_whitespace c")
    case True
    then have "dropWhile is_whitespace (x @ [CHR 0x0D]) = []" "dropWhile is_whitespace x = []"
      using ws by (auto simp: dropWhile_eq_Nil_conv)
    then show ?thesis
      by (simp add: trim_def trim_end_def trim_start_matches_def del: dropWhile_eq_Nil_conv)
  next
    case False
    then have "dropWhile is_whitespace (x @ [CHR 0x0D]) = dropWhile is_whitespace x @ [CHR 0x0D]"
      by (auto intro: dropWhile_append1)
    then show ?thesis
      using ws by (simp add: trim_def trim_end_def trim_start_matches_def trim_end_matches_def)
  qed
  then show ?thesis by (simp add: cut_cr_def l)
qed (auto simp: cut_cr_def)

lemma split_whitespace_three:
  assumes "\<forall>w \<in> {a, b, d}. w \<noteq> [] \<and> (\<forall>x \<in> set w. \<not> is_whitespace x)"
  shows "split_whitespace (a @ '' '' @ b @ '' '' @ d) = [a, b, d]"
proof -
  have "is_whitespace (CHR '' '')" by code_simp
  then show ?thesis using assms
    by (simp add: split_whitespace_def split_on_append_sep split_on_no_sep)
qed

fun show_nat :: "nat \<Rightarrow> string" where
  "show_nat n =
     (if n < 10 then [char_of (48 + n)] else show_nat (n div 10) @ [char_of (48 + n mod 10)])"

declare show_nat.simps [simp del]

lemma set_show_nat: "c \<in> set (show_nat n) \<Longrightarrow> is_ascii_digit c"
proof (induction n rule: show_nat.induct)
  case (1 n)
  then show ?case
    by (cases "n < 10") (auto simp: show_nat.simps [of n] is_ascii_digit_def Let_def code_char_of)
qed

text \<open>Reading it back.\<close>

definition decimal_value :: "string \<Rightarrow> nat" where
  "decimal_value s = foldl (\<lambda>n c. 10 * n + (code c - 48)) 0 s"

lemma decimal_value_show_nat [simp]: "decimal_value (show_nat n) = n"
proof (induction n rule: show_nat.induct)
  case (1 n)
  then show ?case
    by (cases "n < 10") (simp_all add: show_nat.simps [of n] decimal_value_def code_char_of)
qed

lemma show_nat_not_Nil [simp]: "show_nat n \<noteq> []"
  by (simp add: show_nat.simps [of n])

text \<open>The lower case hexadecimal digits of a number.\<close>

fun show_hex :: "nat \<Rightarrow> string" where
  "show_hex n =
     (let d = (if n mod 16 < 10 then char_of (48 + n mod 16) else char_of (87 + n mod 16))
      in if n < 16 then [d] else show_hex (n div 16) @ [d])"

declare show_hex.simps [simp del]

subsection \<open>Ordered sets\<close>

type_synonym 'a bset = "'a list"

definition bset_ok :: "'a::linorder bset \<Rightarrow> bool" where
  "bset_ok s = (sorted s \<and> distinct s)"

definition bs_insert :: "'a::linorder \<Rightarrow> 'a bset \<Rightarrow> 'a bset" where
  "bs_insert x s = insort_insert x s"

definition bs_remove :: "'a \<Rightarrow> 'a bset \<Rightarrow> 'a bset" where
  "bs_remove x s = filter (\<lambda>y. y \<noteq> x) s"

definition bs_extend :: "'a::linorder bset \<Rightarrow> 'a list \<Rightarrow> 'a bset" where
  "bs_extend s xs = fold bs_insert xs s"

definition bs_of :: "'a::linorder list \<Rightarrow> 'a bset" where
  "bs_of xs = bs_extend [] xs"

lemma bset_ok_Nil [simp]: "bset_ok []"
  by (simp add: bset_ok_def)

lemma set_bs_insert [simp]: "set (bs_insert x s) = insert x (set s)"
  by (simp add: bs_insert_def set_insort_insert)

lemma bset_ok_insert [simp]: "bset_ok s \<Longrightarrow> bset_ok (bs_insert x s)"
  using distinct_insort_insert [of s "\<lambda>x. x"]
  by (simp add: bset_ok_def bs_insert_def sorted_insort_insert)

lemma bs_insert_triv: "x \<in> set s \<Longrightarrow> bs_insert x s = s"
  by (simp add: bs_insert_def insort_insert_triv)

lemma set_bs_remove [simp]: "set (bs_remove x s) = set s - {x}"
  by (auto simp: bs_remove_def)

lemma bset_ok_filter [simp]: "bset_ok s \<Longrightarrow> bset_ok (filter p s)"
  by (simp add: bset_ok_def sorted_filter [where f = "\<lambda>x. x", simplified])

lemma bset_ok_remove [simp]: "bset_ok s \<Longrightarrow> bset_ok (bs_remove x s)"
  by (simp add: bs_remove_def)

lemma set_bs_extend [simp]: "set (bs_extend s xs) = set s \<union> set xs"
  by (induction xs arbitrary: s) (simp_all add: bs_extend_def)

lemma bset_ok_extend [simp]: "bset_ok s \<Longrightarrow> bset_ok (bs_extend s xs)"
  by (induction xs arbitrary: s) (simp_all add: bs_extend_def)

lemma set_bs_of [simp]: "set (bs_of xs) = set xs"
  by (simp add: bs_of_def)

lemma bset_ok_of [simp]: "bset_ok (bs_of xs)"
  by (simp add: bs_of_def)

lemma bset_eqI: "bset_ok s \<Longrightarrow> bset_ok t \<Longrightarrow> set s = set t \<Longrightarrow> s = t"
  by (simp add: bset_ok_def sorted_distinct_set_unique)

lemma bs_of_id: "bset_ok s \<Longrightarrow> bs_of s = s"
  by (rule bset_eqI) simp_all

subsection \<open>Ordered maps\<close>

type_synonym ('k, 'v) bmap = "('k \<times> 'v) list"

definition bmap_ok :: "('k::linorder, 'v) bmap \<Rightarrow> bool" where
  "bmap_ok m = (sorted (map fst m) \<and> distinct (map fst m))"

fun bm_insert :: "'k::linorder \<Rightarrow> 'v \<Rightarrow> ('k, 'v) bmap \<Rightarrow> ('k, 'v) bmap" where
  "bm_insert k v [] = [(k, v)]"
| "bm_insert k v ((a, b) # m) =
     (if k < a then (k, v) # (a, b) # m
      else if k = a then (k, v) # m else (a, b) # bm_insert k v m)"

definition bm_get :: "('k, 'v) bmap \<Rightarrow> 'k \<Rightarrow> 'v option" where
  "bm_get m k = map_of m k"

definition bm_remove :: "'k \<Rightarrow> ('k, 'v) bmap \<Rightarrow> ('k, 'v) bmap" where
  "bm_remove k m = filter (\<lambda>p. fst p \<noteq> k) m"

definition bm_or_insert :: "'k::linorder \<Rightarrow> 'v \<Rightarrow> ('k, 'v) bmap \<Rightarrow> ('k, 'v) bmap" where
  \<comment> \<open>\<open>entry(k).or_insert(v)\<close>\<close>
  "bm_or_insert k v m = (case bm_get m k of Some _ \<Rightarrow> m | None \<Rightarrow> bm_insert k v m)"

lemma keys_bm_insert [simp]: "set (map fst (bm_insert k v m)) = insert k (set (map fst m))"
  by (induction k v m rule: bm_insert.induct) auto

lemma fst_bm_insert [simp]: "fst ` set (bm_insert k v m) = insert k (fst ` set m)"
  using keys_bm_insert [of k v m] by simp

lemma bmap_ok_Nil [simp]: "bmap_ok []"
  by (simp add: bmap_ok_def)

lemma bmap_ok_insert [simp]: "bmap_ok m \<Longrightarrow> bmap_ok (bm_insert k v m)"
  by (induction k v m rule: bm_insert.induct) (auto simp: bmap_ok_def)

lemma bm_get_Nil [simp]: "bm_get [] k = None"
  by (simp add: bm_get_def)

lemma bm_get_insert [simp]: "bm_get (bm_insert k v m) = (bm_get m)(k \<mapsto> v)"
  by (induction k v m rule: bm_insert.induct) (auto simp: bm_get_def fun_eq_iff)

lemma bmap_ok_filter [simp]: "bmap_ok m \<Longrightarrow> bmap_ok (filter p m)"
  by (auto simp: bmap_ok_def sorted_filter distinct_map_filter)

lemma bmap_ok_remove [simp]: "bmap_ok m \<Longrightarrow> bmap_ok (bm_remove k m)"
  by (simp add: bm_remove_def)

lemma bm_get_remove [simp]: "bm_get (bm_remove k m) = (bm_get m)(k := None)"
  by (induction m) (auto simp: bm_get_def bm_remove_def fun_eq_iff)

lemma bm_get_filter:
  "bmap_ok m \<Longrightarrow>
   bm_get (filter p m) k =
     (case bm_get m k of None \<Rightarrow> None | Some v \<Rightarrow> if p (k, v) then Some v else None)"
proof (induction m)
  case (Cons a m)
  obtain k' v' where a: "a = (k', v')" by (cases a)
  from Cons.prems have ok: "bmap_ok m" and n: "k' \<notin> fst ` set m"
    by (auto simp: bmap_ok_def a)
  then have "map_of m k' = None" by (simp add: map_of_eq_None_iff)
  with Cons.IH [OF ok] show ?case by (auto simp: a bm_get_def split: option.splits)
qed simp

lemma bmap_ok_or_insert [simp]: "bmap_ok m \<Longrightarrow> bmap_ok (bm_or_insert k v m)"
  by (simp add: bm_or_insert_def split: option.split)

lemma bm_get_or_insert:
  "bm_get (bm_or_insert k v m) =
     (if bm_get m k = None then (bm_get m)(k \<mapsto> v) else bm_get m)"
  by (simp add: bm_or_insert_def split: option.split)

lemma bm_get_SomeD: "bm_get m k = Some v \<Longrightarrow> (k, v) \<in> set m"
  by (simp add: bm_get_def map_of_SomeD)

lemma bm_get_eq_Some: "bmap_ok m \<Longrightarrow> bm_get m k = Some v \<longleftrightarrow> (k, v) \<in> set m"
  by (simp add: bm_get_def bmap_ok_def)

lemma bm_get_None: "bm_get m k = None \<longleftrightarrow> k \<notin> fst ` set m"
  by (simp add: bm_get_def map_of_eq_None_iff)

lemma bmap_eqI: "bmap_ok m \<Longrightarrow> bmap_ok n \<Longrightarrow> bm_get m = bm_get n \<Longrightarrow> m = n"
proof -
  assume m: "bmap_ok m" and n: "bmap_ok n" and eq: "bm_get m = bm_get n"
  then have "set m = set n"
    by (metis bm_get_eq_Some subsetI subset_antisym surj_pair)
  with m n show ?thesis
    by (auto simp: bmap_ok_def intro!: map_sorted_distinct_set_unique [of fst])
       (metis distinct_map)+
qed

end
