(* ===== verification/Policy.thy ===== *)
theory Policy
  imports Prelude
begin

section \<open>The command policy of the AI gateway\<close>

text \<open>
  Models \<open>crates/rustscp-mcp/src/policy.rs\<close>: the risk of a shell command an agent wants to
  run (\<open>classify_command\<close> with \<open>has_word\<close>, \<open>is_dangerous\<close> and \<open>is_caution\<close>) and what the
  gateway does with it under the access level the person chose (\<open>CommandAccess::decide\<close>).
  The chains of \<open>if ... { return true; }\<close> of the source are disjunctions in the same order.
\<close>

subsection \<open>Risk, access and decision\<close>

datatype command_risk = Safe | Caution | Dangerous

datatype command_decision = Ask | Allow | Deny string

datatype command_access = Access_Off | Access_Ask | Access_Auto | Access_Trusted

fun risk_level :: "command_risk \<Rightarrow> nat" where
  "risk_level Safe = 0"
| "risk_level Caution = 1"
| "risk_level Dangerous = 2"

text \<open>The variants are declared from the least to the most risky: that order on risks.\<close>

instantiation command_risk :: linorder
begin

definition less_eq_command_risk :: "command_risk \<Rightarrow> command_risk \<Rightarrow> bool" where
  "less_eq_command_risk r s = (risk_level r \<le> risk_level s)"

definition less_command_risk :: "command_risk \<Rightarrow> command_risk \<Rightarrow> bool" where
  "less_command_risk r s = (risk_level r < risk_level s)"

instance
proof
  fix x y :: command_risk
  show "x \<le> y \<Longrightarrow> y \<le> x \<Longrightarrow> x = y"
    by (cases x; cases y) (simp_all add: less_eq_command_risk_def)
qed (auto simp: less_eq_command_risk_def less_command_risk_def)

end

fun risk_as_str :: "command_risk \<Rightarrow> string" where
  "risk_as_str Safe = ''safe''"
| "risk_as_str Caution = ''caution''"
| "risk_as_str Dangerous = ''dangerous''"

fun access_as_str :: "command_access \<Rightarrow> string" where
  "access_as_str Access_Off = ''off''"
| "access_as_str Access_Ask = ''ask''"
| "access_as_str Access_Auto = ''auto''"
| "access_as_str Access_Trusted = ''trusted''"

definition default_access :: command_access where
  "default_access = Access_Ask"

definition off_message :: string where
  "off_message =
     ''running commands is turned off for AI agents. Ask the user to allow it in the ''
     @ ''RustSCP AI gateway window.''"

fun decide :: "command_access \<Rightarrow> command_risk \<Rightarrow> command_decision" where
  "decide Access_Off risk = Deny off_message"
| "decide Access_Ask risk = Ask"
| "decide Access_Auto risk = (case risk of Dangerous \<Rightarrow> Ask | _ \<Rightarrow> Allow)"
| "decide Access_Trusted risk = Allow"

subsection \<open>Words of a command\<close>

definition word_boundary :: "char option \<Rightarrow> bool" where
  "word_boundary c =
     (case c of None \<Rightarrow> True
      | Some b \<Rightarrow> \<not> (is_ascii_alphanumeric b \<or> b = CHR ''_'' \<or> b = CHR ''-'' \<or> b = CHR ''/''))"

definition char_before :: "string \<Rightarrow> nat \<Rightarrow> char option" where
  "char_before hay start = (if start = 0 then None else Some (hay ! (start - 1)))"

definition char_at :: "string \<Rightarrow> nat \<Rightarrow> char option" where
  "char_at hay i = (if i < length hay then Some (hay ! i) else None)"

text \<open>
  The search loop of \<open>has_word\<close> from position \<open>i\<close>. The empty needle, which the source
  refuses before the loop, stops it at once; every other round starts one character after the
  last occurrence found, so the rest of the text gets shorter.
\<close>

function has_word_from :: "string \<Rightarrow> string \<Rightarrow> nat \<Rightarrow> bool" where
  "has_word_from hay needle i =
     (if needle = [] then False
      else case str_find needle (drop i hay) of
        None \<Rightarrow> False
      | Some pos \<Rightarrow>
          (let start = i + pos; end' = start + length needle
           in if word_boundary (char_before hay start) \<and> word_boundary (char_at hay end')
              then True
              else has_word_from hay needle (start + 1)))"
  by pat_completeness auto
termination
proof (relation "measure (\<lambda>(hay, needle, i). length hay - i)", simp, goal_cases)
  case (1 hay needle i pos start end')
  then have "pos + length needle \<le> length hay - i"
    using str_find_Some [of needle "drop i hay" pos] by simp
  with 1 show ?case by (cases needle) auto
qed

declare has_word_from.simps [simp del]

definition has_word :: "string \<Rightarrow> string \<Rightarrow> bool" where
  "has_word hay needle = has_word_from hay needle 0"

subsection \<open>Classification\<close>

fun collapse_spaces :: "bool \<Rightarrow> string \<Rightarrow> string" where
  "collapse_spaces prev [] = []"
| "collapse_spaces prev (c # cs) =
     (if is_whitespace c
      then (if prev then collapse_spaces True cs else CHR '' '' # collapse_spaces True cs)
      else c # collapse_spaces False cs)"

definition normalize_command :: "string \<Rightarrow> string" where
  "normalize_command command = collapse_spaces False (to_ascii_lowercase command)"

definition is_fork_bomb :: "string \<Rightarrow> bool" where
  "is_fork_bomb c =
     (let despaced = filter (\<lambda>ch. \<not> is_whitespace ch) c
      in contains despaced '':(){:|:&};:'' \<or> contains despaced '':(){:|:&}'')"

definition pipes_download_into_shell :: "string \<Rightarrow> bool" where
  "pipes_download_into_shell c =
     ((has_word c ''curl'' \<or> has_word c ''wget'' \<or> has_word c ''fetch'') \<and>
      (contains c ''| sh'' \<or> contains c ''|sh'' \<or> contains c ''| bash'' \<or> contains c ''|bash''
       \<or> contains c ''| zsh'' \<or> contains c ''| python'' \<or> contains c ''|python''))"

definition deletes_files :: "string \<Rightarrow> bool" where
  "deletes_files c =
     (has_word c ''rm'' \<and>
      (contains c '' -rf'' \<or> contains c '' -fr'' \<or> contains c '' -r ''
       \<or> ends_with (trim_end c) '' -r'' \<or> contains c '' --recursive'' \<or> contains c '' --force''))"

definition writes_device :: "string \<Rightarrow> bool" where
  "writes_device c =
     (has_word c ''mkfs'' \<or> contains c ''mkfs.''
      \<or> (has_word c ''dd'' \<and> contains c ''of=/dev/'')
      \<or> ((has_word c ''shred'' \<or> has_word c ''wipefs'') \<and> contains c ''/dev/'')
      \<or> contains c ''> /dev/sd'' \<or> contains c ''>/dev/sd'' \<or> contains c ''> /dev/nvme'')"

definition is_dangerous :: "string \<Rightarrow> bool" where
  "is_dangerous c =
     (is_fork_bomb c
      \<or> pipes_download_into_shell c
      \<or> deletes_files c
      \<or> writes_device c
      \<or> list_ex (has_word c)
          [''shutdown'', ''reboot'', ''poweroff'', ''halt'', ''init 0'', ''init 6'']
      \<or> ((has_word c ''chmod'' \<or> has_word c ''chown'')
         \<and> (contains c '' -r'' \<or> contains c '' --recursive'')
         \<and> (contains c '' /'' \<or> contains c '' ~'' \<or> contains c '' *''))
      \<or> list_ex (has_word c) [''userdel'', ''groupdel'', ''deluser'']
      \<or> contains c ''drop table'' \<or> contains c ''drop database'' \<or> contains c ''truncate table''
      \<or> contains c ''kill -9 1'' \<or> contains c ''kill -9 -1'' \<or> has_word c ''killall5''
      \<or> contains c ''> /etc/'' \<or> contains c ''>/etc/'')"

definition changes_packages :: "string \<Rightarrow> bool" where
  "changes_packages c =
     list_ex (\<lambda>mgr. has_word c mgr \<and>
         (contains c ''install'' \<or> contains c ''remove'' \<or> contains c ''uninstall''
          \<or> contains c ''upgrade'' \<or> contains c ''update'' \<or> contains c '' -i'' \<or> contains c ''add''))
       [''apt'', ''apt-get'', ''dnf'', ''yum'', ''pacman'', ''zypper'', ''apk'', ''brew'', ''snap'',
        ''pip'', ''pip3'', ''npm'', ''pnpm'', ''yarn'', ''cargo'', ''gem'']"

definition read_only_service :: "string \<Rightarrow> bool" where
  "read_only_service c =
     (contains c ''status'' \<or> contains c ''list-'' \<or> contains c '' show''
      \<or> contains c ''is-active'' \<or> contains c ''is-enabled'' \<or> contains c ''is-failed''
      \<or> contains c ''--version'' \<or> contains c ''cat '')"

definition is_caution :: "string \<Rightarrow> bool" where
  "is_caution c =
     (has_word c ''sudo'' \<or> has_word c ''doas'' \<or> has_word c ''su''
      \<or> changes_packages c
      \<or> (list_ex (has_word c) [''systemctl'', ''service'', ''rc-service'', ''launchctl'']
         \<and> \<not> read_only_service c)
      \<or> list_ex (has_word c) [''kill'', ''pkill'', ''killall'']
      \<or> list_ex (has_word c)
          [''rm'', ''mv'', ''chmod'', ''chown'', ''chgrp'', ''ln'', ''truncate'', ''tee'', ''install'']
      \<or> contains c '' > '' \<or> contains c '' >> '' \<or> contains c ''>>''
      \<or> list_ex (has_word c)
          [''mkdir'', ''rmdir'', ''curl'', ''wget'', ''git'', ''docker'', ''podman'', ''systemd-run''])"

definition classify_command :: "string \<Rightarrow> command_risk" where
  "classify_command command =
     (let norm = normalize_command command
      in if is_dangerous norm then Dangerous
         else if is_caution norm then Caution else Safe)"

subsection \<open>Words: the loop against its specification\<close>

text \<open>\<open>needle\<close> occurs at \<open>s\<close> with a word boundary on both sides.\<close>

definition word_at :: "string \<Rightarrow> string \<Rightarrow> nat \<Rightarrow> bool" where
  "word_at hay needle s =
     (s + length needle \<le> length hay \<and> prefix needle (drop s hay)
      \<and> word_boundary (char_before hay s) \<and> word_boundary (char_at hay (s + length needle)))"

lemma has_word_from_iff:
  "i \<le> length hay \<Longrightarrow> needle \<noteq> [] \<Longrightarrow>
   has_word_from hay needle i \<longleftrightarrow> (\<exists>s \<ge> i. word_at hay needle s)"
proof (induction hay needle i rule: has_word_from.induct)
  case (1 hay needle i)
  show ?case
  proof (cases "str_find needle (drop i hay)")
    case None
    have "\<not> word_at hay needle s" if "s \<ge> i" for s
    proof
      assume w: "word_at hay needle s"
      then have "prefix needle (drop (s - i) (drop i hay))" "s - i \<le> length (drop i hay)"
        using that by (auto simp: word_at_def)
      with None show False using str_find_first by fastforce
    qed
    with None 1 show ?thesis by (auto simp: has_word_from.simps [of hay needle i])
  next
    case (Some pos)
    then have found: "prefix needle (drop (i + pos) hay)" "pos + length needle \<le> length hay - i"
      using str_find_Some [OF Some] by (simp_all add: add.commute)
    have least: "i + pos \<le> s" if "s \<ge> i" "word_at hay needle s" for s
    proof -
      have "prefix needle (drop (s - i) (drop i hay))" "s - i \<le> length (drop i hay)"
        using that by (auto simp: word_at_def)
      then obtain j where "j \<le> s - i" "str_find needle (drop i hay) = Some j"
        using str_find_first by blast
      with Some that show ?thesis by simp
    qed
    show ?thesis
    proof (cases "word_boundary (char_before hay (i + pos))
        \<and> word_boundary (char_at hay (i + pos + length needle))")
      case True
      then have "word_at hay needle (i + pos)" using found 1 by (simp add: word_at_def)
      then have "\<exists>s\<ge>i. word_at hay needle s" by (intro exI [of _ "i + pos"]) simp
      with True Some 1 show ?thesis
        by (simp add: has_word_from.simps [of hay needle i] Let_def)
    next
      case False
      then have no: "\<not> word_at hay needle (i + pos)" by (simp add: word_at_def)
      have "Suc (i + pos) \<le> length hay" using found 1 by (cases needle) auto
      then have "has_word_from hay needle (i + pos + 1) \<longleftrightarrow> (\<exists>s\<ge>i + pos + 1. word_at hay needle s)"
        using "1.IH" [OF _ Some refl refl False] 1 by simp
      moreover have "(\<exists>s\<ge>i + pos + 1. word_at hay needle s) \<longleftrightarrow> (\<exists>s\<ge>i. word_at hay needle s)"
        using least no by (metis Suc_eq_plus1 Suc_leI add_leE le_neq_implies_less)
      ultimately show ?thesis
        using False Some 1 by (auto simp: has_word_from.simps [of hay needle i] Let_def)
    qed
  qed
qed

lemma has_word_iff: "needle \<noteq> [] \<Longrightarrow> has_word hay needle \<longleftrightarrow> (\<exists>s. word_at hay needle s)"
  by (simp add: has_word_def has_word_from_iff)

lemma char_before_append: "char_before (a @ b) (length a) = (if a = [] then None else Some (last a))"
  by (simp add: char_before_def nth_append last_conv_nth)

lemma char_at_append:
  "char_at (a @ n @ b) (length a + length n) = (if b = [] then None else Some (hd b))"
  by (cases b) (simp_all add: char_at_def nth_append)

lemma word_at_split:
  "word_at hay needle s \<longleftrightarrow>
   (\<exists>a b. hay = a @ needle @ b \<and> length a = s
      \<and> word_boundary (if a = [] then None else Some (last a))
      \<and> word_boundary (if b = [] then None else Some (hd b)))"
proof
  assume w: "word_at hay needle s"
  then obtain b where b: "drop s hay = needle @ b" by (auto simp: word_at_def prefix_def)
  let ?a = "take s hay"
  from b have hay: "hay = ?a @ needle @ b" by (metis append_take_drop_id)
  have len: "length ?a = s" using w by (simp add: word_at_def)
  have "char_before hay s = (if ?a = [] then None else Some (last ?a))"
    using char_before_append [of ?a "needle @ b"] unfolding hay [symmetric] len .
  moreover have "char_at hay (s + length needle) = (if b = [] then None else Some (hd b))"
    using char_at_append [of ?a needle b] unfolding hay [symmetric] len .
  ultimately have "word_boundary (if ?a = [] then None else Some (last ?a))"
    and "word_boundary (if b = [] then None else Some (hd b))"
    using w unfolding word_at_def by simp_all
  with hay len show "\<exists>a b. hay = a @ needle @ b \<and> length a = s
      \<and> word_boundary (if a = [] then None else Some (last a))
      \<and> word_boundary (if b = [] then None else Some (hd b))"
    by blast
qed (auto simp: word_at_def char_at_append char_before_append)

lemma has_word_split:
  "needle \<noteq> [] \<Longrightarrow> has_word hay needle \<longleftrightarrow>
   (\<exists>a b. hay = a @ needle @ b
      \<and> word_boundary (if a = [] then None else Some (last a))
      \<and> word_boundary (if b = [] then None else Some (hd b)))"
  by (auto simp: has_word_iff word_at_split)

subsection \<open>Normalization\<close>

lemma collapse_spaces_whitespace:
  "ws \<noteq> [] \<Longrightarrow> (\<forall>c \<in> set ws. is_whitespace c) \<Longrightarrow>
   collapse_spaces prev (ws @ s) = (if prev then [] else '' '') @ collapse_spaces True s"
proof (induction ws arbitrary: prev)
  case (Cons w ws)
  then show ?case by (cases "ws = []") auto
qed simp

lemma collapse_spaces_run:
  assumes "ws \<noteq> []" "\<forall>c \<in> set ws. is_whitespace c" "vs \<noteq> []" "\<forall>c \<in> set vs. is_whitespace c"
  shows "collapse_spaces prev (a @ ws @ b) = collapse_spaces prev (a @ vs @ b)"
  using assms
proof (induction a arbitrary: prev)
  case Nil
  show ?case
    unfolding append_Nil collapse_spaces_whitespace [OF assms(1,2)]
      collapse_spaces_whitespace [OF assms(3,4)] ..
qed simp

lemma normalize_command_run:
  assumes "ws \<noteq> []" "\<forall>c \<in> set ws. is_whitespace c" "vs \<noteq> []" "\<forall>c \<in> set vs. is_whitespace c"
  shows "normalize_command (a @ ws @ b) = normalize_command (a @ vs @ b)"
  using collapse_spaces_run [of "map ascii_lower ws" "map ascii_lower vs"] assms
  by (simp add: normalize_command_def to_ascii_lowercase_def)

lemma normalize_command_case: "normalize_command (to_ascii_lowercase c) = normalize_command c"
  by (simp add: normalize_command_def to_ascii_lowercase_def comp_def)

lemma collapse_spaces_append:
  "collapse_spaces prev (a @ s) =
     collapse_spaces prev a @
     collapse_spaces (if a = [] then prev else is_whitespace (last a)) s"
  by (induction a arbitrary: prev) auto

lemma word_boundary_ascii_lower [simp]:
  "word_boundary (Some (ascii_lower c)) = word_boundary (Some c)"
  by (auto simp: word_boundary_def ascii_lower_def is_ascii_alphanumeric_def is_ascii_upper_def
      is_ascii_lower_def is_ascii_digit_def Let_def code_char_of)

lemma whitespace_boundary: "is_whitespace c \<Longrightarrow> word_boundary (Some c)"
  by (auto simp: word_boundary_def is_ascii_alphanumeric_def is_ascii_upper_def is_whitespace_def
      is_ascii_lower_def is_ascii_digit_def Let_def code_def)

lemma word_boundary_collapse:
  "a \<noteq> [] \<Longrightarrow> word_boundary (Some (last a)) \<Longrightarrow>
   collapse_spaces prev a = [] \<or> word_boundary (Some (last (collapse_spaces prev a)))"
proof (induction a arbitrary: prev rule: rev_induct)
  case (snoc x a)
  have "word_boundary (Some CHR '' '')" by code_simp
  moreover have "a = [] \<or> \<not> is_whitespace (last a) \<or> collapse_spaces prev a = []
      \<or> word_boundary (Some (last (collapse_spaces prev a)))"
    using snoc.IH [of prev] whitespace_boundary by blast
  ultimately show ?case using snoc.prems
    by (auto simp: collapse_spaces_append)
qed simp

lemma classify_dangerous: "is_dangerous (normalize_command c) \<Longrightarrow> classify_command c = Dangerous"
  by (simp add: classify_command_def)

subsection \<open>Properties\<close>

text \<open>
  \<open>has_word\<close> finds exactly the occurrences at a word edge: the needle is not empty and the
  text splits into a part before it and a part after it, neither of which touches it with a
  letter, a digit, \<open>_\<close>, \<open>-\<close> or \<open>/\<close>.
\<close>
theorem has_word_correct:
  "has_word hay needle \<longleftrightarrow>
     needle \<noteq> [] \<and>
     (\<exists>a b. hay = a @ needle @ b
        \<and> word_boundary (if a = [] then None else Some (last a))
        \<and> word_boundary (if b = [] then None else Some (hd b)))"
  by (cases "needle = []")
     (simp_all add: has_word_split, simp add: has_word_def has_word_from.simps)

text \<open>
  C1: Which command runs without the person being asked: under \<open>Trusted\<close> every one, under
  \<open>Auto\<close> exactly the ones not classified dangerous, under \<open>Off\<close> and \<open>Ask\<close> none; and a
  riskier command never gets a weaker decision.
\<close>
theorem commands_run_unasked:
  "decide acc (classify_command c) = Allow \<longleftrightarrow>
     acc = Access_Trusted \<or> (acc = Access_Auto \<and> \<not> is_dangerous (normalize_command c))"
  by (cases acc) (auto simp: classify_command_def)

text \<open>
  Spacing and ASCII case do not change the class of a command: a run of white space reads
  as one blank, and capitals read as small letters.
\<close>
theorem classify_ignores_spacing_and_case:
  assumes "ws \<noteq> []" and "\<forall>c \<in> set ws. is_whitespace c"
  shows "classify_command (a @ ws @ b) = classify_command (a @ '' '' @ b)
    \<and> classify_command (to_ascii_lowercase a) = classify_command a"
proof
  have "normalize_command (a @ ws @ b) = normalize_command (a @ '' '' @ b)"
    by (rule normalize_command_run [OF assms]) (simp_all add: is_whitespace_def code_def)
  then show "classify_command (a @ ws @ b) = classify_command (a @ '' '' @ b)"
    by (simp add: classify_command_def)
  show "classify_command (to_ascii_lowercase a) = classify_command a"
    by (simp add: classify_command_def normalize_command_case)
qed

theorem classify_ignores_spacing_and_case_witness:
  "classify_command (''rm'' @ ''   '' @ ''-RF /'') = classify_command (''rm'' @ '' '' @ ''-RF /'')"
proof -
  have "\<forall>c \<in> set ''   ''. is_whitespace c" by code_simp
  then show ?thesis
    using classify_ignores_spacing_and_case [of "''   ''" "''rm''" "''-RF /''"] by simp
qed

text \<open>
  However it is embedded, \<open>rm\<close> at a word edge followed by white space and \<open>-rf\<close> makes
  the whole command dangerous, so only the level \<open>Trusted\<close> runs it without asking.
\<close>
theorem embedded_rm_rf_is_dangerous:
  assumes "a \<noteq> [] \<Longrightarrow> word_boundary (Some (last a))"
    and "ws \<noteq> []" and "\<forall>c \<in> set ws. is_whitespace c"
  shows "classify_command (a @ ''rm'' @ ws @ ''-rf'' @ b) = Dangerous"
proof -
  let ?c = "a @ ''rm'' @ ws @ ''-rf'' @ b" and ?a = "collapse_spaces False (map ascii_lower a)"
  have "normalize_command ?c = normalize_command ((a @ ''rm'') @ '' '' @ (''-rf'' @ b))"
    using normalize_command_run [of ws "'' ''" "a @ ''rm''" "''-rf'' @ b"] assms(2,3)
    by (simp add: is_whitespace_def code_def)
  moreover have "map ascii_lower ''rm'' = ''rm''" "map ascii_lower ''-rf'' = ''-rf''"
    "ascii_lower CHR '' '' = CHR '' ''" "\<not> is_whitespace CHR ''r''" "\<not> is_whitespace CHR ''m''"
    "\<not> is_whitespace CHR ''-''" "\<not> is_whitespace CHR ''f''" "is_whitespace CHR '' ''"
    by code_simp+
  ultimately have norm: "normalize_command ?c =
      ?a @ ''rm'' @ '' -rf'' @ collapse_spaces False (map ascii_lower b)"
    by (simp add: normalize_command_def to_ascii_lowercase_def collapse_spaces_append)
  have "?a = [] \<or> word_boundary (Some (last ?a))"
    using word_boundary_collapse [of "map ascii_lower a" False] assms(1)
    by (cases "a = []") (auto simp: last_map)
  moreover have "word_boundary (Some CHR '' '')" by code_simp
  ultimately have "has_word (normalize_command ?c) ''rm''"
    unfolding norm has_word_split [of "''rm''", simplified]
    by (intro exI [of _ ?a] exI [of _ "'' -rf'' @ collapse_spaces False (map ascii_lower b)"])
       (auto simp: word_boundary_def)
  moreover have "contains (normalize_command ?c) '' -rf''"
    unfolding norm contains_iff by (metis append.assoc)
  ultimately show ?thesis
    by (intro classify_dangerous) (simp add: is_dangerous_def deletes_files_def)
qed

theorem embedded_rm_rf_is_dangerous_witness:
  "classify_command (''cd /tmp; '' @ ''rm'' @ ''  '' @ ''-rf'' @ '' x'') = Dangerous"
proof (rule embedded_rm_rf_is_dangerous)
  show "word_boundary (Some (last ''cd /tmp; ''))" by code_simp
  show "\<forall>c \<in> set ''  ''. is_whitespace c" by code_simp
qed simp

subsection \<open>Deletions that are not caught\<close>

text \<open>
  Commands made of few words: which words they hold, and where they can be cut at a blank, decides
  every test of the policy.
\<close>

definition word_char :: "char \<Rightarrow> bool" where
  "word_char c = (\<not> word_boundary (Some c))"

lemma has_word_edges:
  assumes "n \<noteq> []"
  shows "has_word hay n \<longleftrightarrow>
     (\<exists>x y. hay = x @ n @ y \<and> (x = [] \<or> \<not> word_char (last x)) \<and> (y = [] \<or> \<not> word_char (hd y)))"
proof -
  have e: "word_boundary (if z = [] then None else Some c) \<longleftrightarrow> z = [] \<or> \<not> word_char c" for z :: string and c
    by (simp add: word_char_def word_boundary_def)
  show ?thesis by (simp only: has_word_split [OF assms] e)
qed

lemma has_word_solid:
  assumes "\<forall>c \<in> set u. word_char c" and "\<forall>c \<in> set n. word_char c" and "n \<noteq> []" and "\<not> word_char b"
  shows "has_word (u @ b # v) n \<longleftrightarrow> n = u \<or> has_word v n"
proof
  assume "has_word (u @ b # v) n"
  then obtain x y where xy: "u @ b # v = x @ n @ y" "x = [] \<or> \<not> word_char (last x)" "y = [] \<or> \<not> word_char (hd y)"
    using has_word_edges [OF assms(3)] by auto
  show "n = u \<or> has_word v n"
  proof (cases "length x \<le> length u")
    case True
    define z where "z = drop (length x) u"
    have "x = take (length x) u" using arg_cong [OF xy(1), of "take (length x)"] True by simp
    then have z: "u = x @ z" unfolding z_def by (metis append_take_drop_id)
    then have "z @ b # v = n @ y" using xy(1) by simp
    note z = z this
    have x: "x = []"
    proof (rule ccontr)
      assume "x \<noteq> []"
      then have "last x \<in> set u" by (simp add: z(1))
      then show False using assms(1) xy(2) \<open>x \<noteq> []\<close> by blast
    qed
    then have e: "u @ b # v = n @ y" using z by simp
    show ?thesis
    proof (cases "length n < length u")
      case True
      then obtain w where "u = n @ w" "w \<noteq> []" "y = w @ b # v" using e by (auto simp: append_eq_append_conv2)
      then show ?thesis using assms(1) xy(3) by (cases w) auto
    next
      case False
      then obtain w where "n = u @ w" "w @ y = b # v" using e by (auto simp: append_eq_append_conv2)
      then show ?thesis using assms(2,4) by (cases w) auto
    qed
  next
    case False
    then obtain w where w: "x = u @ b # w" "v = w @ n @ y" using xy(1)
      by (auto simp: append_eq_append_conv2 append_eq_Cons_conv Cons_eq_append_conv)
    then have "w = [] \<or> \<not> word_char (last w)" using xy(2) by (cases w rule: rev_cases) auto
    then show ?thesis using w(2) xy(3) unfolding has_word_edges [OF assms(3)]
      by (intro disjI2 exI [of _ w] exI [of _ y]) auto
  qed
next
  assume "n = u \<or> has_word v n"
  then show "has_word (u @ b # v) n"
  proof
    assume "n = u"
    then show ?thesis unfolding has_word_edges [OF assms(3)] using assms(4)
      by (intro exI [of _ "[]"] exI [of _ "b # v"]) simp
  next
    assume "has_word v n"
    then obtain x y where "v = x @ n @ y" "x = [] \<or> \<not> word_char (last x)" "y = [] \<or> \<not> word_char (hd y)"
      using has_word_edges [OF assms(3)] by auto
    then show ?thesis unfolding has_word_edges [OF assms(3)] using assms(4)
      by (intro exI [of _ "u @ b # x"] exI [of _ y]) auto
  qed
qed

lemma has_word_one:
  assumes "\<forall>c \<in> set u. word_char c" and "n \<noteq> []"
  shows "has_word u n \<longleftrightarrow> n = u"
proof
  assume "has_word u n"
  then obtain x y where xy: "u = x @ n @ y" "x = [] \<or> \<not> word_char (last x)" "y = [] \<or> \<not> word_char (hd y)"
    using has_word_edges [OF assms(2)] by auto
  then have "x = []" "y = []" using assms(1) by (metis UnCI last_in_set set_append, metis UnCI hd_in_set set_append)
  then show "n = u" using xy(1) by simp
next
  assume "n = u"
  then show "has_word u n" unfolding has_word_edges [OF assms(2)]
    by (intro exI [of _ "[]"]) simp
qed


lemma has_word_skip:
  assumes "\<forall>c \<in> set bs. \<not> word_char c" and "\<forall>c \<in> set n. word_char c" and "n \<noteq> []"
  shows "has_word (bs @ v) n \<longleftrightarrow> has_word v n"
  using assms
proof (induction bs)
  case (Cons b bs)
  then show ?case using has_word_solid [of "[]" n b "bs @ v"] by simp
qed simp

lemma contains_set: "contains c n \<Longrightarrow> set n \<subseteq> set c"
  by (auto simp: contains_iff)

text \<open>Where a text can be cut at a blank.\<close>

definition blank_cuts :: "string \<Rightarrow> (string \<times> string) set" where
  "blank_cuts c = {(x, y). c = x @ CHR '' '' # y}"

lemma blank_cuts_none: "CHR '' '' \<notin> set c \<Longrightarrow> blank_cuts c = {}"
  by (auto simp: blank_cuts_def)

lemma blank_cuts_at:
  assumes "CHR '' '' \<notin> set u"
  shows "blank_cuts (u @ CHR '' '' # v) = insert (u, v) ((\<lambda>(x, y). (u @ CHR '' '' # x, y)) ` blank_cuts v)"
proof -
  have cut: "(x = u \<and> y = v) \<or> (\<exists>z. x = u @ CHR '' '' # z \<and> v = z @ CHR '' '' # y)"
    if "u @ CHR '' '' # v = x @ CHR '' '' # y" for x y
    using that assms
  proof (induction u arbitrary: x)
    case Nil
    then show ?case by (cases x) auto
  next
    case (Cons a u)
    then show ?case by (cases x) auto
  qed
  have "(x, y) \<in> blank_cuts (u @ CHR '' '' # v) \<longleftrightarrow>
      (x, y) \<in> insert (u, v) ((\<lambda>(x, y). (u @ CHR '' '' # x, y)) ` blank_cuts v)" for x y
    using cut [of x y] by (auto simp: blank_cuts_def image_iff)
  then show ?thesis by auto
qed

lemma contains_blank:
  "contains c (p @ CHR '' '' # s) \<longleftrightarrow> (\<exists>(x, y) \<in> blank_cuts c. suffix p x \<and> prefix s y)"
  unfolding contains_iff blank_cuts_def suffix_def prefix_def by fastforce

lemma ends_with_blank: "ends_with c (CHR '' '' # s) \<Longrightarrow> \<exists>x. (x, s) \<in> blank_cuts c"
proof -
  assume "ends_with c (CHR '' '' # s)"
  then have "take (Suc (length s)) (rev c) = rev (CHR '' '' # s)" by (simp add: ends_with_def starts_with_def)
  then have "rev c = rev (CHR '' '' # s) @ drop (Suc (length s)) (rev c)" by (metis append_take_drop_id)
  then have "c = rev (drop (Suc (length s)) (rev c)) @ CHR '' '' # s" by (metis rev_append rev_rev_ident)
  then show ?thesis unfolding blank_cuts_def by blast
qed

text \<open>The words the policy looks for.\<close>

definition policy_words :: "string list" where
  "policy_words =
     [''rm'', ''curl'', ''wget'', ''fetch'', ''mkfs'', ''dd'', ''shred'', ''wipefs'', ''shutdown'', ''reboot'', ''poweroff'', ''halt'',
      ''chmod'', ''chown'', ''userdel'', ''groupdel'', ''deluser'', ''killall5'', ''sudo'', ''doas'', ''su'', ''apt'', ''apt-get'', ''dnf'',
      ''yum'', ''pacman'', ''zypper'', ''apk'', ''brew'', ''snap'', ''pip'', ''pip3'', ''npm'', ''pnpm'', ''yarn'', ''cargo'', ''gem'',
      ''systemctl'', ''service'', ''rc-service'', ''launchctl'', ''kill'', ''pkill'', ''killall'', ''mv'', ''chgrp'', ''ln'', ''truncate'',
      ''tee'', ''install'', ''mkdir'', ''rmdir'', ''git'', ''docker'', ''podman'', ''systemd-run'']"

text \<open>A name of letters, digits, \<open>_\<close>, \<open>-\<close> and \<open>/\<close> that is no option and no word of the policy.\<close>

definition simple_name :: "string \<Rightarrow> bool" where
  "simple_name w =
     (w \<noteq> [] \<and> hd w \<noteq> CHR ''-'' \<and> (\<forall>c \<in> set w. word_char c) \<and> to_ascii_lowercase w \<notin> set policy_words)"

lemma word_char_plain: "word_char c \<Longrightarrow> \<not> is_whitespace c"
  using whitespace_boundary by (auto simp: word_char_def)

lemma word_char_lower [simp]: "word_char (ascii_lower c) = word_char c"
  by (simp add: word_char_def)

lemma collapse_words: "\<forall>c \<in> set w. word_char c \<Longrightarrow> collapse_spaces prev w = w"
  by (induction w arbitrary: prev) (auto dest: word_char_plain)

lemma policy_words_chars: "\<forall>w \<in> set policy_words. w \<noteq> [] \<and> (\<forall>c \<in> set w. word_char c) \<and> CHR ''/'' \<notin> set w"
  by code_simp


text \<open>A cut that none of the two-word patterns of the policy covers.\<close>

definition harmless_cut :: "string \<Rightarrow> string \<Rightarrow> bool" where
  "harmless_cut x y =
     (last x \<notin> set ''petl'' \<or> (hd y = CHR ''-'' \<and> y \<noteq> [] \<and> \<not> prefix ''-9'' y))"

lemma harmless_cutD:
  assumes "\<forall>(x, y) \<in> blank_cuts c. harmless_cut x y" and "p \<noteq> []" and "last p \<in> set ''petl''" and "s \<noteq> []"
    and "hd s \<noteq> CHR ''-'' \<or> prefix ''-9'' s"
  shows "\<not> contains c (p @ CHR '' '' # s)"
proof
  assume "contains c (p @ CHR '' '' # s)"
  then obtain x y where xy: "(x, y) \<in> blank_cuts c" "suffix p x" "prefix s y" unfolding contains_blank by blast
  then have "last x = last p" "hd y = hd s" using assms(2,4) by (auto simp: suffix_def prefix_def)
  moreover have "prefix ''-9'' s \<Longrightarrow> prefix ''-9'' y" using xy(3) prefix_order.trans by blast
  moreover have "harmless_cut x y" using assms(1) xy(1) by blast
  ultimately show False using assms(3,5) by (auto simp: harmless_cut_def)
qed

lemma no_risky_words:
  assumes words: "\<forall>w \<in> set policy_words. w \<noteq> ''rm'' \<longrightarrow> \<not> has_word c w"
    and chars: "set c \<inter> set '':.=>'' = {}" and cuts: "\<forall>(x, y) \<in> blank_cuts c. harmless_cut x y"
  shows "is_dangerous c \<longleftrightarrow> deletes_files c" and "is_caution c \<longleftrightarrow> has_word c ''rm''"
proof -
  have no: "\<not> contains c n" if "set n \<inter> set '':.=>'' \<noteq> {}" for n using contains_set [of c n] that chars by blast
  have fork: "\<not> is_fork_bomb c"
    using contains_set [of "filter (\<lambda>ch. \<not> is_whitespace ch) c" "'':(){:|:&};:''"]
      contains_set [of "filter (\<lambda>ch. \<not> is_whitespace ch) c" "'':(){:|:&}''"] chars by (auto simp: is_fork_bomb_def Let_def)
  have two: "\<not> contains c ''drop table''" "\<not> contains c ''drop database''" "\<not> contains c ''truncate table''"
    "\<not> contains c ''kill -9 1''" "\<not> contains c ''kill -9 -1''" "\<not> contains c ''init 0''" "\<not> contains c ''init 6''"
    using harmless_cutD [OF cuts, of "''drop''" "''table''"] harmless_cutD [OF cuts, of "''drop''" "''database''"]
      harmless_cutD [OF cuts, of "''truncate''" "''table''"] harmless_cutD [OF cuts, of "''kill''" "''-9 1''"]
      harmless_cutD [OF cuts, of "''kill''" "''-9 -1''"] harmless_cutD [OF cuts, of "''init''" "''0''"]
      harmless_cutD [OF cuts, of "''init''" "''6''"] by simp_all
  have init: "\<not> has_word c ''init 0''" "\<not> has_word c ''init 6''"
    using two(6,7) has_word_edges [of "''init 0''" c] has_word_edges [of "''init 6''" c] unfolding contains_iff by blast+
  have w: "\<not> has_word c n" if "n \<in> set policy_words" "n \<noteq> ''rm''" for n using words that by blast
  note ws = words [unfolded policy_words_def, simplified]
  show "is_dangerous c \<longleftrightarrow> deletes_files c"
    unfolding is_dangerous_def pipes_download_into_shell_def writes_device_def
    using fork two init ws no by simp
  show "is_caution c \<longleftrightarrow> has_word c ''rm''"
    unfolding is_caution_def changes_packages_def using ws no by simp
qed

lemma plain_lower:
  assumes "simple_name w"
  shows "to_ascii_lowercase w \<noteq> []" "\<forall>c \<in> set (to_ascii_lowercase w). word_char c"
    "to_ascii_lowercase w \<notin> set policy_words" "hd (to_ascii_lowercase w) \<noteq> CHR ''-''"
proof -
  show "to_ascii_lowercase w \<noteq> []" "\<forall>c \<in> set (to_ascii_lowercase w). word_char c"
    "to_ascii_lowercase w \<notin> set policy_words"
    using assms by (auto simp: simple_name_def to_ascii_lowercase_def)
  have "c = CHR ''-''" if "ascii_lower c = CHR ''-''" for c
  proof -
    have "code (ascii_lower c) = 45" using that by (simp add: code_def)
    then have "\<not> is_ascii_upper c"
      by (auto simp: ascii_lower_def is_ascii_upper_def Let_def code_char_of split: if_splits)
    then show "c = CHR ''-''" using that by (simp add: ascii_lower_def)
  qed
  then show "hd (to_ascii_lowercase w) \<noteq> CHR ''-''" using assms
    by (cases w) (auto simp: simple_name_def to_ascii_lowercase_def)
qed


lemma lower_append: "to_ascii_lowercase (a @ b) = to_ascii_lowercase a @ to_ascii_lowercase b"
  by (simp add: to_ascii_lowercase_def)

lemma lower_simps: "to_ascii_lowercase [] = []" "to_ascii_lowercase (c # s) = ascii_lower c # to_ascii_lowercase s"
  by (simp_all add: to_ascii_lowercase_def)

lemma collapse_word: "w \<noteq> [] \<Longrightarrow> \<forall>c \<in> set w. word_char c \<Longrightarrow> collapse_spaces prev (w @ s) = w @ collapse_spaces False s"
  by (simp add: collapse_spaces_append collapse_words word_char_plain)

lemma ascii_values:
  "ascii_lower CHR ''/'' = CHR ''/''" "ascii_lower CHR ''r'' = CHR ''r''" "ascii_lower CHR ''m'' = CHR ''m''"
  "ascii_lower CHR ''-'' = CHR ''-''" "ascii_lower CHR ''f'' = CHR ''f''" "ascii_lower CHR '' '' = CHR '' ''"
  "ascii_lower CHR '';'' = CHR '';''" "ascii_lower CHR ''&'' = CHR ''&''" "ascii_lower CHR ''|'' = CHR ''|''"
  by code_simp+

lemma char_values:
  "word_char CHR ''/''" "word_char CHR ''r''" "word_char CHR ''m''" "word_char CHR ''-''" "word_char CHR ''f''"
  "\<not> word_char CHR '' ''" "\<not> word_char CHR '';''" "\<not> word_char CHR ''&''" "\<not> word_char CHR ''|''"
  "\<not> word_char CHR '':''" "\<not> word_char CHR ''.''" "\<not> word_char CHR ''=''" "\<not> word_char CHR ''>''"
  "is_whitespace CHR '' ''" "\<not> is_whitespace CHR '';''" "\<not> is_whitespace CHR ''&''" "\<not> is_whitespace CHR ''|''"
  "\<not> is_whitespace CHR ''/''" "\<not> is_whitespace CHR ''r''" "\<not> is_whitespace CHR ''m''" "\<not> is_whitespace CHR ''-''"
  "\<not> is_whitespace CHR ''f''"
  by code_simp+

text \<open>The two shapes, normalized: a deletion called by its path, and \<open>-r\<close> before the end of a command.\<close>

lemma by_path_normalized:
  assumes "\<forall>c \<in> set dir. word_char c" and "flag \<in> {''-rf'', ''-fr'', ''-r''}" and "simple_name target"
  shows "normalize_command (dir @ ''/rm '' @ flag @ '' '' @ target) =
    (to_ascii_lowercase dir @ ''/rm'') @ CHR '' '' # flag @ CHR '' '' # to_ascii_lowercase target"
proof -
  have d: "\<forall>c \<in> set (to_ascii_lowercase dir). word_char c" using assms(1) by (auto simp: to_ascii_lowercase_def)
  have t: "collapse_spaces p (to_ascii_lowercase target) = to_ascii_lowercase target" for p
    using plain_lower(2) [OF assms(3)] by (rule collapse_words)
  have "collapse_spaces False (to_ascii_lowercase dir @ ''/rm '' @ s) = to_ascii_lowercase dir @ ''/rm '' @ collapse_spaces True s" for s
    using d by (cases "to_ascii_lowercase dir = []") (simp_all add: collapse_word char_values)
  then show ?thesis using assms(2) t
    by (auto simp: normalize_command_def lower_append lower_simps ascii_values char_values)
qed

lemma before_end_normalized:
  assumes "simple_name target" and "sep \<in> {'';'', ''&&'', ''||''}" and "gap \<in> {[], '' ''}" and "simple_name rest"
  shows "normalize_command (''rm '' @ target @ '' -r'' @ sep @ gap @ rest) =
    ''rm'' @ CHR '' '' # to_ascii_lowercase target @ CHR '' '' # ''-r'' @ sep @ gap @ to_ascii_lowercase rest"
proof -
  have t: "collapse_spaces p (to_ascii_lowercase target @ s) = to_ascii_lowercase target @ collapse_spaces False s" for p s
    using plain_lower(1,2) [OF assms(1)] by (rule collapse_word)
  have r: "collapse_spaces p (to_ascii_lowercase rest) = to_ascii_lowercase rest" for p
    using plain_lower(2) [OF assms(4)] by (rule collapse_words)
  show ?thesis using assms(2,3) t r
    by (auto simp: normalize_command_def lower_append lower_simps ascii_values char_values)
qed

lemma by_path_safe:
  assumes "\<forall>c \<in> set dir. word_char c" and "flag \<in> {''-rf'', ''-fr'', ''-r''}" and "simple_name target"
  shows "classify_command (dir @ ''/rm '' @ flag @ '' '' @ target) = Safe"
proof -
  let ?d = "to_ascii_lowercase dir @ ''/rm''" and ?t = "to_ascii_lowercase target"
  let ?c = "?d @ CHR '' '' # flag @ CHR '' '' # ?t"
  have d: "\<forall>c \<in> set ?d. word_char c" using assms(1) by (auto simp: to_ascii_lowercase_def char_values)
  have f: "\<forall>c \<in> set flag. word_char c" using assms(2) by (auto simp: char_values)
  note t = plain_lower [OF assms(3)]
  have words: "\<not> has_word ?c w" if w: "w \<in> set policy_words" for w
  proof -
    have w': "w \<noteq> []" "\<forall>c \<in> set w. word_char c" "CHR ''/'' \<notin> set w" using policy_words_chars w by blast+
    have "w \<noteq> ?d" using w'(3) by auto
    moreover have "w \<noteq> flag" using w assms(2) by (auto simp: policy_words_def)
    moreover have "w \<noteq> ?t" using w t(3) by auto
    ultimately show ?thesis
      using has_word_solid [OF d w'(2,1) char_values(6)] has_word_solid [OF f w'(2,1) char_values(6)]
        has_word_one [OF t(2) w'(1)] by simp
  qed
  have chars: "set ?c \<inter> set '':.=>'' = {}" using d f t(2) char_values by auto
  have free: "CHR '' '' \<notin> set ?d" "CHR '' '' \<notin> set flag" "CHR '' '' \<notin> set ?t" using d f t(2) char_values(6) by blast+
  have "blank_cuts ?c = {(?d, flag @ CHR '' '' # ?t), (?d @ CHR '' '' # flag, ?t)}"
    unfolding blank_cuts_at [OF free(1)] blank_cuts_at [OF free(2)] blank_cuts_none [OF free(3)] by simp
  then have cuts: "\<forall>(x, y) \<in> blank_cuts ?c. harmless_cut x y" using assms(2) by (auto simp: harmless_cut_def)
  have "''rm'' \<in> set policy_words" by (simp add: policy_words_def)
  then have "\<not> has_word ?c ''rm''" using words by blast
  then have "\<not> is_dangerous ?c" "\<not> is_caution ?c"
    using no_risky_words [OF _ chars cuts] words by (auto simp: deletes_files_def)
  then show ?thesis unfolding classify_command_def by_path_normalized [OF assms] Let_def by simp
qed

lemma before_end_caution:
  assumes "simple_name target" and "sep \<in> {'';'', ''&&'', ''||''}" and "gap \<in> {[], '' ''}" and "simple_name rest"
  shows "classify_command (''rm '' @ target @ '' -r'' @ sep @ gap @ rest) = Caution"
proof -
  let ?t = "to_ascii_lowercase target" and ?r = "to_ascii_lowercase rest"
  let ?c = "''rm'' @ CHR '' '' # ?t @ CHR '' '' # ''-r'' @ sep @ gap @ ?r"
  note t = plain_lower [OF assms(1)] and r = plain_lower [OF assms(4)]
  have seps: "\<forall>c \<in> set (sep @ gap). \<not> word_char c" "sep \<noteq> []" using assms(2,3) char_values by auto
  have words: "has_word ?c w \<longleftrightarrow> w = ''rm''" if w: "w \<in> set policy_words" for w
  proof -
    have w': "w \<noteq> []" "\<forall>c \<in> set w. word_char c" using policy_words_chars w by blast+
    have rm: "\<forall>c \<in> set ''rm''. word_char c" "\<forall>c \<in> set ''-r''. word_char c" using char_values by simp_all
    have "w \<noteq> ?t" "w \<noteq> ?r" using w t(3) r(3) by auto
    moreover have "w \<noteq> ''-r''" using w by (auto simp: policy_words_def)
    moreover obtain b bs where b: "sep @ gap = b # bs" using seps(2) by (cases sep) auto
    then have e: "''-r'' @ sep @ gap @ ?r = ''-r'' @ b # bs @ ?r" by (metis append.assoc append_Cons)
    moreover have "\<not> word_char b" "\<forall>c \<in> set bs. \<not> word_char c" using seps(1) b by auto
    ultimately show ?thesis
      using has_word_solid [OF rm(1) w'(2,1) char_values(6), of "?t @ CHR '' '' # ''-r'' @ sep @ gap @ ?r"]
        has_word_solid [OF t(2) w'(2,1) char_values(6), of "''-r'' @ sep @ gap @ ?r"]
        has_word_solid [OF rm(2) w'(2,1), of b "bs @ ?r"] has_word_skip [OF _ w'(2,1), of bs ?r] has_word_one [OF r(2) w'(1)]
      by metis
  qed
  have chars: "set ?c \<inter> set '':.=>'' = {}" using t(2) r(2) assms(2,3) char_values by auto
  have free: "CHR '' '' \<notin> set ?t" "CHR '' '' \<notin> set ?r" "CHR '' '' \<notin> set sep" "CHR '' '' \<notin> set ''rm''" "CHR '' '' \<notin> set ''-r''"
    using t(2) r(2) assms(2) char_values(6) by auto
  have ends: "blank_cuts (''-r'' @ sep @ gap @ ?r) = (if gap = [] then {} else {(''-r'' @ sep, ?r)})"
  proof (cases "gap = []")
    case True
    then show ?thesis using free by (simp add: blank_cuts_none)
  next
    case False
    then have "''-r'' @ sep @ gap @ ?r = (''-r'' @ sep) @ CHR '' '' # ?r" using assms(3) by simp
    moreover have s: "CHR '' '' \<notin> set (''-r'' @ sep)" using free by auto
    ultimately show ?thesis using False blank_cuts_at [OF s, of ?r] blank_cuts_none [OF free(2)] by simp
  qed
  have all: "blank_cuts ?c \<subseteq> {(''rm'', ?t @ CHR '' '' # ''-r'' @ sep @ gap @ ?r),
      (''rm'' @ CHR '' '' # ?t, ''-r'' @ sep @ gap @ ?r), (''rm'' @ CHR '' '' # ?t @ CHR '' '' # ''-r'' @ sep, ?r)}"
    unfolding blank_cuts_at [OF free(4)] blank_cuts_at [OF free(1)] ends by auto
  have cuts: "\<forall>(x, y) \<in> blank_cuts ?c. harmless_cut x y"
    using all assms(2) by (fastforce simp: harmless_cut_def)
  have heads: "\<not> prefix s y" if "s \<in> {''-rf'', ''-fr'', ''-r '', ''--recursive'', ''--force''}" and "(x, y) \<in> blank_cuts ?c" for s x y
    using that all t(1,4) r(1,4) assms(2) by (cases ?t; cases ?r) auto
  have no: "\<not> contains ?c (CHR '' '' # s)" if "s \<in> {''-rf'', ''-fr'', ''-r '', ''--recursive'', ''--force''}" for s
    using heads [OF that] contains_blank [of ?c "[]" s] by auto
  have "\<not> is_whitespace (last ?r)" using r(1,2) word_char_plain by simp
  then have "trim_end ?c = ?c" using r(1)
    by (simp add: trim_end_def trim_end_matches_def hd_rev dropWhile_eq_self_iff)
  moreover have "\<not> ends_with ?c '' -r''"
  proof
    assume "ends_with ?c '' -r''"
    then obtain x where "(x, ''-r'') \<in> blank_cuts ?c" using ends_with_blank by blast
    then show False using all t(1,4) r(1,4) assms(2) by (cases ?t; cases ?r) auto
  qed
  ultimately have "\<not> deletes_files ?c"
    using no [of "''-rf''"] no [of "''-fr''"] no [of "''-r ''"] no [of "''--recursive''"] no [of "''--force''"]
    unfolding deletes_files_def by simp
  moreover have "has_word ?c ''rm''" using words by (simp add: policy_words_def)
  ultimately have "\<not> is_dangerous ?c" "is_caution ?c" using no_risky_words [OF _ chars cuts] words by auto
  then show ?thesis unfolding classify_command_def before_end_normalized [OF assms] Let_def by simp
qed

lemma by_name_dangerous:
  assumes "simple_name target"
  shows "classify_command (''rm -rf '' @ target) = Dangerous" and "classify_command (''rm '' @ target @ '' -r'') = Dangerous"
proof -
  show "classify_command (''rm -rf '' @ target) = Dangerous"
    using embedded_rm_rf_is_dangerous [of "[]" "'' ''" "'' '' @ target"] by (simp add: char_values)
  let ?t = "to_ascii_lowercase target" and ?c = "''rm'' @ CHR '' '' # to_ascii_lowercase target @ CHR '' '' # ''-r''"
  note t = plain_lower [OF assms]
  have n: "normalize_command (''rm '' @ target @ '' -r'') = ?c"
    using t by (simp add: normalize_command_def lower_append lower_simps ascii_values char_values collapse_word)
  have "has_word ?c ''rm''" using has_word_solid [of "''rm''" "''rm''" "CHR '' ''"] by (simp add: char_values)
  moreover have "ends_with (trim_end ?c) '' -r''"
    by (simp add: trim_end_def trim_end_matches_def ends_with_def starts_with_def char_values)
  ultimately show "classify_command (''rm '' @ target @ '' -r'') = Dangerous"
    using n by (intro classify_dangerous) (simp add: is_dangerous_def deletes_files_def)
qed



end
