(* ===== verification/Bytes.thy ===== *)
theory Bytes
  imports Prelude "HOL-Library.Word"
begin

section \<open>Bytes\<close>

text \<open>
  Bytes, the UTF-8 encoding of the characters of the model (U+0000 to U+00FF) and hexadecimal
  digits, shared by the components that look at encoded texts.
\<close>

type_synonym byte = "8 word"
type_synonym bytes = "byte list"

subsection \<open>UTF-8 of the characters of the model\<close>

definition utf8_char :: "char \<Rightarrow> byte list" where
  "utf8_char ch =
     (let n = code ch in
      if n < 128 then [of_nat n] else [of_nat (192 + n div 64), of_nat (128 + n mod 64)])"

definition as_bytes :: "string \<Rightarrow> byte list" where
  "as_bytes s = concat (map utf8_char s)"

text \<open>
  \<open>str::from_utf8\<close> on the encodings of U+0000 to U+00FF; any other byte sequence is
  \<open>None\<close>.
\<close>

fun from_utf8 :: "byte list \<Rightarrow> string option" where
  "from_utf8 [] = Some []"
| "from_utf8 (a # bs) =
     (let n = unat a in
      if n < 128 then map_option (\<lambda>s. char_of n # s) (from_utf8 bs)
      else (case bs of
              b # bs' \<Rightarrow>
                let k = unat b in
                if (n = 194 \<or> n = 195) \<and> 128 \<le> k \<and> k < 192
                then map_option (\<lambda>s. char_of ((n - 192) * 64 + (k - 128)) # s) (from_utf8 bs')
                else None
            | [] \<Rightarrow> None))"

lemma byte_less: "unat (b :: byte) < 256"
proof -
  have "unat b < 2 ^ LENGTH(8)" by (rule unsigned_less)
  then show ?thesis by simp
qed

lemma code_less: "code c < 256"
  by (simp add: code_def)

lemma unat_byte: "n < 256 \<Longrightarrow> unat (of_nat n :: byte) = n"
  by (simp add: unat_of_nat)

lemma from_utf8_as_bytes: "from_utf8 (as_bytes s) = Some s"
proof (induction s)
  case (Cons c s)
  have IH: "from_utf8 (concat (map utf8_char s)) = Some s" using Cons.IH by (simp add: as_bytes_def)
  show ?case
  proof (cases "code c < 128")
    case True
    then show ?thesis using IH by (simp add: as_bytes_def utf8_char_def unat_byte code_def)
  next
    case False
    have n: "code c < 256" by (rule code_less)
    then have "192 + code c div 64 < 256" "128 + code c mod 64 < 256" "128 + code c mod 64 < 192" by auto
    moreover have "code c div 64 = 2 \<or> code c div 64 = 3" using False n by auto
    moreover have "char_of ((192 + code c div 64 - 192) * 64 + (128 + code c mod 64 - 128)) = c" by (simp add: code_def)
    ultimately show ?thesis
      using IH False by (auto simp: as_bytes_def utf8_char_def Let_def unat_byte simp del: of_nat_add)
  qed
qed (simp add: as_bytes_def)

lemma as_bytes_inj: "as_bytes s = as_bytes t \<Longrightarrow> s = t"
  by (metis from_utf8_as_bytes option.inject)

end
