(* ===== verification/Sha1.thy ===== *)
theory Sha1
  imports Bytes
begin

unbundle bit_operations_syntax

section \<open>SHA-1 and HMAC-SHA1 of hashed host names\<close>

text \<open>
  Models the functions \<open>sha1\<close> and \<open>hmac_sha1\<close> of \<open>crates/rustscp-core/src/known_hosts.rs\<close>: 32-bit words with
  wrapping addition, the padding loop, the message schedule filled in place and the eighty
  rounds. A byte string is a list of \<open>8 word\<close>.
\<close>

type_synonym u32 = "32 word"

subsection \<open>Big-endian words\<close>

definition from_be_bytes :: "byte list \<Rightarrow> u32" where
  "from_be_bytes bs = foldl (\<lambda>w b. push_bit 8 w OR ucast b) 0 bs"

definition to_be_bytes :: "u32 \<Rightarrow> byte list" where
  "to_be_bytes w = [ucast (drop_bit 24 w), ucast (drop_bit 16 w), ucast (drop_bit 8 w), ucast w]"

definition u64_to_be_bytes :: "64 word \<Rightarrow> byte list" where
  "u64_to_be_bytes w = map (\<lambda>i. ucast (drop_bit (8 * i) w)) [7, 6, 5, 4, 3, 2, 1, 0]"

subsection \<open>Padding\<close>

text \<open>\<open>while msg.len() % 64 != 56 { msg.push(0); }\<close>\<close>

definition pad_left :: "nat \<Rightarrow> nat" where
  "pad_left n = (if n \<le> 56 then 56 else 120) - n"

lemma pad_left_Suc:
  assumes "n \<noteq> 56" and "n < 64"
  shows "pad_left (if Suc n = 64 then 0 else Suc n) < pad_left n"
proof -
  consider "n < 56" | "56 < n" "n < 63" | "n = 63" using assms by linarith
  then show ?thesis by cases (auto simp: pad_left_def)
qed

function pad_zeros :: "byte list \<Rightarrow> byte list" where
  "pad_zeros msg = (if length msg mod 64 \<noteq> 56 then pad_zeros (msg @ [0]) else msg)"
  by pat_completeness auto
termination
proof (relation "measure (\<lambda>msg. pad_left (length msg mod 64))")
  fix msg :: "byte list"
  assume "length msg mod 64 \<noteq> 56"
  then show "(msg @ [0], msg) \<in> measure (\<lambda>msg. pad_left (length msg mod 64))"
    using pad_left_Suc [of "length msg mod 64"] by (simp add: mod_Suc)
qed simp

declare pad_zeros.simps [simp del]

definition sha1_pad :: "byte list \<Rightarrow> byte list" where
  "sha1_pad data =
     (let bit_len = (of_nat (length data) :: 64 word) * 8
      in pad_zeros (data @ [0x80]) @ u64_to_be_bytes bit_len)"

subsection \<open>One block\<close>

type_synonym sha_state = "u32 \<times> u32 \<times> u32 \<times> u32 \<times> u32"

definition sha1_init :: sha_state where
  "sha1_init = (0x67452301, 0xEFCDAB89, 0x98BADCFE, 0x10325476, 0xC3D2E1F0)"

fun chunks4 :: "'a list \<Rightarrow> 'a list list" where
  "chunks4 (a # b # c # d # rest) = [a, b, c, d] # chunks4 rest"
| "chunks4 _ = []"

text \<open>The schedule array: sixteen words of the block, then 64 more, each from earlier ones.\<close>

fun schedule_from :: "nat \<Rightarrow> u32 list \<Rightarrow> u32 list" where
  "schedule_from 0 w = w"
| "schedule_from (Suc n) w =
     (let i = length w
      in schedule_from n
           (w @ [word_rotl 1 (w ! (i - 3) XOR w ! (i - 8) XOR w ! (i - 14) XOR w ! (i - 16))]))"

definition schedule :: "byte list \<Rightarrow> u32 list" where
  "schedule block = schedule_from 64 (map from_be_bytes (chunks4 block))"

definition round_fk :: "nat \<Rightarrow> u32 \<Rightarrow> u32 \<Rightarrow> u32 \<Rightarrow> u32 \<times> u32" where
  "round_fk i b c d =
     (if i \<le> 19 then ((b AND c) OR (NOT b AND d), 0x5A827999)
      else if i \<le> 39 then (b XOR c XOR d, 0x6ED9EBA1)
      else if i \<le> 59 then ((b AND c) OR (b AND d) OR (c AND d), 0x8F1BBCDC)
      else (b XOR c XOR d, 0xCA62C1D6))"

fun sha1_rounds :: "nat \<Rightarrow> u32 list \<Rightarrow> sha_state \<Rightarrow> sha_state" where
  "sha1_rounds i [] s = s"
| "sha1_rounds i (wi # ws) (a, b, c, d, e) =
     (let (f, k) = round_fk i b c d;
          temp = word_rotl 5 a + f + e + k + wi
      in sha1_rounds (Suc i) ws (temp, a, word_rotl 30 b, c, d))"

fun add_state :: "sha_state \<Rightarrow> sha_state \<Rightarrow> sha_state" where
  "add_state (h0, h1, h2, h3, h4) (a, b, c, d, e) = (h0 + a, h1 + b, h2 + c, h3 + d, h4 + e)"

definition sha1_block :: "sha_state \<Rightarrow> byte list \<Rightarrow> sha_state" where
  "sha1_block h block = add_state h (sha1_rounds 0 (schedule block) h)"

text \<open>\<open>chunks_exact(64)\<close>: full blocks only.\<close>

function chunks64 :: "'a list \<Rightarrow> 'a list list" where
  "chunks64 xs = (if length xs < 64 then [] else take 64 xs # chunks64 (drop 64 xs))"
  by pat_completeness auto
termination
  by (relation "measure length") auto

declare chunks64.simps [simp del]

fun state_bytes :: "sha_state \<Rightarrow> byte list" where
  "state_bytes (h0, h1, h2, h3, h4) = concat (map to_be_bytes [h0, h1, h2, h3, h4])"

definition sha1 :: "byte list \<Rightarrow> byte list" where
  "sha1 data = state_bytes (foldl sha1_block sha1_init (chunks64 (sha1_pad data)))"

subsection \<open>HMAC\<close>

definition hmac_key :: "byte list \<Rightarrow> byte list" where
  "hmac_key key =
     (let k = (if length key > 64 then sha1 key else key)
      in k @ replicate (64 - length k) 0)"

definition hmac_sha1 :: "byte list \<Rightarrow> byte list \<Rightarrow> byte list" where
  "hmac_sha1 key msg =
     (let k = hmac_key key;
          inner = map (\<lambda>b. b XOR 0x36) k @ msg;
          outer = map (\<lambda>b. b XOR 0x5C) k @ sha1 inner
      in sha1 outer)"

subsection \<open>Sizes\<close>

lemma pad_zeros_length: "length (pad_zeros msg) mod 64 = 56"
proof (induction msg rule: pad_zeros.induct)
  case (1 msg)
  show ?case
  proof (cases "length msg mod 64 = 56")
    case True
    then have "pad_zeros msg = msg" by (subst pad_zeros.simps) simp
    with True show ?thesis by simp
  next
    case False
    then have "pad_zeros msg = pad_zeros (msg @ [0])" by (subst pad_zeros.simps) simp
    with 1 False show ?thesis by simp
  qed
qed

lemma length_sha1_pad: "length (sha1_pad data) mod 64 = 0"
proof -
  have "length (sha1_pad data) = length (pad_zeros (data @ [0x80])) + 8"
    by (simp add: sha1_pad_def u64_to_be_bytes_def Let_def)
  then have "length (sha1_pad data) mod 64 = (length (pad_zeros (data @ [0x80])) mod 64 + 8) mod 64"
    by presburger
  then show ?thesis by (simp add: pad_zeros_length)
qed

lemma length_sha1 [simp]: "length (sha1 data) = 20"
  by (cases "foldl sha1_block sha1_init (chunks64 (sha1_pad data))")
     (simp add: sha1_def to_be_bytes_def)

lemma length_hmac_sha1: "length (hmac_sha1 key msg) = 20"
  by (simp add: hmac_sha1_def Let_def)

lemma length_hmac_key [simp]: "length (hmac_key key) = 64"
  by (simp add: hmac_key_def Let_def)

end
