(* ===== verification/Glob.thy ===== *)
theory Glob
  imports Prelude
begin

section \<open>The host pattern matcher\<close>

text \<open>
  Models \<open>glob_match\<close> of \<open>crates/rustscp-core/src/known_hosts.rs\<close>: two indices and the
  position of the last star, as in the code, and proves the loop equivalent to the recursive
  reading of a pattern.
\<close>

subsection \<open>The loop\<close>

text \<open>
  \<open>skip_stars\<close> is the second loop. The first loop takes the indices \<open>pi\<close> and \<open>ti\<close> and
  \<open>star\<close>, the indices remembered at the last star. The test order is that of the code: a
  \<open>?\<close> or an equal character first, then a star, then going back to the last star.
\<close>

function skip_stars :: "string \<Rightarrow> nat \<Rightarrow> nat" where
  "skip_stars p pi = (if pi < length p \<and> p ! pi = CHR ''*'' then skip_stars p (Suc pi) else pi)"
  by pat_completeness auto
termination
  by (relation "measure (\<lambda>(p, pi). length p - pi)") auto

declare skip_stars.simps [simp del]

text \<open>
  The loop ends: going back to a star moves its text position, and every other step moves one
  of the two indices.
\<close>

definition glob_rank :: "string \<Rightarrow> nat \<Rightarrow> (nat \<times> nat) option \<Rightarrow> nat" where
  "glob_rank t ti star =
     (case star of None \<Rightarrow> Suc (length t - ti)
      | Some (sp, st) \<Rightarrow> max (length t - st) (length t - ti))"

lemma glob_rank_back:
  "ti < length t \<Longrightarrow> glob_rank t (Suc st) (Some (sp, Suc st)) < glob_rank t ti (Some (sp, st))"
  by (simp add: glob_rank_def)

lemma glob_rank_star: "glob_rank t ti (Some (pi, ti)) \<le> glob_rank t ti star"
  by (simp add: glob_rank_def split: option.splits)

lemma glob_rank_read: "glob_rank t (Suc ti) star \<le> glob_rank t ti star"
  by (auto simp: glob_rank_def max_def split: option.splits)

function glob_loop :: "string \<Rightarrow> string \<Rightarrow> nat \<Rightarrow> nat \<Rightarrow> (nat \<times> nat) option \<Rightarrow> bool" where
  "glob_loop p t pi ti star =
     (if ti < length t then
        if pi < length p \<and> (p ! pi = CHR ''?'' \<or> p ! pi = t ! ti)
        then glob_loop p t (Suc pi) (Suc ti) star
        else if pi < length p \<and> p ! pi = CHR ''*''
        then glob_loop p t (Suc pi) ti (Some (pi, ti))
        else (case star of
                Some (sp, st) \<Rightarrow> glob_loop p t (Suc sp) (Suc st) (Some (sp, Suc st))
              | None \<Rightarrow> False)
      else skip_stars p pi = length p)"
  by pat_completeness auto

termination
  by (relation "measures [\<lambda>(p, t, pi, ti, star). glob_rank t ti star,
        \<lambda>(p, t, pi, ti, star). (length p - pi) + (length t - ti)]")
     (use glob_rank_back glob_rank_star glob_rank_read in \<open>auto simp: less_le\<close>)

declare glob_loop.simps [simp del]

definition glob_match :: "string \<Rightarrow> string \<Rightarrow> bool" where
  "glob_match p t = glob_loop p t 0 0 None"

subsection \<open>What a pattern means\<close>

text \<open>\<open>*\<close> stands for any text, \<open>?\<close> for any one character.\<close>

fun glob_spec :: "string \<Rightarrow> string \<Rightarrow> bool" where
  "glob_spec [] t = (t = [])"
| "glob_spec (a # p) [] = (a = CHR ''*'' \<and> glob_spec p [])"
| "glob_spec (a # p) (c # t) =
     (if a = CHR ''*'' then glob_spec p (c # t) \<or> glob_spec (a # p) t
      else (a = CHR ''?'' \<or> a = c) \<and> glob_spec p t)"

lemma glob_spec_star: "glob_spec (CHR ''*'' # p) t \<longleftrightarrow> (\<exists>k \<le> length t. glob_spec p (drop k t))"
proof (induction t)
  case (Cons c t)
  have "(\<exists>k \<le> length (c # t). glob_spec p (drop k (c # t))) \<longleftrightarrow>
        glob_spec p (c # t) \<or> (\<exists>k \<le> length t. glob_spec p (drop k t))"
  proof
    assume "\<exists>k \<le> length (c # t). glob_spec p (drop k (c # t))"
    then obtain k where "k \<le> length (c # t)" "glob_spec p (drop k (c # t))" by blast
    then show "glob_spec p (c # t) \<or> (\<exists>k \<le> length t. glob_spec p (drop k t))"
      by (cases k) auto
  next
    assume "glob_spec p (c # t) \<or> (\<exists>k \<le> length t. glob_spec p (drop k t))"
    then show "\<exists>k \<le> length (c # t). glob_spec p (drop k (c # t))"
      by (metis drop0 drop_Suc_Cons le0 length_Cons Suc_le_mono)
  qed
  with Cons show ?case by simp
qed auto

lemma glob_spec_stars_only: "glob_spec p [] \<longleftrightarrow> (\<forall>c \<in> set p. c = CHR ''*'')"
  by (induction p) auto

text \<open>A stretch of the pattern without a star reads as many characters of the text.\<close>

lemma glob_spec_starless:
  assumes "CHR ''*'' \<notin> set q" and "glob_spec (q @ p) t"
  shows "length q \<le> length t \<and> glob_spec p (drop (length q) t)"
  using assms
proof (induction q arbitrary: t)
  case (Cons a q)
  then show ?case by (cases t) auto
qed simp

lemma skip_stars_end: "pi \<le> length p \<Longrightarrow> skip_stars p pi = length p \<longleftrightarrow> glob_spec (drop pi p) []"
proof (induction p pi rule: skip_stars.induct)
  case (1 p pi)
  show ?case
  proof (cases "pi < length p")
    case True
    then have d: "drop pi p = p ! pi # drop (Suc pi) p" by (simp add: Cons_nth_drop_Suc)
    show ?thesis
    proof (cases "p ! pi = CHR ''*''")
      case star: True
      then have "skip_stars p pi = skip_stars p (Suc pi)"
        using True by (simp add: skip_stars.simps [of p pi])
      then show ?thesis using 1 True star d by simp
    next
      case False
      then have "skip_stars p pi = pi" by (simp add: skip_stars.simps [of p pi])
      then show ?thesis using True False d by simp
    qed
  next
    case False
    then have "skip_stars p pi = pi" by (simp add: skip_stars.simps [of p pi])
    then show ?thesis using False 1 by simp
  qed
qed

subsection \<open>The loop decides the meaning\<close>

text \<open>
  The state after a star: the stretch read since that star holds no star and is as long as the
  text read since then.
\<close>

definition star_ok :: "string \<Rightarrow> nat \<Rightarrow> nat \<Rightarrow> (nat \<times> nat) option \<Rightarrow> bool" where
  "star_ok p pi ti star =
     (case star of None \<Rightarrow> True
      | Some (sp, st) \<Rightarrow> sp < pi \<and> p ! sp = CHR ''*'' \<and> st \<le> ti \<and> pi - Suc sp = ti - st \<and>
          CHR ''*'' \<notin> set (take (pi - Suc sp) (drop (Suc sp) p)))"

definition retry :: "string \<Rightarrow> string \<Rightarrow> (nat \<times> nat) option \<Rightarrow> bool" where
  "retry p t star =
     (case star of None \<Rightarrow> False
      | Some (sp, st) \<Rightarrow> \<exists>k. st < k \<and> k \<le> length t \<and> glob_spec (drop (Suc sp) p) (drop k t))"

text \<open>Another try from an older star reads past the text read so far.\<close>

lemma retry_reads_on:
  assumes ok: "star_ok p pi ti star" and pi: "pi \<le> length p" and r: "retry p t star"
  shows "\<exists>j. ti < j \<and> j \<le> length t \<and> glob_spec (drop pi p) (drop j t)"
proof -
  obtain sp st where star: "star = Some (sp, st)" using r by (cases star) (auto simp: retry_def)
  then obtain k where k: "st < k" "k \<le> length t" "glob_spec (drop (Suc sp) p) (drop k t)"
    using r by (auto simp: retry_def)
  let ?q = "take (pi - Suc sp) (drop (Suc sp) p)"
  have sp: "sp < pi" "pi - Suc sp = ti - st" "st \<le> ti" "CHR ''*'' \<notin> set ?q"
    using ok by (auto simp: star star_ok_def)
  have "drop (Suc sp) p = ?q @ drop (pi - Suc sp) (drop (Suc sp) p)"
    by (rule append_take_drop_id [symmetric])
  also have "drop (pi - Suc sp) (drop (Suc sp) p) = drop pi p" using sp(1) by simp
  finally have "glob_spec (?q @ drop pi p) (drop k t)" using k(3) by simp
  note reads = glob_spec_starless [OF sp(4) this]
  have len: "length ?q = ti - st" using sp pi by simp
  have "glob_spec (drop pi p) (drop (ti - st) (drop k t))" and "ti - st \<le> length t - k"
    using reads len by auto
  then show ?thesis using k sp(3) by (intro exI [of _ "ti - st + k"]) auto
qed

lemma glob_spec_star_from:
  assumes "ti \<le> length t"
  shows "glob_spec (CHR ''*'' # q) (drop ti t) \<longleftrightarrow>
     (\<exists>k. ti \<le> k \<and> k \<le> length t \<and> glob_spec q (drop k t))"
proof
  assume "glob_spec (CHR ''*'' # q) (drop ti t)"
  then obtain j where "j \<le> length t - ti" "glob_spec q (drop (j + ti) t)"
    by (auto simp: glob_spec_star)
  then show "\<exists>k. ti \<le> k \<and> k \<le> length t \<and> glob_spec q (drop k t)"
    using assms by (intro exI [of _ "j + ti"]) auto
next
  assume "\<exists>k. ti \<le> k \<and> k \<le> length t \<and> glob_spec q (drop k t)"
  then obtain k where "ti \<le> k" "k \<le> length t" "glob_spec q (drop k t)" by blast
  then show "glob_spec (CHR ''*'' # q) (drop ti t)"
    by (auto simp: glob_spec_star intro!: exI [of _ "k - ti"])
qed

lemma take_stretch:
  assumes "sp < pi" and "pi < length p"
  shows "take (pi - sp) (drop (Suc sp) p) = take (pi - Suc sp) (drop (Suc sp) p) @ [p ! pi]"
proof -
  have e: "pi - sp = Suc (pi - Suc sp)" using assms by simp
  show ?thesis unfolding e using assms by (subst take_Suc_conv_app_nth) auto
qed

lemma glob_loop_correct:
  assumes "CHR ''*'' \<notin> set t" and "pi \<le> length p" and "ti \<le> length t" and "star_ok p pi ti star"
  shows "glob_loop p t pi ti star \<longleftrightarrow> glob_spec (drop pi p) (drop ti t) \<or> retry p t star"
  using assms
proof (induction p t pi ti star rule: glob_loop.induct)
  case (1 p t pi ti star)
  note IH = "1.IH" and free = "1.prems"(1) and le = "1.prems"(2,3) and ok = "1.prems"(4)
  let ?lit = "pi < length p \<and> (p ! pi = CHR ''?'' \<or> p ! pi = t ! ti)"
  let ?star = "pi < length p \<and> p ! pi = CHR ''*''"
  show ?case
  proof (cases "ti < length t")
    case False
    then have "ti = length t" using le by simp
    moreover have "\<not> retry p t star"
      using retry_reads_on [OF ok le(1), of t] calculation by auto
    ultimately show ?thesis
      using le skip_stars_end [of pi p] by (subst glob_loop.simps) simp
  next
    case ti: True
    then have dt: "drop ti t = t ! ti # drop (Suc ti) t" by (simp add: Cons_nth_drop_Suc)
    have nstar: "t ! ti \<noteq> CHR ''*''" using free ti by (metis nth_mem)
    consider (lit) "?lit" | (star) "\<not> ?lit" "?star" | (again) "\<not> ?lit" "\<not> ?star" by blast
    then show ?thesis
    proof cases
      case lit
      then have dp: "drop pi p = p ! pi # drop (Suc pi) p" by (simp add: Cons_nth_drop_Suc)
      have pstar: "p ! pi \<noteq> CHR ''*''" using lit nstar by auto
      have "star_ok p (Suc pi) (Suc ti) star"
        using ok lit pstar by (auto simp: star_ok_def take_stretch split: option.splits)
      then have "glob_loop p t pi ti star \<longleftrightarrow>
          glob_spec (drop (Suc pi) p) (drop (Suc ti) t) \<or> retry p t star"
        using IH(1) [OF ti lit free] lit ti by (subst glob_loop.simps) simp
      then show ?thesis using dp dt lit pstar by auto
    next
      case star
      then have dp: "drop pi p = CHR ''*'' # drop (Suc pi) p" by (simp flip: Cons_nth_drop_Suc)
      have "star_ok p (Suc pi) ti (Some (pi, ti))" using star by (simp add: star_ok_def)
      then have "glob_loop p t pi ti star \<longleftrightarrow>
          glob_spec (drop (Suc pi) p) (drop ti t) \<or> retry p t (Some (pi, ti))"
        using IH(2) [OF ti star free] star ti by (subst glob_loop.simps) simp
      moreover have "glob_spec (drop pi p) (drop ti t)" if r: "retry p t star"
      proof -
        obtain j where "ti < j" "j \<le> length t" "glob_spec (drop pi p) (drop j t)"
          using retry_reads_on [OF ok le(1) r] by blast
        then show ?thesis
          using glob_spec_star_from [of ti t] glob_spec_star_from [of j t] le dp
          by (metis le_trans less_imp_le)
      qed
      moreover have "glob_spec (drop pi p) (drop ti t) \<longleftrightarrow>
          glob_spec (drop (Suc pi) p) (drop ti t) \<or> retry p t (Some (pi, ti))"
        using glob_spec_star_from [OF le(2)] le(2) by (auto simp: dp retry_def le_less)
      ultimately show ?thesis by blast
    next
      case again
      have no: "\<not> glob_spec (drop pi p) (drop ti t)"
        using again dt by (cases "drop pi p") (auto simp: drop_eq_Nil dest: nth_via_drop)
      show ?thesis
      proof (cases star)
        case None
        then show ?thesis using no ti again by (subst glob_loop.simps) (auto simp: retry_def)
      next
        case (Some s)
        then obtain sp st where s: "star = Some (sp, st)" by (cases s) auto
        then have st: "sp < pi" "Suc st \<le> length t" "p ! sp = CHR ''*''"
          using ok ti by (auto simp: star_ok_def)
        have "star_ok p (Suc sp) (Suc st) (Some (sp, Suc st))" using st by (simp add: star_ok_def)
        then have "glob_loop p t pi ti star \<longleftrightarrow>
            glob_spec (drop (Suc sp) p) (drop (Suc st) t) \<or> retry p t (Some (sp, Suc st))"
          using IH(3) [OF ti again s refl free] st le ti again s
          by (subst glob_loop.simps) auto
        also have "\<dots> \<longleftrightarrow> retry p t star"
          using st(2) unfolding s retry_def option.case prod.case
          by (metis Suc_lessD Suc_lessI lessI)
        finally show ?thesis using no by simp
      qed
    qed
  qed
qed

text \<open>Whatever the text holds, the loop accepts nothing it should not.\<close>

lemma glob_loop_sound:
  assumes "glob_loop p t pi ti star" and "pi \<le> length p" and "ti \<le> length t"
    and "\<And>sp st. star = Some (sp, st) \<Longrightarrow> sp < length p \<and> st \<le> ti"
  shows "glob_spec (drop pi p) (drop ti t) \<or> retry p t star"
  using assms
proof (induction p t pi ti star rule: glob_loop.induct)
  case (1 p t pi ti star)
  note IH = "1.IH" and run = "1.prems"(1) and le = "1.prems"(2,3) and ok = "1.prems"(4)
  let ?lit = "pi < length p \<and> (p ! pi = CHR ''?'' \<or> p ! pi = t ! ti)"
  let ?star = "pi < length p \<and> p ! pi = CHR ''*''"
  show ?case
  proof (cases "ti < length t")
    case False
    then have "skip_stars p pi = length p" using run by (simp add: glob_loop.simps [of p t pi ti])
    then show ?thesis using False le skip_stars_end [of pi p] by simp
  next
    case ti: True
    then have dt: "drop ti t = t ! ti # drop (Suc ti) t" by (simp add: Cons_nth_drop_Suc)
    consider (lit) "?lit" | (star) "\<not> ?lit" "?star" | (again) "\<not> ?lit" "\<not> ?star" by blast
    then show ?thesis
    proof cases
      case lit
      then have dp: "drop pi p = p ! pi # drop (Suc pi) p" by (simp add: Cons_nth_drop_Suc)
      have "glob_loop p t (Suc pi) (Suc ti) star" using run lit ti by (simp add: glob_loop.simps [of p t pi ti])
      from IH(1) [OF ti lit this] ok lit ti
      have "glob_spec (drop (Suc pi) p) (drop (Suc ti) t) \<or> retry p t star" by fastforce
      moreover have "glob_spec (drop pi p) (drop ti t)" if "glob_spec (drop (Suc pi) p) (drop (Suc ti) t)"
        using that lit glob_spec_star [of "drop (Suc pi) p" "drop ti t"] ti
        by (auto simp: dp dt intro!: exI [of _ 1])
      ultimately show ?thesis by blast
    next
      case star
      then have dp: "drop pi p = CHR ''*'' # drop (Suc pi) p" by (simp flip: Cons_nth_drop_Suc)
      have "glob_loop p t (Suc pi) ti (Some (pi, ti))" using run star ti by (simp add: glob_loop.simps [of p t pi ti])
      from IH(2) [OF ti star this] star le
      have "glob_spec (drop (Suc pi) p) (drop ti t) \<or> retry p t (Some (pi, ti))" by simp
      then show ?thesis using glob_spec_star_from [OF le(2)] le(2) by (auto simp: dp retry_def le_less)
    next
      case again
      show ?thesis
      proof (cases star)
        case None
        then show ?thesis using run ti again by (simp add: glob_loop.simps [of p t pi ti])
      next
        case (Some s)
        then obtain sp st where s: "star = Some (sp, st)" by (cases s) auto
        then have st: "sp < length p" "Suc st \<le> length t" using ok ti by auto
        have "glob_loop p t (Suc sp) (Suc st) (Some (sp, Suc st))"
          using run again ti s by (simp add: glob_loop.simps [of p t pi ti])
        from IH(3) [OF ti again s refl this] st
        have "glob_spec (drop (Suc sp) p) (drop (Suc st) t) \<or> retry p t (Some (sp, Suc st))" by simp
        then show ?thesis using st(2) unfolding s retry_def option.case prod.case by (meson Suc_lessD lessI)
      qed
    qed
  qed
qed

lemma glob_match_sound: "glob_match p t \<Longrightarrow> glob_spec p t"
  using glob_loop_sound [of p t 0 0 None] by (simp add: glob_match_def retry_def)

lemma glob_match_spec: "CHR ''*'' \<notin> set t \<Longrightarrow> glob_match p t = glob_spec p t"
  using glob_loop_correct [of t 0 p 0 None]
  by (simp add: glob_match_def star_ok_def retry_def)

text \<open>
  C6: The pattern matcher of \<open>known_hosts.rs\<close> accepts only what the pattern means, on every pattern and
  every text; on a text without a star it accepts exactly that. It ends on every input (it is a
  total function).
\<close>

theorem glob_match_correct:
  "(glob_match p t \<longrightarrow> glob_spec p t) \<and> (CHR ''*'' \<notin> set t \<longrightarrow> glob_match p t = glob_spec p t)"
  using glob_match_sound glob_match_spec by blast

theorem glob_match_correct_witness:
  "glob_match ''*.exa?ple.com'' ''a.b.example.com'' = glob_spec ''*.exa?ple.com'' ''a.b.example.com'' \<and>
   glob_spec ''*.exa?ple.com'' ''a.b.example.com''"
  using glob_match_correct [of "''*.exa?ple.com''" "''a.b.example.com''"] by (intro conjI) (simp, code_simp)

text \<open>A text with a star shows the order of the tests: the star of the pattern is used up.\<close>

lemma glob_match_star_text: "\<not> glob_match ''*'' ''*a'' \<and> glob_spec ''*'' ''*a''"
  by (simp add: glob_match_def glob_loop.simps)

lemma glob_spec_star_any: "glob_spec p t \<Longrightarrow> glob_spec (CHR ''*'' # p) t"
  by (auto simp: glob_spec_star intro!: exI [of _ 0])

lemma glob_spec_refl: "glob_spec t t"
proof (induction t)
  case (Cons c t)
  then show ?case by (cases "c = CHR ''*''") (auto intro: glob_spec_star_any)
qed simp

end
