(* ===== verification/CoreTypes.thy ===== *)
theory CoreTypes
  imports Prelude "HOL-Library.Word"
begin

unbundle bit_operations_syntax

section \<open>Types shared by the drivers and the shell quoting of remote commands\<close>

text \<open>
  Models \<open>crates/rustscp-core/src/types.rs\<close> (errors, file entries, Unix permissions, connection
  settings and the folder path of a saved site) and \<open>crates/rustscp-core/src/shell.rs\<close>
  (\<open>sh_quote\<close>). A \<open>u64\<close> byte count is a \<open>nat\<close>, with saturation and wrap-around written out
  where the code computes with it; a Unix mode is a \<open>32 word\<close>; a point in time is the number of
  nanoseconds since the epoch, an \<open>int\<close>.
\<close>

subsection \<open>Errors and file entries\<close>

datatype core_error =
    Io string
  | NotFound string
  | PermissionDenied string
  | InvalidPath string
  | PathTraversal string
  | ConnectionFailed string
  | AuthFailed string
  | Protocol string
  | Timeout string
  | General string
  | HostKeyMismatch string

type_synonym 'a core_result = "core_error + 'a"

text \<open>The \<open>Display\<close> text of an error, as \<open>thiserror\<close> formats it.\<close>

fun error_text :: "core_error \<Rightarrow> string" where
  "error_text (Io m) = ''I/O error: '' @ m"
| "error_text (NotFound m) = ''Path not found: '' @ m"
| "error_text (PermissionDenied m) = ''Permission denied: '' @ m"
| "error_text (InvalidPath m) = ''Invalid path: '' @ m"
| "error_text (PathTraversal m) = ''Path traversal detected: '' @ m"
| "error_text (ConnectionFailed m) = ''Connection failed: '' @ m"
| "error_text (AuthFailed m) = ''Authentication error: '' @ m"
| "error_text (Protocol m) = ''Protocol error: '' @ m"
| "error_text (Timeout m) = ''Operation timeout: '' @ m"
| "error_text (General m) = ''General error: '' @ m"
| "error_text (HostKeyMismatch m) = ''Host key verification failed: '' @ m"

datatype file_type = File | Directory | Symlink | Other

type_synonym mode = "32 word"

record permissions =
  perm_mode :: mode
  readonly :: bool
  owner :: "string option"
  perm_group :: "string option"

definition default_permissions :: permissions where
  "default_permissions =
     \<lparr>perm_mode = 0x1A4, readonly = False, owner = None, perm_group = None\<rparr>"

text \<open>\<open>0o400\<close> is \<open>0x100\<close>, \<open>0o100\<close> is \<open>0x40\<close>, \<open>0o010\<close> is \<open>0x8\<close> and so on down the nine bits.\<close>

definition mode_char :: "mode \<Rightarrow> mode \<Rightarrow> char \<Rightarrow> char" where
  "mode_char m flag c = (if m AND flag \<noteq> 0 then c else CHR ''-'')"

definition rwxrwxrwx :: "permissions \<Rightarrow> string" where
  "rwxrwxrwx p =
     (let m = perm_mode p in
      [mode_char m 0x100 CHR ''r'', mode_char m 0x80 CHR ''w'', mode_char m 0x40 CHR ''x'',
       mode_char m 0x20 CHR ''r'', mode_char m 0x10 CHR ''w'', mode_char m 0x8 CHR ''x'',
       mode_char m 0x4 CHR ''r'', mode_char m 0x2 CHR ''w'', mode_char m 0x1 CHR ''x''])"

fun octal_digits :: "nat \<Rightarrow> string" where
  "octal_digits n =
     (if n < 8 then [char_of (48 + n)] else octal_digits (n div 8) @ [char_of (48 + n mod 8)])"

declare octal_digits.simps [simp del]

text \<open>\<open>format!("{:04o}", n)\<close>: at least four digits, zeros in front.\<close>

definition format_04o :: "nat \<Rightarrow> string" where
  "format_04o n =
     (let d = octal_digits n in replicate (4 - length d) (CHR ''0'') @ d)"

definition octal_string :: "permissions \<Rightarrow> string" where
  "octal_string p = format_04o (unat (perm_mode p AND 0xFFF))"

record file_entry =
  fe_name :: string
  fe_path :: string
  fe_type :: file_type
  fe_size :: nat
  modified_at :: "int option"
  created_at :: "int option"
  fe_permissions :: permissions
  is_hidden :: bool

definition is_dir :: "file_entry \<Rightarrow> bool" where
  "is_dir e = (fe_type e = Directory)"

definition is_file :: "file_entry \<Rightarrow> bool" where
  "is_file e = (fe_type e = File)"

definition is_symlink :: "file_entry \<Rightarrow> bool" where
  "is_symlink e = (fe_type e = Symlink)"

subsection \<open>Connections\<close>

datatype protocol = Local | Sftp | S3 | Ftp | Ftps | WebDav

fun protocol_text :: "protocol \<Rightarrow> string" where
  "protocol_text Local = ''local''"
| "protocol_text Sftp = ''sftp''"
| "protocol_text S3 = ''s3''"
| "protocol_text Ftp = ''ftp''"
| "protocol_text Ftps = ''ftps''"
| "protocol_text WebDav = ''webdav''"

datatype auth_method =
    Auth_None
  | Password string
  | PrivateKey (key_path: string) (passphrase: "string option") (key_data: "string option")
  | KeyringRef string

fun embedded_key :: "auth_method \<Rightarrow> string option" where
  "embedded_key (PrivateKey path pass (Some data)) = (if trim data \<noteq> [] then Some data else None)"
| "embedded_key _ = None"

definition redact :: "string \<Rightarrow> string" where
  "redact s = (if s = [] then [CHR 0x22, CHR 0x22] else CHR 0x22 # ''***'' @ [CHR 0x22])"

definition redact_opt :: "string option \<Rightarrow> string" where
  "redact_opt o' = (case o' of Some s \<Rightarrow> redact s | None \<Rightarrow> ''None'')"

text \<open>
  The \<open>Debug\<close> text of the secrets of an authentication method. \<open>debug_str\<close> stands for the
  standard library's \<open>Debug\<close> formatting of a plain string (quotes and escapes).
\<close>

fun auth_debug :: "(string \<Rightarrow> string) \<Rightarrow> auth_method \<Rightarrow> string" where
  "auth_debug debug_str Auth_None = ''None''"
| "auth_debug debug_str (Password p) = ''Password('' @ redact p @ '')''"
| "auth_debug debug_str (PrivateKey path pass data) =
     ''PrivateKey { path: '' @ debug_str path @ '', passphrase: '' @ redact_opt pass
       @ '', key_data: '' @ redact_opt data @ '' }''"
| "auth_debug debug_str (KeyringRef r) = ''KeyringRef('' @ debug_str r @ '')''"

datatype sftp_mode = Auto | SubsystemOnly

definition is_auto :: "sftp_mode \<Rightarrow> bool" where
  "is_auto m = (m = Auto)"

record connection_config =
  cfg_id :: string
  cfg_name :: string
  cfg_protocol :: protocol
  cfg_host :: string
  cfg_port :: "16 word"
  cfg_username :: string
  cfg_auth :: auth_method
  cfg_remote_root :: string
  tls_fingerprint :: "string option"
  cfg_sftp_mode :: sftp_mode
  cfg_group :: "string option"

text \<open>\<open>ConnectionConfig::local\<close>; \<open>user\<close> is what the environment says the user is called.\<close>

definition local_config :: "string \<Rightarrow> connection_config" where
  "local_config user =
     \<lparr>cfg_id = ''local'', cfg_name = ''Local Machine'', cfg_protocol = Local,
      cfg_host = ''localhost'', cfg_port = 0, cfg_username = user, cfg_auth = Auth_None,
      cfg_remote_root = ''/'', tls_fingerprint = None, cfg_sftp_mode = Auto, cfg_group = None\<rparr>"

definition MAX_SITE_GROUP_LEN :: nat where
  "MAX_SITE_GROUP_LEN = 255"

abbreviation slash :: "char \<Rightarrow> bool" where
  "slash c \<equiv> c = CHR ''/''"

definition clean_segment :: "string \<Rightarrow> string" where
  "clean_segment segment = trim (filter (\<lambda>c. \<not> is_control c) segment)"

fun site_group_loop :: "string list \<Rightarrow> string \<Rightarrow> nat \<Rightarrow> string" where
  "site_group_loop [] out out_len = out"
| "site_group_loop (segment # rest) out out_len =
     (let cleaned = clean_segment segment in
      if cleaned = [] then site_group_loop rest out out_len
      else
        (let needed = length cleaned + (if out_len > 0 then 1 else 0) in
         if out_len + needed > MAX_SITE_GROUP_LEN
         then (if out_len = 0 then trim_end (take MAX_SITE_GROUP_LEN cleaned) else out)
         else site_group_loop rest
                (out @ (if out_len > 0 then ''/'' else []) @ cleaned) (out_len + needed)))"

definition normalize_site_group :: "string \<Rightarrow> string option" where
  "normalize_site_group raw =
     (let out = site_group_loop (split_on slash raw) [] 0
      in if out \<noteq> [] then Some out else None)"

datatype transfer_status = Queued | InProgress | Paused | Completed | Failed | Cancelled

subsection \<open>Quoting for a POSIX shell\<close>

fun sh_quote_body :: "string \<Rightarrow> string" where
  "sh_quote_body [] = []"
| "sh_quote_body (ch # cs) =
     (if ch = CHR 0x27 then [CHR 0x27, CHR 0x5C, CHR 0x27, CHR 0x27] else [ch]) @ sh_quote_body cs"

definition sh_quote :: "string \<Rightarrow> string" where
  "sh_quote value = CHR 0x27 # sh_quote_body value @ [CHR 0x27]"

subsection \<open>Site folder paths\<close>

text \<open>
  A folder path as the site list keeps it: \<open>/\<close>-separated names, none empty, each without
  control characters and without white space at its ends, at most 255 characters in all.
\<close>

definition folder_name_ok :: "string \<Rightarrow> bool" where
  "folder_name_ok w =
     (w \<noteq> [] \<and> trimmed w \<and> (\<forall>c \<in> set w. \<not> is_control c \<and> \<not> slash c))"

definition folder_path_ok :: "string \<Rightarrow> bool" where
  "folder_path_ok p =
     ((\<forall>w \<in> set (split_on slash p). folder_name_ok w) \<and> length p \<le> MAX_SITE_GROUP_LEN)"

lemma folder_path_ok_nonempty: "folder_path_ok p \<Longrightarrow> p \<noteq> []"
  by (rule notI) (simp add: folder_path_ok_def folder_name_ok_def)

lemma split_on_slash_name: "folder_name_ok w \<Longrightarrow> split_on slash w = [w]"
  by (rule split_on_no_sep) (simp add: folder_name_ok_def)

lemma split_on_slash_join:
  "ws \<noteq> [] \<Longrightarrow> (\<forall>w \<in> set ws. folder_name_ok w) \<Longrightarrow> split_on slash (join ''/'' ws) = ws"
  by (rule split_on_join) (auto simp: folder_name_ok_def)

lemma clean_segment_id: "folder_name_ok w \<Longrightarrow> clean_segment w = w"
proof -
  assume w: "folder_name_ok w"
  then have "filter (\<lambda>c. \<not> is_control c) w = w" by (simp add: folder_name_ok_def)
  with w show ?thesis by (simp add: clean_segment_def trim_id folder_name_ok_def)
qed

lemma clean_segment_ok:
  assumes "\<forall>c \<in> set s. \<not> slash c" and "clean_segment s \<noteq> []"
  shows "folder_name_ok (clean_segment s)"
proof -
  have "set (clean_segment s) \<subseteq> {c \<in> set s. \<not> is_control c}"
    using set_trim [of "filter (\<lambda>c. \<not> is_control c) s"] by (auto simp: clean_segment_def)
  with assms show ?thesis
    by (auto simp: folder_name_ok_def clean_segment_def)
qed

lemma folder_name_ok_prefix:
  assumes w: "folder_name_ok w" and n: "0 < n"
  shows "folder_name_ok (trim_end (take n w))"
proof -
  let ?t = "trim_end (take n w)"
  have w0: "w \<noteq> []" and hd: "\<not> is_whitespace (hd w)"
    using w by (auto simp: folder_name_ok_def trimmed_def)
  then have "hd (take n w) = hd w" "take n w \<noteq> []" using n by (auto simp: hd_take)
  then have "\<exists>x \<in> set (take n w). \<not> is_whitespace x" using hd by (metis hd_in_set)
  then have t0: "?t \<noteq> []"
    by (auto simp: trim_end_def trim_end_matches_def dropWhile_eq_Nil_conv)
  have "prefix ?t w"
    using prefix_trim_end_matches [of is_whitespace "take n w"] take_is_prefix [of n w]
    unfolding trim_end_def by (rule prefix_order.trans)
  then have "hd ?t = hd w" and "set ?t \<subseteq> set w"
    using t0 by (auto simp: prefix_hd dest: set_mono_prefix)
  moreover have "\<not> is_whitespace (last ?t)"
    using t0 trim_end_matches_last unfolding trim_end_def by blast
  ultimately show ?thesis
    using w t0 hd by (auto simp: folder_name_ok_def trimmed_def)
qed

text \<open>The loop keeps: nothing read yet, or the names read so far joined, all of them clean.\<close>

definition site_group_inv :: "string \<Rightarrow> nat \<Rightarrow> bool" where
  "site_group_inv out n =
     (n = length out \<and> n \<le> MAX_SITE_GROUP_LEN
      \<and> (out \<noteq> [] \<longrightarrow> (\<forall>w \<in> set (split_on slash out). folder_name_ok w)))"

lemma split_on_slash_append:
  "split_on slash (a @ CHR ''/'' # b) = split_on slash a @ split_on slash b"
proof (induction a)
  case (Cons x a)
  then show ?case
    by (cases "split_on slash a") (simp_all)
qed simp

lemma site_group_loop_ok:
  "(\<forall>s \<in> set segs. \<forall>c \<in> set s. \<not> slash c) \<Longrightarrow> site_group_inv out n \<Longrightarrow>
   site_group_loop segs out n = [] \<or> folder_path_ok (site_group_loop segs out n)"
proof (induction segs arbitrary: out n)
  case Nil
  then show ?case by (auto simp: site_group_inv_def folder_path_ok_def)
next
  case (Cons seg segs)
  let ?c = "clean_segment seg"
  show ?case
  proof (cases "?c = []")
    case True
    with Cons show ?thesis by (simp add: Let_def)
  next
    case False
    with Cons.prems have c: "folder_name_ok ?c" by (intro clean_segment_ok) auto
    let ?n = "length ?c + (if n > 0 then 1 else 0)"
    let ?out = "out @ (if n > 0 then ''/'' else []) @ ?c"
    show ?thesis
    proof (cases "n + ?n > MAX_SITE_GROUP_LEN")
      case True
      have "folder_path_ok (trim_end (take MAX_SITE_GROUP_LEN ?c))"
        using folder_name_ok_prefix [OF c, of MAX_SITE_GROUP_LEN]
          split_on_slash_name [OF folder_name_ok_prefix [OF c, of MAX_SITE_GROUP_LEN]]
          prefix_length_le [OF prefix_trim_end_matches
            [of is_whitespace "take MAX_SITE_GROUP_LEN ?c"]]
        by (simp add: folder_path_ok_def trim_end_def MAX_SITE_GROUP_LEN_def)
      with True False Cons.prems show ?thesis
        by (auto simp: Let_def site_group_inv_def folder_path_ok_def)
    next
      case small: False
      have "site_group_inv ?out (n + ?n)"
        using Cons.prems(2) c small split_on_slash_append [of out ?c] split_on_slash_name [OF c]
        by (auto simp: site_group_inv_def)
      then have "site_group_loop segs ?out (n + ?n) = []
          \<or> folder_path_ok (site_group_loop segs ?out (n + ?n))"
        using Cons.prems(1) by (intro Cons.IH) auto
      with small False show ?thesis by (simp add: Let_def)
    qed
  qed
qed

lemma normalize_site_group_ok: "normalize_site_group raw = Some p \<Longrightarrow> folder_path_ok p"
  using site_group_loop_ok [of "split_on slash raw" "[]" 0] split_on_pieces [of _ slash raw]
  by (auto simp: normalize_site_group_def site_group_inv_def Let_def split: if_splits)

lemma site_group_loop_join:
  "(\<forall>w \<in> set ws. folder_name_ok w) \<Longrightarrow> ws \<noteq> [] \<Longrightarrow> n = length out \<Longrightarrow>
   length out + (if n > 0 then 1 else 0) + length (join ''/'' ws) \<le> MAX_SITE_GROUP_LEN \<Longrightarrow>
   site_group_loop ws out n = out @ (if n > 0 then ''/'' else []) @ join ''/'' ws"
proof (induction ws arbitrary: out n)
  case (Cons w ws)
  have w: "clean_segment w = w" "w \<noteq> []"
    using Cons.prems(1) by (auto simp: clean_segment_id folder_name_ok_def)
  show ?case
  proof (cases "ws = []")
    case True
    with Cons.prems w show ?thesis by (simp add: Let_def)
  next
    case False
    then have j: "join ''/'' (w # ws) = w @ ''/'' @ join ''/'' ws" by (rule join_Cons)
    let ?out = "out @ (if n > 0 then ''/'' else []) @ w"
    have "site_group_loop ws ?out (length ?out) = ?out @ ''/'' @ join ''/'' ws"
      using Cons.IH [OF _ False, of "length ?out" ?out] Cons.prems w(2) j by auto
    with Cons.prems w j show ?thesis by (cases "out = []") (simp_all add: Let_def)
  qed
qed simp

lemma normalize_site_group_id: "folder_path_ok p \<Longrightarrow> normalize_site_group p = Some p"
  using site_group_loop_join [of "split_on slash p" 0 "[]"] folder_path_ok_nonempty [of p]
  by (simp add: normalize_site_group_def folder_path_ok_def)

subsection \<open>Permission bits\<close>

lemma and_flag_bit: "(m :: mode) AND 2 ^ n \<noteq> 0 \<longleftrightarrow> bit m n"
  using and_exp_eq_0_iff_not_bit [of m n] by simp

lemma rwxrwxrwx_bits:
  "rwxrwxrwx p =
     map (\<lambda>(n, c). if bit (perm_mode p) n then c else CHR ''-'')
       [(8, CHR ''r''), (7, CHR ''w''), (6, CHR ''x''), (5, CHR ''r''), (4, CHR ''w''),
        (3, CHR ''x''), (2, CHR ''r''), (1, CHR ''w''), (0, CHR ''x'')]"
  using and_flag_bit [of "perm_mode p" 8] and_flag_bit [of "perm_mode p" 7]
    and_flag_bit [of "perm_mode p" 6] and_flag_bit [of "perm_mode p" 5]
    and_flag_bit [of "perm_mode p" 4] and_flag_bit [of "perm_mode p" 3]
    and_flag_bit [of "perm_mode p" 2] and_flag_bit [of "perm_mode p" 1]
    and_flag_bit [of "perm_mode p" 0]
  by (simp add: rwxrwxrwx_def mode_char_def Let_def)

lemma all_less_nine:
  "(\<forall>n < 9. P (n::nat)) \<longleftrightarrow> P 8 \<and> P 7 \<and> P 6 \<and> P 5 \<and> P 4 \<and> P 3 \<and> P 2 \<and> P 1 \<and> P 0"
  by (simp add: numeral_eq_Suc All_less_Suc)

lemma flag_char_eq: "c \<noteq> d \<Longrightarrow> ((if a then c else d) = (if b then c else d)) = (a = b)"
  by simp

lemma mode_and_511: "(a :: mode) AND 0x1FF = b AND 0x1FF \<longleftrightarrow> (\<forall>n < 9. bit a n = bit b n)"
proof -
  have m: "(0x1FF :: mode) = mask 9" by (simp add: mask_eq_exp_minus_1)
  show ?thesis
    unfolding m
    by (auto simp: bit_and_iff bit_mask_iff dest: arg_cong [where f = "\<lambda>w. bit w _"]
        intro!: bit_word_eqI)
qed

definition octal_value :: "string \<Rightarrow> nat" where
  "octal_value = foldl (\<lambda>acc c. 8 * acc + (code c - 48)) 0"

lemma octal_value_zeros: "octal_value (replicate k (CHR ''0'') @ s) = octal_value s"
  by (induction k) (simp_all add: octal_value_def code_def)

lemma octal_value_digits: "octal_value (octal_digits n) = n"
proof (induction n rule: octal_digits.induct)
  case (1 n)
  then show ?case
    by (cases "n < 8") (simp_all add: octal_digits.simps [of n] octal_value_def code_char_of)
qed

lemma length_octal_digits: "n < 8 ^ Suc k \<Longrightarrow> length (octal_digits n) \<le> Suc k"
proof (induction k arbitrary: n)
  case 0
  then show ?case by (simp add: octal_digits.simps [of n])
next
  case (Suc k)
  then have "n div 8 < 8 ^ Suc k" by (simp add: less_mult_imp_div_less)
  from Suc.IH [OF this] show ?case by (simp add: octal_digits.simps [of n])
qed

subsection \<open>The words a shell reads\<close>

text \<open>
  The part of the POSIX token rules that a command line built from plain words and \<open>sh_quote\<close>
  results exercises: blanks separate words, everything between single quotes is literal, a
  backslash makes the next character literal, and any other character a shell may treat
  specially is refused. The first argument says whether the reader is inside quotes, the second
  is the word read so far.
\<close>

definition sh_plain :: "char \<Rightarrow> bool" where
  "sh_plain c = (is_ascii_alphanumeric c \<or> c \<in> set ''-_./'')"

fun sh_words :: "bool \<Rightarrow> string option \<Rightarrow> string \<Rightarrow> string list option" where
  "sh_words True cur [] = None"
| "sh_words False cur [] = Some (case cur of None \<Rightarrow> [] | Some w \<Rightarrow> [w])"
| "sh_words True cur (c # cs) =
     (if c = CHR 0x27 then sh_words False cur cs
      else sh_words True (Some (case cur of None \<Rightarrow> [c] | Some w \<Rightarrow> w @ [c])) cs)"
| "sh_words False cur (c # cs) =
     (if c = CHR '' '' then
        (case cur of None \<Rightarrow> sh_words False None cs
         | Some w \<Rightarrow> map_option (Cons w) (sh_words False None cs))
      else if c = CHR 0x27
        then sh_words True (Some (case cur of None \<Rightarrow> [] | Some w \<Rightarrow> w)) cs
      else if c = CHR 0x5C then
        (case cs of [] \<Rightarrow> None
         | d # ds \<Rightarrow> sh_words False (Some (case cur of None \<Rightarrow> [d] | Some w \<Rightarrow> w @ [d])) ds)
      else if sh_plain c
        then sh_words False (Some (case cur of None \<Rightarrow> [c] | Some w \<Rightarrow> w @ [c])) cs
      else None)"

lemma sh_words_quoted:
  "sh_words True (Some w) (sh_quote_body v @ CHR 0x27 # s) = sh_words False (Some (w @ v)) s"
  by (induction v arbitrary: w) simp_all

lemma sh_words_sh_quote:
  "sh_words False None (sh_quote v @ s) = sh_words False (Some v) s"
  by (simp add: sh_quote_def sh_words_quoted)

subsection \<open>Properties\<close>

text \<open>
  C3: Quoting is exact: whatever the values are (quotes, blanks, dollars, newlines), a POSIX
  shell reads two quoted values separated by a blank as exactly those two words, so no value
  can end its word or inject another one.
\<close>
theorem sh_quote_exact:
  "sh_words False None (sh_quote v @ '' '' @ sh_quote w) = Some [v, w]"
  using sh_words_sh_quote [of v "'' '' @ sh_quote w"] sh_words_sh_quote [of w "[]"] by simp

text \<open>
  A folder path that \<open>normalize_site_group\<close> gives is clean (no empty name, no control
  characters, names trimmed, at most 255 characters), and cleaning it again changes nothing.
\<close>
theorem normalize_site_group_clean:
  assumes "normalize_site_group raw = Some p"
  shows "folder_path_ok p \<and> normalize_site_group p = Some p"
  using normalize_site_group_ok [OF assms] normalize_site_group_id by blast

theorem normalize_site_group_clean_witness:
  "folder_path_ok ''Production/Web'' \<and> normalize_site_group ''Production/Web'' = Some ''Production/Web''"
proof -
  have "normalize_site_group '' Production // Web/ '' = Some ''Production/Web''" by code_simp
  then show ?thesis by (rule normalize_site_group_clean)
qed

text \<open>
  The two texts of a mode lose nothing: the nine letters determine the nine permission bits,
  and the octal text has four digits and reads back as the low twelve bits.
\<close>
theorem permission_texts_faithful:
  "(rwxrwxrwx p = rwxrwxrwx q \<longleftrightarrow> perm_mode p AND 0x1FF = perm_mode q AND 0x1FF)
   \<and> length (octal_string p) = 4
   \<and> octal_value (octal_string p) = unat (perm_mode p AND 0xFFF)"
proof (intro conjI)
  show "rwxrwxrwx p = rwxrwxrwx q \<longleftrightarrow> perm_mode p AND 0x1FF = perm_mode q AND 0x1FF"
    unfolding mode_and_511 rwxrwxrwx_bits all_less_nine by (simp add: flag_char_eq)
  have "perm_mode p AND 0xFFF = take_bit 12 (perm_mode p)"
    by (simp add: take_bit_eq_mask mask_eq_exp_minus_1)
  then have "unat (perm_mode p AND 0xFFF) < 2 ^ 12"
    using take_bit_nat_less_exp [of 12 "unat (perm_mode p)"] by (simp add: unsigned_take_bit_eq)
  then have "length (octal_digits (unat (perm_mode p AND 0xFFF))) \<le> Suc 3"
    by (intro length_octal_digits) simp
  then show "length (octal_string p) = 4" by (simp add: octal_string_def format_04o_def Let_def)
  show "octal_value (octal_string p) = unat (perm_mode p AND 0xFFF)"
    by (simp add: octal_string_def format_04o_def Let_def octal_value_zeros octal_value_digits)
qed

text \<open>
  The debug text of an authentication method never depends on its secrets: two methods that
  agree on everything but non-empty secrets print the same.
\<close>
theorem auth_debug_hides_secrets:
  assumes "p \<noteq> []" and "p' \<noteq> []" and "k \<noteq> []" and "k' \<noteq> []"
  shows "auth_debug ds (Password p) = auth_debug ds (Password p')
    \<and> auth_debug ds (PrivateKey path (Some p) (Some k)) =
        auth_debug ds (PrivateKey path (Some p') (Some k'))"
  using assms by (simp add: redact_def redact_opt_def)

theorem auth_debug_hides_secrets_witness:
  "auth_debug (\<lambda>s. s) (Password ''hunter2'') = auth_debug (\<lambda>s. s) (Password ''x'')"
  using auth_debug_hides_secrets [of "''hunter2''" "''x''" "''k''" "''l''" "\<lambda>s. s" "[]"] by simp

end
