(* ===== verification/KnownHosts.thy ===== *)
theory KnownHosts
  imports Sha1 Glob CoreTypes
begin

section \<open>OpenSSH known_hosts files\<close>

text \<open>
  Models the parser and the lookups of \<open>crates/rustscp-core/src/known_hosts.rs\<close>. The Base64
  and SHA-256 crates are parameters, collected in the record \<open>codec\<close>; what is used of
  them is the predicate \<open>codec_ok\<close>. A key blob is a list of bytes.
\<close>

subsection \<open>The codecs of other crates\<close>

text \<open>
  \<open>STANDARD\<close> and \<open>STANDARD_NO_PAD\<close> of the crate \<open>base64\<close> and \<open>Sha256::digest\<close> of
  \<open>sha2\<close>.
\<close>

record codec =
  std_encode :: "byte list \<Rightarrow> string"
  std_decode :: "string \<Rightarrow> byte list option"
  nopad_encode :: "byte list \<Rightarrow> string"
  nopad_decode :: "string \<Rightarrow> byte list option"
  sha256 :: "byte list \<Rightarrow> byte list"

text \<open>
  What the documentation of \<open>base64\<close> promises of \<open>STANDARD\<close>: decoding undoes encoding, the
  text uses letters, digits, \<open>+\<close>, \<open>/\<close> and \<open>=\<close>, and only the empty text encodes no bytes.
\<close>

definition base64_char :: "char \<Rightarrow> bool" where
  "base64_char c = (is_ascii_alphanumeric c \<or> c \<in> set ''+/='')"

definition codec_ok :: "codec \<Rightarrow> bool" where
  "codec_ok c = (\<forall>b. std_decode c (std_encode c b) = Some b \<and>
     (\<forall>x \<in> set (std_encode c b). base64_char x) \<and> (std_encode c b = [] \<longrightarrow> b = []))"

text \<open>A codec that keeps these promises, for closed examples: two letters for a byte.\<close>

definition nibble_char :: "nat \<Rightarrow> char" where
  "nibble_char n = char_of (97 + n)"

definition pair_encode :: "byte list \<Rightarrow> string" where
  "pair_encode bs = concat (map (\<lambda>b. [nibble_char (unat b div 16), nibble_char (unat b mod 16)]) bs)"

fun pair_decode :: "string \<Rightarrow> byte list option" where
  "pair_decode [] = Some []"
| "pair_decode [_] = None"
| "pair_decode (a # b # s) =
     map_option (\<lambda>bs. of_nat (16 * (code a - 97) + (code b - 97)) # bs) (pair_decode s)"

definition pair_codec :: codec where
  "pair_codec = \<lparr>std_encode = pair_encode, std_decode = pair_decode,
     nopad_encode = pair_encode, nopad_decode = pair_decode, sha256 = (\<lambda>bs. bs)\<rparr>"

lemma code_nibble: "n < 16 \<Longrightarrow> code (nibble_char n) = 97 + n"
  by (simp add: nibble_char_def code_char_of)

lemma byte_nibbles: "unat (b :: byte) div 16 < 16"
proof -
  have "unat b < 2 ^ LENGTH(8)" by (rule unsigned_less)
  then show ?thesis by (simp add: less_mult_imp_div_less)
qed

lemma pair_decode_encode: "pair_decode (pair_encode bs) = Some bs"
  by (induction bs) (simp_all add: pair_encode_def code_nibble byte_nibbles)

lemma base64_nibble: "n < 16 \<Longrightarrow> base64_char (nibble_char n)"
  by (simp add: base64_char_def is_ascii_alphanumeric_def is_ascii_lower_def code_nibble Let_def)

lemma pair_codec_ok: "codec_ok pair_codec"
  by (auto simp: codec_ok_def pair_codec_def pair_decode_encode)
     (auto simp: pair_encode_def base64_nibble byte_nibbles)

subsection \<open>Names and key types\<close>

definition fingerprint_sha256 :: "codec \<Rightarrow> byte list \<Rightarrow> string" where
  "fingerprint_sha256 c key_blob = ''SHA256:'' @ nopad_encode c (sha256 c key_blob)"

text \<open>\<open>usize\<close> has 64 bits, so \<open>4 + len\<close> does not overflow.\<close>

definition key_type_of_blob :: "byte list \<Rightarrow> string option" where
  "key_type_of_blob blob =
     (if length blob < 4 then None
      else let len = unat (from_be_bytes (take 4 blob))
           in if 4 + len \<le> length blob then from_utf8 (take len (drop 4 blob)) else None)"

definition known_hosts_host_name :: "string \<Rightarrow> 16 word \<Rightarrow> string" where
  "known_hosts_host_name host port =
     (let h = to_ascii_lowercase (trim_end_matches (\<lambda>x. x = CHR '']'')
                (trim_start_matches (\<lambda>x. x = CHR ''['') (trim host)))
      in if port = 22 \<or> port = 0 then h
         else ''['' @ h @ '']:'' @ show_nat (unat port))"

subsection \<open>Parsing\<close>

datatype known_host_marker = NoMarker | Revoked | CertAuthority

record known_host_entry =
  kh_line :: nat
  kh_marker :: known_host_marker
  kh_hosts :: string
  kh_key_type :: string
  kh_blob :: "byte list"

text \<open>An optional marker before the host field; a marker the code does not know skips the line.\<close>

fun parse_marker :: "string list \<Rightarrow> (known_host_marker \<times> string \<times> string list) option" where
  "parse_marker [] = None"
| "parse_marker (first # ws) =
     (case strip_prefix ''@'' first of
        None \<Rightarrow> Some (NoMarker, first, ws)
      | Some m \<Rightarrow>
          if m = ''revoked'' \<or> m = ''cert-authority''
          then (case ws of
                  [] \<Rightarrow> None
                | f # fs \<Rightarrow> Some (if m = ''revoked'' then Revoked else CertAuthority, f, fs))
          else None)"

definition decode_key :: "codec \<Rightarrow> string \<Rightarrow> byte list option" where
  "decode_key c k = (case std_decode c k of Some b \<Rightarrow> Some b | None \<Rightarrow> nopad_decode c k)"

definition parse_line :: "codec \<Rightarrow> nat \<Rightarrow> string \<Rightarrow> known_host_entry option" where
  "parse_line c idx raw_line =
     (let line = trim raw_line in
      if line = [] \<or> starts_with line ''#'' then None
      else (case parse_marker (split_whitespace line) of
              Some (marker, hosts, key_type # key_b64 # _) \<Rightarrow>
                map_option
                  (\<lambda>blob. \<lparr>kh_line = idx + 1, kh_marker = marker, kh_hosts = hosts,
                     kh_key_type = key_type, kh_blob = blob\<rparr>)
                  (decode_key c key_b64)
            | _ \<Rightarrow> None))"

definition parse_known_hosts :: "codec \<Rightarrow> string \<Rightarrow> known_host_entry list" where
  "parse_known_hosts c contents =
     List.map_filter (\<lambda>(idx, l). parse_line c idx l) (enumerate 0 (str_lines contents))"

subsection \<open>Matching the host field\<close>

text \<open>The loop over the comma separated patterns, with \<open>positive\<close> as its state.\<close>

fun host_pattern_loop :: "string \<Rightarrow> string list \<Rightarrow> bool \<Rightarrow> bool" where
  "host_pattern_loop lookup [] positive = positive"
| "host_pattern_loop lookup (pattern # ps) positive =
     (let (negated, pat) = (case strip_prefix ''!'' pattern of
                              Some p \<Rightarrow> (True, p) | None \<Rightarrow> (False, pattern))
      in if glob_match (to_ascii_lowercase pat) lookup
         then (if negated then False else host_pattern_loop lookup ps True)
         else host_pattern_loop lookup ps positive)"

definition hashed_matches :: "codec \<Rightarrow> string \<Rightarrow> string \<Rightarrow> bool" where
  "hashed_matches c rest lookup =
     (case split_once (CHR ''|'') rest of
        None \<Rightarrow> False
      | Some (salt_b64, hash_b64) \<Rightarrow>
          (case (std_decode c salt_b64, std_decode c hash_b64) of
             (Some salt, Some hash) \<Rightarrow> hmac_sha1 salt (as_bytes lookup) = hash
           | _ \<Rightarrow> False))"

definition host_field_matches :: "codec \<Rightarrow> string \<Rightarrow> string \<Rightarrow> bool" where
  "host_field_matches c hosts lookup0 =
     (let lookup = to_ascii_lowercase lookup0 in
      case strip_prefix ''|1|'' hosts of
        Some rest \<Rightarrow> hashed_matches c rest lookup
      | None \<Rightarrow>
          host_pattern_loop lookup
            (filter (\<lambda>p. p \<noteq> []) (split_on (\<lambda>x. x = CHR '','') hosts)) False)"

subsection \<open>Looking a key up\<close>

datatype known_hosts_status =
    Match
  | RevokedAt nat
  | Mismatch nat string
  | NotListed

definition entry_key_type :: "known_host_entry \<Rightarrow> string" where
  "entry_key_type e =
     (case key_type_of_blob (kh_blob e) of Some t \<Rightarrow> t | None \<Rightarrow> kh_key_type e)"

fun find_revoked ::
  "codec \<Rightarrow> string \<Rightarrow> byte list \<Rightarrow> known_host_entry list \<Rightarrow> nat option" where
  "find_revoked c lookup key [] = None"
| "find_revoked c lookup key (e # es) =
     (if kh_marker e = Revoked \<and> kh_blob e = key \<and> host_field_matches c (kh_hosts e) lookup
      then Some (kh_line e) else find_revoked c lookup key es)"

text \<open>The second loop, with \<open>mismatch\<close> as its state.\<close>

fun find_match ::
  "codec \<Rightarrow> string \<Rightarrow> byte list \<Rightarrow> known_host_entry list \<Rightarrow> known_hosts_status option
   \<Rightarrow> known_hosts_status" where
  "find_match c lookup key [] mismatch = (case mismatch of Some m \<Rightarrow> m | None \<Rightarrow> NotListed)"
| "find_match c lookup key (e # es) mismatch =
     (if kh_marker e \<noteq> NoMarker \<or> \<not> host_field_matches c (kh_hosts e) lookup
      then find_match c lookup key es mismatch
      else if kh_blob e = key then Match
      else find_match c lookup key es
             (case mismatch of
                None \<Rightarrow> Some (Mismatch (kh_line e) (entry_key_type e))
              | Some m \<Rightarrow> Some m))"

definition check_known_hosts :: "codec \<Rightarrow> string \<Rightarrow> string \<Rightarrow> byte list \<Rightarrow> known_hosts_status" where
  "check_known_hosts c contents lookup key =
     (let entries = parse_known_hosts c contents in
      case find_revoked c lookup key entries of
        Some line \<Rightarrow> RevokedAt line
      | None \<Rightarrow> find_match c lookup key entries None)"

text \<open>\<open>if !v.contains(&x) { v.push(x) }\<close>\<close>

definition push_new :: "'a \<Rightarrow> 'a list \<Rightarrow> 'a list" where
  "push_new x xs = (if x \<in> set xs then xs else xs @ [x])"

definition known_key_types :: "codec \<Rightarrow> string \<Rightarrow> string \<Rightarrow> string list" where
  "known_key_types c contents lookup =
     fold (\<lambda>e types.
         if kh_marker e \<noteq> NoMarker \<or> \<not> host_field_matches c (kh_hosts e) lookup then types
         else push_new (entry_key_type e) types)
       (parse_known_hosts c contents) []"

definition host_key_methods_for_key_type :: "string \<Rightarrow> string list" where
  "host_key_methods_for_key_type t =
     (if t \<in> set [''ssh-ed25519'', ''ecdsa-sha2-nistp256'', ''ecdsa-sha2-nistp384'',
                   ''ecdsa-sha2-nistp521'', ''ssh-dss''] then [t]
      else if t = ''ssh-rsa'' then [''rsa-sha2-512'', ''rsa-sha2-256'', ''ssh-rsa'']
      else [])"

definition known_hosts_line :: "codec \<Rightarrow> string \<Rightarrow> 16 word \<Rightarrow> byte list \<Rightarrow> string" where
  "known_hosts_line c host port key =
     (let key_type = (case key_type_of_blob key of Some t \<Rightarrow> t | None \<Rightarrow> ''ssh-unknown'')
      in known_hosts_host_name host port @ '' '' @ key_type @ '' '' @ std_encode c key)"

subsection \<open>The home directory\<close>

text \<open>\<open>env\<close> is the process environment, one variable at a time.\<close>

definition env_nonempty :: "(string \<Rightarrow> string option) \<Rightarrow> string \<Rightarrow> string option" where
  "env_nonempty env var =
     (case env var of Some v \<Rightarrow> if v \<noteq> [] then Some v else None | None \<Rightarrow> None)"

definition home_dir :: "(string \<Rightarrow> string option) \<Rightarrow> string option" where
  "home_dir env =
     (case env_nonempty env ''HOME'' of
        Some h \<Rightarrow> Some h | None \<Rightarrow> env_nonempty env ''USERPROFILE'')"

text \<open>\<open>Path::join\<close> on Unix: an absolute right side replaces the left one.\<close>

definition path_join :: "string \<Rightarrow> string \<Rightarrow> string" where
  "path_join a b =
     (if starts_with b ''/'' then b
      else if a = [] \<or> ends_with a ''/'' then a @ b else a @ ''/'' @ b)"

definition expand_tilde :: "(string \<Rightarrow> string option) \<Rightarrow> string \<Rightarrow> string" where
  "expand_tilde env path =
     (let trimmed = trim path in
      if trimmed = ''~'' then (case home_dir env of Some h \<Rightarrow> h | None \<Rightarrow> trimmed)
      else (case (case strip_prefix ''~/'' trimmed of
                    Some r \<Rightarrow> Some r | None \<Rightarrow> strip_prefix [CHR ''~'', CHR 0x5C] trimmed) of
              Some rest \<Rightarrow> (case home_dir env of Some h \<Rightarrow> path_join h rest | None \<Rightarrow> trimmed)
            | None \<Rightarrow> trimmed))"

subsection \<open>What the lookups decide\<close>

definition plain_pattern :: "string \<Rightarrow> bool" where
  "plain_pattern p = (strip_prefix ''!'' p = None)"

lemma host_pattern_loop_iff:
  "host_pattern_loop l ps positive \<longleftrightarrow>
     (\<forall>p \<in> set ps. \<forall>q. strip_prefix ''!'' p = Some q \<longrightarrow> \<not> glob_match (to_ascii_lowercase q) l) \<and>
     (positive \<or> (\<exists>p \<in> set ps. plain_pattern p \<and> glob_match (to_ascii_lowercase p) l))"
proof (induction ps arbitrary: positive)
  case (Cons pat ps)
  show ?case
  proof (cases "strip_prefix ''!'' pat")
    case None
    then show ?thesis using Cons by (simp add: plain_pattern_def)
  next
    case (Some q)
    then show ?thesis using Cons by (simp add: plain_pattern_def)
  qed
qed simp

lemma host_field_plain:
  assumes "\<not> starts_with hosts ''|1|''"
  shows "host_field_matches c hosts lookup \<longleftrightarrow>
     (let ps = split_on (\<lambda>x. x = CHR '','') hosts; l = to_ascii_lowercase lookup in
      (\<exists>p \<in> set ps. p \<noteq> [] \<and> \<not> starts_with p ''!'' \<and> glob_match (to_ascii_lowercase p) l) \<and>
      (\<forall>p \<in> set ps. starts_with p ''!'' \<longrightarrow> \<not> glob_match (to_ascii_lowercase (tl p)) l))"
proof -
  have neg: "strip_prefix ''!'' p = (if starts_with p ''!'' then Some (tl p) else None)" for p
    by (simp add: strip_prefix_def drop_Suc)
  have ne: "starts_with p ''!'' \<Longrightarrow> p \<noteq> []" for p by (auto simp: starts_with_def)
  show ?thesis
    using assms ne
    by (auto simp: host_field_matches_def strip_prefix_def [of "''|1|''"] Let_def
        host_pattern_loop_iff plain_pattern_def neg)
qed

text \<open>
  A host field that is not hashed lists a host exactly when one of its comma separated
  patterns matches the lower-cased name and no pattern after a \<open>!\<close> does, whatever their
  order; patterns and name are compared without regard to ASCII case.
\<close>

theorem host_field_matches_plain:
  assumes "\<not> starts_with hosts ''|1|''"
  shows "host_field_matches c hosts lookup \<longleftrightarrow>
     (let ps = split_on (\<lambda>x. x = CHR '','') hosts; l = to_ascii_lowercase lookup in
      (\<exists>p \<in> set ps. p \<noteq> [] \<and> \<not> starts_with p ''!'' \<and> glob_match (to_ascii_lowercase p) l) \<and>
      (\<forall>p \<in> set ps. starts_with p ''!'' \<longrightarrow> \<not> glob_match (to_ascii_lowercase (tl p)) l))"
  using assms by (rule host_field_plain)

theorem host_field_matches_plain_witness:
  "host_field_matches pair_codec ''!bad.example.com,*.example.com'' ''A.Example.com''"
proof -
  have "\<not> starts_with ''!bad.example.com,*.example.com'' ''|1|''" by code_simp
  note * = host_field_matches_plain [OF this, of pair_codec "''A.Example.com''"]
  show ?thesis unfolding * by code_simp
qed

definition lists_key :: "codec \<Rightarrow> string \<Rightarrow> byte list \<Rightarrow> known_host_entry \<Rightarrow> bool" where
  "lists_key c lookup key e =
     (kh_marker e = NoMarker \<and> host_field_matches c (kh_hosts e) lookup \<and> kh_blob e = key)"

definition revokes_key :: "codec \<Rightarrow> string \<Rightarrow> byte list \<Rightarrow> known_host_entry \<Rightarrow> bool" where
  "revokes_key c lookup key e =
     (kh_marker e = Revoked \<and> host_field_matches c (kh_hosts e) lookup \<and> kh_blob e = key)"

definition lists_host :: "codec \<Rightarrow> string \<Rightarrow> known_host_entry \<Rightarrow> bool" where
  "lists_host c lookup e = (kh_marker e = NoMarker \<and> host_field_matches c (kh_hosts e) lookup)"

lemma find_revoked_None: "find_revoked c l key es = None \<longleftrightarrow> (\<forall>e \<in> set es. \<not> revokes_key c l key e)"
  by (induction es) (auto simp: revokes_key_def)

lemma find_match_Match: "find_match c l key es m = Match \<longleftrightarrow>
    (\<exists>e \<in> set es. lists_key c l key e) \<or> m = Some Match"
  by (induction es arbitrary: m) (auto simp: lists_key_def split: option.splits)

lemma find_match_NotListed: "m \<noteq> Some NotListed \<Longrightarrow>
    find_match c l key es m = NotListed \<longleftrightarrow> (\<forall>e \<in> set es. \<not> lists_host c l e) \<and> m = None"
  by (induction es arbitrary: m) (auto simp: lists_host_def split: option.splits)

lemma find_match_not_revoked: "m \<noteq> Some (RevokedAt n) \<Longrightarrow> find_match c l key es m \<noteq> RevokedAt n"
  by (induction es arbitrary: m) (auto split: option.splits)

lemma check_decides:
  "let es = parse_known_hosts c contents; r = check_known_hosts c contents lookup key in
   ((\<exists>n. r = RevokedAt n) = (\<exists>e \<in> set es. revokes_key c lookup key e)) \<and>
   (r = Match) = (\<not> (\<exists>e \<in> set es. revokes_key c lookup key e) \<and>
                  (\<exists>e \<in> set es. lists_key c lookup key e)) \<and>
   (r = NotListed) = (\<not> (\<exists>e \<in> set es. revokes_key c lookup key e) \<and>
                      \<not> (\<exists>e \<in> set es. lists_host c lookup e))"
proof -
  let ?es = "parse_known_hosts c contents"
  show ?thesis
  proof (cases "find_revoked c lookup key ?es")
    case None
    then show ?thesis
      using find_revoked_None [of c lookup key ?es] find_match_Match [of c lookup key ?es None]
        find_match_NotListed [of None c lookup key ?es] find_match_not_revoked [of None _ c lookup key ?es]
      by (auto simp: check_known_hosts_def Let_def)
  next
    case (Some n)
    then have "\<exists>e \<in> set ?es. revokes_key c lookup key e"
      using find_revoked_None [of c lookup key ?es] by auto
    with Some show ?thesis by (auto simp: check_known_hosts_def Let_def)
  qed
qed

text \<open>
  What the lookup in one file decides: a revoked entry for this key wins, then an equal
  key matches even when other keys are listed before it, and only a host that the file does
  not list at all is reported as not found.
\<close>

theorem check_known_hosts_decides:
  "let es = parse_known_hosts c contents; r = check_known_hosts c contents lookup key in
   ((\<exists>n. r = RevokedAt n) = (\<exists>e \<in> set es. revokes_key c lookup key e)) \<and>
   (r = Match) = (\<not> (\<exists>e \<in> set es. revokes_key c lookup key e) \<and>
                  (\<exists>e \<in> set es. lists_key c lookup key e)) \<and>
   (r = NotListed) = (\<not> (\<exists>e \<in> set es. revokes_key c lookup key e) \<and>
                      \<not> (\<exists>e \<in> set es. lists_host c lookup e))"
  by (rule check_decides)

subsection \<open>Appending to a file\<close>

lemma parse_line_cut_cr: "parse_line c i (cut_cr l) = parse_line c i l"
  by (simp add: parse_line_def trim_cut_cr)

definition parse_from :: "codec \<Rightarrow> nat \<Rightarrow> string list \<Rightarrow> known_host_entry list" where
  "parse_from c n ls = List.map_filter (\<lambda>(idx, l). parse_line c idx l) (enumerate n ls)"

lemma parse_from_append: "parse_from c n (xs @ ys) = parse_from c n xs @ parse_from c (n + length xs) ys"
  by (simp add: parse_from_def enumerate_append_eq map_filter_def)

lemma parse_from_Nil [simp]: "parse_from c n [] = []"
  by (simp add: parse_from_def map_filter_def)

lemma parse_from_empty: "parse_from c n [[]] = []"
  by (simp add: parse_from_def map_filter_def parse_line_def trim_def trim_end_def
      trim_start_matches_def trim_end_matches_def)

lemma parse_from_cut_cr: "parse_from c n (map cut_cr ls) = parse_from c n ls"
  by (induction ls arbitrary: n) (simp_all add: parse_from_def parse_line_cut_cr map_filter_def)

lemma parse_known_hosts_from: "parse_known_hosts c s = parse_from c 0 (split_on newline s)"
proof -
  let ?ps = "split_on newline s"
  have "parse_from c 0 (str_lines s) = parse_from c 0 (butlast ?ps) @
      (if last ?ps = [] then [] else parse_from c (length (butlast ?ps)) [last ?ps])"
    by (simp add: str_lines_def Let_def parse_from_append parse_from_cut_cr parse_from_Nil)
  also have "\<dots> = parse_from c 0 (butlast ?ps) @ parse_from c (length (butlast ?ps)) [last ?ps]"
    by (simp add: parse_from_empty)
  also have "\<dots> = parse_from c 0 (butlast ?ps @ [last ?ps])" by (simp only: parse_from_append) simp
  also have "butlast ?ps @ [last ?ps] = ?ps" by simp
  finally show ?thesis by (simp add: parse_known_hosts_def parse_from_def)
qed

lemma parse_appended:
  assumes "newline (last old) \<or> old = []" and "CHR 0x0A \<notin> set line"
  shows "\<exists>n. parse_known_hosts c (old @ line @ [CHR 0x0A]) =
     parse_known_hosts c old @ (case parse_line c n line of Some e \<Rightarrow> [e] | None \<Rightarrow> [])"
proof -
  have one: "parse_from c n (split_on newline (line @ [CHR 0x0A])) =
      (case parse_line c n line of Some e \<Rightarrow> [e] | None \<Rightarrow> [])" for n
  proof -
    have "split_on newline (line @ [CHR 0x0A]) = [line] @ [[]]"
      using assms(2) by (subst split_on_end) (auto intro!: split_on_no_sep)
    then show ?thesis
      by (simp only: parse_from_append parse_from_empty)
         (simp add: parse_from_def map_filter_def split: option.split)
  qed
  show ?thesis
  proof (cases old rule: rev_cases)
    case Nil
    then show ?thesis using one [of 0] by (simp add: parse_known_hosts_from parse_from_empty) blast
  next
    case (snoc u x)
    then have x: "x = CHR 0x0A" using assms(1) by simp
    have "parse_known_hosts c old = parse_from c 0 (split_on newline u)"
      by (simp add: parse_known_hosts_from snoc x split_on_end parse_from_append parse_from_empty)
    moreover have "parse_known_hosts c (old @ line @ [CHR 0x0A]) =
        parse_from c 0 (split_on newline u) @
        parse_from c (length (split_on newline u)) (split_on newline (line @ [CHR 0x0A]))"
      by (simp add: parse_known_hosts_from snoc x split_on_append parse_from_append)
    ultimately show ?thesis using one by auto
  qed
qed

subsection \<open>A saved line reads back\<close>

definition host_char :: "char \<Rightarrow> bool" where
  "host_char x = (is_ascii_lower x \<or> is_ascii_digit x \<or> x \<in> set ''.-_:[]'')"

text \<open>A host name or address as a user types it: letters, digits, \<open>.\<close>, \<open>-\<close>, \<open>_\<close> and \<open>:\<close>.\<close>

definition plain_host :: "string \<Rightarrow> bool" where
  "plain_host h = (h \<noteq> [] \<and> (\<forall>x \<in> set h. is_ascii_alphanumeric x \<or> x \<in> set ''.-_:''))"

lemma host_charD:
  "host_char x \<Longrightarrow> \<not> is_whitespace x \<and> x \<notin> set ''#@|!,*?'' \<and> ascii_lower x = x \<and> \<not> newline x"
  by (auto simp: host_char_def is_ascii_lower_def is_ascii_digit_def is_whitespace_def Let_def
      ascii_lower_def is_ascii_upper_def code_def)

lemma plain_host_char:
  "is_ascii_alphanumeric x \<or> x \<in> set ''.-_:'' \<Longrightarrow> host_char (ascii_lower x) \<and> \<not> is_whitespace x \<and> x \<notin> set ''[]''"
  by (auto simp: is_ascii_alphanumeric_def host_char_def is_ascii_lower_def is_ascii_digit_def
      is_whitespace_def Let_def ascii_lower_def is_ascii_upper_def code_char_of code_def)

lemma host_name_chars:
  assumes "plain_host host"
  shows "known_hosts_host_name host port \<noteq> [] \<and> (\<forall>x \<in> set (known_hosts_host_name host port). host_char x)"
proof -
  have c: "host_char (ascii_lower x) \<and> \<not> is_whitespace x \<and> x \<notin> set ''[]''" if "x \<in> set host" for x
    using assms that by (intro plain_host_char) (auto simp: plain_host_def)
  have ne: "host \<noteq> []" using assms by (simp add: plain_host_def)
  have "trim host = host" using c ne by (intro trim_id) (auto simp: trimmed_def)
  moreover have "trim_start_matches (\<lambda>x. x = CHR ''['') host = host"
    using c ne hd_in_set by (fastforce simp: trim_start_matches_def intro!: dropWhile_id)
  moreover have "trim_end_matches (\<lambda>x. x = CHR '']'') host = host"
    using c ne last_in_set by (fastforce intro!: trim_end_matches_id)
  ultimately have "known_hosts_host_name host port = (let h = map ascii_lower host in
      if port = 22 \<or> port = 0 then h else ''['' @ h @ '']:'' @ show_nat (unat port))"
    by (simp add: known_hosts_host_name_def to_ascii_lowercase_def)
  moreover have "host_char x" if "x \<in> set (show_nat n)" for x n
    using set_show_nat [OF that] by (simp add: host_char_def)
  moreover have "host_char (CHR ''['') \<and> host_char (CHR '']'') \<and> host_char (CHR '':'')"
    by (simp add: host_char_def)
  ultimately show ?thesis using c ne by (auto simp: Let_def)
qed

lemma host_field_matches_self:
  assumes "h \<noteq> []" and "\<forall>x \<in> set h. host_char x"
  shows "host_field_matches c h h"
proof -
  have ok: "x \<notin> set ''#@|!,*?''" "ascii_lower x = x" if "x \<in> set h" for x
    using assms(2) that host_charD by auto
  have nohash: "\<not> starts_with h ''|1|''" and noneg: "\<not> starts_with h ''!''"
    using ok(1) [of "hd h"] assms(1) by (cases h; auto simp: starts_with_def)+
  have low: "to_ascii_lowercase h = h"
    using ok(2) by (simp add: to_ascii_lowercase_def map_idI)
  have split: "split_on (\<lambda>x. x = CHR '','') h = [h]"
    using ok(1) by (intro split_on_no_sep) auto
  have "CHR ''*'' \<notin> set h" using ok(1) by auto
  then have "glob_match h h" by (simp add: glob_match_spec glob_spec_refl)
  then show ?thesis
    using nohash noneg assms(1)
    by (simp add: host_field_plain split low Let_def)
qed

definition key_named :: "byte list \<Rightarrow> bool" where
  "key_named key =
     (case key_type_of_blob key of
        None \<Rightarrow> key \<noteq> [] | Some t \<Rightarrow> t \<noteq> [] \<and> (\<forall>x \<in> set t. \<not> is_whitespace x))"

lemma key_named_not_Nil: "key_named key \<Longrightarrow> key \<noteq> []"
  by (auto simp: key_named_def key_type_of_blob_def)

lemma base64_no_space: "base64_char x \<Longrightarrow> \<not> is_whitespace x"
  by (auto simp: base64_char_def is_ascii_alphanumeric_def is_ascii_upper_def is_ascii_lower_def
      is_ascii_digit_def is_whitespace_def Let_def code_def)

lemma newline_space: "newline x \<Longrightarrow> is_whitespace x"
  by (simp add: is_whitespace_def code_def)

text \<open>The line written for a key is read back as an entry for that host and key.\<close>

lemma parse_saved_line:
  assumes ok: "codec_ok c" and host: "plain_host host" and key: "key_named key"
  shows "CHR 0x0A \<notin> set (known_hosts_line c host port key) \<and>
     (\<exists>e. parse_line c n (known_hosts_line c host port key) = Some e \<and>
          lists_key c (known_hosts_host_name host port) key e)"
proof -
  let ?h = "known_hosts_host_name host port"
  let ?b = "std_encode c key"
  obtain t where t: "known_hosts_line c host port key = ?h @ '' '' @ t @ '' '' @ ?b"
    "t \<noteq> []" "\<forall>x \<in> set t. \<not> is_whitespace x"
  proof (cases "key_type_of_blob key")
    case None
    have "\<forall>x \<in> set ''ssh-unknown''. \<not> is_whitespace x" by code_simp
    with None show ?thesis by (intro that [of "''ssh-unknown''"]) (simp_all add: known_hosts_line_def)
  next
    case (Some t)
    with key show ?thesis by (intro that [of t]) (simp_all add: known_hosts_line_def key_named_def)
  qed
  have h: "?h \<noteq> []" "\<forall>x \<in> set ?h. host_char x" using host_name_chars [OF host] by auto
  have hn: "\<forall>x \<in> set ?h. \<not> is_whitespace x" using h(2) host_charD by blast
  have b: "?b \<noteq> []" "\<forall>x \<in> set ?b. \<not> is_whitespace x" "std_decode c ?b = Some key"
    using ok key_named_not_Nil [OF key] base64_no_space by (auto simp: codec_ok_def)
  let ?l = "?h @ '' '' @ t @ '' '' @ ?b"
  have "trimmed ?l" using h(1) hn b by (simp add: trimmed_def)
  then have trim: "trim ?l = ?l" by (rule trim_id)
  have first: "hd ?h \<notin> set ''#@''" using h host_charD hd_in_set by fastforce
  have noc: "\<not> starts_with ?l ''#''" using first h(1) by (cases ?h) (auto simp: starts_with_def)
  have noat: "strip_prefix ''@'' ?h = None"
    using first h(1) by (cases ?h) (auto simp: strip_prefix_def starts_with_def)
  have words: "split_whitespace ?l = [?h, t, ?b]"
    using h(1) hn t b by (intro split_whitespace_three) auto
  have "parse_line c n ?l = Some \<lparr>kh_line = n + 1, kh_marker = NoMarker, kh_hosts = ?h,
      kh_key_type = t, kh_blob = key\<rparr>"
    using noc noat h(1) unfolding parse_line_def trim words Let_def by (simp add: decode_key_def b(3))
  moreover have "CHR 0x0A \<notin> set ?l"
    using hn t(3) b(2) newline_space by auto
  ultimately show ?thesis
    using host_field_matches_self [OF h] by (auto simp: t(1) lists_key_def)
qed

end
