(* ===== verification/HostKeyStore.thy ===== *)
theory HostKeyStore
  imports KnownHosts
begin

section \<open>Verifying host keys\<close>

text \<open>
  Models \<open>HostKeyStore\<close> and \<open>append_line\<close> of \<open>crates/rustscp-core/src/known_hosts.rs\<close>. The
  files are explicit state; what can fail while a line is appended is a parameter. The
  process-wide mutex and the advisory lock make one call a single step. They are not part of the
  state; the lock file \<open><app_file>.lock\<close> and its folder, which \<open>verify\<close> creates where it can and
  from which no key is read, are left out of the files.
\<close>

subsection \<open>Files\<close>

text \<open>Text files by path. A file can exist and still not be readable.\<close>

record files =
  file_text :: "string \<Rightarrow> string option"
  unreadable :: "string \<Rightarrow> bool"

definition read_file :: "files \<Rightarrow> string \<Rightarrow> string option" where
  "read_file fs p = (if unreadable fs p then None else file_text fs p)"

text \<open>\<open>HostKeyStore::read\<close>: an error is an empty file.\<close>

definition store_read :: "files \<Rightarrow> string \<Rightarrow> string" where
  "store_read fs p = (case read_file fs p of Some t \<Rightarrow> t | None \<Rightarrow> '''')"

text \<open>
  The faults of one append: creating the directory, opening the file, the characters that
  still fit on the disk with the error after them, and the final flush.
\<close>

record append_env =
  dir_error :: "string option"
  open_error :: "string option"
  space :: "nat option"
  space_error :: string
  sync_error :: "string option"

definition no_faults :: append_env where
  "no_faults = \<lparr>dir_error = None, open_error = None, space = None, space_error = '''', sync_error = None\<rparr>"

text \<open>Consecutive \<open>write_all\<close> calls; a write that does not fit leaves what fitted.\<close>

fun write_pieces :: "nat option \<Rightarrow> string \<Rightarrow> string list \<Rightarrow> string \<times> bool" where
  "write_pieces sp old [] = (old, True)"
| "write_pieces None old (t # ts) = write_pieces None (old @ t) ts"
| "write_pieces (Some k) old (t # ts) =
     (if length t \<le> k then write_pieces (Some (k - length t)) (old @ t) ts
      else (old @ take k t, False))"

definition has_parent :: "string \<Rightarrow> bool" where
  "has_parent p = (\<exists>x \<in> set p. x \<noteq> CHR ''/'')"

definition append_line ::
  "append_env \<Rightarrow> files \<Rightarrow> string \<Rightarrow> string \<Rightarrow> (string + unit) \<times> files" where
  "append_line env fs path line =
     (case (if has_parent path then dir_error env else None) of
        Some m \<Rightarrow> (Inl m, fs)
      | None \<Rightarrow>
          let needs_newline =
                (case read_file fs path of
                   Some existing \<Rightarrow> existing \<noteq> [] \<and> \<not> ends_with existing [CHR 0x0A]
                 | None \<Rightarrow> False)
          in case open_error env of
               Some m \<Rightarrow> (Inl m, fs)
             | None \<Rightarrow>
                 let old = (case file_text fs path of Some t \<Rightarrow> t | None \<Rightarrow> '''');
                     (new, written) =
                       write_pieces (space env) old
                         ((if needs_newline then [[CHR 0x0A]] else []) @ [line, [CHR 0x0A]]);
                     fs' = fs\<lparr>file_text := (file_text fs)(path \<mapsto> new)\<rparr>
                 in if \<not> written then (Inl (space_error env), fs')
                    else (case sync_error env of
                            Some m \<Rightarrow> (Inl m, fs') | None \<Rightarrow> (Inr (), fs')))"

subsection \<open>The store\<close>

record host_key_store =
  app_file :: string
  read_only_files :: "string list"

definition for_current_user :: "string \<Rightarrow> (string \<Rightarrow> string option) \<Rightarrow> host_key_store" where
  "for_current_user config_dir env =
     \<lparr>app_file = path_join config_dir ''known_hosts'',
      read_only_files =
        (case home_dir env of
           Some home \<Rightarrow> [path_join (path_join home ''.ssh'') ''known_hosts''] | None \<Rightarrow> [])\<rparr>"

definition store_files :: "host_key_store \<Rightarrow> string list" where
  "store_files st = app_file st # read_only_files st"

definition store_key_types ::
  "codec \<Rightarrow> host_key_store \<Rightarrow> files \<Rightarrow> string \<Rightarrow> 16 word \<Rightarrow> string list" where
  "store_key_types c st fs host port =
     (let lookup = known_hosts_host_name host port in
      fold (\<lambda>f types. fold push_new (known_key_types c (store_read fs f) lookup) types)
        (store_files st) [])"

definition host_entries ::
  "codec \<Rightarrow> host_key_store \<Rightarrow> files \<Rightarrow> string \<Rightarrow> known_host_entry list" where
  "host_entries c st fs lookup =
     filter (\<lambda>e. host_field_matches c (kh_hosts e) lookup)
       (concat (map (\<lambda>f. parse_known_hosts c (store_read fs f)) (store_files st)))"

definition host_keys ::
  "codec \<Rightarrow> host_key_store \<Rightarrow> files \<Rightarrow> string \<Rightarrow> 16 word \<Rightarrow> byte list list" where
  "host_keys c st fs host port =
     (let entries = host_entries c st fs (known_hosts_host_name host port) in
      fold (\<lambda>e keys.
          let revoked = list_ex (\<lambda>r. kh_marker r = Revoked \<and> kh_blob r = kh_blob e) entries
          in if kh_marker e = NoMarker \<and> \<not> revoked \<and> kh_blob e \<notin> set keys
             then keys @ [kh_blob e] else keys)
        entries [])"

subsection \<open>Keys a shared connection vouches for\<close>

definition shared_revoked_text :: "codec \<Rightarrow> string \<Rightarrow> string \<Rightarrow> known_host_entry \<Rightarrow> string" where
  "shared_revoked_text c lookup file e =
   ''the shared connection vouches for the host key '' @ fingerprint_sha256 c (kh_blob e)
   @ '' of '' @ lookup @ '', but '' @ file @ '' (line '' @ show_nat (kh_line e)
   @ '') marks that key @revoked. Nothing was changed.''"

definition shared_mismatch_text ::
  "codec \<Rightarrow> string \<Rightarrow> byte list \<Rightarrow> byte list \<Rightarrow> string" where
  "shared_mismatch_text c lookup known shared =
   ''this computer already knows '' @ lookup @ '' by the host key ''
   @ fingerprint_sha256 c known
   @ '', but the shared connection says the server's key is ''
   @ fingerprint_sha256 c shared
   @ ''. Someone may be intercepting one of the connections, or the server's key was replaced. Ask the sender to confirm the server's key; nothing was changed.''"

fun scan_shared_entries ::
  "codec \<Rightarrow> string \<Rightarrow> byte list list \<Rightarrow> string \<Rightarrow> known_host_entry list \<Rightarrow> byte list list
   \<Rightarrow> byte list list core_result" where
  "scan_shared_entries c lookup keys file [] known = Inr known"
| "scan_shared_entries c lookup keys file (e # es) known =
     (if \<not> host_field_matches c (kh_hosts e) lookup
      then scan_shared_entries c lookup keys file es known
      else if kh_marker e = Revoked \<and> kh_blob e \<in> set keys
      then Inl (HostKeyMismatch
             (shared_revoked_text c lookup file e))
      else if kh_marker e = NoMarker
      then scan_shared_entries c lookup keys file es (known @ [kh_blob e])
      else scan_shared_entries c lookup keys file es known)"

fun scan_shared_files ::
  "codec \<Rightarrow> files \<Rightarrow> string \<Rightarrow> byte list list \<Rightarrow> string list \<Rightarrow> byte list list
   \<Rightarrow> byte list list core_result" where
  "scan_shared_files c fs lookup keys [] known = Inr known"
| "scan_shared_files c fs lookup keys (f # rest) known =
     (case scan_shared_entries c lookup keys f (parse_known_hosts c (store_read fs f)) known of
        Inl e \<Rightarrow> Inl e
      | Inr known' \<Rightarrow> scan_shared_files c fs lookup keys rest known')"

fun append_lines ::
  "append_env \<Rightarrow> files \<Rightarrow> string \<Rightarrow> string list \<Rightarrow> (string + unit) \<times> files" where
  "append_lines env fs path [] = (Inr (), fs)"
| "append_lines env fs path (l # ls) =
     (case append_line env fs path l of
        (Inl m, fs') \<Rightarrow> (Inl m, fs')
      | (Inr _, fs') \<Rightarrow> append_lines env fs' path ls)"

definition trust_shared_keys ::
  "codec \<Rightarrow> append_env \<Rightarrow> host_key_store \<Rightarrow> files \<Rightarrow> string \<Rightarrow> 16 word \<Rightarrow> byte list list
   \<Rightarrow> nat core_result \<times> files" where
  "trust_shared_keys c env st fs host port keys =
     (if keys = [] then (Inr 0, fs)
      else let lookup = known_hosts_host_name host port in
        (case scan_shared_files c fs lookup keys (store_files st) [] of
           Inl e \<Rightarrow> (Inl e, fs)
         | Inr known \<Rightarrow>
             let new = filter (\<lambda>k. k \<notin> set known) keys in
             if known \<noteq> [] \<and> length new = length keys
             then (Inl (HostKeyMismatch
                     (shared_mismatch_text c lookup (known ! 0) (keys ! 0))), fs)
             else (case append_lines env fs (app_file st) (map (known_hosts_line c host port) new) of
                     (Inl m, fs') \<Rightarrow> (Inl (Io m), fs')
                   | (Inr _, fs') \<Rightarrow> (Inr (length new), fs'))))"

subsection \<open>Verifying a presented key\<close>

datatype host_key_verdict =
    Known string
  | NewlyTrusted string
  | TrustedNotSaved string

text \<open>What the loop over the files ends with: an early return or the first mismatch.\<close>

datatype scan =
    ScanRevoked string nat
  | ScanKnown string
  | ScanEnd "(string \<times> nat \<times> string) option"

fun verify_scan ::
  "codec \<Rightarrow> files \<Rightarrow> string \<Rightarrow> byte list \<Rightarrow> string list \<Rightarrow> (string \<times> nat \<times> string) option
   \<Rightarrow> scan" where
  "verify_scan c fs lookup key [] mismatch = ScanEnd mismatch"
| "verify_scan c fs lookup key (f # rest) mismatch =
     (case check_known_hosts c (store_read fs f) lookup key of
        RevokedAt line \<Rightarrow> ScanRevoked f line
      | Match \<Rightarrow> ScanKnown f
      | Mismatch line t \<Rightarrow>
          verify_scan c fs lookup key rest
            (case mismatch of None \<Rightarrow> Some (f, line, t) | Some m \<Rightarrow> Some m)
      | NotListed \<Rightarrow> verify_scan c fs lookup key rest mismatch)"

definition verify_revoked_text ::
  "string \<Rightarrow> string \<Rightarrow> string \<Rightarrow> string \<Rightarrow> nat \<Rightarrow> string" where
  "verify_revoked_text lookup key_type fingerprint file line =
   ''the '' @ key_type @ '' host key '' @ fingerprint @ '' presented by '' @ lookup
   @ '' is marked @revoked in '' @ file @ '' (line '' @ show_nat line
   @ ''). The connection was refused and no credentials were sent.''"

definition verify_mismatch_text ::
  "string \<Rightarrow> string \<Rightarrow> string \<Rightarrow> string \<Rightarrow> nat \<Rightarrow> string \<Rightarrow> string" where
  "verify_mismatch_text lookup key_type fingerprint file line known_key_type =
   ''the server '' @ lookup @ '' presented the '' @ key_type @ '' host key ''
   @ fingerprint @ '', but '' @ file @ '' (line '' @ show_nat line
   @ '') records a different '' @ known_key_type
   @ '' key for this host. Someone may be intercepting the connection (man-in-the-middle attack), or the server's host key was replaced. No credentials were sent. If you are sure the new key is legitimate, delete line ''
   @ show_nat line @ '' for '' @ lookup @ '' from '' @ file
   @ '' and connect again.''"

definition verify ::
  "codec \<Rightarrow> append_env \<Rightarrow> host_key_store \<Rightarrow> files \<Rightarrow> string \<Rightarrow> 16 word \<Rightarrow> byte list
   \<Rightarrow> host_key_verdict core_result \<times> files" where
  "verify c env st fs host port key =
     (let lookup = known_hosts_host_name host port;
          fingerprint = fingerprint_sha256 c key;
          key_type = (case key_type_of_blob key of Some t \<Rightarrow> t | None \<Rightarrow> ''unknown'')
      in case verify_scan c fs lookup key (store_files st) None of
           ScanRevoked file line \<Rightarrow>
             (Inl (HostKeyMismatch
                (verify_revoked_text lookup key_type fingerprint file line)), fs)
         | ScanKnown file \<Rightarrow> (Inr (Known file), fs)
         | ScanEnd (Some (file, line, known_key_type)) \<Rightarrow>
             (Inl (HostKeyMismatch
                (verify_mismatch_text lookup key_type fingerprint file line known_key_type)), fs)
         | ScanEnd None \<Rightarrow>
             (case append_line env fs (app_file st) (known_hosts_line c host port key) of
                (Inr _, fs') \<Rightarrow> (Inr (NewlyTrusted (app_file st)), fs')
              | (Inl e, fs') \<Rightarrow> (Inr (TrustedNotSaved e), fs')))"

subsection \<open>Only the end of one file changes\<close>

lemma write_pieces_prefix: "prefix old (fst (write_pieces sp old ts))"
proof (induction sp old ts rule: write_pieces.induct)
  case (3 k old t ts)
  then show ?case using take_is_prefix append_prefixD by fastforce
qed (auto dest: append_prefixD)

lemma write_pieces_all: "snd (write_pieces sp old ts) \<Longrightarrow> fst (write_pieces sp old ts) = old @ concat ts"
  by (induction sp old ts rule: write_pieces.induct) (auto split: if_splits)

definition only_appends :: "files \<Rightarrow> files \<Rightarrow> string \<Rightarrow> bool" where
  "only_appends fs fs' p =
     (unreadable fs' = unreadable fs \<and> (\<forall>q. q \<noteq> p \<longrightarrow> file_text fs' q = file_text fs q) \<and>
      (\<forall>t. file_text fs p = Some t \<longrightarrow> (\<exists>u. file_text fs' p = Some (t @ u))))"

lemma only_appends_refl [simp]: "only_appends fs fs p"
  by (simp add: only_appends_def)

lemma only_appends_trans: "only_appends fs fs' p \<Longrightarrow> only_appends fs' fs'' p \<Longrightarrow> only_appends fs fs'' p"
  unfolding only_appends_def by (metis append.assoc)

lemma write_pieces_only_appends:
  "only_appends fs (fs\<lparr>file_text := (file_text fs)(path \<mapsto> fst (write_pieces sp
     (case file_text fs path of Some t \<Rightarrow> t | None \<Rightarrow> '''') ts))\<rparr>) path"
  using write_pieces_prefix [of "case file_text fs path of Some t \<Rightarrow> t | None \<Rightarrow> ''''" sp ts]
  by (auto simp: only_appends_def prefix_def)

lemma append_line_files:
  "snd (append_line env fs path line) = fs \<or>
   (\<exists>ts. snd (append_line env fs path line) =
      fs\<lparr>file_text := (file_text fs)(path \<mapsto> fst (write_pieces (space env)
        (case file_text fs path of Some t \<Rightarrow> t | None \<Rightarrow> '''') ts))\<rparr>)"
  unfolding append_line_def Let_def
  by (cases "if has_parent path then dir_error env else None"; cases "open_error env";
      cases "sync_error env") (auto simp: case_prod_beta)

lemma append_line_only_appends: "only_appends fs (snd (append_line env fs path line)) path"
  using append_line_files [of env fs path line] write_pieces_only_appends by auto

lemma append_line_success:
  assumes "append_line env fs path line = (Inr u, fs')" and "\<not> unreadable fs path"
  shows "\<exists>base. (base = [] \<or> newline (last base)) \<and>
     parse_known_hosts c base = parse_known_hosts c (store_read fs path) \<and>
     store_read fs' path = base @ line @ [CHR 0x0A]"
proof -
  let ?old = "store_read fs path"
  have old: "(case file_text fs path of Some t \<Rightarrow> t | None \<Rightarrow> '''') = ?old"
    using assms(2) by (simp add: store_read_def read_file_def)
  have rd: "read_file fs path = file_text fs path" using assms(2) by (simp add: read_file_def)
  let ?nl = "?old \<noteq> [] \<and> \<not> ends_with ?old [CHR 0x0A]"
  have nl: "(case file_text fs path of Some existing \<Rightarrow> existing \<noteq> [] \<and> \<not> ends_with existing [CHR 0x0A]
      | None \<Rightarrow> False) = ?nl"
    using old by (auto split: option.splits)
  let ?ts = "(if ?nl then [[CHR 0x0A]] else []) @ [line, [CHR 0x0A]]"
  have "snd (write_pieces (space env) ?old ?ts)" and
    fs': "fs' = fs\<lparr>file_text := (file_text fs)(path \<mapsto> fst (write_pieces (space env) ?old ?ts))\<rparr>"
    using assms(1) unfolding append_line_def rd nl old Let_def
    by (auto split: option.splits prod.splits if_splits)
  then have "fs' = fs\<lparr>file_text := (file_text fs)(path \<mapsto> ?old @ concat ?ts)\<rparr>"
    using write_pieces_all by simp
  then have new: "store_read fs' path = ?old @ (if ?nl then [CHR 0x0A] else []) @ line @ [CHR 0x0A]"
    using assms(2) by (simp add: store_read_def read_file_def)
  have last: "ends_with s [x] \<longleftrightarrow> s \<noteq> [] \<and> last s = x" for s x
    by (cases s rule: rev_cases) (auto simp: ends_with_def starts_with_def)
  show ?thesis
  proof (cases ?nl)
    case True
    have "parse_known_hosts c (?old @ [CHR 0x0A]) = parse_known_hosts c ?old"
      by (simp add: parse_known_hosts_from split_on_end parse_from_append parse_from_empty)
    with True new show ?thesis by (intro exI [of _ "?old @ [CHR 0x0A]"]) simp
  next
    case False
    with new last show ?thesis by (intro exI [of _ ?old]) auto
  qed
qed

subsection \<open>What the scan of the files finds\<close>

definition accepted_by :: "codec \<Rightarrow> files \<Rightarrow> string \<Rightarrow> byte list \<Rightarrow> string \<Rightarrow> bool" where
  "accepted_by c fs lookup key f =
     (\<exists>e \<in> set (parse_known_hosts c (store_read fs f)). lists_key c lookup key e)"

definition listed_in :: "codec \<Rightarrow> files \<Rightarrow> string \<Rightarrow> string \<Rightarrow> bool" where
  "listed_in c fs lookup f =
     (\<exists>e \<in> set (parse_known_hosts c (store_read fs f)). lists_host c lookup e)"

definition revoked_in :: "codec \<Rightarrow> files \<Rightarrow> string \<Rightarrow> byte list \<Rightarrow> string \<Rightarrow> bool" where
  "revoked_in c fs lookup key f =
     (\<exists>e \<in> set (parse_known_hosts c (store_read fs f)). revokes_key c lookup key e)"

definition known_in :: "codec \<Rightarrow> host_key_store \<Rightarrow> files \<Rightarrow> string \<Rightarrow> byte list \<Rightarrow> bool" where
  "known_in c st fs l key = (\<exists>f \<in> set (store_files st). accepted_by c fs l key f)"

definition revoked_anywhere :: "codec \<Rightarrow> host_key_store \<Rightarrow> files \<Rightarrow> string \<Rightarrow> byte list \<Rightarrow> bool" where
  "revoked_anywhere c st fs l key = (\<exists>f \<in> set (store_files st). revoked_in c fs l key f)"

definition listed_anywhere :: "codec \<Rightarrow> host_key_store \<Rightarrow> files \<Rightarrow> string \<Rightarrow> bool" where
  "listed_anywhere c st fs l = (\<exists>f \<in> set (store_files st). listed_in c fs l f)"

lemma check_cases:
  "check_known_hosts c (store_read fs f) lookup key = Match \<longleftrightarrow>
     \<not> revoked_in c fs lookup key f \<and> accepted_by c fs lookup key f"
  "check_known_hosts c (store_read fs f) lookup key = NotListed \<longleftrightarrow>
     \<not> revoked_in c fs lookup key f \<and> \<not> listed_in c fs lookup f"
  "(\<exists>n. check_known_hosts c (store_read fs f) lookup key = RevokedAt n) \<longleftrightarrow> revoked_in c fs lookup key f"
  using check_decides [of c "store_read fs f" lookup key]
  by (auto simp: Let_def accepted_by_def listed_in_def revoked_in_def)

text \<open>What the scan of the files ends with.\<close>

lemma verify_scan_Known:
  "verify_scan c fs l key files m = ScanKnown f \<Longrightarrow>
     f \<in> set files \<and> accepted_by c fs l key f"
  using check_cases(1)
  by (induction files arbitrary: m) (auto split: known_hosts_status.splits)

lemma verify_scan_End_None:
  "verify_scan c fs l key files m = ScanEnd None \<longleftrightarrow>
     m = None \<and> (\<forall>f \<in> set files. \<not> listed_in c fs l f \<and> \<not> revoked_in c fs l key f)"
proof (induction files arbitrary: m)
  case (Cons f fl)
  then show ?case
    using check_cases(2) [of c fs f l key] check_cases(1) [of c fs f l key] check_cases(3) [of c fs f l key]
    by (cases "check_known_hosts c (store_read fs f) l key") (auto split: option.splits)
qed simp

lemma verify_scan_same: 
  assumes "\<And>f. f \<in> set files \<Longrightarrow> store_read fs f = store_read fs' f"
  shows "verify_scan c fs l key files m = verify_scan c fs' l key files m"
  using assms by (induction files arbitrary: m) (auto split: known_hosts_status.splits)

subsection \<open>Correctness of verification\<close>

text \<open>Every refusal carries \<open>HostKeyMismatch\<close>, and only an unknown host makes a write.\<close>

lemma verify_cases:
  obtains (refused) m where "verify c env st fs host port key = (Inl (HostKeyMismatch m), fs)"
      "verify_scan c fs (known_hosts_host_name host port) key (store_files st) None \<noteq> ScanEnd None"
  | (known) f where "verify c env st fs host port key = (Inr (Known f), fs)"
      "verify_scan c fs (known_hosts_host_name host port) key (store_files st) None = ScanKnown f"
  | (first) "verify_scan c fs (known_hosts_host_name host port) key (store_files st) None = ScanEnd None"
      "verify c env st fs host port key =
         (case append_line env fs (app_file st) (known_hosts_line c host port key) of
            (Inr _, fs') \<Rightarrow> (Inr (NewlyTrusted (app_file st)), fs')
          | (Inl e, fs') \<Rightarrow> (Inr (TrustedNotSaved e), fs'))"
proof (cases "verify_scan c fs (known_hosts_host_name host port) key (store_files st) None")
  case (ScanRevoked f n)
  then show ?thesis by (intro refused) (auto simp: verify_def Let_def)
next
  case (ScanKnown f)
  then show ?thesis by (intro known) (simp_all add: verify_def Let_def)
next
  case (ScanEnd m)
  then show ?thesis
  proof (cases m)
    case None
    with ScanEnd show ?thesis by (intro first) (simp_all add: verify_def Let_def)
  next
    case (Some x)
    then obtain f n t where "m = Some (f, n, t)" by (cases x) auto
    with ScanEnd show ?thesis by (intro refused) (simp_all add: verify_def Let_def)
  qed
qed

text \<open>
  C5: A presented key is accepted only when some consulted file lists exactly this key for the
  host, or when no consulted file lists the host under any key nor revokes the key; it is
  refused with \<open>HostKeyMismatch\<close>, and then no file of keys has changed.
\<close>

theorem verify_accepts_only:
  "case verify c env st fs host port key of
     (Inr v, fs') \<Rightarrow>
       (let l = known_hosts_host_name host port in
        (\<exists>f \<in> set (store_files st). v = Known f \<and> fs' = fs \<and> accepted_by c fs l key f) \<or>
        \<not> listed_anywhere c st fs l \<and> \<not> revoked_anywhere c st fs l key \<and>
        (v = NewlyTrusted (app_file st) \<or> (\<exists>m. v = TrustedNotSaved m)))
   | (Inl e, fs') \<Rightarrow> (\<exists>m. e = HostKeyMismatch m) \<and> fs' = fs"
proof (cases rule: verify_cases [of c env st fs host port key])
  case (refused m)
  then show ?thesis by simp
next
  case (known f)
  then show ?thesis using verify_scan_Known [OF known(2)] by (auto simp: Let_def)
next
  case first
  then have "\<not> listed_anywhere c st fs (known_hosts_host_name host port)"
    "\<not> revoked_anywhere c st fs (known_hosts_host_name host port) key"
    by (auto simp: verify_scan_End_None listed_anywhere_def revoked_anywhere_def)
  with first(2) show ?thesis by (auto simp: Let_def split: sum.split prod.split)
qed

text \<open>
  Whatever happens while a key is verified, only RustSCP's own file can change, and what
  it held is still there, followed by what was added, even when the write is cut short.
\<close>

theorem verify_only_appends:
  "only_appends fs (snd (verify c env st fs host port key)) (app_file st)"
proof (cases rule: verify_cases [of c env st fs host port key])
  case first
  then show ?thesis
    using append_line_only_appends [of fs env "app_file st" "known_hosts_line c host port key"]
    by (auto split: prod.splits sum.splits)
qed simp_all

lemma store_read_other: "only_appends fs fs' p \<Longrightarrow> f \<noteq> p \<Longrightarrow> store_read fs' f = store_read fs f"
  by (simp add: only_appends_def store_read_def read_file_def)

lemma lists_key_host: "lists_key c l key e \<Longrightarrow> lists_host c l e"
  by (simp add: lists_key_def lists_host_def)

text \<open>After a successful append the file lists the new key next to what it listed before.\<close>

lemma appended_entries:
  assumes ok: "codec_ok c" and host: "plain_host host" and key: "key_named key"
    and r: "\<not> unreadable fs path"
    and a: "append_line env fs path (known_hosts_line c host port key) = (Inr u, fs')"
  shows "\<exists>e. lists_key c (known_hosts_host_name host port) key e \<and>
     parse_known_hosts c (store_read fs' path) = parse_known_hosts c (store_read fs path) @ [e]"
proof -
  let ?line = "known_hosts_line c host port key"
  obtain base where base: "newline (last base) \<or> base = []"
    "parse_known_hosts c base = parse_known_hosts c (store_read fs path)"
    "store_read fs' path = base @ ?line @ [CHR 0x0A]"
    using append_line_success [OF a r, of c] by blast
  have nl: "CHR 0x0A \<notin> set ?line" using parse_saved_line [OF ok host key] by blast
  obtain n where "parse_known_hosts c (base @ ?line @ [CHR 0x0A]) = parse_known_hosts c base @
      (case parse_line c n ?line of Some e \<Rightarrow> [e] | None \<Rightarrow> [])"
    using parse_appended [OF base(1) nl] by blast
  then show ?thesis using parse_saved_line [OF ok host key, of port n] base by auto
qed

text \<open>
  C4: Trust on first use. After the first connection to a host saved its key, the same key is
  accepted from RustSCP's own file, and every other key for that host and port is refused as a
  mismatch without a write. The hypotheses: the Base64 codec keeps its promises, the host is a
  plain name or address, the key's type is a word, and RustSCP's own file can be read.
\<close>

theorem verify_trust_on_first_use:
  assumes ok: "codec_ok c" and host: "plain_host host" and key: "key_named key"
    and r: "\<not> unreadable fs (app_file st)"
    and v: "verify c env st fs host port key = (Inr (NewlyTrusted f), fs')"
  shows "verify c env' st fs' host port key = (Inr (Known (app_file st)), fs') \<and>
     (\<forall>other. other \<noteq> key \<longrightarrow>
        (\<exists>m. verify c env' st fs' host port other = (Inl (HostKeyMismatch m), fs')))"
proof -
  let ?l = "known_hosts_host_name host port" and ?app = "app_file st"
  have none: "\<forall>f \<in> set (store_files st). \<not> listed_in c fs ?l f \<and> \<not> revoked_in c fs ?l key f"
    and a: "append_line env fs ?app (known_hosts_line c host port key) = (Inr (), fs')"
    using v by (cases rule: verify_cases [of c env st fs host port key];
        auto simp: verify_scan_End_None split: sum.splits prod.splits)+
  have only: "only_appends fs fs' ?app"
    using append_line_only_appends [of fs env ?app "known_hosts_line c host port key"] a by simp
  obtain e where e: "lists_key c ?l key e"
    and es: "parse_known_hosts c (store_read fs' ?app) = parse_known_hosts c (store_read fs ?app) @ [e]"
    using appended_entries [OF ok host key r a] by blast
  have app: "?app \<in> set (store_files st)" by (simp add: store_files_def)
  have nl: "\<not> listed_in c fs ?l ?app" "\<not> revoked_in c fs ?l key ?app" using none app by auto
  have "accepted_by c fs' ?l key ?app" using e es by (simp add: accepted_by_def)
  moreover have "\<not> revoked_in c fs' ?l key ?app"
    using nl(2) e es by (auto simp: revoked_in_def revokes_key_def lists_key_def)
  ultimately have "check_known_hosts c (store_read fs' ?app) ?l key = Match"
    using check_cases(1) by blast
  then have same: "verify c env' st fs' host port key = (Inr (Known ?app), fs')"
    by (simp add: verify_def Let_def store_files_def)
  have "\<exists>m. verify c env' st fs' host port other = (Inl (HostKeyMismatch m), fs')"
    if ne: "other \<noteq> key" for other
  proof -
    have notl: "\<not> accepted_by c fs' ?l other f" if "f \<in> set (store_files st)" for f
    proof (cases "f = ?app")
      case True
      then show ?thesis using nl(1) e es ne
        by (auto simp: accepted_by_def listed_in_def lists_key_def lists_host_def)
    next
      case False
      then show ?thesis
        using none that store_read_other [OF only False] lists_key_host
        by (fastforce simp: accepted_by_def listed_in_def)
    qed
    have "listed_in c fs' ?l ?app"
      using e es lists_key_host by (auto simp: listed_in_def)
    then have "verify_scan c fs' ?l other (store_files st) None \<noteq> ScanEnd None"
      using app by (auto simp: verify_scan_End_None)
    moreover have "verify_scan c fs' ?l other (store_files st) None \<noteq> ScanKnown g" for g
      using verify_scan_Known notl by blast
    ultimately show ?thesis
      by (cases rule: verify_cases [of c env' st fs' host port other]) auto
  qed
  with same show ?thesis by blast
qed

definition demo_store :: host_key_store where
  "demo_store = \<lparr>app_file = ''/cfg/known_hosts'', read_only_files = [''/home/u/.ssh/known_hosts'']\<rparr>"

definition demo_key :: "byte list" where
  "demo_key = [0, 0, 0, 3, 114, 115, 97, 7]"

definition demo_files :: files where
  "demo_files = \<lparr>file_text = (\<lambda>_. None), unreadable = (\<lambda>_. False)\<rparr>"

theorem verify_trust_on_first_use_witness:
  "let r = verify pair_codec no_faults demo_store demo_files ''h.example'' 22 demo_key in
   fst (verify pair_codec no_faults demo_store (snd r) ''h.example'' 22 demo_key)
     = Inr (Known ''/cfg/known_hosts'') \<and>
   (\<exists>m. fst (verify pair_codec no_faults demo_store (snd r) ''h.example'' 22 [0])
     = Inl (HostKeyMismatch m))"
proof -
  let ?r = "verify pair_codec no_faults demo_store demo_files ''h.example'' 22 demo_key"
  have host: "plain_host ''h.example''" by code_simp
  have key: "key_named demo_key" by code_simp
  have read: "\<not> unreadable demo_files (app_file demo_store)" by (simp add: demo_files_def)
  have "fst ?r = Inr (NewlyTrusted ''/cfg/known_hosts'')" by code_simp
  then have v: "?r = (Inr (NewlyTrusted ''/cfg/known_hosts''), snd ?r)" by (metis prod.collapse)
  have ne: "[0] \<noteq> demo_key" by (simp add: demo_key_def)
  note * = verify_trust_on_first_use [OF pair_codec_ok host key read v, of no_faults]
  have "app_file demo_store = ''/cfg/known_hosts''" by (simp add: demo_store_def)
  with * ne show ?thesis unfolding Let_def by (metis fst_conv)
qed

text \<open>
  A key that RustSCP's own file lists for the host, and does not itself revoke, is accepted
  whatever the files read after it say: the scan returns at the first match. So a \<open>@revoked\<close>
  line in the user's \<open>~/.ssh/known_hosts\<close> does not refuse the key, although \<open>host_keys\<close>,
  which reads every file, leaves the same key out.
\<close>

theorem verify_stops_at_first_match:
  assumes "accepted_by c fs (known_hosts_host_name host port) key (app_file st)"
    and "\<not> revoked_in c fs (known_hosts_host_name host port) key (app_file st)"
  shows "verify c env st fs host port key = (Inr (Known (app_file st)), fs)"
proof -
  have "check_known_hosts c (store_read fs (app_file st)) (known_hosts_host_name host port) key = Match"
    using assms check_cases(1) by blast
  then show ?thesis by (simp add: verify_def Let_def store_files_def)
qed

definition revoked_files :: files where
  "revoked_files = \<lparr>file_text = [''/cfg/known_hosts'' \<mapsto> known_hosts_line pair_codec ''h'' 22 demo_key,
      ''/home/u/.ssh/known_hosts'' \<mapsto> ''@revoked '' @ known_hosts_line pair_codec ''h'' 22 demo_key],
     unreadable = (\<lambda>_. False)\<rparr>"

theorem verify_stops_at_first_match_witness:
  "revoked_in pair_codec revoked_files ''h'' demo_key ''/home/u/.ssh/known_hosts'' \<and>
   host_keys pair_codec demo_store revoked_files ''h'' 22 = [] \<and>
   verify pair_codec no_faults demo_store revoked_files ''h'' 22 demo_key
     = (Inr (Known ''/cfg/known_hosts''), revoked_files)"
proof -
  have n: "known_hosts_host_name ''h'' 22 = ''h''" by code_simp
  have a: "accepted_by pair_codec revoked_files (known_hosts_host_name ''h'' 22) demo_key (app_file demo_store)"
    unfolding n by code_simp
  have b: "\<not> revoked_in pair_codec revoked_files (known_hosts_host_name ''h'' 22) demo_key (app_file demo_store)"
    unfolding n by code_simp
  have c: "revoked_in pair_codec revoked_files ''h'' demo_key ''/home/u/.ssh/known_hosts''"
    by code_simp
  have d: "host_keys pair_codec demo_store revoked_files ''h'' 22 = []" by code_simp
  have "app_file demo_store = ''/cfg/known_hosts''" by (simp add: demo_store_def)
  then show ?thesis
    using verify_stops_at_first_match [OF a b, of no_faults] c d by simp
qed

subsection \<open>Recorded and shared keys\<close>

lemma host_keys_fold:
  "set (fold (\<lambda>e keys. if P e \<and> kh_blob e \<notin> set keys then keys @ [kh_blob e] else keys) es keys)
     = set keys \<union> kh_blob ` {e \<in> set es. P e} \<and>
   (distinct keys \<longrightarrow>
    distinct (fold (\<lambda>e keys. if P e \<and> kh_blob e \<notin> set keys then keys @ [kh_blob e] else keys) es keys))"
  by (induction es arbitrary: keys) auto

text \<open>
  The host keys reported for a host are, each once, exactly the keys some file lists for
  it and no file revokes for it.
\<close>

theorem host_keys_exact:
  "let l = known_hosts_host_name host port; keys = host_keys c st fs host port in
   distinct keys \<and> set keys = {k. known_in c st fs l k \<and> \<not> revoked_anywhere c st fs l k}"
proof -
  let ?l = "known_hosts_host_name host port"
  let ?es = "host_entries c st fs ?l"
  let ?P = "\<lambda>e. kh_marker e = NoMarker \<and>
      \<not> list_ex (\<lambda>r. kh_marker r = Revoked \<and> kh_blob r = kh_blob e) ?es"
  have k: "host_keys c st fs host port =
      fold (\<lambda>e keys. if ?P e \<and> kh_blob e \<notin> set keys then keys @ [kh_blob e] else keys) ?es []"
    by (simp add: host_keys_def Let_def conj_assoc)
  have rev: "list_ex (\<lambda>r. kh_marker r = Revoked \<and> kh_blob r = b) ?es \<longleftrightarrow>
      revoked_anywhere c st fs ?l b" for b
    by (auto simp: list_ex_iff host_entries_def revoked_anywhere_def revoked_in_def revokes_key_def)
  have "kh_blob ` {e \<in> set ?es. kh_marker e = NoMarker \<and> \<not> revoked_anywhere c st fs ?l (kh_blob e)} =
      {b. known_in c st fs ?l b \<and> \<not> revoked_anywhere c st fs ?l b}"
    by (force simp: host_entries_def known_in_def accepted_by_def lists_key_def)
  then show ?thesis
    using host_keys_fold [of ?P ?es "[]"] by (simp add: k rev Let_def)
qed

lemma scan_shared_entries_Inr:
  "scan_shared_entries c l keys f es known = Inr known' \<Longrightarrow>
     known' = known @ map kh_blob (filter (lists_host c l) es) \<and>
     (\<forall>e \<in> set es. \<forall>k \<in> set keys. \<not> revokes_key c l k e)"
proof (induction es arbitrary: known)
  case (Cons e es)
  then show ?case
    using Cons.IH [of known] Cons.IH [of "known @ [kh_blob e]"]
    by (auto simp: lists_host_def revokes_key_def split: if_splits)
qed simp

lemma scan_shared_entries_Inl:
  "scan_shared_entries c l keys f es known = Inl err \<Longrightarrow>
     (\<exists>m. err = HostKeyMismatch m) \<and> (\<exists>e \<in> set es. \<exists>k \<in> set keys. revokes_key c l k e)"
  by (induction es arbitrary: known) (auto simp: revokes_key_def split: if_splits)

lemma listed_blobs:
  fixes c :: codec
  defines "es \<equiv> \<lambda>fs f. parse_known_hosts c (store_read fs f)"
  shows "kh_blob ` {e \<in> set (es fs f). lists_host c l e} = {k. accepted_by c fs l k f}"
    and "filter (lists_host c l) (es fs f) = [] \<longleftrightarrow> \<not> listed_in c fs l f"
  by (auto simp: es_def accepted_by_def lists_key_def lists_host_def listed_in_def filter_empty_conv)

lemma scan_shared_files_Inr:
  "scan_shared_files c fs l keys fl known = Inr known' \<Longrightarrow>
     set known' = set known \<union> {k. \<exists>f \<in> set fl. accepted_by c fs l k f} \<and>
     (known' = [] \<longleftrightarrow> known = [] \<and> (\<forall>f \<in> set fl. \<not> listed_in c fs l f)) \<and>
     (\<forall>f \<in> set fl. \<forall>k \<in> set keys. \<not> revoked_in c fs l k f)"
proof (induction fl arbitrary: known)
  case (Cons f fl)
  let ?es = "parse_known_hosts c (store_read fs f)"
  from Cons.prems obtain mid where mid: "scan_shared_entries c l keys f ?es known = Inr mid"
    "scan_shared_files c fs l keys fl mid = Inr known'"
    by (auto split: sum.splits)
  note m = scan_shared_entries_Inr [OF mid(1)]
  have s: "set mid = set known \<union> {k. accepted_by c fs l k f}"
    using m listed_blobs(1) [of c fs f l] by simp
  have n: "mid = [] \<longleftrightarrow> known = [] \<and> \<not> listed_in c fs l f"
    using m listed_blobs(2) [of c l fs f] by simp
  have r: "\<forall>k \<in> set keys. \<not> revoked_in c fs l k f" using m by (auto simp: revoked_in_def)
  show ?case using Cons.IH [OF mid(2)] s n r by auto
qed simp

lemma scan_shared_files_Inl:
  "scan_shared_files c fs l keys fl known = Inl err \<Longrightarrow>
     (\<exists>m. err = HostKeyMismatch m) \<and> (\<exists>f \<in> set fl. \<exists>k \<in> set keys. revoked_in c fs l k f)"
proof (induction fl arbitrary: known)
  case (Cons f fl)
  then show ?case
    by (auto simp: revoked_in_def split: sum.splits dest!: scan_shared_entries_Inl)
qed simp

lemma append_lines_only_appends: "only_appends fs (snd (append_lines env fs path ls)) path"
proof (induction ls arbitrary: fs)
  case (Cons l ls)
  then show ?case
    using append_line_only_appends [of fs env path l] only_appends_trans
    by (auto split: prod.splits sum.splits)
qed simp

text \<open>
  Keys of a shared connection are added only when no file revokes one of them for the host
  and the host is either unknown or already known by one of them; then exactly the keys not
  yet listed count as added. Otherwise the call is refused with \<open>HostKeyMismatch\<close> and no file
  changes; an error while writing leaves every file as it was up to text added at the end of
  RustSCP's own.
\<close>

theorem trust_shared_keys_decides:
  "let l = known_hosts_host_name host port;
       revoked = (\<exists>k \<in> set keys. revoked_anywhere c st fs l k);
       clash = (listed_anywhere c st fs l \<and> \<not> (\<exists>k \<in> set keys. known_in c st fs l k))
   in case trust_shared_keys c env st fs host port keys of
        (Inr n, fs') \<Rightarrow> n = length (filter (\<lambda>k. \<not> known_in c st fs l k) keys) \<and>
          (keys = [] \<or> \<not> revoked \<and> \<not> clash) \<and> only_appends fs fs' (app_file st)
      | (Inl (HostKeyMismatch m), fs') \<Rightarrow> fs' = fs \<and> keys \<noteq> [] \<and> (revoked \<or> clash)
      | (Inl (Io m), fs') \<Rightarrow> \<not> revoked \<and> \<not> clash \<and> only_appends fs fs' (app_file st)
      | _ \<Rightarrow> False"
proof (cases "keys = []")
  case True
  then show ?thesis by (simp add: trust_shared_keys_def Let_def)
next
  case ne: False
  let ?l = "known_hosts_host_name host port"
  show ?thesis
  proof (cases "scan_shared_files c fs ?l keys (store_files st) []")
    case (Inl err)
    then show ?thesis
      using scan_shared_files_Inl [OF Inl] ne
      by (auto simp: trust_shared_keys_def Let_def revoked_anywhere_def)
  next
    case (Inr known)
    note k = scan_shared_files_Inr [OF Inr]
    have kn: "b \<in> set known \<longleftrightarrow> known_in c st fs ?l b" for b
      using k by (auto simp: known_in_def)
    have hl: "known \<noteq> [] \<longleftrightarrow> listed_anywhere c st fs ?l" using k by (simp add: listed_anywhere_def)
    have nr: "\<not> (\<exists>k \<in> set keys. revoked_anywhere c st fs ?l k)"
      using k by (auto simp: revoked_anywhere_def)
    let ?new = "filter (\<lambda>k. \<not> known_in c st fs ?l k) keys"
    have all: "length ?new = length keys \<longleftrightarrow> \<not> (\<exists>k \<in> set keys. known_in c st fs ?l k)"
      by (metis filter_True length_filter_less less_irrefl)
    show ?thesis
    proof (cases "known \<noteq> [] \<and> length ?new = length keys")
      case True
      then show ?thesis using ne hl all by (simp add: trust_shared_keys_def Let_def Inr kn)
    next
      case False
      then have r: "trust_shared_keys c env st fs host port keys =
          (case append_lines env fs (app_file st) (map (known_hosts_line c host port) ?new) of
             (Inl m, fs') \<Rightarrow> (Inl (Io m), fs') | (Inr _, fs') \<Rightarrow> (Inr (length ?new), fs'))"
        using ne by (auto simp: trust_shared_keys_def Let_def Inr kn)
      show ?thesis
        using False nr hl all
          append_lines_only_appends [of fs env "app_file st" "map (known_hosts_line c host port) ?new"]
        unfolding r by (auto simp: Let_def split: prod.splits sum.splits)
    qed
  qed
qed

end
