(* ===== verification/Machine.thy ===== *)
theory Machine
  imports Prelude
begin

section \<open>Components as machines\<close>

text \<open>
  The interface several components share: a state, a step for every call, an invariant that
  every step keeps, and what a run of calls then keeps. A component provides the laws by an
  interpretation on its own definitions and gets the facts about whole runs.
\<close>

locale machine =
  fixes step :: "'op \<Rightarrow> 's \<Rightarrow> 's"
    and inv :: "'s \<Rightarrow> bool"
  assumes step_inv: "inv s \<Longrightarrow> inv (step op s)"
begin

lemma run_inv: "inv s \<Longrightarrow> inv (fold step ops s)"
  by (induction ops arbitrary: s) (simp_all add: step_inv)

lemma run_induct [consumes 1, case_names start step]:
  assumes "inv s" and "P s" and "\<And>op t. inv t \<Longrightarrow> P t \<Longrightarrow> P (step op t)"
  shows "P (fold step ops s)"
  using assms(1,2)
proof (induction ops arbitrary: s)
  case (Cons op ops)
  then show ?case using assms(3) step_inv by simp
qed simp

end

text \<open>A machine that keeps what it holds at a place until a call touches that place.\<close>

locale keeping_machine = machine step inv
  for step :: "'op \<Rightarrow> 's \<Rightarrow> 's" and inv :: "'s \<Rightarrow> bool" +
  fixes held :: "'s \<Rightarrow> 'k \<Rightarrow> 'd option"
    and touches :: "'op \<Rightarrow> 'k \<Rightarrow> bool"
  assumes step_keeps: "inv s \<Longrightarrow> \<not> touches op k \<Longrightarrow> held s k = Some d \<Longrightarrow> held (step op s) k = Some d"
begin

lemma run_keeps:
  "inv s \<Longrightarrow> held s k = Some d \<Longrightarrow> (\<forall>op \<in> set ops. \<not> touches op k) \<Longrightarrow>
   held (fold step ops s) k = Some d"
  by (induction ops arbitrary: s) (simp_all add: step_inv step_keeps)

end

text \<open>
  A machine whose content is always found in a specification state that each call updates by
  a simple rule: the implementation forgets, it never invents.
\<close>

locale refining_machine = machine step inv
  for step :: "'op \<Rightarrow> 's \<Rightarrow> 's" and inv :: "'s \<Rightarrow> bool" +
  fixes content :: "'s \<Rightarrow> 'k \<rightharpoonup> 'd"
    and spec_step :: "'op \<Rightarrow> ('k \<rightharpoonup> 'd) \<Rightarrow> ('k \<rightharpoonup> 'd)"
  assumes step_refines: "inv s \<Longrightarrow> content s \<subseteq>\<^sub>m a \<Longrightarrow> content (step op s) \<subseteq>\<^sub>m spec_step op a"
begin

lemma run_refines:
  "inv s \<Longrightarrow> content s \<subseteq>\<^sub>m a \<Longrightarrow> content (fold step ops s) \<subseteq>\<^sub>m fold spec_step ops a"
  by (induction ops arbitrary: s a) (simp_all add: step_inv step_refines)

end

end
