(* ===== verification/ChunkCache.thy ===== *)
theory ChunkCache
  imports Machine "HOL-Library.Word"
begin

section \<open>The in-memory chunk cache\<close>

text \<open>
  Models \<open>ChunkCacheManager\<close> of \<open>crates/rustscp-cache/src/lib.rs\<close>. The hash map is an
  association list with distinct keys; its order stands for the arbitrary iteration order, and
  no statement depends on it. Each operation holds the lock from start to end, so it is one
  step. The access clock is a natural number: it counts accesses and does not reach \<open>2 ^ 64\<close>.
  The SHA-256 text of a chunk and the time of day are arguments.
\<close>

subsection \<open>State\<close>

record chunk_key =
  ck_connection :: string
  ck_path :: string
  ck_index :: "64 word"

record cache_chunk =
  cc_data :: "8 word list"
  cc_sha256 :: string
  cc_dirty :: bool
  cc_last_accessed :: int

record cache_entry =
  ce_chunk :: cache_chunk
  ce_tick :: nat

record chunk_cache =
  chunk_size :: nat
  max_memory_chunks :: nat
  max_memory_bytes :: nat
  cache_map :: "(chunk_key \<times> cache_entry) list"
  total_bytes :: nat
  clock :: nat

definition DEFAULT_CHUNK_SIZE :: nat where
  "DEFAULT_CHUNK_SIZE = 4 * 1024 * 1024"

definition DEFAULT_MAX_MEMORY_BYTES :: nat where
  "DEFAULT_MAX_MEMORY_BYTES = 256 * 1024 * 1024"

definition usize_max :: nat where
  "usize_max = 2 ^ 64 - 1"

definition with_memory_budget :: "nat \<Rightarrow> nat \<Rightarrow> nat \<Rightarrow> chunk_cache" where
  "with_memory_budget cs mc mb =
     \<lparr>chunk_size = cs, max_memory_chunks = mc, max_memory_bytes = mb, cache_map = [],
      total_bytes = 0, clock = 0\<rparr>"

text \<open>\<open>ChunkCacheManager::new\<close>: the byte budget is a saturating product.\<close>

definition new_cache :: "nat \<Rightarrow> nat \<Rightarrow> chunk_cache" where
  "new_cache cs mc = with_memory_budget cs mc (min usize_max (cs * mc))"

definition default_cache :: chunk_cache where
  "default_cache = with_memory_budget DEFAULT_CHUNK_SIZE 512 DEFAULT_MAX_MEMORY_BYTES"

definition calculate_chunk_index :: "chunk_cache \<Rightarrow> 64 word \<Rightarrow> 64 word" where
  "calculate_chunk_index c offset = offset div of_nat (max (chunk_size c) 1)"

definition entry_size :: "cache_entry \<Rightarrow> nat" where
  "entry_size e = length (cc_data (ce_chunk e))"

definition entry_dirty :: "cache_entry \<Rightarrow> bool" where
  "entry_dirty e = cc_dirty (ce_chunk e)"

subsection \<open>Operations\<close>

definition next_tick :: "chunk_cache \<Rightarrow> nat \<times> chunk_cache" where
  "next_tick c = (Suc (clock c), c\<lparr>clock := Suc (clock c)\<rparr>)"

text \<open>Change the entry of one key in place.\<close>

definition update_map :: "chunk_key \<Rightarrow> (cache_entry \<Rightarrow> cache_entry) \<Rightarrow>
    (chunk_key \<times> cache_entry) list \<Rightarrow> (chunk_key \<times> cache_entry) list" where
  "update_map key f m = map (\<lambda>(k, e). if k = key then (k, f e) else (k, e)) m"

definition update_entry :: "chunk_key \<Rightarrow> (cache_entry \<Rightarrow> cache_entry) \<Rightarrow> chunk_cache \<Rightarrow> chunk_cache" where
  "update_entry key f c =
     c\<lparr>cache_map := update_map key f (cache_map c)\<rparr>"

definition get_chunk :: "chunk_cache \<Rightarrow> chunk_key \<Rightarrow> 8 word list option \<times> chunk_cache" where
  "get_chunk c key =
     (case map_of (cache_map c) key of
        None \<Rightarrow> (None, c)
      | Some e \<Rightarrow>
          let (t, c') = next_tick c
          in (Some (cc_data (ce_chunk e)), update_entry key (\<lambda>e. e\<lparr>ce_tick := t\<rparr>) c'))"

definition over_budget :: "chunk_cache \<Rightarrow> bool" where
  "over_budget c =
     (length (cache_map c) > max_memory_chunks c \<or> total_bytes c > max_memory_bytes c)"

text \<open>\<open>map.remove(&k)\<close> and the update of the byte count.\<close>

definition remove_entry :: "chunk_key \<Rightarrow> chunk_cache \<Rightarrow> chunk_cache" where
  "remove_entry k c =
     (case map_of (cache_map c) k of
        None \<Rightarrow> c
      | Some e \<Rightarrow> c\<lparr>cache_map := filter (\<lambda>p. fst p \<noteq> k) (cache_map c),
                    total_bytes := total_bytes c - entry_size e\<rparr>)"

text \<open>\<open>min_by_key\<close>: the first entry with the least tick.\<close>

fun min_tick :: "(chunk_key \<times> cache_entry) list \<Rightarrow> (chunk_key \<times> cache_entry) option" where
  "min_tick [] = None"
| "min_tick (p # ps) =
     (case min_tick ps of
        None \<Rightarrow> Some p
      | Some q \<Rightarrow> Some (if ce_tick (snd p) \<le> ce_tick (snd q) then p else q))"

definition victim :: "chunk_key \<Rightarrow> chunk_cache \<Rightarrow> chunk_key option" where
  "victim key c =
     map_option fst (min_tick (filter (\<lambda>(k, e). \<not> entry_dirty e \<and> k \<noteq> key) (cache_map c)))"

lemma min_tick_in: "min_tick ps = Some p \<Longrightarrow> p \<in> set ps"
  by (induction ps arbitrary: p) (auto split: option.splits if_splits)

lemma victim_in: "victim key c = Some k \<Longrightarrow> \<exists>e. (k, e) \<in> set (cache_map c) \<and> \<not> entry_dirty e \<and> k \<noteq> key"
  by (auto simp: victim_def dest!: min_tick_in)

lemma remove_entry_shrinks:
  "(k, e) \<in> set (cache_map c) \<Longrightarrow> length (cache_map (remove_entry k c)) < length (cache_map c)"
proof -
  assume i: "(k, e) \<in> set (cache_map c)"
  then have "map_of (cache_map c) k \<noteq> None" by (auto dest: weak_map_of_SomeI)
  moreover have "length (filter (\<lambda>p. fst p \<noteq> k) (cache_map c)) < length (cache_map c)"
    using i by (intro length_filter_less) auto
  ultimately show ?thesis by (auto simp: remove_entry_def)
qed

function evict_loop :: "chunk_key \<Rightarrow> chunk_cache \<Rightarrow> chunk_cache" where
  "evict_loop key c =
     (if over_budget c
      then (case victim key c of Some k \<Rightarrow> evict_loop key (remove_entry k c) | None \<Rightarrow> c)
      else c)"
  by pat_completeness auto
termination
  by (relation "measure (\<lambda>(key, c). length (cache_map c))") (auto dest!: victim_in remove_entry_shrinks)

declare evict_loop.simps [simp del]

text \<open>\<open>map.insert\<close>, which returns the entry it replaced, and the two updates of the byte count.\<close>

definition insert_entry :: "chunk_key \<Rightarrow> cache_entry \<Rightarrow> chunk_cache \<Rightarrow> chunk_cache" where
  "insert_entry key e c =
     (let old = (case map_of (cache_map c) key of Some o' \<Rightarrow> entry_size o' | None \<Rightarrow> 0)
      in c\<lparr>cache_map := (key, e) # filter (\<lambda>p. fst p \<noteq> key) (cache_map c),
           total_bytes := total_bytes c - old + entry_size e\<rparr>)"

definition put_entry :: "(8 word list \<Rightarrow> string) \<Rightarrow> int \<Rightarrow> nat \<Rightarrow> 8 word list \<Rightarrow> bool \<Rightarrow> cache_entry" where
  "put_entry sha now tick data dirty =
     \<lparr>ce_chunk = \<lparr>cc_data = data, cc_sha256 = sha data, cc_dirty = dirty, cc_last_accessed = now\<rparr>,
      ce_tick = tick\<rparr>"

definition put_chunk_checked ::
  "(8 word list \<Rightarrow> string) \<Rightarrow> int \<Rightarrow> chunk_cache \<Rightarrow> chunk_key \<Rightarrow> 8 word list \<Rightarrow> bool \<Rightarrow> bool \<times> chunk_cache" where
  "put_chunk_checked sha now c key data dirty =
     (let (tick, c1) = next_tick c;
          c2 = insert_entry key (put_entry sha now tick data dirty) c1;
          c3 = evict_loop key c2;
          c4 = (if \<not> dirty \<and> over_budget c3 then remove_entry key c3 else c3)
      in (\<not> over_budget c4, c4))"

definition memory_usage :: "chunk_cache \<Rightarrow> nat \<times> nat" where
  "memory_usage c = (length (cache_map c), total_bytes c)"

definition get_dirty_chunks :: "chunk_cache \<Rightarrow> (chunk_key \<times> 8 word list) list" where
  "get_dirty_chunks c =
     map (\<lambda>(k, e). (k, cc_data (ce_chunk e))) (filter (\<lambda>(k, e). entry_dirty e) (cache_map c))"

definition mark_clean :: "chunk_cache \<Rightarrow> chunk_key \<Rightarrow> chunk_cache" where
  "mark_clean c key = update_entry key (\<lambda>e. e\<lparr>ce_chunk := (ce_chunk e)\<lparr>cc_dirty := False\<rparr>\<rparr>) c"

definition of_file :: "string \<Rightarrow> string \<Rightarrow> chunk_key \<Rightarrow> bool" where
  "of_file conn path k = (ck_connection k = conn \<and> ck_path k = path)"

definition invalidate_file :: "chunk_cache \<Rightarrow> string \<Rightarrow> string \<Rightarrow> chunk_cache" where
  "invalidate_file c conn path =
     (let freed = sum_list (map (\<lambda>(k, e). if of_file conn path k then entry_size e else 0) (cache_map c))
      in c\<lparr>cache_map := filter (\<lambda>(k, e). \<not> of_file conn path k) (cache_map c),
           total_bytes := total_bytes c - freed\<rparr>)"

subsection \<open>Calls as steps\<close>

datatype cache_op =
    Put chunk_key "8 word list" bool
  | Get chunk_key
  | Mark_Clean chunk_key
  | Invalidate string string

fun cache_step :: "(8 word list \<Rightarrow> string) \<Rightarrow> int \<Rightarrow> cache_op \<Rightarrow> chunk_cache \<Rightarrow> chunk_cache" where
  "cache_step sha now (Put k d dirty) c = snd (put_chunk_checked sha now c k d dirty)"
| "cache_step sha now (Get k) c = snd (get_chunk c k)"
| "cache_step sha now (Mark_Clean k) c = mark_clean c k"
| "cache_step sha now (Invalidate conn path) c = invalidate_file c conn path"

subsection \<open>The invariant\<close>

definition sizes :: "(chunk_key \<times> cache_entry) list \<Rightarrow> nat" where
  "sizes m = sum_list (map (\<lambda>(k, e). entry_size e) m)"

definition ticks :: "(chunk_key \<times> cache_entry) list \<Rightarrow> nat list" where
  "ticks m = map (\<lambda>(k, e). ce_tick e) m"

text \<open>Keys and ticks are distinct, ticks lie in the past, and the byte count is the true sum.\<close>

definition cache_inv :: "chunk_cache \<Rightarrow> bool" where
  "cache_inv c =
     (distinct (map fst (cache_map c)) \<and> distinct (ticks (cache_map c)) \<and>
      (\<forall>t \<in> set (ticks (cache_map c)). t \<le> clock c) \<and> total_bytes c = sizes (cache_map c))"

lemma sizes_filter_key:
  "distinct (map fst m) \<Longrightarrow>
   sizes (filter (\<lambda>p. fst p \<noteq> k) m) + (case map_of m k of Some e \<Rightarrow> entry_size e | None \<Rightarrow> 0) = sizes m"
proof (induction m)
  case (Cons p m)
  have "filter (\<lambda>p. fst p \<noteq> fst p') m = m" if "fst p' \<notin> fst ` set m" for p' :: "chunk_key \<times> cache_entry"
    using that by (induction m) auto
  with Cons show ?case by (cases p) (auto simp: sizes_def split: if_splits)
qed (simp add: sizes_def)

lemma sizes_filter: "sizes (filter (\<lambda>(k, e). \<not> P k) m) =
   sizes m - sum_list (map (\<lambda>(k, e). if P k then entry_size e else 0) m)"
proof -
  have "sizes m = sizes (filter (\<lambda>(k, e). \<not> P k) m) +
      sum_list (map (\<lambda>(k, e). if P k then entry_size e else 0) m)"
    by (induction m) (auto simp: sizes_def)
  then show ?thesis by simp
qed

lemma ticks_filter [simp]: "distinct (ticks m) \<Longrightarrow> distinct (ticks (filter P m))"
  by (simp add: ticks_def distinct_map_filter)

lemma set_ticks_filter: "set (ticks (filter P m)) \<subseteq> set (ticks m)"
  by (auto simp: ticks_def)

lemma remove_entry_inv:
  assumes "cache_inv c"
  shows "cache_inv (remove_entry k c)"
proof (cases "map_of (cache_map c) k")
  case None
  with assms show ?thesis by (simp add: remove_entry_def)
next
  case (Some e)
  then have "total_bytes c - entry_size e = sizes (filter (\<lambda>p. fst p \<noteq> k) (cache_map c))"
    using assms sizes_filter_key [of "cache_map c" k] by (simp add: cache_inv_def)
  then show ?thesis
    using assms set_ticks_filter [of "\<lambda>p. fst p \<noteq> k" "cache_map c"]
    by (auto simp: cache_inv_def remove_entry_def Some distinct_map_filter)
qed

lemma evict_loop_inv: "cache_inv c \<Longrightarrow> cache_inv (evict_loop key c)"
proof (induction key c rule: evict_loop.induct)
  case (1 key c)
  then show ?case
    by (subst evict_loop.simps) (auto simp: remove_entry_inv split: option.splits)
qed

lemma evict_loop_fixed [simp]:
  "clock (evict_loop key c) = clock c" "max_memory_chunks (evict_loop key c) = max_memory_chunks c"
  "max_memory_bytes (evict_loop key c) = max_memory_bytes c"
proof (induction key c rule: evict_loop.induct)
  case (1 key c)
  { case 1 show ?case using "1.IH"(1) by (subst evict_loop.simps) (auto simp: remove_entry_def split: option.splits) }
  { case 2 show ?case using "1.IH"(2) by (subst evict_loop.simps) (auto simp: remove_entry_def split: option.splits) }
  { case 3 show ?case using "1.IH"(3) by (subst evict_loop.simps) (auto simp: remove_entry_def split: option.splits) }
qed

lemma insert_entry_inv:
  assumes inv: "cache_inv c" and t: "ce_tick e = Suc (clock c)"
  shows "cache_inv (insert_entry key e (c\<lparr>clock := Suc (clock c)\<rparr>))"
proof -
  let ?rest = "filter (\<lambda>p. fst p \<noteq> key) (cache_map c)"
  let ?old = "case map_of (cache_map c) key of Some o' \<Rightarrow> entry_size o' | None \<Rightarrow> 0"
  have "sizes ?rest + ?old = sizes (cache_map c)"
    using inv by (intro sizes_filter_key) (simp add: cache_inv_def)
  then have "total_bytes c - ?old = sizes ?rest" using inv by (simp add: cache_inv_def)
  moreover have "set (ticks ?rest) \<subseteq> set (ticks (cache_map c))" by (rule set_ticks_filter)
  then have "\<forall>x \<in> set (ticks ?rest). x \<le> clock c" using inv by (auto simp: cache_inv_def)
  moreover have "distinct (ticks ?rest)" "distinct (map fst ?rest)"
    using inv by (simp_all add: cache_inv_def distinct_map_filter)
  moreover have "ticks ((key, e) # ?rest) = ce_tick e # ticks ?rest"
    "sizes ((key, e) # ?rest) = entry_size e + sizes ?rest"
    by (simp_all add: ticks_def sizes_def)
  ultimately show ?thesis
    using t unfolding cache_inv_def insert_entry_def Let_def by fastforce
qed

lemma map_update_fst: "map fst (update_map key f m) = map fst m"
  by (induction m) (auto simp: update_map_def)

lemma sizes_update:
  "(\<And>e. entry_size (f e) = entry_size e) \<Longrightarrow>
   sizes (update_map key f m) = sizes m"
  by (induction m) (auto simp: sizes_def update_map_def)

lemma map_of_update:
  "map_of (update_map key f m) k =
     (if k = key then map_option f (map_of m k) else map_of m k)"
  by (induction m) (auto simp: update_map_def)

lemma ticks_update_same:
  "(\<And>e. ce_tick (f e) = ce_tick e) \<Longrightarrow>
   ticks (update_map key f m) = ticks m"
  by (induction m) (auto simp: ticks_def update_map_def)

lemma update_absent:
  "key \<notin> fst ` set m \<Longrightarrow> update_map key f m = m"
  by (induction m) (auto simp: update_map_def)

lemma ticks_update_fresh:
  fixes m key t
  defines "u \<equiv> update_map key (\<lambda>e. e\<lparr>ce_tick := t\<rparr>)"
  assumes "distinct (map fst m)" and "distinct (ticks m)" and "t \<notin> set (ticks m)"
  shows "distinct (ticks (u m)) \<and> set (ticks (u m)) \<subseteq> insert t (set (ticks m))"
  using assms(2-)
proof (induction m)
  case (Cons p m)
  obtain k e where p: "p = (k, e)" by (cases p)
  have c: "ticks ((a, b) # l) = ce_tick b # ticks l" for a b l by (simp add: ticks_def)
  have IH: "distinct (ticks (u m)) \<and> set (ticks (u m)) \<subseteq> insert t (set (ticks m))"
    using Cons p c by simp
  show ?case
  proof (cases "k = key")
    case True
    then have "u m = m" using Cons.prems(1) by (simp add: u_def p update_absent)
    moreover have "u (p # m) = (k, e\<lparr>ce_tick := t\<rparr>) # u m" using True by (simp add: u_def p update_map_def)
    ultimately show ?thesis using Cons.prems by (auto simp: p c)
  next
    case False
    then have "u (p # m) = (k, e) # u m" by (simp add: u_def p update_map_def)
    then show ?thesis using IH Cons.prems by (auto simp: p c)
  qed
qed (simp add: u_def ticks_def update_map_def)

lemma get_chunk_inv: "cache_inv c \<Longrightarrow> cache_inv (snd (get_chunk c k))"
proof (cases "map_of (cache_map c) k")
  case (Some e)
  assume inv: "cache_inv c"
  let ?u = "update_map k (\<lambda>e. e\<lparr>ce_tick := Suc (clock c)\<rparr>) (cache_map c)"
  have "Suc (clock c) \<notin> set (ticks (cache_map c))" using inv by (auto simp: cache_inv_def)
  then have "distinct (ticks ?u)" "set (ticks ?u) \<subseteq> insert (Suc (clock c)) (set (ticks (cache_map c)))"
    using ticks_update_fresh [of "cache_map c" "Suc (clock c)" k] inv by (auto simp: cache_inv_def)
  moreover have "sizes ?u = sizes (cache_map c)" by (rule sizes_update) (simp add: entry_size_def)
  moreover have "\<forall>t \<in> insert (Suc (clock c)) (set (ticks (cache_map c))). t \<le> Suc (clock c)"
    using inv by (auto simp: cache_inv_def)
  ultimately show ?thesis
    using inv by (auto simp: get_chunk_def Some next_tick_def update_entry_def cache_inv_def map_update_fst)
qed (simp add: get_chunk_def)

lemma mark_clean_inv: "cache_inv c \<Longrightarrow> cache_inv (mark_clean c k)"
  by (simp add: cache_inv_def mark_clean_def update_entry_def map_update_fst sizes_update
      ticks_update_same entry_size_def)

lemma invalidate_file_inv: "cache_inv c \<Longrightarrow> cache_inv (invalidate_file c conn path)"
  using sizes_filter [of "of_file conn path" "cache_map c"]
    set_ticks_filter [of "\<lambda>(k, e). \<not> of_file conn path k" "cache_map c"]
  by (auto simp: cache_inv_def invalidate_file_def Let_def distinct_map_filter)

lemma put_chunk_inv: "cache_inv c \<Longrightarrow> cache_inv (snd (put_chunk_checked sha now c k d dirty))"
  using evict_loop_inv [OF insert_entry_inv [of c]] remove_entry_inv
  by (auto simp: put_chunk_checked_def Let_def next_tick_def put_entry_def)

lemma cache_step_inv: "cache_inv c \<Longrightarrow> cache_inv (cache_step sha now op c)"
  by (cases op) (simp_all add: get_chunk_inv mark_clean_inv invalidate_file_inv put_chunk_inv)

lemma new_cache_inv: "cache_inv (with_memory_budget cs mc mb)"
  by (simp add: cache_inv_def with_memory_budget_def ticks_def sizes_def)

interpretation cache: machine "cache_step sha now" cache_inv
  by unfold_locales (rule cache_step_inv)

subsection \<open>What the cache holds\<close>

definition cached :: "chunk_cache \<Rightarrow> chunk_key \<Rightarrow> 8 word list option" where
  "cached c k = map_option (\<lambda>e. cc_data (ce_chunk e)) (map_of (cache_map c) k)"

definition dirty_held :: "chunk_cache \<Rightarrow> chunk_key \<Rightarrow> 8 word list option" where
  "dirty_held c k =
     (case map_of (cache_map c) k of
        Some e \<Rightarrow> if entry_dirty e then Some (cc_data (ce_chunk e)) else None | None \<Rightarrow> None)"

lemma map_of_filter_key: "map_of (filter (\<lambda>p. fst p \<noteq> k) m) = (map_of m)(k := None)"
  by (induction m) (auto simp: fun_eq_iff)

lemma map_of_filter_other:
  "map_of (filter (\<lambda>(k, e). \<not> P k) m) k = (if P k then None else map_of m k)"
  by (induction m) auto

lemma map_of_remove [simp]: "map_of (cache_map (remove_entry k c)) = (map_of (cache_map c))(k := None)"
  by (auto simp: remove_entry_def map_of_filter_key fun_eq_iff split: option.split)

lemma map_of_insert [simp]: "map_of (cache_map (insert_entry k e c)) = (map_of (cache_map c))(k \<mapsto> e)"
  by (auto simp: insert_entry_def map_of_filter_key fun_eq_iff Let_def)

lemma set_remove: "set (cache_map (remove_entry k c)) = {p \<in> set (cache_map c). fst p \<noteq> k}"
  by (auto simp: remove_entry_def map_of_eq_None_iff split: option.split dest: map_of_SomeD)

lemma set_evict: "set (cache_map (evict_loop key c)) \<subseteq> set (cache_map c)"
proof (induction key c rule: evict_loop.induct)
  case (1 key c)
  then show ?case by (subst evict_loop.simps) (auto simp: set_remove split: option.splits)
qed

text \<open>Eviction takes away clean entries of other keys only.\<close>

lemma evict_keeps:
  "distinct (map fst (cache_map c)) \<Longrightarrow> map_of (cache_map c) k = Some e \<Longrightarrow>
   entry_dirty e \<or> k = key \<Longrightarrow> map_of (cache_map (evict_loop key c)) k = Some e"
proof (induction key c rule: evict_loop.induct)
  case (1 key c)
  have "map_of (cache_map (remove_entry v c)) k = Some e" "distinct (map fst (cache_map (remove_entry v c)))"
    if "victim key c = Some v" for v
  proof -
    have "v \<noteq> k"
      using victim_in [OF that] 1(2-) map_of_is_SomeI [OF 1(2)] by fastforce
    then show "map_of (cache_map (remove_entry v c)) k = Some e" using 1(3) by simp
    show "distinct (map fst (cache_map (remove_entry v c)))"
      using 1(2) by (auto simp: remove_entry_def distinct_map_filter split: option.split)
  qed
  then show ?case
    using 1 by (subst evict_loop.simps) (auto split: option.splits)
qed

lemma evict_forgets: "map_of (cache_map (evict_loop key c)) \<subseteq>\<^sub>m map_of (cache_map c)"
proof (induction key c rule: evict_loop.induct)
  case (1 key c)
  have "(map_of (cache_map c))(k := None) \<subseteq>\<^sub>m map_of (cache_map c)" for k
    by (auto simp: map_le_def)
  then have "map_of (cache_map (evict_loop key (remove_entry k c))) \<subseteq>\<^sub>m map_of (cache_map c)"
    if "over_budget c" "victim key c = Some k" for k
    using 1 [OF that] map_le_trans by (metis map_of_remove)
  then show ?case
    by (subst evict_loop.simps) (auto split: option.splits)
qed

definition inserted ::
  "(8 word list \<Rightarrow> string) \<Rightarrow> int \<Rightarrow> chunk_cache \<Rightarrow> chunk_key \<Rightarrow> 8 word list \<Rightarrow> bool \<Rightarrow> chunk_cache" where
  "inserted sha now c key d dirty =
     insert_entry key (put_entry sha now (Suc (clock c)) d dirty) (c\<lparr>clock := Suc (clock c)\<rparr>)"

lemma put_eq:
  "put_chunk_checked sha now c key d dirty =
     (let c3 = evict_loop key (inserted sha now c key d dirty);
          c4 = (if \<not> dirty \<and> over_budget c3 then remove_entry key c3 else c3)
      in (\<not> over_budget c4, c4))"
  by (simp add: put_chunk_checked_def next_tick_def Let_def inserted_def)

lemma map_of_inserted [simp]:
  "map_of (cache_map (inserted sha now c key d dirty)) =
     (map_of (cache_map c))(key \<mapsto> put_entry sha now (Suc (clock c)) d dirty)"
  by (simp add: inserted_def)

lemma put_entry_simps [simp]:
  "cc_data (ce_chunk (put_entry sha now t d dirty)) = d"
  "entry_dirty (put_entry sha now t d dirty) = dirty" "ce_tick (put_entry sha now t d dirty) = t"
  "entry_size (put_entry sha now t d dirty) = length d"
  by (simp_all add: put_entry_def entry_dirty_def entry_size_def)

lemma inserted_inv: "cache_inv c \<Longrightarrow> cache_inv (inserted sha now c key d dirty)"
  by (simp add: inserted_def insert_entry_inv)

lemma inserted_distinct: "cache_inv c \<Longrightarrow> distinct (map fst (cache_map (inserted sha now c key d dirty)))"
  using inserted_inv by (simp add: cache_inv_def)

lemma cached_put: "cached (snd (put_chunk_checked sha now c key d dirty)) \<subseteq>\<^sub>m (cached c)(key \<mapsto> d)"
proof -
  let ?c2 = "inserted sha now c key d dirty"
  have "map_of (cache_map (snd (put_chunk_checked sha now c key d dirty))) \<subseteq>\<^sub>m map_of (cache_map ?c2)"
    using evict_forgets [of key ?c2]
    by (cases dirty) (auto simp: put_eq Let_def map_le_def)
  then show ?thesis by (fastforce simp: cached_def map_le_def dom_def)
qed

lemma dirty_held_put:
  assumes "cache_inv c" and "k \<noteq> key" and "dirty_held c k = Some x"
  shows "dirty_held (snd (put_chunk_checked sha now c key d dirty)) k = Some x"
proof -
  obtain e where e: "map_of (cache_map c) k = Some e" "entry_dirty e" "cc_data (ce_chunk e) = x"
    using assms(3) by (auto simp: dirty_held_def split: option.splits if_splits)
  have "map_of (cache_map (evict_loop key (inserted sha now c key d dirty))) k = Some e"
    using e assms(2) inserted_distinct [OF assms(1)] by (intro evict_keeps) auto
  then show ?thesis using e assms(2) by (cases dirty) (simp_all add: put_eq Let_def dirty_held_def)
qed

lemma dirty_held_put_same:
  assumes "cache_inv c"
  shows "dirty_held (snd (put_chunk_checked sha now c key d True)) key = Some d"
proof -
  have "map_of (cache_map (evict_loop key (inserted sha now c key d True))) key =
      Some (put_entry sha now (Suc (clock c)) d True)"
    using inserted_distinct [OF assms] by (intro evict_keeps) auto
  then show ?thesis by (simp add: put_eq Let_def dirty_held_def)
qed

subsection \<open>Runs of calls\<close>

fun cache_touches :: "cache_op \<Rightarrow> chunk_key \<Rightarrow> bool" where
  "cache_touches (Put k _ _) k' = (k = k')"
| "cache_touches (Get _) _ = False"
| "cache_touches (Mark_Clean k) k' = (k = k')"
| "cache_touches (Invalidate conn path) k = of_file conn path k"

text \<open>The data last put and not invalidated since.\<close>

fun last_put :: "cache_op \<Rightarrow> (chunk_key \<rightharpoonup> 8 word list) \<Rightarrow> (chunk_key \<rightharpoonup> 8 word list)" where
  "last_put (Put k d _) a = a(k \<mapsto> d)"
| "last_put (Get _) a = a"
| "last_put (Mark_Clean _) a = a"
| "last_put (Invalidate conn path) a = (\<lambda>k. if of_file conn path k then None else a k)"

lemma cached_get: "cached (snd (get_chunk c k)) = cached c"
  by (auto simp: cached_def get_chunk_def next_tick_def update_entry_def map_of_update fun_eq_iff
      option.map_comp o_def split: option.split)

lemma dirty_held_get: "dirty_held (snd (get_chunk c k)) = dirty_held c"
  by (auto simp: dirty_held_def get_chunk_def next_tick_def update_entry_def map_of_update fun_eq_iff
      entry_dirty_def split: option.split)

lemma cached_mark_clean: "cached (mark_clean c k) = cached c"
  by (auto simp: cached_def mark_clean_def update_entry_def map_of_update fun_eq_iff
      option.map_comp o_def)

lemma dirty_held_mark_clean: "k' \<noteq> k \<Longrightarrow> dirty_held (mark_clean c k) k' = dirty_held c k'"
  by (simp add: dirty_held_def mark_clean_def update_entry_def map_of_update)

lemma cached_invalidate:
  "cached (invalidate_file c conn path) k = (if of_file conn path k then None else cached c k)"
  by (simp add: cached_def invalidate_file_def Let_def map_of_filter_other)

lemma dirty_held_invalidate:
  "\<not> of_file conn path k \<Longrightarrow> dirty_held (invalidate_file c conn path) k = dirty_held c k"
  by (simp add: dirty_held_def invalidate_file_def Let_def map_of_filter_other)

lemma cache_step_keeps:
  "cache_inv c \<Longrightarrow> \<not> cache_touches op k \<Longrightarrow> dirty_held c k = Some d \<Longrightarrow>
   dirty_held (cache_step sha now op c) k = Some d"
  by (cases op) (simp_all add: dirty_held_put dirty_held_get dirty_held_mark_clean dirty_held_invalidate)

lemma cache_step_refines:
  "cached c \<subseteq>\<^sub>m a \<Longrightarrow> cached (cache_step sha now op c) \<subseteq>\<^sub>m last_put op a"
proof (cases op)
  case (Put k d dirty)
  assume "cached c \<subseteq>\<^sub>m a"
  then have "(cached c)(k \<mapsto> d) \<subseteq>\<^sub>m a(k \<mapsto> d)" by (auto simp: map_le_def)
  then show ?thesis using cached_put [of sha now c k d dirty] map_le_trans by (auto simp: Put)
qed (auto simp: cached_get cached_mark_clean cached_invalidate map_le_def dom_def split: if_splits)

interpretation dirty: keeping_machine "cache_step sha now" cache_inv dirty_held cache_touches
  by unfold_locales (rule cache_step_keeps)

interpretation fresh: refining_machine "cache_step sha now" cache_inv cached last_put
  by unfold_locales (rule cache_step_refines)

subsection \<open>Correctness\<close>

text \<open>
  After any calls on a new cache, the reported usage is the true one: the number of
  chunks held and the sum of their sizes.
\<close>

theorem memory_usage_true:
  "let c = fold (cache_step sha now) ops (with_memory_budget cs mc mb) in
   memory_usage c = (card (dom (cached c)), \<Sum>k \<in> dom (cached c). length (the (cached c k)))"
proof -
  let ?c = "fold (cache_step sha now) ops (with_memory_budget cs mc mb)"
  have inv: "cache_inv ?c" by (rule cache.run_inv) (rule new_cache_inv)
  let ?m = "cache_map ?c"
  have d: "distinct (map fst ?m)" using inv by (simp add: cache_inv_def)
  then have dm: "distinct ?m" by (simp add: distinct_map)
  have dom: "dom (cached ?c) = fst ` set ?m"
    by (auto simp: cached_def dom_map_of_conv_image_fst [symmetric] dom_def)
  have "card (fst ` set ?m) = length ?m"
    using d distinct_card by fastforce
  moreover have "sizes ?m = (\<Sum>k \<in> fst ` set ?m. length (the (cached ?c k)))"
  proof -
    have "sizes ?m = (\<Sum>p \<in> set ?m. length (the (cached ?c (fst p))))"
      unfolding sizes_def sum_list_distinct_conv_sum_set [OF dm]
      using map_of_is_SomeI [OF d]
      by (intro sum.cong) (auto simp: cached_def entry_size_def)
    also have "\<dots> = (\<Sum>k \<in> fst ` set ?m. length (the (cached ?c k)))"
      using d by (subst sum.reindex) (auto simp: distinct_map)
    finally show ?thesis .
  qed
  ultimately show ?thesis
    using inv by (simp add: memory_usage_def dom cache_inv_def Let_def)
qed

text \<open>
  C8: The cache never returns stale data: after any calls on a new cache, what it holds for a
  chunk is the data last put there and not invalidated since.
\<close>

theorem cache_never_stale:
  "cached (fold (cache_step sha now) ops (with_memory_budget cs mc mb)) \<subseteq>\<^sub>m fold last_put ops Map.empty"
proof (rule fresh.run_refines)
  show "cache_inv (with_memory_budget cs mc mb)" by (rule new_cache_inv)
  show "cached (with_memory_budget cs mc mb) \<subseteq>\<^sub>m Map.empty"
    by (simp add: cached_def with_memory_budget_def map_le_def dom_def)
qed

text \<open>
  C7: Data put as dirty is not lost: after any earlier calls, and any later ones except a put,
  a \<open>mark_clean\<close> or an invalidation of that very chunk, the cache returns it and lists it
  among the dirty chunks, whatever the budget.
\<close>

theorem dirty_never_lost:
  assumes "\<forall>op \<in> set later. \<not> cache_touches op k"
  shows "let c = fold (cache_step sha now) (earlier @ Put k d True # later) (with_memory_budget cs mc mb)
     in fst (get_chunk c k) = Some d \<and> (k, d) \<in> set (get_dirty_chunks c)"
proof -
  let ?before = "fold (cache_step sha now) earlier (with_memory_budget cs mc mb)"
  let ?stored = "cache_step sha now (Put k d True) ?before"
  let ?c = "fold (cache_step sha now) later ?stored"
  have inv: "cache_inv ?before"
    using cache.run_inv [OF new_cache_inv] .

  have inv1: "cache_inv ?stored" using inv cache_step_inv by (metis (no_types))
  have "dirty_held ?stored k = Some d" using dirty_held_put_same [OF inv] by simp
  then have "dirty_held ?c k = Some d" using dirty.run_keeps [OF inv1] assms by blast
  then obtain e where "map_of (cache_map ?c) k = Some e" "entry_dirty e" "cc_data (ce_chunk e) = d"
    by (auto simp: dirty_held_def split: option.splits if_splits)
  moreover from this have "(k, e) \<in> set (cache_map ?c)" by (simp add: map_of_SomeD)
  ultimately show ?thesis
    by (force simp: Let_def get_chunk_def next_tick_def get_dirty_chunks_def)
qed

definition demo_chunk :: "nat \<Rightarrow> chunk_key" where
  "demo_chunk n = \<lparr>ck_connection = ''c'', ck_path = ''/f'', ck_index = of_nat n\<rparr>"

theorem dirty_never_lost_witness:
  "let c = fold (cache_step (\<lambda>_. '''') 0)
       ([Put (demo_chunk 1) [9] False] @ Put (demo_chunk 2) [1, 2, 3] True # [Put (demo_chunk 3) [4] False, Get (demo_chunk 1)])
       (with_memory_budget 4 1 2)
   in fst (get_chunk c (demo_chunk 2)) = Some [1, 2, 3] \<and>
      (demo_chunk 2, [1, 2, 3]) \<in> set (get_dirty_chunks c)"
proof (rule dirty_never_lost)
  show "\<forall>op \<in> set [Put (demo_chunk 3) [4] False, Get (demo_chunk 1)]. \<not> cache_touches op (demo_chunk 2)"
    by (simp add: demo_chunk_def)
qed

lemma min_tick_None: "min_tick ps = None \<longleftrightarrow> ps = []"
  by (cases ps) (auto split: option.splits)

lemma min_tick_least: "min_tick ps = Some p \<Longrightarrow> q \<in> set ps \<Longrightarrow> ce_tick (snd p) \<le> ce_tick (snd q)"
proof (induction ps arbitrary: p)
  case (Cons a ps)
  show ?case
  proof (cases "min_tick ps")
    case None
    then show ?thesis using Cons.prems by (simp add: min_tick_None)
  next
    case (Some r)
    then show ?thesis
      using Cons.prems Cons.IH [OF Some] by (auto split: if_splits)
  qed
qed simp

lemma evict_stops: "over_budget (evict_loop key c) \<Longrightarrow> victim key (evict_loop key c) = None"
proof (induction key c rule: evict_loop.induct)
  case (1 key c)
  show ?case
  proof (cases "over_budget c")
    case True
    then show ?thesis
      using 1 by (cases "victim key c") (auto simp: evict_loop.simps [of key c])
  next
    case False
    then have "evict_loop key c = c" by (simp add: evict_loop.simps [of key c])
    with 1(2) False show ?thesis by simp
  qed
qed

lemma victim_None: "victim key c = None \<longleftrightarrow> (\<forall>(k, e) \<in> set (cache_map c). entry_dirty e \<or> k = key)"
  by (auto simp: victim_def min_tick_None filter_empty_conv)

text \<open>
  The result of a put says whether both limits hold afterwards. When it is \<open>false\<close>, every
  chunk left is dirty: only flushing can help.
\<close>

theorem put_result:
  "let (ok, c') = put_chunk_checked sha now c key d dirty in
   if ok then length (cache_map c') \<le> max_memory_chunks c \<and> total_bytes c' \<le> max_memory_bytes c
   else over_budget c' \<and> list_all (\<lambda>(k, e). entry_dirty e) (cache_map c')"
proof -
  let ?c3 = "evict_loop key (inserted sha now c key d dirty)"
  let ?c4 = "if \<not> dirty \<and> over_budget ?c3 then remove_entry key ?c3 else ?c3"
  have lim: "max_memory_chunks ?c4 = max_memory_chunks c" "max_memory_bytes ?c4 = max_memory_bytes c"
    by (auto simp: inserted_def insert_entry_def remove_entry_def Let_def split: option.split)
  have dirty: "entry_dirty e" if o: "over_budget ?c4" and i: "(k, e) \<in> set (cache_map ?c4)" for k e
  proof -
    have over: "over_budget ?c3" using o by (auto split: if_splits)
    then have left: "\<forall>(k, e) \<in> set (cache_map ?c3). entry_dirty e \<or> k = key"
      using evict_stops victim_None by blast
    show ?thesis
    proof (cases dirty)
      case True
      then have i3: "(k, e) \<in> set (cache_map ?c3)" using i by simp
      then have "(k, e) \<in> set (cache_map (inserted sha now c key d dirty))" using set_evict by blast
      then have "k = key \<Longrightarrow> entry_dirty e"
        using True by (auto simp: inserted_def insert_entry_def Let_def)
      with left i3 show ?thesis by auto
    next
      case False
      then have "(k, e) \<in> set (cache_map ?c3)" "k \<noteq> key" using i over by (auto simp: set_remove)
      with left show ?thesis by auto
    qed
  qed
  have r: "put_chunk_checked sha now c key d dirty = (\<not> over_budget ?c4, ?c4)"
    by (simp add: put_eq Let_def)
  show ?thesis
  proof (cases "over_budget ?c4")
    case True
    then show ?thesis using dirty unfolding r by (auto simp: list_all_iff)
  next
    case False
    then show ?thesis using lim unfolding r over_budget_def by auto
  qed
qed

text \<open>Eviction takes the least recently used clean entries.\<close>

lemma evict_lru:
  "(k1, e1) \<in> set (cache_map c) \<Longrightarrow> (k1, e1) \<notin> set (cache_map (evict_loop key c)) \<Longrightarrow>
   (k2, e2) \<in> set (cache_map (evict_loop key c)) \<Longrightarrow> \<not> entry_dirty e2 \<Longrightarrow> k2 \<noteq> key \<Longrightarrow>
   distinct (map fst (cache_map c)) \<Longrightarrow> ce_tick e1 \<le> ce_tick e2"
proof (induction key c rule: evict_loop.induct)
  case (1 key c)
  have over: "over_budget c" using 1(2,3) by (auto simp: evict_loop.simps [of key c] split: if_splits)
  then obtain v where v: "victim key c = Some v"
    using 1(2,3) by (cases "victim key c") (auto simp: evict_loop.simps [of key c])
  have e: "evict_loop key c = evict_loop key (remove_entry v c)"
    using over v by (simp add: evict_loop.simps [of key c])
  have d: "distinct (map fst (cache_map (remove_entry v c)))"
    using 1(7) by (auto simp: remove_entry_def distinct_map_filter split: option.split)
  have in2: "(k2, e2) \<in> set (cache_map c)"
    using 1(4) set_evict [of key c] by auto
  show ?case
  proof (cases "k1 = v")
    case True
    let ?clean = "filter (\<lambda>(k, e). \<not> entry_dirty e \<and> k \<noteq> key) (cache_map c)"
    obtain ev where ev: "min_tick ?clean = Some (v, ev)" using v by (auto simp: victim_def)
    then have "(v, ev) \<in> set (cache_map c)" using min_tick_in by fastforce
    then have "e1 = ev" using 1(2,7) True by (metis eq_key_imp_eq_value)
    moreover have "(k2, e2) \<in> set ?clean" using in2 1(5,6) by simp
    ultimately show ?thesis using min_tick_least [OF ev] by fastforce
  next
    case False
    then have "(k1, e1) \<in> set (cache_map (remove_entry v c))" using 1(2) by (simp add: set_remove)
    then show ?thesis using 1(1) [OF over v] 1(3-6) d e by simp
  qed
qed

text \<open>
  A put drops chunks in the order of their last use: a chunk it evicts was used before
  every clean chunk it keeps, the new one apart.
\<close>

theorem put_evicts_lru:
  assumes inv: "cache_inv c"
    and old: "(k1, e1) \<in> set (cache_map c)" "k1 \<noteq> key"
    and evicted: "cached (snd (put_chunk_checked sha now c key d dirty)) k1 = None"
    and kept: "(k2, e2) \<in> set (cache_map (snd (put_chunk_checked sha now c key d dirty)))"
      "k2 \<noteq> key" "\<not> entry_dirty e2"
  shows "ce_tick e1 < ce_tick e2"
proof -
  let ?c2 = "inserted sha now c key d dirty"
  have inv2: "cache_inv ?c2" by (rule inserted_inv [OF inv])
  then have d: "distinct (map fst (cache_map ?c2))" by (simp add: cache_inv_def)
  have i1: "(k1, e1) \<in> set (cache_map ?c2)"
    using old by (simp add: inserted_def insert_entry_def Let_def)
  have sub: "(k, e) \<in> set (cache_map (evict_loop key ?c2)) \<longleftrightarrow>
      (k, e) \<in> set (cache_map (snd (put_chunk_checked sha now c key d dirty)))" if "k \<noteq> key" for k e
    using that by (cases dirty) (auto simp: put_eq Let_def set_remove)
  have n1: "(k1, e1) \<notin> set (cache_map (evict_loop key ?c2))"
    using evicted sub [OF old(2), of e1] by (auto simp: cached_def map_of_eq_None_iff) force
  have le: "ce_tick e1 \<le> ce_tick e2"
    using evict_lru [OF i1 n1 _ kept(3,2) d] sub [OF kept(2)] kept(1) by blast
  have i2: "(k2, e2) \<in> set (cache_map ?c2)" using sub [OF kept(2)] kept(1) set_evict by blast
  have "(k1, e1) \<noteq> (k2, e2)" using n1 sub [OF kept(2)] kept(1) by auto
  then have "ce_tick e1 \<noteq> ce_tick e2"
    using inv2 i1 i2 by (auto simp: cache_inv_def ticks_def distinct_map inj_on_def)
  with le show ?thesis by simp
qed

definition demo_cache :: chunk_cache where
  "demo_cache = fold (cache_step (\<lambda>_. '''') 0)
     [Put (demo_chunk 1) [9] False, Put (demo_chunk 2) [8] False, Get (demo_chunk 1)]
     (with_memory_budget 4 2 100)"

theorem put_evicts_lru_witness:
  "let c' = snd (put_chunk_checked (\<lambda>_. '''') 0 demo_cache (demo_chunk 3) [7] False);
       used = put_entry (\<lambda>_. '''') 0 3 [9] False; unused = put_entry (\<lambda>_. '''') 0 2 [8] False
   in (demo_chunk 2, unused) \<in> set (cache_map demo_cache) \<and> cached c' (demo_chunk 2) = None \<and>
      (demo_chunk 1, used) \<in> set (cache_map c') \<and> ce_tick unused < ce_tick used"
proof -
  have inv: "cache_inv demo_cache"
    unfolding demo_cache_def by (rule cache.run_inv) (rule new_cache_inv)
  have old: "(demo_chunk 2, put_entry (\<lambda>_. '''') 0 2 [8] False) \<in> set (cache_map demo_cache)"
    by code_simp
  have evicted: "cached (snd (put_chunk_checked (\<lambda>_. '''') 0 demo_cache (demo_chunk 3) [7] False))
      (demo_chunk 2) = None"
    by code_simp
  have kept: "(demo_chunk 1, put_entry (\<lambda>_. '''') 0 3 [9] False) \<in>
      set (cache_map (snd (put_chunk_checked (\<lambda>_. '''') 0 demo_cache (demo_chunk 3) [7] False)))"
    by code_simp
  have ne: "demo_chunk 2 \<noteq> demo_chunk 3" "demo_chunk 1 \<noteq> demo_chunk 3"
    by (simp_all add: demo_chunk_def)
  have clean: "\<not> entry_dirty (put_entry (\<lambda>_. '''') 0 3 [9] False)" by simp
  show ?thesis
    using put_evicts_lru [OF inv old ne(1) evicted kept ne(2) clean] old evicted kept
    by (simp only: Let_def)
qed

end
