(* ===== verification/SitePaths.thy ===== *)
theory SitePaths
  imports CoreTypes
begin

section \<open>Folder paths and names of the site tree\<close>

text \<open>
  Models the part \<open>Paths and names\<close> of \<open>crates/rustscp-core/src/site_layout.rs\<close>: cleaning
  and checking of paths and names, parent and base name, ancestors, and the maps that move a
  folder with everything inside it. A byte position of the code is a character position here;
  both cut a path at the same \<open>/\<close>. The one character of a message outside the model's range,
  an ellipsis, is written as three dots.
\<close>

subsection \<open>Errors\<close>

record site_error =
  err_code :: string
  err_message :: string

type_synonym 'a site_result = "site_error + 'a"

text \<open>The \<open>?\<close> operator.\<close>

definition bindE :: "'e + 'a \<Rightarrow> ('a \<Rightarrow> 'e + 'b) \<Rightarrow> 'e + 'b" where
  "bindE r f = (case r of Inl e \<Rightarrow> Inl e | Inr x \<Rightarrow> f x)"

lemma bindE_simps [simp]: "bindE (Inl e) f = Inl e" "bindE (Inr x) f = f x"
  by (simp_all add: bindE_def)

lemma bindE_Inr: "bindE r f = Inr y \<longleftrightarrow> (\<exists>x. r = Inr x \<and> f x = Inr y)"
  by (cases r) simp_all

text \<open>\<open>ok_or_else\<close>\<close>

definition ok_or :: "'e \<Rightarrow> 'a option \<Rightarrow> 'e + 'a" where
  "ok_or e r = (case r of Some x \<Rightarrow> Inr x | None \<Rightarrow> Inl e)"

lemma ok_or_Inr [simp]: "ok_or e r = Inr x \<longleftrightarrow> r = Some x"
  by (simp add: ok_or_def split: option.split)

definition MAX_LAYOUT_FOLDERS :: nat where "MAX_LAYOUT_FOLDERS = 10000"
definition MAX_FAVORITES :: nat where "MAX_FAVORITES = 200"
definition MAX_RECENTS :: nat where "MAX_RECENTS = 50"
definition MAX_LABELS :: nat where "MAX_LABELS = 12"
definition MAX_COLLAPSED :: nat where "MAX_COLLAPSED = MAX_LAYOUT_FOLDERS"
definition MAX_OPS_PER_CALL :: nat where "MAX_OPS_PER_CALL = 2000"
definition MAX_IDS_PER_CALL :: nat where "MAX_IDS_PER_CALL = 50000"
definition MAX_SITE_NAME_LEN :: nat where "MAX_SITE_NAME_LEN = 255"
definition MAX_LABEL_NAME_LEN :: nat where "MAX_LABEL_NAME_LEN = 40"
definition MAX_LABEL_ID_LEN :: nat where "MAX_LABEL_ID_LEN = 64"
definition LOCAL_SITE_ID :: string where "LOCAL_SITE_ID = ''local''"

definition ERR_FOLDER_EXISTS :: string where "ERR_FOLDER_EXISTS = ''site_tree.folder_exists''"
definition ERR_INTO_SELF :: string where "ERR_INTO_SELF = ''site_tree.into_self''"
definition ERR_INVALID_NAME :: string where "ERR_INVALID_NAME = ''site_tree.invalid_name''"
definition ERR_PATH_TOO_LONG :: string where "ERR_PATH_TOO_LONG = ''site_tree.path_too_long''"
definition ERR_LOCAL_IMMUTABLE :: string where "ERR_LOCAL_IMMUTABLE = ''site_tree.local_immutable''"
definition ERR_NOT_FOUND :: string where "ERR_NOT_FOUND = ''site_tree.not_found''"
definition ERR_TOO_MANY :: string where "ERR_TOO_MANY = ''site_tree.too_many''"

definition quoted :: "string \<Rightarrow> string" where
  "quoted s = CHR 0x22 # s @ [CHR 0x22]"

definition err_invalid :: "string \<Rightarrow> site_error" where
  "err_invalid m = \<lparr>err_code = ERR_INVALID_NAME, err_message = m\<rparr>"

definition err_too_long :: "string \<Rightarrow> site_error" where
  "err_too_long path =
     \<lparr>err_code = ERR_PATH_TOO_LONG,
      err_message = quoted (take 40 path @ ''...'') @ '' would be longer than ''
        @ show_nat MAX_SITE_GROUP_LEN @ '' characters''\<rparr>"

definition err_folder_exists :: "string \<Rightarrow> string option \<Rightarrow> site_error" where
  "err_folder_exists name parent =
     \<lparr>err_code = ERR_FOLDER_EXISTS,
      err_message = ''A folder named '' @ quoted name @
        (case parent of Some p \<Rightarrow> '' already exists in '' @ quoted p
         | None \<Rightarrow> '' already exists at the top level'')\<rparr>"

definition err_local :: site_error where
  "err_local = \<lparr>err_code = ERR_LOCAL_IMMUTABLE,
     err_message = ''The Local site can't be moved, duplicated or deleted''\<rparr>"

definition err_too_many :: "string \<Rightarrow> site_error" where
  "err_too_many what = \<lparr>err_code = ERR_TOO_MANY, err_message = ''Too many '' @ what\<rparr>"

text \<open>\<open>str::escape_default\<close>\<close>

definition escape_char :: "char \<Rightarrow> string" where
  "escape_char c =
     (if c = CHR 0x09 then [CHR 0x5C, CHR ''t''] else if c = CHR 0x0A then [CHR 0x5C, CHR ''n'']
      else if c = CHR 0x0D then [CHR 0x5C, CHR ''r'']
      else if c \<in> {CHR 0x22, CHR 0x27, CHR 0x5C} then [CHR 0x5C, c]
      else if 32 \<le> code c \<and> code c < 127 then [c]
      else [CHR 0x5C] @ ''u{'' @ show_hex (code c) @ ''}'')"

definition escape_default :: "string \<Rightarrow> string" where
  "escape_default s = concat (map escape_char s)"

definition site_not_found :: "string \<Rightarrow> site_error" where
  "site_not_found i = \<lparr>err_code = ERR_NOT_FOUND,
     err_message = ''No saved connection has the id '' @ quoted (escape_default i)\<rparr>"

subsection \<open>Cleaning and checking\<close>

definition check_len :: "string \<Rightarrow> unit site_result" where
  "check_len path = (if length path > MAX_SITE_GROUP_LEN then Inl (err_too_long path) else Inr ())"

definition has_control :: "string \<Rightarrow> bool" where
  "has_control s = list_ex is_control s"

fun folder_path_loop :: "string list \<Rightarrow> string \<Rightarrow> string site_result" where
  "folder_path_loop [] out = Inr out"
| "folder_path_loop (raw # rest) out =
     (let segment = trim raw in
      if segment = [] then folder_path_loop rest out
      else if has_control segment
      then Inl (err_invalid ''Folder names can't contain control characters'')
      else folder_path_loop rest ((if out \<noteq> [] then out @ ''/'' else out) @ segment))"

definition normalize_folder_path :: "string \<Rightarrow> string option site_result" where
  "normalize_folder_path raw =
     bindE (folder_path_loop (split_on slash raw) [])
       (\<lambda>out. bindE (check_len out) (\<lambda>_. Inr (if out \<noteq> [] then Some out else None)))"

definition validate_folder_name :: "string \<Rightarrow> string site_result" where
  "validate_folder_name raw =
     (let name = trim raw in
      if name = [] then Inl (err_invalid ''Enter a folder name'')
      else if CHR ''/'' \<in> set name
      then Inl (err_invalid (''Folder names can't contain '' @ quoted ''/''))
      else if has_control name
      then Inl (err_invalid ''Folder names can't contain control characters'')
      else bindE (check_len name) (\<lambda>_. Inr name))"

definition validate_site_name :: "string \<Rightarrow> string site_result" where
  "validate_site_name raw =
     (let name = trim raw in
      if name = [] then Inl (err_invalid ''Enter a name'')
      else if has_control name then Inl (err_invalid ''Names can't contain control characters'')
      else if length name > MAX_SITE_NAME_LEN
      then Inl (err_invalid (''Names can be at most '' @ show_nat MAX_SITE_NAME_LEN @ '' characters long''))
      else Inr name)"

definition valid_label_id :: "string \<Rightarrow> bool" where
  "valid_label_id i =
     (i \<noteq> [] \<and> str_len i \<le> MAX_LABEL_ID_LEN \<and>
      list_all (\<lambda>c. is_ascii_alphanumeric c \<or> c = CHR ''-'' \<or> c = CHR ''_'') i)"

subsection \<open>Parents, names, ancestors\<close>

definition parent_path :: "string \<Rightarrow> string option" where
  "parent_path path = map_option fst (rsplit_once (CHR ''/'') path)"

definition base_name :: "string \<Rightarrow> string" where
  "base_name path = (case rsplit_once (CHR ''/'') path of Some (_, n) \<Rightarrow> n | None \<Rightarrow> path)"

definition tree_join :: "string option \<Rightarrow> string \<Rightarrow> string" where
  "tree_join parent name = (case parent of Some p \<Rightarrow> p @ ''/'' @ name | None \<Rightarrow> name)"

definition is_same_or_under :: "string \<Rightarrow> string \<Rightarrow> bool" where
  "is_same_or_under path ancestor =
     (path = ancestor \<or>
      length path > length ancestor \<and> starts_with path ancestor \<and> path ! length ancestor = CHR ''/'')"

text \<open>The positions of the slashes: where a prefix that is a folder ends.\<close>

definition slash_positions :: "string \<Rightarrow> nat list" where
  "slash_positions path = filter (\<lambda>i. path ! i = CHR ''/'') [0..<length path]"

definition add_with_ancestors :: "string bset \<Rightarrow> string \<Rightarrow> string bset" where
  "add_with_ancestors s path =
     bs_insert path (fold (\<lambda>i s. bs_insert (take i path) s) (slash_positions path) s)"

definition is_local :: "connection_config \<Rightarrow> bool" where
  "is_local site = (cfg_id site = LOCAL_SITE_ID)"

definition site_folder :: "connection_config \<Rightarrow> string option" where
  "site_folder site =
     (if is_local site then None else Option.bind (cfg_group site) normalize_site_group)"

definition find_sibling_ci ::
  "string bset \<Rightarrow> string option \<Rightarrow> string \<Rightarrow> string option \<Rightarrow> string option" where
  "find_sibling_ci folders parent name exclude =
     find (\<lambda>f. Some f \<noteq> exclude \<and> parent_path f = parent \<and>
             to_lowercase (base_name f) = to_lowercase name) folders"

text \<open>\<open>index_by_id\<close>: the position of the first site with an id.\<close>

fun site_index :: "connection_config list \<Rightarrow> string \<Rightarrow> nat option" where
  "site_index [] i = None"
| "site_index (s # ss) i = (if cfg_id s = i then Some 0 else map_option Suc (site_index ss i))"

subsection \<open>Moving a folder with everything inside it\<close>

definition prefix_map :: "string \<Rightarrow> string \<Rightarrow> string \<Rightarrow> string option" where
  "prefix_map old new path =
     (if is_same_or_under path old then Some (new @ drop (length old) path) else None)"

type_synonym moves = "(string \<times> string) list"

definition moves_lookup :: "moves \<Rightarrow> string \<Rightarrow> string option" where
  \<comment> \<open>collecting into a \<open>HashMap\<close>: a later pair replaces an earlier one\<close>
  "moves_lookup ms = map_of (rev ms)"

definition path_ends :: "string \<Rightarrow> nat list" where
  "path_ends path = slash_positions path @ [length path]"

definition moved_path :: "(string \<Rightarrow> string option) \<Rightarrow> string \<Rightarrow> string option" where
  "moved_path lookup path =
     (case find (\<lambda>e. lookup (take e path) \<noteq> None) (path_ends path) of
        Some e \<Rightarrow> map_option (\<lambda>to. to @ drop e path) (lookup (take e path))
      | None \<Rightarrow> None)"

subsection \<open>Cleaned paths\<close>

definition names_ok :: "string \<Rightarrow> bool" where
  "names_ok out = (\<forall>w \<in> set (split_on slash out). folder_name_ok w)"

lemma names_ok_join: "folder_name_ok w \<Longrightarrow> out = [] \<or> names_ok out \<Longrightarrow>
    names_ok ((if out \<noteq> [] then out @ ''/'' else out) @ w)"
  using split_on_slash_append [of out w] split_on_slash_name [of w]
  by (auto simp: names_ok_def)

lemma has_control_iff: "has_control s \<longleftrightarrow> (\<exists>c \<in> set s. is_control c)"
  by (simp add: has_control_def list_ex_iff)

lemma trim_name_ok:
  assumes "\<forall>c \<in> set s. \<not> slash c" and "trim s \<noteq> []" and "\<not> has_control (trim s)"
  shows "folder_name_ok (trim s)"
  using assms set_trim [of s] by (auto simp: folder_name_ok_def has_control_iff)

lemma folder_path_loop_ok:
  "(\<forall>s \<in> set segs. \<forall>c \<in> set s. \<not> slash c) \<Longrightarrow> out = [] \<or> names_ok out \<Longrightarrow>
   folder_path_loop segs out = Inr r \<Longrightarrow> r = [] \<or> names_ok r"
proof (induction segs arbitrary: out)
  case (Cons seg segs)
  show ?case
  proof (cases "trim seg = []")
    case True
    with Cons show ?thesis by simp
  next
    case False
    then have nc: "\<not> has_control (trim seg)" using Cons.prems(3) by (auto simp: Let_def split: if_splits)
    then have "folder_name_ok (trim seg)" using Cons.prems(1) False by (intro trim_name_ok) auto
    note ok = names_ok_join [OF this Cons.prems(2)]
    show ?thesis
      by (rule Cons.IH [of "(if out \<noteq> [] then out @ ''/'' else out) @ trim seg"])
         (use Cons.prems ok False nc in \<open>auto simp: Let_def\<close>)
  qed
qed simp

lemma split_on_slash_free: "\<forall>s \<in> set (split_on slash p). \<forall>c \<in> set s. \<not> slash c"
  using split_on_pieces by fast

lemma folder_path_ok_names: "folder_path_ok p \<longleftrightarrow> names_ok p \<and> length p \<le> MAX_SITE_GROUP_LEN"
  by (simp add: folder_path_ok_def names_ok_def)

lemma normalize_folder_path_ok:
  assumes "normalize_folder_path raw = Inr (Some p)"
  shows "folder_path_ok p"
proof -
  obtain out where out: "folder_path_loop (split_on slash raw) [] = Inr out"
    "check_len out = Inr ()" "out \<noteq> []" "p = out"
    using assms by (auto simp: normalize_folder_path_def bindE_Inr split: if_splits)
  have "names_ok out"
    using folder_path_loop_ok [OF split_on_slash_free _ out(1)] out(3) by simp
  then show ?thesis
    using out by (simp add: folder_path_ok_names check_len_def split: if_splits)
qed

lemma folder_name_trim: "folder_name_ok w \<Longrightarrow> trim w = w \<and> w \<noteq> [] \<and> \<not> has_control w"
  by (simp add: folder_name_ok_def trim_id has_control_iff)

lemma folder_path_loop_id:
  "(\<forall>w \<in> set ws. folder_name_ok w) \<Longrightarrow>
   folder_path_loop ws out =
     Inr (if ws = [] then out else (if out \<noteq> [] then out @ ''/'' else out) @ join ''/'' ws)"
proof (induction ws arbitrary: out)
  case (Cons w ws)
  then have w: "trim w = w" "w \<noteq> []" "\<not> has_control w" using folder_name_trim by auto
  show ?case
    using Cons w by (cases ws) (auto simp: Let_def join_Cons)
qed simp

lemma normalize_folder_path_id: "folder_path_ok p \<Longrightarrow> normalize_folder_path p = Inr (Some p)"
  using folder_path_loop_id [of "split_on slash p" "[]"] folder_path_ok_nonempty [of p]
  by (simp add: normalize_folder_path_def folder_path_ok_def check_len_def)

lemma normalize_folder_path_Nil [simp]: "normalize_folder_path [] = Inr None"
  by (simp add: normalize_folder_path_def check_len_def trim_def trim_end_def trim_start_matches_def
      trim_end_matches_def MAX_SITE_GROUP_LEN_def)

subsection \<open>Folders and what is inside them\<close>

lemma under_iff: "is_same_or_under p a \<longleftrightarrow> p = a \<or> (\<exists>r. p = a @ CHR ''/'' # r)"
proof
  assume u: "is_same_or_under p a"
  show "p = a \<or> (\<exists>r. p = a @ CHR ''/'' # r)"
  proof (cases "p = a")
    case False
    with u have "prefix a p" "length a < length p" "p ! length a = CHR ''/''"
      by (auto simp: is_same_or_under_def starts_with_prefix)
    then obtain q where q: "p = a @ q" "q \<noteq> []" by (auto simp: prefix_def)
    then have "hd q = CHR ''/''" using \<open>p ! length a = CHR ''/''\<close> by (simp add: nth_append hd_conv_nth)
    then show ?thesis using q by (cases q) auto
  qed simp
qed (auto simp: is_same_or_under_def starts_with_prefix)

lemma under_refl [simp]: "is_same_or_under p p"
  by (simp add: is_same_or_under_def)

lemma under_trans: "is_same_or_under p q \<Longrightarrow> is_same_or_under q r \<Longrightarrow> is_same_or_under p r"
  by (auto simp: under_iff)

lemma under_antisym: "is_same_or_under p q \<Longrightarrow> is_same_or_under q p \<Longrightarrow> p = q"
  by (auto simp: under_iff)

lemma under_length: "is_same_or_under p a \<Longrightarrow> length a \<le> length p"
  by (auto simp: under_iff)

lemma under_prefix: "is_same_or_under p a \<Longrightarrow> prefix a p"
  by (auto simp: under_iff)

text \<open>Two ancestors of one folder lie on one line.\<close>

lemma under_linear:
  assumes "is_same_or_under p a" and "is_same_or_under p b" and "length a \<le> length b"
  shows "is_same_or_under b a"
proof -
  have pa: "prefix a p" and pb: "prefix b p" using assms under_prefix by auto
  then have "prefix a b" using assms(3) prefix_length_prefix by blast
  then obtain q where q: "b = a @ q" by (auto simp: prefix_def)
  show ?thesis
  proof (cases q)
    case (Cons x xs)
    then have "x = CHR ''/''" using assms(1) pb q by (auto simp: under_iff prefix_def)
    then show ?thesis using q Cons by (simp add: under_iff)
  qed (simp add: q)
qed

lemma under_names_ok:
  assumes "names_ok p" and "is_same_or_under p a"
  shows "names_ok a"
  using assms split_on_slash_append by (auto simp: under_iff names_ok_def)

lemma under_path_ok: "folder_path_ok p \<Longrightarrow> is_same_or_under p a \<Longrightarrow> folder_path_ok a"
  using under_names_ok under_length le_trans by (fastforce simp: folder_path_ok_names)

lemma slash_prefixes: "(\<lambda>i. take i p) ` set (slash_positions p) = {a. \<exists>r. p = a @ CHR ''/'' # r}"
proof (intro equalityI subsetI)
  fix a assume "a \<in> (\<lambda>i. take i p) ` set (slash_positions p)"
  then obtain i where "i < length p" "p ! i = CHR ''/''" "a = take i p"
    by (auto simp: slash_positions_def)
  then have "p = a @ CHR ''/'' # drop (Suc i) p" by (metis id_take_nth_drop)
  then show "a \<in> {a. \<exists>r. p = a @ CHR ''/'' # r}" by blast
next
  fix a assume "a \<in> {a. \<exists>r. p = a @ CHR ''/'' # r}"
  then obtain r where "p = a @ CHR ''/'' # r" by blast
  then show "a \<in> (\<lambda>i. take i p) ` set (slash_positions p)"
    by (intro image_eqI [of _ _ "length a"]) (auto simp: slash_positions_def)
qed

lemma set_fold_insert: "set (fold (\<lambda>i s. bs_insert (f i) s) is s) = set s \<union> f ` set is"
  by (induction "is" arbitrary: s) auto

lemma bset_ok_fold_insert: "bset_ok s \<Longrightarrow> bset_ok (fold (\<lambda>i s. bs_insert (f i) s) is s)"
  by (induction "is" arbitrary: s) auto

lemma set_add_with_ancestors [simp]:
  "set (add_with_ancestors s p) = set s \<union> {a. is_same_or_under p a}"
  by (auto simp: add_with_ancestors_def set_fold_insert slash_prefixes under_iff)

lemma bset_ok_add_with_ancestors [simp]: "bset_ok s \<Longrightarrow> bset_ok (add_with_ancestors s p)"
  by (simp add: add_with_ancestors_def bset_ok_fold_insert)

lemma site_folder_ok: "site_folder s = Some g \<Longrightarrow> folder_path_ok g"
  using normalize_site_group_ok by (auto simp: site_folder_def bind_eq_Some_conv split: if_splits)

text \<open>The last slash cuts a path into parent and name.\<close>

lemma split_once_Some: "x \<notin> set a \<Longrightarrow> split_once x (a @ x # b) = Some (a, b)"
  by (auto simp: split_once_def takeWhile_append dropWhile_append)

lemma rsplit_once_Some: "x \<notin> set b \<Longrightarrow> rsplit_once x (a @ x # b) = Some (a, b)"
  using split_once_Some [of x "rev b" "rev a"] by (simp add: rsplit_once_def)

lemma rsplit_once_None: "x \<notin> set s \<Longrightarrow> rsplit_once x s = None"
  by (simp add: rsplit_once_def split_once_def)

lemma path_cases:
  obtains (top) "CHR ''/'' \<notin> set p" "parent_path p = None" "base_name p = p"
  | (inner) q b where "p = q @ CHR ''/'' # b" "CHR ''/'' \<notin> set b" "parent_path p = Some q" "base_name p = b"
proof (cases "CHR ''/'' \<in> set p")
  case True
  then obtain q b where "p = q @ CHR ''/'' # b" "CHR ''/'' \<notin> set b"
    by (metis split_list_last)
  with inner show ?thesis by (simp add: parent_path_def base_name_def rsplit_once_Some)
next
  case False
  with top show ?thesis by (simp add: parent_path_def base_name_def rsplit_once_None)
qed

lemma tree_join_parent_base [simp]: "tree_join (parent_path p) (base_name p) = p"
  by (cases p rule: path_cases) (simp_all add: tree_join_def)

lemma base_name_free: "CHR ''/'' \<notin> set (base_name p)"
  by (cases p rule: path_cases) simp_all

lemma parent_tree_join: "CHR ''/'' \<notin> set n \<Longrightarrow> parent_path (tree_join t n) = t \<and> base_name (tree_join t n) = n"
  by (cases t) (simp_all add: tree_join_def parent_path_def base_name_def rsplit_once_None rsplit_once_Some)

lemma parent_under: "parent_path p = Some q \<Longrightarrow> is_same_or_under p q \<and> p \<noteq> q"
  by (cases p rule: path_cases) (auto simp: under_iff)

lemma parent_path_ok: "folder_path_ok p \<Longrightarrow> parent_path p = Some q \<Longrightarrow> folder_path_ok q"
  using under_path_ok parent_under by blast

lemma slash_free_split: "CHR ''/'' \<notin> set b \<Longrightarrow> split_on slash b = [b]"
  by (rule split_on_no_sep) auto

lemma base_name_ok: "folder_path_ok p \<Longrightarrow> folder_name_ok (base_name p)"
  by (cases p rule: path_cases)
     (auto simp: folder_path_ok_def split_on_slash_append slash_free_split)

lemma validate_folder_name_ok: "validate_folder_name raw = Inr n \<Longrightarrow> folder_name_ok n \<and> length n \<le> MAX_SITE_GROUP_LEN"
  by (auto simp: validate_folder_name_def Let_def bindE_Inr check_len_def folder_name_ok_def
      has_control_iff split: if_splits)

lemma names_ok_tree_join:
  "folder_name_ok n \<Longrightarrow> (\<And>p. t = Some p \<Longrightarrow> names_ok p) \<Longrightarrow> names_ok (tree_join t n)"
  by (cases t) (simp_all add: tree_join_def names_ok_def split_on_slash_append split_on_slash_name)

subsection \<open>Moves\<close>

lemma slash_positions_sorted: "sorted (slash_positions p) \<and> (\<forall>i \<in> set (slash_positions p). i < length p)"
  by (auto simp: slash_positions_def sorted_wrt_filter)

lemma path_ends_sorted: "sorted (path_ends p)"
  using slash_positions_sorted [of p] by (auto simp: path_ends_def sorted_append less_imp_le)

lemma path_ends_under: "(\<lambda>e. take e p) ` set (path_ends p) = {a. is_same_or_under p a}"
  using slash_prefixes [of p] by (auto simp: path_ends_def under_iff)

lemma find_sorted_first:
  "sorted xs \<Longrightarrow> find P xs = Some x \<longleftrightarrow> x \<in> set xs \<and> P x \<and> (\<forall>y \<in> set xs. P y \<longrightarrow> x \<le> y)"
  for xs :: "nat list"
  by (induction xs) (auto split: if_splits)

text \<open>
  A path follows the shortest of its ancestors that moves: when no folder of the moves lies
  inside another, there is at most one.
\<close>

lemma path_ends_length: "e \<in> set (path_ends p) \<Longrightarrow> length (take e p) = e"
  using slash_positions_sorted [of p] by (auto simp: path_ends_def)

lemma under_path_ends: "is_same_or_under p b \<longleftrightarrow> length b \<in> set (path_ends p) \<and> b = take (length b) p"
proof
  assume "is_same_or_under p b"
  then obtain e where "e \<in> set (path_ends p)" "b = take e p" using path_ends_under [of p] by blast
  then show "length b \<in> set (path_ends p) \<and> b = take (length b) p"
    using path_ends_length by metis
next
  assume "length b \<in> set (path_ends p) \<and> b = take (length b) p"
  then show "is_same_or_under p b" using path_ends_under [of p] by blast
qed

lemma moved_path_Some:
  "moved_path lookup p = Some q \<longleftrightarrow>
     (\<exists>a t. is_same_or_under p a \<and> lookup a = Some t \<and> q = t @ drop (length a) p \<and>
        (\<forall>b. is_same_or_under p b \<longrightarrow> lookup b \<noteq> None \<longrightarrow> length a \<le> length b))"
proof
  assume "moved_path lookup p = Some q"
  then obtain e t where e: "find (\<lambda>e. lookup (take e p) \<noteq> None) (path_ends p) = Some e"
    and t: "lookup (take e p) = Some t" "q = t @ drop e p"
    by (auto simp: moved_path_def split: option.splits)
  note f = find_sorted_first [OF path_ends_sorted, THEN iffD1, OF e]
  have len: "length (take e p) = e" using f path_ends_length by blast
  have "is_same_or_under p (take e p)" using f len under_path_ends by metis
  moreover have "length (take e p) \<le> length b" if "is_same_or_under p b" "lookup b \<noteq> None" for b
    using that f len under_path_ends [of p b] by metis
  ultimately show "\<exists>a t. is_same_or_under p a \<and> lookup a = Some t \<and> q = t @ drop (length a) p \<and>
        (\<forall>b. is_same_or_under p b \<longrightarrow> lookup b \<noteq> None \<longrightarrow> length a \<le> length b)"
    using t len by metis
next
  assume "\<exists>a t. is_same_or_under p a \<and> lookup a = Some t \<and> q = t @ drop (length a) p \<and>
        (\<forall>b. is_same_or_under p b \<longrightarrow> lookup b \<noteq> None \<longrightarrow> length a \<le> length b)"
  then obtain a t where a: "is_same_or_under p a" "lookup a = Some t" "q = t @ drop (length a) p"
    "\<And>b. is_same_or_under p b \<Longrightarrow> lookup b \<noteq> None \<Longrightarrow> length a \<le> length b"
    by blast
  have tk: "take (length a) p = a" "length a \<in> set (path_ends p)" using a(1) under_path_ends by auto
  have "length a \<le> e" if "e \<in> set (path_ends p)" "lookup (take e p) \<noteq> None" for e
  proof -
    have "is_same_or_under p (take e p)" using that path_ends_under [of p] by blast
    then show ?thesis using a(4) [OF _ that(2)] path_ends_length [OF that(1)] by simp
  qed
  then have "find (\<lambda>e. lookup (take e p) \<noteq> None) (path_ends p) = Some (length a)"
    using tk a(2) by (simp add: find_sorted_first [OF path_ends_sorted])
  then show "moved_path lookup p = Some q" using a(2,3) tk by (simp add: moved_path_def)
qed

lemma moved_path_None:
  "moved_path lookup p = None \<longleftrightarrow> (\<forall>a. is_same_or_under p a \<longrightarrow> lookup a = None)"
proof -
  have "moved_path lookup p = None \<longleftrightarrow> find (\<lambda>e. lookup (take e p) \<noteq> None) (path_ends p) = None"
    by (auto simp: moved_path_def split: option.split dest: find_Some_iff [THEN iffD1])
  also have "\<dots> \<longleftrightarrow> (\<forall>a. is_same_or_under p a \<longrightarrow> lookup a = None)"
    using path_ends_under [of p] by (force simp: find_None_iff)
  finally show ?thesis .
qed

lemma prefix_map_eq: "is_same_or_under p old \<Longrightarrow> prefix_map old new p = Some (new @ drop (length old) p)"
  "\<not> is_same_or_under p old \<Longrightarrow> prefix_map old new p = None"
  by (simp_all add: prefix_map_def)

lemma moved_path_single: "moved_path (moves_lookup [(old, new)]) p = prefix_map old new p"
proof (cases "is_same_or_under p old")
  case True
  then have "moved_path (moves_lookup [(old, new)]) p = Some (new @ drop (length old) p)"
    unfolding moved_path_Some by (intro exI [of _ old] exI [of _ new]) (auto simp: moves_lookup_def)
  then show ?thesis by (simp add: prefix_map_eq True)
next
  case False
  then have "moved_path (moves_lookup [(old, new)]) p = None"
    by (auto simp: moved_path_None moves_lookup_def)
  then show ?thesis by (simp add: prefix_map_eq False)
qed

subsection \<open>Properties\<close>

lemma folder_path_loop_eq:
  "folder_path_loop segs out =
     (let ws = filter (\<lambda>w. w \<noteq> []) (map trim segs) in
      if list_ex has_control ws
      then Inl (err_invalid ''Folder names can't contain control characters'')
      else Inr (if ws = [] then out else (if out \<noteq> [] then out @ ''/'' else out) @ join ''/'' ws))"
proof (induction segs arbitrary: out)
  case (Cons seg segs)
  let ?ws = "filter (\<lambda>w. w \<noteq> []) (map trim segs)"
  show ?case
  proof (cases "trim seg = [] \<or> has_control (trim seg)")
    case True
    then show ?thesis using Cons by (auto simp: Let_def)
  next
    case False
    then have "folder_path_loop (seg # segs) out =
        folder_path_loop segs ((if out \<noteq> [] then out @ ''/'' else out) @ trim seg)"
      by (simp add: Let_def)
    also have "\<dots> = (if list_ex has_control ?ws
        then Inl (err_invalid ''Folder names can't contain control characters'')
        else Inr (if ?ws = [] then (if out \<noteq> [] then out @ ''/'' else out) @ trim seg
                  else ((if out \<noteq> [] then out @ ''/'' else out) @ trim seg) @ ''/'' @ join ''/'' ?ws))"
      using False by (subst Cons) (simp add: Let_def)
    finally show ?thesis using False by (simp add: Let_def join_Cons)
  qed
qed simp

text \<open>
  Cleaning a folder path splits it at \<open>/\<close>, trims every name, drops empty names and joins
  the rest; a control character left in a name is an error and so is a result of more than 255
  characters: nothing is cut silently, and no other path is refused.
\<close>

theorem normalize_folder_path_exact:
  "normalize_folder_path raw =
     (let ws = filter (\<lambda>w. w \<noteq> []) (map trim (split_on slash raw)); p = join ''/'' ws in
      if list_ex has_control ws
      then Inl (err_invalid ''Folder names can't contain control characters'')
      else if 255 < length p then Inl (err_too_long p)
      else Inr (if p = [] then None else Some p))"
  by (auto simp: normalize_folder_path_def folder_path_loop_eq Let_def check_len_def
      MAX_SITE_GROUP_LEN_def)

text \<open>
  Moving a folder keeps the tree below it: a path inside the folder moves to the same
  place inside the target, the way back undoes the move, and no other path moves.
\<close>

theorem prefix_map_moves_subtree:
  "prefix_map old new path =
     (if path = old then Some new
      else if starts_with path (old @ ''/'') then Some (new @ drop (length old) path) else None) \<and>
   Option.bind (prefix_map old new path) (prefix_map new old) =
     (if is_same_or_under path old then Some path else None)"
proof -
  have u: "is_same_or_under path old \<longleftrightarrow> path = old \<or> starts_with path (old @ ''/'')"
    by (auto simp: under_iff starts_with_prefix prefix_def)
  have "is_same_or_under (new @ drop (length old) path) new" if "is_same_or_under path old"
    using that by (auto simp: under_iff)
  moreover have "old @ drop (length old) path = path" if "is_same_or_under path old"
    using that by (auto simp: under_iff)
  ultimately show ?thesis by (auto simp: prefix_map_def u)
qed

end
