(* ===== verification/Json.thy ===== *)
theory Json
  imports Prelude
begin

section \<open>JSON values\<close>

text \<open>
  The values of the \<open>serde_json\<close> crate and its accessors: a number that is not an integer is kept as
  its text, an object is a list of members (a later one never repeats a key). Reading and printing of
  texts is the crate's and a parameter where it is used.
\<close>

datatype json =
    JNull
  | JBool bool
  | JNum int
  | JFloat string
  | JStr string
  | JArr "json list"
  | JObj "(string \<times> json) list"

definition j_get :: "string \<Rightarrow> json \<Rightarrow> json option" where
  "j_get key v = (case v of JObj kvs \<Rightarrow> map_of kvs key | _ \<Rightarrow> None)"

definition j_has :: "string \<Rightarrow> json \<Rightarrow> bool" where
  "j_has key v = (j_get key v \<noteq> None)"

fun as_str :: "json \<Rightarrow> string option" where
  "as_str (JStr s) = Some s"
| "as_str v = None"

text \<open>\<open>as_u64\<close>: an integer from 0 that fits in 64 bits.\<close>

fun as_u64 :: "json \<Rightarrow> nat option" where
  "as_u64 (JNum n) = (if 0 \<le> n \<and> n < 2 ^ 64 then Some (nat n) else None)"
| "as_u64 v = None"

fun as_array :: "json \<Rightarrow> json list option" where
  "as_array (JArr vs) = Some vs"
| "as_array v = None"

fun as_object :: "json \<Rightarrow> (string \<times> json) list option" where
  "as_object (JObj kvs) = Some kvs"
| "as_object v = None"

fun is_number :: "json \<Rightarrow> bool" where
  "is_number (JNum n) = True"
| "is_number (JFloat s) = True"
| "is_number v = False"

fun is_string :: "json \<Rightarrow> bool" where
  "is_string (JStr s) = True"
| "is_string v = False"

definition str_member :: "string \<Rightarrow> json \<Rightarrow> string option" where
  "str_member key v = Option.bind (j_get key v) as_str"

definition u64_member :: "string \<Rightarrow> json \<Rightarrow> nat option" where
  "u64_member key v = Option.bind (j_get key v) as_u64"

lemma as_u64_less: "as_u64 v = Some n \<Longrightarrow> n < 2 ^ 64"
  by (cases v) (auto split: if_splits)

end
