(* ===== verification/SiteLayout.thy ===== *)
theory SiteLayout
  imports SitePaths Json
begin

section \<open>The layout of the saved sites and its reconciliation\<close>

text \<open>
  Models the data and \<open>reconcile\<close> of \<open>crates/rustscp-core/src/site_layout.rs\<close>: a
  \<open>BTreeSet\<close> is a \<open>bset\<close>, a \<open>BTreeMap\<close> a \<open>bmap\<close>, a \<open>HashSet\<close> that only answers
  membership is the list of what was inserted.
\<close>

subsection \<open>Data\<close>

datatype favorite_ref = FavSite string | FavFolder string

record recent_entry =
  re_id :: string
  re_at :: "int option"
  re_count :: nat

datatype label_color = Red | Orange | Yellow | Green | Blue | Purple | Gray

record label_def =
  ld_id :: string
  ld_name :: string
  ld_color :: label_color

record site_layout =
  sl_version :: nat
  sl_folders :: "string bset"
  sl_favorites :: "favorite_ref list"
  sl_recents :: "recent_entry list"
  sl_labels :: "label_def list"
  sl_site_labels :: "(string, string) bmap"
  sl_folder_labels :: "(string, string) bmap"
  sl_collapsed :: "string bset"
  sl_migrated :: bool
  sl_large :: bool
  sl_extra :: "(string, json) bmap"

definition SITE_LAYOUT_VERSION :: nat where "SITE_LAYOUT_VERSION = 1"

definition default_layout :: site_layout where
  "default_layout =
     \<lparr>sl_version = SITE_LAYOUT_VERSION, sl_folders = [], sl_favorites = [], sl_recents = [],
      sl_labels = [], sl_site_labels = [], sl_folder_labels = [], sl_collapsed = [],
      sl_migrated = False, sl_large = False, sl_extra = []\<rparr>"

subsection \<open>Reconcile\<close>

definition implied_folders :: "connection_config list \<Rightarrow> string bset" where
  "implied_folders sites =
     fold (\<lambda>site s. case site_folder site of Some g \<Rightarrow> add_with_ancestors s g | None \<Rightarrow> s) sites []"

definition clean_folders :: "string list \<Rightarrow> string bset" where
  "clean_folders fs =
     fold (\<lambda>f s. case normalize_folder_path f of Inr (Some p) \<Rightarrow> add_with_ancestors s p | _ \<Rightarrow> s) fs []"

text \<open>The cap: explicit folders go in reverse order, so a folder only after what is inside it.\<close>

definition cap_folders :: "string bset \<Rightarrow> string bset \<Rightarrow> string bset" where
  "cap_folders implied fs =
     (if length fs > MAX_LAYOUT_FOLDERS
      then let excess = length fs - MAX_LAYOUT_FOLDERS;
               dropped = take excess (filter (\<lambda>f. f \<notin> set implied) (rev fs))
           in fold bs_remove dropped fs
      else fs)"

definition reconcile_folders :: "string list \<Rightarrow> connection_config list \<Rightarrow> string bset" where
  "reconcile_folders fs sites =
     (let implied = implied_folders sites
      in cap_folders implied (bs_extend (clean_folders fs) implied))"

definition clean_label_name :: "string \<Rightarrow> string" where
  "clean_label_name n = trim (take MAX_LABEL_NAME_LEN (trim n))"

fun label_loop :: "label_def list \<Rightarrow> string list \<Rightarrow> label_def list \<Rightarrow> label_def list" where
  "label_loop [] label_ids out = out"
| "label_loop (l # ls) label_ids out =
     (let name = clean_label_name (ld_name l) in
      if \<not> valid_label_id (ld_id l) \<or> name = [] \<or> ld_id l \<in> set label_ids
      then label_loop ls label_ids out
      else let out' = out @ [l\<lparr>ld_name := name\<rparr>] in
        if length out' = MAX_LABELS then out' else label_loop ls (ld_id l # label_ids) out')"

fun clean_favorite :: "string list \<Rightarrow> string bset \<Rightarrow> favorite_ref \<Rightarrow> favorite_ref option" where
  "clean_favorite site_ids folders (FavSite i) = (if i \<in> set site_ids then Some (FavSite i) else None)"
| "clean_favorite site_ids folders (FavFolder path) =
     (case normalize_folder_path path of
        Inr (Some p) \<Rightarrow> if p \<in> set folders then Some (FavFolder p) else None
      | _ \<Rightarrow> None)"

fun favorite_loop ::
  "string list \<Rightarrow> string bset \<Rightarrow> favorite_ref list \<Rightarrow> favorite_ref list \<Rightarrow> favorite_ref list
   \<Rightarrow> favorite_ref list" where
  "favorite_loop site_ids folders [] seen out = out"
| "favorite_loop site_ids folders (f # fs) seen out =
     (case clean_favorite site_ids folders f of
        None \<Rightarrow> favorite_loop site_ids folders fs seen out
      | Some fav \<Rightarrow>
          if fav \<in> set seen then favorite_loop site_ids folders fs seen out
          else let out' = out @ [fav] in
            if length out' = MAX_FAVORITES then out'
            else favorite_loop site_ids folders fs (fav # seen) out')"

fun retain_recents :: "string list \<Rightarrow> recent_entry list \<Rightarrow> string list \<Rightarrow> recent_entry list" where
  "retain_recents site_ids [] seen = []"
| "retain_recents site_ids (r # rs) seen =
     (if re_id r \<noteq> LOCAL_SITE_ID \<and> re_id r \<in> set site_ids \<and> re_id r \<notin> set seen
      then r # retain_recents site_ids rs (re_id r # seen)
      else retain_recents site_ids rs seen)"

definition reconcile_folder_labels ::
  "string bset \<Rightarrow> string list \<Rightarrow> (string, string) bmap \<Rightarrow> (string, string) bmap" where
  "reconcile_folder_labels folders label_ids m =
     fold (\<lambda>(path, label) out.
         case normalize_folder_path path of
           Inr (Some p) \<Rightarrow>
             if p \<in> set folders \<and> label \<in> set label_ids then bm_or_insert p label out else out
         | _ \<Rightarrow> out)
       m []"

fun collapsed_loop :: "string bset \<Rightarrow> string list \<Rightarrow> string bset \<Rightarrow> string bset" where
  "collapsed_loop folders [] out = out"
| "collapsed_loop folders (path # ps) out =
     (if length out = MAX_COLLAPSED then out
      else collapsed_loop folders ps
        (case normalize_folder_path path of
           Inr (Some p) \<Rightarrow> if p \<in> set folders then bs_insert p out else out
         | _ \<Rightarrow> out))"

definition reconciled :: "site_layout \<Rightarrow> connection_config list \<Rightarrow> site_layout" where
  "reconciled l sites =
     (let site_ids = map cfg_id sites;
          folders = reconcile_folders (sl_folders l) sites;
          labels = label_loop (sl_labels l) [] [];
          label_ids = map ld_id labels
      in l\<lparr>sl_version := (if sl_version l = 0 then SITE_LAYOUT_VERSION else sl_version l),
           sl_folders := folders,
           sl_labels := labels,
           sl_favorites := favorite_loop site_ids folders (sl_favorites l) [] [],
           sl_recents := take MAX_RECENTS (retain_recents site_ids (sl_recents l) []),
           sl_site_labels :=
             filter (\<lambda>(i, label). i \<in> set site_ids \<and> label \<in> set label_ids) (sl_site_labels l),
           sl_folder_labels := reconcile_folder_labels folders label_ids (sl_folder_labels l),
           sl_collapsed := collapsed_loop folders (sl_collapsed l) []\<rparr>)"

text \<open>\<open>reconcile\<close> changes the layout in place and returns whether it changed.\<close>

definition reconcile :: "site_layout \<Rightarrow> connection_config list \<Rightarrow> bool \<times> site_layout" where
  "reconcile l sites = (let l' = reconciled l sites in (l' \<noteq> l, l'))"

subsection \<open>A well-formed layout\<close>

definition folders_ok :: "connection_config list \<Rightarrow> string bset \<Rightarrow> bool" where
  "folders_ok sites fs =
     (bset_ok fs \<and> (\<forall>f \<in> set fs. folder_path_ok f) \<and>
      (\<forall>f \<in> set fs. \<forall>a. is_same_or_under f a \<longrightarrow> a \<in> set fs) \<and>
      set (implied_folders sites) \<subseteq> set fs \<and>
      (length fs \<le> MAX_LAYOUT_FOLDERS \<or> set fs = set (implied_folders sites)))"

definition labels_ok :: "label_def list \<Rightarrow> bool" where
  "labels_ok ls =
     (length ls \<le> MAX_LABELS \<and> distinct (map ld_id ls) \<and>
      (\<forall>l \<in> set ls. valid_label_id (ld_id l) \<and> ld_name l \<noteq> [] \<and> trimmed (ld_name l) \<and>
         length (ld_name l) \<le> MAX_LABEL_NAME_LEN))"

fun favorite_ok :: "connection_config list \<Rightarrow> string bset \<Rightarrow> favorite_ref \<Rightarrow> bool" where
  "favorite_ok sites fs (FavSite i) = (i \<in> cfg_id ` set sites)"
| "favorite_ok sites fs (FavFolder p) = (p \<in> set fs)"

definition favorites_ok :: "connection_config list \<Rightarrow> string bset \<Rightarrow> favorite_ref list \<Rightarrow> bool" where
  "favorites_ok sites fs favs =
     (length favs \<le> MAX_FAVORITES \<and> distinct favs \<and> (\<forall>f \<in> set favs. favorite_ok sites fs f))"

definition recents_ok :: "connection_config list \<Rightarrow> recent_entry list \<Rightarrow> bool" where
  "recents_ok sites rs =
     (length rs \<le> MAX_RECENTS \<and> distinct (map re_id rs) \<and>
      (\<forall>r \<in> set rs. re_id r \<noteq> LOCAL_SITE_ID \<and> re_id r \<in> cfg_id ` set sites))"

definition layout_ok :: "connection_config list \<Rightarrow> site_layout \<Rightarrow> bool" where
  "layout_ok sites l =
     (sl_version l \<noteq> 0 \<and> folders_ok sites (sl_folders l) \<and> labels_ok (sl_labels l) \<and>
      favorites_ok sites (sl_folders l) (sl_favorites l) \<and> recents_ok sites (sl_recents l) \<and>
      bmap_ok (sl_site_labels l) \<and>
      (\<forall>(i, x) \<in> set (sl_site_labels l). i \<in> cfg_id ` set sites \<and> x \<in> ld_id ` set (sl_labels l)) \<and>
      bmap_ok (sl_folder_labels l) \<and>
      (\<forall>(p, x) \<in> set (sl_folder_labels l). p \<in> set (sl_folders l) \<and> x \<in> ld_id ` set (sl_labels l)) \<and>
      bset_ok (sl_collapsed l) \<and> length (sl_collapsed l) \<le> MAX_COLLAPSED \<and>
      set (sl_collapsed l) \<subseteq> set (sl_folders l))"

subsection \<open>Folders after reconciling\<close>

lemma implied_set:
  "set (implied_folders sites) = {a. \<exists>s \<in> set sites. \<exists>g. site_folder s = Some g \<and> is_same_or_under g a}"
proof -
  have "set (fold (\<lambda>site s. case site_folder site of Some g \<Rightarrow> add_with_ancestors s g | None \<Rightarrow> s) sites z) =
      set z \<union> {a. \<exists>s \<in> set sites. \<exists>g. site_folder s = Some g \<and> is_same_or_under g a}" for z
    by (induction sites arbitrary: z) (auto split: option.splits)
  then show ?thesis by (simp add: implied_folders_def)
qed

lemma implied_ok [simp]: "bset_ok (implied_folders sites)"
proof -
  have "bset_ok z \<Longrightarrow>
    bset_ok (fold (\<lambda>site s. case site_folder site of Some g \<Rightarrow> add_with_ancestors s g | None \<Rightarrow> s) sites z)" for z
    by (induction sites arbitrary: z) (auto split: option.splits)
  then show ?thesis by (simp add: implied_folders_def)
qed

lemma clean_set:
  "set (clean_folders fs) = {a. \<exists>f \<in> set fs. \<exists>p. normalize_folder_path f = Inr (Some p) \<and> is_same_or_under p a}"
proof -
  have "set (fold (\<lambda>f s. case normalize_folder_path f of Inr (Some p) \<Rightarrow> add_with_ancestors s p | _ \<Rightarrow> s) fs z) =
      set z \<union> {a. \<exists>f \<in> set fs. \<exists>p. normalize_folder_path f = Inr (Some p) \<and> is_same_or_under p a}" for z
    by (induction fs arbitrary: z) (auto split: option.splits sum.splits)
  then show ?thesis by (simp add: clean_folders_def)
qed

lemma clean_ok [simp]: "bset_ok (clean_folders fs)"
proof -
  have "bset_ok z \<Longrightarrow>
    bset_ok (fold (\<lambda>f s. case normalize_folder_path f of Inr (Some p) \<Rightarrow> add_with_ancestors s p | _ \<Rightarrow> s) fs z)" for z
    by (induction fs arbitrary: z) (auto split: option.splits sum.splits)
  then show ?thesis by (simp add: clean_folders_def)
qed

lemma implied_closed:
  "f \<in> set (implied_folders sites) \<Longrightarrow> is_same_or_under f a \<Longrightarrow> a \<in> set (implied_folders sites)"
  by (auto simp: implied_set intro: under_trans)

lemma implied_path_ok: "f \<in> set (implied_folders sites) \<Longrightarrow> folder_path_ok f"
  using site_folder_ok under_path_ok by (auto simp: implied_set)

lemma clean_closed: "f \<in> set (clean_folders fs) \<Longrightarrow> is_same_or_under f a \<Longrightarrow> a \<in> set (clean_folders fs)"
  by (auto simp: clean_set intro: under_trans)

lemma clean_path_ok: "f \<in> set (clean_folders fs) \<Longrightarrow> folder_path_ok f"
  using normalize_folder_path_ok under_path_ok by (auto simp: clean_set)

lemma fold_bs_remove: "fold bs_remove ds s = filter (\<lambda>x. x \<notin> set ds) s"
proof (induction ds arbitrary: s)
  case (Cons d ds)
  then show ?case by (auto simp: bs_remove_def intro!: filter_cong)
qed simp

lemma append_le: "a \<le> a @ b" for a :: string
  by (induction a) simp_all

lemma under_le: "is_same_or_under f a \<Longrightarrow> a \<le> f" for f :: string
  by (auto simp: under_iff append_le)

text \<open>What the cap drops holds everything inside a dropped folder that is not implied.\<close>

lemma cap_keeps_ancestors:
  assumes ok: "bset_ok fs" and closed: "\<And>f a. f \<in> set fs \<Longrightarrow> is_same_or_under f a \<Longrightarrow> a \<in> set fs"
    and iclosed: "\<And>f a. f \<in> set implied \<Longrightarrow> is_same_or_under f a \<Longrightarrow> a \<in> set implied"
    and f: "f \<in> set (cap_folders implied fs)" "is_same_or_under f a"
  shows "a \<in> set (cap_folders implied fs)"
proof (cases "length fs > MAX_LAYOUT_FOLDERS")
  case False
  then show ?thesis using f closed by (simp add: cap_folders_def)
next
  case True
  let ?free = "filter (\<lambda>f. f \<notin> set implied) (rev fs)"
  let ?n = "length fs - MAX_LAYOUT_FOLDERS"
  have cap: "set (cap_folders implied fs) = {x \<in> set fs. x \<notin> set (take ?n ?free)}"
    using True by (auto simp: cap_folders_def fold_bs_remove Let_def)
  have a: "a \<in> set fs" using f closed by (auto simp: cap)
  have "a \<notin> set (take ?n ?free)"
  proof
    assume at: "a \<in> set (take ?n ?free)"
    then have "a \<notin> set implied" using in_set_takeD by fastforce
    then have "f \<notin> set implied" using iclosed f(2) by blast
    then have ff: "f \<in> set ?free" using f(1) cap by auto
    have srt: "sorted_wrt (\<ge>) ?free"
      using ok by (simp add: bset_ok_def sorted_wrt_filter sorted_wrt_rev)
    obtain i where i: "i < ?n" "i < length ?free" "?free ! i = a"
      using at by (auto simp: in_set_conv_nth)
    obtain j where j: "j < length ?free" "?free ! j = f" using ff by (metis in_set_conv_nth)
    have "f \<noteq> a" using at f(1) cap by auto
    then have "i \<noteq> j" using i j by auto
    moreover have "\<not> i < j"
    proof
      assume "i < j"
      then have "a \<ge> f" using srt i j by (metis sorted_wrt_nth_less)
      with under_le [OF f(2)] \<open>f \<noteq> a\<close> show False by simp
    qed
    ultimately have "j < ?n" using i by simp
    then have "f \<in> set (take ?n ?free)" using j by (auto simp: in_set_conv_nth intro!: exI [of _ j])
    with f(1) cap show False by simp
  qed
  with a show ?thesis by (simp add: cap)
qed

lemma cap_subset: "set (cap_folders implied fs) \<subseteq> set fs"
  by (auto simp: cap_folders_def fold_bs_remove Let_def)

lemma cap_implied: "f \<in> set implied \<Longrightarrow> f \<in> set fs \<Longrightarrow> f \<in> set (cap_folders implied fs)"
  by (auto simp: cap_folders_def fold_bs_remove Let_def dest: in_set_takeD)

lemma cap_ok [simp]: "bset_ok fs \<Longrightarrow> bset_ok (cap_folders implied fs)"
  by (simp add: cap_folders_def fold_bs_remove Let_def)

lemma cap_length:
  assumes ok: "bset_ok fs" and sub: "set implied \<subseteq> set fs"
  shows "length (cap_folders implied fs) \<le> MAX_LAYOUT_FOLDERS \<or>
    set (cap_folders implied fs) = set implied"
proof (cases "length fs > MAX_LAYOUT_FOLDERS")
  case True
  let ?free = "filter (\<lambda>f. f \<notin> set implied) (rev fs)"
  let ?n = "length fs - MAX_LAYOUT_FOLDERS"
  let ?drop = "take ?n ?free"
  have cap: "cap_folders implied fs = filter (\<lambda>x. x \<notin> set ?drop) fs"
    using True by (simp add: cap_folders_def fold_bs_remove Let_def)
  have d: "distinct fs" using ok by (simp add: bset_ok_def)
  show ?thesis
  proof (cases "?n \<le> length ?free")
    case True
    have dd: "distinct ?drop" using d by simp
    have ss: "set ?drop \<subseteq> set fs" by (auto dest: in_set_takeD)
    have "length (cap_folders implied fs) = card (set fs - set ?drop)"
      unfolding cap using d by (simp add: distinct_card [symmetric] set_diff_eq)
    also have "\<dots> = length fs - length ?drop"
      using d dd ss by (simp add: card_Diff_subset distinct_card)
    also have "\<dots> = MAX_LAYOUT_FOLDERS" using True \<open>length fs > MAX_LAYOUT_FOLDERS\<close> by simp
    finally show ?thesis by simp
  next
    case False
    then have "set ?drop = set fs - set implied" by auto
    then show ?thesis using sub by (auto simp: cap)
  qed
qed (simp add: cap_folders_def)

lemma reconcile_folders_ok: "folders_ok sites (reconcile_folders fs sites)"
proof -
  let ?i = "implied_folders sites" and ?all = "bs_extend (clean_folders fs) (implied_folders sites)"
  have closed: "a \<in> set ?all" if "f \<in> set ?all" "is_same_or_under f a" for f a
    using that clean_closed implied_closed by auto
  have "\<forall>f \<in> set ?all. folder_path_ok f" using clean_path_ok implied_path_ok by auto
  then have "\<forall>f \<in> set (cap_folders ?i ?all). folder_path_ok f" using cap_subset by blast
  moreover have "a \<in> set (cap_folders ?i ?all)"
    if "f \<in> set (cap_folders ?i ?all)" "is_same_or_under f a" for f a
    by (rule cap_keeps_ancestors [OF _ closed implied_closed that]) simp_all
  moreover have "set ?i \<subseteq> set (cap_folders ?i ?all)" using cap_implied [of _ ?i ?all] by auto
  ultimately show ?thesis
    using cap_length [of ?all ?i] unfolding reconcile_folders_def folders_ok_def Let_def by simp
qed

lemma reconcile_folders_id:
  assumes ok: "folders_ok sites fs"
  shows "reconcile_folders fs sites = fs"
proof -
  let ?i = "implied_folders sites"
  have id: "normalize_folder_path f = Inr (Some f)" if "f \<in> set fs" for f
    using ok that by (intro normalize_folder_path_id) (simp add: folders_ok_def)
  have "set (clean_folders fs) = set fs"
  proof (intro equalityI subsetI)
    fix a assume "a \<in> set (clean_folders fs)"
    then obtain f p where "f \<in> set fs" "normalize_folder_path f = Inr (Some p)" "is_same_or_under p a"
      by (auto simp: clean_set)
    then show "a \<in> set fs" using id ok by (auto simp: folders_ok_def)
  next
    fix a assume "a \<in> set fs"
    then show "a \<in> set (clean_folders fs)" using id under_refl by (fastforce simp: clean_set)
  qed
  then have all: "bs_extend (clean_folders fs) ?i = fs"
    using ok by (intro bset_eqI) (auto simp: folders_ok_def)
  have "cap_folders ?i fs = fs"
  proof (cases "length fs \<le> MAX_LAYOUT_FOLDERS")
    case False
    then have "set fs = set ?i" using ok by (auto simp: folders_ok_def)
    then have "filter (\<lambda>f. f \<notin> set ?i) (rev fs) = []" by (auto simp: filter_empty_conv)
    then show ?thesis by (simp add: cap_folders_def Let_def)
  qed (simp add: cap_folders_def)
  with all show ?thesis by (simp add: reconcile_folders_def Let_def)
qed


subsection \<open>Labels, favorites, recents after reconciling\<close>

lemma clean_label_name_ok:
  "clean_label_name n \<noteq> [] \<Longrightarrow> trimmed (clean_label_name n) \<and> length (clean_label_name n) \<le> MAX_LABEL_NAME_LEN"
  using length_trim [of "take MAX_LABEL_NAME_LEN (trim n)"] by (auto simp: clean_label_name_def)

lemma clean_label_name_id: "trimmed n \<Longrightarrow> length n \<le> MAX_LABEL_NAME_LEN \<Longrightarrow> clean_label_name n = n"
  by (simp add: clean_label_name_def trim_id)

lemma labels_ok_snoc:
  "labels_ok out \<Longrightarrow> length out < MAX_LABELS \<Longrightarrow> valid_label_id (ld_id l) \<Longrightarrow> ld_name l \<noteq> [] \<Longrightarrow>
   trimmed (ld_name l) \<Longrightarrow> length (ld_name l) \<le> MAX_LABEL_NAME_LEN \<Longrightarrow> ld_id l \<notin> set (map ld_id out) \<Longrightarrow>
   labels_ok (out @ [l])"
  by (auto simp: labels_ok_def)

lemma label_loop_ok:
  "labels_ok out \<Longrightarrow> length out < MAX_LABELS \<Longrightarrow> set seen = set (map ld_id out) \<Longrightarrow>
   labels_ok (label_loop ls seen out)"
proof (induction ls seen out rule: label_loop.induct)
  case (2 l ls seen out)
  let ?n = "clean_label_name (ld_name l)"
  let ?out = "out @ [l\<lparr>ld_name := ?n\<rparr>]"
  show ?case
  proof (cases "\<not> valid_label_id (ld_id l) \<or> ?n = [] \<or> ld_id l \<in> set seen")
    case True
    then show ?thesis using 2 by (simp add: Let_def)
  next
    case False
    then have ok: "labels_ok ?out"
      using 2(3-) clean_label_name_ok [of "ld_name l"] by (intro labels_ok_snoc) auto
    show ?thesis
    proof (cases "length ?out = MAX_LABELS")
      case True
      with False ok show ?thesis by (simp add: Let_def)
    next
      case less: False
      with 2(4) have "length ?out < MAX_LABELS" by simp
      with 2(2) [OF refl False refl less] ok 2(5) False less show ?thesis by (simp add: Let_def)
    qed
  qed
qed simp

lemma label_loop_id:
  "labels_ok (out @ ls) \<Longrightarrow> set seen = set (map ld_id out) \<Longrightarrow> label_loop ls seen out = out @ ls"
proof (induction ls arbitrary: seen out)
  case (Cons l ls)
  have l: "clean_label_name (ld_name l) = ld_name l" "valid_label_id (ld_id l)" "ld_name l \<noteq> []"
    "ld_id l \<notin> set seen"
    using Cons.prems by (auto simp: labels_ok_def clean_label_name_id)
  have "length (out @ [l]) \<le> MAX_LABELS" using Cons.prems(1) by (simp add: labels_ok_def)
  moreover have "ls = []" if "length (out @ [l]) = MAX_LABELS"
    using that Cons.prems(1) by (cases ls) (simp_all add: labels_ok_def)
  moreover have "label_loop ls (ld_id l # seen) (out @ [l]) = (out @ [l]) @ ls"
    using Cons.prems by (intro Cons.IH) auto
  moreover have "l\<lparr>ld_name := ld_name l\<rparr> = l" by simp
  ultimately show ?case using l by (auto simp: Let_def)
qed simp

lemma clean_favorite_ok:
  "clean_favorite (map cfg_id sites) fs f = Some g \<Longrightarrow> favorite_ok sites fs g"
  by (cases f) (auto split: if_splits sum.splits option.splits)

lemma favorite_loop_ok:
  "favorites_ok sites fs out \<Longrightarrow> length out < MAX_FAVORITES \<Longrightarrow> set seen = set out \<Longrightarrow>
   favorites_ok sites fs (favorite_loop (map cfg_id sites) fs favs seen out)"
proof (induction "map cfg_id sites" fs favs seen out rule: favorite_loop.induct)
  case (2 fs f favs seen out)
  show ?case
  proof (cases "clean_favorite (map cfg_id sites) fs f")
    case None
    then show ?thesis using 2 by simp
  next
    case (Some g)
    show ?thesis
    proof (cases "g \<in> set seen")
      case True
      then show ?thesis using 2 Some by simp
    next
      case False
      have ok: "favorites_ok sites fs (out @ [g])"
        using 2(4-) False clean_favorite_ok [OF Some] by (auto simp: favorites_ok_def)
      show ?thesis
      proof (cases "length (out @ [g]) = MAX_FAVORITES")
        case True
        with False Some ok show ?thesis by simp
      next
        case less: False
        with 2(5) have "length (out @ [g]) < MAX_FAVORITES" by simp
        with 2(3) [OF Some False refl less] ok 2(6) False less Some show ?thesis by simp
      qed
    qed
  qed
qed simp

lemma clean_favorite_id:
  "favorite_ok sites fs f \<Longrightarrow> (\<And>p. p \<in> set fs \<Longrightarrow> folder_path_ok p) \<Longrightarrow>
   clean_favorite (map cfg_id sites) fs f = Some f"
  by (cases f) (auto simp: normalize_folder_path_id)

lemma favorite_loop_id:
  "favorites_ok sites fs (out @ favs) \<Longrightarrow> (\<And>p. p \<in> set fs \<Longrightarrow> folder_path_ok p) \<Longrightarrow> set seen = set out \<Longrightarrow>
   favorite_loop (map cfg_id sites) fs favs seen out = out @ favs"
proof (induction favs arbitrary: seen out)
  case (Cons f favs)
  have f: "clean_favorite (map cfg_id sites) fs f = Some f" "f \<notin> set seen"
    using Cons.prems clean_favorite_id by (auto simp: favorites_ok_def)
  have "favs = []" if "length (out @ [f]) = MAX_FAVORITES"
    using that Cons.prems(1) by (cases favs) (simp_all add: favorites_ok_def)
  moreover have "favorite_loop (map cfg_id sites) fs favs (f # seen) (out @ [f]) = (out @ [f]) @ favs"
    using Cons.prems by (intro Cons.IH) auto
  ultimately show ?case using f by (auto simp: Let_def)
qed simp

lemma retain_recents_ok:
  "distinct (map re_id (retain_recents ids rs seen)) \<and>
   (\<forall>r \<in> set (retain_recents ids rs seen). re_id r \<noteq> LOCAL_SITE_ID \<and> re_id r \<in> set ids \<and> re_id r \<notin> set seen)"
proof (induction rs arbitrary: seen)
  case (Cons r rs)
  show ?case using Cons.IH [of seen] Cons.IH [of "re_id r # seen"] by auto
qed simp

lemma recents_take_ok: "recents_ok sites (take MAX_RECENTS (retain_recents (map cfg_id sites) rs []))"
proof -
  let ?rs = "retain_recents (map cfg_id sites) rs []"
  have d: "distinct (map re_id ?rs)" using retain_recents_ok by blast
  have "distinct (map re_id (take MAX_RECENTS ?rs))"
    using distinct_take [OF d, of MAX_RECENTS] by (simp add: take_map)
  then show ?thesis
    using retain_recents_ok [of "map cfg_id sites" rs "[]"]
    by (auto simp: recents_ok_def dest: in_set_takeD)
qed

lemma retain_recents_id:
  "distinct (map re_id rs) \<Longrightarrow>
   (\<forall>r \<in> set rs. re_id r \<noteq> LOCAL_SITE_ID \<and> re_id r \<in> set ids \<and> re_id r \<notin> set seen) \<Longrightarrow>
   retain_recents ids rs seen = rs"
proof (induction rs arbitrary: seen)
  case (Cons r rs)
  have "\<forall>x \<in> set rs. re_id x \<noteq> re_id r" using Cons.prems(1) by (auto simp: image_iff)
  then have "retain_recents ids rs (re_id r # seen) = rs"
    using Cons.prems by (intro Cons.IH) auto
  then show ?case using Cons.prems(2) by simp
qed simp

lemma folder_labels_fold:
  fixes out :: "(string \<times> 'a) list"
  assumes "bmap_ok out" and "\<forall>(p, x) \<in> set out. p \<in> set fs \<and> x \<in> set ids"
  shows "bmap_ok (fold (\<lambda>(path, label) out.
         case normalize_folder_path path of
           Inr (Some p) \<Rightarrow> if p \<in> set fs \<and> label \<in> set ids then bm_or_insert p label out else out
         | _ \<Rightarrow> out) m out) \<and>
     (\<forall>(p, x) \<in> set (fold (\<lambda>(path, label) out.
         case normalize_folder_path path of
           Inr (Some p) \<Rightarrow> if p \<in> set fs \<and> label \<in> set ids then bm_or_insert p label out else out
         | _ \<Rightarrow> out) m out). p \<in> set fs \<and> x \<in> set ids)"
  using assms
proof (induction m arbitrary: out)
  case (Cons a m)
  obtain path label where a: "a = (path, label)" by (cases a)
  let ?out = "case normalize_folder_path path of
      Inr (Some p) \<Rightarrow> if p \<in> set fs \<and> label \<in> set ids then bm_or_insert p label out else out | _ \<Rightarrow> out"
  have sub: "set (bm_or_insert p label out) \<subseteq> insert (p, label) (set out)" for p
  proof -
    have "set (bm_insert p label m) \<subseteq> insert (p, label) (set m)" for m :: "(string \<times> 'a) list"
      by (induction p label m rule: bm_insert.induct) auto
    then show ?thesis by (simp add: bm_or_insert_def split: option.split) blast
  qed
  have "bmap_ok ?out \<and> (\<forall>(p, x) \<in> set ?out. p \<in> set fs \<and> x \<in> set ids)"
    using Cons.prems sub by (auto split: sum.split option.split)
  then show ?case using Cons.IH [of ?out] by (simp add: a)
qed simp

lemma reconcile_folder_labels_ok:
  "bmap_ok (reconcile_folder_labels fs ids m) \<and>
   (\<forall>(p, x) \<in> set (reconcile_folder_labels fs ids m). p \<in> set fs \<and> x \<in> set ids)"
  unfolding reconcile_folder_labels_def by (rule folder_labels_fold) simp_all


lemma reconcile_folder_labels_id:
  assumes ok: "bmap_ok m" and sub: "\<forall>(p, x) \<in> set m. p \<in> set fs \<and> x \<in> set ids"
    and fs: "\<And>p. p \<in> set fs \<Longrightarrow> folder_path_ok p"
  shows "reconcile_folder_labels fs ids m = m"
proof -
  let ?f = "\<lambda>(path, label) out.
         case normalize_folder_path path of
           Inr (Some p) \<Rightarrow> if p \<in> set fs \<and> label \<in> set ids then bm_or_insert p label out else out
         | _ \<Rightarrow> out"
  have step: "bm_get (fold ?f l out) = bm_get out ++ bm_get l \<and> bmap_ok (fold ?f l out)"
    if "bmap_ok out" "\<forall>(p, x) \<in> set l. p \<in> set fs \<and> x \<in> set ids" "distinct (map fst l)"
      "fst ` set l \<inter> fst ` set out = {}" for l out
    using that
  proof (induction l arbitrary: out)
    case Nil
    then show ?case by (simp add: bm_get_def)
  next
    case (Cons a l)
    obtain p x where a: "a = (p, x)" by (cases a)
    have n: "normalize_folder_path p = Inr (Some p)"
      using Cons.prems(2) fs by (intro normalize_folder_path_id) (auto simp: a)
    have none: "bm_get out p = None" using Cons.prems(4) by (auto simp: a bm_get_None)
    have step1: "?f a out = bm_insert p x out"
      using Cons.prems(2) n none by (simp add: a bm_or_insert_def)
    have "bm_get (fold ?f l (bm_insert p x out)) = bm_get (bm_insert p x out) ++ bm_get l \<and>
        bmap_ok (fold ?f l (bm_insert p x out))"
      using Cons.prems by (intro Cons.IH) (auto simp: a)
    moreover have "bm_get (bm_insert p x out) ++ bm_get l = bm_get out ++ bm_get (a # l)"
    proof -
      have "p \<notin> dom (bm_get l)" using Cons.prems(3) by (simp add: a domIff bm_get_None)
      moreover have "bm_get (a # l) = (bm_get l)(p \<mapsto> x)" by (simp add: a bm_get_def fun_eq_iff)
      ultimately show ?thesis by (simp add: map_add_upd_left)
    qed
    ultimately show ?case using step1 by simp
  qed
  have e: "bm_get [] ++ bm_get m = bm_get m" by (simp add: fun_eq_iff map_add_def split: option.split)
  have "distinct (map fst m)" using ok by (simp add: bmap_ok_def)
  then have "bm_get (fold ?f m []) = bm_get m \<and> bmap_ok (fold ?f m [])"
    using step [of "[]" m] sub e by simp
  then show ?thesis unfolding reconcile_folder_labels_def using ok by (intro bmap_eqI) simp_all
qed

lemma collapsed_loop_ok:
  "bset_ok out \<Longrightarrow> set out \<subseteq> set fs \<Longrightarrow> length out \<le> MAX_COLLAPSED \<Longrightarrow>
   bset_ok (collapsed_loop fs ps out) \<and> set (collapsed_loop fs ps out) \<subseteq> set fs \<and>
   length (collapsed_loop fs ps out) \<le> MAX_COLLAPSED"
proof (induction ps arbitrary: out)
  case (Cons path ps)
  show ?case
  proof (cases "length out = MAX_COLLAPSED")
    case False
    let ?out = "case normalize_folder_path path of
        Inr (Some p) \<Rightarrow> if p \<in> set fs then bs_insert p out else out | _ \<Rightarrow> out"
    have len: "length (bs_insert p out) \<le> Suc (length out)" for p
      by (simp add: bs_insert_def insort_insert_key_def)
    have "Suc (length out) \<le> MAX_COLLAPSED" using False Cons.prems(3) by simp
    then have "length (bs_insert p out) \<le> MAX_COLLAPSED" for p using len le_trans by blast
    then have "bset_ok ?out \<and> set ?out \<subseteq> set fs \<and> length ?out \<le> MAX_COLLAPSED"
      using Cons.prems by (auto split: sum.split option.split)
    then show ?thesis using False Cons.IH [of ?out] by simp
  qed (use Cons.prems in simp)
qed simp

lemma collapsed_loop_id:
  assumes ok: "bset_ok ps" and len: "length ps \<le> MAX_COLLAPSED" and sub: "set ps \<subseteq> set fs"
    and fs: "\<And>p. p \<in> set fs \<Longrightarrow> folder_path_ok p"
  shows "collapsed_loop fs ps [] = ps"
proof -
  have n: "normalize_folder_path p = Inr (Some p)" if "p \<in> set ps" for p
    using that sub fs by (intro normalize_folder_path_id) auto
  have step: "set (collapsed_loop fs l out) = set out \<union> set l \<and> bset_ok (collapsed_loop fs l out)"
    if "bset_ok out" "set l \<subseteq> set ps" "distinct l" "length out + length l \<le> MAX_COLLAPSED" for l out
    using that
  proof (induction l arbitrary: out)
    case (Cons p l)
    have len1: "length (bs_insert p out) \<le> Suc (length out)"
      by (simp add: bs_insert_def insort_insert_key_def)
    have "length out \<noteq> MAX_COLLAPSED" using Cons.prems(4) by simp
    then have "collapsed_loop fs (p # l) out = collapsed_loop fs l (bs_insert p out)"
      using Cons.prems(2) n sub by auto
    moreover have "set (collapsed_loop fs l (bs_insert p out)) = set (bs_insert p out) \<union> set l \<and>
        bset_ok (collapsed_loop fs l (bs_insert p out))"
      using Cons.prems len1 by (intro Cons.IH) auto
    ultimately show ?case by auto
  qed simp
  have "distinct ps" using ok by (simp add: bset_ok_def)
  then show ?thesis using step [of "[]" ps] ok len by (intro bset_eqI) auto
qed

subsection \<open>Reconciling gives a well-formed layout and changes no well-formed one\<close>

lemma bmap_ok_site_labels: "bmap_ok m \<Longrightarrow> bmap_ok (filter P m)"
  by simp

lemma reconciled_ok:
  assumes "bmap_ok (sl_site_labels l)"
  shows "layout_ok sites (reconciled l sites)"
proof -
  let ?fs = "reconcile_folders (sl_folders l) sites"
  let ?ls = "label_loop (sl_labels l) [] []"
  let ?ids = "map ld_id ?ls"
  have 1: "labels_ok ?ls" by (rule label_loop_ok) (simp_all add: labels_ok_def MAX_LABELS_def)
  have 2: "favorites_ok sites ?fs (favorite_loop (map cfg_id sites) ?fs (sl_favorites l) [] [])"
    by (rule favorite_loop_ok) (simp_all add: favorites_ok_def MAX_FAVORITES_def)
  have 3: "bset_ok (collapsed_loop ?fs (sl_collapsed l) []) \<and>
      set (collapsed_loop ?fs (sl_collapsed l) []) \<subseteq> set ?fs \<and>
      length (collapsed_loop ?fs (sl_collapsed l) []) \<le> MAX_COLLAPSED"
    by (rule collapsed_loop_ok) simp_all
  show ?thesis
    using 1 2 3 assms reconcile_folders_ok [of sites "sl_folders l"] recents_take_ok [of sites "sl_recents l"]
      reconcile_folder_labels_ok [of ?fs ?ids "sl_folder_labels l"]
    by (auto simp: layout_ok_def reconciled_def Let_def SITE_LAYOUT_VERSION_def)
qed

lemma reconciled_id:
  assumes ok: "layout_ok sites l"
  shows "reconciled l sites = l"
proof -
  have fo: "folders_ok sites (sl_folders l)" using ok by (simp add: layout_ok_def)
  then have fs: "\<And>p. p \<in> set (sl_folders l) \<Longrightarrow> folder_path_ok p" by (simp add: folders_ok_def)
  have 1: "reconcile_folders (sl_folders l) sites = sl_folders l" by (rule reconcile_folders_id [OF fo])
  have 2: "label_loop (sl_labels l) [] [] = sl_labels l"
    using label_loop_id [of "[]" "sl_labels l" "[]"] ok by (simp add: layout_ok_def)
  have 3: "favorite_loop (map cfg_id sites) (sl_folders l) (sl_favorites l) [] [] = sl_favorites l"
    using favorite_loop_id [of sites "sl_folders l" "[]" "sl_favorites l" "[]"] ok fs by (simp add: layout_ok_def)
  have 4: "take MAX_RECENTS (retain_recents (map cfg_id sites) (sl_recents l) []) = sl_recents l"
    using retain_recents_id [of "sl_recents l" "map cfg_id sites" "[]"] ok
    by (simp add: layout_ok_def recents_ok_def)
  have 5: "filter (\<lambda>(i, x). i \<in> set (map cfg_id sites) \<and> x \<in> set (map ld_id (sl_labels l))) (sl_site_labels l)
      = sl_site_labels l"
    using ok by (auto simp: layout_ok_def filter_id_conv)
  have 6: "reconcile_folder_labels (sl_folders l) (map ld_id (sl_labels l)) (sl_folder_labels l) = sl_folder_labels l"
    using ok fs by (intro reconcile_folder_labels_id) (auto simp: layout_ok_def)
  have 7: "collapsed_loop (sl_folders l) (sl_collapsed l) [] = sl_collapsed l"
    using ok fs by (intro collapsed_loop_id) (auto simp: layout_ok_def)
  have 8: "sl_version l \<noteq> 0" using ok by (simp add: layout_ok_def)
  show ?thesis unfolding reconciled_def Let_def 1 2 3 4 6 7 using 5 8 by simp
qed


text \<open>
  C9: Reconciling makes any layout well formed for the saved sites: folders cleaned, closed
  under parents, holding every folder a site is filed under and capped otherwise; labels,
  favorites, recents, assignments and collapsed folders valid, without repetitions and within
  their limits.
\<close>

theorem reconcile_well_formed:
  assumes "bmap_ok (sl_site_labels l)"
  shows "layout_ok sites (snd (reconcile l sites))"
  using reconciled_ok [OF assms] by (simp add: reconcile_def Let_def)

definition demo_site :: "string \<Rightarrow> string option \<Rightarrow> connection_config" where
  "demo_site i g = (local_config ''u'')\<lparr>cfg_id := i, cfg_protocol := Sftp, cfg_group := g\<rparr>"

definition demo_layout :: site_layout where
  "demo_layout = default_layout\<lparr>sl_folders := [''B//C ''], sl_favorites := [FavSite ''gone'', FavFolder ''B/C''],
     sl_site_labels := [(''s1'', ''x'')]\<rparr>"

theorem reconcile_well_formed_witness:
  "layout_ok [demo_site ''s1'' (Some ''A/B'')] (snd (reconcile demo_layout [demo_site ''s1'' (Some ''A/B'')])) \<and>
   sl_folders (snd (reconcile demo_layout [demo_site ''s1'' (Some ''A/B'')])) = [''A'', ''A/B'', ''B'', ''B/C'']"
proof
  show "layout_ok [demo_site ''s1'' (Some ''A/B'')] (snd (reconcile demo_layout [demo_site ''s1'' (Some ''A/B'')]))"
    by (rule reconcile_well_formed) (simp add: demo_layout_def bmap_ok_def)
  show "sl_folders (snd (reconcile demo_layout [demo_site ''s1'' (Some ''A/B'')])) = [''A'', ''A/B'', ''B'', ''B/C'']"
    by code_simp
qed

text \<open>
  Reconciling settles at once: a well-formed layout is left as it is and reported as
  unchanged, so a second run after the first changes nothing.
\<close>

theorem reconcile_idempotent:
  assumes "bmap_ok (sl_site_labels l)"
  shows "reconcile (snd (reconcile l sites)) sites = (False, snd (reconcile l sites))"
proof -
  have "reconciled (reconciled l sites) sites = reconciled l sites"
    using reconciled_id [OF reconciled_ok [OF assms]] .
  then show ?thesis by (simp add: reconcile_def Let_def)
qed

theorem reconcile_idempotent_witness:
  "reconcile (snd (reconcile demo_layout [demo_site ''s1'' (Some ''A/B'')])) [demo_site ''s1'' (Some ''A/B'')] =
     (False, snd (reconcile demo_layout [demo_site ''s1'' (Some ''A/B'')]))"
  by (rule reconcile_idempotent) (simp add: demo_layout_def bmap_ok_def)

end
