(* ===== verification/SiteOps.thy ===== *)
theory SiteOps
  imports SiteLayout
begin

section \<open>Changes to the site tree\<close>

text \<open>
  Models the operations of \<open>crates/rustscp-core/src/site_layout.rs\<close>, one definition per
  function. An operation gets the sites, the layout, the batch log and the state of the id
  generator, and returns them changed or an error; \<open>new_id\<close> is a step of the generator. A loop
  that changes \<open>sites[i]\<close> for the positions of some sites is a map over the list.
\<close>

subsection \<open>Operations, log and state\<close>

record copy_item =
  ci_id :: string
  ci_name :: string
  ci_group :: "string option"

datatype site_tree_op =
    MoveSites "string list" "string option"
  | CopySites "copy_item list"
  | DeleteSites "string list"
  | RenameSite string string
  | CreateFolder string
  | RenameFolder string string bool
  | MoveFolder string "string option" bool
  | CopyFolder string "string option" string
  | DeleteFolder string bool
  | SetFavorites "favorite_ref list"
  | SetLabel "string list" "string list" "string option"
  | SetLabelDefs "label_def list"

fun id_count :: "site_tree_op \<Rightarrow> nat" where
  "id_count (MoveSites ids _) = length ids"
| "id_count (DeleteSites ids) = length ids"
| "id_count (CopySites items) = length items"
| "id_count (SetFavorites items) = length items"
| "id_count (SetLabel sites folders _) = length sites + length folders"
| "id_count (SetLabelDefs labels) = length labels"
| "id_count _ = 1"

fun changes_layout_only :: "site_tree_op \<Rightarrow> bool" where
  "changes_layout_only (CreateFolder _) = True"
| "changes_layout_only (SetFavorites _) = True"
| "changes_layout_only (SetLabel _ _ _) = True"
| "changes_layout_only (SetLabelDefs _) = True"
| "changes_layout_only _ = False"

fun rewrites_folder_paths :: "site_tree_op \<Rightarrow> bool" where
  "rewrites_folder_paths (RenameFolder _ _ _) = True"
| "rewrites_folder_paths (MoveFolder _ _ _) = True"
| "rewrites_folder_paths (DeleteFolder _ _) = True"
| "rewrites_folder_paths (CopyFolder _ _ _) = True"
| "rewrites_folder_paths _ = False"

record created_site =
  cs_source_id :: string
  cs_id :: string

record folder_remap =
  fr_moves :: moves
  fr_site_ids :: "string list option"

record batch_log =
  bl_created :: "created_site list"
  bl_remaps :: "folder_remap list"
  bl_remap_ids :: nat

definition empty_log :: batch_log where
  "empty_log = \<lparr>bl_created = [], bl_remaps = [], bl_remap_ids = 0\<rparr>"

definition check_copy_budget :: "batch_log \<Rightarrow> unit site_result" where
  "check_copy_budget log =
     (if length (bl_created log) \<ge> MAX_IDS_PER_CALL then Inl (err_too_many ''items at once'') else Inr ())"

record 'g tree =
  t_sites :: "connection_config list"
  t_layout :: site_layout
  t_log :: batch_log
  t_gen :: 'g

text \<open>\<open>iter().map(f).collect::<Result<Vec<_>, _>>()\<close>: stops at the first error.\<close>

fun mapE :: "('a \<Rightarrow> 'e + 'b) \<Rightarrow> 'a list \<Rightarrow> 'e + 'b list" where
  "mapE f [] = Inr []"
| "mapE f (x # xs) = bindE (f x) (\<lambda>y. bindE (mapE f xs) (\<lambda>ys. Inr (y # ys)))"

fun foldE :: "('a \<Rightarrow> 's \<Rightarrow> 'e + 's) \<Rightarrow> 'a list \<Rightarrow> 's \<Rightarrow> 'e + 's" where
  "foldE f [] s = Inr s"
| "foldE f (x # xs) s = bindE (f x s) (foldE f xs)"

definition or_empty :: "string option \<Rightarrow> string" where
  "or_empty r = (case r of Some s \<Rightarrow> s | None \<Rightarrow> [])"

subsection \<open>Sites\<close>

definition find_index :: "connection_config list \<Rightarrow> string \<Rightarrow> nat site_result" where
  "find_index sites i = ok_or (site_not_found i) (site_index sites i)"

definition move_site_to ::
  "string option \<Rightarrow> nat \<Rightarrow> connection_config list \<Rightarrow> connection_config list site_result" where
  "move_site_to to i sites =
     (if is_local (sites ! i) then Inl err_local
      else Inr (sites[i := (sites ! i)\<lparr>cfg_group := to\<rparr>]))"

definition move_sites ::
  "connection_config list \<Rightarrow> string list \<Rightarrow> string option \<Rightarrow> connection_config list site_result" where
  "move_sites sites ids to0 =
     bindE (normalize_folder_path (or_empty to0)) (\<lambda>to.
     bindE (mapE (find_index sites) ids) (\<lambda>positions.
       foldE (move_site_to to) positions sites))"

definition rename_site ::
  "connection_config list \<Rightarrow> string \<Rightarrow> string \<Rightarrow> connection_config list site_result" where
  "rename_site sites i name0 =
     bindE (validate_site_name name0) (\<lambda>name.
     bindE (find_index sites i) (\<lambda>k. Inr (sites[k := (sites ! k)\<lparr>cfg_name := name\<rparr>])))"

text \<open>Up to \<open>n\<close> tries for an id that is not empty, not \<open>local\<close> and not taken.\<close>

fun fresh_id_tries ::
  "nat \<Rightarrow> ('g \<Rightarrow> string \<times> 'g) \<Rightarrow> string list \<Rightarrow> 'g \<Rightarrow> string option \<times> 'g" where
  "fresh_id_tries 0 new_id taken g = (None, g)"
| "fresh_id_tries (Suc n) new_id taken g =
     (let (i, g') = new_id g in
      if i \<noteq> [] \<and> i \<noteq> LOCAL_SITE_ID \<and> i \<notin> set taken then (Some i, g')
      else fresh_id_tries n new_id taken g')"

definition fresh_id :: "('g \<Rightarrow> string \<times> 'g) \<Rightarrow> string list \<Rightarrow> 'g \<Rightarrow> (string \<times> string list \<times> 'g) site_result" where
  "fresh_id new_id taken g =
     (case fresh_id_tries 32 new_id taken g of
        (Some i, g') \<Rightarrow> Inr (i, i # taken, g')
      | (None, _) \<Rightarrow> Inl (err_invalid ''Could not make a unique id for the copy''))"

text \<open>
  What both copying loops do with one copied site: a fresh id, the label of the source, an
  entry in the log. The copies wait in a list of their own.
\<close>

record 'g copying =
  cp_taken :: "string list"
  cp_layout :: site_layout
  cp_log :: batch_log
  cp_gen :: 'g
  cp_copies :: "connection_config list"

definition copy_labels :: "string \<Rightarrow> string \<Rightarrow> site_layout \<Rightarrow> site_layout" where
  "copy_labels source i l =
     (case bm_get (sl_site_labels l) source of
        Some label \<Rightarrow> l\<lparr>sl_site_labels := bm_insert i label (sl_site_labels l)\<rparr>
      | None \<Rightarrow> l)"

definition copy_one ::
  "('g \<Rightarrow> string \<times> 'g) \<Rightarrow> connection_config \<Rightarrow> string \<Rightarrow> string option \<Rightarrow> 'g copying \<Rightarrow> 'g copying site_result" where
  "copy_one new_id source name folder st =
     bindE (fresh_id new_id (cp_taken st) (cp_gen st)) (\<lambda>(i, taken, g).
       Inr (st\<lparr>cp_taken := taken, cp_gen := g,
              cp_layout := copy_labels (cfg_id source) i (cp_layout st),
              cp_log := (cp_log st)\<lparr>bl_created :=
                bl_created (cp_log st) @ [\<lparr>cs_source_id = cfg_id source, cs_id = i\<rparr>]\<rparr>,
              cp_copies := cp_copies st @
                [source\<lparr>cfg_id := i, cfg_name := name, cfg_group := folder\<rparr>]\<rparr>))"

definition copy_item_step ::
  "('g \<Rightarrow> string \<times> 'g) \<Rightarrow> connection_config list \<Rightarrow> copy_item \<Rightarrow> 'g copying \<Rightarrow> 'g copying site_result" where
  "copy_item_step new_id sites item st =
     bindE (find_index sites (ci_id item)) (\<lambda>k.
       if is_local (sites ! k) then Inl err_local
       else bindE (check_copy_budget (cp_log st)) (\<lambda>_.
            bindE (validate_site_name (ci_name item)) (\<lambda>name.
            bindE (normalize_folder_path (or_empty (ci_group item))) (\<lambda>folder.
              copy_one new_id (sites ! k) name folder st))))"

definition start_copying :: "'g tree \<Rightarrow> 'g copying" where
  "start_copying t =
     \<lparr>cp_taken = map cfg_id (t_sites t), cp_layout = t_layout t, cp_log = t_log t,
      cp_gen = t_gen t, cp_copies = []\<rparr>"

definition end_copying :: "'g tree \<Rightarrow> 'g copying \<Rightarrow> 'g tree" where
  "end_copying t st =
     t\<lparr>t_sites := t_sites t @ cp_copies st, t_layout := cp_layout st, t_log := cp_log st,
       t_gen := cp_gen st\<rparr>"

definition copy_sites ::
  "('g \<Rightarrow> string \<times> 'g) \<Rightarrow> copy_item list \<Rightarrow> 'g tree \<Rightarrow> 'g tree site_result" where
  "copy_sites new_id items t =
     bindE (foldE (copy_item_step new_id (t_sites t)) items (start_copying t))
       (\<lambda>st. Inr (end_copying t st))"

definition doom_site :: "connection_config list \<Rightarrow> string \<Rightarrow> string site_result" where
  "doom_site sites i =
     bindE (find_index sites i) (\<lambda>k. if is_local (sites ! k) then Inl err_local else Inr i)"

definition delete_sites ::
  "connection_config list \<Rightarrow> string list \<Rightarrow> connection_config list site_result" where
  "delete_sites sites ids =
     bindE (mapE (doom_site sites) ids) (\<lambda>doomed.
       Inr (filter (\<lambda>s. cfg_id s \<notin> set doomed) sites))"

subsection \<open>Folders\<close>

definition existing_folder :: "site_layout \<Rightarrow> string \<Rightarrow> string site_result" where
  "existing_folder l raw =
     bindE (normalize_folder_path raw) (\<lambda>r.
     bindE (ok_or (err_invalid ''Enter a folder name'') r) (\<lambda>path.
       if path \<in> set (sl_folders l) then Inr path
       else Inl \<lparr>err_code = ERR_NOT_FOUND, err_message = ''There is no folder '' @ quoted path\<rparr>))"

fun create_checks :: "string bset \<Rightarrow> string \<Rightarrow> string option \<Rightarrow> nat list \<Rightarrow> unit site_result" where
  "create_checks folders path parent [] = Inr ()"
| "create_checks folders path parent (e # es) =
     (let prefix = take e path; name = base_name prefix in
      if prefix \<in> set folders
      then (if e = length path then Inl (err_folder_exists name parent)
            else create_checks folders path (Some prefix) es)
      else (case find_sibling_ci folders parent name None of
              Some existing \<Rightarrow> Inl (err_folder_exists (base_name existing) parent)
            | None \<Rightarrow> create_checks folders path (Some prefix) es))"

definition create_folder :: "site_layout \<Rightarrow> string \<Rightarrow> site_layout site_result" where
  "create_folder l raw =
     bindE (normalize_folder_path raw) (\<lambda>r.
     bindE (ok_or (err_invalid ''Enter a folder name'') r) (\<lambda>path.
     bindE (create_checks (sl_folders l) path None (path_ends path)) (\<lambda>_.
       Inr (l\<lparr>sl_folders := add_with_ancestors (sl_folders l) path\<rparr>))))"

definition follow :: "(string \<Rightarrow> string option) \<Rightarrow> string \<Rightarrow> string" where
  "follow f p = (case f p of Some q \<Rightarrow> q | None \<Rightarrow> p)"

fun follow_favorite :: "(string \<Rightarrow> string option) \<Rightarrow> favorite_ref \<Rightarrow> favorite_ref" where
  "follow_favorite f (FavFolder p) = FavFolder (follow f p)"
| "follow_favorite f (FavSite i) = FavSite i"

definition remap_labels ::
  "(string \<Rightarrow> string option) \<Rightarrow> (string, string) bmap \<Rightarrow> (string, string) bmap" where
  "remap_labels f m =
     (let kept = filter (\<lambda>(p, _). f p = None) m;
          moved = List.map_filter (\<lambda>(p, x). map_option (\<lambda>q. (q, x)) (f p)) m
      in fold (\<lambda>(q, x) out. bm_or_insert q x out) moved kept)"

definition remap_layout :: "site_layout \<Rightarrow> (string \<Rightarrow> string option) \<Rightarrow> site_layout" where
  "remap_layout l f =
     l\<lparr>sl_folders := bs_of (map (follow f) (sl_folders l)),
       sl_favorites := map (follow_favorite f) (sl_favorites l),
       sl_folder_labels := remap_labels f (sl_folder_labels l),
       sl_collapsed := bs_of (map (follow f) (sl_collapsed l))\<rparr>"

definition moved_group :: "(string \<Rightarrow> string option) \<Rightarrow> connection_config \<Rightarrow> string option" where
  "moved_group f site = Option.bind (site_folder site) f"

definition move_group :: "(string \<Rightarrow> string option) \<Rightarrow> connection_config \<Rightarrow> connection_config" where
  "move_group f site =
     (case moved_group f site of Some g \<Rightarrow> site\<lparr>cfg_group := Some g\<rparr> | None \<Rightarrow> site)"

definition log_remap :: "moves \<Rightarrow> string list \<Rightarrow> batch_log \<Rightarrow> batch_log" where
  "log_remap ms ids log =
     (if bl_remap_ids log + length ids \<le> MAX_IDS_PER_CALL
      then log\<lparr>bl_remap_ids := bl_remap_ids log + length ids,
               bl_remaps := bl_remaps log @ [\<lparr>fr_moves = ms, fr_site_ids = Some ids\<rparr>]\<rparr>
      else log\<lparr>bl_remaps := bl_remaps log @ [\<lparr>fr_moves = ms, fr_site_ids = None\<rparr>]\<rparr>)"

definition remap_paths :: "moves \<Rightarrow> 'g tree \<Rightarrow> 'g tree site_result" where
  "remap_paths ms t =
     (if ms = [] then Inr t
      else let f = moved_path (moves_lookup ms) in
        bindE (mapE check_len (List.map_filter (moved_group f) (t_sites t))) (\<lambda>_.
        bindE (mapE check_len (List.map_filter f (sl_folders (t_layout t)))) (\<lambda>_.
          Inr (t\<lparr>t_sites := map (move_group f) (t_sites t),
                 t_layout := remap_layout (t_layout t) f,
                 t_log := log_remap ms
                   (map cfg_id (filter (\<lambda>s. moved_group f s \<noteq> None) (t_sites t))) (t_log t)\<rparr>))))"

definition rename_folder :: "string \<Rightarrow> string \<Rightarrow> bool \<Rightarrow> 'g tree \<Rightarrow> 'g tree site_result" where
  "rename_folder raw_path raw_name merge t =
     bindE (existing_folder (t_layout t) raw_path) (\<lambda>path.
     bindE (validate_folder_name raw_name) (\<lambda>name.
       let parent = parent_path path; target = tree_join parent name in
       if target = path then Inr t
       else (case find_sibling_ci (sl_folders (t_layout t)) parent name (Some path) of
               Some existing \<Rightarrow>
                 if \<not> merge then Inl (err_folder_exists (base_name existing) parent)
                 else remap_paths [(path, existing)] t
             | None \<Rightarrow> remap_paths [(path, target)] t)))"

definition into_self :: "string \<Rightarrow> site_error" where
  "into_self m = \<lparr>err_code = ERR_INTO_SELF, err_message = m\<rparr>"

definition inside :: "string option \<Rightarrow> string \<Rightarrow> bool" where
  "inside to path = (case to of Some q \<Rightarrow> is_same_or_under q path | None \<Rightarrow> False)"

definition move_folder :: "string \<Rightarrow> string option \<Rightarrow> bool \<Rightarrow> 'g tree \<Rightarrow> 'g tree site_result" where
  "move_folder raw_path to0 merge t =
     bindE (existing_folder (t_layout t) raw_path) (\<lambda>path.
     bindE (normalize_folder_path (or_empty to0)) (\<lambda>to.
       if inside to path then Inl (into_self ''A folder can't go inside itself'')
       else if parent_path path = to then Inr t
       else (case find_sibling_ci (sl_folders (t_layout t)) to (base_name path) None of
               Some existing \<Rightarrow>
                 if merge then remap_paths [(path, existing)] t
                 else Inl (err_folder_exists (base_name existing) to)
             | None \<Rightarrow> remap_paths [(path, tree_join to (base_name path))] t)))"

definition copy_folder_step ::
  "('g \<Rightarrow> string \<times> 'g) \<Rightarrow> (string \<Rightarrow> string option) \<Rightarrow> connection_config \<Rightarrow> 'g copying \<Rightarrow> 'g copying site_result" where
  "copy_folder_step new_id f source st =
     (case moved_group f source of
        None \<Rightarrow> Inr st
      | Some folder \<Rightarrow>
          bindE (check_len folder) (\<lambda>_.
          bindE (check_copy_budget (cp_log st)) (\<lambda>_.
            copy_one new_id source (cfg_name source) (Some folder) st)))"

definition copy_folder ::
  "('g \<Rightarrow> string \<times> 'g) \<Rightarrow> string \<Rightarrow> string option \<Rightarrow> string \<Rightarrow> 'g tree \<Rightarrow> 'g tree site_result" where
  "copy_folder new_id raw_path to0 raw_name t =
     bindE (existing_folder (t_layout t) raw_path) (\<lambda>path.
     bindE (normalize_folder_path (or_empty to0)) (\<lambda>to.
       if inside to path then Inl (into_self ''A folder can't be copied inside itself'')
       else bindE (validate_folder_name raw_name) (\<lambda>name.
         case find_sibling_ci (sl_folders (t_layout t)) to name None of
           Some existing \<Rightarrow> Inl (err_folder_exists (base_name existing) to)
         | None \<Rightarrow>
             let f = prefix_map path (tree_join to name);
                 new_folders = List.map_filter f (sl_folders (t_layout t));
                 new_labels = List.map_filter (\<lambda>(p, x). map_option (\<lambda>q. (q, x)) (f p))
                   (sl_folder_labels (t_layout t))
             in bindE (mapE check_len new_folders) (\<lambda>_.
                bindE (foldE (copy_folder_step new_id f) (t_sites t) (start_copying t)) (\<lambda>st.
                  let t' = end_copying t st; l = t_layout t' in
                  Inr (t'\<lparr>t_layout := l\<lparr>sl_folders := bs_extend (sl_folders l) new_folders,
                         sl_folder_labels :=
                           fold (\<lambda>(q, x) out. bm_or_insert q x out) new_labels (sl_folder_labels l)\<rparr>\<rparr>))))))"

definition is_folder_favorite :: "string \<Rightarrow> favorite_ref \<Rightarrow> bool" where
  "is_folder_favorite path f = (f = FavFolder path)"

text \<open>The name of the child of \<open>path\<close> that holds \<open>p\<close>.\<close>

definition first_level :: "string \<Rightarrow> string \<Rightarrow> string option" where
  "first_level path p =
     (if length p \<le> length path + 1 \<or> \<not> is_same_or_under p path then None
      else let rest = drop (length path + 1) p
           in Some (case split_once (CHR ''/'') rest of Some (first, _) \<Rightarrow> first | None \<Rightarrow> rest))"

text \<open>The parent's folder of the same name, ignoring case, that does not go.\<close>

definition lift_sibling :: "string bset \<Rightarrow> string \<Rightarrow> string \<Rightarrow> string option" where
  "lift_sibling folders path name =
     find (\<lambda>f. parent_path f = parent_path path \<and> \<not> is_same_or_under f path \<and>
             to_lowercase (base_name f) = to_lowercase name) folders"

definition lift_moves :: "string bset \<Rightarrow> string \<Rightarrow> string list \<Rightarrow> moves" where
  "lift_moves folders path children =
     map (\<lambda>name. (tree_join (Some path) name,
            case lift_sibling folders path name of
              Some q \<Rightarrow> q | None \<Rightarrow> tree_join (parent_path path) name)) children"

definition lift_site :: "string \<Rightarrow> connection_config \<Rightarrow> connection_config" where
  "lift_site path site =
     (if site_folder site = Some path then site\<lparr>cfg_group := parent_path path\<rparr> else site)"

definition delete_folder :: "string \<Rightarrow> bool \<Rightarrow> 'g tree \<Rightarrow> 'g tree site_result" where
  "delete_folder raw_path keep_contents t =
     bindE (existing_folder (t_layout t) raw_path) (\<lambda>path.
       let l = t_layout t in
       if \<not> keep_contents
       then Inr (t\<lparr>t_sites := filter (\<lambda>s. \<not> inside (site_folder s) path) (t_sites t),
                   t_layout := l\<lparr>sl_folders := filter (\<lambda>f. \<not> is_same_or_under f path) (sl_folders l)\<rparr>\<rparr>)
       else
         let l' = l\<lparr>sl_folders := bs_remove path (sl_folders l),
                    sl_collapsed := bs_remove path (sl_collapsed l),
                    sl_folder_labels := bm_remove path (sl_folder_labels l),
                    sl_favorites := filter (\<lambda>f. \<not> is_folder_favorite path f) (sl_favorites l)\<rparr>;
             sites' = map (lift_site path) (t_sites t);
             children = bs_of (List.map_filter (first_level path) (sl_folders l') @
                               List.map_filter (\<lambda>s. Option.bind (site_folder s) (first_level path)) sites')
         in remap_paths (lift_moves (sl_folders l) path children) (t\<lparr>t_sites := sites', t_layout := l'\<rparr>))"

subsection \<open>Favorites and labels\<close>

fun favorite_of_request :: "favorite_ref \<Rightarrow> favorite_ref option" where
  "favorite_of_request (FavSite i) = Some (FavSite i)"
| "favorite_of_request (FavFolder path) =
     (case normalize_folder_path path of Inr (Some p) \<Rightarrow> Some (FavFolder p) | _ \<Rightarrow> None)"

definition set_favorites :: "favorite_ref list \<Rightarrow> site_layout \<Rightarrow> site_layout site_result" where
  "set_favorites items l =
     (if length items > MAX_FAVORITES then Inl (err_too_many ''favorites'')
      else Inr (l\<lparr>sl_favorites := List.map_filter favorite_of_request items\<rparr>))"

definition put_label :: "string \<Rightarrow> string option \<Rightarrow> (string, string) bmap \<Rightarrow> (string, string) bmap" where
  "put_label key label m = (case label of Some x \<Rightarrow> bm_insert key x m | None \<Rightarrow> bm_remove key m)"

definition set_label ::
  "connection_config list \<Rightarrow> string list \<Rightarrow> string list \<Rightarrow> string option \<Rightarrow> site_layout \<Rightarrow> site_layout site_result" where
  "set_label sites site_ids folders label l =
     bindE (case label of
              Some x \<Rightarrow>
                if list_ex (\<lambda>d. ld_id d = x) (sl_labels l) then Inr ()
                else Inl \<lparr>err_code = ERR_NOT_FOUND,
                       err_message = ''There is no label '' @ quoted (escape_default x)\<rparr>
            | None \<Rightarrow> Inr ()) (\<lambda>_.
     bindE (foldE (\<lambda>i l. bindE (find_index sites i)
              (\<lambda>_. Inr (l\<lparr>sl_site_labels := put_label i label (sl_site_labels l)\<rparr>))) site_ids l) (\<lambda>l.
       foldE (\<lambda>raw l. bindE (existing_folder l raw)
              (\<lambda>path. Inr (l\<lparr>sl_folder_labels := put_label path label (sl_folder_labels l)\<rparr>))) folders l))"

definition check_label_def :: "label_def \<Rightarrow> label_def list \<Rightarrow> label_def list site_result" where
  "check_label_def label checked =
     (if \<not> valid_label_id (ld_id label) \<or> ld_id label \<in> ld_id ` set checked
      then Inl (err_invalid ''Invalid or repeated label id'')
      else let name = trim (ld_name label) in
        if name = [] then Inl (err_invalid ''Enter a label name'')
        else if has_control name \<or> length name > MAX_LABEL_NAME_LEN
        then Inl (err_invalid (''Label names can be at most '' @ show_nat MAX_LABEL_NAME_LEN
                    @ '' characters long''))
        else Inr (checked @ [label\<lparr>ld_name := name\<rparr>]))"

definition set_label_defs :: "label_def list \<Rightarrow> site_layout \<Rightarrow> site_layout site_result" where
  "set_label_defs labels l =
     (if length labels > MAX_LABELS then Inl (err_too_many ''labels'')
      else bindE (foldE check_label_def labels []) (\<lambda>checked. Inr (l\<lparr>sl_labels := checked\<rparr>)))"

subsection \<open>One operation\<close>

definition with_sites :: "'g tree \<Rightarrow> connection_config list site_result \<Rightarrow> 'g tree site_result" where
  "with_sites t r = bindE r (\<lambda>sites. Inr (t\<lparr>t_sites := sites\<rparr>))"

definition with_layout :: "'g tree \<Rightarrow> site_layout site_result \<Rightarrow> 'g tree site_result" where
  "with_layout t r = bindE r (\<lambda>l. Inr (t\<lparr>t_layout := l\<rparr>))"

fun apply_one :: "('g \<Rightarrow> string \<times> 'g) \<Rightarrow> site_tree_op \<Rightarrow> 'g tree \<Rightarrow> 'g tree site_result" where
  "apply_one new_id (MoveSites ids to) t = with_sites t (move_sites (t_sites t) ids to)"
| "apply_one new_id (CopySites items) t = copy_sites new_id items t"
| "apply_one new_id (DeleteSites ids) t = with_sites t (delete_sites (t_sites t) ids)"
| "apply_one new_id (RenameSite i name) t = with_sites t (rename_site (t_sites t) i name)"
| "apply_one new_id (CreateFolder path) t = with_layout t (create_folder (t_layout t) path)"
| "apply_one new_id (RenameFolder path name merge) t = rename_folder path name merge t"
| "apply_one new_id (MoveFolder path to merge) t = move_folder path to merge t"
| "apply_one new_id (CopyFolder path to name) t = copy_folder new_id path to name t"
| "apply_one new_id (DeleteFolder path keep) t = delete_folder path keep t"
| "apply_one new_id (SetFavorites items) t = with_layout t (set_favorites items (t_layout t))"
| "apply_one new_id (SetLabel sites folders label) t =
     with_layout t (set_label (t_sites t) sites folders label (t_layout t))"
| "apply_one new_id (SetLabelDefs labels) t = with_layout t (set_label_defs labels (t_layout t))"

definition check_op_limits :: "site_tree_op list \<Rightarrow> unit site_result" where
  "check_op_limits ops =
     (if length ops > MAX_OPS_PER_CALL then Inl (err_too_many ''changes at once'')
      else if sum_list (map id_count ops) > MAX_IDS_PER_CALL then Inl (err_too_many ''items at once'')
      else Inr ())"

text \<open>The part of \<open>apply_ops\<close> that works on copies: reconcile, every operation, the folder limit,
  reconcile.\<close>

definition run_batch ::
  "('g \<Rightarrow> string \<times> 'g) \<Rightarrow> site_tree_op list \<Rightarrow> connection_config list \<Rightarrow> site_layout \<Rightarrow> 'g
   \<Rightarrow> (site_layout \<times> 'g tree) site_result" where
  "run_batch new_id ops sites l g =
     bindE (check_op_limits ops) (\<lambda>_.
       let before = reconciled l sites in
       bindE (foldE (apply_one new_id) ops \<lparr>t_sites = sites, t_layout = before, t_log = empty_log, t_gen = g\<rparr>)
         (\<lambda>t. let n = length (sl_folders (t_layout t)) in
            if n > MAX_LAYOUT_FOLDERS \<and> n > length (sl_folders before) then Inl (err_too_many ''folders'')
            else Inr (before, t\<lparr>t_layout := reconciled (t_layout t) (t_sites t)\<rparr>)))"

subsection \<open>What every operation keeps\<close>

lemma foldE_inv:
  assumes "\<And>x s s'. x \<in> set xs \<Longrightarrow> P s \<Longrightarrow> f x s = Inr s' \<Longrightarrow> P s'"
  shows "P s \<Longrightarrow> foldE f xs s = Inr s' \<Longrightarrow> P s'"
  using assms
proof (induction xs arbitrary: s)
  case (Cons x xs)
  then show ?case by (auto simp: bindE_Inr)
qed simp

lemma mapE_Inr: "mapE f xs = Inr ys \<longleftrightarrow> list_all2 (\<lambda>x y. f x = Inr y) xs ys"
  by (induction xs arbitrary: ys) (auto simp: bindE_Inr list_all2_Cons1)

text \<open>The built-in Local site, up to its name, which the user may change.\<close>

definition local_part :: "connection_config list \<Rightarrow> connection_config list" where
  "local_part sites = map (\<lambda>s. s\<lparr>cfg_name := []\<rparr>) (filter is_local sites)"

type_synonym fixed_part = "nat \<times> recent_entry list \<times> bool \<times> bool \<times> (string, json) bmap"

definition fixed_part :: "site_layout \<Rightarrow> fixed_part" where
  "fixed_part l = (sl_version l, sl_recents l, sl_migrated l, sl_large l, sl_extra l)"

definition tree_inv :: "connection_config list \<Rightarrow> fixed_part \<Rightarrow> 'g tree \<Rightarrow> bool" where
  "tree_inv locals fixed t =
     (distinct (map cfg_id (t_sites t)) \<and> local_part (t_sites t) = locals \<and>
      bmap_ok (sl_site_labels (t_layout t)) \<and> fixed_part (t_layout t) = fixed)"

lemma site_index_Some: "site_index sites i = Some k \<Longrightarrow> k < length sites \<and> cfg_id (sites ! k) = i"
  by (induction sites arbitrary: k) (auto split: if_splits)

lemma find_index_Inr: "find_index sites i = Inr k \<Longrightarrow> k < length sites \<and> cfg_id (sites ! k) = i"
  by (simp add: find_index_def site_index_Some)

lemma local_part_update:
  assumes "k < length sites" and "is_local (sites ! k) = is_local s'"
    and "is_local s' \<Longrightarrow> s'\<lparr>cfg_name := []\<rparr> = (sites ! k)\<lparr>cfg_name := []\<rparr>"
  shows "local_part (sites[k := s']) = local_part sites"
proof -
  have "sites = take k sites @ sites ! k # drop (Suc k) sites" using assms(1) by (rule id_take_nth_drop)
  moreover have "sites[k := s'] = take k sites @ s' # drop (Suc k) sites"
    using assms(1) by (rule upd_conv_take_nth_drop)
  moreover have "local_part (a @ x # b) = local_part a @ local_part [x] @ local_part b" for a x b
    by (simp add: local_part_def)
  moreover have "local_part [s'] = local_part [sites ! k]" using assms(2,3) by (simp add: local_part_def)
  ultimately show ?thesis by metis
qed

lemma local_part_map:
  assumes "\<And>s. s \<in> set sites \<Longrightarrow> is_local (f s) = is_local s"
    and "\<And>s. s \<in> set sites \<Longrightarrow> is_local s \<Longrightarrow> f s = s"
  shows "local_part (map f sites) = local_part sites"
  using assms by (induction sites) (auto simp: local_part_def)

lemma local_part_filter: "(\<And>s. is_local s \<Longrightarrow> P s) \<Longrightarrow> local_part (filter P sites) = local_part sites"
  by (induction sites) (auto simp: local_part_def)

lemma local_part_append: "local_part (a @ b) = local_part a @ local_part b"
  by (simp add: local_part_def)

lemma map_cfg_id_update:
  "k < length s \<Longrightarrow> cfg_id x = cfg_id (s ! k) \<Longrightarrow> map cfg_id (s[k := x]) = map cfg_id s"
  by (metis length_map list_update_id map_update nth_map)

lemma move_sites_keeps:
  assumes "move_sites sites ids to = Inr sites'"
  shows "map cfg_id sites' = map cfg_id sites \<and> local_part sites' = local_part sites"
proof -
  obtain f ps where ps: "mapE (find_index sites) ids = Inr ps" "foldE (move_site_to f) ps sites = Inr sites'"
    using assms by (auto simp: move_sites_def bindE_Inr)
  have lt: "\<forall>p \<in> set ps. p < length sites"
    using ps(1) find_index_Inr by (fastforce simp: mapE_Inr list_all2_conv_all_nth in_set_conv_nth)
  let ?P = "\<lambda>s. map cfg_id s = map cfg_id sites \<and> local_part s = local_part sites"
  show ?thesis
  proof (rule foldE_inv [where P = ?P, OF _ _ ps(2)])
    fix k s s' assume k: "k \<in> set ps" and s: "?P s" and r: "move_site_to f k s = Inr s'"
    have "length s = length sites" using s by (metis length_map)
    then have kl: "k < length s" using lt k by simp
    have r': "\<not> is_local (s ! k)" "s' = s[k := (s ! k)\<lparr>cfg_group := f\<rparr>]"
      using r by (auto simp: move_site_to_def split: if_splits)
    show "?P s'"
      unfolding r'(2) using s kl r'(1) local_part_update [OF kl, of "(s ! k)\<lparr>cfg_group := f\<rparr>"]
      by (simp add: is_local_def map_cfg_id_update)
  qed simp
qed

lemma rename_site_keeps:
  assumes "rename_site sites i name = Inr sites'"
  shows "map cfg_id sites' = map cfg_id sites \<and> local_part sites' = local_part sites"
proof -
  obtain k n where k: "find_index sites i = Inr k" "sites' = sites[k := (sites ! k)\<lparr>cfg_name := n\<rparr>]"
    using assms by (auto simp: rename_site_def bindE_Inr)
  have kl: "k < length sites" using find_index_Inr [OF k(1)] by simp
  show ?thesis
    unfolding k(2) using kl local_part_update [OF kl, of "(sites ! k)\<lparr>cfg_name := n\<rparr>"]
    by (simp add: is_local_def map_cfg_id_update)
qed

lemma delete_sites_keeps:
  assumes "delete_sites sites ids = Inr sites'"
  shows "sites' = filter (\<lambda>s. cfg_id s \<notin> set ids) sites \<and> LOCAL_SITE_ID \<notin> set ids"
proof -
  obtain doomed where d: "mapE (doom_site sites) ids = Inr doomed"
    "sites' = filter (\<lambda>s. cfg_id s \<notin> set doomed) sites"
    using assms by (auto simp: delete_sites_def bindE_Inr)
  have one: "doom_site sites i = Inr j \<Longrightarrow> j = i \<and> i \<noteq> LOCAL_SITE_ID" for i j
    using find_index_Inr [of sites i] by (auto simp: doom_site_def bindE_Inr is_local_def split: if_splits)
  have "list_all2 (\<lambda>i j. j = i \<and> i \<noteq> LOCAL_SITE_ID) ids doomed"
    by (rule list_all2_mono [OF d(1) [unfolded mapE_Inr]]) (rule one)
  then have "doomed = ids" "LOCAL_SITE_ID \<notin> set ids"
    by (induction rule: list_all2_induct) auto
  with d(2) show ?thesis by simp
qed

lemma fresh_id_tries_Some:
  "fresh_id_tries n new_id taken g = (Some i, g') \<Longrightarrow> i \<noteq> [] \<and> i \<noteq> LOCAL_SITE_ID \<and> i \<notin> set taken"
  by (induction n arbitrary: g) (auto simp: Let_def split: prod.splits if_splits)

lemma fresh_id_Inr:
  "fresh_id new_id taken g = Inr (i, taken', g') \<Longrightarrow>
   i \<noteq> [] \<and> i \<noteq> LOCAL_SITE_ID \<and> i \<notin> set taken \<and> taken' = i # taken"
  using fresh_id_tries_Some by (fastforce simp: fresh_id_def split: prod.splits option.splits)

text \<open>Copies get ids of their own, and their sources are not touched.\<close>

definition copying_inv :: "'g tree \<Rightarrow> 'g copying \<Rightarrow> bool" where
  "copying_inv t st =
     (distinct (map cfg_id (cp_copies st)) \<and> set (cp_taken st) = cfg_id ` set (t_sites t) \<union> cfg_id ` set (cp_copies st) \<and>
      cfg_id ` set (t_sites t) \<inter> cfg_id ` set (cp_copies st) = {} \<and>
      (\<forall>s \<in> set (cp_copies st). \<not> is_local s) \<and>
      bmap_ok (sl_site_labels (cp_layout st)) \<and> fixed_part (cp_layout st) = fixed_part (t_layout t))"

lemma copy_one_inv:
  assumes "copying_inv t st" and "copy_one new_id source name folder st = Inr st'"
  shows "copying_inv t st'"
proof -
  obtain i taken g where i: "fresh_id new_id (cp_taken st) (cp_gen st) = Inr (i, taken, g)"
    and st': "st' = st\<lparr>cp_taken := taken, cp_gen := g,
              cp_layout := copy_labels (cfg_id source) i (cp_layout st),
              cp_log := (cp_log st)\<lparr>bl_created :=
                bl_created (cp_log st) @ [\<lparr>cs_source_id = cfg_id source, cs_id = i\<rparr>]\<rparr>,
              cp_copies := cp_copies st @
                [source\<lparr>cfg_id := i, cfg_name := name, cfg_group := folder\<rparr>]\<rparr>"
    using assms(2) by (auto simp: copy_one_def bindE_Inr)
  have l: "bmap_ok (sl_site_labels (copy_labels a i l))" "fixed_part (copy_labels a i l) = fixed_part l"
    if "bmap_ok (sl_site_labels l)" for a l
    using that by (auto simp: copy_labels_def fixed_part_def split: option.split)
  show ?thesis
    using assms(1) fresh_id_Inr [OF i] l by (auto simp: copying_inv_def st' is_local_def)
qed

lemma end_copying_inv:
  "tree_inv locals fixed t \<Longrightarrow> copying_inv t st \<Longrightarrow> tree_inv locals fixed (end_copying t st)"
  by (auto simp: tree_inv_def copying_inv_def end_copying_def local_part_append)
     (simp add: local_part_def filter_empty_conv)

lemma start_copying_inv: "tree_inv locals fixed t \<Longrightarrow> copying_inv t (start_copying t)"
  by (simp add: copying_inv_def start_copying_def tree_inv_def)

lemma copy_sites_inv:
  assumes "tree_inv locals fixed t" and "copy_sites new_id items t = Inr t'"
  shows "tree_inv locals fixed t'"
proof -
  obtain st where st: "foldE (copy_item_step new_id (t_sites t)) items (start_copying t) = Inr st"
    "t' = end_copying t st"
    using assms(2) by (auto simp: copy_sites_def bindE_Inr)
  have "copying_inv t st"
    by (rule foldE_inv [where P = "copying_inv t", OF _ start_copying_inv [OF assms(1)] st(1)])
       (auto simp: copy_item_step_def bindE_Inr split: if_splits intro: copy_one_inv)
  then show ?thesis using end_copying_inv assms(1) st(2) by blast
qed


text \<open>Folder operations change a site's folder at most.\<close>

definition unfiled :: "connection_config \<Rightarrow> connection_config" where
  "unfiled s = s\<lparr>cfg_group := None\<rparr>"

lemma move_group_simps [simp]:
  "cfg_id (move_group f s) = cfg_id s" "is_local (move_group f s) = is_local s"
  "unfiled (move_group f s) = unfiled s" "is_local s \<Longrightarrow> move_group f s = s"
  by (auto simp: move_group_def moved_group_def is_local_def unfiled_def site_folder_def split: option.split)

lemma lift_site_simps [simp]:
  "cfg_id (lift_site p s) = cfg_id s" "is_local (lift_site p s) = is_local s"
  "unfiled (lift_site p s) = unfiled s" "is_local s \<Longrightarrow> lift_site p s = s"
  by (auto simp: lift_site_def is_local_def unfiled_def site_folder_def)

lemma remap_layout_simps [simp]:
  "sl_site_labels (remap_layout l f) = sl_site_labels l" "fixed_part (remap_layout l f) = fixed_part l"
  "sl_labels (remap_layout l f) = sl_labels l"
  by (simp_all add: remap_layout_def fixed_part_def)

lemma remap_paths_Inr:
  assumes "remap_paths ms t = Inr t'"
  shows "t_sites t' = map (move_group (moved_path (moves_lookup ms))) (t_sites t) \<or> ms = [] \<and> t' = t"
    and "t_layout t' = remap_layout (t_layout t) (moved_path (moves_lookup ms)) \<or> ms = [] \<and> t' = t"
    and "bl_created (t_log t') = bl_created (t_log t) \<and> t_gen t' = t_gen t"
  using assms by (auto simp: remap_paths_def bindE_Inr log_remap_def Let_def split: if_splits)

lemma remap_paths_inv:
  assumes "tree_inv locals fixed t" and "remap_paths ms t = Inr t'"
  shows "tree_inv locals fixed t'"
proof -
  have "map cfg_id (map (move_group f) sites) = map cfg_id sites" for f sites by simp
  moreover have "local_part (map (move_group f) sites) = local_part sites" for f sites
    by (rule local_part_map) simp_all
  ultimately show ?thesis
    using assms(1) remap_paths_Inr(1,2) [OF assms(2)] by (auto simp: tree_inv_def comp_def)
qed

lemma rename_folder_inv:
  assumes "tree_inv locals fixed t" and "rename_folder path name merge t = Inr t'"
  shows "tree_inv locals fixed t'"
  using assms by (auto simp: rename_folder_def bindE_Inr Let_def split: if_splits option.splits
      intro: remap_paths_inv)

lemma move_folder_inv:
  assumes "tree_inv locals fixed t" and "move_folder path to merge t = Inr t'"
  shows "tree_inv locals fixed t'"
  using assms by (auto simp: move_folder_def bindE_Inr split: if_splits option.splits
      intro: remap_paths_inv)

lemma copy_folder_inv:
  assumes "tree_inv locals fixed t" and "copy_folder new_id path to name t = Inr t'"
  shows "tree_inv locals fixed t'"
proof -
  obtain f st folders labels where
    st: "foldE (copy_folder_step new_id f) (t_sites t) (start_copying t) = Inr st" and
    t': "t' = (end_copying t st)\<lparr>t_layout := (t_layout (end_copying t st))\<lparr>sl_folders := folders,
           sl_folder_labels := labels\<rparr>\<rparr>"
    using assms(2) by (auto simp: copy_folder_def bindE_Inr Let_def split: if_splits option.splits)
  have "copying_inv t st"
    by (rule foldE_inv [where P = "copying_inv t", OF _ start_copying_inv [OF assms(1)] st])
       (auto simp: copy_folder_step_def bindE_Inr split: option.splits intro: copy_one_inv)
  then have "tree_inv locals fixed (end_copying t st)" using end_copying_inv assms(1) by blast
  then show ?thesis by (simp add: t' tree_inv_def fixed_part_def)
qed

lemma delete_folder_inv:
  assumes "tree_inv locals fixed t" and "delete_folder path keep t = Inr t'"
  shows "tree_inv locals fixed t'"
proof (cases keep)
  case False
  have "local_part (filter (\<lambda>s. \<not> inside (site_folder s) p) sites) = local_part sites" for p sites
    by (rule local_part_filter) (simp add: site_folder_def inside_def)
  with False assms show ?thesis
    by (auto simp: delete_folder_def bindE_Inr Let_def tree_inv_def fixed_part_def distinct_map_filter)
next
  case True
  then obtain p ms l where r: "remap_paths ms (t\<lparr>t_sites := map (lift_site p) (t_sites t), t_layout := l\<rparr>) = Inr t'"
    "sl_site_labels l = sl_site_labels (t_layout t)" "fixed_part l = fixed_part (t_layout t)"
    using assms(2) by (auto simp: delete_folder_def bindE_Inr Let_def fixed_part_def)
  have "local_part (map (lift_site p) sites) = local_part sites" for sites
    by (rule local_part_map) simp_all
  then have "tree_inv locals fixed (t\<lparr>t_sites := map (lift_site p) (t_sites t), t_layout := l\<rparr>)"
    using assms(1) r by (simp add: tree_inv_def comp_def)
  then show ?thesis using r(1) remap_paths_inv by blast
qed

lemma set_label_keeps:
  assumes "set_label sites ids folders label l = Inr l'" and "bmap_ok (sl_site_labels l)"
  shows "bmap_ok (sl_site_labels l') \<and> fixed_part l' = fixed_part l"
proof -
  let ?P = "\<lambda>x. bmap_ok (sl_site_labels x) \<and> fixed_part x = fixed_part l"
  obtain m where m: "foldE (\<lambda>i l. bindE (find_index sites i)
      (\<lambda>_. Inr (l\<lparr>sl_site_labels := put_label i label (sl_site_labels l)\<rparr>))) ids l = Inr m"
    "foldE (\<lambda>raw l. bindE (existing_folder l raw)
      (\<lambda>path. Inr (l\<lparr>sl_folder_labels := put_label path label (sl_folder_labels l)\<rparr>))) folders m = Inr l'"
    using assms(1) by (auto simp: set_label_def bindE_Inr)
  have "?P m"
    by (rule foldE_inv [where P = ?P, OF _ _ m(1)])
       (auto simp: bindE_Inr put_label_def fixed_part_def assms(2) split: option.split)
  show ?thesis
    by (rule foldE_inv [where P = ?P, OF _ \<open>?P m\<close> m(2)]) (auto simp: bindE_Inr fixed_part_def)
qed

lemma apply_one_inv:
  assumes inv: "tree_inv locals fixed t" and r: "apply_one new_id op t = Inr t'"
  shows "tree_inv locals fixed t'"
proof (cases op)
  case (MoveSites ids to)
  then show ?thesis using inv r move_sites_keeps
    by (auto simp: with_sites_def bindE_Inr tree_inv_def)
next
  case (RenameSite i name)
  then show ?thesis using inv r rename_site_keeps
    by (auto simp: with_sites_def bindE_Inr tree_inv_def)
next
  case (DeleteSites ids)
  then obtain sites' where s: "delete_sites (t_sites t) ids = Inr sites'" "t' = t\<lparr>t_sites := sites'\<rparr>"
    using r by (auto simp: with_sites_def bindE_Inr)
  note d = delete_sites_keeps [OF s(1)]
  have "local_part sites' = local_part (t_sites t)"
    using d local_part_filter [of "\<lambda>s. cfg_id s \<notin> set ids" "t_sites t"] by (auto simp: is_local_def)
  then show ?thesis using inv d s(2) by (auto simp: tree_inv_def distinct_map_filter)
next
  case (SetLabel sites folders label)
  then show ?thesis using inv r set_label_keeps
    by (fastforce simp: with_layout_def bindE_Inr tree_inv_def)
next
  case (CreateFolder path)
  then show ?thesis using inv r
    by (auto simp: with_layout_def create_folder_def bindE_Inr tree_inv_def fixed_part_def)
next
  case (SetFavorites items)
  then show ?thesis using inv r
    by (auto simp: with_layout_def set_favorites_def bindE_Inr tree_inv_def fixed_part_def split: if_splits)
next
  case (SetLabelDefs labels)
  then show ?thesis using inv r
    by (auto simp: with_layout_def set_label_defs_def bindE_Inr tree_inv_def fixed_part_def split: if_splits)
next
  case (CopySites items)
  then show ?thesis using inv r copy_sites_inv by simp blast
next
  case (RenameFolder path name merge)
  then show ?thesis using inv r rename_folder_inv by simp blast
next
  case (MoveFolder path to merge)
  then show ?thesis using inv r move_folder_inv by simp blast
next
  case (CopyFolder path to name)
  then show ?thesis using inv r copy_folder_inv by simp blast
next
  case (DeleteFolder path keep)
  then show ?thesis using inv r delete_folder_inv by simp blast
qed

lemma run_batch_inv:
  assumes "run_batch new_id ops sites l g = Inr (before, t)"
    and "distinct (map cfg_id sites)" and "bmap_ok (sl_site_labels l)"
  shows "before = reconciled l sites \<and> layout_ok (t_sites t) (t_layout t) \<and>
    distinct (map cfg_id (t_sites t)) \<and> local_part (t_sites t) = local_part sites \<and>
    bmap_ok (sl_site_labels (t_layout t)) \<and>
    sl_version (t_layout t) = sl_version before \<and> sl_migrated (t_layout t) = sl_migrated before \<and>
    sl_large (t_layout t) = sl_large before \<and> sl_extra (t_layout t) = sl_extra before"
proof -
  let ?t = "\<lparr>t_sites = sites, t_layout = reconciled l sites, t_log = empty_log, t_gen = g\<rparr>"
  obtain u where u: "before = reconciled l sites" "foldE (apply_one new_id) ops ?t = Inr u"
    "t = u\<lparr>t_layout := reconciled (t_layout u) (t_sites u)\<rparr>"
    using assms(1) by (auto simp: run_batch_def bindE_Inr Let_def split: if_splits)
  let ?inv = "tree_inv (local_part sites) (fixed_part (reconciled l sites))"
  have "bmap_ok (sl_site_labels (reconciled l sites))"
    using reconciled_ok [OF assms(3)] by (simp add: layout_ok_def)
  then have start: "?inv ?t" using assms(2) by (simp add: tree_inv_def)
  have "?inv u" by (rule foldE_inv [where P = ?inv, OF apply_one_inv start u(2)])
  then have inv: "?inv u" .
  have v: "sl_version (reconciled l sites) \<noteq> 0"
    using reconciled_ok [OF assms(3)] by (simp add: layout_ok_def)
  have keep: "sl_migrated (reconciled x y) = sl_migrated x" "sl_large (reconciled x y) = sl_large x"
    "sl_extra (reconciled x y) = sl_extra x"
    "sl_version x \<noteq> 0 \<Longrightarrow> sl_version (reconciled x y) = sl_version x" for x y
    by (simp_all add: reconciled_def Let_def)
  have "fixed_part (t_layout u) = fixed_part (reconciled l sites)" using inv by (simp add: tree_inv_def)
  then have "sl_version (t_layout u) = sl_version (reconciled l sites)"
    "sl_migrated (t_layout u) = sl_migrated (reconciled l sites)"
    "sl_large (t_layout u) = sl_large (reconciled l sites)" "sl_extra (t_layout u) = sl_extra (reconciled l sites)"
    by (simp_all add: fixed_part_def)
  then show ?thesis
    using inv reconciled_ok [of "t_layout u" "t_sites u"] u(1,3) v keep
    by (auto simp: tree_inv_def layout_ok_def)
qed

subsection \<open>Moving and deleting folders\<close>

lemma moved_path_single_fun: "moved_path (moves_lookup [(old, new)]) = prefix_map old new"
  by (rule ext) (rule moved_path_single)

lemma find_sibling_None:
  assumes "find_sibling_ci fs parent name exclude = None" and "f \<in> set fs" and "Some f \<noteq> exclude"
    and "parent_path f = parent"
  shows "base_name f \<noteq> name"
  using assms by (auto simp: find_sibling_ci_def find_None_iff)

text \<open>A free target keeps the moved folders apart from all others.\<close>

lemma follow_inj:
  assumes closed: "\<And>f a. f \<in> set fs \<Longrightarrow> is_same_or_under f a \<Longrightarrow> a \<in> set fs"
    and free: "target \<notin> set fs"
  shows "inj_on (follow (prefix_map path target)) (set fs)"
proof (rule inj_onI)
  fix f g assume f: "f \<in> set fs" and g: "g \<in> set fs"
    and eq: "follow (prefix_map path target) f = follow (prefix_map path target) g"
  have moved: "follow (prefix_map path target) h = target @ drop (length path) h \<and>
      is_same_or_under (target @ drop (length path) h) target" if "is_same_or_under h path" for h
    using that by (auto simp: follow_def prefix_map_def under_iff)
  have kept: "follow (prefix_map path target) h = h" if "\<not> is_same_or_under h path" for h
    using that by (simp add: follow_def prefix_map_def)
  have out: "\<not> is_same_or_under h target" if "h \<in> set fs" for h using that closed free by blast
  show "f = g"
  proof (cases "is_same_or_under f path"; cases "is_same_or_under g path")
    assume u: "is_same_or_under f path" "is_same_or_under g path"
    then have "drop (length path) f = drop (length path) g" using eq moved by simp
    with u show "f = g" by (auto simp: under_iff)
  qed (use eq moved kept out f g in metis)+
qed

lemma length_bs_of_inj: "distinct fs \<Longrightarrow> inj_on h (set fs) \<Longrightarrow> length (bs_of (map h fs)) = length fs"
proof -
  assume d: "distinct fs" and i: "inj_on h (set fs)"
  have "distinct (bs_of (map h fs))" using bset_ok_of [of "map h fs"] by (simp add: bset_ok_def)
  then have "length (bs_of (map h fs)) = card (set (bs_of (map h fs)))" by (metis distinct_card)
  also have "\<dots> = length fs" using d i by (simp add: card_image distinct_card)
  finally show ?thesis .
qed

lemma remap_free_target:
  assumes "folders_ok sites (sl_folders (t_layout t))" and "target \<notin> set (sl_folders (t_layout t))"
    and "remap_paths [(path, target)] t = Inr t'"
  shows "length (sl_folders (t_layout t')) = length (sl_folders (t_layout t))"
proof -
  have "sl_folders (t_layout t') = bs_of (map (follow (prefix_map path target)) (sl_folders (t_layout t)))"
    using remap_paths_Inr(2) [OF assms(3)] by (simp add: remap_layout_def moved_path_single_fun)
  moreover have "inj_on (follow (prefix_map path target)) (set (sl_folders (t_layout t)))"
    using assms(1,2) by (intro follow_inj) (auto simp: folders_ok_def)
  moreover have "distinct (sl_folders (t_layout t))"
    using assms(1) by (simp add: folders_ok_def bset_ok_def)
  ultimately show ?thesis by (simp add: length_bs_of_inj)
qed

text \<open>
  Moving or renaming a folder without \<open>merge\<close> swallows nothing: the number of folders stays
  the same, so no folder of the layout ends up at a place another one already has; every site
  keeps everything but its folder, and a site outside the moved folder keeps that too.
\<close>

theorem move_without_merge:
  assumes ok: "folders_ok sites (sl_folders (t_layout t))"
    and r: "apply_one new_id op t = Inr t'"
    and op: "op \<in> {MoveFolder raw to False, RenameFolder raw name False}"
  shows "length (sl_folders (t_layout t')) = length (sl_folders (t_layout t)) \<and>
     (\<exists>p. normalize_folder_path raw = Inr (Some p) \<and>
        list_all2 (\<lambda>s s'. unfiled s' = unfiled s \<and> (\<not> inside (site_folder s) p \<longrightarrow> s' = s))
          (t_sites t) (t_sites t'))"
proof -
  let ?rel = "\<lambda>p s s'. unfiled s' = unfiled s \<and> (\<not> inside (site_folder s) p \<longrightarrow> s' = s)"
  obtain p where p: "normalize_folder_path raw = Inr (Some p)" and
    cases: "t' = t \<or> (\<exists>target. target \<notin> set (sl_folders (t_layout t)) \<and> remap_paths [(p, target)] t = Inr t')"
    using op
  proof
    assume "op = MoveFolder raw to False"
    then have m: "move_folder raw to False t = Inr t'" using r by simp
    then obtain p q where p: "existing_folder (t_layout t) raw = Inr p" "\<not> inside q p"
      "t' = t \<or> find_sibling_ci (sl_folders (t_layout t)) q (base_name p) None = None \<and>
                remap_paths [(p, tree_join q (base_name p))] t = Inr t'"
      by (auto simp: move_folder_def bindE_Inr split: if_splits option.splits)
    have "tree_join q (base_name p) \<notin> set (sl_folders (t_layout t))"
      if "find_sibling_ci (sl_folders (t_layout t)) q (base_name p) None = None"
      using find_sibling_None [OF that, of "tree_join q (base_name p)"]
        parent_tree_join [OF base_name_free, of q p] by auto
    with p show thesis by (intro that [of p]) (auto simp: existing_folder_def bindE_Inr split: if_splits)
  next
    assume "op \<in> {RenameFolder raw name False}"
    then have m: "rename_folder raw name False t = Inr t'" using r by simp
    then obtain p n where p: "existing_folder (t_layout t) raw = Inr p" "validate_folder_name name = Inr n"
      "t' = t \<or> tree_join (parent_path p) n \<noteq> p \<and>
         find_sibling_ci (sl_folders (t_layout t)) (parent_path p) n (Some p) = None \<and>
         remap_paths [(p, tree_join (parent_path p) n)] t = Inr t'"
      by (auto simp: rename_folder_def bindE_Inr Let_def split: if_splits option.splits)
    have "CHR ''/'' \<notin> set n" using validate_folder_name_ok [OF p(2)] by (auto simp: folder_name_ok_def)
    then have pn: "parent_path (tree_join (parent_path p) n) = parent_path p"
      "base_name (tree_join (parent_path p) n) = n" using parent_tree_join by blast+
    have "tree_join (parent_path p) n \<notin> set (sl_folders (t_layout t))"
      if "tree_join (parent_path p) n \<noteq> p"
        "find_sibling_ci (sl_folders (t_layout t)) (parent_path p) n (Some p) = None"
      using find_sibling_None [OF that(2), of "tree_join (parent_path p) n"] that(1) pn by auto
    with p show thesis by (intro that [of p]) (auto simp: existing_folder_def bindE_Inr split: if_splits)
  qed
  from cases show ?thesis
  proof
    assume "t' = t"
    then show ?thesis using p by (auto simp: list_all2_same)
  next
    assume "\<exists>target. target \<notin> set (sl_folders (t_layout t)) \<and> remap_paths [(p, target)] t = Inr t'"
    then obtain target where t: "target \<notin> set (sl_folders (t_layout t))" "remap_paths [(p, target)] t = Inr t'"
      by blast
    have "t_sites t' = map (move_group (prefix_map p target)) (t_sites t)"
      using remap_paths_Inr(1) [OF t(2)] by (simp add: moved_path_single_fun)
    moreover have "?rel p s (move_group (prefix_map p target) s)" for s
      by (auto simp: move_group_def moved_group_def prefix_map_def inside_def unfiled_def
          split: option.splits if_splits bind_splits)
    ultimately show ?thesis
      using p remap_free_target [OF ok t] by (auto simp: list_all2_map2 list_all2_same)
  qed
qed

definition demo_sites :: "connection_config list" where
  "demo_sites = [demo_site ''s1'' (Some ''A/B''), demo_site ''s2'' None, demo_site ''s3'' (Some ''A'')]"

definition demo_tree :: "nat tree" where
  "demo_tree = \<lparr>t_sites = demo_sites, t_layout = reconciled default_layout demo_sites,
     t_log = empty_log, t_gen = 0\<rparr>"

definition demo_new_id :: "nat \<Rightarrow> string \<times> nat" where
  "demo_new_id n = (''site-'' @ show_nat n, n + 1)"

definition is_ok :: "'e + 'a \<Rightarrow> bool" where
  "is_ok r = (case r of Inr _ \<Rightarrow> True | Inl _ \<Rightarrow> False)"

lemma is_okD: "is_ok r \<Longrightarrow> \<exists>x. r = Inr x"
  by (cases r) (simp_all add: is_ok_def)

lemma remap_paths_is_ok:
  "is_ok (mapE check_len (List.map_filter (moved_group (moved_path (moves_lookup ms))) (t_sites t))) \<Longrightarrow>
   is_ok (mapE check_len (List.map_filter (moved_path (moves_lookup ms)) (sl_folders (t_layout t)))) \<Longrightarrow>
   is_ok (remap_paths ms t)"
  by (auto simp: remap_paths_def Let_def is_ok_def split: sum.splits)

theorem move_without_merge_witness:
  "\<exists>t'. apply_one demo_new_id (MoveFolder ''A/B'' None False) demo_tree = Inr t' \<and>
     length (sl_folders (t_layout t')) = length (sl_folders (t_layout demo_tree))"
proof -
  have "existing_folder (t_layout demo_tree) ''A/B'' = Inr ''A/B''"
    "normalize_folder_path (or_empty None) = Inr None" "parent_path ''A/B'' = Some ''A''"
    "find_sibling_ci (sl_folders (t_layout demo_tree)) None (base_name ''A/B'') None = None"
    "tree_join None (base_name ''A/B'') = ''B''"
    by code_simp+
  moreover have "is_ok (remap_paths [(''A/B'', ''B'')] demo_tree)"
    by (rule remap_paths_is_ok) code_simp+
  ultimately have "is_ok (apply_one demo_new_id (MoveFolder ''A/B'' None False) demo_tree)"
    by (simp add: move_folder_def inside_def)
  then obtain t' where r: "apply_one demo_new_id (MoveFolder ''A/B'' None False) demo_tree = Inr t'"
    using is_okD by blast
  have "folders_ok demo_sites (sl_folders (t_layout demo_tree))"
    using reconciled_ok [of default_layout demo_sites] by (simp add: demo_tree_def layout_ok_def default_layout_def)
  then show ?thesis using move_without_merge [OF _ r, of _ "''A/B''" None] r by blast
qed

text \<open>
  Deleting a folder: with its contents it removes exactly the sites filed in it or below
  it; keeping the contents it removes no site, changes nothing but the folder of a site, and
  not even that for a site outside the folder.
\<close>

theorem delete_folder_sites:
  assumes "delete_folder raw keep t = Inr t'"
  shows "\<exists>p. normalize_folder_path raw = Inr (Some p) \<and>
     (if keep
      then list_all2 (\<lambda>s s'. unfiled s' = unfiled s \<and> (\<not> inside (site_folder s) p \<longrightarrow> s' = s))
             (t_sites t) (t_sites t')
      else t_sites t' = filter (\<lambda>s. \<not> inside (site_folder s) p) (t_sites t))"
proof (cases keep)
  case False
  then show ?thesis
    using assms by (auto simp: delete_folder_def existing_folder_def bindE_Inr Let_def split: if_splits)
next
  case True
  obtain p fs cs l where p: "normalize_folder_path raw = Inr (Some p)" and
    r: "remap_paths (lift_moves fs p cs) (t\<lparr>t_sites := map (lift_site p) (t_sites t), t_layout := l\<rparr>) = Inr t'"
    using assms True by (auto simp: delete_folder_def existing_folder_def bindE_Inr Let_def split: if_splits)
  let ?f = "moved_path (moves_lookup (lift_moves fs p cs))"
  have none: "?f g = None" if "\<not> is_same_or_under g p" for g
  proof -
    have "moves_lookup (lift_moves fs p cs) a = None" if "is_same_or_under g a" for a
    proof (rule ccontr)
      assume "moves_lookup (lift_moves fs p cs) a \<noteq> None"
      then have "a \<in> fst ` set (lift_moves fs p cs)"
        by (auto simp: moves_lookup_def dest!: map_of_SomeD intro: rev_image_eqI)
      then obtain n where "a = p @ ''/'' @ n" by (auto simp: lift_moves_def tree_join_def)
      then have "is_same_or_under a p" by (simp add: under_iff)
      with \<open>is_same_or_under g a\<close> \<open>\<not> is_same_or_under g p\<close> show False using under_trans by blast
    qed
    then show ?thesis by (simp add: moved_path_None)
  qed
  have out: "move_group ?f (lift_site p s) = s" if "\<not> inside (site_folder s) p" for s
  proof -
    have "lift_site p s = s" using that by (auto simp: lift_site_def inside_def)
    moreover have "moved_group ?f s = None"
      using that none by (cases "site_folder s") (auto simp: moved_group_def inside_def)
    ultimately show ?thesis by (simp add: move_group_def)
  qed
  have out1: "lift_site p s = s" if "\<not> inside (site_folder s) p" for s
    using that by (auto simp: lift_site_def inside_def)
  have "t_sites t' = map (move_group ?f) (map (lift_site p) (t_sites t)) \<or> t_sites t' = map (lift_site p) (t_sites t)"
    using remap_paths_Inr(1) [OF r] by auto
  then show ?thesis
    using p True out out1 by (auto simp: list_all2_map2 list_all2_same)
qed


theorem delete_folder_sites_witness:
  "\<exists>t'. delete_folder ''A'' False demo_tree = Inr t' \<and>
     t_sites t' = filter (\<lambda>s. \<not> inside (site_folder s) ''A'') (t_sites demo_tree)"
proof -
  have "is_ok (delete_folder ''A'' False demo_tree)" by code_simp
  then obtain t' where r: "delete_folder ''A'' False demo_tree = Inr t'" using is_okD by blast
  have "normalize_folder_path ''A'' = Inr (Some ''A'')" by code_simp
  with delete_folder_sites [OF r] r show ?thesis by simp
qed

end
