(* ===== verification/SiteUndo.thy ===== *)
theory SiteUndo
  imports SiteOps
begin

section \<open>Batches of changes and their undo\<close>

text \<open>
  Models \<open>apply_ops\<close>, \<open>diff_sites\<close> and \<open>undo\<close> of
  \<open>crates/rustscp-core/src/site_layout.rs\<close>. A site is compared by its JSON value, built by
  \<open>site_value\<close> from the \<open>serde\<close> attributes of \<open>ConnectionConfig\<close> and \<open>AuthMethod\<close> in
  \<open>types.rs\<close>.
\<close>

subsection \<open>The JSON value of a site\<close>

definition opt_json :: "string option \<Rightarrow> json" where
  "opt_json r = (case r of Some s \<Rightarrow> JStr s | None \<Rightarrow> JNull)"

definition skip_none :: "string \<Rightarrow> string option \<Rightarrow> (string \<times> json) list" where
  \<comment> \<open>\<open>skip_serializing_if = "Option::is_none"\<close>\<close>
  "skip_none key r = (case r of Some s \<Rightarrow> [(key, JStr s)] | None \<Rightarrow> [])"

fun auth_json :: "auth_method \<Rightarrow> json" where
  "auth_json Auth_None = JObj [(''type'', JStr ''None'')]"
| "auth_json (Password p) = JObj [(''type'', JStr ''Password''), (''value'', JStr p)]"
| "auth_json (PrivateKey path pass data) =
     JObj [(''type'', JStr ''PrivateKey''),
           (''value'', JObj ([(''path'', JStr path), (''passphrase'', opt_json pass)]
              @ skip_none ''key_data'' data))]"
| "auth_json (KeyringRef r) = JObj [(''type'', JStr ''KeyringRef''), (''value'', JStr r)]"

fun mode_json :: "sftp_mode \<Rightarrow> json" where
  "mode_json Auto = JStr ''auto''"
| "mode_json SubsystemOnly = JStr ''subsystem_only''"

definition site_value :: "connection_config \<Rightarrow> json" where
  "site_value s =
     JObj ([(''id'', JStr (cfg_id s)), (''name'', JStr (cfg_name s)),
            (''protocol'', JStr (protocol_text (cfg_protocol s))), (''host'', JStr (cfg_host s)),
            (''port'', JNum (uint (cfg_port s))), (''username'', JStr (cfg_username s)),
            (''auth'', auth_json (cfg_auth s)), (''remote_root'', JStr (cfg_remote_root s))]
           @ skip_none ''tls_fingerprint'' (tls_fingerprint s)
           @ (if is_auto (cfg_sftp_mode s) then [] else [(''sftp_mode'', mode_json (cfg_sftp_mode s))])
           @ skip_none ''group'' (cfg_group s))"

subsection \<open>Snapshots\<close>

record undo_snapshot =
  sites_before :: "(string \<times> connection_config option) list"
  sites_after :: "(string \<times> json option) list"
  layout_before :: site_layout
  layout_after :: site_layout
  folder_remaps :: "folder_remap list"

definition site_records :: "undo_snapshot \<Rightarrow> nat" where
  "site_records u =
     length (sites_before u) + length (sites_after u) +
     sum_list (map (\<lambda>r. case fr_site_ids r of Some ids \<Rightarrow> length ids | None \<Rightarrow> 0) (folder_remaps u))"

record apply_outcome =
  ao_sites_changed :: bool
  ao_layout_changed :: bool
  ao_created :: "created_site list"
  ao_undo :: undo_snapshot

definition site_at :: "connection_config list \<Rightarrow> string \<Rightarrow> connection_config option" where
  "site_at sites i = map_option (\<lambda>k. sites ! k) (site_index sites i)"

text \<open>The ids of both lists in order, each once, with \<open>seen\<close> as the state of the loop.\<close>

fun diff_loop ::
  "connection_config list \<Rightarrow> connection_config list \<Rightarrow> string list \<Rightarrow> string list
   \<Rightarrow> (string \<times> connection_config option) list \<times> (string \<times> json option) list" where
  "diff_loop old new [] seen = ([], [])"
| "diff_loop old new (i # is) seen =
     (if i \<in> set seen then diff_loop old new is seen
      else let (before, after) = diff_loop old new is (i # seen);
               old_site = site_at old i;
               new_value = map_option site_value (site_at new i)
           in if map_option site_value old_site \<noteq> new_value
              then ((i, old_site) # before, (i, new_value) # after) else (before, after))"

definition diff_sites ::
  "connection_config list \<Rightarrow> connection_config list
   \<Rightarrow> (string \<times> connection_config option) list \<times> (string \<times> json option) list" where
  "diff_sites old new = diff_loop old new (map cfg_id old @ map cfg_id new) []"

definition retain_changed :: "string list \<Rightarrow> folder_remap \<Rightarrow> folder_remap" where
  "retain_changed changed r =
     r\<lparr>fr_site_ids := map_option (filter (\<lambda>i. i \<in> set changed)) (fr_site_ids r)\<rparr>"

text \<open>\<open>apply_ops\<close>: the result, and the sites and the layout after the call.\<close>

definition apply_ops ::
  "('g \<Rightarrow> string \<times> 'g) \<Rightarrow> site_tree_op list \<Rightarrow> connection_config list \<Rightarrow> site_layout \<Rightarrow> 'g
   \<Rightarrow> apply_outcome site_result \<times> connection_config list \<times> site_layout" where
  "apply_ops new_id ops sites l g =
     (case run_batch new_id ops sites l g of
        Inl e \<Rightarrow> (Inl e, sites, l)
      | Inr (before, t) \<Rightarrow>
          let (sb, sa) = diff_sites sites (t_sites t);
              undo = \<lparr>sites_before = sb, sites_after = sa, layout_before = before,
                      layout_after = t_layout t,
                      folder_remaps = map (retain_changed (map fst sb)) (bl_remaps (t_log t))\<rparr>
          in (Inr \<lparr>ao_sites_changed = (sb \<noteq> []), ao_layout_changed = (t_layout t \<noteq> l),
                   ao_created = bl_created (t_log t), ao_undo = undo\<rparr>,
              t_sites t, t_layout t))"

subsection \<open>Three-way restores\<close>

definition restore_set :: "string bset \<Rightarrow> string bset \<Rightarrow> string bset \<Rightarrow> string bset" where
  "restore_set current before after =
     fold (\<lambda>key cur.
         let was = key \<in> set before in
         if (key \<in> set cur) \<noteq> was then (if was then bs_insert key cur else bs_remove key cur) else cur)
       (bs_of (filter (\<lambda>k. k \<notin> set after) before @ filter (\<lambda>k. k \<notin> set before) after)) current"

definition insert_at :: "nat \<Rightarrow> 'a \<Rightarrow> 'a list \<Rightarrow> 'a list" where
  "insert_at i x xs = take i xs @ x # drop i xs"

definition restore_list :: "('a \<Rightarrow> 'k) \<Rightarrow> 'a list \<Rightarrow> 'a list \<Rightarrow> 'a list \<Rightarrow> 'a list" where
  "restore_list key current before after =
     (if current = after then before
      else
        let dropped = fold (\<lambda>item cur.
                if find (\<lambda>b. key b = key item) before \<noteq> Some item
                then filter (\<lambda>c. c \<noteq> item) cur else cur) after current
        in fold (\<lambda>(i, item) cur.
              if find (\<lambda>a. key a = key item) after \<noteq> Some item \<and> \<not> list_ex (\<lambda>c. key c = key item) cur
              then insert_at (min i (length cur)) item cur else cur)
            (enumerate 0 before) dropped)"

definition restore_map ::
  "(string, string) bmap \<Rightarrow> (string, string) bmap \<Rightarrow> (string, string) bmap \<Rightarrow> (string, string) bmap" where
  "restore_map current before after =
     fold (\<lambda>key cur.
         let b = bm_get before key; a = bm_get after key in
         if b \<noteq> a \<and> bm_get cur key = a
         then (case b of Some v \<Rightarrow> bm_insert key v cur | None \<Rightarrow> bm_remove key cur) else cur)
       (bs_of (map fst before @ map fst after)) current"

subsection \<open>Undo\<close>

record undo_work =
  uw_restored :: nat
  uw_skipped :: nat
  uw_replace :: "(nat \<times> connection_config) list"
  uw_remove :: "nat list"
  uw_insert :: "connection_config list"
  uw_skipped_ids :: "string list"

definition undo_site ::
  "connection_config list \<Rightarrow> (string \<times> json option) list \<Rightarrow> string \<times> connection_config option
   \<Rightarrow> undo_work \<Rightarrow> undo_work" where
  "undo_site sites after entry w =
     (let (i, before) = entry;
          expected = Option.bind (map_of (rev after) i) (\<lambda>v. v);
          position = site_index sites i;
          current = map_option (\<lambda>k. site_value (sites ! k)) position
      in if current \<noteq> expected
         then w\<lparr>uw_skipped := uw_skipped w + 1, uw_skipped_ids := i # uw_skipped_ids w\<rparr>
         else (case (before, position) of
                 (Some config, Some k) \<Rightarrow> w\<lparr>uw_replace := uw_replace w @ [(k, config)]\<rparr>
               | (Some config, None) \<Rightarrow> w\<lparr>uw_insert := uw_insert w @ [config]\<rparr>
               | (None, Some k) \<Rightarrow> w\<lparr>uw_remove := k # uw_remove w\<rparr>
               | (None, None) \<Rightarrow> w)\<lparr>uw_restored := uw_restored w + 1\<rparr>)"

definition undo_scan ::
  "undo_snapshot \<Rightarrow> connection_config list \<Rightarrow> undo_work" where
  "undo_scan u sites =
     fold (undo_site sites (sites_after u)) (sites_before u)
       \<lparr>uw_restored = 0, uw_skipped = 0, uw_replace = [], uw_remove = [], uw_insert = [],
        uw_skipped_ids = []\<rparr>"

definition remove_positions :: "nat list \<Rightarrow> 'a list \<Rightarrow> 'a list" where
  "remove_positions ks xs = map snd (filter (\<lambda>(k, _). k \<notin> set ks) (enumerate 0 xs))"

definition undo_sites :: "undo_work \<Rightarrow> connection_config list \<Rightarrow> connection_config list" where
  "undo_sites w sites =
     remove_positions (uw_remove w) (fold (\<lambda>(k, c) ss. ss[k := c]) (uw_replace w) sites) @ uw_insert w"

text \<open>The folder moves that stay because a site they moved was skipped.\<close>

definition kept_remaps :: "undo_snapshot \<Rightarrow> string list \<Rightarrow> folder_remap list" where
  "kept_remaps u skipped =
     (if skipped = [] then []
      else filter (\<lambda>r. case fr_site_ids r of None \<Rightarrow> True
                       | Some ids \<Rightarrow> list_ex (\<lambda>i. i \<in> set skipped) ids) (folder_remaps u))"

definition adjusted_before :: "undo_snapshot \<Rightarrow> string list \<Rightarrow> site_layout" where
  "adjusted_before u skipped =
     fold (\<lambda>r l. remap_layout l (moved_path (moves_lookup (fr_moves r)))) (kept_remaps u skipped)
       (layout_before u)"

definition restore_layout :: "site_layout \<Rightarrow> site_layout \<Rightarrow> site_layout \<Rightarrow> site_layout" where
  "restore_layout l before after =
     l\<lparr>sl_folders := restore_set (sl_folders l) (sl_folders before) (sl_folders after),
       sl_collapsed := restore_set (sl_collapsed l) (sl_collapsed before) (sl_collapsed after),
       sl_favorites := restore_list (\<lambda>f. f) (sl_favorites l) (sl_favorites before) (sl_favorites after),
       sl_recents := restore_list re_id (sl_recents l) (sl_recents before) (sl_recents after),
       sl_site_labels := restore_map (sl_site_labels l) (sl_site_labels before) (sl_site_labels after),
       sl_folder_labels :=
         restore_map (sl_folder_labels l) (sl_folder_labels before) (sl_folder_labels after),
       sl_labels := restore_list ld_id (sl_labels l) (sl_labels before) (sl_labels after)\<rparr>"

text \<open>The report (restored, skipped), the sites and the layout after an undo.\<close>

definition undo ::
  "undo_snapshot \<Rightarrow> connection_config list \<Rightarrow> site_layout
   \<Rightarrow> (nat \<times> nat) \<times> connection_config list \<times> site_layout" where
  "undo u sites l =
     (let w = undo_scan u sites;
          sites' = undo_sites w sites;
          before = adjusted_before u (uw_skipped_ids w);
          l' = restore_layout l before (layout_after u)
      in ((uw_restored w, uw_skipped w), sites', reconciled l' sites'))"

subsection \<open>Sites are compared exactly\<close>

lemma opt_json_inj: "opt_json a = opt_json b \<Longrightarrow> a = b"
  by (auto simp: opt_json_def split: option.splits)

lemma auth_json_inj: "auth_json a = auth_json b \<Longrightarrow> a = b"
  by (cases a; cases b) (auto simp: opt_json_def skip_none_def split: option.splits)

lemma protocol_text_inj: "protocol_text a = protocol_text b \<Longrightarrow> a = b"
  by (cases a; cases b) simp_all

lemma mode_json_inj: "mode_json a = mode_json b \<Longrightarrow> a = b"
  by (cases a; cases b) simp_all

lemma site_value_inj: "site_value a = site_value b \<Longrightarrow> a = b"
proof -
  assume eq: "site_value a = site_value b"
  let ?tail = "\<lambda>s. skip_none ''tls_fingerprint'' (tls_fingerprint s)
           @ (if is_auto (cfg_sftp_mode s) then [] else [(''sftp_mode'', mode_json (cfg_sftp_mode s))])
           @ skip_none ''group'' (cfg_group s)"
  have t: "?tail a = ?tail b" and h: "cfg_id a = cfg_id b" "cfg_name a = cfg_name b"
    "protocol_text (cfg_protocol a) = protocol_text (cfg_protocol b)" "cfg_host a = cfg_host b"
    "uint (cfg_port a) = uint (cfg_port b)" "cfg_username a = cfg_username b"
    "auth_json (cfg_auth a) = auth_json (cfg_auth b)" "cfg_remote_root a = cfg_remote_root b"
    using eq by (auto simp: site_value_def)
  have "tls_fingerprint a = tls_fingerprint b \<and> cfg_sftp_mode a = cfg_sftp_mode b \<and> cfg_group a = cfg_group b"
    using t by (cases "cfg_sftp_mode a"; cases "cfg_sftp_mode b")
      (auto simp: skip_none_def is_auto_def split: option.splits)
  moreover have "cfg_auth a = cfg_auth b" "cfg_protocol a = cfg_protocol b"
    using h auth_json_inj protocol_text_inj by blast+
  moreover have "cfg_port a = cfg_port b" using h by (metis word_of_int_uint)
  ultimately show ?thesis using h by (cases a; cases b) simp
qed

subsection \<open>Restoring what the batch left\<close>

lemma restore_set_back:
  assumes "bset_ok before" and "bset_ok after"
  shows "restore_set after before after = before"
proof -
  let ?f = "\<lambda>key cur. let was = key \<in> set before in
         if (key \<in> set cur) \<noteq> was then (if was then bs_insert key cur else bs_remove key cur) else cur"
  have step: "bset_ok (fold ?f ks cur) \<and>
      (\<forall>x. x \<in> set (fold ?f ks cur) \<longleftrightarrow> (if x \<in> set ks then x \<in> set before else x \<in> set cur))"
    if "bset_ok cur" for ks cur
    using that
  proof (induction ks arbitrary: cur)
    case (Cons k ks)
    have ok: "bset_ok (?f k cur)" using Cons.prems by (simp add: Let_def)
    have m: "x \<in> set (?f k cur) \<longleftrightarrow> (if x = k then x \<in> set before else x \<in> set cur)" for x
      by (auto simp: Let_def)
    show ?case using Cons.IH [OF ok] m by (auto simp del: Let_def)
  qed simp
  let ?ks = "bs_of (filter (\<lambda>k. k \<notin> set after) before @ filter (\<lambda>k. k \<notin> set before) after)"
  have ks: "x \<in> set ?ks \<longleftrightarrow> (x \<in> set before) \<noteq> (x \<in> set after)" for x by auto
  note s = step [OF assms(2), of ?ks]
  have "x \<in> set (fold ?f ?ks after) \<longleftrightarrow> x \<in> set before" for x
    using s ks [of x] by (cases "x \<in> set before"; cases "x \<in> set after") simp_all
  then show ?thesis
    unfolding restore_set_def by (intro bset_eqI) (use s assms in auto)
qed

lemma restore_list_back [simp]: "restore_list key after before after = before"
  by (simp add: restore_list_def)

lemma restore_map_back:
  assumes "bmap_ok before" and "bmap_ok after"
  shows "restore_map after before after = before"
proof -
  let ?f = "\<lambda>key cur. let b = bm_get before key; a = bm_get after key in
         if b \<noteq> a \<and> bm_get cur key = a
         then (case b of Some v \<Rightarrow> bm_insert key v cur | None \<Rightarrow> bm_remove key cur) else cur"
  have step: "bmap_ok (fold ?f ks cur) \<and>
      (\<forall>x. bm_get (fold ?f ks cur) x = (if x \<in> set ks then bm_get before x else bm_get cur x))"
    if "bmap_ok cur" "\<forall>x. bm_get cur x = bm_get after x \<or> bm_get cur x = bm_get before x" for ks cur
    using that
  proof (induction ks arbitrary: cur)
    case (Cons k ks)
    have ok: "bmap_ok (?f k cur)" using Cons.prems by (simp add: Let_def split: option.split)
    have m: "bm_get (?f k cur) x = (if x = k then bm_get before x else bm_get cur x)" for x
      using Cons.prems(2) by (auto simp: Let_def split: option.split) (metis)+
    have "\<forall>x. bm_get (?f k cur) x = bm_get after x \<or> bm_get (?f k cur) x = bm_get before x"
      using m Cons.prems(2) by simp
    then show ?case using Cons.IH [OF ok] m by (auto simp del: Let_def)
  qed simp
  let ?ks = "bs_of (map fst before @ map fst after)"
  note s = step [OF assms(2), of ?ks]
  have "bm_get (restore_map after before after) = bm_get before"
  proof
    fix x
    show "bm_get (restore_map after before after) x = bm_get before x"
      using s bm_get_None [of before x] bm_get_None [of after x] unfolding restore_map_def by auto
  qed
  moreover have "bmap_ok (restore_map after before after)" using s unfolding restore_map_def by simp
  ultimately show ?thesis using assms(1) by (intro bmap_eqI)
qed

lemma restore_layout_back:
  assumes "layout_ok sites before" and "layout_ok sites' after"
    and "sl_version after = sl_version before" "sl_migrated after = sl_migrated before"
      "sl_large after = sl_large before" "sl_extra after = sl_extra before"
  shows "restore_layout after before after = before"
  using assms restore_set_back restore_map_back
  by (simp add: restore_layout_def layout_ok_def folders_ok_def)


subsection \<open>What changed\<close>

lemma site_index_nth:
  "distinct (map cfg_id sites) \<Longrightarrow> k < length sites \<Longrightarrow> site_index sites (cfg_id (sites ! k)) = Some k"
proof (induction sites arbitrary: k)
  case (Cons s sites)
  then show ?case by (cases k) auto
qed simp

lemma site_index_None: "site_index sites i = None \<longleftrightarrow> i \<notin> cfg_id ` set sites"
  by (induction sites) auto

lemma site_at_Some: "site_at sites i = Some s \<Longrightarrow> s \<in> set sites \<and> cfg_id s = i"
  using site_index_Some by (fastforce simp: site_at_def)

lemma site_at_None: "site_at sites i = None \<longleftrightarrow> i \<notin> cfg_id ` set sites"
  by (simp add: site_at_def site_index_None)

lemma site_at_mem: "distinct (map cfg_id sites) \<Longrightarrow> s \<in> set sites \<Longrightarrow> site_at sites (cfg_id s) = Some s"
  by (auto simp: site_at_def in_set_conv_nth site_index_nth)

definition differs :: "connection_config list \<Rightarrow> connection_config list \<Rightarrow> string \<Rightarrow> bool" where
  "differs old new i = (map_option site_value (site_at old i) \<noteq> map_option site_value (site_at new i))"

lemma differs_iff: "differs old new i \<longleftrightarrow> site_at old i \<noteq> site_at new i"
  using site_value_inj by (cases "site_at old i"; cases "site_at new i") (auto simp: differs_def)

definition diff_keys :: "connection_config list \<Rightarrow> connection_config list \<Rightarrow> string list" where
  "diff_keys old new = map fst (fst (diff_sites old new))"

lemma diff_loop_eq:
  "diff_loop old new is seen =
     (let ks = filter (differs old new) (map fst (fst (diff_loop old new is seen))) in
      (map (\<lambda>i. (i, site_at old i)) ks, map (\<lambda>i. (i, map_option site_value (site_at new i))) ks)) \<and>
   distinct (map fst (fst (diff_loop old new is seen))) \<and>
   set (map fst (fst (diff_loop old new is seen))) = {i \<in> set is. i \<notin> set seen \<and> differs old new i}"
proof (induction "is" arbitrary: seen)
  case (Cons i "is")
  show ?case
  proof (cases "i \<in> set seen")
    case True
    then show ?thesis using Cons.IH [of seen] by (auto simp: Let_def)
  next
    case False
    obtain b a where ba: "diff_loop old new is (i # seen) = (b, a)" by (cases "diff_loop old new is (i # seen)")
    note IH = Cons.IH [of "i # seen", unfolded ba fst_conv]
    show ?thesis
      using IH False by (auto simp: ba Let_def differs_def)
  qed
qed simp

lemma diff_sites_eq:
  obtains ks where
    "diff_sites old new = (map (\<lambda>i. (i, site_at old i)) ks, map (\<lambda>i. (i, map_option site_value (site_at new i))) ks)"
    "distinct ks" "set ks = {i \<in> cfg_id ` set old \<union> cfg_id ` set new. site_at old i \<noteq> site_at new i}"
proof -
  let ?d = "diff_sites old new"
  let ?ks = "map fst (fst ?d)"
  note e = diff_loop_eq [of old new "map cfg_id old @ map cfg_id new" "[]"]
  have f: "filter (differs old new) ?ks = ?ks"
    using e unfolding diff_sites_def by (intro filter_True) auto
  show thesis
    by (rule that [of ?ks]) (use e f differs_iff in \<open>auto simp: diff_sites_def Let_def\<close>)
qed


subsection \<open>Undoing a batch nothing touched since\<close>

definition rep_of ::
  "connection_config list \<Rightarrow> connection_config list \<Rightarrow> string list \<Rightarrow> (nat \<times> connection_config) list" where
  "rep_of old new js = List.map_filter (\<lambda>i. case (site_at old i, site_index new i) of
     (Some c, Some k) \<Rightarrow> Some (k, c) | _ \<Rightarrow> None) js"

definition ins_of ::
  "connection_config list \<Rightarrow> connection_config list \<Rightarrow> string list \<Rightarrow> connection_config list" where
  "ins_of old new js = List.map_filter (\<lambda>i. case (site_at old i, site_index new i) of
     (Some c, None) \<Rightarrow> Some c | _ \<Rightarrow> None) js"

definition rem_of ::
  "connection_config list \<Rightarrow> connection_config list \<Rightarrow> string list \<Rightarrow> nat list" where
  "rem_of old new js = List.map_filter (\<lambda>i. case (site_at old i, site_index new i) of
     (None, Some k) \<Rightarrow> Some k | _ \<Rightarrow> None) js"

lemma of_Cons:
  "rep_of old new (i # js) = rep_of old new [i] @ rep_of old new js"
  "ins_of old new (i # js) = ins_of old new [i] @ ins_of old new js"
  "rem_of old new (i # js) = rem_of old new [i] @ rem_of old new js"
  by (simp_all add: rep_of_def ins_of_def rem_of_def map_filter_def)

lemma undo_site_step:
  fixes after old new i
  defines "w' \<equiv> \<lambda>w. undo_site new after (i, site_at old i) w"
  assumes e: "map_of (rev after) i = Some (map_option site_value (site_at new i))"
  shows "uw_restored (w' w) = Suc (uw_restored w) \<and> uw_skipped (w' w) = uw_skipped w \<and>
     uw_skipped_ids (w' w) = uw_skipped_ids w \<and> uw_replace (w' w) = uw_replace w @ rep_of old new [i] \<and>
     uw_insert (w' w) = uw_insert w @ ins_of old new [i] \<and>
     uw_remove (w' w) = rev (rem_of old new [i]) @ uw_remove w"
proof -
  have c: "map_option (\<lambda>k. site_value (new ! k)) (site_index new i) = map_option site_value (site_at new i)"
    by (simp add: site_at_def option.map_comp comp_def)
  show ?thesis
    unfolding w'_def undo_site_def Let_def prod.case e c
    by (cases "site_at old i"; cases "site_index new i")
       (simp_all add: rep_of_def ins_of_def rem_of_def map_filter_def)
qed

lemma undo_scan_all:
  assumes after: "\<And>i. i \<in> set js \<Longrightarrow> map_of (rev after) i = Some (map_option site_value (site_at new i))"
  shows "let w' = fold (undo_site new after) (map (\<lambda>i. (i, site_at old i)) js) w in
     uw_restored w' = uw_restored w + length js \<and> uw_skipped w' = uw_skipped w \<and>
     uw_skipped_ids w' = uw_skipped_ids w \<and> uw_replace w' = uw_replace w @ rep_of old new js \<and>
     uw_insert w' = uw_insert w @ ins_of old new js \<and>
     uw_remove w' = rev (rem_of old new js) @ uw_remove w"
  using after
proof (induction js arbitrary: w)
  case Nil
  then show ?case by (simp add: rep_of_def ins_of_def rem_of_def map_filter_def)
next
  case (Cons i js)
  have e: "map_of (rev after) i = Some (map_option site_value (site_at new i))" using Cons.prems by simp
  show ?case
    using Cons.IH [of "undo_site new after (i, site_at old i) w"] Cons.prems
      undo_site_step [OF e, of old w] of_Cons [of old new i js]
    by (simp add: Let_def)
qed

lemma length_fold_update [simp]: "length (fold (\<lambda>(k, c) ss. ss[k := c]) rs ss) = length ss"
  by (induction rs arbitrary: ss) auto

lemma nth_fold_update:
  "j < length ss \<Longrightarrow>
   fold (\<lambda>(k, c) ss. ss[k := c]) rs ss ! j = (case map_of (rev rs) j of Some c \<Rightarrow> c | None \<Rightarrow> ss ! j)"
  by (induction rs arbitrary: ss) (auto simp: map_add_def nth_list_update split: option.splits)

lemma set_remove_positions: "set (remove_positions ks xs) = {xs ! k |k. k < length xs \<and> k \<notin> set ks}"
  by (force simp: remove_positions_def in_set_enumerate_eq)

lemma remove_positions_map: "map f (remove_positions ks xs) = remove_positions ks (map f xs)"
proof -
  have "enumerate n (map f xs) = map (\<lambda>(k, x). (k, f x)) (enumerate n xs)" for n
    by (induction xs arbitrary: n) auto
  then show ?thesis by (simp add: remove_positions_def filter_map comp_def case_prod_unfold)
qed

lemma distinct_remove_positions: "distinct xs \<Longrightarrow> distinct (remove_positions ks xs)"
proof -
  assume "distinct xs"
  then have "distinct (map snd (enumerate 0 xs))" by simp
  then show ?thesis unfolding remove_positions_def by (rule distinct_map_filter)
qed

lemma undo_sites_back:
  assumes d: "distinct (map cfg_id old)" "distinct (map cfg_id new)"
    and ks: "distinct ks" "set ks = {i \<in> cfg_id ` set old \<union> cfg_id ` set new. site_at old i \<noteq> site_at new i}"
    and w: "uw_replace w = rep_of old new ks" "uw_insert w = ins_of old new ks"
      "set (uw_remove w) = set (rem_of old new ks)"
  shows "set (undo_sites w new) = set old \<and> distinct (map cfg_id (undo_sites w new))"
proof -
  let ?id = "\<lambda>k. cfg_id (new ! k)"
  define upd where "upd = fold (\<lambda>(k, c) ss. ss[k := c]) (rep_of old new ks) new"
  have rep: "(k, c) \<in> set (rep_of old new ks) \<longleftrightarrow>
      k < length new \<and> ?id k \<in> set ks \<and> site_at old (?id k) = Some c" for k c
  proof -
    have "(k, c) \<in> set (rep_of old new ks) \<longleftrightarrow> (\<exists>i \<in> set ks. site_at old i = Some c \<and> site_index new i = Some k)"
      by (force simp: rep_of_def map_filter_def split: option.splits)
    also have "\<dots> \<longleftrightarrow> k < length new \<and> ?id k \<in> set ks \<and> site_at old (?id k) = Some c"
      using site_index_Some site_index_nth [OF d(2)] by metis
    finally show ?thesis .
  qed
  have rem: "k \<in> set (uw_remove w) \<longleftrightarrow> k < length new \<and> ?id k \<in> set ks \<and> site_at old (?id k) = None" for k
  proof -
    have "k \<in> set (rem_of old new ks) \<longleftrightarrow> (\<exists>i \<in> set ks. site_at old i = None \<and> site_index new i = Some k)"
      by (force simp: rem_of_def map_filter_def split: option.splits)
    also have "\<dots> \<longleftrightarrow> k < length new \<and> ?id k \<in> set ks \<and> site_at old (?id k) = None"
      using site_index_Some site_index_nth [OF d(2)] by metis
    finally show ?thesis by (simp add: w(3))
  qed
  have ins: "c \<in> set (ins_of old new ks) \<longleftrightarrow> (\<exists>i \<in> set ks. site_at old i = Some c \<and> i \<notin> cfg_id ` set new)" for c
    unfolding site_index_None [symmetric]
    by (force simp: ins_of_def map_filter_def split: option.splits)
  have new_at: "site_at new (?id k) = Some (new ! k)" if "k < length new" for k
    using that site_index_nth [OF d(2)] by (simp add: site_at_def)
  have len: "length upd = length new" by (simp add: upd_def)
  have upd: "upd ! k = (case site_at old (?id k) of
      Some c \<Rightarrow> if ?id k \<in> set ks then c else new ! k | None \<Rightarrow> new ! k)" if k: "k < length new" for k
  proof (cases "map_of (rev (rep_of old new ks)) k")
    case None
    then have "(k, c) \<notin> set (rep_of old new ks)" for c by (force simp: map_of_eq_None_iff)
    then show ?thesis using None k rep nth_fold_update [OF k, of "rep_of old new ks"]
      by (auto simp: upd_def split: option.split)
  next
    case (Some c)
    then have "(k, c) \<in> set (rep_of old new ks)" by (auto dest: map_of_SomeD)
    then show ?thesis using Some k rep nth_fold_update [OF k, of "rep_of old new ks"]
      by (auto simp: upd_def)
  qed
  have ids: "cfg_id (upd ! k) = ?id k" if "k < length new" for k
  proof (cases "site_at old (?id k)")
    case (Some c)
    then have "cfg_id c = ?id k" using site_at_Some by blast
    then show ?thesis using upd [OF that] Some by simp
  qed (use upd [OF that] in simp)
  have id_of: "site_at old i = site_at new i" if "i \<notin> set ks" "i \<in> cfg_id ` set old \<union> cfg_id ` set new" for i
    using that ks(2) by blast
  have sets: "set (undo_sites w new) = {upd ! k |k. k < length new \<and> k \<notin> set (uw_remove w)} \<union> set (ins_of old new ks)"
    using len by (simp add: undo_sites_def w upd_def [symmetric] set_remove_positions)
  have "set (undo_sites w new) \<subseteq> set old"
  proof
    fix s assume "s \<in> set (undo_sites w new)"
    then consider (kept) k where "s = upd ! k" "k < length new" "k \<notin> set (uw_remove w)"
      | (again) "s \<in> set (ins_of old new ks)" using sets by blast
    then show "s \<in> set old"
    proof cases
      case (kept k)
      show ?thesis
      proof (cases "?id k \<in> set ks")
        case True
        then obtain c where c: "site_at old (?id k) = Some c"
          using kept(2,3) rem [of k] by (cases "site_at old (?id k)") auto
        then have "s = c" using kept(1) upd [OF kept(2)] True by simp
        with c site_at_Some show ?thesis by blast
      next
        case False
        have c: "site_at old (?id k) = Some (new ! k)"
          using id_of [OF False] kept(2) new_at by simp
        then have "s = new ! k" using kept(1) upd [OF kept(2)] False by simp
        with c site_at_Some show ?thesis by blast
      qed
    next
      case again
      then show ?thesis using ins site_at_Some by blast
    qed
  qed
  moreover have "set old \<subseteq> set (undo_sites w new)"
  proof
    fix s assume s: "s \<in> set old"
    let ?i = "cfg_id s"
    have at: "site_at old ?i = Some s" by (rule site_at_mem [OF d(1) s])
    show "s \<in> set (undo_sites w new)"
    proof (cases "?i \<in> cfg_id ` set new")
      case True
      then obtain k where k: "k < length new" "?id k = ?i" by (auto simp: in_set_conv_nth)
      have nr: "k \<notin> set (uw_remove w)" using rem k at by auto
      have "upd ! k = s"
      proof (cases "?i \<in> set ks")
        case False
        then have "site_at new ?i = Some s" using id_of [OF False] s at by auto
        then show ?thesis using upd [OF k(1)] new_at [OF k(1)] k False by (auto split: option.split)
      qed (use upd [OF k(1)] k at in auto)
      then show ?thesis using sets k(1) nr by blast
    next
      case False
      then have "site_at new ?i = None" by (simp add: site_at_None)
      then have "?i \<in> set ks" using ks(2) s at by auto
      then have "s \<in> set (ins_of old new ks)" using ins at False by blast
      then show ?thesis using sets by blast
    qed
  qed
  moreover have "distinct (map cfg_id (undo_sites w new))"
  proof -
    have m: "map cfg_id upd = map cfg_id new" using ids len by (auto intro: nth_equalityI)
    have d1: "distinct (map cfg_id (remove_positions (uw_remove w) upd))"
      using d(2) by (simp add: remove_positions_map m distinct_remove_positions)
    have "map cfg_id (ins_of old new js) = filter (\<lambda>i. site_at old i \<noteq> None \<and> i \<notin> cfg_id ` set new) js" for js
      unfolding site_index_None [symmetric]
      using site_at_Some by (induction js) (fastforce simp: ins_of_def map_filter_def split: option.splits)+
    then have mi: "map cfg_id (ins_of old new ks) = filter (\<lambda>i. site_at old i \<noteq> None \<and> i \<notin> cfg_id ` set new) ks" .
    have sub: "set (map cfg_id (remove_positions (uw_remove w) upd)) \<subseteq> set (map cfg_id new)"
      unfolding remove_positions_map m by (auto simp: set_remove_positions)
    have "distinct (map cfg_id (remove_positions (uw_remove w) upd) @ map cfg_id (ins_of old new ks))"
      using d1 sub ks(1) unfolding distinct_append mi by auto
    then show ?thesis by (simp add: undo_sites_def w upd_def [symmetric])
  qed
  ultimately show ?thesis by blast
qed


lemma layout_ok_sites: "set sites = set sites' \<Longrightarrow> layout_ok sites l = layout_ok sites' l"
proof -
  assume s: "set sites = set sites'"
  have i: "set (implied_folders sites) = set (implied_folders sites')" by (simp add: implied_set s)
  have f: "favorite_ok sites fs x = favorite_ok sites' fs x" for fs x by (cases x) (simp_all add: s)
  show ?thesis
    unfolding layout_ok_def folders_ok_def favorites_ok_def recents_ok_def f i s ..
qed

lemma apply_ops_Inr:
  assumes "apply_ops new_id ops sites l g = (Inr out, sites', l')"
  obtains t where "run_batch new_id ops sites l g = Inr (layout_before (ao_undo out), t)"
    "sites' = t_sites t" "l' = t_layout t" "layout_after (ao_undo out) = t_layout t"
    "diff_sites sites sites' = (sites_before (ao_undo out), sites_after (ao_undo out))"
  using assms by (auto simp: apply_ops_def Let_def split: sum.splits prod.splits)

subsection \<open>Properties\<close>

text \<open>
  C10: A batch is all or nothing and sound: on an error the sites and the layout are as before;
  on success the layout is well formed for the new sites, no two sites share an id (copies
  included), and the built-in Local site is still there once, unmoved, with at most its name
  changed.
\<close>

theorem apply_ops_sound:
  assumes "distinct (map cfg_id sites)" and "bmap_ok (sl_site_labels l)"
  shows "case apply_ops new_id ops sites l g of
      (Inl e, sites', l') \<Rightarrow> sites' = sites \<and> l' = l
    | (Inr out, sites', l') \<Rightarrow> layout_ok sites' l' \<and> distinct (map cfg_id sites') \<and>
        local_part sites' = local_part sites"
proof (cases "apply_ops new_id ops sites l g")
  case (fields r sites' l')
  show ?thesis
  proof (cases r)
    case (Inl e)
    then show ?thesis using fields
      by (auto simp: apply_ops_def Let_def split: sum.splits prod.splits)
  next
    case (Inr out)
    obtain t where t: "run_batch new_id ops sites l g = Inr (layout_before (ao_undo out), t)"
      "sites' = t_sites t" "l' = t_layout t"
      using apply_ops_Inr [OF fields [unfolded Inr]] by blast
    then show ?thesis using run_batch_inv [OF t(1) assms] t(2,3) fields Inr by auto
  qed
qed

text \<open>
  C11: Undo takes a batch back: when nothing changed since, undoing skips no site, the same
  sites are there as before the batch, each with the id and every field it had, and the layout
  is the one from before the batch (reconciled, as the batch itself starts by doing).
\<close>

theorem undo_restores_batch:
  assumes d: "distinct (map cfg_id sites)" and l: "bmap_ok (sl_site_labels l)"
    and a: "apply_ops new_id ops sites l g = (Inr out, sites', l')"
  shows "case undo (ao_undo out) sites' l' of
      ((restored, skipped), sites'', l'') \<Rightarrow>
        restored = length (sites_before (ao_undo out)) \<and> skipped = 0 \<and>
        set sites'' = set sites \<and> distinct (map cfg_id sites'') \<and> l'' = snd (reconcile l sites)"
proof -
  let ?u = "ao_undo out"
  obtain t where t: "run_batch new_id ops sites l g = Inr (layout_before ?u, t)"
    "sites' = t_sites t" "l' = t_layout t" "layout_after ?u = l'"
    "diff_sites sites sites' = (sites_before ?u, sites_after ?u)"
    using apply_ops_Inr [OF a] by blast
  note inv = run_batch_inv [OF t(1) d l]
  have d': "distinct (map cfg_id sites')" using inv t(2) by simp
  obtain ks where ks: "sites_before ?u = map (\<lambda>i. (i, site_at sites i)) ks"
    "sites_after ?u = map (\<lambda>i. (i, map_option site_value (site_at sites' i))) ks" "distinct ks"
    "set ks = {i \<in> cfg_id ` set sites \<union> cfg_id ` set sites'. site_at sites i \<noteq> site_at sites' i}"
    by (rule diff_sites_eq [of sites sites']) (use t(5) in simp)
  let ?v = "\<lambda>i. map_option site_value (site_at sites' i)"
  have after: "map_of (rev (sites_after ?u)) i = Some (?v i)" if "i \<in> set ks" for i
  proof -
    have "distinct (map fst (rev (sites_after ?u)))" using ks(2,3) by (simp add: rev_map comp_def)
    moreover have "(i, ?v i) \<in> set (rev (sites_after ?u))" using that by (simp add: ks(2))
    ultimately show ?thesis by (rule map_of_is_SomeI)
  qed
  define w where "w = undo_scan ?u sites'"
  have w: "uw_restored w = length ks" "uw_skipped w = 0" "uw_skipped_ids w = []"
    "uw_replace w = rep_of sites sites' ks" "uw_insert w = ins_of sites sites' ks"
    "set (uw_remove w) = set (rem_of sites sites' ks)"
    using undo_scan_all [of ks "sites_after ?u" sites' sites
        "\<lparr>uw_restored = 0, uw_skipped = 0, uw_replace = [], uw_remove = [], uw_insert = [], uw_skipped_ids = []\<rparr>"]
      after
    by (simp_all add: w_def undo_scan_def ks(1) Let_def)
  have bk: "set (undo_sites w sites') = set sites \<and> distinct (map cfg_id (undo_sites w sites'))"
    using undo_sites_back [OF d d' ks(3,4) w(4,5,6)] .
  have before: "layout_ok sites (layout_before ?u)" using inv reconciled_ok [OF l] by simp
  have adj: "adjusted_before ?u [] = layout_before ?u" by (simp add: adjusted_before_def kept_remaps_def)
  have rest: "restore_layout l' (layout_before ?u) l' = layout_before ?u"
    using restore_layout_back [OF before, of sites' l'] inv t by simp
  have "reconciled (layout_before ?u) (undo_sites w sites') = layout_before ?u"
    using reconciled_id before layout_ok_sites bk by blast
  moreover have "layout_before ?u = snd (reconcile l sites)" using inv by (simp add: reconcile_def Let_def)
  ultimately show ?thesis
    using bk w ks(1) rest by (simp add: undo_def Let_def w_def [symmetric] adj t(4))
qed

definition demo_ops :: "site_tree_op list" where
  "demo_ops = [RenameSite ''s2'' ''New'', DeleteSites [''s3'']]"


lemma demo_batch:
  "\<exists>out sites' l'. apply_ops demo_new_id demo_ops demo_sites default_layout 0 = (Inr out, sites', l') \<and>
     set sites' \<noteq> set demo_sites"
proof -
  let ?l = "reconciled default_layout demo_sites"
  have lim: "check_op_limits demo_ops = Inr ()"
    by (simp add: check_op_limits_def demo_ops_def MAX_OPS_PER_CALL_def MAX_IDS_PER_CALL_def)
  have "case foldE (apply_one demo_new_id) demo_ops
      \<lparr>t_sites = demo_sites, t_layout = ?l, t_log = empty_log, t_gen = 0\<rparr> of
      Inl e \<Rightarrow> False
    | Inr t \<Rightarrow> length (sl_folders (t_layout t)) \<le> length (sl_folders ?l) \<and>
        set (t_sites t) \<noteq> set demo_sites" (is "case ?r of Inl e \<Rightarrow> False | Inr t \<Rightarrow> ?P t")
    by code_simp
  then obtain t where t: "?r = Inr t" "?P t" by (cases ?r) auto
  show ?thesis
    using t(2) by (auto simp: apply_ops_def run_batch_def lim t(1) Let_def split: prod.split)
qed

lemma demo_distinct: "distinct (map cfg_id demo_sites) \<and> bmap_ok (sl_site_labels default_layout)"
  by code_simp

theorem apply_ops_sound_witness:
  "\<exists>out sites' l'. apply_ops demo_new_id demo_ops demo_sites default_layout 0 = (Inr out, sites', l') \<and>
     set sites' \<noteq> set demo_sites \<and> layout_ok sites' l'"
  using demo_batch demo_distinct
    apply_ops_sound [of demo_sites default_layout demo_new_id demo_ops 0] by auto

theorem undo_restores_batch_witness:
  "\<exists>out sites' l' report sites'' l''.
     apply_ops demo_new_id demo_ops demo_sites default_layout 0 = (Inr out, sites', l') \<and>
     set sites' \<noteq> set demo_sites \<and>
     undo (ao_undo out) sites' l' = (report, sites'', l'') \<and> set sites'' = set demo_sites"
proof -
  obtain out sites' l' where a: "apply_ops demo_new_id demo_ops demo_sites default_layout 0 = (Inr out, sites', l')"
    "set sites' \<noteq> set demo_sites" using demo_batch by blast
  show ?thesis
    using a undo_restores_batch [OF _ _ a(1)] demo_distinct by (auto split: prod.splits)
qed

end
