(* ===== verification/SiteIds.thy ===== *)
theory SiteIds
  imports SiteOps
begin

section \<open>Ids of saved sites and the recently used list\<close>

text \<open>
  Models \<open>dedupe_site_ids\<close>, \<open>record_recent\<close> and \<open>seed_recents\<close> of
  \<open>crates/rustscp-core/src/site_layout.rs\<close>. The search for an unused number is a loop without
  a bound in the code; it ends because only finitely many ids are taken.
\<close>

subsection \<open>Numbered ids\<close>

definition numbered_id :: "nat \<Rightarrow> string" where
  "numbered_id n = ''site-'' @ show_nat n"

lemma numbered_id_inj: "inj numbered_id"
  by (rule injI) (metis numbered_id_def append_same_eq same_append_eq decimal_value_show_nat)

lemma finite_numbered: "finite {m. n \<le> m \<and> numbered_id m \<in> set taken}"
  by (rule finite_subset [OF _ finite_vimageI [OF finite_set numbered_id_inj, of taken]]) auto

text \<open>\<open>(1..).map(|n| format!("site-{n}")).find(|id| taken.insert(id.clone()))\<close> from \<open>n\<close> on.\<close>

function first_unused :: "nat \<Rightarrow> string list \<Rightarrow> string" where
  "first_unused n taken =
     (if numbered_id n \<in> set taken then first_unused (n + 1) taken else numbered_id n)"
  by pat_completeness auto

termination
proof (relation "measure (\<lambda>(n, taken). card {m. n \<le> m \<and> numbered_id m \<in> set taken})")
  show "wf (measure (\<lambda>(n, taken). card {m. n \<le> m \<and> numbered_id m \<in> set taken}))" by simp
next
  fix n taken assume t: "numbered_id n \<in> set taken"
  have "{m. n + 1 \<le> m \<and> numbered_id m \<in> set taken} \<subset> {m. n \<le> m \<and> numbered_id m \<in> set taken}"
  proof
    show "{m. n + 1 \<le> m \<and> numbered_id m \<in> set taken} \<subseteq> {m. n \<le> m \<and> numbered_id m \<in> set taken}"
      by auto
    have "n \<in> {m. n \<le> m \<and> numbered_id m \<in> set taken}" using t by simp
    then show "{m. n + 1 \<le> m \<and> numbered_id m \<in> set taken} \<noteq> {m. n \<le> m \<and> numbered_id m \<in> set taken}"
      by (metis (no_types, lifting) add.commute mem_Collect_eq not_less_eq_eq order_refl plus_1_eq_Suc)
  qed
  then show "((n + 1, taken), (n, taken)) \<in> measure (\<lambda>(n, taken). card {m. n \<le> m \<and> numbered_id m \<in> set taken})"
    by (simp add: psubset_card_mono finite_numbered)
qed

declare first_unused.simps [simp del]

lemma first_unused_free: "first_unused n taken \<notin> set taken"
  by (induction n taken rule: first_unused.induct) (subst first_unused.simps, simp)

subsection \<open>Unique ids\<close>

definition row_id :: "('g \<Rightarrow> string \<times> 'g) \<Rightarrow> string list \<Rightarrow> 'g \<Rightarrow> string \<times> 'g" where
  "row_id new_id taken g =
     (case fresh_id_tries 32 new_id taken g of
        (Some i, g') \<Rightarrow> (i, g')
      | (None, g') \<Rightarrow> (first_unused 1 taken, g'))"

fun dedupe_loop ::
  "('g \<Rightarrow> string \<times> 'g) \<Rightarrow> connection_config list \<Rightarrow> string list \<Rightarrow> string list \<Rightarrow> 'g
   \<Rightarrow> connection_config list \<times> bool \<times> 'g" where
  "dedupe_loop new_id [] taken seen g = ([], False, g)"
| "dedupe_loop new_id (s # ss) taken seen g =
     (if cfg_id s \<notin> set seen
      then let (rest, changed, g') = dedupe_loop new_id ss taken (cfg_id s # seen) g
           in (s # rest, changed, g')
      else let (i, g1) = row_id new_id taken g;
               (rest, changed, g') = dedupe_loop new_id ss (i # taken) (i # seen) g1
           in (s\<lparr>cfg_id := i\<rparr> # rest, True, g'))"

definition dedupe_site_ids ::
  "('g \<Rightarrow> string \<times> 'g) \<Rightarrow> connection_config list \<Rightarrow> 'g \<Rightarrow> connection_config list \<times> bool \<times> 'g" where
  "dedupe_site_ids new_id sites g = dedupe_loop new_id sites (map cfg_id sites) [] g"

lemma row_id_free: "fst (row_id new_id taken g) \<notin> set taken"
  using fresh_id_tries_Some first_unused_free
  by (fastforce simp: row_id_def split: prod.splits option.splits)

text \<open>The positions whose id occurs before, in the list or in \<open>seen\<close>.\<close>

definition repeated :: "string list \<Rightarrow> connection_config list \<Rightarrow> nat set" where
  "repeated seen ss = {k. k < length ss \<and> cfg_id (ss ! k) \<in> set seen \<union> set (take k (map cfg_id ss))}"

lemma repeated_Cons:
  "repeated seen (s # ss) =
     (if cfg_id s \<in> set seen then insert 0 (Suc ` repeated seen ss) else Suc ` repeated (cfg_id s # seen) ss)"
proof -
  have "k \<in> repeated seen (s # ss) \<longleftrightarrow>
      (case k of 0 \<Rightarrow> cfg_id s \<in> set seen | Suc j \<Rightarrow> j \<in> repeated (cfg_id s # seen) ss)" for k
    by (auto simp: repeated_def split: nat.split)
  moreover have "repeated (cfg_id s # seen) ss = repeated seen ss" if "cfg_id s \<in> set seen"
    using that by (auto simp: repeated_def)
  ultimately show ?thesis
    by (intro set_eqI) (auto simp: image_iff split: nat.splits)
qed

lemma differing_Cons_same:
  "{k. k < Suc (length ss) \<and> (s # r) ! k \<noteq> (s # ss) ! k} = Suc ` {k. k < length ss \<and> r ! k \<noteq> ss ! k}"
proof (rule set_eqI)
  fix k show "k \<in> {k. k < Suc (length ss) \<and> (s # r) ! k \<noteq> (s # ss) ! k} \<longleftrightarrow>
      k \<in> Suc ` {k. k < length ss \<and> r ! k \<noteq> ss ! k}"
    by (cases k) auto
qed

lemma differing_Cons:
  assumes "s' \<noteq> s"
  shows "{k. k < Suc (length ss) \<and> (s' # r) ! k \<noteq> (s # ss) ! k} =
     insert 0 (Suc ` {k. k < length ss \<and> r ! k \<noteq> ss ! k})"
proof (rule set_eqI)
  fix k show "k \<in> {k. k < Suc (length ss) \<and> (s' # r) ! k \<noteq> (s # ss) ! k} \<longleftrightarrow>
      k \<in> insert 0 (Suc ` {k. k < length ss \<and> r ! k \<noteq> ss ! k})"
    using assms by (cases k) auto
qed

lemma dedupe_loop_correct:
  assumes "set seen \<subseteq> set taken" and "cfg_id ` set ss \<subseteq> set taken"
  shows "case dedupe_loop new_id ss taken seen g of (ss', changed, g') \<Rightarrow>
     length ss' = length ss \<and> distinct (map cfg_id ss') \<and> cfg_id ` set ss' \<inter> set seen = {} \<and>
     {k. k < length ss \<and> ss' ! k \<noteq> ss ! k} = repeated seen ss \<and>
     map (\<lambda>s. s\<lparr>cfg_id := []\<rparr>) ss' = map (\<lambda>s. s\<lparr>cfg_id := []\<rparr>) ss \<and>
     (changed \<longleftrightarrow> repeated seen ss \<noteq> {})"
  using assms
proof (induction ss arbitrary: taken seen g)
  case Nil
  then show ?case by (simp add: repeated_def)
next
  case (Cons s ss)
  show ?case
  proof (cases "cfg_id s \<in> set seen")
    case False
    obtain r c h where e: "dedupe_loop new_id ss taken (cfg_id s # seen) g = (r, c, h)" by (metis prod_cases3)
    note IH = Cons.IH [of "cfg_id s # seen" taken g, unfolded e prod.case]
    have "{k. k < Suc (length ss) \<and> (s # r) ! k \<noteq> (s # ss) ! k} = Suc ` {k. k < length ss \<and> r ! k \<noteq> ss ! k}"
      by (rule differing_Cons_same)
    then show ?thesis using IH Cons.prems False by (auto simp: e repeated_Cons)
  next
    case True
    obtain i g1 where i: "row_id new_id taken g = (i, g1)" by (cases "row_id new_id taken g")
    then have i_new: "i \<notin> set taken" using row_id_free by (metis fst_conv)
    obtain r c h where e: "dedupe_loop new_id ss (i # taken) (i # seen) g1 = (r, c, h)" by (metis prod_cases3)
    note IH = Cons.IH [of "i # seen" "i # taken" g1, unfolded e prod.case]
    have ne: "s\<lparr>cfg_id := i\<rparr> \<noteq> s"
    proof
      assume "s\<lparr>cfg_id := i\<rparr> = s"
      then have "cfg_id s = i" by (metis connection_config.select_convs(1) connection_config.surjective connection_config.update_convs(1))
      then show False using i_new Cons.prems by auto
    qed
    have "cfg_id (ss ! k) \<noteq> i" if "k < length ss" for k
      using i_new Cons.prems(2) nth_mem [OF that] by auto
    then have rep: "repeated (i # seen) ss = repeated seen ss" by (auto simp: repeated_def)
    have "{k. k < Suc (length ss) \<and> (s\<lparr>cfg_id := i\<rparr> # r) ! k \<noteq> (s # ss) ! k} =
        insert 0 (Suc ` {k. k < length ss \<and> r ! k \<noteq> ss ! k})"
      using ne by (rule differing_Cons)
    moreover have "set (i # seen) \<subseteq> set (i # taken)" "cfg_id ` set ss \<subseteq> set (i # taken)" "i \<notin> set seen"
      using Cons.prems i_new by auto
    ultimately show ?thesis
      using IH True unfolding dedupe_loop.simps e i prod.case Let_def repeated_Cons rep
      by (simp add: ac_simps)
  qed
qed

subsection \<open>Recents\<close>

definition record_recent :: "string \<Rightarrow> int \<Rightarrow> site_layout \<Rightarrow> site_layout" where
  "record_recent i at l =
     (if i = LOCAL_SITE_ID then l
      else let (count, rest) =
             (case find (\<lambda>r. re_id r = i) (sl_recents l) of
                Some r \<Rightarrow> (re_count r, remove1 r (sl_recents l))
              | None \<Rightarrow> (0, sl_recents l))
           in l\<lparr>sl_recents := take MAX_RECENTS
                  (\<lparr>re_id = i, re_at = Some at, re_count = min (count + 1) (2 ^ 32 - 1)\<rparr> # rest)\<rparr>)"

fun seed_loop :: "string list \<Rightarrow> (string \<Rightarrow> bool) \<Rightarrow> string list \<Rightarrow> string list" where
  "seed_loop [] is_saved seen = []"
| "seed_loop (i # is) is_saved seen =
     (if i \<noteq> LOCAL_SITE_ID \<and> is_saved i \<and> i \<notin> set seen then i # seed_loop is is_saved (i # seen)
      else seed_loop is is_saved seen)"

definition seed_recents :: "string list \<Rightarrow> (string \<Rightarrow> bool) \<Rightarrow> site_layout \<Rightarrow> bool \<times> site_layout" where
  "seed_recents ids is_saved l =
     (if sl_recents l \<noteq> [] then (False, l)
      else let rs = map (\<lambda>i. \<lparr>re_id = i, re_at = None, re_count = 0\<rparr>)
                      (take MAX_RECENTS (seed_loop ids is_saved []))
           in (rs \<noteq> [], l\<lparr>sl_recents := rs\<rparr>))"

lemma seed_loop_ok:
  "distinct (seed_loop ids is_saved seen) \<and>
   set (seed_loop ids is_saved seen) = {i \<in> set ids. i \<noteq> LOCAL_SITE_ID \<and> is_saved i \<and> i \<notin> set seen}"
  by (induction ids arbitrary: seen) auto

lemma seed_recents_ok:
  "recents_ok sites (sl_recents l) \<Longrightarrow>
   recents_ok sites (sl_recents (snd (seed_recents ids (\<lambda>i. i \<in> cfg_id ` set sites) l)))"
proof -
  have d: "distinct (take n (seed_loop ids p []))" "set (take n (seed_loop ids p [])) \<subseteq> {i. i \<noteq> LOCAL_SITE_ID \<and> p i}" for n p
    using seed_loop_ok [of ids p "[]"] set_take_subset [of n "seed_loop ids p []"] by auto
  assume "recents_ok sites (sl_recents l)"
  then show ?thesis using d [of MAX_RECENTS "\<lambda>i. i \<in> cfg_id ` set sites"]
    by (auto simp: seed_recents_def Let_def recents_ok_def comp_def)
qed

lemma find_distinct:
  "distinct (map re_id rs) \<Longrightarrow> find (\<lambda>r. re_id r = i) rs = Some r \<Longrightarrow>
   remove1 r rs = filter (\<lambda>r. re_id r \<noteq> i) rs"
proof (induction rs)
  case (Cons a rs)
  show ?case
  proof (cases "re_id a = i")
    case True
    then have "i \<notin> re_id ` set rs" using Cons.prems(1) by auto
    then have "filter (\<lambda>r. re_id r \<noteq> i) rs = rs" by (auto intro: filter_True)
    then show ?thesis using True Cons.prems by simp
  next
    case False
    then have f: "find (\<lambda>r. re_id r = i) rs = Some r" using Cons.prems(2) by simp
    then have "re_id r = i" by (auto simp: find_Some_iff)
    then show ?thesis using Cons.IH [OF _ f] Cons.prems(1) False by auto
  qed
qed simp

lemma find_none_filter: "find (\<lambda>r. re_id r = i) rs = None \<Longrightarrow> filter (\<lambda>r. re_id r \<noteq> i) rs = rs"
  by (auto simp: find_None_iff intro: filter_True)

lemma record_recent_eq:
  assumes "distinct (map re_id (sl_recents l))" and "i \<noteq> LOCAL_SITE_ID"
  shows "\<exists>n. sl_recents (record_recent i at l) =
     \<lparr>re_id = i, re_at = Some at, re_count = n\<rparr> #
       take (MAX_RECENTS - 1) (filter (\<lambda>r. re_id r \<noteq> i) (sl_recents l))"
proof (cases "find (\<lambda>r. re_id r = i) (sl_recents l)")
  case None
  then show ?thesis using assms find_none_filter [OF None] by (simp add: record_recent_def MAX_RECENTS_def)
next
  case (Some r)
  then show ?thesis using assms find_distinct [OF assms(1) Some]
    by (simp add: record_recent_def MAX_RECENTS_def)
qed

lemma record_recent_ok:
  assumes "recents_ok sites (sl_recents l)" and "i \<in> cfg_id ` set sites"
  shows "recents_ok sites (sl_recents (record_recent i at l))"
proof (cases "i = LOCAL_SITE_ID")
  case False
  let ?r = "filter (\<lambda>r. re_id r \<noteq> i) (sl_recents l)"
  let ?f = "take (MAX_RECENTS - 1) ?r"
  have d: "distinct (map re_id (sl_recents l))" using assms(1) by (simp add: recents_ok_def)
  obtain n where n: "sl_recents (record_recent i at l) = \<lparr>re_id = i, re_at = Some at, re_count = n\<rparr> # ?f"
    using record_recent_eq [OF d False] by blast
  have "distinct (map re_id ?f)" unfolding take_map [symmetric] using d
    by (intro distinct_take distinct_map_filter)
  moreover have "set ?f \<subseteq> set ?r" by (rule set_take_subset)
  ultimately show ?thesis
    unfolding recents_ok_def n using assms False
    by (auto simp: recents_ok_def MAX_RECENTS_def)
qed (use assms in \<open>simp add: record_recent_def\<close>)

subsection \<open>Properties\<close>

text \<open>
  After \<open>dedupe_site_ids\<close> no two saved sites share an id; exactly the rows whose id occurs
  in an earlier row changed, and of those only the id; the result says whether there were any.
\<close>

theorem dedupe_site_ids_correct:
  "case dedupe_site_ids new_id sites g of (sites', changed, g') \<Rightarrow>
     length sites' = length sites \<and> distinct (map cfg_id sites') \<and>
     {k. k < length sites \<and> sites' ! k \<noteq> sites ! k} =
       {k. k < length sites \<and> cfg_id (sites ! k) \<in> set (take k (map cfg_id sites))} \<and>
     map (\<lambda>s. s\<lparr>cfg_id := []\<rparr>) sites' = map (\<lambda>s. s\<lparr>cfg_id := []\<rparr>) sites \<and>
     changed = (sites' \<noteq> sites)"
proof -
  obtain r c h where e: "dedupe_site_ids new_id sites g = (r, c, h)" by (metis prod_cases3)
  have pre: "set [] \<subseteq> set (map cfg_id sites)" "cfg_id ` set sites \<subseteq> set (map cfg_id sites)"
    by simp_all
  note d = dedupe_loop_correct [OF pre, of new_id g, unfolded e [unfolded dedupe_site_ids_def] prod.case]
  let ?D = "{k. k < length sites \<and> r ! k \<noteq> sites ! k}"
  have len: "length r = length sites" and D: "?D = repeated [] sites" using d by blast+
  have "c = (r \<noteq> sites)"
  proof (cases "?D = {}")
    case True
    then have "r = sites" using len by (intro nth_equalityI) auto
    then show ?thesis using d True D by blast
  next
    case False
    then have "r \<noteq> sites" by blast
    then show ?thesis using d False D by blast
  qed
  moreover have "repeated [] sites = {k. k < length sites \<and> cfg_id (sites ! k) \<in> set (take k (map cfg_id sites))}"
    by (simp add: repeated_def)
  ultimately show ?thesis using d unfolding e prod.case by (elim conjE, intro conjI) blast+
qed

end
