(* ===== verification/SiteLoad.thy ===== *)
theory SiteLoad
  imports SiteIds
begin

section \<open>Loading and saving the site layout\<close>

text \<open>
  Models the last part of \<open>crates/rustscp-core/src/site_layout.rs\<close>: reading the JSON of the
  layout file, what a load that went wrong gives, and the bytes of a save. The JSON text codec
  and the derived readers of single entries are parameters, with their round trip as hypothesis
  (\<open>codec_laws\<close>). The sealed file of \<open>vault.rs\<close> is a world \<open>'w\<close> with three
  functions: reading the file, whether \<open>sites.vault\<close> exists, and moving the file aside.
  A JSON number is an integer here: a number with a fraction does not occur in a layout.
\<close>

subsection \<open>Errors\<close>

datatype io_kind = Io_NotFound | Io_Other

datatype vault_error =
    InvalidHeader
  | UnsupportedVersion nat
  | DecryptionFailed
  | SerializationError string
  | HexError string
  | IoError io_kind string
  | Other string
  | DeviceKeyMissing string
  | KdfOutOfRange nat
  | UnsupportedAlgorithm string
  | KeychainUnavailable string

fun vault_error_text :: "vault_error \<Rightarrow> string" where
  "vault_error_text InvalidHeader = ''Formato de cofre inv'' @ [CHR 0xE1] @ ''lido ou corrompido''"
| "vault_error_text (UnsupportedVersion n) =
     ''Vers'' @ [CHR 0xE3] @ ''o de cofre incompat'' @ [CHR 0xED] @ ''vel: '' @ show_nat n"
| "vault_error_text DecryptionFailed =
     ''Falha na decodifica'' @ [CHR 0xE7, CHR 0xE3] @ ''o: senha incorreta ou arquivo adulterado''"
| "vault_error_text (SerializationError m) =
     ''Erro de serializa'' @ [CHR 0xE7, CHR 0xE3] @ ''o JSON: '' @ m"
| "vault_error_text (HexError m) = ''Erro de codifica'' @ [CHR 0xE7, CHR 0xE3] @ ''o Hex: '' @ m"
| "vault_error_text (IoError _ m) = ''Erro de E/S de arquivo: '' @ m"
| "vault_error_text (Other m) = ''Erro no cofre: '' @ m"
| "vault_error_text (DeviceKeyMissing p) =
     ''The vault key file is missing or empty while an encrypted vault exists ('' @ p
     @ ''); no new key was created so the saved sites are not overwritten''"
| "vault_error_text (KdfOutOfRange n) =
     ''Unsafe or invalid key-derivation parameters: '' @ show_nat n @ '' PBKDF2 iterations''"
| "vault_error_text (UnsupportedAlgorithm a) = ''Unsupported vault algorithm: '' @ a"
| "vault_error_text (KeychainUnavailable m) =
     ''The saved-sites key could not be read from the macOS Keychain ('' @ m
     @ ''); the saved sites were left untouched. Allow RustSCP to access the Keychain and restart it''"

definition ERR_LAYOUT_READ_ONLY :: string where
  "ERR_LAYOUT_READ_ONLY = ''site_tree.layout_read_only''"
definition WARN_LAYOUT_UNAVAILABLE :: string where
  "WARN_LAYOUT_UNAVAILABLE = ''site_tree.layout_unavailable''"
definition WARN_LAYOUT_RESET :: string where
  "WARN_LAYOUT_RESET = ''site_tree.layout_reset''"

subsection \<open>Reading the JSON\<close>

record 'b layout_codec =
  parse_json :: "'b \<Rightarrow> string + json"
  write_json :: "json \<Rightarrow> 'b"
  read_favorite :: "json \<Rightarrow> favorite_ref option"
  read_recent :: "json \<Rightarrow> recent_entry option"
  read_label :: "json \<Rightarrow> label_def option"

fun read_string :: "json \<Rightarrow> string option" where
  "read_string (JStr s) = Some s"
| "read_string _ = None"

fun lenient_vec :: "(json \<Rightarrow> 'a option) \<Rightarrow> json \<Rightarrow> 'a list" where
  "lenient_vec rd (JArr items) = List.map_filter rd items"
| "lenient_vec rd _ = []"

fun lenient_string_map :: "json \<Rightarrow> (string, string) bmap" where
  "lenient_string_map (JObj kvs) =
     fold (\<lambda>(k, v) m. case v of JStr s \<Rightarrow> bm_insert k s m | _ \<Rightarrow> m) kvs []"
| "lenient_string_map _ = []"

fun as_bool_or_false :: "json \<Rightarrow> bool" where
  "as_bool_or_false (JBool b) = b"
| "as_bool_or_false _ = False"

text \<open>\<open>as_u64\<close>, then \<open>u32::try_from(v).unwrap_or(u32::MAX)\<close>.\<close>

fun read_version :: "json \<Rightarrow> nat option" where
  "read_version (JNum n) = (if 0 \<le> n \<and> n < 2 ^ 64 then Some (min (nat n) (2 ^ 32 - 1)) else None)"
| "read_version _ = None"

definition read_key :: "'b layout_codec \<Rightarrow> string \<times> json \<Rightarrow> site_layout \<Rightarrow> site_layout" where
  "read_key c kv l =
     (let (key, value) = kv in
      if key = ''version''
      then (case read_version value of Some v \<Rightarrow> l\<lparr>sl_version := v\<rparr> | None \<Rightarrow> l)
      else if key = ''folders'' then l\<lparr>sl_folders := bs_of (lenient_vec read_string value)\<rparr>
      else if key = ''favorites'' then l\<lparr>sl_favorites := lenient_vec (read_favorite c) value\<rparr>
      else if key = ''recents'' then l\<lparr>sl_recents := lenient_vec (read_recent c) value\<rparr>
      else if key = ''labels'' then l\<lparr>sl_labels := lenient_vec (read_label c) value\<rparr>
      else if key = ''site_labels'' then l\<lparr>sl_site_labels := lenient_string_map value\<rparr>
      else if key = ''folder_labels'' then l\<lparr>sl_folder_labels := lenient_string_map value\<rparr>
      else if key = ''collapsed'' then l\<lparr>sl_collapsed := bs_of (lenient_vec read_string value)\<rparr>
      else if key = ''migrated_local_storage'' then l\<lparr>sl_migrated := as_bool_or_false value\<rparr>
      else if key = ''large_library_collapsed'' then l\<lparr>sl_large := as_bool_or_false value\<rparr>
      else l\<lparr>sl_extra := bm_insert key value (sl_extra l)\<rparr>)"

definition parse_site_layout :: "'b layout_codec \<Rightarrow> 'b \<Rightarrow> string + site_layout \<times> bool" where
  "parse_site_layout c bytes =
     bindE (parse_json c bytes) (\<lambda>value.
       case value of
         JObj kvs \<Rightarrow>
           let l = fold (read_key c) kvs default_layout
           in Inr (l, sl_version l > SITE_LAYOUT_VERSION)
       | _ \<Rightarrow> Inl ''the site layout is not a JSON object'')"

subsection \<open>Writing the JSON\<close>

fun favorite_json :: "favorite_ref \<Rightarrow> json" where
  "favorite_json (FavSite i) = JObj [(''kind'', JStr ''site''), (''id'', JStr i)]"
| "favorite_json (FavFolder p) = JObj [(''kind'', JStr ''folder''), (''path'', JStr p)]"

definition recent_json :: "recent_entry \<Rightarrow> json" where
  "recent_json r =
     JObj [(''id'', JStr (re_id r)),
           (''at'', case re_at r of Some t \<Rightarrow> JNum t | None \<Rightarrow> JNull),
           (''count'', JNum (int (re_count r)))]"

fun color_json :: "label_color \<Rightarrow> json" where
  "color_json Red = JStr ''red''"
| "color_json Orange = JStr ''orange''"
| "color_json Yellow = JStr ''yellow''"
| "color_json Green = JStr ''green''"
| "color_json Blue = JStr ''blue''"
| "color_json Purple = JStr ''purple''"
| "color_json Gray = JStr ''gray''"

definition label_json :: "label_def \<Rightarrow> json" where
  "label_json d =
     JObj [(''id'', JStr (ld_id d)), (''name'', JStr (ld_name d)), (''color'', color_json (ld_color d))]"

definition string_map_json :: "(string, string) bmap \<Rightarrow> json" where
  "string_map_json m = JObj (map (\<lambda>(k, v). (k, JStr v)) m)"

definition layout_json :: "site_layout \<Rightarrow> json" where
  "layout_json l =
     JObj ([(''version'', JNum (int (sl_version l))),
            (''folders'', JArr (map JStr (sl_folders l))),
            (''favorites'', JArr (map favorite_json (sl_favorites l))),
            (''recents'', JArr (map recent_json (sl_recents l))),
            (''labels'', JArr (map label_json (sl_labels l))),
            (''site_labels'', string_map_json (sl_site_labels l)),
            (''folder_labels'', string_map_json (sl_folder_labels l)),
            (''collapsed'', JArr (map JStr (sl_collapsed l))),
            (''migrated_local_storage'', JBool (sl_migrated l)),
            (''large_library_collapsed'', JBool (sl_large l))] @ sl_extra l)"

definition layout_bytes :: "'b layout_codec \<Rightarrow> site_layout \<Rightarrow> vault_error + 'b" where
  "layout_bytes c l =
     (if sl_version l > SITE_LAYOUT_VERSION
      then Inl (Other (''['' @ ERR_LAYOUT_READ_ONLY @ ''] the site layout was written by a newer RustSCP''))
      else Inr (write_json c (layout_json l)))"

subsection \<open>What a load gives\<close>

record loaded_layout =
  ll_layout :: site_layout
  ll_read_only :: bool
  ll_warning :: "string option"

definition fresh_layout :: "bool \<Rightarrow> string option \<Rightarrow> loaded_layout" where
  "fresh_layout ro warning = \<lparr>ll_layout = default_layout, ll_read_only = ro, ll_warning = warning\<rparr>"

definition unavailable :: "string \<Rightarrow> loaded_layout" where
  "unavailable m = fresh_layout True (Some (''['' @ WARN_LAYOUT_UNAVAILABLE @ ''] '' @ m))"

text \<open>The errors that do not mean a damaged file.\<close>

fun stays :: "bool \<Rightarrow> vault_error \<Rightarrow> bool" where
  "stays sites_vault_exists (KeychainUnavailable _) = True"
| "stays sites_vault_exists (DeviceKeyMissing _) = sites_vault_exists"
| "stays sites_vault_exists (IoError k _) = (k \<noteq> Io_NotFound)"
| "stays sites_vault_exists (Other _) = True"
| "stays sites_vault_exists _ = False"

definition set_aside ::
  "('w \<Rightarrow> (vault_error + string option) \<times> 'w) \<Rightarrow> string \<Rightarrow> 'w \<Rightarrow> loaded_layout \<times> 'w" where
  "set_aside quarantine problem w =
     (let reset = (\<lambda>moved. fresh_layout False (Some (''['' @ WARN_LAYOUT_RESET
            @ ''] Folders, favorites and labels could not be read ('' @ problem @ '') and start empty.'' @ moved)))
      in case quarantine w of
           (Inr (Some path), w') \<Rightarrow> (reset ('' It was kept as '' @ path @ ''.''), w')
         | (Inr None, w') \<Rightarrow> (reset [], w')
         | (Inl e, w') \<Rightarrow> (unavailable problem, w'))"

definition interpret_loaded_layout ::
  "'b layout_codec \<Rightarrow> vault_error + 'b option \<Rightarrow> bool \<Rightarrow> ('w \<Rightarrow> (vault_error + string option) \<times> 'w) \<Rightarrow> 'w
   \<Rightarrow> loaded_layout \<times> 'w" where
  "interpret_loaded_layout c loaded sites_vault_exists quarantine w =
     (case loaded of
        Inr None \<Rightarrow> (fresh_layout False None, w)
      | Inr (Some bytes) \<Rightarrow>
          (case parse_site_layout c bytes of
             Inr (l, newer) \<Rightarrow>
               (\<lparr>ll_layout = l, ll_read_only = newer,
                 ll_warning = (if newer then Some (''['' @ ERR_LAYOUT_READ_ONLY
                   @ ''] Folders, favorites and labels were saved by a newer RustSCP and are read-only here'')
                   else None)\<rparr>, w)
           | Inl e \<Rightarrow> set_aside quarantine e w)
      | Inl e \<Rightarrow>
          if stays sites_vault_exists e then (unavailable (vault_error_text e), w)
          else set_aside quarantine (vault_error_text e) w)"

definition interpret_loaded_layout_keeping ::
  "'b layout_codec \<Rightarrow> vault_error + 'b option \<Rightarrow> bool \<Rightarrow> bool
   \<Rightarrow> ('w \<Rightarrow> (vault_error + string option) \<times> 'w) \<Rightarrow> 'w \<Rightarrow> loaded_layout \<times> 'w" where
  "interpret_loaded_layout_keeping c loaded sites_vault_exists keep_file quarantine w =
     interpret_loaded_layout c loaded (sites_vault_exists \<or> keep_file)
       (\<lambda>w. if keep_file then (Inl (Other ''kept while the saved sites cannot be read''), w)
            else quarantine w) w"

record ('b, 'w) sealed_file =
  load_sealed :: "'w \<Rightarrow> vault_error + 'b option"
  vault_exists :: "'w \<Rightarrow> bool"
  quarantine_file :: "'w \<Rightarrow> (vault_error + string option) \<times> 'w"
  save_sealed :: "'b \<Rightarrow> 'w \<Rightarrow> (vault_error + unit) \<times> 'w"

definition load_site_layout ::
  "'b layout_codec \<Rightarrow> ('b, 'w) sealed_file \<Rightarrow> bool \<Rightarrow> 'w \<Rightarrow> loaded_layout \<times> 'w" where
  "load_site_layout c f keep_file w =
     interpret_loaded_layout_keeping c (load_sealed f w) (vault_exists f w) keep_file (quarantine_file f) w"

definition save_site_layout ::
  "'b layout_codec \<Rightarrow> ('b, 'w) sealed_file \<Rightarrow> site_layout \<Rightarrow> 'w \<Rightarrow> (vault_error + unit) \<times> 'w" where
  "save_site_layout c f l w =
     (case layout_bytes c l of Inl e \<Rightarrow> (Inl e, w) | Inr b \<Rightarrow> save_sealed f b w)"

subsection \<open>Round trip\<close>

text \<open>
  What a JSON text keeps of a value: a serde_json map is sorted by key. A value of a text has
  each key of an object once.
\<close>

fun canon :: "json \<Rightarrow> json" where
  "canon (JArr xs) = JArr (map canon xs)"
| "canon (JObj kvs) = JObj (sort_key fst (map (\<lambda>(k, v). (k, canon v)) kvs))"
| "canon v = v"

fun keys_once :: "json \<Rightarrow> bool" where
  "keys_once (JArr xs) = list_all keys_once xs"
| "keys_once (JObj kvs) = (distinct (map fst kvs) \<and> list_all (\<lambda>(k, v). keys_once v) kvs)"
| "keys_once v = True"

definition codec_laws :: "'b layout_codec \<Rightarrow> bool" where
  "codec_laws c =
     ((\<forall>v. keys_once v \<longrightarrow> parse_json c (write_json c v) = Inr (canon v)) \<and>
      (\<forall>f. read_favorite c (canon (favorite_json f)) = Some f) \<and>
      (\<forall>r. re_count r < 2 ^ 32 \<longrightarrow> read_recent c (canon (recent_json r)) = Some r) \<and>
      (\<forall>d. read_label c (canon (label_json d)) = Some d))"

definition known_keys :: "string list" where
  "known_keys = [''version'', ''folders'', ''favorites'', ''recents'', ''labels'', ''site_labels'',
     ''folder_labels'', ''collapsed'', ''migrated_local_storage'', ''large_library_collapsed'']"

text \<open>A layout as the program holds it: its containers are ordered, its numbers fit, and the
  keys it does not know came out of a JSON text.\<close>

definition layout_stored :: "site_layout \<Rightarrow> bool" where
  "layout_stored l =
     (sl_version l < 2 ^ 32 \<and> bset_ok (sl_folders l) \<and> bset_ok (sl_collapsed l) \<and>
      bmap_ok (sl_site_labels l) \<and> bmap_ok (sl_folder_labels l) \<and> bmap_ok (sl_extra l) \<and>
      (\<forall>r \<in> set (sl_recents l). re_count r < 2 ^ 32) \<and>
      (\<forall>(k, v) \<in> set (sl_extra l). k \<notin> set known_keys \<and> keys_once v \<and> canon v = v))"

lemma map_filter_Some: "(\<And>x. x \<in> set xs \<Longrightarrow> rd (f x) = Some x) \<Longrightarrow> List.map_filter rd (map f xs) = xs"
  by (induction xs) (auto simp: map_filter_def)

lemma insort_end: "bmap_ok (m @ [(k, v)]) \<Longrightarrow> bm_insert k v m = m @ [(k, v)]"
  by (induction m rule: bm_insert.induct) (auto simp: bmap_ok_def)

lemma fold_bm_insert: "bmap_ok (a @ m) \<Longrightarrow> fold (\<lambda>(k, v). bm_insert k v) m a = a @ m"
proof (induction m arbitrary: a)
  case (Cons kv m)
  obtain k v where kv: "kv = (k, v)" by (cases kv)
  have "bmap_ok (a @ [(k, v)])" using Cons.prems by (auto simp: bmap_ok_def kv sorted_append)
  then show ?case using Cons by (simp add: kv insort_end)
qed simp

lemma lenient_string_map_back:
  assumes "bmap_ok m"
  shows "lenient_string_map (canon (string_map_json m)) = m"
proof -
  let ?m = "map (\<lambda>(k, v). (k, JStr v)) m"
  have e: "map (\<lambda>(k, v). (k, canon v)) ?m = ?m" by (simp add: case_prod_unfold)
  have "sorted (map fst ?m)" using assms by (simp add: bmap_ok_def comp_def case_prod_unfold)
  then have s: "sort_key fst ?m = ?m" by (rule sort_key_id_if_sorted)
  have f: "fold (\<lambda>(k, v) m. case v of JStr s \<Rightarrow> bm_insert k s m | _ \<Rightarrow> m) (map (\<lambda>(k, v). (k, JStr v)) m) a =
      fold (\<lambda>(k, v). bm_insert k v) m a" for a
    by (induction m arbitrary: a) auto
  show ?thesis
    using f [of "[]"] fold_bm_insert [of "[]" m] assms
    by (simp only: string_map_json_def canon.simps e s lenient_string_map.simps) simp
qed

lemma distinct_sort_key: "distinct (map fst kvs) \<Longrightarrow> distinct (map fst (sort_key fst kvs))"
  by (simp add: distinct_map)

lemma map_of_sort_key:
  assumes "distinct (map fst kvs)"
  shows "map_of (sort_key fst kvs) = map_of kvs"
  using assms distinct_sort_key [OF assms] by (intro map_of_inject_set [THEN iffD2]) auto

text \<open>Each key of an object sets its own field.\<close>

lemma fold_field:
  assumes "\<And>k v l. p (read_key c (k, v) l) = (if k = key then r v (p l) else p l)"
    and "distinct (map fst kvs)"
  shows "p (fold (read_key c) kvs l) = (case map_of kvs key of Some v \<Rightarrow> r v (p l) | None \<Rightarrow> p l)"
  using assms(2)
proof (induction kvs arbitrary: l)
  case (Cons kv kvs)
  obtain k v where kv: "kv = (k, v)" by (cases kv)
  have "map_of kvs k = None" using Cons.prems by (simp add: kv map_of_eq_None_iff)
  then show ?case using Cons assms(1) by (auto simp: kv split: option.split)
qed simp

lemma read_key_field:
  "sl_version (read_key c (k, v) l) = (if k = ''version'' then case read_version v of Some n \<Rightarrow> n | None \<Rightarrow> sl_version l else sl_version l)"
  "sl_folders (read_key c (k, v) l) = (if k = ''folders'' then bs_of (lenient_vec read_string v) else sl_folders l)"
  "sl_favorites (read_key c (k, v) l) = (if k = ''favorites'' then lenient_vec (read_favorite c) v else sl_favorites l)"
  "sl_recents (read_key c (k, v) l) = (if k = ''recents'' then lenient_vec (read_recent c) v else sl_recents l)"
  "sl_labels (read_key c (k, v) l) = (if k = ''labels'' then lenient_vec (read_label c) v else sl_labels l)"
  "sl_site_labels (read_key c (k, v) l) = (if k = ''site_labels'' then lenient_string_map v else sl_site_labels l)"
  "sl_folder_labels (read_key c (k, v) l) = (if k = ''folder_labels'' then lenient_string_map v else sl_folder_labels l)"
  "sl_collapsed (read_key c (k, v) l) = (if k = ''collapsed'' then bs_of (lenient_vec read_string v) else sl_collapsed l)"
  "sl_migrated (read_key c (k, v) l) = (if k = ''migrated_local_storage'' then as_bool_or_false v else sl_migrated l)"
  "sl_large (read_key c (k, v) l) = (if k = ''large_library_collapsed'' then as_bool_or_false v else sl_large l)"
  unfolding read_key_def Let_def prod.case by (simp_all split: option.split)

lemmas read_fields =
  fold_field [where p = sl_version and key = "''version''" and r = "\<lambda>v x. case read_version v of Some n \<Rightarrow> n | None \<Rightarrow> x", OF read_key_field(1)]
  fold_field [where p = sl_folders and key = "''folders''" and r = "\<lambda>v x. bs_of (lenient_vec read_string v)", OF read_key_field(2)]
  fold_field [where p = sl_favorites and key = "''favorites''" and r = "\<lambda>v x. lenient_vec (read_favorite c) v", OF read_key_field(3)]
  fold_field [where p = sl_recents and key = "''recents''" and r = "\<lambda>v x. lenient_vec (read_recent c) v", OF read_key_field(4)]
  fold_field [where p = sl_labels and key = "''labels''" and r = "\<lambda>v x. lenient_vec (read_label c) v", OF read_key_field(5)]
  fold_field [where p = sl_site_labels and key = "''site_labels''" and r = "\<lambda>v x. lenient_string_map v", OF read_key_field(6)]
  fold_field [where p = sl_folder_labels and key = "''folder_labels''" and r = "\<lambda>v x. lenient_string_map v", OF read_key_field(7)]
  fold_field [where p = sl_collapsed and key = "''collapsed''" and r = "\<lambda>v x. bs_of (lenient_vec read_string v)", OF read_key_field(8)]
  fold_field [where p = sl_migrated and key = "''migrated_local_storage''" and r = "\<lambda>v x. as_bool_or_false v", OF read_key_field(9)]
  fold_field [where p = sl_large and key = "''large_library_collapsed''" and r = "\<lambda>v x. as_bool_or_false v", OF read_key_field(10)]
  for c :: "'b layout_codec"

lemma read_extra:
  assumes "distinct (map fst kvs)" and "bmap_ok (sl_extra l)"
  shows "bmap_ok (sl_extra (fold (read_key c) kvs l)) \<and>
    bm_get (sl_extra (fold (read_key c) kvs l)) k =
      (if k \<in> set known_keys then bm_get (sl_extra l) k
       else case map_of kvs k of Some v \<Rightarrow> Some v | None \<Rightarrow> bm_get (sl_extra l) k)"
  using assms
proof (induction kvs arbitrary: l)
  case (Cons kv kvs)
  obtain key v where kv: "kv = (key, v)" by (cases kv)
  have e: "sl_extra (read_key c kv l) = (if key \<in> set known_keys then sl_extra l else bm_insert key v (sl_extra l))"
    by (simp add: read_key_def kv known_keys_def split: option.split)
  have ok: "bmap_ok (sl_extra (read_key c kv l))" using Cons.prems e by simp
  have n: "map_of kvs key = None" using Cons.prems(1) by (simp add: kv map_of_eq_None_iff)
  show ?case
    using Cons.IH [OF _ ok] Cons.prems(1) n e by (auto simp: kv split: option.split)
qed simp


lemma layout_json_fields:
  fixes l :: site_layout
  defines "kvs \<equiv> (case layout_json l of JObj kvs \<Rightarrow> kvs | _ \<Rightarrow> [])"
  assumes "layout_stored l"
  shows "layout_json l = JObj kvs" and "distinct (map fst kvs)" and "keys_once (JObj kvs)"
    and "map_of kvs = (map_of (sl_extra l))(
       ''version'' \<mapsto> JNum (int (sl_version l)),
       ''folders'' \<mapsto> JArr (map JStr (sl_folders l)),
       ''favorites'' \<mapsto> JArr (map favorite_json (sl_favorites l)),
       ''recents'' \<mapsto> JArr (map recent_json (sl_recents l)),
       ''labels'' \<mapsto> JArr (map label_json (sl_labels l)),
       ''site_labels'' \<mapsto> string_map_json (sl_site_labels l),
       ''folder_labels'' \<mapsto> string_map_json (sl_folder_labels l),
       ''collapsed'' \<mapsto> JArr (map JStr (sl_collapsed l)),
       ''migrated_local_storage'' \<mapsto> JBool (sl_migrated l),
       ''large_library_collapsed'' \<mapsto> JBool (sl_large l))"
proof -
  show j: "layout_json l = JObj kvs" by (simp add: kvs_def layout_json_def)
  have k: "map fst kvs = known_keys @ map fst (sl_extra l)"
    by (simp add: kvs_def layout_json_def known_keys_def)
  have "set known_keys \<inter> fst ` set (sl_extra l) = {}" using assms(2) by (auto simp: layout_stored_def)
  moreover have "distinct known_keys" by (simp add: known_keys_def)
  moreover have "distinct (map fst (sl_extra l))" using assms(2) by (simp add: layout_stored_def bmap_ok_def)
  ultimately show d: "distinct (map fst kvs)" unfolding k by simp
  have "keys_once (string_map_json m)" if "bmap_ok m" for m
    using that by (auto simp: string_map_json_def bmap_ok_def comp_def case_prod_unfold list_all_iff)
  moreover have "keys_once (favorite_json f)" for f by (cases f) auto
  moreover have "keys_once (color_json x)" for x by (cases x) auto
  ultimately show "keys_once (JObj kvs)"
    using assms(2) d unfolding layout_stored_def
    by (auto simp: kvs_def layout_json_def list_all_iff recent_json_def label_json_def split: option.split)
  show "map_of kvs = (map_of (sl_extra l))(
       ''version'' \<mapsto> JNum (int (sl_version l)),
       ''folders'' \<mapsto> JArr (map JStr (sl_folders l)),
       ''favorites'' \<mapsto> JArr (map favorite_json (sl_favorites l)),
       ''recents'' \<mapsto> JArr (map recent_json (sl_recents l)),
       ''labels'' \<mapsto> JArr (map label_json (sl_labels l)),
       ''site_labels'' \<mapsto> string_map_json (sl_site_labels l),
       ''folder_labels'' \<mapsto> string_map_json (sl_folder_labels l),
       ''collapsed'' \<mapsto> JArr (map JStr (sl_collapsed l)),
       ''migrated_local_storage'' \<mapsto> JBool (sl_migrated l),
       ''large_library_collapsed'' \<mapsto> JBool (sl_large l))"
    unfolding kvs_def layout_json_def by (simp add: fun_upd_twist)
qed


lemma parse_layout_back:
  assumes c: "codec_laws c" and l: "layout_stored l"
  shows "parse_site_layout c (write_json c (layout_json l)) = Inr (l, sl_version l > SITE_LAYOUT_VERSION)"
proof -
  obtain kvs where j: "layout_json l = JObj kvs" by (simp add: layout_json_def)
  note f = layout_json_fields [OF l, unfolded j json.case]
  let ?kvs = "sort_key fst (map (\<lambda>(k, v). (k, canon v)) kvs)"
  let ?r = "fold (read_key c) ?kvs default_layout"
  have dk: "distinct (map fst (map (\<lambda>(k, v). (k, canon v)) kvs))"
    using f(2) by (simp add: comp_def case_prod_unfold)
  have d: "distinct (map fst ?kvs)" by (rule distinct_sort_key [OF dk])
  have m: "map_of ?kvs = map_option canon \<circ> map_of kvs"
    unfolding map_of_sort_key [OF dk] by (rule map_of_map)
  have x: "map_of (sl_extra l) k = None" if "k \<in> set known_keys" for k
    using l that by (auto simp: layout_stored_def map_of_eq_None_iff)
  have c': "read_favorite c (canon (favorite_json fv)) = Some fv"
      "re_count rc < 2 ^ 32 \<Longrightarrow> read_recent c (canon (recent_json rc)) = Some rc"
      "read_label c (canon (label_json d)) = Some d" for fv rc d
    using c by (auto simp: codec_laws_def)
  have strs: "List.map_filter read_string (map (canon \<circ> JStr) ss) = ss" for ss
    by (rule map_filter_Some) simp
  have favs: "List.map_filter (read_favorite c) (map (canon \<circ> favorite_json) fs) = fs" for fs
    by (rule map_filter_Some) (simp add: c')
  have labs: "List.map_filter (read_label c) (map (canon \<circ> label_json) ds) = ds" for ds
    by (rule map_filter_Some) (simp add: c')
  have recs: "List.map_filter (read_recent c) (map (canon \<circ> recent_json) (sl_recents l)) = sl_recents l"
    by (rule map_filter_Some) (use l in \<open>auto simp: c' layout_stored_def\<close>)
  note s = l [unfolded layout_stored_def]
  have fields: "sl_version ?r = sl_version l" "sl_folders ?r = sl_folders l"
    "sl_favorites ?r = sl_favorites l" "sl_recents ?r = sl_recents l" "sl_labels ?r = sl_labels l"
    "sl_site_labels ?r = sl_site_labels l" "sl_folder_labels ?r = sl_folder_labels l"
    "sl_collapsed ?r = sl_collapsed l" "sl_migrated ?r = sl_migrated l" "sl_large ?r = sl_large l"
    unfolding read_fields [OF d] m f(4)
    using s strs favs labs recs by (simp_all add: bs_of_id lenient_string_map_back)
  have "bm_get (sl_extra ?r) = bm_get (sl_extra l)" and "bmap_ok (sl_extra ?r)"
  proof -
    note e = read_extra [OF d, of default_layout c]
    have z: "bmap_ok (sl_extra default_layout)" "bm_get (sl_extra default_layout) k = None" for k
      by (simp_all add: default_layout_def)
    show "bmap_ok (sl_extra ?r)" using e z by blast
    show "bm_get (sl_extra ?r) = bm_get (sl_extra l)"
    proof
      fix k
      have known: "bm_get (sl_extra l) k = None" if "k \<in> set known_keys"
        using x [OF that] by (simp add: bm_get_None map_of_eq_None_iff)
      have unknown: "map_of kvs k = map_of (sl_extra l) k" if "k \<notin> set known_keys"
        using that unfolding f(4) by (simp add: known_keys_def)
      have canon: "map_option canon (map_of (sl_extra l) k) = bm_get (sl_extra l) k"
        using s by (cases "map_of (sl_extra l) k") (auto simp: bm_get_def dest!: map_of_SomeD)
      show "bm_get (sl_extra ?r) k = bm_get (sl_extra l) k"
        using e z known unknown canon unfolding m by (cases "k \<in> set known_keys") (auto split: option.splits)
    qed
  qed
  then have "sl_extra ?r = sl_extra l" using s by (intro bmap_eqI) simp_all
  with fields have r: "?r = l" by (cases l; cases ?r) simp
  have "parse_json c (write_json c (layout_json l)) = Inr (JObj ?kvs)"
    using c f(3) unfolding j codec_laws_def by simp
  then show ?thesis by (simp add: parse_site_layout_def bindE_def r Let_def)
qed

subsection \<open>Properties\<close>

text \<open>
  C12: Saving and loading the layout is a round trip: when a save succeeds, the next load gives
  the same layout, unknown keys included, writable and without a warning.
\<close>

theorem saved_layout_loads:
  assumes c: "codec_laws c" and l: "layout_stored l"
    and sealed: "\<And>b w w'. save_sealed f b w = (Inr (), w') \<Longrightarrow> load_sealed f w' = Inr (Some b)"
    and saved: "save_site_layout c f l w = (Inr (), w')"
  shows "load_site_layout c f keep w' = (\<lparr>ll_layout = l, ll_read_only = False, ll_warning = None\<rparr>, w')"
proof -
  have v: "\<not> sl_version l > SITE_LAYOUT_VERSION"
    and s: "save_sealed f (write_json c (layout_json l)) w = (Inr (), w')"
    using saved by (auto simp: save_site_layout_def layout_bytes_def split: if_splits)
  show ?thesis
    unfolding load_site_layout_def interpret_loaded_layout_keeping_def interpret_loaded_layout_def sealed [OF s]
    using parse_layout_back [OF c l] v by simp
qed

text \<open>
  C13: A load never leaves a file it could not read open to being overwritten: a layout that may
  be written back comes from a missing file, from a file of this version read in full, or after
  the file was moved aside, which a load that has to keep the file never does; nothing else
  touches the files.
\<close>

theorem load_keeps_unreadable_file:
  "case load_site_layout c f keep w of (r, w') \<Rightarrow>
     (ll_read_only r \<or> load_sealed f w = Inr None \<or>
      (\<exists>b. load_sealed f w = Inr (Some b) \<and> parse_site_layout c b = Inr (ll_layout r, False)) \<or>
      (keep = False \<and> (\<exists>p. quarantine_file f w = (Inr p, w')))) \<and>
     (w' = w \<or> (keep = False \<and> w' = snd (quarantine_file f w)))"
proof -
  have aside: "case set_aside q m w of (r, w') \<Rightarrow>
      (ll_read_only r \<or> (\<exists>p. q w = (Inr p, w'))) \<and> w' = snd (q w)" for q m
    by (auto simp: set_aside_def Let_def unavailable_def fresh_layout_def split: prod.split sum.split option.split)
  let ?q = "\<lambda>w. if keep then (Inl (Other ''kept while the saved sites cannot be read''), w)
            else quarantine_file f w"
  have load: "load_site_layout c f keep w = interpret_loaded_layout c (load_sealed f w) (vault_exists f w \<or> keep) ?q w"
    by (simp add: load_site_layout_def interpret_loaded_layout_keeping_def)
  have gone: "case set_aside ?q m w of (r, w') \<Rightarrow>
     (ll_read_only r \<or> (keep = False \<and> (\<exists>p. quarantine_file f w = (Inr p, w')))) \<and>
     (w' = w \<or> (keep = False \<and> w' = snd (quarantine_file f w)))" for m
    using aside [of ?q m] by (cases keep) (auto split: prod.splits)
  show ?thesis
  proof (cases "load_sealed f w")
    case (Inl e)
    show ?thesis
    proof (cases "stays (vault_exists f w \<or> keep) e")
      case False
      then show ?thesis using gone [of "vault_error_text e"]
        unfolding load Inl interpret_loaded_layout_def by (auto split: prod.splits)
    qed (simp add: load Inl interpret_loaded_layout_def unavailable_def fresh_layout_def)
  next
    case (Inr r)
    show ?thesis
    proof (cases r)
      case None
      then show ?thesis by (simp add: load Inr interpret_loaded_layout_def)
    next
      case (Some b)
      show ?thesis
      proof (cases "parse_site_layout c b")
        case (Inl e)
        then show ?thesis using gone [of e] \<open>load_sealed f w = Inr r\<close> Some
          unfolding load interpret_loaded_layout_def by (auto split: prod.splits)
      qed (auto simp: load Inr Some interpret_loaded_layout_def)
    qed
  qed
qed

subsection \<open>Witness\<close>

fun demo_favorite :: "json \<Rightarrow> favorite_ref option" where
  "demo_favorite (JObj [(k, JStr a), (_, JStr b)]) =
     (if k = ''id'' then Some (FavSite a) else Some (FavFolder b))"
| "demo_favorite _ = None"

fun demo_recent :: "json \<Rightarrow> recent_entry option" where
  "demo_recent (JObj [(_, at), (_, JNum n), (_, JStr i)]) =
     Some \<lparr>re_id = i, re_at = (case at of JNum t \<Rightarrow> Some t | _ \<Rightarrow> None), re_count = nat n\<rparr>"
| "demo_recent _ = None"

definition demo_colors :: "label_color list" where
  "demo_colors = [Red, Orange, Yellow, Green, Blue, Purple, Gray]"

fun demo_label :: "json \<Rightarrow> label_def option" where
  "demo_label (JObj [(_, x), (_, JStr i), (_, JStr n)]) =
     map_option (\<lambda>col. \<lparr>ld_id = i, ld_name = n, ld_color = col\<rparr>)
       (find (\<lambda>col. color_json col = x) demo_colors)"
| "demo_label _ = None"

definition demo_codec :: "json layout_codec" where
  "demo_codec = \<lparr>parse_json = (\<lambda>v. Inr (canon v)), write_json = (\<lambda>v. v), read_favorite = demo_favorite,
     read_recent = demo_recent, read_label = demo_label\<rparr>"

definition demo_file :: "(json, json option) sealed_file" where
  "demo_file = \<lparr>load_sealed = (\<lambda>w. Inr w), vault_exists = (\<lambda>w. True),
     quarantine_file = (\<lambda>w. (Inr None, None)), save_sealed = (\<lambda>b w. (Inr (), Some b))\<rparr>"

lemma demo_codec_laws: "codec_laws demo_codec"
proof -
  have "demo_favorite (canon (favorite_json f)) = Some f" for f by (cases f) (simp_all add: less_eq_list_code)
  moreover have "demo_recent (canon (recent_json r)) = Some r" for r
    by (cases r) (simp add: recent_json_def less_eq_list_code split: option.split)
  moreover have "demo_label (canon (label_json d)) = Some d" for d
  proof -
    have x: "canon (color_json (ld_color d)) = color_json (ld_color d)" by (cases "ld_color d") simp_all
    have c: "canon (label_json d) =
        JObj [(''color'', color_json (ld_color d)), (''id'', JStr (ld_id d)), (''name'', JStr (ld_name d))]"
      by (simp add: label_json_def x less_eq_list_code)
    have f: "find (\<lambda>col. color_json col = color_json (ld_color d)) demo_colors = Some (ld_color d)"
      by (cases "ld_color d") (simp_all add: demo_colors_def)
    show ?thesis unfolding c by (simp add: f)
  qed
  ultimately show ?thesis by (simp add: codec_laws_def demo_codec_def)
qed

definition demo_extra_layout :: site_layout where
  "demo_extra_layout = default_layout\<lparr>sl_folders := [''A''], sl_favorites := [FavFolder ''A''],
     sl_extra := [(''zoom'', JNum 2)]\<rparr>"

theorem saved_layout_loads_witness:
  "\<exists>w'. save_site_layout demo_codec demo_file demo_extra_layout None = (Inr (), w') \<and>
     ll_layout (fst (load_site_layout demo_codec demo_file False w')) = demo_extra_layout"
proof -
  have l: "layout_stored demo_extra_layout"
    by (simp add: layout_stored_def demo_extra_layout_def default_layout_def SITE_LAYOUT_VERSION_def
        bset_ok_def bmap_ok_def known_keys_def)
  have s: "save_site_layout demo_codec demo_file demo_extra_layout None = (Inr (), Some (layout_json demo_extra_layout))"
    by (simp add: save_site_layout_def layout_bytes_def demo_extra_layout_def default_layout_def
        demo_codec_def demo_file_def)
  have "load_sealed demo_file w' = Inr (Some b)" if "save_sealed demo_file b w = (Inr (), w')" for b w w'
    using that by (simp add: demo_file_def)
  from saved_layout_loads [OF demo_codec_laws l this s, where keep = False] s show ?thesis by simp
qed

end
