(* ===== verification/TransferPaths.thy ===== *)
theory TransferPaths
  imports CoreTypes
begin

section \<open>Paths of a transfer\<close>

text \<open>
  Models the pure functions of \<open>crates/rustscp-core/src/transfer_queue.rs\<close>: splitting,
  joining and comparing paths, temporary and probe names, and the tests a name from a folder
  listing has to pass. \<open>cfg!(windows)\<close> reaches the functions as the argument
  \<open>windows_dest\<close>, as in the code.
\<close>

definition is_sep :: "char \<Rightarrow> bool" where
  "is_sep c = (c = CHR ''/'' \<or> c = CHR 0x5C)"

lemma is_sep_simps [simp]: "is_sep (CHR ''/'')" "is_sep (CHR 0x5C)" "\<not> is_sep (CHR ''.'')"
  by (simp_all add: is_sep_def)

subsection \<open>Names\<close>

definition temp_tag :: "string \<Rightarrow> string" where
  "temp_tag task_id =
     (let hex = filter is_ascii_hexdigit task_id;
          tag = drop (length hex - 12) hex
      in if tag = [] then ''0'' else to_ascii_lowercase tag)"

text \<open>The parent with its separator, and the final name.\<close>

definition split_name :: "string \<Rightarrow> string \<times> string" where
  "split_name path =
     (let name = rev (takeWhile (\<lambda>c. \<not> is_sep c) (rev path))
      in (take (length path - length name) path, name))"

text \<open>The loop that shortens a name to at most 120 bytes.\<close>

fun short_name :: "string \<Rightarrow> string \<Rightarrow> string" where
  "short_name [] short = short"
| "short_name (c # cs) short =
     (if str_len short + len_utf8 c > 120 then short else short_name cs (short @ [c]))"

definition temp_file_name :: "string \<Rightarrow> string \<Rightarrow> string" where
  "temp_file_name name tag = ''.'' @ short_name name [] @ ''.rustscp-'' @ tag @ ''.part''"

definition probe_file_name :: "string \<Rightarrow> string" where
  "probe_file_name tag = ''.rustscp-probe-'' @ tag @ ''.tmp''"

definition toggle_ascii_case :: "string \<Rightarrow> string" where
  "toggle_ascii_case =
     map (\<lambda>c. if is_ascii_lower c then ascii_upper c else if is_ascii_upper c then ascii_lower c else c)"

definition is_unsafe_entry_name :: "string \<Rightarrow> bool \<Rightarrow> bool \<Rightarrow> bool" where
  "is_unsafe_entry_name name backslash_is_separator windows_dest =
     (if CHR ''/'' \<in> set name \<or> CHR 0x00 \<in> set name \<or> backslash_is_separator \<and> CHR 0x5C \<in> set name
      then True
      else windows_dest \<and> (CHR '':'' \<in> set name \<or> list_all (\<lambda>c. c = CHR ''.'' \<or> c = CHR '' '') name))"

text \<open>The quoted form \<open>{:?}\<close> of a string.\<close>

definition debug_char :: "char \<Rightarrow> string" where
  "debug_char c =
     (if c = CHR 0x00 then [CHR 0x5C, CHR ''0'']
      else if c = CHR 0x09 then [CHR 0x5C, CHR ''t''] else if c = CHR 0x0A then [CHR 0x5C, CHR ''n'']
      else if c = CHR 0x0D then [CHR 0x5C, CHR ''r'']
      else if c = CHR 0x22 \<or> c = CHR 0x5C then [CHR 0x5C, c]
      else if 32 \<le> code c \<and> code c < 127 \<or> 160 < code c \<and> code c \<noteq> 173 then [c]
      else [CHR 0x5C] @ ''u{'' @ show_hex (code c) @ ''}'')"

definition debug_str :: "string \<Rightarrow> string" where
  "debug_str s = [CHR 0x22] @ concat (map debug_char s) @ [CHR 0x22]"

subsection \<open>Comparing paths\<close>

text \<open>The loop over the components: \<open>parts\<close> is the vector, last component first.\<close>

fun norm_loop :: "string list \<Rightarrow> string list \<Rightarrow> string list" where
  "norm_loop [] parts = parts"
| "norm_loop (p # ps) parts =
     (if p = [] \<or> p = ''.'' then norm_loop ps parts
      else if p = ''..'' then norm_loop ps (tl parts)
      else norm_loop ps (p # parts))"

definition unify_seps :: "string \<Rightarrow> string" where
  "unify_seps = map (\<lambda>c. if c = CHR 0x5C then CHR ''/'' else c)"

definition norm_parts :: "string \<Rightarrow> string list" where
  "norm_parts path = rev (norm_loop (split_on (\<lambda>c. c = CHR ''/'') (unify_seps path)) [])"

definition is_absolute :: "string \<Rightarrow> bool" where
  "is_absolute path = starts_with (unify_seps path) ''/''"

definition normalize_for_compare :: "string \<Rightarrow> string" where
  "normalize_for_compare path =
     (let joined = join ''/'' (norm_parts path)
      in if is_absolute path then ''/'' @ joined else joined)"

definition is_strictly_inside :: "string \<Rightarrow> string \<Rightarrow> bool" where
  "is_strictly_inside child root =
     (let root_n = normalize_for_compare root; child_n = normalize_for_compare child in
      if root_n = []
      then child_n \<noteq> [] \<and> ''..'' \<notin> set (split_on is_sep child)
      else starts_with child_n (trim_end_matches (\<lambda>c. c = CHR ''/'') root_n @ ''/''))"

definition case_fold_key :: "string \<Rightarrow> bool \<Rightarrow> string" where
  "case_fold_key path windows_dest =
     join ''/'' (map (\<lambda>part.
         let lower = to_lowercase part in
         if windows_dest then trim_end_matches (\<lambda>c. c = CHR ''.'' \<or> c = CHR '' '') lower else lower)
       (split_on is_sep path))"

definition join_path :: "string \<Rightarrow> string \<Rightarrow> string" where
  "join_path base name =
     (if base = [] then name
      else if ends_with base ''/'' \<or> ends_with base [CHR 0x5C] then base @ name
      else base @ ''/'' @ name)"

definition is_same_or_inside :: "string \<Rightarrow> string \<Rightarrow> bool \<times> bool" where
  "is_same_or_inside candidate parent =
     (let c = normalize_for_compare candidate; p = normalize_for_compare parent;
          same = (c = p);
          inside = (if p = ''/'' \<or> p = [] then \<not> same else starts_with c (p @ ''/''))
      in (same, inside))"

definition self_transfer_rejection :: "string \<Rightarrow> string \<Rightarrow> string option" where
  "self_transfer_rejection source dest =
     (case is_same_or_inside dest source of
        (True, _) \<Rightarrow> Some ''Source and destination are the same; nothing was transferred''
      | (False, True) \<Rightarrow> Some ''A folder cannot be copied or moved into itself; nothing was transferred''
      | _ \<Rightarrow> None)"

subsection \<open>Normal forms\<close>

lemma norm_loop_append: "norm_loop (as @ bs) parts = norm_loop bs (norm_loop as parts)"
  by (induction as parts rule: norm_loop.induct) auto

lemma set_norm_loop: "set (norm_loop ps parts) \<subseteq> set parts \<union> (set ps - {[], ''.'', ''..''})"
proof (induction ps parts rule: norm_loop.induct)
  case (2 p ps parts)
  have "set (tl parts) \<subseteq> set parts" by (cases parts) auto
  then show ?case using 2 by auto
qed simp

lemma unify_seps_no_backslash: "CHR 0x5C \<notin> set (unify_seps s)"
  by (auto simp: unify_seps_def)

lemma norm_parts_plain:
  "p \<in> set (norm_parts path) \<Longrightarrow> p \<noteq> [] \<and> p \<noteq> ''.'' \<and> p \<noteq> ''..'' \<and> CHR ''/'' \<notin> set p"
  using set_norm_loop [of "split_on (\<lambda>c. c = CHR ''/'') (unify_seps path)" "[]"]
    split_on_pieces [of p "\<lambda>c. c = CHR ''/''" "unify_seps path" "CHR ''/''"]
  by (auto simp: norm_parts_def)

text \<open>Component lists as the normal form holds them.\<close>

definition plain_parts :: "string list \<Rightarrow> bool" where
  "plain_parts ps = (\<forall>p \<in> set ps. p \<noteq> [] \<and> CHR ''/'' \<notin> set p)"

lemma plain_norm_parts [simp]: "plain_parts (norm_parts path)"
  using norm_parts_plain by (auto simp: plain_parts_def)

lemma split_join_plain: "plain_parts ps \<Longrightarrow> ps \<noteq> [] \<Longrightarrow> split_on (\<lambda>c. c = CHR ''/'') (join ''/'' ps) = ps"
  by (rule split_on_join) (auto simp: plain_parts_def)

lemma join_not_slash:
  assumes "plain_parts ps" shows "\<not> starts_with (join ''/'' ps) ''/''"
proof (cases ps)
  case (Cons p qs)
  then obtain c cs where "p = c # cs" "c \<noteq> CHR ''/''" using assms by (cases p) (auto simp: plain_parts_def)
  then show ?thesis using Cons by (cases qs) (auto simp: starts_with_def)
qed (simp add: starts_with_def)

lemma join_plain_inj: "plain_parts ps \<Longrightarrow> plain_parts qs \<Longrightarrow> join ''/'' ps = join ''/'' qs \<longleftrightarrow> ps = qs"
proof -
  assume p: "plain_parts ps" "plain_parts qs"
  have nil: "join ''/'' xs = [] \<Longrightarrow> xs = []" if "plain_parts xs" for xs
    using that by (cases xs; cases "tl xs") (auto simp: plain_parts_def join_Cons neq_Nil_conv)
  show ?thesis
  proof
    assume e: "join ''/'' ps = join ''/'' qs"
    show "ps = qs"
    proof (cases "ps = []")
      case True
      then show ?thesis using e nil [OF p(2)] by simp
    next
      case False
      then have "qs \<noteq> []" using e nil [OF p(1)] by auto
      then show ?thesis using split_join_plain [OF p(1) False] split_join_plain [OF p(2)] e by metis
    qed
  qed simp
qed

lemma join_append: "ps \<noteq> [] \<Longrightarrow> rs \<noteq> [] \<Longrightarrow> join sep (ps @ rs) = join sep ps @ sep @ join sep rs"
  by (induction sep ps rule: join.induct) (auto simp: join_Cons)

lemma prefix_join:
  assumes "plain_parts ps" "plain_parts qs" "ps \<noteq> []"
  shows "starts_with (join ''/'' qs) (join ''/'' ps @ ''/'') \<longleftrightarrow> (\<exists>rs. rs \<noteq> [] \<and> qs = ps @ rs)"
proof
  assume "starts_with (join ''/'' qs) (join ''/'' ps @ ''/'')"
  then obtain t where t: "join ''/'' qs = join ''/'' ps @ CHR ''/'' # t" by (auto simp: starts_with_prefix prefix_def)
  then have "qs \<noteq> []" by auto
  then have "qs = split_on (\<lambda>c. c = CHR ''/'') (join ''/'' ps @ CHR ''/'' # t)"
    using split_join_plain [OF assms(2)] t by simp
  also have "\<dots> = ps @ split_on (\<lambda>c. c = CHR ''/'') t"
    using split_join_plain [OF assms(1,3)] by (simp add: split_on_append)
  finally show "\<exists>rs. rs \<noteq> [] \<and> qs = ps @ rs" by (metis split_on_not_Nil)
next
  assume "\<exists>rs. rs \<noteq> [] \<and> qs = ps @ rs"
  then obtain rs where rs: "rs \<noteq> []" "qs = ps @ rs" by blast
  show "starts_with (join ''/'' qs) (join ''/'' ps @ ''/'')"
    by (simp add: rs join_append [OF assms(3) rs(1)] starts_with_prefix)
qed

lemma normalize_eq:
  "normalize_for_compare a = normalize_for_compare b \<longleftrightarrow>
   is_absolute a = is_absolute b \<and> norm_parts a = norm_parts b"
proof -
  have s: "starts_with (''/'' @ x) ''/''" for x by (simp add: starts_with_def)
  show ?thesis
    using join_plain_inj join_not_slash [OF plain_norm_parts, of a] join_not_slash [OF plain_norm_parts, of b]
      s [of "join ''/'' (norm_parts a)"] s [of "join ''/'' (norm_parts b)"]
    by (cases "is_absolute a"; cases "is_absolute b") (auto simp: normalize_for_compare_def Let_def)
qed

text \<open>One path below another, on normal forms.\<close>

lemma normalize_below:
  assumes "norm_parts p \<noteq> []"
  shows "starts_with (normalize_for_compare c) (normalize_for_compare p @ ''/'') \<longleftrightarrow>
     is_absolute c = is_absolute p \<and> (\<exists>rs. rs \<noteq> [] \<and> norm_parts c = norm_parts p @ rs)"
proof -
  note n = normalize_for_compare_def Let_def
  have pj: "join ''/'' (norm_parts p) \<noteq> []"
    using assms by (auto simp: join_eq_Nil dest: norm_parts_plain) (metis list.set_intros(1) norm_parts_plain)
  have step: "starts_with (''/'' @ x) (''/'' @ y) = starts_with x y" for x y by (simp add: starts_with_def)
  have no: "\<not> starts_with (join ''/'' (norm_parts c)) (''/'' @ y)" for y
    using join_not_slash [OF plain_norm_parts, of c] by (auto simp: starts_with_prefix prefix_def)
  have no': "\<not> starts_with (''/'' @ x) (join ''/'' (norm_parts p) @ y)" for x y
    using join_not_slash [OF plain_norm_parts, of p] pj
    by (cases "join ''/'' (norm_parts p)") (auto simp: starts_with_prefix prefix_def)
  show ?thesis
    using prefix_join [OF plain_norm_parts plain_norm_parts assms, of c] no no' [of _ "''/''"] step
    by (cases "is_absolute c"; cases "is_absolute p") (auto simp: n)
qed

lemma normalize_Nil: "normalize_for_compare p = [] \<longleftrightarrow> \<not> is_absolute p \<and> norm_parts p = []"
proof -
  have "join ''/'' (norm_parts p) = [] \<longleftrightarrow> norm_parts p = []"
    using norm_parts_plain by (auto simp: join_eq_Nil) (metis list.set_intros(1))
  then show ?thesis by (simp add: normalize_for_compare_def Let_def)
qed

lemma normalize_slash: "normalize_for_compare p = ''/'' \<longleftrightarrow> is_absolute p \<and> norm_parts p = []"
proof -
  have a: "normalize_for_compare ''/'' = ''/''" "is_absolute ''/''" "norm_parts ''/'' = []" by code_simp+
  show ?thesis using normalize_eq [of p "''/''"] a by simp
qed

lemma trim_slash_normal:
  assumes "norm_parts p \<noteq> []"
  shows "trim_end_matches (\<lambda>c. c = CHR ''/'') (normalize_for_compare p) = normalize_for_compare p"
proof (rule trim_end_matches_id)
  have last: "join ''/'' ps \<noteq> [] \<and> last (join ''/'' ps) \<noteq> CHR ''/''"
    if "ps \<noteq> []" "plain_parts ps" for ps
    using that
  proof (induction ps)
    case (Cons q qs)
    then have q: "q \<noteq> []" "last q \<noteq> CHR ''/''" by (auto simp: plain_parts_def dest!: last_in_set)
    show ?case
    proof (cases "qs = []")
      case False
      then show ?thesis using Cons.IH Cons.prems by (auto simp: join_Cons plain_parts_def)
    qed (use q in simp)
  qed simp
  from last [OF assms plain_norm_parts]
  show "normalize_for_compare p = [] \<or> last (normalize_for_compare p) \<noteq> CHR ''/''"
    by (auto simp: normalize_for_compare_def Let_def)
qed

text \<open>What \<open>is_strictly_inside\<close> says of the components.\<close>

lemma is_strictly_inside_iff:
  assumes "norm_parts root \<noteq> []"
  shows "is_strictly_inside child root \<longleftrightarrow>
     is_absolute child = is_absolute root \<and> (\<exists>rs. rs \<noteq> [] \<and> norm_parts child = norm_parts root @ rs)"
proof -
  have "normalize_for_compare root \<noteq> []" using assms normalize_Nil by blast
  then show ?thesis
    by (simp add: is_strictly_inside_def Let_def trim_slash_normal [OF assms] normalize_below [OF assms])
qed

lemma is_strictly_inside_root:
  assumes "norm_parts root = []" and "is_absolute root"
  shows "is_strictly_inside child root \<longleftrightarrow> is_absolute child"
proof -
  have "normalize_for_compare root = ''/''" using assms normalize_slash by blast
  moreover have "starts_with (normalize_for_compare child) ''/'' \<longleftrightarrow> is_absolute child"
    using join_not_slash [OF plain_norm_parts, of child]
    by (simp add: normalize_for_compare_def Let_def starts_with_def)
  ultimately show ?thesis by (simp add: is_strictly_inside_def trim_end_matches_def)
qed

lemma is_same_or_inside_iff:
  "is_same_or_inside candidate parent =
     (is_absolute candidate = is_absolute parent \<and> norm_parts candidate = norm_parts parent,
      if norm_parts parent = []
      then \<not> (is_absolute candidate = is_absolute parent \<and> norm_parts candidate = norm_parts parent)
      else is_absolute candidate = is_absolute parent \<and>
        (\<exists>rs. rs \<noteq> [] \<and> norm_parts candidate = norm_parts parent @ rs))"
  using normalize_Nil [of parent] normalize_slash [of parent] normalize_below [of parent candidate]
  by (auto simp: is_same_or_inside_def Let_def normalize_eq)

lemma self_transfer_rejection_iff:
  "(self_transfer_rejection source dest \<noteq> None) \<longleftrightarrow>
     norm_parts source = [] \<or> is_absolute dest = is_absolute source \<and> prefix (norm_parts source) (norm_parts dest)"
proof -
  obtain a b where ab: "is_same_or_inside dest source = (a, b)" by (cases "is_same_or_inside dest source")
  have r: "(self_transfer_rejection source dest \<noteq> None) = (a \<or> b)"
    by (simp add: self_transfer_rejection_def ab split: bool.split)
  have p: "prefix ps qs \<longleftrightarrow> qs = ps \<or> (\<exists>rs. rs \<noteq> [] \<and> qs = ps @ rs)" for ps qs :: "string list"
    by (auto simp: prefix_def)
  show ?thesis
    using is_same_or_inside_iff [of dest source] unfolding ab r p by (cases "norm_parts source = []") auto
qed

subsection \<open>Joining and splitting\<close>

definition plain_name :: "string \<Rightarrow> bool" where
  "plain_name n = (n \<noteq> [] \<and> n \<noteq> ''.'' \<and> n \<noteq> ''..'' \<and> (\<forall>c \<in> set n. \<not> is_sep c))"

lemma unify_plain: "(\<forall>c \<in> set n. \<not> is_sep c) \<Longrightarrow> unify_seps n = n"
  by (induction n) (auto simp: unify_seps_def is_sep_def)

lemma norm_parts_append_name:
  assumes "plain_name n"
  shows "norm_parts (b @ CHR ''/'' # n) = norm_parts b @ [n]"
    and "norm_parts (b @ CHR 0x5C # n) = norm_parts b @ [n]"
proof -
  have n: "unify_seps n = n" "split_on (\<lambda>c. c = CHR ''/'') n = [n]"
    using assms unify_plain split_on_no_sep [of n "\<lambda>c. c = CHR ''/''"]
    by (auto simp: plain_name_def is_sep_def)
  have u: "unify_seps (b @ c # n) = unify_seps b @ CHR ''/'' # n" if "c = CHR ''/'' \<or> c = CHR 0x5C" for c
    using n(1) that by (auto simp: unify_seps_def)
  show "norm_parts (b @ CHR ''/'' # n) = norm_parts b @ [n]" "norm_parts (b @ CHR 0x5C # n) = norm_parts b @ [n]"
    using assms n u by (simp_all add: norm_parts_def split_on_append norm_loop_append plain_name_def)
qed

lemma norm_parts_sep_end:
  "norm_parts (b @ [CHR ''/'']) = norm_parts b" "norm_parts (b @ [CHR 0x5C]) = norm_parts b"
  by (simp_all add: norm_parts_def unify_seps_def split_on_append norm_loop_append)

lemma norm_parts_join_path:
  assumes "plain_name n" and "base \<noteq> []"
  shows "norm_parts (join_path base n) = norm_parts base @ [n]"
proof (cases "ends_with base ''/'' \<or> ends_with base [CHR 0x5C]")
  case True
  then obtain b c where b: "base = b @ [c]" "c = CHR ''/'' \<or> c = CHR 0x5C"
    by (auto simp: ends_with_suffix suffix_def)
  then show ?thesis
    using norm_parts_append_name [OF assms(1), of b] norm_parts_sep_end [of b] True
    by (auto simp: join_path_def)
next
  case False
  then show ?thesis using norm_parts_append_name(1) [OF assms(1), of base] assms(2)
    by (simp add: join_path_def)
qed

lemma split_name_append: "fst (split_name path) @ snd (split_name path) = path"
proof -
  let ?n = "rev (takeWhile (\<lambda>c. \<not> is_sep c) (rev path))"
  have "rev path = takeWhile (\<lambda>c. \<not> is_sep c) (rev path) @ dropWhile (\<lambda>c. \<not> is_sep c) (rev path)" by simp
  then have "path = rev (dropWhile (\<lambda>c. \<not> is_sep c) (rev path)) @ ?n" by (metis rev_append rev_rev_ident)
  then obtain a where a: "path = a @ ?n" ..
  then have "length path - length ?n = length a" by (metis add_diff_cancel_right' length_append)
  then show ?thesis using a by (simp add: split_name_def Let_def) (metis append_eq_conv_conj)
qed

lemma split_name_plain: "c \<in> set (snd (split_name path)) \<Longrightarrow> \<not> is_sep c"
  using set_takeWhileD [of c "\<lambda>c. \<not> is_sep c" "rev path"] by (simp add: split_name_def Let_def)

lemma short_name_len: "str_len short \<le> 120 \<Longrightarrow> str_len (short_name n short) \<le> 120"
  by (induction n short rule: short_name.induct) (auto simp: str_len_def)

end
