(* ===== verification/TransferQueue.thy ===== *)
theory TransferQueue
  imports TransferPaths Machine
begin

section \<open>The transfer queue\<close>

text \<open>
  Models \<open>TransferQueueManager\<close> of \<open>crates/rustscp-core/src/transfer_queue.rs\<close>: the
  task list with its operations, each under one lock and so one step, and the worker that
  \<open>enqueue\<close> spawns for a task. A worker is the point it has reached: waiting while the queue
  is paused, waiting for a permit of the semaphore, holding one before its task is marked, and
  running its job. What a job does to the list while it runs is its progress; the job itself is
  the subject of \<open>TransferJob\<close>.
\<close>

subsection \<open>Tasks\<close>

record task =
  tk_id :: string
  tk_name :: string
  tk_source_session :: string
  tk_source_path :: string
  tk_dest_session :: string
  tk_dest_path :: string
  tk_is_move :: bool
  tk_total :: nat
  tk_transferred :: nat
  tk_status :: transfer_status
  tk_speed :: nat
  tk_error :: "string option"

definition MAX_KEPT_TASKS :: nat where "MAX_KEPT_TASKS = 500"

fun is_finished :: "transfer_status \<Rightarrow> bool" where
  "is_finished Completed = True"
| "is_finished Failed = True"
| "is_finished Cancelled = True"
| "is_finished _ = False"

definition active :: "task \<Rightarrow> bool" where
  "active t = (\<not> is_finished (tk_status t))"

text \<open>\<open>list.iter_mut().find(|x| x.id == id)\<close>: the first task with the id is changed.\<close>

fun update_task :: "string \<Rightarrow> (task \<Rightarrow> task) \<Rightarrow> task list \<Rightarrow> task list" where
  "update_task i f [] = []"
| "update_task i f (t # ts) = (if tk_id t = i then f t # ts else t # update_task i f ts)"

definition find_task :: "task list \<Rightarrow> string \<Rightarrow> task option" where
  "find_task ts i = find (\<lambda>t. tk_id t = i) ts"

definition task_status :: "task list \<Rightarrow> string \<Rightarrow> transfer_status option" where
  "task_status ts i = map_option tk_status (find_task ts i)"

subsection \<open>Entering the queue\<close>

fun duplicate_loop ::
  "task list \<Rightarrow> string \<Rightarrow> string \<Rightarrow> string \<Rightarrow> string \<Rightarrow> bool \<Rightarrow> string option" where
  "duplicate_loop [] ss sp ds dp mv = None"
| "duplicate_loop (t # ts) ss sp ds dp mv =
     (if tk_dest_session t = ds \<and> normalize_for_compare (tk_dest_path t) = normalize_for_compare dp
      then Some (''Already queued: another transfer to '' @ [CHR 0x27] @ dp @ [CHR 0x27]
                 @ '' is still in progress; nothing was transferred'')
      else if mv \<and> tk_is_move t \<and> tk_source_session t = ss \<and>
              normalize_for_compare (tk_source_path t) = normalize_for_compare sp
      then Some (''Already queued: '' @ [CHR 0x27] @ sp @ [CHR 0x27]
                 @ '' is already being moved; nothing was transferred'')
      else duplicate_loop ts ss sp ds dp mv)"

definition duplicate_rejection ::
  "task list \<Rightarrow> string \<Rightarrow> string \<Rightarrow> string \<Rightarrow> string \<Rightarrow> bool \<Rightarrow> string option" where
  "duplicate_rejection ts = duplicate_loop (filter active ts)"

fun prune_loop :: "nat \<Rightarrow> task list \<Rightarrow> task list" where
  "prune_loop excess [] = []"
| "prune_loop excess (t # ts) =
     (if excess > 0 \<and> (tk_status t = Completed \<or> tk_status t = Cancelled)
      then prune_loop (excess - 1) ts else t # prune_loop excess ts)"

definition prune_finished :: "task list \<Rightarrow> task list" where
  "prune_finished ts =
     (if length ts \<le> MAX_KEPT_TASKS then ts else prune_loop (length ts - MAX_KEPT_TASKS) ts)"

definition task_name :: "string \<Rightarrow> string" where
  "task_name path =
     (let name = last (split_on is_sep (trim_end_matches is_sep path))
      in if name = [] then path else name)"

text \<open>The request, the new list and whether the task was refused.\<close>

record request =
  rq_source_session :: string
  rq_source_path :: string
  rq_dest_session :: string
  rq_dest_path :: string
  rq_is_move :: bool

definition rejection :: "task list \<Rightarrow> request \<Rightarrow> string option" where
  "rejection ts r =
     (case (if rq_source_session r = rq_dest_session r
            then self_transfer_rejection (rq_source_path r) (rq_dest_path r) else None) of
        Some m \<Rightarrow> Some m
      | None \<Rightarrow> duplicate_rejection ts (rq_source_session r) (rq_source_path r)
                  (rq_dest_session r) (rq_dest_path r) (rq_is_move r))"

definition new_task :: "string \<Rightarrow> request \<Rightarrow> string option \<Rightarrow> task" where
  "new_task i r rej =
     \<lparr>tk_id = i, tk_name = task_name (rq_source_path r), tk_source_session = rq_source_session r,
      tk_source_path = rq_source_path r, tk_dest_session = rq_dest_session r, tk_dest_path = rq_dest_path r,
      tk_is_move = rq_is_move r, tk_total = 0, tk_transferred = 0,
      tk_status = (if rej \<noteq> None then Failed else Queued), tk_speed = 0, tk_error = rej\<rparr>"

definition enqueue :: "string \<Rightarrow> request \<Rightarrow> task list \<Rightarrow> bool \<times> task list" where
  "enqueue i r ts =
     (let rej = rejection ts r
      in (rej \<noteq> None, prune_finished (ts @ [new_task i r rej])))"

subsection \<open>Changing tasks\<close>

definition cancel_one :: "task \<Rightarrow> task" where
  "cancel_one t =
     (if tk_status t \<in> {Queued, InProgress, Paused}
      then t\<lparr>tk_status := Cancelled, tk_speed := 0\<rparr> else t)"

definition cancel_task :: "string \<Rightarrow> task list \<Rightarrow> task list" where
  "cancel_task i = update_task i cancel_one"

definition clear_completed :: "task list \<Rightarrow> task list" where
  "clear_completed = filter active"

datatype outcome = O_Completed "string option" | O_Failed string | O_Cancelled

definition finalize_task :: "outcome \<Rightarrow> task \<Rightarrow> task" where
  "finalize_task out t =
     (let t = t\<lparr>tk_speed := 0\<rparr> in
      if tk_status t \<noteq> InProgress then t
      else (case out of
              O_Completed note \<Rightarrow> t\<lparr>tk_status := Completed,
                tk_transferred := max (tk_total t) (tk_transferred t), tk_error := note\<rparr>
            | O_Failed m \<Rightarrow> t\<lparr>tk_status := Failed, tk_error := Some m\<rparr>
            | O_Cancelled \<Rightarrow> t\<lparr>tk_status := Cancelled\<rparr>))"

definition finalize :: "string \<Rightarrow> outcome \<Rightarrow> task list \<Rightarrow> task list" where
  "finalize i out = update_task i (finalize_task out)"

definition mark_in_progress :: "string \<Rightarrow> task list \<Rightarrow> task list option" where
  "mark_in_progress i ts =
     (case task_status ts i of
        Some Queued \<Rightarrow> Some (update_task i (\<lambda>t. t\<lparr>tk_status := InProgress\<rparr>) ts)
      | _ \<Rightarrow> None)"

text \<open>What a job writes while it runs: the total, and the progress with the speed.\<close>

definition set_total :: "string \<Rightarrow> nat \<Rightarrow> task list \<Rightarrow> task list" where
  "set_total i n = update_task i (\<lambda>t. t\<lparr>tk_total := n\<rparr>)"

definition set_progress :: "string \<Rightarrow> nat \<Rightarrow> nat \<Rightarrow> task list \<Rightarrow> task list" where
  "set_progress i transferred speed =
     update_task i (\<lambda>t. t\<lparr>tk_transferred := transferred, tk_speed := speed\<rparr>)"

subsection \<open>The manager and its workers\<close>

datatype phase = W_Start | W_Acquire | W_Permit | W_Running

record queue =
  q_tasks :: "task list"
  q_paused :: bool
  q_permits :: nat
  q_workers :: "(string \<times> phase) list"
  q_issued :: "string list"

definition new_queue :: "nat \<Rightarrow> queue" where
  "new_queue max_concurrent =
     \<lparr>q_tasks = [], q_paused = False, q_permits = max max_concurrent 1, q_workers = [], q_issued = []\<rparr>"

definition holds_permit :: "phase \<Rightarrow> bool" where
  "holds_permit p = (p = W_Permit \<or> p = W_Running)"

definition permits_in_use :: "queue \<Rightarrow> nat" where
  "permits_in_use q = length (filter (\<lambda>(_, p). holds_permit p) (q_workers q))"

definition set_phase :: "string \<Rightarrow> phase \<Rightarrow> (string \<times> phase) list \<Rightarrow> (string \<times> phase) list" where
  "set_phase i p = map (\<lambda>(j, r). if j = i then (j, p) else (j, r))"

definition drop_worker :: "string \<Rightarrow> (string \<times> phase) list \<Rightarrow> (string \<times> phase) list" where
  "drop_worker i = filter (\<lambda>(j, _). j \<noteq> i)"

text \<open>
  One step of the queue. The id of a new task is new (a random UUID): \<open>q_issued\<close> holds those
  given out so far and has no counterpart in the code. The semaphore gives a
  permit while fewer than its number are held; a worker that ends gives its own back.
\<close>

inductive q_step :: "queue \<Rightarrow> queue \<Rightarrow> bool" where
  q_enqueue: "i \<notin> set (q_issued q) \<Longrightarrow>
     enqueue i r (q_tasks q) = (rejected, ts) \<Longrightarrow>
     q_step q (q\<lparr>q_tasks := ts, q_issued := i # q_issued q,
                q_workers := (if rejected then q_workers q else q_workers q @ [(i, W_Start)])\<rparr>)"
| q_pause: "q_step q (q\<lparr>q_paused := True\<rparr>)"
| q_resume: "q_step q (q\<lparr>q_paused := False\<rparr>)"
| q_cancel: "q_step q (q\<lparr>q_tasks := cancel_task i (q_tasks q)\<rparr>)"
| q_clear: "q_step q (q\<lparr>q_tasks := clear_completed (q_tasks q)\<rparr>)"
| w_give_up: "(i, W_Start) \<in> set (q_workers q) \<Longrightarrow> q_paused q \<Longrightarrow>
     task_status (q_tasks q) i \<noteq> Some Queued \<Longrightarrow>
     q_step q (q\<lparr>q_workers := drop_worker i (q_workers q)\<rparr>)"
| w_start: "(i, W_Start) \<in> set (q_workers q) \<Longrightarrow> \<not> q_paused q \<Longrightarrow>
     q_step q (q\<lparr>q_workers := set_phase i W_Acquire (q_workers q)\<rparr>)"
| w_acquire: "(i, W_Acquire) \<in> set (q_workers q) \<Longrightarrow> permits_in_use q < q_permits q \<Longrightarrow>
     q_step q (q\<lparr>q_workers := set_phase i W_Permit (q_workers q)\<rparr>)"
| w_mark: "(i, W_Permit) \<in> set (q_workers q) \<Longrightarrow> mark_in_progress i (q_tasks q) = Some ts \<Longrightarrow>
     q_step q (q\<lparr>q_tasks := ts, q_workers := set_phase i W_Running (q_workers q)\<rparr>)"
| w_leave: "(i, W_Permit) \<in> set (q_workers q) \<Longrightarrow> mark_in_progress i (q_tasks q) = None \<Longrightarrow>
     q_step q (q\<lparr>q_workers := drop_worker i (q_workers q)\<rparr>)"
| w_total: "(i, W_Running) \<in> set (q_workers q) \<Longrightarrow>
     q_step q (q\<lparr>q_tasks := set_total i n (q_tasks q)\<rparr>)"
| w_progress: "(i, W_Running) \<in> set (q_workers q) \<Longrightarrow>
     q_step q (q\<lparr>q_tasks := set_progress i n speed (q_tasks q)\<rparr>)"
| w_finalize: "(i, W_Running) \<in> set (q_workers q) \<Longrightarrow>
     q_step q (q\<lparr>q_tasks := finalize i out (q_tasks q), q_workers := drop_worker i (q_workers q)\<rparr>)"

inductive reachable :: "nat \<Rightarrow> queue \<Rightarrow> bool" for n where
  r_new: "reachable n (new_queue n)"
| r_step: "reachable n q \<Longrightarrow> q_step q q' \<Longrightarrow> reachable n q'"

subsection \<open>The invariant\<close>

text \<open>Two tasks that must not be active at the same time.\<close>

definition clash :: "task \<Rightarrow> task \<Rightarrow> bool" where
  "clash t u =
     (tk_dest_session t = tk_dest_session u \<and>
        normalize_for_compare (tk_dest_path t) = normalize_for_compare (tk_dest_path u) \<or>
      tk_is_move t \<and> tk_is_move u \<and> tk_source_session t = tk_source_session u \<and>
        normalize_for_compare (tk_source_path t) = normalize_for_compare (tk_source_path u))"

definition exclusive :: "task list \<Rightarrow> bool" where
  "exclusive ts =
     (distinct (map tk_id ts) \<and>
      (\<forall>t \<in> set ts. \<forall>u \<in> set ts. active t \<longrightarrow> active u \<longrightarrow> clash t u \<longrightarrow> t = u))"

text \<open>Every active task has its worker: waiting while it is queued, running while it is in
  progress.\<close>

definition served :: "task list \<Rightarrow> (string \<times> phase) list \<Rightarrow> bool" where
  "served ts ws =
     (distinct (map fst ws) \<and>
      (\<forall>t \<in> set ts. case tk_status t of
          Queued \<Rightarrow> \<exists>p. (tk_id t, p) \<in> set ws \<and> p \<noteq> W_Running
        | InProgress \<Rightarrow> (tk_id t, W_Running) \<in> set ws
        | Paused \<Rightarrow> False
        | _ \<Rightarrow> True))"

definition queue_inv :: "nat \<Rightarrow> queue \<Rightarrow> bool" where
  "queue_inv n q =
     (exclusive (q_tasks q) \<and> served (q_tasks q) (q_workers q) \<and>
      q_permits q = max n 1 \<and> permits_in_use q \<le> q_permits q)"

definition issued_inv :: "queue \<Rightarrow> bool" where
  "issued_inv q = (tk_id ` set (q_tasks q) \<union> fst ` set (q_workers q) \<subseteq> set (q_issued q))"

lemma update_task_map:
  "distinct (map tk_id ts) \<Longrightarrow> update_task i f ts = map (\<lambda>t. if tk_id t = i then f t else t) ts"
proof (induction ts)
  case (Cons t ts)
  have "map (\<lambda>u. if tk_id u = tk_id t then f u else u) ts = ts"
    using Cons.prems by (intro map_idI) (auto simp: rev_image_eqI)
  then show ?case using Cons by auto
qed simp

lemma ids_update_task: "(\<And>t. tk_id (f t) = tk_id t) \<Longrightarrow> map tk_id (update_task i f ts) = map tk_id ts"
  by (induction ts) auto

text \<open>A change of a task that leaves what it transfers alone.\<close>

definition same_request :: "task \<Rightarrow> task \<Rightarrow> bool" where
  "same_request t u =
     (tk_id u = tk_id t \<and> tk_source_session u = tk_source_session t \<and> tk_source_path u = tk_source_path t \<and>
      tk_dest_session u = tk_dest_session t \<and> tk_dest_path u = tk_dest_path t \<and> tk_is_move u = tk_is_move t)"

lemma same_request_clash: "same_request t t' \<Longrightarrow> same_request u u' \<Longrightarrow> clash t' u' = clash t u"
  by (simp add: same_request_def clash_def)

lemma exclusive_update:
  assumes ex: "exclusive ts" and f: "\<And>t. same_request t (f t)" and a: "\<And>t. active (f t) \<Longrightarrow> active t"
  shows "exclusive (update_task i f ts)"
proof -
  let ?g = "\<lambda>t. if tk_id t = i then f t else t"
  have g: "same_request t (?g t)" "active (?g t) \<Longrightarrow> active t" for t
    using f a by (auto simp: same_request_def split: if_splits)
  have d: "distinct (map tk_id ts)" using ex by (simp add: exclusive_def)
  have "map tk_id (update_task i f ts) = map tk_id ts"
    using f by (intro ids_update_task) (auto simp: same_request_def)
  moreover have "t' = u'" if t': "t' \<in> set (update_task i f ts)" "u' \<in> set (update_task i f ts)"
      and act: "active t'" "active u'" "clash t' u'" for t' u'
  proof -
    obtain t u where tu: "t' = ?g t" "u' = ?g u" "t \<in> set ts" "u \<in> set ts"
      using t' unfolding update_task_map [OF d] set_map by blast
    have "clash t u" using same_request_clash [OF g(1) g(1)] act(3) tu by blast
    moreover have "active t" "active u" using g(2) act tu by blast+
    ultimately have "t = u" using ex tu unfolding exclusive_def by blast
    then show ?thesis using tu by simp
  qed
  ultimately show ?thesis using d unfolding exclusive_def by metis
qed

lemma exclusive_sub:
  "exclusive ts \<Longrightarrow> distinct (map tk_id us) \<Longrightarrow> set us \<subseteq> set ts \<Longrightarrow> exclusive us"
  unfolding exclusive_def by blast

lemma exclusive_filter: "exclusive ts \<Longrightarrow> exclusive (filter P ts)"
  by (rule exclusive_sub) (auto simp: exclusive_def distinct_map_filter)

lemma prune_loop_sub: "set (prune_loop k ts) \<subseteq> set ts"
  by (induction k ts rule: prune_loop.induct) auto

lemma prune_loop_distinct: "distinct (map f ts) \<Longrightarrow> distinct (map f (prune_loop k ts))"
proof (induction k ts rule: prune_loop.induct)
  case (2 k t ts)
  then show ?case using prune_loop_sub [of k ts] by auto
qed simp

lemma prune_keeps: "t \<in> set ts \<Longrightarrow> tk_status t \<noteq> Completed \<Longrightarrow> tk_status t \<noteq> Cancelled \<Longrightarrow> t \<in> set (prune_loop k ts)"
  by (induction k ts rule: prune_loop.induct) auto

lemma prune_finished_sub: "set (prune_finished ts) \<subseteq> set ts"
  using prune_loop_sub by (simp add: prune_finished_def)

lemma exclusive_prune: "exclusive ts \<Longrightarrow> exclusive (prune_finished ts)"
  by (rule exclusive_sub [OF _ _ prune_finished_sub])
     (auto simp: exclusive_def prune_finished_def prune_loop_distinct)

lemma duplicate_loop_None:
  "duplicate_loop ts ss sp ds dp mv = None \<longleftrightarrow>
   (\<forall>t \<in> set ts. \<not> (tk_dest_session t = ds \<and> normalize_for_compare (tk_dest_path t) = normalize_for_compare dp) \<and>
      \<not> (mv \<and> tk_is_move t \<and> tk_source_session t = ss \<and>
          normalize_for_compare (tk_source_path t) = normalize_for_compare sp))"
  by (induction ts) auto

lemma rejection_None:
  assumes "rejection ts r = None" and "t \<in> set ts" and "active t"
  shows "\<not> clash t (new_task i r rej)" and "\<not> clash (new_task i r rej) t"
  using assms
  by (auto simp: rejection_def duplicate_rejection_def duplicate_loop_None clash_def new_task_def
      split: option.splits if_splits)

lemma exclusive_enqueue:
  assumes ex: "exclusive ts" and i: "i \<notin> tk_id ` set ts"
  shows "exclusive (snd (enqueue i r ts))"
proof -
  let ?n = "new_task i r (rejection ts r)"
  have d: "distinct (map tk_id (ts @ [?n]))" using ex i by (auto simp: exclusive_def new_task_def)
  have "rejection ts r = None" if "active ?n" using that by (auto simp: new_task_def active_def split: if_splits)
  then have "exclusive (ts @ [?n])"
    using ex d rejection_None [of ts r] unfolding exclusive_def by auto
  then show ?thesis by (simp add: enqueue_def Let_def exclusive_prune)
qed

subsection \<open>Workers\<close>

lemma set_set_phase:
  "(j, r) \<in> set (set_phase i p ws) \<longleftrightarrow> (if j = i then r = p \<and> i \<in> fst ` set ws else (j, r) \<in> set ws)"
proof -
  have "(j, r) \<in> set (set_phase i p ws) \<longleftrightarrow>
      (\<exists>k q. (k, q) \<in> set ws \<and> (j, r) = (if k = i then (k, p) else (k, q)))"
    by (force simp: set_phase_def)
  then show ?thesis by (cases "j = i") (auto simp: image_iff split: if_splits; force)+
qed

lemma fst_set_phase [simp]: "map fst (set_phase i p ws) = map fst ws"
  by (auto simp: set_phase_def)

lemma set_phase_fst [simp]: "fst ` set (set_phase i p ws) = fst ` set ws"
  by (metis fst_set_phase list.set_map)

lemma drop_worker_fst: "distinct (map fst ws) \<Longrightarrow> distinct (map fst (drop_worker i ws))"
  by (simp add: drop_worker_def distinct_map_filter)

lemma in_drop_worker [simp]: "(j, p) \<in> set (drop_worker i ws) \<longleftrightarrow> (j, p) \<in> set ws \<and> j \<noteq> i"
  by (auto simp: drop_worker_def)

lemma worker_unique: "distinct (map fst ws) \<Longrightarrow> (i, p) \<in> set ws \<Longrightarrow> (i, p') \<in> set ws \<Longrightarrow> p = p'"
  by (metis eq_key_imp_eq_value)

lemma permits_set_phase:
  assumes "distinct (map fst ws)" and "(i, p) \<in> set ws"
  shows "length (filter (\<lambda>(_, p). holds_permit p) (set_phase i p' ws)) + (if holds_permit p then 1 else 0) =
     length (filter (\<lambda>(_, p). holds_permit p) ws) + (if holds_permit p' then 1 else 0)"
  using assms
proof (induction ws)
  case (Cons w ws)
  obtain j r where w: "w = (j, r)" by (cases w)
  show ?case
  proof (cases "j = i")
    case True
    then have "set_phase i p' ws = ws" and "r = p"
      using Cons.prems w by (auto simp: set_phase_def intro!: map_idI) (force+)
    then show ?thesis using True w by (simp add: set_phase_def)
  next
    case False
    then show ?thesis using Cons w by (auto simp: set_phase_def)
  qed
qed simp

lemma permits_drop: "length (filter P (drop_worker i ws)) \<le> length (filter P ws)"
  by (induction ws) (auto simp: drop_worker_def)

lemma servedD:
  assumes "served ts ws" and "t \<in> set ts"
  shows "tk_status t = Queued \<Longrightarrow> \<exists>p. (tk_id t, p) \<in> set ws \<and> p \<noteq> W_Running"
    and "tk_status t = InProgress \<Longrightarrow> (tk_id t, W_Running) \<in> set ws"
    and "tk_status t \<noteq> Paused"
  using assms by (auto simp: served_def split: transfer_status.splits)

lemma servedI:
  assumes "distinct (map fst ws)"
    and "\<And>t. t \<in> set ts \<Longrightarrow> tk_status t = Queued \<Longrightarrow> \<exists>p. (tk_id t, p) \<in> set ws \<and> p \<noteq> W_Running"
    and "\<And>t. t \<in> set ts \<Longrightarrow> tk_status t = InProgress \<Longrightarrow> (tk_id t, W_Running) \<in> set ws"
    and "\<And>t. t \<in> set ts \<Longrightarrow> tk_status t \<noteq> Paused"
  shows "served ts ws"
  unfolding served_def
proof (intro conjI ballI)
  fix t assume "t \<in> set ts"
  then show "case tk_status t of
          Queued \<Rightarrow> \<exists>p. (tk_id t, p) \<in> set ws \<and> p \<noteq> W_Running
        | InProgress \<Rightarrow> (tk_id t, W_Running) \<in> set ws
        | Paused \<Rightarrow> False
        | _ \<Rightarrow> True"
    using assms(2-4) [of t] by (cases "tk_status t") simp_all
qed (fact assms(1))

lemma served_distinct: "served ts ws \<Longrightarrow> distinct (map fst ws)"
  by (simp add: served_def)

lemma served_sub: "served ts ws \<Longrightarrow> set us \<subseteq> set ts \<Longrightarrow> served us ws"
  by (auto simp: served_def)

lemma served_update:
  assumes "served ts ws" and d: "distinct (map tk_id ts)" and "\<And>t. tk_id (f t) = tk_id t"
    and "\<And>t. tk_status (f t) = tk_status t \<or> is_finished (tk_status (f t))"
  shows "served (update_task i f ts) ws"
proof (rule servedI)
  have m: "\<exists>u \<in> set ts. t = u \<or> t = f u" if "t \<in> set (update_task i f ts)" for t
    using that unfolding update_task_map [OF d] by auto
  have s: "tk_id (f u) = tk_id u \<and> (tk_status (f u) = tk_status u \<or> is_finished (tk_status (f u)))" for u
    using assms(3,4) by blast
  fix t assume t: "t \<in> set (update_task i f ts)"
  obtain u where u: "u \<in> set ts" "t = u \<or> t = f u" using m [OF t] by blast
  note D = servedD [OF assms(1) u(1)]
  show "tk_status t = Queued \<Longrightarrow> \<exists>p. (tk_id t, p) \<in> set ws \<and> p \<noteq> W_Running"
    using D(1) s [of u] u(2) by auto
  show "tk_status t = InProgress \<Longrightarrow> (tk_id t, W_Running) \<in> set ws" using D(2) s [of u] u(2) by auto
  show "tk_status t \<noteq> Paused" using D(3) s [of u] u(2) by auto
qed (fact served_distinct [OF assms(1)])

lemma served_drop:
  assumes "served ts ws" and "\<And>t. t \<in> set ts \<Longrightarrow> tk_id t = i \<Longrightarrow> is_finished (tk_status t)"
  shows "served ts (drop_worker i ws)"
proof (rule servedI)
  show "distinct (map fst (drop_worker i ws))" by (rule drop_worker_fst [OF served_distinct [OF assms(1)]])
  fix t assume t: "t \<in> set ts"
  note D = servedD [OF assms(1) t]
  show "tk_status t = Queued \<Longrightarrow> \<exists>p. (tk_id t, p) \<in> set (drop_worker i ws) \<and> p \<noteq> W_Running"
    using D(1) assms(2) [OF t] by auto
  show "tk_status t = InProgress \<Longrightarrow> (tk_id t, W_Running) \<in> set (drop_worker i ws)"
    using D(2) assms(2) [OF t] by auto
  show "tk_status t \<noteq> Paused" by (fact D(3))
qed

text \<open>What the phase of a worker says of its task.\<close>

lemma phase_status:
  assumes "served ts ws" and "(i, p) \<in> set ws" and "t \<in> set ts" and "tk_id t = i"
  shows "if p = W_Running then tk_status t \<noteq> Queued else tk_status t \<noteq> InProgress"
  using servedD [OF assms(1,3)] worker_unique [OF served_distinct [OF assms(1)]] assms(2,4)
  by (auto split: if_splits)

lemma task_status_Some:
  "distinct (map tk_id ts) \<Longrightarrow> t \<in> set ts \<Longrightarrow> task_status ts (tk_id t) = Some (tk_status t)"
proof (induction ts)
  case (Cons u ts)
  then show ?case by (auto simp: task_status_def find_task_def rev_image_eqI)
qed simp

lemma phase_finished:
  assumes "served ts ws" "distinct (map tk_id ts)" "(i, p) \<in> set ws" "p \<noteq> W_Running"
    and "task_status ts i \<noteq> Some Queued" and "t \<in> set ts" "tk_id t = i"
  shows "is_finished (tk_status t)"
  using phase_status [OF assms(1,3,6,7)] servedD(3) [OF assms(1,6)] assms(4,5,7)
    task_status_Some [OF assms(2,6)]
  by (cases "tk_status t") auto

lemma served_waiting:
  assumes "served ts ws" and "(i, p) \<in> set ws" "p \<noteq> W_Running" "p' \<noteq> W_Running"
  shows "served ts (set_phase i p' ws)"
proof (rule servedI)
  show "distinct (map fst (set_phase i p' ws))" using served_distinct [OF assms(1)] by simp
  have i: "i \<in> fst ` set ws" using assms(2) by force
  fix t assume t: "t \<in> set ts"
  note D = servedD [OF assms(1) t]
  show "tk_status t = Queued \<Longrightarrow> \<exists>p. (tk_id t, p) \<in> set (set_phase i p' ws) \<and> p \<noteq> W_Running"
    using D(1) assms(4) i by (cases "tk_id t = i") (auto simp: set_set_phase)
  show "tk_status t = InProgress \<Longrightarrow> (tk_id t, W_Running) \<in> set (set_phase i p' ws)"
    using D(2) phase_status [OF assms(1,2) t] assms(3) by (auto simp: set_set_phase)
  show "tk_status t \<noteq> Paused" by (fact D(3))
qed

lemma mark_Some:
  "mark_in_progress i ts = Some us \<longleftrightarrow>
   task_status ts i = Some Queued \<and> us = update_task i (\<lambda>t. t\<lparr>tk_status := InProgress\<rparr>) ts"
  by (auto simp: mark_in_progress_def split: option.splits transfer_status.splits)

lemma served_mark:
  assumes sv: "served ts ws" and d: "distinct (map tk_id ts)" and w: "(i, W_Permit) \<in> set ws"
    and m: "mark_in_progress i ts = Some us"
  shows "served us (set_phase i W_Running ws)"
proof (rule servedI)
  let ?f = "\<lambda>t. t\<lparr>tk_status := InProgress\<rparr>"
  have us: "us = map (\<lambda>t. if tk_id t = i then ?f t else t) ts" using m d by (simp add: mark_Some update_task_map)
  show "distinct (map fst (set_phase i W_Running ws))" using served_distinct [OF sv] by simp
  have i: "i \<in> fst ` set ws" using w by force
  fix u assume "u \<in> set us"
  then obtain t where t: "t \<in> set ts" "u = (if tk_id t = i then ?f t else t)" using us by auto
  note D = servedD [OF sv t(1)]
  show "tk_status u = Queued \<Longrightarrow> \<exists>p. (tk_id u, p) \<in> set (set_phase i W_Running ws) \<and> p \<noteq> W_Running"
    using D(1) t(2) by (auto simp: set_set_phase split: if_splits)
  show "tk_status u = InProgress \<Longrightarrow> (tk_id u, W_Running) \<in> set (set_phase i W_Running ws)"
    using D(2) t(2) i by (auto simp: set_set_phase split: if_splits)
  show "tk_status u \<noteq> Paused" using D(3) t(2) by (auto split: if_splits)
qed

lemma served_finalize:
  assumes sv: "served ts ws" and d: "distinct (map tk_id ts)" and w: "(i, W_Running) \<in> set ws"
  shows "served (finalize i out ts) (drop_worker i ws)"
proof (rule served_drop)
  have f: "tk_id (finalize_task out t) = tk_id t"
      "tk_status (finalize_task out t) = tk_status t \<or> is_finished (tk_status (finalize_task out t))"
      "tk_status t = InProgress \<Longrightarrow> is_finished (tk_status (finalize_task out t))" for t
    by (auto simp: finalize_task_def Let_def split: outcome.split)
  show "served (finalize i out ts) ws" unfolding finalize_def by (rule served_update [OF sv d f(1,2)])
  fix u assume "u \<in> set (finalize i out ts)" "tk_id u = i"
  then obtain t where t: "t \<in> set ts" "tk_id t = i" "u = finalize_task out t"
    using f(1) unfolding finalize_def update_task_map [OF d] by auto
  have "tk_status t \<noteq> Queued" "tk_status t \<noteq> Paused"
    using phase_status [OF sv w t(1,2)] servedD(3) [OF sv t(1)] by auto
  then show "is_finished (tk_status u)"
    using f(2,3) [of t] t(3) by (cases "tk_status t") auto
qed

lemma served_enqueue:
  assumes "served ts ws" and "i \<notin> fst ` set ws" and e: "enqueue i r ts = (rejected, us)"
  shows "served us (if rejected then ws else ws @ [(i, W_Start)])"
proof (rule served_sub)
  let ?n = "new_task i r (rejection ts r)"
  show "set us \<subseteq> set (ts @ [?n])"
    using e prune_finished_sub [of "ts @ [?n]"] unfolding enqueue_def Let_def by blast
  have rej: "rejected = (rejection ts r \<noteq> None)" using e by (auto simp: enqueue_def Let_def)
  let ?ws = "if rejected then ws else ws @ [(i, W_Start)]"
  show "served (ts @ [?n]) ?ws"
  proof (rule servedI)
    show "distinct (map fst ?ws)" using served_distinct [OF assms(1)] assms(2) by auto
    fix t assume t: "t \<in> set (ts @ [?n])"
    show "tk_status t = Queued \<Longrightarrow> \<exists>p. (tk_id t, p) \<in> set ?ws \<and> p \<noteq> W_Running"
      using t servedD(1) [OF assms(1), of t] rej by (auto simp: new_task_def)
    have n: "tk_status ?n \<noteq> InProgress" "tk_status ?n \<noteq> Paused" by (simp_all add: new_task_def)
    show "tk_status t = InProgress \<Longrightarrow> (tk_id t, W_Running) \<in> set ?ws"
      using t servedD(2) [OF assms(1), of t] n by (cases "t \<in> set ts") auto
    show "tk_status t \<noteq> Paused"
      using t servedD(3) [OF assms(1), of t] n by (cases "t \<in> set ts") auto
  qed
qed

subsection \<open>Every step keeps the invariant\<close>

lemma new_queue_inv: "queue_inv n (new_queue n)"
  by (simp add: queue_inv_def new_queue_def exclusive_def served_def permits_in_use_def)

text \<open>The changes of one task that do not wake it up.\<close>

lemma task_changes:
  shows "same_request t (finalize_task out t)" "active (finalize_task out t) \<Longrightarrow> active t"
    and "same_request t (t\<lparr>tk_status := InProgress\<rparr>)"
  by (auto simp: finalize_task_def same_request_def active_def Let_def split: outcome.splits if_splits)

lemma cancel_changes:
  shows "same_request t (cancel_one t)" "active (cancel_one t) \<Longrightarrow> active t" "tk_id (cancel_one t) = tk_id t"
    "tk_status (cancel_one t) = tk_status t \<or> is_finished (tk_status (cancel_one t))"
  by (auto simp: cancel_one_def same_request_def active_def split: if_splits)

lemma exclusive_mark:
  assumes ex: "exclusive ts" and m: "mark_in_progress i ts = Some us"
  shows "exclusive us"
proof -
  let ?f = "\<lambda>t. t\<lparr>tk_status := InProgress\<rparr>"
  have d: "distinct (map tk_id ts)" using ex by (simp add: exclusive_def)
  have q: "tk_status t = Queued" if "t \<in> set ts" "tk_id t = i" for t
    using m that task_status_Some [OF d that(1)] by (simp add: mark_Some)
  let ?g = "\<lambda>t. if tk_id t = i then (if tk_status t = Queued then ?f t else t) else t"
  have "us = map ?g ts" using m q d by (auto simp: mark_Some update_task_map)
  also have "\<dots> = update_task i (\<lambda>t. if tk_status t = Queued then ?f t else t) ts"
    using d by (simp add: update_task_map)
  finally show ?thesis
    using exclusive_update [OF ex, of "\<lambda>t. if tk_status t = Queued then ?f t else t" i]
    by (simp add: same_request_def active_def split: if_splits)
qed

lemma permits_phase_le:
  assumes "distinct (map fst (q_workers q))" "(i, p) \<in> set (q_workers q)" "holds_permit p' \<longrightarrow> holds_permit p"
  shows "permits_in_use (q\<lparr>q_workers := set_phase i p' (q_workers q)\<rparr>) \<le> permits_in_use q"
  using permits_set_phase [OF assms(1,2), of p'] assms(3) by (auto simp: permits_in_use_def split: if_splits)

lemma same_tasks: "q\<lparr>q_tasks := q_tasks q, q_workers := ws\<rparr> = q\<lparr>q_workers := ws\<rparr>"
  by (cases q) simp

lemma inv_drop:
  assumes "queue_inv n q" "exclusive ts" "served ts (drop_worker i (q_workers q))"
  shows "queue_inv n (q\<lparr>q_tasks := ts, q_workers := drop_worker i (q_workers q)\<rparr>)"
proof -
  have "permits_in_use (q\<lparr>q_tasks := ts, q_workers := drop_worker i (q_workers q)\<rparr>) \<le> permits_in_use q"
    by (simp add: permits_in_use_def permits_drop)
  then show ?thesis using assms by (simp add: queue_inv_def)
qed

lemma ids_update: "(\<And>t. tk_id (f t) = tk_id t) \<Longrightarrow> tk_id ` set (update_task i f ts) = tk_id ` set ts"
  by (metis ids_update_task list.set_map)

lemma issued_step: "q_step q q' \<Longrightarrow> issued_inv q \<Longrightarrow> issued_inv q'"
proof (induction rule: q_step.induct)
  case (q_enqueue i q r rejected ts)
  have "set ts \<subseteq> set (q_tasks q @ [new_task i r (rejection (q_tasks q) r)])"
    using q_enqueue.hyps(2) prune_finished_sub [of "q_tasks q @ [new_task i r (rejection (q_tasks q) r)]"]
    unfolding enqueue_def Let_def by blast
  then have "tk_id ` set ts \<subseteq> insert i (tk_id ` set (q_tasks q))" by (force simp: new_task_def)
  then show ?case using q_enqueue.prems unfolding issued_inv_def by auto
next
  case (q_cancel q i)
  then show ?case by (simp add: issued_inv_def cancel_task_def ids_update cancel_changes)
next
  case (q_clear q)
  then show ?case by (auto simp: issued_inv_def clear_completed_def)
next
  case (w_mark i q ts)
  then show ?case
    by (auto simp: issued_inv_def mark_Some ids_update set_phase_fst)
next
  case (w_total i q k)
  then show ?case by (simp add: issued_inv_def set_total_def ids_update)
next
  case (w_progress i q k speed)
  then show ?case by (simp add: issued_inv_def set_progress_def ids_update)
next
  case (w_finalize i q out)
  then show ?case
    using task_changes(1) by (auto simp: issued_inv_def finalize_def ids_update same_request_def drop_worker_def)
qed (auto simp: issued_inv_def drop_worker_def)

lemma step_inv: "q_step q q' \<Longrightarrow> queue_inv n q \<Longrightarrow> issued_inv q \<Longrightarrow> queue_inv n q'"
proof (induction rule: q_step.induct)
  case (q_enqueue i q r rejected ts)
  have fresh: "i \<notin> tk_id ` set (q_tasks q)" "i \<notin> fst ` set (q_workers q)"
    using q_enqueue.hyps(1) q_enqueue.prems(2) unfolding issued_inv_def by blast+
  note inv = q_enqueue.prems(1) [unfolded queue_inv_def]
  have ex: "exclusive (q_tasks q)" using inv by blast
  have "exclusive ts" using exclusive_enqueue [OF ex fresh(1), of r] unfolding q_enqueue.hyps(2) by simp
  moreover have "served ts (if rejected then q_workers q else q_workers q @ [(i, W_Start)])"
    using served_enqueue [OF _ fresh(2) q_enqueue.hyps(2)] inv by blast
  ultimately show ?case using inv by (simp add: queue_inv_def permits_in_use_def holds_permit_def)
next
  case (q_cancel q i)
  note inv = q_cancel.prems(1) [unfolded queue_inv_def]
  have "exclusive (cancel_task i (q_tasks q))"
    unfolding cancel_task_def by (rule exclusive_update [OF conjunct1 [OF inv]]) (rule cancel_changes; assumption?)+
  moreover have "served (cancel_task i (q_tasks q)) (q_workers q)"
    unfolding cancel_task_def using inv by (intro served_update cancel_changes) (simp_all add: exclusive_def)
  ultimately show ?case using inv by (simp add: queue_inv_def permits_in_use_def)
next
  case (q_clear q)
  then show ?case
    by (auto simp: queue_inv_def clear_completed_def exclusive_filter permits_in_use_def intro: served_sub)
next
  case (w_give_up i q)
  then have "\<And>t. t \<in> set (q_tasks q) \<Longrightarrow> tk_id t = i \<Longrightarrow> is_finished (tk_status t)"
    using phase_finished [of "q_tasks q" "q_workers q" i W_Start] by (auto simp: queue_inv_def exclusive_def)
  then have "served (q_tasks q) (drop_worker i (q_workers q))"
    using w_give_up.prems(1) by (auto simp: queue_inv_def intro: served_drop)
  then show ?case
    using inv_drop [OF w_give_up.prems(1), of "q_tasks q" i] w_give_up.prems(1) same_tasks by (simp add: queue_inv_def)
next
  case (w_start i q)
  then show ?case
    using served_waiting [of "q_tasks q" "q_workers q" i W_Start W_Acquire]
      permits_phase_le [of q i W_Start W_Acquire] served_distinct
    by (auto simp: queue_inv_def holds_permit_def)
next
  case (w_acquire i q)
  then have sv: "served (q_tasks q) (q_workers q)" by (simp add: queue_inv_def)
  have "permits_in_use (q\<lparr>q_workers := set_phase i W_Permit (q_workers q)\<rparr>) = Suc (permits_in_use q)"
    using permits_set_phase [OF served_distinct [OF sv] w_acquire(1), of W_Permit]
    by (simp add: permits_in_use_def holds_permit_def)
  then show ?case
    using served_waiting [OF sv w_acquire(1), of W_Permit] w_acquire by (simp add: queue_inv_def)
next
  case (w_mark i q ts)
  then show ?case
    using served_mark [of "q_tasks q" "q_workers q" i ts] exclusive_mark [of "q_tasks q" i ts]
      permits_phase_le [of q i W_Permit W_Running] served_distinct
    by (auto simp: queue_inv_def holds_permit_def exclusive_def permits_in_use_def)
next
  case (w_leave i q)
  then have "task_status (q_tasks q) i \<noteq> Some Queued" by (auto simp: mark_in_progress_def)
  then have "\<And>t. t \<in> set (q_tasks q) \<Longrightarrow> tk_id t = i \<Longrightarrow> is_finished (tk_status t)"
    using phase_finished [of "q_tasks q" "q_workers q" i W_Permit] w_leave by (auto simp: queue_inv_def exclusive_def)
  then have "served (q_tasks q) (drop_worker i (q_workers q))"
    using w_leave.prems(1) by (auto simp: queue_inv_def intro: served_drop)
  then show ?case
    using inv_drop [OF w_leave.prems(1), of "q_tasks q" i] w_leave.prems(1) same_tasks by (simp add: queue_inv_def)
next
  case (w_total i q k)
  note inv = w_total.prems(1) [unfolded queue_inv_def]
  have "exclusive (set_total i k (q_tasks q))"
    unfolding set_total_def using inv by (intro exclusive_update) (simp_all add: same_request_def active_def)
  moreover have "served (set_total i k (q_tasks q)) (q_workers q)"
    unfolding set_total_def using inv by (intro served_update) (simp_all add: exclusive_def)
  ultimately show ?case using inv by (simp add: queue_inv_def permits_in_use_def)
next
  case (w_progress i q k speed)
  note inv = w_progress.prems(1) [unfolded queue_inv_def]
  have "exclusive (set_progress i k speed (q_tasks q))"
    unfolding set_progress_def using inv by (intro exclusive_update) (simp_all add: same_request_def active_def)
  moreover have "served (set_progress i k speed (q_tasks q)) (q_workers q)"
    unfolding set_progress_def using inv by (intro served_update) (simp_all add: exclusive_def)
  ultimately show ?case using inv by (simp add: queue_inv_def permits_in_use_def)
next
  case (w_finalize i q out)
  note inv = w_finalize.prems(1) [unfolded queue_inv_def]
  have "exclusive (finalize i out (q_tasks q))"
    unfolding finalize_def by (rule exclusive_update [OF conjunct1 [OF inv]]) (rule task_changes; assumption?)+
  moreover have "served (finalize i out (q_tasks q)) (drop_worker i (q_workers q))"
  proof (rule served_finalize)
    show "served (q_tasks q) (q_workers q)" using inv by blast
    show "distinct (map tk_id (q_tasks q))" using inv unfolding exclusive_def by blast
  qed (fact w_finalize.hyps)
  ultimately show ?case by (rule inv_drop [OF w_finalize.prems(1)])
qed (auto simp: queue_inv_def permits_in_use_def)

lemma reachable_invs: "reachable n q \<Longrightarrow> queue_inv n q \<and> issued_inv q"
proof (induction rule: reachable.induct)
  case r_new
  then show ?case by (simp add: new_queue_inv) (simp add: issued_inv_def new_queue_def)
next
  case (r_step q q')
  then show ?case using step_inv issued_step by blast
qed

lemmas reachable_inv = reachable_invs [THEN conjunct1]
lemmas reachable_issued = reachable_invs [THEN conjunct2]

subsection \<open>Finished tasks\<close>

definition kept :: "string \<Rightarrow> transfer_status \<Rightarrow> string option \<Rightarrow> queue \<Rightarrow> bool" where
  "kept i st e q =
     (i \<in> set (q_issued q) \<and>
      (\<forall>t \<in> set (q_tasks q). tk_id t = i \<longrightarrow> tk_status t = st \<and> tk_error t = e))"

lemma set_update_task: "set (update_task i f ts) \<subseteq> set ts \<union> f ` {t \<in> set ts. tk_id t = i}"
  by (induction ts) auto

lemma kept_update:
  assumes k: "kept i st e q"
    and f: "\<And>t. tk_id (f t) = tk_id t" "\<And>t. tk_status t = st \<Longrightarrow> tk_status (f t) = st \<and> tk_error (f t) = tk_error t"
    and q': "q_issued q' = q_issued q" "q_tasks q' = update_task j f (q_tasks q)"
  shows "kept i st e q'"
proof -
  have "tk_status u = st \<and> tk_error u = e" if u: "u \<in> set (q_tasks q')" "tk_id u = i" for u
  proof -
    obtain t where t: "t \<in> set (q_tasks q)" "u = t \<or> u = f t"
      using u(1) set_update_task [of j f "q_tasks q"] unfolding q'(2) by blast
    then have "tk_id t = i" using u(2) f(1) by auto
    then have "tk_status t = st \<and> tk_error t = e" using k t(1) unfolding kept_def by blast
    then show ?thesis using t(2) f(2) [of t] by auto
  qed
  then show ?thesis using k q'(1) by (simp add: kept_def)
qed

lemma mark_update:
  "mark_in_progress i ts = Some us \<Longrightarrow>
   us = update_task i (\<lambda>t. if tk_status t = Queued then t\<lparr>tk_status := InProgress\<rparr> else t) ts"
  unfolding mark_Some task_status_def find_task_def
  by (induction ts arbitrary: us) (auto split: if_splits)

lemma kept_step:
  assumes "q_step q q'" and "kept i st e q" and "is_finished st"
  shows "kept i st e q'"
  using assms
proof (induction rule: q_step.induct)
  case (q_enqueue j q r rejected ts)
  let ?n = "new_task j r (rejection (q_tasks q) r)"
  have sub: "set ts \<subseteq> insert ?n (set (q_tasks q))"
    using q_enqueue.hyps(2) prune_finished_sub [of "q_tasks q @ [?n]"]
    by (simp add: enqueue_def Let_def)
  have new: "tk_id ?n = j" by (simp add: new_task_def)
  have old: "i \<noteq> j" using q_enqueue.hyps(1) q_enqueue.prems(1) by (auto simp: kept_def)
  have "t \<in> set (q_tasks q)" if "t \<in> set ts" "tk_id t = i" for t
    using subsetD [OF sub that(1)] new old that(2) by blast
  then have "\<forall>t \<in> set ts. tk_id t = i \<longrightarrow> tk_status t = st \<and> tk_error t = e"
    using q_enqueue.prems(1) unfolding kept_def by blast
  moreover have "i \<in> set (q_issued q)" using q_enqueue.prems(1) unfolding kept_def by blast
  ultimately show ?case by (simp add: kept_def)
next
  case (q_cancel q j)
  show ?case
    by (rule kept_update [OF q_cancel.prems(1), where f = cancel_one and j = j])
       (use q_cancel.prems(2) in \<open>auto simp: cancel_task_def cancel_one_def\<close>)
next
  case (q_clear q)
  then show ?case by (auto simp: kept_def clear_completed_def)
next
  case (w_mark j q ts)
  show ?case
    by (rule kept_update [OF w_mark.prems(1), where j = j and
          f = "\<lambda>t. if tk_status t = Queued then t\<lparr>tk_status := InProgress\<rparr> else t"])
       (use w_mark.prems(2) mark_update [OF w_mark.hyps(2)] in auto)
next
  case (w_total j q k)
  show ?case
    by (rule kept_update [OF w_total.prems(1), where f = "\<lambda>t. t\<lparr>tk_total := k\<rparr>" and j = j])
       (simp_all add: set_total_def)
next
  case (w_progress j q k speed)
  show ?case
    by (rule kept_update [OF w_progress.prems(1), where j = j and
          f = "\<lambda>t. t\<lparr>tk_transferred := k, tk_speed := speed\<rparr>"])
       (simp_all add: set_progress_def)
next
  case (w_finalize j q out)
  show ?case
    by (rule kept_update [OF w_finalize.prems(1), where f = "finalize_task out" and j = j])
       (use w_finalize.prems(2) in \<open>auto simp: finalize_def finalize_task_def Let_def split: outcome.split\<close>)
qed (auto simp: kept_def)

lemma kept_steps: "q_step\<^sup>*\<^sup>* q q' \<Longrightarrow> kept i st e q \<Longrightarrow> is_finished st \<Longrightarrow> kept i st e q'"
  by (induction rule: rtranclp_induct) (auto intro: kept_step)

subsection \<open>How many tasks run\<close>

lemma running_le_permits:
  assumes "exclusive ts" and "served ts ws"
  shows "length (filter (\<lambda>t. tk_status t = InProgress) ts) \<le> length (filter (\<lambda>(_, p). holds_permit p) ws)"
proof -
  let ?r = "filter (\<lambda>t. tk_status t = InProgress) ts" and ?w = "filter (\<lambda>(_, p). holds_permit p) ws"
  have "distinct (map tk_id ?r)" using assms(1) by (simp add: exclusive_def distinct_map_filter)
  then have "length ?r = card (set (map tk_id ?r))" using distinct_card by force
  also have "set (map tk_id ?r) \<subseteq> set (map fst ?w)"
    using servedD(2) [OF assms(2)] by (force simp: holds_permit_def)
  then have "card (set (map tk_id ?r)) \<le> card (set (map fst ?w))" by (intro card_mono) simp_all
  also have "\<dots> \<le> length ?w" by (metis card_length length_map)
  finally show ?thesis .
qed

text \<open>A job runs only while its worker holds a permit, whatever became of its task.\<close>

lemma jobs_le_permits:
  "length (filter (\<lambda>(_, p). p = W_Running) ws) \<le> length (filter (\<lambda>(_, p). holds_permit p) ws)"
  by (induction ws) (auto simp: holds_permit_def)

text \<open>\<open>Job::is_cancelled\<close>.\<close>

definition is_cancelled :: "task list \<Rightarrow> string \<Rightarrow> bool" where
  "is_cancelled ts i = (task_status ts i = Some Cancelled)"

subsection \<open>A run of the queue\<close>

definition demo_request :: request where
  "demo_request = \<lparr>rq_source_session = ''a'', rq_source_path = ''/x/f'', rq_dest_session = ''b'',
     rq_dest_path = ''/y/f'', rq_is_move = False\<rparr>"

definition demo_task :: "string \<Rightarrow> transfer_status \<Rightarrow> task" where
  "demo_task i st = (new_task i demo_request None)\<lparr>tk_status := st\<rparr>"

definition demo_queue :: "task list \<Rightarrow> (string \<times> phase) list \<Rightarrow> string list \<Rightarrow> queue" where
  "demo_queue ts ws ids = \<lparr>q_tasks = ts, q_paused = False, q_permits = 3, q_workers = ws, q_issued = ids\<rparr>"

lemma demo_task_id [simp]: "tk_id (demo_task i st) = i" "tk_status (demo_task i st) = st"
    "(demo_task i st)\<lparr>tk_status := st'\<rparr> = demo_task i st'"
  by (simp_all add: demo_task_def new_task_def)

lemma demo_runs:
  assumes r: "reachable 3 (demo_queue ts ws ids)" and i: "i \<notin> set ids"
    and e: "enqueue i demo_request ts = (False, ts @ [demo_task i Queued])"
  shows "reachable 3 (demo_queue (ts @ [demo_task i InProgress]) (ws @ [(i, W_Running)]) (i # ids)) \<or>
     \<not> length (filter (\<lambda>(_, p). holds_permit p) ws) < 3"
proof (cases "length (filter (\<lambda>(_, p). holds_permit p) ws) < 3")
  case True
  have inv: "issued_inv (demo_queue ts ws ids)" using reachable_issued [OF r] .
  have f: "set_phase i p ws = ws" for p
    using inv i by (auto simp: set_phase_def issued_inv_def demo_queue_def intro!: map_idI)
  have t: "task_status (ts @ [demo_task i Queued]) i = Some Queued"
    "update_task i (\<lambda>t. t\<lparr>tk_status := InProgress\<rparr>) (ts @ [demo_task i Queued]) = ts @ [demo_task i InProgress]"
  proof -
    have "i \<notin> tk_id ` set ts" using inv i by (auto simp: issued_inv_def demo_queue_def)
    then show "task_status (ts @ [demo_task i Queued]) i = Some Queued"
      "update_task i (\<lambda>t. t\<lparr>tk_status := InProgress\<rparr>) (ts @ [demo_task i Queued]) = ts @ [demo_task i InProgress]"
      by (induction ts) (auto simp: task_status_def find_task_def)
  qed
  have one: "reachable 3 (demo_queue (ts @ [demo_task i Queued]) (ws @ [(i, W_Start)]) (i # ids))"
    using r_step [OF r q_enqueue [of i _ demo_request False "ts @ [demo_task i Queued]"]] i e
    by (simp add: demo_queue_def)
  have two: "reachable 3 (demo_queue (ts @ [demo_task i Queued]) (ws @ [(i, W_Acquire)]) (i # ids))"
    using r_step [OF one w_start [of i]] f by (simp add: demo_queue_def set_phase_def)
  have three: "reachable 3 (demo_queue (ts @ [demo_task i Queued]) (ws @ [(i, W_Permit)]) (i # ids))"
    using r_step [OF two w_acquire [of i]] f True
    by (simp add: demo_queue_def set_phase_def permits_in_use_def holds_permit_def)
  show ?thesis
    using r_step [OF three w_mark [of i]] f t by (simp add: demo_queue_def set_phase_def mark_Some)
qed simp




lemma demo_first:
  "reachable 3 (demo_queue [demo_task ''t1'' InProgress] [(''t1'', W_Running)] [''t1''])"
proof -
  have "reachable 3 (demo_queue [] [] [])" using r_new [of 3] by (simp add: demo_queue_def new_queue_def)
  moreover have "enqueue ''t1'' demo_request [] = (False, [] @ [demo_task ''t1'' Queued])"
    by (simp add: enqueue_def rejection_def duplicate_rejection_def demo_request_def Let_def
        demo_task_def prune_finished_def MAX_KEPT_TASKS_def new_task_def)
  ultimately show ?thesis using demo_runs [of "[]" "[]" "[]" "''t1''"] by simp
qed

lemma demo_cancelled:
  "reachable 3 (demo_queue [(demo_task ''t1'' InProgress)\<lparr>tk_status := Cancelled, tk_speed := 0\<rparr>]
     [(''t1'', W_Running)] [''t1''])"
  using r_step [OF demo_first q_cancel [of _ "''t1''"]]
  by (simp add: demo_queue_def cancel_task_def cancel_one_def)

subsection \<open>Properties\<close>

text \<open>
  C14: In every reachable state of the queue: ids are unique; no two active tasks write the same
  destination or move the same source; every queued task has a worker that waits for it and
  every task in progress a running one; and at most as many jobs run as the queue was made for (at
  least one): those of the tasks in progress and those that still run after their task was cancelled
  or removed from the list.
\<close>

theorem queue_exclusive:
  assumes "reachable n q"
  shows "distinct (map tk_id (q_tasks q)) \<and>
     (\<nexists>t u. t \<in> set (q_tasks q) \<and> u \<in> set (q_tasks q) \<and> t \<noteq> u \<and> active t \<and> active u \<and> clash t u) \<and>
     served (q_tasks q) (q_workers q) \<and>
     length (filter (\<lambda>t. tk_status t = InProgress) (q_tasks q)) \<le> max n 1 \<and>
     length (filter (\<lambda>(_, p). p = W_Running) (q_workers q)) \<le> max n 1"
  using reachable_inv [OF assms] running_le_permits [of "q_tasks q" "q_workers q"] jobs_le_permits [of "q_workers q"]
  by (auto simp: queue_inv_def exclusive_def permits_in_use_def)

theorem queue_exclusive_witness:
  "\<exists>q. reachable 3 q \<and> length (filter (\<lambda>t. tk_status t = InProgress) (q_tasks q)) = 1 \<and>
     served (q_tasks q) (q_workers q)"
  using demo_first queue_exclusive [OF demo_first]
  by (intro exI [of _ "demo_queue [demo_task ''t1'' InProgress] [(''t1'', W_Running)] [''t1'']"])
     (simp add: demo_queue_def)

text \<open>
  C15: A finished task stays as it is: whatever happens later to the queue, a task of the same id
  in the list has the same status and the same error; it never runs again.
\<close>

theorem finished_task_stays:
  assumes "reachable n q" and "t \<in> set (q_tasks q)" and "is_finished (tk_status t)"
    and "q_step\<^sup>*\<^sup>* q q'" and "u \<in> set (q_tasks q')" and "tk_id u = tk_id t"
  shows "tk_status u = tk_status t \<and> tk_error u = tk_error t"
proof -
  have inv: "exclusive (q_tasks q)" "issued_inv q"
    using reachable_invs [OF assms(1)] by (simp_all add: queue_inv_def)
  have "t' = t" if "t' \<in> set (q_tasks q)" "tk_id t' = tk_id t" for t'
    using inv(1) that assms(2) by (auto simp: exclusive_def dest: inj_onD [OF distinct_map [THEN iffD1, THEN conjunct2]])
  then have "kept (tk_id t) (tk_status t) (tk_error t) q"
    using inv(2) assms(2) by (auto simp: kept_def issued_inv_def)
  from kept_steps [OF assms(4) this assms(3)] show ?thesis
    using assms(5,6) unfolding kept_def by blast
qed

theorem finished_task_stays_witness:
  "\<exists>q q' u. reachable 3 q \<and> q_step\<^sup>*\<^sup>* q q' \<and> q' \<noteq> q \<and> u \<in> set (q_tasks q') \<and> tk_status u = Cancelled"
proof -
  let ?c = "(demo_task ''t1'' InProgress)\<lparr>tk_status := Cancelled, tk_speed := 0\<rparr>"
  let ?q = "demo_queue [?c] [(''t1'', W_Running)] [''t1'']"
  let ?r = "?q\<lparr>q_tasks := finalize ''t1'' (O_Completed None) (q_tasks ?q), q_workers := drop_worker ''t1'' (q_workers ?q)\<rparr>"
  have s: "q_step ?q ?r" by (rule w_finalize) (simp add: demo_queue_def)
  have id: "tk_id ?c = ''t1''" "is_finished (tk_status ?c)" by (simp_all add: demo_task_def new_task_def)
  have u: "finalize_task (O_Completed None) ?c \<in> set (q_tasks ?r)" "tk_id (finalize_task (O_Completed None) ?c) = ''t1''"
    using id(1) by (simp_all add: demo_queue_def finalize_def finalize_task_def)
  have "tk_status (finalize_task (O_Completed None) ?c) = tk_status ?c"
    using finished_task_stays [OF demo_cancelled _ id(2) _ u(1)] s u(2) id(1) by (auto simp: demo_queue_def)
  moreover have "?r \<noteq> ?q" by (simp add: demo_queue_def drop_worker_def)
  ultimately show ?thesis using demo_cancelled s u(1) by (intro exI [of _ ?q] exI [of _ ?r]) auto
qed

text \<open>
  C16: Cancelling does not stop the job at once, and the queue forgets that: a state is reachable
  where two workers run jobs with the same destination, the first of them cancelled; and after
  "clear finished" the first job finds its task gone and goes on as if it were not cancelled.
\<close>

theorem cancelled_job_runs_on:
  "(\<exists>q t u. reachable 3 q \<and> t \<in> set (q_tasks q) \<and> u \<in> set (q_tasks q) \<and> t \<noteq> u \<and> clash t u \<and>
     tk_status t = Cancelled \<and> tk_status u = InProgress \<and>
     (tk_id t, W_Running) \<in> set (q_workers q) \<and> (tk_id u, W_Running) \<in> set (q_workers q)) \<and>
   (\<exists>q t q'. reachable 3 q \<and> q_tasks q = [t] \<and> tk_status t = Cancelled \<and> is_cancelled (q_tasks q) (tk_id t) \<and>
     q_step q q' \<and> (tk_id t, W_Running) \<in> set (q_workers q') \<and> \<not> is_cancelled (q_tasks q') (tk_id t))"
proof
  let ?c = "(demo_task ''t1'' InProgress)\<lparr>tk_status := Cancelled, tk_speed := 0\<rparr>"
  have id: "tk_id ?c = ''t1''" by (simp add: demo_task_def new_task_def)
  have e: "enqueue ''t2'' demo_request [?c] = (False, [?c] @ [demo_task ''t2'' Queued])"
    by (simp add: enqueue_def rejection_def duplicate_rejection_def demo_request_def Let_def active_def
        demo_task_def prune_finished_def MAX_KEPT_TASKS_def new_task_def)
  have r: "reachable 3 (demo_queue ([?c] @ [demo_task ''t2'' InProgress])
      ([(''t1'', W_Running)] @ [(''t2'', W_Running)]) [''t2'', ''t1''])"
    using demo_runs [OF demo_cancelled _ e] by (simp add: holds_permit_def)
  have c: "clash ?c (demo_task ''t2'' InProgress)" "?c \<noteq> demo_task ''t2'' InProgress"
    by (simp_all add: clash_def demo_task_def new_task_def)
  show "\<exists>q t u. reachable 3 q \<and> t \<in> set (q_tasks q) \<and> u \<in> set (q_tasks q) \<and> t \<noteq> u \<and> clash t u \<and>
     tk_status t = Cancelled \<and> tk_status u = InProgress \<and>
     (tk_id t, W_Running) \<in> set (q_workers q) \<and> (tk_id u, W_Running) \<in> set (q_workers q)"
    by (rule exI, rule exI [of _ ?c], rule exI [of _ "demo_task ''t2'' InProgress"], rule conjI [OF r])
       (use c id in \<open>simp add: demo_queue_def\<close>)
  let ?q = "demo_queue [?c] [(''t1'', W_Running)] [''t1'']"
  have "q_step ?q (?q\<lparr>q_tasks := clear_completed (q_tasks ?q)\<rparr>)" by (rule q_clear)
  then show "\<exists>q t q'. reachable 3 q \<and> q_tasks q = [t] \<and> tk_status t = Cancelled \<and> is_cancelled (q_tasks q) (tk_id t) \<and>
     q_step q q' \<and> (tk_id t, W_Running) \<in> set (q_workers q') \<and> \<not> is_cancelled (q_tasks q') (tk_id t)"
    by (rule_tac x = ?q in exI, rule_tac x = ?c in exI,
        rule_tac x = "?q\<lparr>q_tasks := clear_completed (q_tasks ?q)\<rparr>" in exI, intro conjI demo_cancelled)
       (simp_all add: id demo_queue_def is_cancelled_def task_status_def find_task_def clear_completed_def active_def)
qed

end
