(* ===== verification/Effects.thy ===== *)
theory Effects
  imports Main
begin

section \<open>Effectful code\<close>

text \<open>
  An asynchronous method is an action: a function from the state to its result and the state
  after it. A result that may be an error is a sum. The rules below prove statements of the form
  "from a state with \<open>P\<close>, the action ends in a state with \<open>Q\<close> of its result" step by step.
\<close>

named_theorems hoare_rules \<open>rules for triples, one per form of action\<close>

type_synonym ('s, 'a) act = "'s \<Rightarrow> 'a \<times> 's"

definition ret :: "'a \<Rightarrow> ('s, 'a) act" where
  "ret x = (\<lambda>s. (x, s))"

definition andThen :: "('s, 'a) act \<Rightarrow> ('a \<Rightarrow> ('s, 'b) act) \<Rightarrow> ('s, 'b) act" where
  "andThen m f = (\<lambda>s. case m s of (x, s') \<Rightarrow> f x s')"

definition gets :: "('s \<Rightarrow> 'a) \<Rightarrow> ('s, 'a) act" where
  "gets f = (\<lambda>s. (f s, s))"

definition modify :: "('s \<Rightarrow> 's) \<Rightarrow> ('s, unit) act" where
  "modify f = (\<lambda>s. ((), f s))"

text \<open>\<open>?\<close>: an error ends the method, a value goes on.\<close>

definition try_then :: "('s, 'e + 'a) act \<Rightarrow> ('a \<Rightarrow> ('s, 'e + 'b) act) \<Rightarrow> ('s, 'e + 'b) act" where
  "try_then m f = andThen m (\<lambda>r. case r of Inl e \<Rightarrow> ret (Inl e) | Inr x \<Rightarrow> f x)"

text \<open>How a system call ends. \<open>Io_Fails k\<close>: with an error, after \<open>k\<close> parts of its work.\<close>

datatype io = Io_Ok | Io_Fails nat

text \<open>A loop over a list whose body may end the method with \<open>Some\<close> result.\<close>

fun for_each :: "('a \<Rightarrow> ('s, 'r option) act) \<Rightarrow> 'a list \<Rightarrow> ('s, 'r option) act" where
  "for_each f [] = ret None"
| "for_each f (x # xs) = andThen (f x) (\<lambda>r. case r of Some y \<Rightarrow> ret (Some y) | None \<Rightarrow> for_each f xs)"

definition triple :: "('s \<Rightarrow> bool) \<Rightarrow> ('s, 'a) act \<Rightarrow> ('a \<Rightarrow> 's \<Rightarrow> bool) \<Rightarrow> bool" where
  "triple P m Q = (\<forall>s. P s \<longrightarrow> (case m s of (x, s') \<Rightarrow> Q x s'))"

lemma tripleI: "(\<And>s x s'. P s \<Longrightarrow> m s = (x, s') \<Longrightarrow> Q x s') \<Longrightarrow> triple P m Q"
  by (auto simp: triple_def split: prod.split)

lemma tripleD: "triple P m Q \<Longrightarrow> P s \<Longrightarrow> m s = (x, s') \<Longrightarrow> Q x s'"
  by (auto simp: triple_def)

lemma triple_conseq:
  "triple P m Q \<Longrightarrow> (\<And>s. P' s \<Longrightarrow> P s) \<Longrightarrow> (\<And>x s. Q x s \<Longrightarrow> Q' x s) \<Longrightarrow> triple P' m Q'"
  by (rule tripleI) (meson tripleD)

lemma triple_pre: "triple P m Q \<Longrightarrow> (\<And>s. P' s \<Longrightarrow> P s) \<Longrightarrow> triple P' m Q"
  by (erule triple_conseq) auto

lemma triple_post: "triple P m Q \<Longrightarrow> (\<And>x s. Q x s \<Longrightarrow> Q' x s) \<Longrightarrow> triple P m Q'"
  by (erule triple_conseq) auto

lemma triple_ret: "triple (Q x) (ret x) Q"
  by (simp add: triple_def ret_def)

lemma triple_gets: "triple (\<lambda>s. Q (f s) s) (gets f) Q"
  by (simp add: triple_def gets_def)

lemma triple_modify: "triple (\<lambda>s. Q () (f s)) (modify f) Q"
  by (simp add: triple_def modify_def)

lemma triple_andThen: "triple P m R \<Longrightarrow> (\<And>x. triple (R x) (f x) Q) \<Longrightarrow> triple P (andThen m f) Q"
proof (rule tripleI)
  fix s y s'
  assume m: "triple P m R" and f: "\<And>x. triple (R x) (f x) Q" and "P s" "andThen m f s = (y, s')"
  then obtain x t where t: "m s = (x, t)" "f x t = (y, s')" by (auto simp: andThen_def split: prod.splits)
  then show "Q y s'" using tripleD [OF m \<open>P s\<close>] tripleD [OF f] by blast
qed

lemma triple_try:
  "triple P m R \<Longrightarrow> (\<And>x. triple (R (Inr x)) (f x) Q) \<Longrightarrow> (\<And>e s. R (Inl e) s \<Longrightarrow> Q (Inl e) s) \<Longrightarrow>
   triple P (try_then m f) Q"
  unfolding try_then_def
  by (rule triple_andThen) (auto split: sum.split intro: triple_pre [OF triple_ret])

lemma triple_for_each:
  assumes body: "\<And>x. x \<in> set xs \<Longrightarrow> triple I (f x) (\<lambda>r s. case r of None \<Rightarrow> I s | Some y \<Rightarrow> Q y s)"
  shows "triple I (for_each f xs) (\<lambda>r s. case r of None \<Rightarrow> I s | Some y \<Rightarrow> Q y s)"
  using body
proof (induction xs)
  case Nil
  then show ?case by (auto intro: triple_pre [OF triple_ret])
next
  case (Cons x xs)
  show ?case
    unfolding for_each.simps
  proof (rule triple_andThen [OF Cons.prems])
    show "triple (\<lambda>s. case r of None \<Rightarrow> I s | Some y \<Rightarrow> Q y s)
        (case r of None \<Rightarrow> for_each f xs | Some y \<Rightarrow> ret (Some y))
        (\<lambda>r s. case r of None \<Rightarrow> I s | Some y \<Rightarrow> Q y s)" for r
      using Cons by (cases r) (auto intro: triple_pre [OF triple_ret])
  qed simp
qed

text \<open>An invariant: kept whatever the result.\<close>

definition keeps :: "('s \<Rightarrow> bool) \<Rightarrow> ('s, 'a) act \<Rightarrow> bool" where
  "keeps I m = triple I m (\<lambda>_. I)"

lemma keepsI: "(\<And>s x s'. I s \<Longrightarrow> m s = (x, s') \<Longrightarrow> I s') \<Longrightarrow> keeps I m"
  unfolding keeps_def by (rule tripleI)

lemma keepsD: "keeps I m \<Longrightarrow> I s \<Longrightarrow> m s = (x, s') \<Longrightarrow> I s'"
  unfolding keeps_def by (rule tripleD)

lemma keeps_ret [hoare_rules]: "keeps I (ret x)"
  by (simp add: keeps_def triple_def ret_def)

lemma keeps_gets [hoare_rules]: "keeps I (gets f)"
  by (simp add: keeps_def triple_def gets_def)

lemma keeps_andThen [hoare_rules]: "keeps I m \<Longrightarrow> (\<And>x. keeps I (f x)) \<Longrightarrow> keeps I (andThen m f)"
  unfolding keeps_def by (rule triple_andThen)

lemma keeps_try [hoare_rules]: "keeps I m \<Longrightarrow> (\<And>x. keeps I (f x)) \<Longrightarrow> keeps I (try_then m f)"
  unfolding keeps_def by (rule triple_try)

lemma keeps_if [hoare_rules]: "(b \<Longrightarrow> keeps I m) \<Longrightarrow> (\<not> b \<Longrightarrow> keeps I n) \<Longrightarrow> keeps I (if b then m else n)"
  by simp

lemma keeps_case_sum [hoare_rules]:
  "(\<And>e. r = Inl e \<Longrightarrow> keeps I (f e)) \<Longrightarrow> (\<And>x. r = Inr x \<Longrightarrow> keeps I (g x)) \<Longrightarrow>
   keeps I (case r of Inl e \<Rightarrow> f e | Inr x \<Rightarrow> g x)"
  by (cases r) auto

lemma keeps_case_option [hoare_rules]:
  "(r = None \<Longrightarrow> keeps I m) \<Longrightarrow> (\<And>x. r = Some x \<Longrightarrow> keeps I (f x)) \<Longrightarrow>
   keeps I (case r of None \<Rightarrow> m | Some x \<Rightarrow> f x)"
  by (cases r) auto

lemma keeps_case_prod [hoare_rules]:
  "(\<And>a b. p = (a, b) \<Longrightarrow> keeps I (f a b)) \<Longrightarrow> keeps I (case p of (a, b) \<Rightarrow> f a b)"
  by (cases p) auto

lemma keeps_for_each [hoare_rules]: "(\<And>x. x \<in> set xs \<Longrightarrow> keeps I (f x)) \<Longrightarrow> keeps I (for_each f xs)"
proof (induction xs)
  case (Cons x xs)
  show ?case unfolding for_each.simps
    by (intro keeps_andThen keeps_case_option keeps_ret) (simp_all add: Cons)
qed (simp add: keeps_ret)

end
