(* ===== verification/DepthStack.thy ===== *)
theory DepthStack
  imports Main "HOL-Library.Multiset"
begin

section \<open>Loops over a stack of folders\<close>

text \<open>
  The tree walks keep a stack of folders with their depth: a step pops one and pushes folders that
  lie one level deeper, down to a limit. The multiset of the remaining levels decreases.
\<close>

definition depth_rank :: "nat \<Rightarrow> nat list \<Rightarrow> nat multiset" where
  "depth_rank limit ks = mset (map (\<lambda>k. limit + 1 - k) ks)"

lemma depth_rank_less:
  assumes "\<forall>k \<in> set cs. k = depth + 1 \<and> k \<le> limit"
  shows "(depth_rank limit (cs @ rest), depth_rank limit (depth # rest)) \<in> mult less_than"
proof -
  have "(depth_rank limit rest + mset (map (\<lambda>k. limit + 1 - k) cs),
      depth_rank limit rest + {#limit + 1 - depth#}) \<in> mult less_than"
  proof (rule one_step_implies_mult)
    show "\<forall>k \<in> set_mset (mset (map (\<lambda>k. limit + 1 - k) cs)). \<exists>j \<in> set_mset {#limit + 1 - depth#}. (k, j) \<in> less_than"
      using assms by auto
  qed simp
  then show ?thesis by (simp add: depth_rank_def ac_simps)
qed

end
