(* ===== verification/TransferJob.thy ===== *)
theory TransferJob
  imports Bytes TransferQueue Effects DepthStack
begin

section \<open>The job of a transfer\<close>

text \<open>
  Models \<open>Job\<close> of \<open>crates/rustscp-core/src/transfer_queue.rs\<close> with every method, and
  the trait \<open>VirtualFileSystem\<close> of \<open>vfs.rs\<close> as far as the job calls it. The systems
  behind the two sessions, and whatever else there is, are one world \<open>'w\<close>; a method of a
  session is a function on it, so a call can do anything, also what other programs do meanwhile.
  The task list is shared: \<open>jb_others\<close> holds what other threads do to it, one action before
  each access of the job. \<open>jb_clock\<close> holds the readings of the clock in microseconds. A speed
  is computed in whole bytes per second where the code uses floating point.
\<close>


subsection \<open>A session\<close>

record 'w vfs =
  v_protocol :: protocol
  v_supports_write_at :: bool
  v_supports_shell :: bool
  v_supports_permissions :: bool
  v_list_dir :: "string \<Rightarrow> ('w, file_entry list core_result) act"
  v_metadata :: "string \<Rightarrow> ('w, file_entry core_result) act"
  v_read_file :: "string \<Rightarrow> ('w, bytes core_result) act"
  v_read_range :: "string \<Rightarrow> nat \<Rightarrow> nat \<Rightarrow> ('w, bytes core_result) act"
  v_read_range_in :: "nat \<Rightarrow> string \<Rightarrow> nat \<Rightarrow> nat \<Rightarrow> ('w, bytes core_result) act"
  v_write_file :: "string \<Rightarrow> bytes \<Rightarrow> ('w, unit core_result) act"
  v_write_at :: "string \<Rightarrow> nat \<Rightarrow> bytes \<Rightarrow> ('w, unit core_result) act"
  v_write_at_in :: "nat \<Rightarrow> string \<Rightarrow> nat \<Rightarrow> bytes \<Rightarrow> ('w, unit core_result) act"
  v_finish_stream :: "nat \<Rightarrow> ('w, unit core_result) act"
  v_abandon_stream :: "nat \<Rightarrow> ('w, unit) act"
  v_create_dir :: "string \<Rightarrow> ('w, unit core_result) act"
  v_remove_file :: "string \<Rightarrow> ('w, unit core_result) act"
  v_remove_dir :: "string \<Rightarrow> bool \<Rightarrow> ('w, unit core_result) act"
  v_rename :: "string \<Rightarrow> string \<Rightarrow> ('w, unit core_result) act"
  v_set_permissions :: "string \<Rightarrow> mode \<Rightarrow> ('w, unit core_result) act"
  v_exists :: "string \<Rightarrow> ('w, bool core_result) act"
  v_execute_command :: "string \<Rightarrow> ('w, (int \<times> string \<times> string) core_result) act"

subsection \<open>The job and its state\<close>

datatype copy_error = CE_Cancelled | CE_Failed string

datatype commit = C_Done | C_NotAllowed string | C_OldRemoved string

record dir_alias =
  same_dir :: bool
  case_insensitive :: bool

record 'w job_env =
  je_id :: string
  je_tag :: string
  je_src :: "'w vfs"
  je_dst :: "'w vfs"
  je_same_session :: bool
  je_is_move :: bool
  je_min_chunk :: nat
  je_max_chunk :: nat
  je_started :: nat
  je_windows :: bool

record 'w job =
  jb_world :: 'w
  jb_tasks :: "task list"
  jb_others :: "(task list \<Rightarrow> task list) list"
  jb_clock :: "nat list"
  jb_streams :: nat
  jb_transferred :: nat
  jb_cache :: "((string \<times> string) \<times> dir_alias) list"

type_synonym ('w, 'a) job_act = "('w job, 'a) act"

definition MIN_CHUNK_SIZE :: nat where "MIN_CHUNK_SIZE = 256 * 1024"
definition MAX_CHUNK_SIZE :: nat where "MAX_CHUNK_SIZE = 8 * 1024 * 1024"
definition MAX_TREE_DEPTH :: nat where "MAX_TREE_DEPTH = 64"
definition U64_MAX :: nat where "U64_MAX = 2 ^ 64 - 1"

text \<open>\<open>with_chunk_range\<close>: the least chunk is one byte.\<close>

definition chunk_range :: "nat \<Rightarrow> nat \<Rightarrow> nat \<times> nat" where
  "chunk_range lo hi = (let lo' = max lo 1 in (lo', max hi lo'))"

definition on_world :: "('w, 'a) act \<Rightarrow> ('w, 'a) job_act" where
  "on_world m = (\<lambda>s. case m (jb_world s) of (x, w) \<Rightarrow> (x, s\<lparr>jb_world := w\<rparr>))"

definition others_act :: "('w, unit) job_act" where
  "others_act = modify (\<lambda>s. case jb_others s of [] \<Rightarrow> s
     | f # fs \<Rightarrow> s\<lparr>jb_tasks := f (jb_tasks s), jb_others := fs\<rparr>)"

definition now :: "('w, nat) job_act" where
  "now = (\<lambda>s. case jb_clock s of [] \<Rightarrow> (0, s) | t # ts \<Rightarrow> (t, s\<lparr>jb_clock := ts\<rparr>))"

definition new_stream :: "('w, nat) job_act" where
  "new_stream = (\<lambda>s. (jb_streams s, s\<lparr>jb_streams := jb_streams s + 1\<rparr>))"

subsection \<open>Progress and cancelling\<close>

definition job_cancelled :: "'w job_env \<Rightarrow> ('w, bool) job_act" where
  "job_cancelled env =
     andThen others_act (\<lambda>_. gets (\<lambda>s. is_cancelled (jb_tasks s) (je_id env)))"

definition job_set_total :: "'w job_env \<Rightarrow> nat \<Rightarrow> ('w, unit) job_act" where
  "job_set_total env n =
     andThen others_act (\<lambda>_. modify (\<lambda>s. s\<lparr>jb_tasks := set_total (je_id env) n (jb_tasks s)\<rparr>))"

definition speed_of :: "nat \<Rightarrow> nat \<Rightarrow> nat" where
  "speed_of transferred elapsed_us =
     (if elapsed_us > 100000 then transferred * 1000000 div elapsed_us else 0)"

definition add_progress :: "'w job_env \<Rightarrow> nat \<Rightarrow> ('w, unit) job_act" where
  "add_progress env n =
     andThen (modify (\<lambda>s. s\<lparr>jb_transferred := min (jb_transferred s + n) U64_MAX\<rparr>)) (\<lambda>_.
     andThen now (\<lambda>t.
     andThen others_act (\<lambda>_.
       modify (\<lambda>s. s\<lparr>jb_tasks := set_progress (je_id env) (jb_transferred s)
                       (speed_of (jb_transferred s) (t - je_started env)) (jb_tasks s)\<rparr>))))"

definition unprogress :: "nat \<Rightarrow> ('w, unit) job_act" where
  "unprogress n = modify (\<lambda>s. s\<lparr>jb_transferred := jb_transferred s - n\<rparr>)"

definition same_filesystem :: "'w job_env \<Rightarrow> bool" where
  "same_filesystem env =
     (je_same_session env \<or> v_protocol (je_src env) = Local \<and> v_protocol (je_dst env) = Local)"

subsection \<open>Small operations on the sessions\<close>

text \<open>Is the path itself a link? Looked up in the listing of its parent.\<close>

definition is_link :: "'w job_env \<Rightarrow> string \<Rightarrow> ('w, bool) job_act" where
  "is_link env path =
     (let trimmed = trim_end_matches is_sep path; (parent, name) = split_name trimmed in
      if name = [] \<or> name = ''.'' \<or> name = ''..'' then ret False
      else andThen (on_world (v_list_dir (je_src env) (if parent = [] then ''.'' else parent)))
        (\<lambda>r. ret (case r of Inr entries \<Rightarrow> list_ex (\<lambda>e. fe_name e = name \<and> is_symlink e) entries
                          | Inl _ \<Rightarrow> False)))"

definition dest_has_size :: "'w job_env \<Rightarrow> string \<Rightarrow> nat \<Rightarrow> ('w, bool) job_act" where
  "dest_has_size env path sz =
     andThen (on_world (v_metadata (je_dst env) path))
       (\<lambda>r. ret (case r of Inr m \<Rightarrow> \<not> is_dir m \<and> fe_size m = sz | Inl _ \<Rightarrow> False))"

definition discard_partial :: "'w job_env \<Rightarrow> string \<Rightarrow> ('w, unit) job_act" where
  "discard_partial env path =
     andThen (on_world (v_remove_file (je_dst env) path)) (\<lambda>_. ret ())"

definition create_empty :: "'w job_env \<Rightarrow> string \<Rightarrow> ('w, unit core_result) job_act" where
  "create_empty env path =
     (if v_supports_write_at (je_dst env) then on_world (v_write_at (je_dst env) path 0 [])
      else on_world (v_write_file (je_dst env) path []))"

definition src_sees :: "'w job_env \<Rightarrow> string \<Rightarrow> ('w, bool) job_act" where
  "src_sees env path =
     andThen (on_world (v_exists (je_src env) path)) (\<lambda>r. ret (r = Inr True))"

definition probe_alias :: "'w job_env \<Rightarrow> string \<Rightarrow> string \<Rightarrow> ('w, dir_alias) job_act" where
  "probe_alias env src_dir marker_name =
     andThen (src_sees env (src_dir @ marker_name)) (\<lambda>same.
       if \<not> same then ret \<lparr>same_dir = False, case_insensitive = False\<rparr>
       else let toggled = toggle_ascii_case marker_name in
         if toggled = marker_name then ret \<lparr>same_dir = True, case_insensitive = False\<rparr>
         else andThen (src_sees env (src_dir @ toggled))
                (\<lambda>ci. ret \<lparr>same_dir = True, case_insensitive = ci\<rparr>))"

subsection \<open>Is the destination the source itself?\<close>

definition same_file_error :: "string \<Rightarrow> string \<Rightarrow> copy_error" where
  "same_file_error sp dp =
     CE_Failed (''Source and destination are the same file ('' @ quote sp @ '' and '' @ quote dp
                @ ''); nothing was transferred'')"

text \<open>The alias of the two folders: cached, or probed with the temporary file or a probe file;
  \<open>None\<close> when no probe file can be created.\<close>

definition find_alias ::
  "'w job_env \<Rightarrow> string \<Rightarrow> string \<Rightarrow> string option \<Rightarrow> ('w, dir_alias option) job_act" where
  "find_alias env src_dir dst_dir temp_marker =
     andThen (gets (\<lambda>s. map_of (jb_cache s) (src_dir, dst_dir))) (\<lambda>cached.
       case cached of
         Some a \<Rightarrow> ret (Some a)
       | None \<Rightarrow>
           andThen (case temp_marker of
               Some temp \<Rightarrow> andThen (probe_alias env src_dir (snd (split_name temp))) (\<lambda>a. ret (Some a))
             | None \<Rightarrow>
                 let name = probe_file_name (je_tag env); marker = dst_dir @ name in
                 andThen (create_empty env marker) (\<lambda>r. case r of
                     Inl _ \<Rightarrow> ret None
                   | Inr _ \<Rightarrow> andThen (probe_alias env src_dir name) (\<lambda>a.
                              andThen (discard_partial env marker) (\<lambda>_. ret (Some a)))))
             (\<lambda>found. case found of
                 None \<Rightarrow> ret None
               | Some a \<Rightarrow> andThen (modify (\<lambda>s. s\<lparr>jb_cache := ((src_dir, dst_dir), a) # jb_cache s\<rparr>))
                            (\<lambda>_. ret (Some a))))"

definition check_not_same_file ::
  "'w job_env \<Rightarrow> string \<Rightarrow> string \<Rightarrow> string option \<Rightarrow> ('w, copy_error + unit) job_act" where
  "check_not_same_file env sp dp temp_marker =
     (let (src_dir, src_name) = split_name sp; (dst_dir, dst_name) = split_name dp in
      if to_lowercase src_name \<noteq> to_lowercase dst_name then ret (Inr ())
      else andThen (find_alias env src_dir dst_dir temp_marker) (\<lambda>found. case found of
          None \<Rightarrow> ret (Inr ())
        | Some a \<Rightarrow>
            if same_dir a \<and> (src_name = dst_name \<or> case_insensitive a)
            then ret (Inl (same_file_error sp dp)) else ret (Inr ())))"

definition guard_in_place_same_file ::
  "'w job_env \<Rightarrow> string \<Rightarrow> string \<Rightarrow> file_entry \<Rightarrow> ('w, copy_error + unit) job_act" where
  "guard_in_place_same_file env sp dp existing =
     (if to_lowercase (snd (split_name sp)) \<noteq> to_lowercase (snd (split_name dp)) then ret (Inr ())
      else andThen (on_world (v_metadata (je_src env) sp)) (\<lambda>r. case r of
          Inr src \<Rightarrow>
            if fe_size src = fe_size existing \<and> modified_at src \<noteq> None \<and>
               modified_at src = modified_at existing
            then ret (Inl (CE_Failed (quote dp @ '' appears to be the source file itself (same name, size and time as ''
                   @ quote sp @ ''); nothing was transferred'')))
            else ret (Inr ())
        | Inl _ \<Rightarrow> ret (Inr ())))"

text \<open>Put a complete, verified temporary file in place of the destination.\<close>

definition commit_temp :: "'w job_env \<Rightarrow> string \<Rightarrow> string \<Rightarrow> ('w, commit) job_act" where
  "commit_temp env temp_path dp =
     andThen (on_world (v_rename (je_dst env) temp_path dp)) (\<lambda>r. case r of
         Inr _ \<Rightarrow> ret C_Done
       | Inl first \<Rightarrow>
           andThen (on_world (v_exists (je_dst env) dp)) (\<lambda>there.
             if there \<noteq> Inr True
             then ret (C_NotAllowed (''renaming the new copy failed: '' @ error_text first))
             else andThen (on_world (v_remove_file (je_dst env) dp)) (\<lambda>removed. case removed of
                 Inl e \<Rightarrow> ret (C_NotAllowed (''renaming the new copy failed ('' @ error_text first
                            @ '') and removing the old file failed ('' @ error_text e @ '')''))
               | Inr _ \<Rightarrow> andThen (on_world (v_rename (je_dst env) temp_path dp)) (\<lambda>again. case again of
                     Inr _ \<Rightarrow> ret C_Done
                   | Inl e \<Rightarrow> ret (C_OldRemoved (error_text e))))))"

subsection \<open>Streaming\<close>

definition read_failed :: "string \<Rightarrow> core_error \<Rightarrow> string" where
  "read_failed sp e = ''Read failed for '' @ quote sp @ '': '' @ error_text e"

definition source_changed :: "nat \<Rightarrow> nat \<Rightarrow> string" where
  "source_changed expected got =
     ''The source changed during the transfer ('' @ show_nat expected @ '' bytes expected, ''
     @ show_nat got @ '' read)''"

definition ended_early :: "string \<Rightarrow> nat \<Rightarrow> nat \<Rightarrow> string" where
  "ended_early sp offset expected =
     quote sp @ '' ended after '' @ show_nat offset @ '' of '' @ show_nat expected
     @ '' bytes (was it changed during the transfer?)''"

text \<open>
  One read of the chunk loops: the next range; at the start of the file a driver without ranged
  reads is asked for the whole file instead. The data is cut to what is still expected.
\<close>

definition read_step ::
  "'w job_env \<Rightarrow> nat \<Rightarrow> string \<Rightarrow> nat \<Rightarrow> nat \<Rightarrow> nat \<Rightarrow> ('w, string + bytes) job_act" where
  "read_step env stream sp expected offset want =
     andThen (on_world (v_read_range_in (je_src env) stream sp offset want)) (\<lambda>r. case r of
         Inr d \<Rightarrow> ret (Inr d)
       | Inl e \<Rightarrow>
           if offset = 0
           then andThen (on_world (v_read_file (je_src env) sp)) (\<lambda>whole. ret (case whole of
                    Inr d \<Rightarrow> if length d = expected then Inr d else Inl (source_changed expected (length d))
                  | Inl _ \<Rightarrow> Inl (read_failed sp e)))
           else ret (Inl (''Read failed at byte '' @ show_nat offset @ '' of '' @ quote sp @ '': '' @ error_text e)))"

definition next_chunk :: "'w job_env \<Rightarrow> nat \<Rightarrow> nat \<Rightarrow> nat" where
  "next_chunk env chunk took_us =
     (if took_us < 500000 then min (min (chunk * 2) U64_MAX) (je_max_chunk env)
      else if took_us > 2000000 then max (chunk div 2) (je_min_chunk env) else chunk)"

record stream_args =
  sa_source :: string
  sa_target :: string
  sa_shown :: string
  sa_expected :: nat
  sa_owned :: bool

text \<open>The loop of \<open>stream_chunks\<close>; an error says whether the target is to be removed.\<close>

function chunk_loop ::
  "'w job_env \<Rightarrow> stream_args \<Rightarrow> nat \<Rightarrow> nat \<Rightarrow> nat \<Rightarrow> nat \<Rightarrow> bool
   \<Rightarrow> ('w, copy_error \<times> bool + unit) job_act" where
  "chunk_loop env a rd wr chunk offset wrote_any =
     (if offset \<ge> sa_expected a then ret (Inr ())
      else andThen (job_cancelled env) (\<lambda>stop.
        if stop then ret (Inl (CE_Cancelled, sa_owned a \<or> wrote_any))
        else andThen now (\<lambda>t0.
        andThen (read_step env rd (sa_source a) (sa_expected a) offset (min chunk (sa_expected a - offset))) (\<lambda>r.
        case r of
          Inl m \<Rightarrow> ret (Inl (CE_Failed m, if offset = 0 then sa_owned a else sa_owned a \<or> wrote_any))
        | Inr d \<Rightarrow>
            if d = []
            then ret (Inl (CE_Failed (ended_early (sa_source a) offset (sa_expected a)), sa_owned a \<or> wrote_any))
            else let data = take (sa_expected a - offset) d in
              andThen (on_world (v_write_at_in (je_dst env) wr (sa_target a) offset data)) (\<lambda>w.
              case w of
                Inl e \<Rightarrow> ret (Inl (CE_Failed (''Write failed at byte '' @ show_nat offset @ '' of ''
                          @ quote (sa_shown a) @ '': '' @ error_text e), sa_owned a \<or> wrote_any))
              | Inr _ \<Rightarrow>
                  andThen (add_progress env (length data)) (\<lambda>_.
                  andThen now (\<lambda>t1.
                    chunk_loop env a rd wr (next_chunk env chunk (t1 - t0)) (offset + length data) True)))))))"
  by pat_completeness auto

termination
  by (relation "measure (\<lambda>(env, a, rd, wr, chunk, offset, wrote). sa_expected a - offset)")
     (auto simp: neq_Nil_conv)

declare chunk_loop.simps [simp del]

definition stream_chunks ::
  "'w job_env \<Rightarrow> stream_args \<Rightarrow> nat \<Rightarrow> nat \<Rightarrow> ('w, copy_error \<times> bool + unit) job_act" where
  "stream_chunks env a rd wr =
     (if sa_expected a = 0
      then andThen (on_world (v_write_at (je_dst env) (sa_target a) 0 [])) (\<lambda>w. case w of
          Inl e \<Rightarrow> ret (Inl (CE_Failed (''Cannot create '' @ quote (sa_shown a) @ '': '' @ error_text e), sa_owned a))
        | Inr _ \<Rightarrow> chunk_loop env a rd wr (je_min_chunk env) 0 True)
      else chunk_loop env a rd wr (je_min_chunk env) 0 False)"

definition size_check_failed :: "string \<Rightarrow> nat \<Rightarrow> nat \<Rightarrow> copy_error" where
  "size_check_failed shown expected written =
     CE_Failed (''Size check failed for '' @ quote shown @ '': '' @ show_nat expected
       @ '' bytes expected, '' @ show_nat written @ '' written'')"

definition not_verified :: "string \<Rightarrow> core_error \<Rightarrow> copy_error" where
  "not_verified shown e =
     CE_Failed (''Could not verify '' @ quote shown @ '' after writing it: '' @ error_text e)"

text \<open>The end of both streams.\<close>

definition end_streams ::
  "'w job_env \<Rightarrow> stream_args \<Rightarrow> nat \<Rightarrow> nat \<Rightarrow> copy_error \<times> bool + unit
   \<Rightarrow> ('w, copy_error \<times> bool + unit) job_act" where
  "end_streams env a rd wr copied =
     (case copied of
        Inr _ \<Rightarrow>
          andThen (on_world (v_finish_stream (je_src env) rd)) (\<lambda>_.
          andThen (on_world (v_finish_stream (je_dst env) wr)) (\<lambda>f. ret (case f of
              Inr _ \<Rightarrow> Inr ()
            | Inl e \<Rightarrow> Inl (CE_Failed (''Write failed for '' @ quote (sa_shown a) @ '': '' @ error_text e), True))))
      | Inl failed \<Rightarrow>
          andThen (on_world (v_abandon_stream (je_src env) rd)) (\<lambda>_.
          andThen (on_world (v_finish_stream (je_dst env) wr)) (\<lambda>_. ret (Inl failed))))"

text \<open>The size check of a target: the error says whether the target is removed.\<close>

definition verify_size ::
  "'w job_env \<Rightarrow> string \<Rightarrow> string \<Rightarrow> nat \<Rightarrow> bool \<Rightarrow> ('w, copy_error + unit) job_act" where
  "verify_size env target shown expected discard_unknown =
     andThen (on_world (v_metadata (je_dst env) target)) (\<lambda>r. case r of
         Inr m \<Rightarrow>
           if fe_size m = expected then ret (Inr ())
           else andThen (discard_partial env target) (\<lambda>_. ret (Inl (size_check_failed shown expected (fe_size m))))
       | Inl e \<Rightarrow>
           if discard_unknown
           then andThen (discard_partial env target) (\<lambda>_. ret (Inl (not_verified shown e)))
           else ret (Inl (not_verified shown e)))"

definition stream_verified :: "'w job_env \<Rightarrow> stream_args \<Rightarrow> ('w, copy_error + unit) job_act" where
  "stream_verified env a =
     andThen new_stream (\<lambda>rd.
     andThen new_stream (\<lambda>wr.
     andThen (stream_chunks env a rd wr) (\<lambda>copied.
     andThen (end_streams env a rd wr copied) (\<lambda>r. case r of
         Inl (e, discard) \<Rightarrow>
           if discard then andThen (discard_partial env (sa_target a)) (\<lambda>_. ret (Inl e)) else ret (Inl e)
       | Inr _ \<Rightarrow> verify_size env (sa_target a) (sa_shown a) (sa_expected a) (sa_owned a)))))"

subsection \<open>Whole files\<close>

function read_loop ::
  "'w job_env \<Rightarrow> string \<Rightarrow> nat \<Rightarrow> nat \<Rightarrow> nat \<Rightarrow> nat \<Rightarrow> bytes \<Rightarrow> ('w, copy_error + bytes) job_act" where
  "read_loop env sp expected rd chunk offset buf =
     (if offset \<ge> expected then ret (Inr buf)
      else andThen (job_cancelled env) (\<lambda>stop.
        if stop then ret (Inl CE_Cancelled)
        else andThen now (\<lambda>t0.
        andThen (read_step env rd sp expected offset (min chunk (expected - offset))) (\<lambda>r.
        case r of
          Inl m \<Rightarrow> ret (Inl (CE_Failed m))
        | Inr d \<Rightarrow>
            if d = [] then ret (Inl (CE_Failed (ended_early sp offset expected)))
            else let data = take (expected - offset) d in
              andThen (add_progress env (length data)) (\<lambda>_.
              andThen now (\<lambda>t1.
                read_loop env sp expected rd (next_chunk env chunk (t1 - t0)) (offset + length data)
                  (buf @ data)))))))"
  by pat_completeness auto

termination
  by (relation "measure (\<lambda>(env, sp, expected, rd, chunk, offset, buf). expected - offset)")
     (auto simp: neq_Nil_conv)

declare read_loop.simps [simp del]

definition read_chunks :: "'w job_env \<Rightarrow> string \<Rightarrow> nat \<Rightarrow> nat \<Rightarrow> ('w, copy_error + bytes) job_act" where
  "read_chunks env sp expected rd = read_loop env sp expected rd (je_min_chunk env) 0 []"

definition copy_file_whole ::
  "'w job_env \<Rightarrow> string \<Rightarrow> string \<Rightarrow> nat \<Rightarrow> ('w, copy_error + unit) job_act" where
  "copy_file_whole env sp dp expected =
     try_then (if je_is_move env then check_not_same_file env sp dp None else ret (Inr ())) (\<lambda>_.
     andThen new_stream (\<lambda>rd.
     andThen (read_chunks env sp expected rd) (\<lambda>collected.
     andThen (case collected of
         Inr _ \<Rightarrow> andThen (on_world (v_finish_stream (je_src env) rd)) (\<lambda>_. ret ())
       | Inl _ \<Rightarrow> on_world (v_abandon_stream (je_src env) rd)) (\<lambda>_.
     case collected of
       Inl e \<Rightarrow> ret (Inl e)
     | Inr buf \<Rightarrow>
         andThen (job_cancelled env) (\<lambda>stop.
         if stop then ret (Inl CE_Cancelled)
         else andThen (on_world (v_write_file (je_dst env) dp buf)) (\<lambda>w. case w of
             Inl e \<Rightarrow> ret (Inl (CE_Failed (''Write failed for '' @ quote dp @ '': '' @ error_text e)))
           | Inr _ \<Rightarrow> verify_size env dp dp expected False))))))"

subsection \<open>One file\<close>

definition direct :: "string \<Rightarrow> string \<Rightarrow> nat \<Rightarrow> stream_args" where
  "direct sp dp expected =
     \<lparr>sa_source = sp, sa_target = dp, sa_shown = dp, sa_expected = expected, sa_owned = False\<rparr>"

definition through_temp :: "string \<Rightarrow> string \<Rightarrow> string \<Rightarrow> nat \<Rightarrow> stream_args" where
  "through_temp sp temp_path dp expected =
     \<lparr>sa_source = sp, sa_target = temp_path, sa_shown = dp, sa_expected = expected, sa_owned = True\<rparr>"

definition temp_path_of :: "'w job_env \<Rightarrow> string \<Rightarrow> string" where
  "temp_path_of env dp =
     (let (dst_dir, dst_name) = split_name dp in dst_dir @ temp_file_name dst_name (je_tag env))"

text \<open>The end of \<open>copy_file\<close>: the verified temporary file takes the place of the destination.\<close>

definition replace_by_temp ::
  "'w job_env \<Rightarrow> string \<Rightarrow> string \<Rightarrow> string \<Rightarrow> nat \<Rightarrow> ('w, copy_error + unit) job_act" where
  "replace_by_temp env sp temp_path dp expected =
     andThen (commit_temp env temp_path dp) (\<lambda>c. case c of
         C_Done \<Rightarrow> ret (Inr ())
       | C_NotAllowed why \<Rightarrow>
           andThen (discard_partial env temp_path) (\<lambda>_.
           andThen (unprogress expected) (\<lambda>_.
             stream_verified env (direct sp dp expected)))
       | C_OldRemoved why \<Rightarrow>
           andThen (unprogress expected) (\<lambda>_.
           andThen (stream_verified env (direct sp dp expected)) (\<lambda>r. case r of
               Inr _ \<Rightarrow> andThen (discard_partial env temp_path) (\<lambda>_. ret (Inr ()))
             | Inl CE_Cancelled \<Rightarrow> ret (Inl CE_Cancelled)
             | Inl (CE_Failed msg) \<Rightarrow> ret (Inl (CE_Failed (''The old '' @ quote dp
                 @ '' was removed, but the new copy could not be renamed into place ('' @ why
                 @ '') or written directly ('' @ msg @ ''); the complete copy was kept as '' @ quote temp_path))))))"

definition keep_permissions :: "'w job_env \<Rightarrow> string \<Rightarrow> file_entry \<Rightarrow> ('w, unit) job_act" where
  "keep_permissions env temp_path existing =
     (if v_supports_permissions (je_dst env)
      then andThen (on_world (v_set_permissions (je_dst env) temp_path
             (and (perm_mode (fe_permissions existing)) 511))) (\<lambda>_. ret ())
      else ret ())"

definition copy_over ::
  "'w job_env \<Rightarrow> string \<Rightarrow> string \<Rightarrow> nat \<Rightarrow> file_entry \<Rightarrow> ('w, copy_error + unit) job_act" where
  "copy_over env sp dp expected existing =
     (let temp_path = temp_path_of env dp in
      andThen (on_world (v_write_at (je_dst env) temp_path 0 [])) (\<lambda>t. case t of
          Inl _ \<Rightarrow>
            andThen (discard_partial env temp_path) (\<lambda>_.
            try_then (guard_in_place_same_file env sp dp existing) (\<lambda>_.
              stream_verified env (direct sp dp expected)))
        | Inr _ \<Rightarrow>
            andThen (check_not_same_file env sp dp (Some temp_path)) (\<lambda>same. case same of
                Inl e \<Rightarrow> andThen (discard_partial env temp_path) (\<lambda>_. ret (Inl e))
              | Inr _ \<Rightarrow>
                  try_then (stream_verified env (through_temp sp temp_path dp expected)) (\<lambda>_.
                  andThen (job_cancelled env) (\<lambda>stop.
                    if stop then andThen (discard_partial env temp_path) (\<lambda>_. ret (Inl CE_Cancelled))
                    else andThen (keep_permissions env temp_path existing) (\<lambda>_.
                      replace_by_temp env sp temp_path dp expected))))))"

definition copy_file :: "'w job_env \<Rightarrow> string \<Rightarrow> string \<Rightarrow> nat \<Rightarrow> ('w, copy_error + unit) job_act" where
  "copy_file env sp dp expected =
     (if \<not> v_supports_write_at (je_dst env) then copy_file_whole env sp dp expected
      else andThen (on_world (v_metadata (je_dst env) dp)) (\<lambda>r. case r of
          Inl _ \<Rightarrow> stream_verified env (direct sp dp expected)
        | Inr existing \<Rightarrow>
            if is_dir existing
            then ret (Inl (CE_Failed (''Write failed for '' @ quote dp @ '': a folder with that name exists'')))
            else if readonly (fe_permissions existing)
            then ret (Inl (CE_Failed (''Write failed for '' @ quote dp
                   @ '': the existing file is read-only and was left unchanged'')))
            else copy_over env sp dp expected existing))"

definition transfer_file ::
  "'w job_env \<Rightarrow> string \<Rightarrow> string \<Rightarrow> nat \<Rightarrow> bool \<Rightarrow> ('w, outcome) job_act" where
  "transfer_file env sp dp sz is_move =
     andThen (job_set_total env sz) (\<lambda>_.
     andThen (copy_file env sp dp sz) (\<lambda>r. case r of
         Inl CE_Cancelled \<Rightarrow> ret O_Cancelled
       | Inl (CE_Failed msg) \<Rightarrow> ret (O_Failed msg)
       | Inr _ \<Rightarrow>
           if \<not> is_move then ret (O_Completed None)
           else andThen (job_cancelled env) (\<lambda>stop.
             if stop then ret O_Cancelled
             else andThen (dest_has_size env dp sz) (\<lambda>there.
               if \<not> there
               then ret (O_Failed (quote dp @ '' was copied, but the copy no longer has the expected size of ''
                      @ show_nat sz @ '' bytes; the source was not deleted''))
               else andThen (on_world (v_remove_file (je_src env) sp)) (\<lambda>d. ret (case d of
                   Inl e \<Rightarrow> O_Failed (''Copied and verified, but the source could not be deleted: '' @ error_text e)
                 | Inr _ \<Rightarrow> O_Completed None))))))"

subsection \<open>Planning a folder tree\<close>

record plan =
  pl_dirs :: "(string \<times> string) list"
  pl_files :: "(string \<times> string \<times> nat) list"
  pl_failures :: "string list"
  pl_refused :: nat
  pl_links :: nat
  pl_special :: nat
  pl_stack :: "(string \<times> string \<times> nat) list"

definition start_plan :: "string \<Rightarrow> string \<Rightarrow> plan" where
  "start_plan source_root dest_root =
     \<lparr>pl_dirs = [(source_root, dest_root)], pl_files = [], pl_failures = [], pl_refused = 0,
      pl_links = 0, pl_special = 0, pl_stack = [(source_root, dest_root, 0)]\<rparr>"

definition local_dest :: "'w job_env \<Rightarrow> bool" where
  "local_dest env = (v_protocol (je_dst env) = Local)"

definition windows_dest :: "'w job_env \<Rightarrow> bool" where
  "windows_dest env = (local_dest env \<and> je_windows env)"

definition backslash_is_separator :: "'w job_env \<Rightarrow> bool" where
  "backslash_is_separator env = (\<not> local_dest env \<or> je_windows env)"

text \<open>A resolved entry: a folder, a special file or a file.\<close>

definition plan_resolved ::
  "nat \<Rightarrow> string \<Rightarrow> string \<Rightarrow> bool \<Rightarrow> file_entry \<Rightarrow> plan \<Rightarrow> plan" where
  "plan_resolved depth child_src child_dst was_link e p =
     (if is_dir e
      then if was_link then p\<lparr>pl_links := pl_links p + 1\<rparr>
        else if depth + 1 > MAX_TREE_DEPTH
        then p\<lparr>pl_failures := pl_failures p @ [child_src @ '': folders nested too deeply'']\<rparr>
        else p\<lparr>pl_dirs := pl_dirs p @ [(child_src, child_dst)],
               pl_stack := (child_src, child_dst, depth + 1) # pl_stack p\<rparr>
      else if fe_type e = Other then p\<lparr>pl_special := pl_special p + 1\<rparr>
      else p\<lparr>pl_files := pl_files p @ [(child_src, child_dst, fe_size e)]\<rparr>)"

definition plan_entry ::
  "'w job_env \<Rightarrow> string \<Rightarrow> string \<Rightarrow> string \<Rightarrow> nat \<Rightarrow> file_entry \<Rightarrow> plan \<Rightarrow> ('w, plan) job_act" where
  "plan_entry env dest_root sdir ddir depth e p =
     (if fe_name e = [] \<or> fe_name e = ''.'' \<or> fe_name e = ''..'' then ret p
      else if is_unsafe_entry_name (fe_name e) (backslash_is_separator env) (windows_dest env)
      then ret (p\<lparr>pl_refused := pl_refused p + 1,
                  pl_failures := pl_failures p @ [sdir @ '': unsafe name '' @ debug_str (fe_name e)
                    @ '' in the folder listing; it was not transferred'']\<rparr>)
      else let child_src = join_path sdir (fe_name e); child_dst = join_path ddir (fe_name e) in
        if \<not> is_strictly_inside child_dst dest_root
        then ret (p\<lparr>pl_refused := pl_refused p + 1,
                    pl_failures := pl_failures p @ [sdir @ '': '' @ debug_str (fe_name e)
                      @ '' would be written outside '' @ quote dest_root @ ''; it was not transferred'']\<rparr>)
        else if is_symlink e
        then andThen (on_world (v_metadata (je_src env) child_src)) (\<lambda>r. ret (case r of
            Inl _ \<Rightarrow> p\<lparr>pl_links := pl_links p + 1\<rparr>
          | Inr m \<Rightarrow> plan_resolved depth child_src child_dst True m p))
        else ret (plan_resolved depth child_src child_dst False e p))"

fun plan_entries ::
  "'w job_env \<Rightarrow> string \<Rightarrow> string \<Rightarrow> string \<Rightarrow> nat \<Rightarrow> file_entry list \<Rightarrow> plan \<Rightarrow> ('w, plan) job_act" where
  "plan_entries env dest_root sdir ddir depth [] p = ret p"
| "plan_entries env dest_root sdir ddir depth (e # es) p =
     andThen (plan_entry env dest_root sdir ddir depth e p) (plan_entries env dest_root sdir ddir depth es)"

text \<open>What an entry adds to the stack is one level deeper, and never deeper than the limit.\<close>

lemma plan_entry_stack:
  assumes "plan_entry env dest_root sdir ddir depth e p s = (p', s')"
  shows "\<exists>cs. pl_stack p' = cs @ pl_stack p \<and> (\<forall>(_, _, k) \<in> set cs. k = depth + 1 \<and> k \<le> MAX_TREE_DEPTH)"
  using assms
  by (auto simp: plan_entry_def plan_resolved_def ret_def andThen_def on_world_def Let_def
      split: if_splits sum.splits prod.splits)

lemma plan_entries_stack:
  "plan_entries env dest_root sdir ddir depth es p s = (p', s') \<Longrightarrow>
   \<exists>cs. pl_stack p' = cs @ pl_stack p \<and> (\<forall>(_, _, k) \<in> set cs. k = depth + 1 \<and> k \<le> MAX_TREE_DEPTH)"
proof (induction es arbitrary: p s)
  case Nil
  then show ?case by (simp add: ret_def)
next
  case (Cons e es)
  obtain q t where q: "plan_entry env dest_root sdir ddir depth e p s = (q, t)"
    "plan_entries env dest_root sdir ddir depth es q t = (p', s')"
    using Cons.prems by (auto simp: andThen_def split: prod.splits)
  obtain as bs where "pl_stack q = as @ pl_stack p" "pl_stack p' = bs @ pl_stack q"
      "\<forall>(_, _, k) \<in> set as. k = depth + 1 \<and> k \<le> MAX_TREE_DEPTH"
      "\<forall>(_, _, k) \<in> set bs. k = depth + 1 \<and> k \<le> MAX_TREE_DEPTH"
    using plan_entry_stack [OF q(1)] Cons.IH [OF q(2)] by blast
  then show ?case by (intro exI [of _ "bs @ as"]) auto
qed

definition stack_rank :: "(string \<times> string \<times> nat) list \<Rightarrow> nat multiset" where
  "stack_rank stack = depth_rank MAX_TREE_DEPTH (map (\<lambda>(_, _, k). k) stack)"

lemma stack_rank_less:
  assumes "\<forall>(_, _, k) \<in> set cs. k = depth + 1 \<and> k \<le> MAX_TREE_DEPTH"
  shows "(stack_rank (cs @ rest), stack_rank ((sd, dd, depth) # rest)) \<in> mult less_than"
proof -
  have "\<forall>k \<in> set (map (\<lambda>(_, _, k). k) cs). k = depth + 1 \<and> k \<le> MAX_TREE_DEPTH" using assms by auto
  from depth_rank_less [OF this] show ?thesis by (simp add: stack_rank_def)
qed

text \<open>
  The loop over the stack of folders. It ends, whatever the listings hold: every folder it pops
  is replaced by finitely many that lie one level deeper, down to \<open>MAX_TREE_DEPTH\<close>.
\<close>

function plan_loop ::
  "'w job_env \<Rightarrow> string \<Rightarrow> plan \<Rightarrow> 'w job \<Rightarrow> (outcome + plan) \<times> 'w job" where
  "plan_loop env dest_root p s =
     (case pl_stack p of
        [] \<Rightarrow> (Inr p, s)
      | (sdir, ddir, depth) # rest \<Rightarrow>
          (case job_cancelled env s of
             (True, s1) \<Rightarrow> (Inl O_Cancelled, s1)
           | (False, s1) \<Rightarrow>
               (case on_world (v_list_dir (je_src env) sdir) s1 of
                  (Inl e, s2) \<Rightarrow>
                    if depth = 0 then (Inl (O_Failed (''Cannot list '' @ quote sdir @ '': '' @ error_text e)), s2)
                    else plan_loop env dest_root
                      (p\<lparr>pl_stack := rest, pl_failures := pl_failures p @ [sdir @ '': '' @ error_text e]\<rparr>) s2
                | (Inr entries, s2) \<Rightarrow>
                    (case plan_entries env dest_root sdir ddir depth entries (p\<lparr>pl_stack := rest\<rparr>) s2 of
                       (p', s3) \<Rightarrow> plan_loop env dest_root p' s3))))"
  by pat_completeness auto

termination
proof (relation "inv_image (mult less_than) (\<lambda>(env, root, p, s). stack_rank (pl_stack p))", goal_cases)
  case 1
  show ?case by (simp add: wf_mult)
next
  case 2
  then show ?case using stack_rank_less [of "[]"] by auto
next
  case (3 env root p s x rest sdir y ddir depth z s1 r s2 entries p' s3)
  obtain cs where "pl_stack p' = cs @ pl_stack (p\<lparr>pl_stack := rest\<rparr>)"
      "\<forall>(_, _, k) \<in> set cs. k = depth + 1 \<and> k \<le> MAX_TREE_DEPTH"
    using plan_entries_stack [OF 3(8) [symmetric]] by blast
  then show ?case using stack_rank_less [of cs depth rest sdir ddir] 3(1,2,3) by simp
qed

declare plan_loop.simps [simp del]

subsection \<open>Folders and collisions\<close>

text \<open>Creating the folders; the first one has to succeed.\<close>

fun create_dirs ::
  "'w job_env \<Rightarrow> bool \<Rightarrow> (string \<times> string) list \<Rightarrow> string list \<Rightarrow> ('w, outcome + string list) job_act" where
  "create_dirs env first [] failures = ret (Inr failures)"
| "create_dirs env first ((_, d) # ds) failures =
     andThen (on_world (v_create_dir (je_dst env) d)) (\<lambda>r. case r of
         Inr _ \<Rightarrow> create_dirs env False ds failures
       | Inl e \<Rightarrow>
           if first then ret (Inl (O_Failed (''Cannot create folder '' @ quote d @ '': '' @ error_text e)))
           else create_dirs env False ds (failures @ [d @ '': '' @ error_text e]))"

text \<open>\<open>seen\<close>: the first path with a folded name.\<close>

type_synonym seen = "(string \<times> string) list"

definition see_dirs :: "bool \<Rightarrow> (string \<times> string) list \<Rightarrow> seen" where
  "see_dirs win dirs =
     fold (\<lambda>(_, d) seen. if map_of seen (case_fold_key d win) = None
                        then (case_fold_key d win, d) # seen else seen) dirs []"

fun collision_loop :: "bool \<Rightarrow> (string \<times> string \<times> nat) list \<Rightarrow> seen \<Rightarrow> bool list" where
  "collision_loop win [] seen = []"
| "collision_loop win ((_, d, _) # fs) seen =
     (let k = case_fold_key d win in
      case map_of seen k of
        Some existing \<Rightarrow> (existing \<noteq> d) # collision_loop win fs seen
      | None \<Rightarrow> False # collision_loop win fs ((k, d) # seen))"

definition colliding :: "bool \<Rightarrow> plan \<Rightarrow> bool list" where
  "colliding win p = collision_loop win (pl_files p) (see_dirs win (pl_dirs p))"

definition dest_case_insensitive :: "'w job_env \<Rightarrow> string \<Rightarrow> ('w, bool option) job_act" where
  "dest_case_insensitive env dir =
     (let name = probe_file_name (je_tag env); marker = join_path dir name in
      andThen (create_empty env marker) (\<lambda>r. case r of
          Inl _ \<Rightarrow> ret None
        | Inr _ \<Rightarrow>
            andThen (on_world (v_exists (je_dst env) (join_path dir (toggle_ascii_case name)))) (\<lambda>there.
            andThen (discard_partial env marker) (\<lambda>_.
              ret (case there of Inr b \<Rightarrow> Some b | Inl _ \<Rightarrow> None)))))"

definition collision_failure :: "string \<times> string \<times> nat \<Rightarrow> string" where
  "collision_failure f =
     (case f of (sp, dp, _) \<Rightarrow> sp @ '': its name collides with another item in ''
        @ quote (fst (split_name dp))
        @ '' on this case-insensitive destination; it was not transferred'')"

text \<open>The files that stay in the plan, and the failures for the others.\<close>

definition drop_colliding :: "bool list \<Rightarrow> plan \<Rightarrow> plan" where
  "drop_colliding flags p =
     (let marked = zip (pl_files p) flags;
          refused = map fst (filter snd marked)
      in p\<lparr>pl_files := map fst (filter (\<lambda>(_, b). \<not> b) marked),
           pl_refused := pl_refused p + length refused,
           pl_failures := pl_failures p @ map collision_failure refused\<rparr>)"

definition refuse_collisions :: "'w job_env \<Rightarrow> string \<Rightarrow> plan \<Rightarrow> ('w, plan) job_act" where
  "refuse_collisions env dest_root p =
     (let flags = colliding (windows_dest env) p in
      if \<not> list_ex (\<lambda>b. b) flags then ret p
      else if windows_dest env then ret (drop_colliding flags p)
      else andThen (dest_case_insensitive env dest_root) (\<lambda>r.
             if r = Some False then ret p else ret (drop_colliding flags p)))"

subsection \<open>A folder tree\<close>

fun copy_files ::
  "'w job_env \<Rightarrow> (string \<times> string \<times> nat) list \<Rightarrow> string list \<Rightarrow> string list
   \<Rightarrow> ('w, outcome + string list \<times> string list) job_act" where
  "copy_files env [] copied failures = ret (Inr (copied, failures))"
| "copy_files env ((sp, dp, sz) # fs) copied failures =
     andThen (copy_file env sp dp sz) (\<lambda>r. case r of
         Inr _ \<Rightarrow> copy_files env fs (copied @ [sp]) failures
       | Inl CE_Cancelled \<Rightarrow> ret (Inl O_Cancelled)
       | Inl (CE_Failed msg) \<Rightarrow> copy_files env fs copied (failures @ [msg]))"

text \<open>Removing the sources: the number of items that are left.\<close>

fun remove_files :: "'w job_env \<Rightarrow> string list \<Rightarrow> nat \<Rightarrow> ('w, nat) job_act" where
  "remove_files env [] left = ret left"
| "remove_files env (sp # ss) left =
     andThen (on_world (v_remove_file (je_src env) sp)) (\<lambda>r.
       remove_files env ss (case r of Inr _ \<Rightarrow> left | Inl _ \<Rightarrow> left + 1))"

fun remove_dirs :: "'w job_env \<Rightarrow> (string \<times> string) list \<Rightarrow> nat \<Rightarrow> ('w, nat) job_act" where
  "remove_dirs env [] left = ret left"
| "remove_dirs env ((sp, _) # ss) left =
     andThen (on_world (v_remove_dir (je_src env) sp False)) (\<lambda>r.
       remove_dirs env ss (case r of Inr _ \<Rightarrow> left | Inl _ \<Rightarrow> left + 1))"

definition plan_notes :: "plan \<Rightarrow> string list" where
  "plan_notes p =
     (if pl_links p > 0
      then [show_nat (pl_links p) @ '' symbolic link(s) to folders or missing targets were skipped''] else [])
     @ (if pl_special p > 0
        then [show_nat (pl_special p) @ '' special file(s) (devices, sockets, pipes) were skipped''] else [])"

definition remove_sources ::
  "'w job_env \<Rightarrow> string \<Rightarrow> bool \<Rightarrow> plan \<Rightarrow> string list \<Rightarrow> ('w, string list) job_act" where
  "remove_sources env source_root root_is_link p copied =
     (if root_is_link
      then let link = trim_end_matches is_sep source_root in
        andThen (on_world (v_remove_file (je_src env) link)) (\<lambda>r. ret (case r of
            Inr _ \<Rightarrow> [quote link @ '' is a link to a folder: the folder'' @ [CHR 0x27]
                     @ ''s contents were copied and only the link was removed'']
          | Inl e \<Rightarrow> [quote link @ '' is a link to a folder: its contents were copied, but the link ''
                     @ ''could not be removed: '' @ error_text e]))
      else andThen (remove_files env copied 0) (\<lambda>n.
           andThen (remove_dirs env (rev (pl_dirs p)) n) (\<lambda>left.
             ret (if left > 0
                  then [show_nat left @ '' source item(s) could not be removed after the copy''] else []))))"

definition notes_text :: "string list \<Rightarrow> string option" where
  "notes_text notes = (if notes = [] then None else Some (join ''; '' notes))"

definition items_failed :: "bool \<Rightarrow> plan \<Rightarrow> string list \<Rightarrow> outcome" where
  "items_failed is_move p failures =
     O_Failed (show_nat (length failures) @ '' of ''
       @ show_nat (length (pl_files p) + length (pl_dirs p) + pl_refused p) @ '' items failed''
       @ (if is_move then ''; nothing was deleted from the source'' else [])
       @ ''. First error: '' @ hd failures)"

definition finish_dir ::
  "'w job_env \<Rightarrow> string \<Rightarrow> bool \<Rightarrow> bool \<Rightarrow> plan \<Rightarrow> string list \<Rightarrow> string list \<Rightarrow> ('w, outcome) job_act" where
  "finish_dir env source_root is_move root_is_link p copied failures =
     (if failures \<noteq> [] then ret (items_failed is_move p failures)
      else if \<not> is_move then ret (O_Completed (notes_text (plan_notes p)))
      else andThen (job_cancelled env) (\<lambda>stop.
        if stop then ret O_Cancelled
        else andThen (remove_sources env source_root root_is_link p copied) (\<lambda>notes.
          ret (O_Completed (notes_text (plan_notes p @ notes))))))"

definition transfer_dir ::
  "'w job_env \<Rightarrow> string \<Rightarrow> string \<Rightarrow> bool \<Rightarrow> bool \<Rightarrow> ('w, outcome) job_act" where
  "transfer_dir env source_root dest_root is_move root_is_link =
     andThen (plan_loop env dest_root (start_plan source_root dest_root)) (\<lambda>planned. case planned of
         Inl out \<Rightarrow> ret out
       | Inr p \<Rightarrow>
           andThen (create_dirs env True (pl_dirs p) (pl_failures p)) (\<lambda>made. case made of
               Inl out \<Rightarrow> ret out
             | Inr failures \<Rightarrow>
                 andThen (refuse_collisions env dest_root (p\<lparr>pl_failures := failures\<rparr>)) (\<lambda>p.
                 andThen (job_set_total env (sum_list (map (\<lambda>(_, _, sz). sz) (pl_files p)))) (\<lambda>_.
                 andThen (copy_files env (pl_files p) [] (pl_failures p)) (\<lambda>r. case r of
                     Inl out \<Rightarrow> ret out
                   | Inr (copied, failures) \<Rightarrow>
                       finish_dir env source_root is_move root_is_link p copied failures)))))"

subsection \<open>The whole job\<close>

definition server_command :: "bool \<Rightarrow> string \<Rightarrow> string \<Rightarrow> string" where
  "server_command is_move sp dp =
     (if is_move then ''mv -f -- '' else ''cp -a -r -- '') @ sh_quote sp @ '' '' @ sh_quote dp"

definition move_failed :: "string \<Rightarrow> string \<Rightarrow> int \<Rightarrow> string \<Rightarrow> outcome" where
  "move_failed sp rename_error exit_code stderr =
     (let shown = take 300 (trim stderr) in
      O_Failed (''Could not move '' @ quote sp @ '': rename failed ('' @ rename_error
        @ '') and mv exited with code ''
        @ (if exit_code < 0 then ''-'' @ show_nat (nat (- exit_code)) else show_nat (nat exit_code))
        @ (if shown = [] then [] else '': '') @ shown @ ''. Nothing was copied or deleted by RustSCP''))"

definition no_report :: "bool \<Rightarrow> string \<Rightarrow> core_error \<Rightarrow> outcome" where
  "no_report is_move sp e =
     O_Failed (''The server-side '' @ (if is_move then ''move'' else ''copy'') @ '' of '' @ quote sp
       @ '' did not report completion ('' @ error_text e @ ''). It may still be running on the server; ''
       @ ''RustSCP did not stream or delete anything. Refresh the folder and check the result before trying again'')"

text \<open>The result of the command on the server is only believed when it can be seen.\<close>

definition verify_command ::
  "'w job_env \<Rightarrow> nat option \<Rightarrow> string \<Rightarrow> string \<Rightarrow> bool \<Rightarrow> ('w, bool) job_act" where
  "verify_command env file_size sp dp is_move =
     andThen (case file_size of
         Some sz \<Rightarrow> andThen (on_world (v_metadata (je_dst env) dp))
             (\<lambda>r. ret (case r of Inr m \<Rightarrow> fe_size m = sz | Inl _ \<Rightarrow> False))
       | None \<Rightarrow> andThen (on_world (v_exists (je_dst env) dp)) (\<lambda>r. ret (r = Inr True))) (\<lambda>dest_ok.
     andThen (if is_move then andThen (on_world (v_exists (je_src env) sp)) (\<lambda>r. ret (r = Inr False))
              else ret True) (\<lambda>source_gone.
       ret (dest_ok \<and> source_gone)))"

definition run_command ::
  "'w job_env \<Rightarrow> nat option \<Rightarrow> string \<Rightarrow> string \<Rightarrow> bool \<Rightarrow> string \<Rightarrow> ('w, outcome option) job_act" where
  "run_command env file_size sp dp is_move rename_error =
     andThen (on_world (v_execute_command (je_src env) (server_command is_move sp dp))) (\<lambda>r. case r of
         Inr (exit_code, _, stderr) \<Rightarrow>
           if exit_code = 0
           then andThen (verify_command env file_size sp dp is_move) (\<lambda>ok.
             if ok then andThen (add_progress env (case file_size of Some n \<Rightarrow> n | None \<Rightarrow> 0))
                          (\<lambda>_. ret (Some (O_Completed None)))
             else ret None)
           else if is_move then ret (Some (move_failed sp rename_error exit_code stderr))
           else ret None
       | Inl (Protocol _) \<Rightarrow> ret None
       | Inl e \<Rightarrow> ret (Some (no_report is_move sp e)))"

definition server_side_transfer ::
  "'w job_env \<Rightarrow> file_entry option \<Rightarrow> string \<Rightarrow> string \<Rightarrow> bool \<Rightarrow> ('w, outcome option) job_act" where
  "server_side_transfer env meta sp dp is_move =
     (let file_size = (case meta of Some m \<Rightarrow> if is_dir m then None else Some (fe_size m) | None \<Rightarrow> None);
          n = (case file_size of Some n \<Rightarrow> n | None \<Rightarrow> 0) in
      andThen (job_set_total env n) (\<lambda>_.
      andThen (if is_move then on_world (v_rename (je_src env) sp dp) else ret (Inl (General []))) (\<lambda>renamed.
      case renamed of
        Inr _ \<Rightarrow> andThen (add_progress env n) (\<lambda>_. ret (Some (O_Completed None)))
      | Inl e \<Rightarrow>
          if \<not> v_supports_shell (je_src env) \<or> je_windows env \<and> v_protocol (je_src env) = Local
          then ret None
          else andThen (on_world (v_metadata (je_dst env) dp)) (\<lambda>m.
            if (case m of Inr d \<Rightarrow> is_dir d | Inl _ \<Rightarrow> False) then ret None
            else run_command env file_size sp dp is_move (if is_move then error_text e else [])))))"

definition run_streaming ::
  "'w job_env \<Rightarrow> file_entry option \<Rightarrow> string \<Rightarrow> string \<Rightarrow> bool \<Rightarrow> ('w, outcome) job_act" where
  "run_streaming env meta sp dp is_move =
     (case meta of
        Some m \<Rightarrow>
          if \<not> is_dir m
          then if fe_type m = Other
               then ret (O_Failed (quote sp @ '' is not a regular file (device, socket or pipe)''))
               else transfer_file env sp dp (fe_size m) is_move
          else andThen (if is_move \<and> v_protocol (je_src env) \<noteq> S3 then is_link env sp else ret False)
                 (transfer_dir env sp dp is_move)
      | None \<Rightarrow> andThen (if is_move \<and> v_protocol (je_src env) \<noteq> S3 then is_link env sp else ret False)
                 (transfer_dir env sp dp is_move))"

definition run_found ::
  "'w job_env \<Rightarrow> file_entry option \<Rightarrow> string \<Rightarrow> string \<Rightarrow> bool \<Rightarrow> ('w, outcome) job_act" where
  "run_found env meta sp dp is_move =
     (let dir = (case meta of Some m \<Rightarrow> is_dir m | None \<Rightarrow> True);
          (same, inside) = is_same_or_inside dp sp in
      if same_filesystem env \<and> same
      then ret (O_Failed ''Source and destination are the same; nothing was transferred'')
      else if same_filesystem env \<and> dir \<and> inside
      then ret (O_Failed ''A folder cannot be copied or moved into itself'')
      else andThen (if je_same_session env then server_side_transfer env meta sp dp is_move else ret None)
        (\<lambda>r. case r of Some out \<Rightarrow> ret out | None \<Rightarrow> run_streaming env meta sp dp is_move))"

definition job_run :: "'w job_env \<Rightarrow> string \<Rightarrow> string \<Rightarrow> bool \<Rightarrow> ('w, outcome) job_act" where
  "job_run env sp dp is_move =
     andThen (on_world (v_metadata (je_src env) sp)) (\<lambda>r. case r of
         Inr m \<Rightarrow> run_found env (Some m) sp dp is_move
       | Inl e \<Rightarrow>
           andThen (on_world (v_list_dir (je_src env) sp)) (\<lambda>l. case l of
               Inr _ \<Rightarrow> run_found env None sp dp is_move
             | Inl _ \<Rightarrow> ret (O_Failed (''Cannot read '' @ quote sp @ '': '' @ error_text e))))"

end
