(* ===== verification/TransferCopy.thy ===== *)
theory TransferCopy
  imports TransferJob
begin

section \<open>What copying a file does\<close>

text \<open>
  The content of the files of both sessions, as a function of the world, and what the job relies
  on of the sessions' methods (the documentation of the trait \<open>VirtualFileSystem\<close>): reading
  changes nothing, a write at offset 0 replaces the file, a later one writes into it, renaming
  and removing change the named files only, and no call reaches the other session's files. A
  failed write may leave anything in the file it was for.
\<close>

subsection \<open>Contents\<close>

record 'w view =
  in_src :: "'w \<Rightarrow> string \<Rightarrow> bytes option"
  in_dst :: "'w \<Rightarrow> string \<Rightarrow> bytes option"
  in_stream :: "'w \<Rightarrow> nat \<Rightarrow> string set"

type_synonym files = "string \<Rightarrow> bytes option"

definition contents :: "'w view \<Rightarrow> 'w \<Rightarrow> files \<times> files" where
  "contents v w = (in_src v w, in_dst v w)"

text \<open>The streams gain no file: \<open>in_stream\<close> holds the files written through an open stream.\<close>

definition same_streams :: "'w view \<Rightarrow> 'w \<Rightarrow> 'w \<Rightarrow> bool" where
  "same_streams v w w' = (\<forall>n. in_stream v w' n \<subseteq> in_stream v w n)"

definition overwrite :: "nat \<Rightarrow> bytes \<Rightarrow> bytes \<Rightarrow> bytes" where
  "overwrite off d c = take off c @ replicate (off - length c) 0 @ d @ drop (off + length d) c"

subsection \<open>What the job relies on\<close>

text \<open>
  Calls answer with anything and fail at any time. What is relied on is what a call does to the
  contents when it is done: reads change none, a write leaves what was written at its path (when it
  fails, anything there), a removal or a rename that fails leaves what was. Two paths are two files:
  links, and spellings that a server takes for the same file, are outside these laws, within one
  session and between the two.
\<close>

definition reads :: "'w view \<Rightarrow> ('w, 'a) act \<Rightarrow> bool" where
  "reads v m = (\<forall>w x w'. m w = (x, w') \<longrightarrow> contents v w' = contents v w \<and> same_streams v w w')"

definition read_laws :: "'w view \<Rightarrow> 'w vfs \<Rightarrow> bool" where
  "read_laws v fs =
     ((\<forall>p. reads v (v_list_dir fs p)) \<and> (\<forall>p. reads v (v_metadata fs p)) \<and> (\<forall>p. reads v (v_read_file fs p)) \<and>
      (\<forall>n p i k. reads v (v_read_range_in fs n p i k)) \<and> (\<forall>p. reads v (v_exists fs p)) \<and>
      (\<forall>n. reads v (v_abandon_stream fs n)) \<and>
      (\<forall>p m. reads v (v_set_permissions fs p m)) \<and> (\<forall>p. reads v (v_create_dir fs p)) \<and>
      (\<forall>p. reads v (v_remove_dir fs p False)))"

definition src_laws :: "'w view \<Rightarrow> 'w vfs \<Rightarrow> bool" where
  "src_laws v fs =
     ((\<forall>n. reads v (v_finish_stream fs n)) \<and>
      (\<forall>n p i k w d w'. v_read_range_in fs n p i k w = (Inr d, w') \<longrightarrow>
         (\<exists>c. in_src v w p = Some c \<and> prefix d (drop i c))) \<and>
      (\<forall>p w d w'. v_read_file fs p w = (Inr d, w') \<longrightarrow> in_src v w p = Some d) \<and>
      (\<forall>p w r w'. v_remove_file fs p w = (r, w') \<longrightarrow> same_streams v w w' \<and> contents v w' =
         (case r of Inr _ \<Rightarrow> ((in_src v w)(p := None), in_dst v w) | Inl _ \<Rightarrow> contents v w)))"

definition write_law ::
  "'w view \<Rightarrow> nat option \<Rightarrow> string \<Rightarrow> nat \<Rightarrow> bytes \<Rightarrow> ('w, unit core_result) act \<Rightarrow> bool" where
  "write_law v st p off d m =
     (\<forall>w r w'. m w = (r, w') \<longrightarrow> in_src v w' = in_src v w \<and>
        (\<forall>n. in_stream v w' n \<subseteq> in_stream v w n \<union> (if st = Some n then {p} else {})) \<and>
        (case r of
           Inr _ \<Rightarrow> if off = 0 then in_dst v w' = (in_dst v w)(p := Some d)
                     else (\<forall>c. in_dst v w p = Some c \<longrightarrow> in_dst v w' = (in_dst v w)(p := Some (overwrite off d c)))
         | Inl _ \<Rightarrow> \<exists>x. in_dst v w' = (in_dst v w)(p := x)))"

text \<open>Closing a stream: when it fails, the files written through it may be anything.\<close>

definition finish_law :: "'w view \<Rightarrow> nat \<Rightarrow> ('w, unit core_result) act \<Rightarrow> bool" where
  "finish_law v n m =
     (\<forall>w r w'. m w = (r, w') \<longrightarrow> in_src v w' = in_src v w \<and> same_streams v w w' \<and>
        (case r of Inr _ \<Rightarrow> in_dst v w' = in_dst v w
         | Inl _ \<Rightarrow> (\<forall>p. p \<notin> in_stream v w n \<longrightarrow> in_dst v w' p = in_dst v w p)))"

definition dst_laws :: "'w view \<Rightarrow> 'w vfs \<Rightarrow> bool" where
  "dst_laws v fs =
     ((\<forall>p off d. write_law v None p off d (v_write_at fs p off d)) \<and>
      (\<forall>n p off d. write_law v (Some n) p off d (v_write_at_in fs n p off d)) \<and>
      (\<forall>p d. write_law v None p 0 d (v_write_file fs p d)) \<and>
      (\<forall>n. finish_law v n (v_finish_stream fs n)) \<and>
      (\<forall>p w r w'. v_remove_file fs p w = (r, w') \<longrightarrow> same_streams v w w' \<and> contents v w' =
         (case r of Inr _ \<Rightarrow> (in_src v w, (in_dst v w)(p := None)) | Inl _ \<Rightarrow> contents v w)) \<and>
      (\<forall>a b w r w'. v_rename fs a b w = (r, w') \<longrightarrow> same_streams v w w' \<and> in_src v w' = in_src v w \<and>
         (a \<noteq> b \<longrightarrow> in_dst v w' =
            (case r of Inr _ \<Rightarrow> (in_dst v w)(b := in_dst v w a, a := None) | Inl _ \<Rightarrow> in_dst v w))) \<and>
      (\<forall>p w m w'. v_metadata fs p w = (Inr m, w') \<longrightarrow>
         (if is_dir m then in_dst v w p = None else \<exists>c. in_dst v w p = Some c \<and> fe_size m = length c)))"

definition session_laws :: "'w view \<Rightarrow> 'w job_env \<Rightarrow> bool" where
  "session_laws v env =
     (read_laws v (je_src env) \<and> read_laws v (je_dst env) \<and> src_laws v (je_src env) \<and> dst_laws v (je_dst env) \<and>
      0 < je_min_chunk env)"

subsection \<open>Triples about the contents\<close>

text \<open>
  The state of the job where the contents of both sessions satisfy \<open>P\<close> and the files written
  through the stream \<open>n\<close> are in \<open>B n\<close>; streams not yet numbered have written nothing.
\<close>

definition with_files :: "'w view \<Rightarrow> (nat \<Rightarrow> string set) \<Rightarrow> (files \<Rightarrow> files \<Rightarrow> bool) \<Rightarrow> 'w job \<Rightarrow> bool" where
  "with_files v B P s =
     (P (in_src v (jb_world s)) (in_dst v (jb_world s)) \<and>
      (\<forall>n. in_stream v (jb_world s) n \<subseteq> B n \<and>
           (n < jb_streams s \<or> in_stream v (jb_world s) n = {} \<and> B n = UNIV)))"

definition any_files :: "nat \<Rightarrow> string set" where "any_files n = UNIV"

lemma with_filesD: "with_files v B P s \<Longrightarrow> P (in_src v (jb_world s)) (in_dst v (jb_world s))"
  by (simp add: with_files_def)

lemma with_files_cong:
  "jb_world s' = jb_world s \<Longrightarrow> jb_streams s' = jb_streams s \<Longrightarrow> with_files v B P s' = with_files v B P s"
  by (simp add: with_files_def)

text \<open>After a step of the world that adds no file to a stream.\<close>

lemma with_files_step:
  assumes "with_files v B P s" and "same_streams v (jb_world s) w'" and "Q (in_src v w') (in_dst v w')"
  shows "with_files v B Q (s\<lparr>jb_world := w'\<rparr>)"
proof -
  have "in_stream v w' n \<subseteq> B n \<and> (n < jb_streams s \<or> in_stream v w' n = {} \<and> B n = UNIV)" for n
  proof -
    have "in_stream v (jb_world s) n \<subseteq> B n \<and> (n < jb_streams s \<or> in_stream v (jb_world s) n = {} \<and> B n = UNIV)"
      using assms(1) by (simp add: with_files_def)
    moreover have "in_stream v w' n \<subseteq> in_stream v (jb_world s) n" using assms(2) by (simp add: same_streams_def)
    ultimately show ?thesis by blast
  qed
  then show ?thesis using assms(3) by (simp add: with_files_def)
qed

lemma files_pre:
  "triple (with_files v B P) m Q \<Longrightarrow> (\<And>S D. P' S D \<Longrightarrow> P S D) \<Longrightarrow> triple (with_files v B P') m Q"
  by (erule triple_pre) (simp add: with_files_def)

lemma files_post:
  "triple (with_files v B P) m (\<lambda>r. with_files v B (Q r)) \<Longrightarrow> (\<And>r S D. Q r S D \<Longrightarrow> Q' r S D) \<Longrightarrow>
   triple (with_files v B P) m (\<lambda>r. with_files v B (Q' r))"
  by (erule triple_post) (simp add: with_files_def)

lemma files_assume:
  "(b \<Longrightarrow> triple (with_files v B P) m Q) \<Longrightarrow> triple (with_files v B (\<lambda>S D. P S D \<and> b)) m Q"
  by (cases b) (auto simp: with_files_def triple_def)

lemma files_forget: "triple (with_files v B P) m (\<lambda>r. with_files v B' (Q r)) \<Longrightarrow>
   triple (with_files v B P) m (\<lambda>r. with_files v any_files (Q r))"
  by (erule triple_post) (auto simp: with_files_def any_files_def)

lemma on_world_triple:
  assumes "\<And>w r w'. P (in_src v w) (in_dst v w) \<Longrightarrow> m w = (r, w') \<Longrightarrow>
      Q r (in_src v w') (in_dst v w') \<and> same_streams v w w'"
  shows "triple (with_files v B P) (on_world m) (\<lambda>r. with_files v B (Q r))"
proof (rule tripleI)
  fix s r s'
  assume pre: "with_files v B P s" and run: "on_world m s = (r, s')"
  obtain w' where w: "m (jb_world s) = (r, w')" and s': "s' = s\<lparr>jb_world := w'\<rparr>"
    using run by (auto simp: on_world_def split: prod.splits)
  show "with_files v B (Q r) s'"
    using assms [OF with_filesD [OF pre] w] with_files_step [OF pre] unfolding s' by blast
qed

lemma reads_keeps [hoare_rules]: "reads v m \<Longrightarrow> keeps (with_files v B P) (on_world m)"
  unfolding keeps_def by (rule on_world_triple) (auto simp: reads_def contents_def)

lemma keeps_modify: "(\<And>s. jb_world (f s) = jb_world s \<and> jb_streams (f s) = jb_streams s) \<Longrightarrow> keeps (with_files v B P) (modify f)"
  by (rule keepsI) (simp add: modify_def; metis with_files_cong)

text \<open>What only concerns the task list, the clock and the counters.\<close>

lemma keeps_others [hoare_rules]: "keeps (with_files v B P) others_act"
  unfolding others_act_def by (rule keeps_modify) (simp split: list.split)

lemma keeps_now [hoare_rules]: "keeps (with_files v B P) now"
proof (rule keepsI)
  fix s x s'
  assume "with_files v B P s" and run: "now s = (x, s')"
  then show "with_files v B P s'"
    using with_files_cong [of s' s v B P] by (auto simp: now_def split: list.splits)
qed

lemma keeps_cancelled [hoare_rules]: "keeps (with_files v B P) (job_cancelled env)"
  unfolding job_cancelled_def by (intro hoare_rules)

lemma keeps_set_total [hoare_rules]: "keeps (with_files v B P) (job_set_total env n)"
  unfolding job_set_total_def by (intro hoare_rules keeps_modify) simp

lemma keeps_progress [hoare_rules]: "keeps (with_files v B P) (add_progress env n)"
  unfolding add_progress_def by (intro hoare_rules keeps_modify) simp_all

lemma keeps_unprogress [hoare_rules]: "keeps (with_files v B P) (unprogress n)"
  unfolding unprogress_def by (intro keeps_modify) simp

text \<open>A step that keeps the contents, in front of the rest.\<close>

lemma after_keep: "keeps I m \<Longrightarrow> (\<And>x. triple I (f x) Q) \<Longrightarrow> triple I (andThen m f) Q"
  unfolding keeps_def by (rule triple_andThen)

lemma triple_retI: "(\<And>s. P s \<Longrightarrow> Q x s) \<Longrightarrow> triple P (ret x) Q"
  by (rule triple_pre [OF triple_ret])

lemma files_retI: "(\<And>S D. P S D \<Longrightarrow> Q x S D) \<Longrightarrow> triple (with_files v B P) (ret x) (\<lambda>r. with_files v B (Q r))"
  by (rule triple_retI) (simp add: with_files_def)

text \<open>A write: a stream may write to one of its files only.\<close>

lemma write_triple:
  assumes law: "write_law v st p off d m" and bound: "\<And>n. st = Some n \<Longrightarrow> p \<in> B n \<and> B n \<noteq> UNIV"
    and ok: "\<And>S D. P S D \<Longrightarrow> if off = 0 then Q (Inr ()) S (D(p := Some d))
          else \<exists>c. D p = Some c \<and> Q (Inr ()) S (D(p := Some (overwrite off d c)))"
    and failed: "\<And>e x S D. P S D \<Longrightarrow> \<exists>w w'. m w = (Inl e, w') \<Longrightarrow> Q (Inl e) S (D(p := x))"
  shows "triple (with_files v B P) (on_world m) (\<lambda>r. with_files v B (Q r))"
proof (rule tripleI)
  fix s r s'
  assume pre: "with_files v B P s" and run: "on_world m s = (r, s')"
  obtain w' where w: "m (jb_world s) = (r, w')" and s': "s' = s\<lparr>jb_world := w'\<rparr>"
    using run by (auto simp: on_world_def split: prod.splits)
  have src: "in_src v w' = in_src v (jb_world s)"
    and dst: "case r of Inr _ \<Rightarrow> if off = 0 then in_dst v w' = (in_dst v (jb_world s))(p := Some d)
                     else (\<forall>c. in_dst v (jb_world s) p = Some c \<longrightarrow>
                               in_dst v w' = (in_dst v (jb_world s))(p := Some (overwrite off d c)))
         | Inl _ \<Rightarrow> \<exists>x. in_dst v w' = (in_dst v (jb_world s))(p := x)"
    and streams: "in_stream v w' n \<subseteq> in_stream v (jb_world s) n \<union> (if st = Some n then {p} else {})" for n
    using law w unfolding write_law_def by blast+
  have "Q r (in_src v w') (in_dst v w')"
  proof (cases r)
    case (Inl e)
    then obtain x where "in_dst v w' = (in_dst v (jb_world s))(p := x)" using dst by auto
    then show ?thesis using failed [OF with_filesD [OF pre], of e x] w Inl unfolding src by metis
  qed (use dst ok [OF with_filesD [OF pre]] src in \<open>auto split: if_splits\<close>)
  moreover have "in_stream v w' n \<subseteq> B n \<and> (n < jb_streams s \<or> in_stream v w' n = {} \<and> B n = UNIV)" for n
  proof -
    have "in_stream v (jb_world s) n \<subseteq> B n \<and> (n < jb_streams s \<or> in_stream v (jb_world s) n = {} \<and> B n = UNIV)"
      using pre by (simp add: with_files_def)
    then show ?thesis using streams [of n] bound [of n] by (auto split: if_splits)
  qed
  ultimately show "with_files v B (Q r) s'" unfolding s' with_files_def by simp
qed

text \<open>Closing the stream of one file.\<close>

lemma finish_triple:
  assumes law: "finish_law v n m" and bound: "B n = {p}"
    and "\<And>S D. P S D \<Longrightarrow> Q (Inr ()) S D" and "\<And>e x S D. P S D \<Longrightarrow> Q (Inl e) S (D(p := x))"
  shows "triple (with_files v B P) (on_world m) (\<lambda>r. with_files v B (Q r))"
proof (rule tripleI)
  fix s r s'
  assume pre: "with_files v B P s" and run: "on_world m s = (r, s')"
  obtain w' where w: "m (jb_world s) = (r, w')" and s': "s' = s\<lparr>jb_world := w'\<rparr>"
    using run by (auto simp: on_world_def split: prod.splits)
  have src: "in_src v w' = in_src v (jb_world s)" and same: "same_streams v (jb_world s) w'"
    and dst: "case r of Inr _ \<Rightarrow> in_dst v w' = in_dst v (jb_world s)
         | Inl _ \<Rightarrow> (\<forall>q. q \<notin> in_stream v (jb_world s) n \<longrightarrow> in_dst v w' q = in_dst v (jb_world s) q)"
    using law w unfolding finish_law_def by blast+
  have only: "in_stream v (jb_world s) n \<subseteq> {p}" using pre bound unfolding with_files_def by blast
  have "Q r (in_src v w') (in_dst v w')"
  proof (cases r)
    case (Inl e)
    have "in_dst v w' = (in_dst v (jb_world s))(p := in_dst v w' p)"
      using dst only Inl by (intro ext) auto
    then show ?thesis using assms(4) [OF with_filesD [OF pre]] src Inl by metis
  qed (use dst src assms(3) [OF with_filesD [OF pre]] in simp)
  then show "with_files v B (Q r) s'"
    unfolding s' by (rule with_files_step [OF pre same])
qed

lemma remove_triple:
  assumes "dst_laws v fs"
    and "\<And>S D. P S D \<Longrightarrow> Q (Inr ()) S (D(p := None))" and "\<And>e S D. P S D \<Longrightarrow> Q (Inl e) S D"
  shows "triple (with_files v B P) (on_world (v_remove_file fs p)) (\<lambda>r. with_files v B (Q r))"
proof (rule on_world_triple)
  fix w r w'
  assume P: "P (in_src v w) (in_dst v w)" and w: "v_remove_file fs p w = (r, w')"
  have "same_streams v w w' \<and> contents v w' =
      (case r of Inr _ \<Rightarrow> (in_src v w, (in_dst v w)(p := None)) | Inl _ \<Rightarrow> contents v w)"
    using assms(1) w unfolding dst_laws_def by blast
  then show "Q r (in_src v w') (in_dst v w') \<and> same_streams v w w'"
    using assms(2,3) [OF P] by (cases r) (auto simp: contents_def)
qed

lemma rename_triple:
  assumes "dst_laws v fs" and "a \<noteq> b"
    and "\<And>S D. P S D \<Longrightarrow> Q (Inr ()) S (D(b := D a, a := None))" and "\<And>e S D. P S D \<Longrightarrow> \<exists>w w'. v_rename fs a b w = (Inl e, w') \<Longrightarrow> Q (Inl e) S D"
  shows "triple (with_files v B P) (on_world (v_rename fs a b)) (\<lambda>r. with_files v B (Q r))"
proof (rule on_world_triple)
  fix w r w'
  assume P: "P (in_src v w) (in_dst v w)" and w: "v_rename fs a b w = (r, w')"
  have "same_streams v w w' \<and> in_src v w' = in_src v w \<and>
      in_dst v w' = (case r of Inr _ \<Rightarrow> (in_dst v w)(b := in_dst v w a, a := None) | Inl _ \<Rightarrow> in_dst v w)"
    using assms(1,2) w unfolding dst_laws_def by blast
  then show "Q r (in_src v w') (in_dst v w') \<and> same_streams v w w'"
    using assms(3,4) [OF P] w by (cases r) auto
qed

lemma new_stream_keeps [hoare_rules]: "keeps (with_files v any_files P) new_stream"
  by (rule keepsI) (auto simp: new_stream_def with_files_def any_files_def less_Suc_eq)

lemma new_stream_triple:
  "triple (with_files v any_files P) new_stream (\<lambda>n. with_files v (any_files(n := {p})) P)"
  by (rule tripleI) (auto simp: new_stream_def with_files_def any_files_def less_Suc_eq)

lemma read_parts:
  assumes "read_laws v fs"
  shows "reads v (v_list_dir fs p)" and "reads v (v_metadata fs p)" and "reads v (v_read_file fs p)"
    and "reads v (v_read_range_in fs n p i k)" and "reads v (v_exists fs p)"
    and "reads v (v_abandon_stream fs n)"
    and "reads v (v_set_permissions fs p mode)" and "reads v (v_create_dir fs p)"
    and "reads v (v_remove_dir fs p False)"
  using assms by (simp_all add: read_laws_def)

lemma session_parts:
  assumes "session_laws v env"
  shows "read_laws v (je_src env)" and "read_laws v (je_dst env)" and "src_laws v (je_src env)"
    and "dst_laws v (je_dst env)" and "0 < je_min_chunk env"
  using assms by (simp_all add: session_laws_def)

lemma write_parts:
  assumes "dst_laws v fs"
  shows "write_law v None p off d (v_write_at fs p off d)"
    and "write_law v (Some n) p off d (v_write_at_in fs n p off d)"
    and "write_law v None p 0 d (v_write_file fs p d)"
    and "finish_law v n (v_finish_stream fs n)"
  using assms by (simp_all add: dst_laws_def)

text \<open>What a read returns.\<close>

definition reads_of :: "bytes \<Rightarrow> nat \<Rightarrow> string + bytes \<Rightarrow> bool" where
  "reads_of c offset r = (case r of Inr d \<Rightarrow> prefix d (drop offset c) | Inl _ \<Rightarrow> True)"

lemma range_triple:
  assumes "session_laws v env" and "\<And>S D. P S D \<Longrightarrow> S sp = Some c"
  shows "triple (with_files v B P) (on_world (v_read_range_in (je_src env) n sp offset want))
     (\<lambda>r. with_files v B (\<lambda>S D. P S D \<and> (case r of Inr d \<Rightarrow> prefix d (drop offset c) | Inl _ \<Rightarrow> True)))"
proof (rule on_world_triple)
  fix w r w'
  assume P: "P (in_src v w) (in_dst v w)" and w: "v_read_range_in (je_src env) n sp offset want w = (r, w')"
  have same: "contents v w' = contents v w \<and> same_streams v w w'"
    using read_parts(4) [OF session_parts(1) [OF assms(1)]] w unfolding reads_def by blast
  have "case r of Inr d \<Rightarrow> prefix d (drop offset c) | Inl _ \<Rightarrow> True"
  proof (cases r)
    case (Inr d)
    then obtain c' where "in_src v w sp = Some c'" "prefix d (drop offset c')"
      using session_parts(3) [OF assms(1)] w unfolding src_laws_def by blast
    then show ?thesis using assms(2) [OF P] Inr by simp
  qed simp
  then show "(P (in_src v w') (in_dst v w') \<and> (case r of Inr d \<Rightarrow> prefix d (drop offset c) | Inl _ \<Rightarrow> True))
      \<and> same_streams v w w'"
    using same P by (simp add: contents_def)
qed

lemma whole_triple:
  assumes "session_laws v env" and "\<And>S D. P S D \<Longrightarrow> S sp = Some c"
  shows "triple (with_files v B P) (on_world (v_read_file (je_src env) sp))
     (\<lambda>r. with_files v B (\<lambda>S D. P S D \<and> (case r of Inr d \<Rightarrow> d = c | Inl _ \<Rightarrow> True)))"
proof (rule on_world_triple)
  fix w r w'
  assume P: "P (in_src v w) (in_dst v w)" and w: "v_read_file (je_src env) sp w = (r, w')"
  have same: "contents v w' = contents v w \<and> same_streams v w w'"
    using read_parts(3) [OF session_parts(1) [OF assms(1)]] w unfolding reads_def by blast
  have "case r of Inr d \<Rightarrow> d = c | Inl _ \<Rightarrow> True"
  proof (cases r)
    case (Inr d)
    then have "in_src v w sp = Some d"
      using session_parts(3) [OF assms(1)] w unfolding src_laws_def by blast
    then show ?thesis using assms(2) [OF P] Inr by simp
  qed simp
  then show "(P (in_src v w') (in_dst v w') \<and> (case r of Inr d \<Rightarrow> d = c | Inl _ \<Rightarrow> True)) \<and> same_streams v w w'"
    using same P by (simp add: contents_def)
qed

lemma read_step_triple:
  assumes laws: "session_laws v env" and src: "\<And>S D. P S D \<Longrightarrow> S sp = Some c"
  shows "triple (with_files v B P) (read_step env n sp expected offset want)
     (\<lambda>r. with_files v B (\<lambda>S D. P S D \<and> reads_of c offset r))"
  unfolding read_step_def
proof (rule triple_andThen [OF range_triple [where P = P, OF laws src]])
  fix r :: "bytes core_result"
  show "triple (with_files v B (\<lambda>S D. P S D \<and> (case r of Inr d \<Rightarrow> prefix d (drop offset c) | Inl _ \<Rightarrow> True)))
     (case r of Inr d \<Rightarrow> ret (Inr d)
      | Inl e \<Rightarrow>
         if offset = 0
         then andThen (on_world (v_read_file (je_src env) sp)) (\<lambda>whole. ret (case whole of
                  Inr d \<Rightarrow> if length d = expected then Inr d else Inl (source_changed expected (length d))
                | Inl _ \<Rightarrow> Inl (read_failed sp e)))
         else ret (Inl (''Read failed at byte '' @ show_nat offset @ '' of '' @ quote sp @ '': '' @ error_text e)))
     (\<lambda>r. with_files v B (\<lambda>S D. P S D \<and> reads_of c offset r))"
  proof (cases r)
    case (Inr d)
    then show ?thesis by (auto intro!: files_retI simp: reads_of_def)
  next
    case (Inl e)
    show ?thesis
    proof (cases "offset = 0")
      case True
      have "triple (with_files v B P)
         (andThen (on_world (v_read_file (je_src env) sp)) (\<lambda>whole. ret (case whole of
                  Inr d \<Rightarrow> if length d = expected then Inr d else Inl (source_changed expected (length d))
                | Inl _ \<Rightarrow> Inl (read_failed sp e))))
         (\<lambda>r. with_files v B (\<lambda>S D. P S D \<and> reads_of c offset r))"
        by (rule triple_andThen [OF whole_triple [OF laws src]])
          (auto intro!: files_retI simp: reads_of_def True split: sum.splits)
      then show ?thesis using Inl True by (simp add: with_files_def)
    qed (use Inl in \<open>auto intro!: files_retI simp: reads_of_def\<close>)
  qed
qed

text \<open>
  The loop of \<open>stream_chunks\<close>: as long as nothing has been written the destination is what
  it was, afterwards the target holds the part of the source that has been read. No other file of
  either session changes.
\<close>

definition streamed :: "files \<Rightarrow> files \<Rightarrow> string \<Rightarrow> bytes \<Rightarrow> nat \<Rightarrow> bool \<Rightarrow> files \<Rightarrow> files \<Rightarrow> bool" where
  "streamed S0 D0 tgt c offset wrote S D =
     (S = S0 \<and> offset \<le> length c \<and> (if wrote then D = D0(tgt := Some (take offset c)) else offset = 0 \<and> D = D0))"

definition stream_result :: "files \<Rightarrow> files \<Rightarrow> stream_args \<Rightarrow> bytes \<Rightarrow> copy_error \<times> bool + unit \<Rightarrow> files \<Rightarrow> files \<Rightarrow> bool" where
  "stream_result S0 D0 a c r S D =
     (S = S0 \<and> (case r of
        Inr _ \<Rightarrow> sa_expected a \<le> length c \<and> D = D0(sa_target a := Some (take (sa_expected a) c))
      | Inl (_, discard) \<Rightarrow> (sa_owned a \<longrightarrow> discard) \<and> (\<exists>x. D = D0(sa_target a := x))))"

lemma streamed_failed:
  "streamed S0 D0 (sa_target a) c offset wrote S D \<Longrightarrow> (sa_owned a \<Longrightarrow> discard) \<Longrightarrow>
   stream_result S0 D0 a c (Inl (e, discard)) S D"
  by (auto simp: streamed_def stream_result_def split: if_splits intro: fun_upd_triv [symmetric])

lemma prefix_of_rest:
  assumes "prefix d (drop offset c)" and "offset \<le> length c"
  shows "offset + length d \<le> length c" and "take (offset + length d) c = take offset c @ d"
proof -
  obtain z where z: "drop offset c = d @ z" using assms(1) by (auto simp: prefix_def)
  then have "length (drop offset c) = length d + length z" by simp
  then show "offset + length d \<le> length c" using assms(2) by simp
  show "take (offset + length d) c = take offset c @ d" using z by (simp add: take_add)
qed

lemma streamed_write:
  assumes "streamed S0 D0 tgt c offset wrote S D" and "prefix d (drop offset c)"
  shows "if offset = 0 then streamed S0 D0 tgt c (offset + length d) True S (D(tgt := Some d))
     else \<exists>b. D tgt = Some b \<and> streamed S0 D0 tgt c (offset + length d) True S (D(tgt := Some (overwrite offset d b)))"
proof -
  have o: "offset \<le> length c" using assms(1) by (simp add: streamed_def)
  note l = prefix_of_rest(1) [OF assms(2) o] and t = prefix_of_rest(2) [OF assms(2) o]
  have over: "overwrite offset d (take offset c) = take offset c @ d" using o by (simp add: overwrite_def)
  show ?thesis
  proof (cases "offset = 0")
    case True
    then show ?thesis using assms(1) l t by (auto simp: streamed_def split: if_splits)
  next
    case False
    then show ?thesis using assms(1) l t over by (auto simp: streamed_def split: if_splits)
  qed
qed

lemma triple_if: "(b \<Longrightarrow> triple P m Q) \<Longrightarrow> (\<not> b \<Longrightarrow> triple P n Q) \<Longrightarrow> triple P (if b then m else n) Q"
  by simp

lemma triple_case_sum:
  "(\<And>e. r = Inl e \<Longrightarrow> triple P (f e) Q) \<Longrightarrow> (\<And>x. r = Inr x \<Longrightarrow> triple P (g x) Q) \<Longrightarrow>
   triple P (case r of Inl e \<Rightarrow> f e | Inr x \<Rightarrow> g x) Q"
  by (cases r) auto

definition after_write :: "files \<Rightarrow> files \<Rightarrow> string \<Rightarrow> bytes \<Rightarrow> nat \<Rightarrow> unit core_result \<Rightarrow> files \<Rightarrow> files \<Rightarrow> bool" where
  "after_write S0 D0 tgt c offset r S D =
     (case r of Inr _ \<Rightarrow> streamed S0 D0 tgt c offset True S D | Inl _ \<Rightarrow> S = S0 \<and> (\<exists>x. D = D0(tgt := x)))"

lemma chunk_write_triple:
  assumes laws: "session_laws v env" and B: "B wr = {tgt}" and pre: "prefix d (drop offset c)"
  shows "triple (with_files v B (streamed S0 D0 tgt c offset wrote))
     (on_world (v_write_at_in (je_dst env) wr tgt offset d))
     (\<lambda>r. with_files v B (after_write S0 D0 tgt c (offset + length d) r))"
proof (rule write_triple [OF write_parts(2) [OF session_parts(4) [OF laws]]])
  show "tgt \<in> B n \<and> B n \<noteq> UNIV" if "Some wr = Some n" for n
    using that B by (auto intro: ex_new_if_finite [OF infinite_UNIV_listI])
  show "if offset = 0 then after_write S0 D0 tgt c (offset + length d) (Inr ()) S (D(tgt := Some d))
     else \<exists>b. D tgt = Some b \<and> after_write S0 D0 tgt c (offset + length d) (Inr ()) S (D(tgt := Some (overwrite offset d b)))"
    if "streamed S0 D0 tgt c offset wrote S D" for S D
    using streamed_write [OF that pre] unfolding after_write_def sum.case .
  show "after_write S0 D0 tgt c (offset + length d) (Inl e) S (D(tgt := x))"
    if "streamed S0 D0 tgt c offset wrote S D" for e x S D
    using that by (auto simp: streamed_def after_write_def split: if_splits)
qed

text \<open>The part of the loop's body after a read, in front of the rest of the loop.\<close>

lemma chunk_written_triple:
  assumes laws: "session_laws v env" and B: "B wr = {sa_target a}" and d: "prefix d (drop offset c)"
    and rest: "\<And>t1. triple (with_files v B (streamed S0 D0 (sa_target a) c (offset + length d) True)) (rest t1)
                (\<lambda>r. with_files v B (stream_result S0 D0 a c r))"
  shows "triple (with_files v B (streamed S0 D0 (sa_target a) c offset wrote))
     (andThen (on_world (v_write_at_in (je_dst env) wr (sa_target a) offset d)) (\<lambda>w. case w of
          Inl e \<Rightarrow> ret (Inl (CE_Failed (msg e), sa_owned a \<or> wrote))
        | Inr _ \<Rightarrow> andThen (add_progress env (length d)) (\<lambda>_. andThen now rest)))
     (\<lambda>r. with_files v B (stream_result S0 D0 a c r))"
proof (rule triple_andThen [OF chunk_write_triple [where B = B and wr = wr, OF laws B d]])
  fix w :: "unit core_result"
  show "triple (with_files v B (after_write S0 D0 (sa_target a) c (offset + length d) w))
     (case w of
          Inl e \<Rightarrow> ret (Inl (CE_Failed (msg e), sa_owned a \<or> wrote))
        | Inr _ \<Rightarrow> andThen (add_progress env (length d)) (\<lambda>_. andThen now rest))
     (\<lambda>r. with_files v B (stream_result S0 D0 a c r))"
  proof (cases w)
    case (Inl e)
    then show ?thesis by (auto intro!: files_retI simp: after_write_def stream_result_def)
  next
    case (Inr u)
    have "triple (with_files v B (streamed S0 D0 (sa_target a) c (offset + length d) True))
      (andThen (add_progress env (length d)) (\<lambda>_. andThen now rest))
      (\<lambda>r. with_files v B (stream_result S0 D0 a c r))"
      by (intro after_keep keeps_progress keeps_now rest)
    then show ?thesis using Inr by (simp add: after_write_def [abs_def])
  qed
qed

lemma chunk_loop_triple:
  assumes laws: "session_laws v env" and B: "B wr = {sa_target a}" and src: "S0 (sa_source a) = Some c"
    and "0 < sa_expected a \<or> wrote" and "offset \<le> sa_expected a"
  shows "triple (with_files v B (streamed S0 D0 (sa_target a) c offset wrote)) (chunk_loop env a rd wr chunk offset wrote)
     (\<lambda>r. with_files v B (stream_result S0 D0 a c r))"
  using assms(4,5)
proof (induction "sa_expected a - offset" arbitrary: offset wrote chunk rule: less_induct)
  case less
  let ?P = "streamed S0 D0 (sa_target a) c offset wrote"
  let ?R = "\<lambda>r. with_files v B (stream_result S0 D0 a c r)"
  show ?case
  proof (cases "offset \<ge> sa_expected a")
    case True
    have "triple (with_files v B ?P) (ret (Inr ())) ?R"
      by (rule files_retI) (use True less.prems in \<open>auto simp: streamed_def stream_result_def split: if_splits\<close>)
    then show ?thesis using True by (simp add: chunk_loop.simps)
  next
    case False
    have src': "S (sa_source a) = Some c" if "?P S D" for S D
      using that src by (simp add: streamed_def)
    have failed: "triple (with_files v B (\<lambda>S D. ?P S D \<and> b)) (ret (Inl (e, discard))) ?R"
      if "sa_owned a \<Longrightarrow> discard" for e discard b
      by (rule files_retI) (use streamed_failed [OF _ that] in blast)
    have written: "triple (with_files v B (\<lambda>S D. ?P S D \<and> reads_of c offset (Inr d)))
        (andThen (on_world (v_write_at_in (je_dst env) wr (sa_target a) offset (take (sa_expected a - offset) d)))
          (\<lambda>w. case w of
             Inl e \<Rightarrow> ret (Inl (CE_Failed (''Write failed at byte '' @ show_nat offset @ '' of ''
                       @ quote (sa_shown a) @ '': '' @ error_text e), sa_owned a \<or> wrote))
           | Inr _ \<Rightarrow>
               andThen (add_progress env (length (take (sa_expected a - offset) d))) (\<lambda>_.
               andThen now (\<lambda>t1.
                 chunk_loop env a rd wr (next_chunk env chunk (t1 - t0))
                   (offset + length (take (sa_expected a - offset) d)) True)))) ?R" if "d \<noteq> []" for d t0
    proof (rule files_assume, rule chunk_written_triple [where B = B, OF laws B])
      let ?d = "take (sa_expected a - offset) d"
      show "prefix ?d (drop offset c)" if "reads_of c offset (Inr d)"
        using that prefix_order.trans [OF take_is_prefix] by (simp add: reads_of_def)
      have more: "sa_expected a - (offset + length ?d) < sa_expected a - offset"
        "offset + length ?d \<le> sa_expected a"
        using that False by (auto simp: neq_Nil_conv)
      show "triple (with_files v B (streamed S0 D0 (sa_target a) c (offset + length ?d) True))
          (chunk_loop env a rd wr (next_chunk env chunk (t1 - t0)) (offset + length ?d) True) ?R" for t1
        by (rule less.hyps [OF more(1) _ more(2)]) simp
    qed
    have "triple (with_files v B ?P)
      (andThen now (\<lambda>t0.
        andThen (read_step env rd (sa_source a) (sa_expected a) offset (min chunk (sa_expected a - offset))) (\<lambda>r.
        case r of
          Inl m \<Rightarrow> ret (Inl (CE_Failed m, if offset = 0 then sa_owned a else sa_owned a \<or> wrote))
        | Inr d \<Rightarrow>
            if d = []
            then ret (Inl (CE_Failed (ended_early (sa_source a) offset (sa_expected a)), sa_owned a \<or> wrote))
            else let data = take (sa_expected a - offset) d in
              andThen (on_world (v_write_at_in (je_dst env) wr (sa_target a) offset data)) (\<lambda>w.
              case w of
                Inl e \<Rightarrow> ret (Inl (CE_Failed (''Write failed at byte '' @ show_nat offset @ '' of ''
                          @ quote (sa_shown a) @ '': '' @ error_text e), sa_owned a \<or> wrote))
              | Inr _ \<Rightarrow>
                  andThen (add_progress env (length data)) (\<lambda>_.
                  andThen now (\<lambda>t1.
                    chunk_loop env a rd wr (next_chunk env chunk (t1 - t0)) (offset + length data) True)))))) ?R"
      unfolding Let_def
      by (intro after_keep [OF keeps_now] triple_andThen [OF read_step_triple [OF laws src']]
           triple_case_sum triple_if) (simp_all add: failed written)
    moreover have "triple (with_files v B ?P) (ret (Inl (CE_Cancelled, sa_owned a \<or> wrote))) ?R"
      using failed [of "sa_owned a \<or> wrote" True] by simp
    ultimately show ?thesis
      unfolding chunk_loop.simps [of env a rd wr chunk offset wrote]
      using False by (simp add: after_keep [OF keeps_cancelled])
  qed
qed

lemma stream_chunks_triple:
  assumes laws: "session_laws v env" and B: "B wr = {sa_target a}" and src: "S0 (sa_source a) = Some c"
  shows "triple (with_files v B (\<lambda>S D. S = S0 \<and> D = D0)) (stream_chunks env a rd wr)
     (\<lambda>r. with_files v B (stream_result S0 D0 a c r))"
proof (cases "sa_expected a = 0")
  case True
  have created: "triple (with_files v B (\<lambda>S D. S = S0 \<and> D = D0)) (on_world (v_write_at (je_dst env) (sa_target a) 0 []))
      (\<lambda>r. with_files v B (after_write S0 D0 (sa_target a) c 0 r))"
    by (rule write_triple [OF write_parts(1) [OF session_parts(4) [OF laws]]])
      (auto simp: after_write_def streamed_def)
  have loop: "triple (with_files v B (after_write S0 D0 (sa_target a) c 0 (Inr u)))
      (chunk_loop env a rd wr (je_min_chunk env) 0 True) (\<lambda>r. with_files v B (stream_result S0 D0 a c r))" for u
    unfolding after_write_def [abs_def] sum.case by (rule chunk_loop_triple [where B = B and wr = wr and a = a and ?S0.0 = S0 and c = c, OF laws B src]) simp_all
  show ?thesis
    unfolding stream_chunks_def using True
    by (auto intro!: triple_andThen [OF created] triple_case_sum loop files_retI
        simp: after_write_def stream_result_def)
next
  case False
  have "triple (with_files v B (streamed S0 D0 (sa_target a) c 0 False))
      (chunk_loop env a rd wr (je_min_chunk env) 0 False) (\<lambda>r. with_files v B (stream_result S0 D0 a c r))"
    by (rule chunk_loop_triple [where B = B and wr = wr and a = a and ?S0.0 = S0 and c = c, OF laws B src]) (use False in simp_all)
  then have "triple (with_files v B (\<lambda>S D. S = S0 \<and> D = D0))
      (chunk_loop env a rd wr (je_min_chunk env) 0 False) (\<lambda>r. with_files v B (stream_result S0 D0 a c r))"
    by (rule files_pre) (simp add: streamed_def)
  then show ?thesis using False by (simp add: stream_chunks_def)
qed

lemma end_streams_triple:
  assumes laws: "session_laws v env" and B: "B wr = {sa_target a}"
  shows "triple (with_files v B (stream_result S0 D0 a c r)) (end_streams env a rd wr r)
     (\<lambda>r. with_files v B (stream_result S0 D0 a c r))"
proof -
  have read: "reads v (v_finish_stream (je_src env) rd)"
    using session_parts(3) [OF laws] by (simp add: src_laws_def)
  have finish: "triple (with_files v B (stream_result S0 D0 a c (Inr ())))
      (on_world (v_finish_stream (je_dst env) wr))
      (\<lambda>f. with_files v B (\<lambda>S D. case f of Inr _ \<Rightarrow> stream_result S0 D0 a c (Inr ()) S D
           | Inl e \<Rightarrow> S = S0 \<and> (\<exists>x. D = D0(sa_target a := x))))"
    by (rule finish_triple [where B = B, OF write_parts(4) [OF session_parts(4) [OF laws]] B])
      (auto simp: stream_result_def)
  have finish': "triple (with_files v B (stream_result S0 D0 a c (Inl failed)))
      (on_world (v_finish_stream (je_dst env) wr)) (\<lambda>_. with_files v B (stream_result S0 D0 a c (Inl failed)))" for failed
    by (rule finish_triple [where B = B, OF write_parts(4) [OF session_parts(4) [OF laws]] B])
      (auto simp: stream_result_def)
  have done_: "triple (with_files v B (\<lambda>S D. case f of Inr _ \<Rightarrow> stream_result S0 D0 a c (Inr ()) S D
           | Inl e \<Rightarrow> S = S0 \<and> (\<exists>x. D = D0(sa_target a := x))))
      (ret (case f of Inr _ \<Rightarrow> Inr ()
            | Inl e \<Rightarrow> Inl (CE_Failed (''Write failed for '' @ quote (sa_shown a) @ '': '' @ error_text e), True)))
      (\<lambda>r. with_files v B (stream_result S0 D0 a c r))" for f :: "unit core_result"
    by (rule files_retI) (auto simp: stream_result_def split: sum.splits)
  show ?thesis
  proof (cases r)
    case (Inr u)
    then have r: "r = Inr ()" by simp
    show ?thesis
      unfolding end_streams_def r sum.case
      by (rule after_keep [OF reads_keeps [OF read]], rule triple_andThen [OF finish], rule done_)
  next
    case (Inl failed)
    show ?thesis
      unfolding end_streams_def Inl sum.case
      by (rule after_keep [OF reads_keeps [OF read_parts(6) [OF session_parts(1) [OF laws]]]],
          rule triple_andThen [OF finish'], rule files_retI)
  qed
qed

text \<open>Removing what is left of a target, and checking its size: only the target can change.\<close>

definition only_target :: "files \<Rightarrow> files \<Rightarrow> string \<Rightarrow> files \<Rightarrow> files \<Rightarrow> bool" where
  "only_target S0 D0 tgt S D = (S = S0 \<and> (\<exists>x. D = D0(tgt := x)))"

lemma discard_triple:
  assumes laws: "session_laws v env"
    and "\<And>S D. P S D \<Longrightarrow> Q S (D(p := None))" and "\<And>S D. P S D \<Longrightarrow> Q S D"
  shows "triple (with_files v B P) (discard_partial env p) (\<lambda>_. with_files v B Q)"
  unfolding discard_partial_def
proof (rule triple_andThen)
  show "triple (with_files v B P) (on_world (v_remove_file (je_dst env) p)) (\<lambda>_. with_files v B Q)"
    by (rule remove_triple [OF session_parts(4) [OF laws]]) (rule assms(2,3), assumption)+
qed (rule triple_ret)

lemma discard_target:
  "session_laws v env \<Longrightarrow>
   triple (with_files v B (only_target S0 D0 p)) (discard_partial env p) (\<lambda>_. with_files v B (only_target S0 D0 p))"
  by (rule discard_triple) (auto simp: only_target_def)

definition copied_to :: "files \<Rightarrow> files \<Rightarrow> string \<Rightarrow> bytes \<Rightarrow> nat \<Rightarrow> copy_error + unit \<Rightarrow> files \<Rightarrow> files \<Rightarrow> bool" where
  "copied_to S0 D0 tgt c expected r S D =
     (case r of
        Inr _ \<Rightarrow> S = S0 \<and> expected \<le> length c \<and> D = D0(tgt := Some (take expected c))
      | Inl _ \<Rightarrow> only_target S0 D0 tgt S D)"

lemma verify_size_triple:
  assumes laws: "session_laws v env"
  shows "triple (with_files v B (copied_to S0 D0 tgt c expected (Inr ()))) (verify_size env tgt shown expected discard)
     (\<lambda>r. with_files v B (copied_to S0 D0 tgt c expected r))"
proof -
  have fail: "triple (with_files v B (copied_to S0 D0 tgt c expected (Inr ())))
      (andThen (discard_partial env tgt) (\<lambda>_. ret (Inl e))) (\<lambda>r. with_files v B (copied_to S0 D0 tgt c expected r))" for e
  proof (rule triple_andThen)
    show "triple (with_files v B (copied_to S0 D0 tgt c expected (Inr ()))) (discard_partial env tgt)
        (\<lambda>_. with_files v B (only_target S0 D0 tgt))"
      by (rule files_pre [OF discard_target [OF laws]]) (auto simp: copied_to_def only_target_def)
  qed (auto intro: files_retI simp: copied_to_def)
  have fail': "triple (with_files v B (copied_to S0 D0 tgt c expected (Inr ())))
      (ret (Inl e)) (\<lambda>r. with_files v B (copied_to S0 D0 tgt c expected r))" for e
    by (rule files_retI) (auto simp: copied_to_def only_target_def)
  show ?thesis
    unfolding verify_size_def
    by (intro after_keep [OF reads_keeps [OF read_parts(2) [OF session_parts(2) [OF laws]]]]
        triple_case_sum triple_if fail fail' files_retI)
qed

lemma stream_verified_triple:
  assumes laws: "session_laws v env" and src: "S0 (sa_source a) = Some c"
  shows "triple (with_files v any_files (\<lambda>S D. S = S0 \<and> D = D0)) (stream_verified env a)
     (\<lambda>r. with_files v any_files (copied_to S0 D0 (sa_target a) c (sa_expected a) r))"
  unfolding stream_verified_def
proof (rule after_keep [OF new_stream_keeps], rule triple_andThen [OF new_stream_triple])
  fix rd wr
  let ?B = "any_files(wr := {sa_target a})"
  have B: "?B wr = {sa_target a}" by simp
  have failed: "triple (with_files v ?B (stream_result S0 D0 a c (Inl (e, discard))))
      (if discard then andThen (discard_partial env (sa_target a)) (\<lambda>_. ret (Inl e)) else ret (Inl e))
      (\<lambda>r. with_files v ?B (copied_to S0 D0 (sa_target a) c (sa_expected a) r))" for e discard
    by (intro triple_if triple_andThen [OF discard_target [OF laws, THEN files_pre]] files_retI)
      (auto simp: stream_result_def only_target_def copied_to_def)
  have ok: "triple (with_files v ?B (stream_result S0 D0 a c (Inr ())))
      (verify_size env (sa_target a) (sa_shown a) (sa_expected a) (sa_owned a))
      (\<lambda>r. with_files v ?B (copied_to S0 D0 (sa_target a) c (sa_expected a) r))"
    by (rule files_pre [OF verify_size_triple [OF laws]]) (auto simp: stream_result_def copied_to_def)
  show "triple (with_files v ?B (\<lambda>S D. S = S0 \<and> D = D0))
     (andThen (stream_chunks env a rd wr) (\<lambda>copied.
      andThen (end_streams env a rd wr copied) (\<lambda>r. case r of
         Inl (e, discard) \<Rightarrow>
           if discard then andThen (discard_partial env (sa_target a)) (\<lambda>_. ret (Inl e)) else ret (Inl e)
       | Inr _ \<Rightarrow> verify_size env (sa_target a) (sa_shown a) (sa_expected a) (sa_owned a))))
     (\<lambda>r. with_files v any_files (copied_to S0 D0 (sa_target a) c (sa_expected a) r))"
  proof (rule files_forget [where B' = ?B], rule triple_andThen [OF stream_chunks_triple [where B = ?B and wr = wr and a = a and ?S0.0 = S0 and c = c, OF laws B src]],
      rule triple_andThen [OF end_streams_triple [where B = ?B and wr = wr and a = a, OF laws B]])
    fix r :: "copy_error \<times> bool + unit"
    show "triple (with_files v ?B (stream_result S0 D0 a c r))
      (case r of
         Inl (e, discard) \<Rightarrow>
           if discard then andThen (discard_partial env (sa_target a)) (\<lambda>_. ret (Inl e)) else ret (Inl e)
       | Inr _ \<Rightarrow> verify_size env (sa_target a) (sa_shown a) (sa_expected a) (sa_owned a))
      (\<lambda>r. with_files v ?B (copied_to S0 D0 (sa_target a) c (sa_expected a) r))"
      using failed ok by (cases r) (auto split: prod.split)
  qed
qed

end
