(* ===== verification/TransferFile.thy ===== *)
theory TransferFile
  imports TransferCopy
begin

section \<open>Copying and moving one file\<close>

text \<open>
  What \<open>copy_file\<close> and \<open>transfer_file\<close> leave in both sessions: which files can change,
  what the destination holds after a success and after a failure, and when a move deletes its
  source.
\<close>

subsection \<open>Looking for aliases\<close>

definition probe_path_of :: "'w job_env \<Rightarrow> string \<Rightarrow> string" where
  "probe_path_of env dp = fst (split_name dp) @ probe_file_name (je_tag env)"

lemma keeps_src_sees: "session_laws v env \<Longrightarrow> keeps (with_files v B P) (src_sees env path)"
  unfolding src_sees_def by (intro hoare_rules read_parts session_parts)

lemma keeps_probe_alias: "session_laws v env \<Longrightarrow> keeps (with_files v B P) (probe_alias env dir name)"
  unfolding probe_alias_def Let_def by (intro hoare_rules keeps_src_sees)

lemma keeps_cache: "keeps (with_files v B P) (modify (\<lambda>s. s\<lparr>jb_cache := x # jb_cache s\<rparr>))"
  by (rule keeps_modify) simp

lemma keeps_find_alias:
  "session_laws v env \<Longrightarrow> keeps (with_files v B P) (find_alias env src_dir dst_dir (Some temp))"
  unfolding find_alias_def option.case by (intro hoare_rules keeps_probe_alias keeps_cache)

lemma keeps_check_temp:
  "session_laws v env \<Longrightarrow> keeps (with_files v B P) (check_not_same_file env sp dp (Some temp))"
  unfolding check_not_same_file_def Let_def by (intro hoare_rules keeps_find_alias)

lemma keeps_guard:
  "session_laws v env \<Longrightarrow> keeps (with_files v B P) (guard_in_place_same_file env sp dp existing)"
  unfolding guard_in_place_same_file_def by (intro hoare_rules read_parts session_parts)

lemma keeps_permissions:
  "session_laws v env \<Longrightarrow> keeps (with_files v B P) (keep_permissions env temp existing)"
  unfolding keep_permissions_def by (intro hoare_rules read_parts session_parts)

lemma create_empty_triple:
  assumes "session_laws v env"
  shows "triple (with_files v B (only_target S0 D0 p)) (create_empty env p) (\<lambda>_. with_files v B (only_target S0 D0 p))"
proof -
  have "triple (with_files v B (only_target S0 D0 p)) (on_world m) (\<lambda>_. with_files v B (only_target S0 D0 p))"
    if "write_law v None p 0 [] m" for m
    by (rule write_triple [OF that]) (auto simp: only_target_def)
  then show ?thesis
    using write_parts [OF session_parts(4) [OF assms]] by (simp add: create_empty_def)
qed

lemma probe_file_triple:
  assumes "session_laws v env"
  shows "triple (with_files v B (only_target S0 D0 (dst_dir @ probe_file_name (je_tag env))))
    (find_alias env src_dir dst_dir temp_marker)
    (\<lambda>_. with_files v B (only_target S0 D0 (dst_dir @ probe_file_name (je_tag env))))"
  unfolding find_alias_def Let_def keeps_def [symmetric]
  by (intro hoare_rules keeps_probe_alias [OF assms] keeps_cache
      create_empty_triple [OF assms, folded keeps_def] discard_target [OF assms, folded keeps_def])

lemma check_probe_triple:
  assumes "session_laws v env"
  shows "triple (with_files v B (only_target S0 D0 (probe_path_of env dp))) (check_not_same_file env sp dp temp_marker)
    (\<lambda>_. with_files v B (only_target S0 D0 (probe_path_of env dp)))"
  unfolding check_not_same_file_def probe_path_of_def Let_def keeps_def [symmetric]
  by (cases "split_name dp") (auto intro!: hoare_rules probe_file_triple [OF assms, folded keeps_def])

subsection \<open>Putting the temporary file in place\<close>

text \<open>The state of the destination after \<open>commit_temp\<close>.\<close>

definition committed :: "files \<Rightarrow> files \<Rightarrow> string \<Rightarrow> string \<Rightarrow> commit \<Rightarrow> files \<Rightarrow> files \<Rightarrow> bool" where
  "committed S0 D0 temp dp c S D =
     (S = S0 \<and> (case c of C_Done \<Rightarrow> D = D0(dp := D0 temp, temp := None)
                | C_NotAllowed _ \<Rightarrow> D = D0 | C_OldRemoved _ \<Rightarrow> D = D0(dp := None)))"

lemma commit_temp_triple:
  assumes laws: "session_laws v env" and temp: "temp \<noteq> dp"
  shows "triple (with_files v B (\<lambda>S D. S = S0 \<and> D = D0)) (commit_temp env temp dp)
    (\<lambda>c. with_files v B (\<lambda>S D. committed S0 D0 temp dp c S D \<and>
       (c = C_Done \<or> (\<exists>w e w'. v_rename (je_dst env) temp dp w = (Inl e, w')))))"
  (is "triple ?P _ ?Q")
proof -
  let ?bad = "\<exists>w e w'. v_rename (je_dst env) temp dp w = (Inl e, w')"
  note dst = session_parts(4) [OF laws]
  have first: "triple ?P (on_world (v_rename (je_dst env) temp dp))
      (\<lambda>r. with_files v B (\<lambda>S D. case r of Inr _ \<Rightarrow> committed S0 D0 temp dp C_Done S D
           | Inl _ \<Rightarrow> (S = S0 \<and> D = D0) \<and> ?bad))"
    by (rule rename_triple [OF dst temp]) (auto simp: committed_def)
  have again: "triple (with_files v B (\<lambda>S D. (S = S0 \<and> D = D0(dp := None)) \<and> ?bad))
      (on_world (v_rename (je_dst env) temp dp))
      (\<lambda>r. with_files v B (\<lambda>S D. case r of Inr _ \<Rightarrow> committed S0 D0 temp dp C_Done S D
           | Inl _ \<Rightarrow> (S = S0 \<and> D = D0(dp := None)) \<and> ?bad))"
    by (rule rename_triple [OF dst temp]) (use temp in \<open>auto simp: committed_def fun_upd_twist\<close>)
  have remove: "triple (with_files v B (\<lambda>S D. (S = S0 \<and> D = D0) \<and> ?bad)) (on_world (v_remove_file (je_dst env) dp))
      (\<lambda>r. with_files v B (\<lambda>S D. case r of Inr _ \<Rightarrow> (S = S0 \<and> D = D0(dp := None)) \<and> ?bad
           | Inl _ \<Rightarrow> (S = S0 \<and> D = D0) \<and> ?bad))"
    by (rule remove_triple [OF dst]) auto
  have last: "triple (with_files v B (\<lambda>S D. (S = S0 \<and> D = D0(dp := None)) \<and> ?bad))
      (andThen (on_world (v_rename (je_dst env) temp dp)) (\<lambda>again. case again of
          Inr _ \<Rightarrow> ret C_Done | Inl e \<Rightarrow> ret (C_OldRemoved (error_text e)))) ?Q"
    by (rule triple_andThen [OF again], rule triple_case_sum; rule files_retI; simp add: committed_def)
  have second: "triple (with_files v B (\<lambda>S D. (S = S0 \<and> D = D0) \<and> ?bad))
      (andThen (on_world (v_remove_file (je_dst env) dp)) (\<lambda>removed. case removed of
           Inl e' \<Rightarrow> ret (C_NotAllowed (''renaming the new copy failed ('' @ error_text e
                      @ '') and removing the old file failed ('' @ error_text e' @ '')''))
         | Inr _ \<Rightarrow> andThen (on_world (v_rename (je_dst env) temp dp)) (\<lambda>again. case again of
               Inr _ \<Rightarrow> ret C_Done | Inl e' \<Rightarrow> ret (C_OldRemoved (error_text e'))))) ?Q" for e
    apply (rule triple_andThen [OF remove], rule triple_case_sum)
     apply (rule files_retI, simp add: committed_def)
    by (simp only: sum.case) (rule last)
  show ?thesis
    unfolding commit_temp_def
    apply (rule triple_andThen [OF first], rule triple_case_sum; simp only: sum.case)
     apply (rule after_keep [OF reads_keeps [OF read_parts(5) [OF session_parts(2) [OF laws]]]], rule triple_if)
      apply (rule files_retI, simp add: committed_def)
     apply (rule second)
    by (rule files_retI, simp add: committed_def)
qed

subsection \<open>Replacing an existing file\<close>

text \<open>
  The result of a copy: the source is what it was, only the destination, the temporary file and
  the probe file can differ, and after a success the destination holds what was to be copied.
  With \<open>safe\<close> a failure leaves the destination as it was.
\<close>

definition copy_post ::
  "bool \<Rightarrow> string set \<Rightarrow> files \<Rightarrow> files \<Rightarrow> string \<Rightarrow> bytes \<Rightarrow> nat \<Rightarrow> copy_error + unit \<Rightarrow> files \<Rightarrow> files \<Rightarrow> bool" where
  "copy_post safe X S0 D0 dp c expected r S D =
     (S = S0 \<and> (\<forall>p. p \<notin> X \<longrightarrow> D p = D0 p) \<and>
      (case r of Inr _ \<Rightarrow> expected \<le> length c \<and> D dp = Some (take expected c)
       | Inl _ \<Rightarrow> safe \<longrightarrow> D dp = D0 dp))"

definition unchanged_but :: "string set \<Rightarrow> files \<Rightarrow> files \<Rightarrow> files \<Rightarrow> files \<Rightarrow> bool" where
  "unchanged_but X S0 D0 S D = (S = S0 \<and> (\<forall>p. p \<notin> X \<longrightarrow> D p = D0 p))"

lemma files_each:
  assumes "\<And>D1. P S0 D1 \<Longrightarrow> triple (with_files v B (\<lambda>S D. S = S0 \<and> D = D1)) m (\<lambda>r. with_files v B (Q D1 r))"
  shows "triple (with_files v B (\<lambda>S D. S = S0 \<and> P S D)) m
    (\<lambda>r. with_files v B (\<lambda>S D. \<exists>D1. P S0 D1 \<and> Q D1 r S D))"
proof (rule tripleI)
  fix s r s'
  assume pre: "with_files v B (\<lambda>S D. S = S0 \<and> P S D) s" and run: "m s = (r, s')"
  let ?D = "in_dst v (jb_world s)"
  have "P S0 ?D" and "with_files v B (\<lambda>S D. S = S0 \<and> D = ?D) s" using pre by (auto simp: with_files_def)
  from tripleD [OF assms [OF this(1)] this(2) run] \<open>P S0 ?D\<close>
  show "with_files v B (\<lambda>S D. \<exists>D1. P S0 D1 \<and> Q D1 r S D) s'" by (auto simp: with_files_def)
qed

text \<open>Streaming from a state that is known up to some files.\<close>

lemma stream_any_triple:
  assumes laws: "session_laws v env" and src: "S0 (sa_source a) = Some c"
  shows "triple (with_files v any_files (unchanged_but X S0 D0)) (stream_verified env a)
     (\<lambda>r. with_files v any_files (\<lambda>S D. \<exists>D1. unchanged_but X S0 D0 S0 D1 \<and>
        copied_to S0 D1 (sa_target a) c (sa_expected a) r S D))"
proof -
  have eq: "unchanged_but X S0 D0 = (\<lambda>S D. S = S0 \<and> unchanged_but X S0 D0 S D)"
    by (auto simp: unchanged_but_def fun_eq_iff)
  show ?thesis
    by (subst eq, rule files_each) (rule stream_verified_triple [where ?S0.0 = S0, OF laws src])
qed

lemma stream_direct_triple:
  assumes laws: "session_laws v env" and src: "S0 sp = Some c" and "dp \<in> X"
  shows "triple (with_files v any_files (unchanged_but X S0 D0)) (stream_verified env (direct sp dp expected))
     (\<lambda>r. with_files v any_files (copy_post False X S0 D0 dp c expected r))"
proof -
  have src': "S0 (sa_source (direct sp dp expected)) = Some c" using src by (simp add: direct_def)
  show ?thesis
    using stream_any_triple [where ?S0.0 = S0, OF laws src']
    by (rule files_post) (use assms(3) in \<open>auto simp: copied_to_def only_target_def unchanged_but_def copy_post_def
      direct_def split: sum.splits\<close>)
qed

text \<open>A failure to rename the temporary file is the only way to a direct write.\<close>

definition rename_works :: "'w job_env \<Rightarrow> string \<Rightarrow> bool" where
  "rename_works env dp = (\<nexists>w e w'. v_rename (je_dst env) (temp_path_of env dp) dp w = (Inl e, w'))"

text \<open>The destination is known up to the files in \<open>X\<close>, and the temporary file is complete.\<close>

definition temp_ready :: "'w job_env \<Rightarrow> string set \<Rightarrow> files \<Rightarrow> files \<Rightarrow> string \<Rightarrow> bytes \<Rightarrow> nat \<Rightarrow> files \<Rightarrow> bool" where
  "temp_ready env X S0 D0 dp c expected D1 =
     (temp_path_of env dp \<noteq> dp \<and> dp \<in> X \<and> temp_path_of env dp \<in> X \<and> expected \<le> length c \<and>
      unchanged_but X S0 D0 S0 D1 \<and> D1 (temp_path_of env dp) = Some (take expected c))"

lemma replace_renamed:
  assumes laws: "session_laws v env" and ready: "temp_ready env X S0 D0 dp c expected D1" and "rename_works env dp"
  shows "triple (with_files v any_files (\<lambda>S D. S = S0 \<and> D = D1)) (replace_by_temp env sp (temp_path_of env dp) dp expected)
    (\<lambda>r. with_files v any_files (copy_post safe X S0 D0 dp c expected r))"
proof -
  have temp: "temp_path_of env dp \<noteq> dp" using ready by (simp add: temp_ready_def)
  have "triple (with_files v any_files (\<lambda>S D. S = S0 \<and> D = D1)) (commit_temp env (temp_path_of env dp) dp)
     (\<lambda>c. with_files v any_files (\<lambda>S D. committed S0 D1 (temp_path_of env dp) dp C_Done S D \<and> c = C_Done))"
    by (rule files_post [OF commit_temp_triple [OF laws temp]]) (use assms(3) in \<open>auto simp: rename_works_def\<close>)
  then show ?thesis
    unfolding replace_by_temp_def
    by (rule triple_andThen, intro files_assume, simp only: commit.case, intro files_retI)
      (use ready in \<open>auto simp: temp_ready_def committed_def copy_post_def unchanged_but_def\<close>)
qed

text \<open>Removing a file of \<open>X\<close>.\<close>

lemma discard_unchanged:
  "session_laws v env \<Longrightarrow> p \<in> X \<Longrightarrow>
   triple (with_files v B (unchanged_but X S0 D0)) (discard_partial env p) (\<lambda>_. with_files v B (unchanged_but X S0 D0))"
  by (erule discard_triple) (auto simp: unchanged_but_def)

lemma discard_other:
  "session_laws v env \<Longrightarrow> p \<in> X \<Longrightarrow> p \<noteq> dp \<Longrightarrow>
   triple (with_files v B (copy_post safe X S0 D0 dp c expected r)) (discard_partial env p)
     (\<lambda>_. with_files v B (copy_post safe X S0 D0 dp c expected r))"
  by (erule discard_triple) (auto simp: copy_post_def split: sum.splits)

lemma commit_any:
  assumes laws: "session_laws v env" and ready: "temp_ready env X S0 D0 dp c expected D1"
  shows "triple (with_files v any_files (\<lambda>S D. S = S0 \<and> D = D1)) (commit_temp env (temp_path_of env dp) dp)
     (\<lambda>k. with_files v any_files (\<lambda>S D. unchanged_but X S0 D0 S D \<and>
        (k = C_Done \<longrightarrow> copy_post False X S0 D0 dp c expected (Inr ()) S D)))"
proof -
  have temp: "temp_path_of env dp \<noteq> dp" using ready by (simp add: temp_ready_def)
  show ?thesis
    by (rule files_post [OF commit_temp_triple [OF laws temp]])
      (use ready in \<open>auto simp: temp_ready_def committed_def unchanged_but_def copy_post_def split: commit.splits\<close>)
qed

lemma replace_any:
  assumes laws: "session_laws v env" and src: "S0 sp = Some c" and ready: "temp_ready env X S0 D0 dp c expected D1"
  shows "triple (with_files v any_files (\<lambda>S D. S = S0 \<and> D = D1)) (replace_by_temp env sp (temp_path_of env dp) dp expected)
    (\<lambda>r. with_files v any_files (copy_post False X S0 D0 dp c expected r))"
  unfolding replace_by_temp_def
proof (rule triple_andThen [OF commit_any [OF laws ready]])
  fix k
  let ?temp = "temp_path_of env dp"
  let ?post = "\<lambda>r. with_files v any_files (copy_post False X S0 D0 dp c expected r)"
  let ?P = "with_files v any_files (\<lambda>S D. unchanged_but X S0 D0 S D \<and>
      (k = C_Done \<longrightarrow> copy_post False X S0 D0 dp c expected (Inr ()) S D))"
  have X: "dp \<in> X" "?temp \<in> X" "?temp \<noteq> dp" using ready by (simp_all add: temp_ready_def)
  note direct = stream_direct_triple [where ?S0.0 = S0 and dp = dp, OF laws src X(1)]
  have "triple (?post (Inr ())) (andThen (discard_partial env ?temp) (\<lambda>_. ret (Inr ()))) ?post"
    by (rule triple_andThen [OF discard_other [OF laws X(2,3)]]) (rule triple_ret)
  moreover have "triple (?post (Inl e)) (ret (Inl e')) ?post" for e e'
    by (rule files_retI) (simp add: copy_post_def)
  ultimately have ended: "triple (?post r) (case r of
        Inr _ \<Rightarrow> andThen (discard_partial env ?temp) (\<lambda>_. ret (Inr ()))
      | Inl CE_Cancelled \<Rightarrow> ret (Inl CE_Cancelled)
      | Inl (CE_Failed m) \<Rightarrow> ret (Inl (CE_Failed (shown m)))) ?post" for r shown
    by (cases r) (auto split: copy_error.split)
  show "triple ?P (case k of
       C_Done \<Rightarrow> ret (Inr ())
     | C_NotAllowed why \<Rightarrow> andThen (discard_partial env ?temp) (\<lambda>_. andThen (unprogress expected) (\<lambda>_.
           stream_verified env (direct sp dp expected)))
     | C_OldRemoved why \<Rightarrow> andThen (unprogress expected) (\<lambda>_.
         andThen (stream_verified env (direct sp dp expected)) (\<lambda>r. case r of
           Inr _ \<Rightarrow> andThen (discard_partial env ?temp) (\<lambda>_. ret (Inr ()))
         | Inl CE_Cancelled \<Rightarrow> ret (Inl CE_Cancelled)
         | Inl (CE_Failed msg) \<Rightarrow> ret (Inl (CE_Failed (''The old '' @ quote dp
             @ '' was removed, but the new copy could not be renamed into place ('' @ why
             @ '') or written directly ('' @ msg @ ''); the complete copy was kept as '' @ quote ?temp)))))) ?post"
  proof (cases k)
    case C_Done
    then show ?thesis by (auto intro: files_retI)
  next
    case (C_NotAllowed why)
    show ?thesis unfolding C_NotAllowed commit.case
      by (rule files_pre, rule triple_andThen [OF discard_unchanged [OF laws X(2)]],
          rule after_keep [OF keeps_unprogress], rule direct, simp)
  next
    case (C_OldRemoved why)
    show ?thesis unfolding C_OldRemoved commit.case
      by (rule files_pre, rule after_keep [OF keeps_unprogress], rule triple_andThen [OF direct], rule ended, simp)
  qed
qed

lemma replace_by_temp_triple:
  assumes "session_laws v env" and "S0 sp = Some c" and "temp_ready env X S0 D0 dp c expected D1"
    and "safe \<Longrightarrow> rename_works env dp"
  shows "triple (with_files v any_files (\<lambda>S D. S = S0 \<and> D = D1)) (replace_by_temp env sp (temp_path_of env dp) dp expected)
    (\<lambda>r. with_files v any_files (copy_post safe X S0 D0 dp c expected r))"
proof (cases "rename_works env dp")
  case True
  then show ?thesis by (rule replace_renamed [OF assms(1,3)])
next
  case False
  then show ?thesis using replace_any [where ?S0.0 = S0, OF assms(1-3)] assms(4) by (cases safe) auto
qed

subsection \<open>Copying over an existing file\<close>

definition temp_works :: "'w job_env \<Rightarrow> string \<Rightarrow> bool" where
  "temp_works env dp = (\<nexists>w e w'. v_write_at (je_dst env) (temp_path_of env dp) 0 [] w = (Inl e, w'))"

definition dest_kept :: "string set \<Rightarrow> files \<Rightarrow> files \<Rightarrow> string \<Rightarrow> files \<Rightarrow> files \<Rightarrow> bool" where
  "dest_kept X S0 D0 dp S D = (unchanged_but X S0 D0 S D \<and> D dp = D0 dp)"

lemma kept_failed:
  "triple (with_files v B (dest_kept X S0 D0 dp)) (ret (Inl e)) (\<lambda>r. with_files v B (copy_post safe X S0 D0 dp c expected r))"
  by (rule files_retI) (simp add: dest_kept_def unchanged_but_def copy_post_def)

lemma unsafe_failed:
  "triple (with_files v B (unchanged_but X S0 D0)) (ret (Inl e)) (\<lambda>r. with_files v B (copy_post False X S0 D0 dp c expected r))"
  by (rule files_retI) (simp add: unchanged_but_def copy_post_def)

lemma discard_kept:
  "session_laws v env \<Longrightarrow> p \<in> X \<Longrightarrow> p \<noteq> dp \<Longrightarrow>
   triple (with_files v B (dest_kept X S0 D0 dp)) (discard_partial env p) (\<lambda>_. with_files v B (dest_kept X S0 D0 dp))"
  by (erule discard_triple) (auto simp: dest_kept_def unchanged_but_def)

text \<open>When the temporary file cannot be created: a direct write.\<close>

lemma copy_in_place:
  assumes laws: "session_laws v env" and src: "S0 sp = Some c" and X: "dp \<in> X" "temp_path_of env dp \<in> X"
  shows "triple (with_files v any_files (unchanged_but X S0 D0))
     (andThen (discard_partial env (temp_path_of env dp)) (\<lambda>_.
      try_then (guard_in_place_same_file env sp dp existing) (\<lambda>_. stream_verified env (direct sp dp expected))))
     (\<lambda>r. with_files v any_files (copy_post False X S0 D0 dp c expected r))"
  unfolding try_then_def
  by (rule triple_andThen [OF discard_unchanged [OF laws X(2)]], rule after_keep [OF keeps_guard [OF laws]],
      rule triple_case_sum, rule unsafe_failed,
      rule stream_direct_triple [where ?S0.0 = S0 and dp = dp, OF laws src X(1)])

text \<open>Through the temporary file.\<close>

lemma stream_temp_triple:
  assumes laws: "session_laws v env" and src: "S0 sp = Some c"
    and X: "dp \<in> X" "temp_path_of env dp \<in> X" and temp: "temp_path_of env dp \<noteq> dp"
  shows "triple (with_files v any_files (dest_kept X S0 D0 dp))
     (stream_verified env (through_temp sp (temp_path_of env dp) dp expected))
     (\<lambda>r. with_files v any_files (\<lambda>S D. S = S0 \<and> dest_kept X S0 D0 dp S D \<and>
        (case r of Inr _ \<Rightarrow> temp_ready env X S0 D0 dp c expected D | Inl _ \<Rightarrow> True)))"
proof -
  let ?a = "through_temp sp (temp_path_of env dp) dp expected"
  have src': "S0 (sa_source ?a) = Some c" using src by (simp add: through_temp_def)
  have eq: "dest_kept X S0 D0 dp = (\<lambda>S D. S = S0 \<and> dest_kept X S0 D0 dp S D)"
    by (auto simp: dest_kept_def unchanged_but_def fun_eq_iff)
  have "triple (with_files v any_files (dest_kept X S0 D0 dp)) (stream_verified env ?a)
     (\<lambda>r. with_files v any_files (\<lambda>S D. \<exists>D1. dest_kept X S0 D0 dp S0 D1 \<and>
        copied_to S0 D1 (sa_target ?a) c (sa_expected ?a) r S D))"
    by (subst eq, rule files_each) (rule stream_verified_triple [where ?S0.0 = S0, OF laws src'])
  then show ?thesis
    by (rule files_post) (use X temp in \<open>auto simp: copied_to_def only_target_def dest_kept_def unchanged_but_def
      temp_ready_def through_temp_def split: sum.splits\<close>)
qed

lemma replace_from_ready:
  assumes "session_laws v env" and "S0 sp = Some c" and "safe \<Longrightarrow> rename_works env dp"
  shows "triple (with_files v any_files (\<lambda>S D. S = S0 \<and> temp_ready env X S0 D0 dp c expected D))
    (replace_by_temp env sp (temp_path_of env dp) dp expected)
    (\<lambda>r. with_files v any_files (copy_post safe X S0 D0 dp c expected r))"
proof (rule files_post)
  show "triple (with_files v any_files (\<lambda>S D. S = S0 \<and> temp_ready env X S0 D0 dp c expected D))
    (replace_by_temp env sp (temp_path_of env dp) dp expected)
    (\<lambda>r. with_files v any_files (\<lambda>S D. \<exists>D1. temp_ready env X S0 D0 dp c expected D1 \<and>
        copy_post safe X S0 D0 dp c expected r S D))"
    by (rule files_each) (rule replace_by_temp_triple [where ?S0.0 = S0, OF assms(1,2) _ assms(3)])
qed blast

lemma copy_through_temp:
  assumes laws: "session_laws v env" and src: "S0 sp = Some c"
    and X: "dp \<in> X" "temp_path_of env dp \<in> X" and temp: "temp_path_of env dp \<noteq> dp"
    and safe: "safe \<Longrightarrow> rename_works env dp"
  shows "triple (with_files v any_files (dest_kept X S0 D0 dp))
     (try_then (stream_verified env (through_temp sp (temp_path_of env dp) dp expected)) (\<lambda>_.
      andThen (job_cancelled env) (\<lambda>stop.
        if stop then andThen (discard_partial env (temp_path_of env dp)) (\<lambda>_. ret (Inl CE_Cancelled))
        else andThen (keep_permissions env (temp_path_of env dp) existing) (\<lambda>_.
          replace_by_temp env sp (temp_path_of env dp) dp expected))))
     (\<lambda>r. with_files v any_files (copy_post safe X S0 D0 dp c expected r))"
proof -
  let ?post = "\<lambda>r. with_files v any_files (copy_post safe X S0 D0 dp c expected r)"
  let ?ready = "\<lambda>S D. S = S0 \<and> dest_kept X S0 D0 dp S D \<and> temp_ready env X S0 D0 dp c expected D"
  have stop: "triple (with_files v any_files ?ready)
      (andThen (discard_partial env (temp_path_of env dp)) (\<lambda>_. ret (Inl CE_Cancelled))) ?post"
    by (rule files_pre, rule triple_andThen [OF discard_kept [OF laws X(2) temp] kept_failed]) simp
  have go: "triple (with_files v any_files ?ready) (replace_by_temp env sp (temp_path_of env dp) dp expected) ?post"
    by (rule files_pre, rule replace_from_ready [where ?S0.0 = S0, OF laws src safe]) simp_all
  have failed: "triple (with_files v any_files (\<lambda>S D. S = S0 \<and> dest_kept X S0 D0 dp S D \<and> True)) (ret (Inl e)) ?post" for e
    by (rule files_pre, rule kept_failed) simp
  have "triple (with_files v any_files ?ready)
     (andThen (job_cancelled env) (\<lambda>stop.
        if stop then andThen (discard_partial env (temp_path_of env dp)) (\<lambda>_. ret (Inl CE_Cancelled))
        else andThen (keep_permissions env (temp_path_of env dp) existing) (\<lambda>_.
          replace_by_temp env sp (temp_path_of env dp) dp expected))) ?post"
    by (rule after_keep [OF keeps_cancelled], rule triple_if, rule stop,
        rule after_keep [OF keeps_permissions [OF laws]], rule go)
  then show ?thesis
    unfolding try_then_def using failed
    by (intro triple_andThen [OF stream_temp_triple [where ?S0.0 = S0, OF laws src X temp]] triple_case_sum) simp_all
qed

lemma copy_over_triple:
  assumes laws: "session_laws v env" and src: "S0 sp = Some c"
    and X: "dp \<in> X" "temp_path_of env dp \<in> X" and temp: "temp_path_of env dp \<noteq> dp"
    and safe: "safe \<Longrightarrow> rename_works env dp \<and> temp_works env dp"
  shows "triple (with_files v any_files (dest_kept X S0 D0 dp)) (copy_over env sp dp expected existing)
     (\<lambda>r. with_files v any_files (copy_post safe X S0 D0 dp c expected r))"
proof -
  let ?temp = "temp_path_of env dp"
  let ?post = "\<lambda>r. with_files v any_files (copy_post safe X S0 D0 dp c expected r)"
  have create: "triple (with_files v any_files (dest_kept X S0 D0 dp)) (on_world (v_write_at (je_dst env) ?temp 0 []))
      (\<lambda>r. with_files v any_files (\<lambda>S D. case r of Inr _ \<Rightarrow> dest_kept X S0 D0 dp S D
          | Inl _ \<Rightarrow> unchanged_but X S0 D0 S D \<and> \<not> temp_works env dp))"
    by (rule write_triple [OF write_parts(1) [OF session_parts(4) [OF laws]]])
      (use X temp in \<open>auto simp: dest_kept_def unchanged_but_def temp_works_def\<close>)
  have in_place: "triple (with_files v any_files (\<lambda>S D. unchanged_but X S0 D0 S D \<and> \<not> temp_works env dp))
     (andThen (discard_partial env ?temp) (\<lambda>_.
      try_then (guard_in_place_same_file env sp dp existing) (\<lambda>_. stream_verified env (direct sp dp expected)))) ?post"
  proof (rule files_assume)
    assume "\<not> temp_works env dp"
    then have "\<not> safe" using safe by blast
    then show "triple (with_files v any_files (unchanged_but X S0 D0))
     (andThen (discard_partial env ?temp) (\<lambda>_.
      try_then (guard_in_place_same_file env sp dp existing) (\<lambda>_. stream_verified env (direct sp dp expected)))) ?post"
      using copy_in_place [where ?S0.0 = S0 and dp = dp and X = X, OF laws src X] by simp
  qed
  have same: "triple (with_files v any_files (dest_kept X S0 D0 dp))
      (andThen (discard_partial env ?temp) (\<lambda>_. ret (Inl e))) ?post" for e
    by (rule triple_andThen [OF discard_kept [OF laws X(2) temp] kept_failed])
  have through: "triple (with_files v any_files (dest_kept X S0 D0 dp))
     (try_then (stream_verified env (through_temp sp ?temp dp expected)) (\<lambda>_.
      andThen (job_cancelled env) (\<lambda>stop.
        if stop then andThen (discard_partial env ?temp) (\<lambda>_. ret (Inl CE_Cancelled))
        else andThen (keep_permissions env ?temp existing) (\<lambda>_.
          replace_by_temp env sp ?temp dp expected)))) ?post"
    by (rule copy_through_temp [where ?S0.0 = S0, OF laws src X temp]) (use safe in blast)
  show ?thesis
    unfolding copy_over_def Let_def
    by (rule triple_andThen [OF create], rule triple_case_sum; simp only: sum.case)
      (rule in_place, rule after_keep [OF keeps_check_temp [OF laws]], rule triple_case_sum, rule same, rule through)
qed

subsection \<open>Whole files\<close>

lemma read_loop_triple:
  assumes laws: "session_laws v env" and src: "\<And>S D. P S D \<Longrightarrow> S sp = Some c" and "offset \<le> expected"
  shows "triple (with_files v B (\<lambda>S D. P S D \<and> offset \<le> length c \<and> buf = take offset c))
     (read_loop env sp expected rd chunk offset buf)
     (\<lambda>r. with_files v B (\<lambda>S D. P S D \<and>
        (case r of Inr b \<Rightarrow> expected \<le> length c \<and> b = take expected c | Inl _ \<Rightarrow> True)))"
  using assms(3)
proof (induction "expected - offset" arbitrary: offset buf chunk rule: less_induct)
  case less
  let ?P = "\<lambda>S D. P S D \<and> offset \<le> length c \<and> buf = take offset c"
  let ?R = "\<lambda>r. with_files v B (\<lambda>S D. P S D \<and>
        (case r of Inr b \<Rightarrow> expected \<le> length c \<and> b = take expected c | Inl _ \<Rightarrow> True))"
  show ?case
  proof (cases "offset \<ge> expected")
    case True
    have "triple (with_files v B ?P) (ret (Inr buf)) ?R"
      by (rule files_retI) (use True less.prems in auto)
    then show ?thesis using True by (simp add: read_loop.simps)
  next
    case False
    have src': "S sp = Some c" if "?P S D" for S D using that src by blast
    have failed: "triple (with_files v B (\<lambda>S D. ?P S D \<and> b)) (ret (Inl e)) ?R" for e b
      by (rule files_retI) simp
    have goes: "triple (with_files v B (\<lambda>S D. ?P S D \<and> reads_of c offset (Inr d)))
        (andThen (add_progress env (length (take (expected - offset) d))) (\<lambda>_.
              andThen now (\<lambda>t1.
                read_loop env sp expected rd (next_chunk env chunk (t1 - t0))
                  (offset + length (take (expected - offset) d)) (buf @ take (expected - offset) d)))) ?R"
      if "d \<noteq> []" for d t0
    proof (rule files_pre, intro after_keep [OF keeps_progress] after_keep [OF keeps_now])
      let ?d = "take (expected - offset) d"
      have more: "expected - (offset + length ?d) < expected - offset" "offset + length ?d \<le> expected"
        using that False by (auto simp: neq_Nil_conv)
      show "triple (with_files v B (\<lambda>S D. P S D \<and> offset + length ?d \<le> length c \<and> buf @ ?d = take (offset + length ?d) c))
          (read_loop env sp expected rd (next_chunk env chunk (t1 - t0)) (offset + length ?d) (buf @ ?d)) ?R" for t1
        by (rule less.hyps [OF more])
      show "P S D \<and> offset + length ?d \<le> length c \<and> buf @ ?d = take (offset + length ?d) c"
        if "?P S D \<and> reads_of c offset (Inr d)" for S D
      proof -
        have pre: "prefix ?d (drop offset c)" and rest: "offset \<le> length c" "buf = take offset c" "P S D"
          using that prefix_order.trans [OF take_is_prefix] by (auto simp: reads_of_def)
        show ?thesis
          using prefix_of_rest [OF pre rest(1)] rest(2,3) by (simp only: simp_thms)
      qed
    qed
    have "triple (with_files v B ?P)
      (andThen now (\<lambda>t0.
        andThen (read_step env rd sp expected offset (min chunk (expected - offset))) (\<lambda>r.
        case r of
          Inl m \<Rightarrow> ret (Inl (CE_Failed m))
        | Inr d \<Rightarrow>
            if d = [] then ret (Inl (CE_Failed (ended_early sp offset expected)))
            else let data = take (expected - offset) d in
              andThen (add_progress env (length data)) (\<lambda>_.
              andThen now (\<lambda>t1.
                read_loop env sp expected rd (next_chunk env chunk (t1 - t0)) (offset + length data)
                  (buf @ data)))))) ?R"
      unfolding Let_def
      by (rule after_keep [OF keeps_now], rule triple_andThen [OF read_step_triple [where P = ?P, OF laws]],
          rule src', assumption, intro triple_case_sum triple_if)
        (simp_all only: failed goes not_False_eq_True)
    moreover have "triple (with_files v B ?P) (ret (Inl CE_Cancelled)) ?R"
      by (rule files_retI) simp
    ultimately show ?thesis
      unfolding read_loop.simps [of env sp expected rd chunk offset buf]
      using False by (simp add: after_keep [OF keeps_cancelled])
  qed
qed

lemma write_file_triple:
  assumes laws: "session_laws v env" and "dp \<in> X"
  shows "triple (with_files v B (\<lambda>S D. unchanged_but X S0 D0 S D \<and> expected \<le> length c))
     (on_world (v_write_file (je_dst env) dp (take expected c)))
     (\<lambda>r. with_files v B (\<lambda>S D. case r of Inr _ \<Rightarrow> copy_post False X S0 D0 dp c expected (Inr ()) S D
        | Inl _ \<Rightarrow> unchanged_but X S0 D0 S D))"
  by (rule write_triple [OF write_parts(3) [OF session_parts(4) [OF laws]]])
    (use assms(2) in \<open>auto simp: unchanged_but_def copy_post_def\<close>)

text \<open>The check of the size after the write.\<close>

lemma verify_post_triple:
  assumes laws: "session_laws v env" and X: "dp \<in> X"
  shows "triple (with_files v B (copy_post False X S0 D0 dp c expected (Inr ()))) (verify_size env dp shown expected discard)
     (\<lambda>r. with_files v B (copy_post False X S0 D0 dp c expected r))"
proof -
  have unch: "unchanged_but X S0 D0 S D" if "copy_post False X S0 D0 dp c expected (Inr ()) S D" for S D
    using that by (simp add: copy_post_def unchanged_but_def)
  have fail: "triple (with_files v B (copy_post False X S0 D0 dp c expected (Inr ())))
      (andThen (discard_partial env dp) (\<lambda>_. ret (Inl e))) (\<lambda>r. with_files v B (copy_post False X S0 D0 dp c expected r))" for e
    by (rule files_pre [OF triple_andThen [OF discard_unchanged [OF laws X] unsafe_failed] unch])
  have fail': "triple (with_files v B (copy_post False X S0 D0 dp c expected (Inr ())))
      (ret (Inl e)) (\<lambda>r. with_files v B (copy_post False X S0 D0 dp c expected r))" for e
    by (rule files_pre [OF unsafe_failed unch])
  show ?thesis
    unfolding verify_size_def
    by (intro after_keep [OF reads_keeps [OF read_parts(2) [OF session_parts(2) [OF laws]]]]
        triple_case_sum triple_if fail fail' files_retI)
qed

lemma write_whole_triple:
  assumes laws: "session_laws v env" and X: "dp \<in> X"
  shows "triple (with_files v B (\<lambda>S D. unchanged_but X S0 D0 S D \<and>
        (case r of Inr b \<Rightarrow> expected \<le> length c \<and> b = take expected c | Inl _ \<Rightarrow> True)))
     (case r of
       Inl e \<Rightarrow> ret (Inl e)
     | Inr buf \<Rightarrow>
         andThen (job_cancelled env) (\<lambda>stop.
         if stop then ret (Inl CE_Cancelled)
         else andThen (on_world (v_write_file (je_dst env) dp buf)) (\<lambda>w. case w of
             Inl e \<Rightarrow> ret (Inl (CE_Failed (msg e)))
           | Inr _ \<Rightarrow> verify_size env dp dp expected False)))
     (\<lambda>r. with_files v B (copy_post False X S0 D0 dp c expected r))"
proof (cases r)
  case (Inl e)
  then show ?thesis by (simp add: unsafe_failed)
next
  case (Inr b)
  let ?P = "\<lambda>S D. unchanged_but X S0 D0 S D \<and> expected \<le> length c"
  have "triple (with_files v B ?P)
      (andThen (on_world (v_write_file (je_dst env) dp (take expected c))) (\<lambda>w. case w of
             Inl e \<Rightarrow> ret (Inl (CE_Failed (msg e)))
           | Inr _ \<Rightarrow> verify_size env dp dp expected False))
      (\<lambda>r. with_files v B (copy_post False X S0 D0 dp c expected r))"
    by (rule triple_andThen [OF write_file_triple [OF laws X]], rule triple_case_sum; simp only: sum.case)
      (rule unsafe_failed, rule verify_post_triple [OF laws X])
  moreover have "triple (with_files v B ?P) (ret (Inl CE_Cancelled))
      (\<lambda>r. with_files v B (copy_post False X S0 D0 dp c expected r))"
    by (rule files_pre [OF unsafe_failed]) simp
  ultimately have run: "triple (with_files v B ?P)
      (andThen (job_cancelled env) (\<lambda>stop.
         if stop then ret (Inl CE_Cancelled)
         else andThen (on_world (v_write_file (je_dst env) dp (take expected c))) (\<lambda>w. case w of
             Inl e \<Rightarrow> ret (Inl (CE_Failed (msg e)))
           | Inr _ \<Rightarrow> verify_size env dp dp expected False)))
      (\<lambda>r. with_files v B (copy_post False X S0 D0 dp c expected r))"
    by (intro after_keep [OF keeps_cancelled] triple_if)
  show ?thesis
    unfolding Inr sum.case conj_assoc [symmetric] by (rule files_assume) (hypsubst, rule run)
qed

lemma copy_file_whole_triple:
  assumes laws: "session_laws v env" and src: "S0 sp = Some c" and X: "dp \<in> X" "probe_path_of env dp \<in> X"
  shows "triple (with_files v any_files (\<lambda>S D. S = S0 \<and> D = D0)) (copy_file_whole env sp dp expected)
     (\<lambda>r. with_files v any_files (copy_post False X S0 D0 dp c expected r))"
proof -
  let ?U = "unchanged_but X S0 D0"
  have "triple (with_files v any_files (only_target S0 D0 (probe_path_of env dp))) (check_not_same_file env sp dp None)
     (\<lambda>_. with_files v any_files ?U)"
    by (rule files_post [OF check_probe_triple [OF laws]]) (use X in \<open>auto simp: only_target_def unchanged_but_def\<close>)
  then have "triple (with_files v any_files (\<lambda>S D. S = S0 \<and> D = D0)) (check_not_same_file env sp dp None)
     (\<lambda>_. with_files v any_files ?U)"
    by (rule files_pre) (auto simp: only_target_def intro: exI [of _ "D0 (probe_path_of env dp)"])
  moreover have "triple (with_files v any_files (\<lambda>S D. S = S0 \<and> D = D0)) (ret (Inr ())) (\<lambda>_. with_files v any_files ?U)"
    by (rule files_retI) (simp add: unchanged_but_def)
  ultimately have checked: "triple (with_files v any_files (\<lambda>S D. S = S0 \<and> D = D0))
      (if je_is_move env then check_not_same_file env sp dp None else ret (Inr ())) (\<lambda>_. with_files v any_files ?U)"
    by (intro triple_if)
  have src': "S sp = Some c" if "?U S D" for S D using that src by (simp add: unchanged_but_def)
  have collected: "triple (with_files v any_files ?U) (read_chunks env sp expected rd)
      (\<lambda>r. with_files v any_files (\<lambda>S D. ?U S D \<and>
        (case r of Inr b \<Rightarrow> expected \<le> length c \<and> b = take expected c | Inl _ \<Rightarrow> True)))" for rd
    unfolding read_chunks_def
    by (rule files_pre, rule read_loop_triple [where P = ?U and c = c, OF laws]) (use src in \<open>auto simp: unchanged_but_def\<close>)
  have ended: "keeps (with_files v B P)
      (case r of Inr _ \<Rightarrow> andThen (on_world (v_finish_stream (je_src env) rd)) (\<lambda>_. ret ())
       | Inl _ \<Rightarrow> on_world (v_abandon_stream (je_src env) rd))" for B P rd and r :: "copy_error + bytes"
    using session_parts(3) [OF laws] by (intro hoare_rules read_parts session_parts [OF laws]) (simp add: src_laws_def)
  show ?thesis
    unfolding copy_file_whole_def try_then_def
    by (rule triple_andThen [OF checked], rule triple_case_sum, rule unsafe_failed,
        rule after_keep [OF new_stream_keeps], rule triple_andThen [OF collected],
        rule after_keep [OF ended], rule write_whole_triple [OF laws X(1)])
qed

subsection \<open>One file\<close>

definition touched :: "'w job_env \<Rightarrow> string \<Rightarrow> string set" where
  "touched env dp = {dp, temp_path_of env dp, probe_path_of env dp}"

text \<open>
  A destination that can be replaced in one step: the file is there and can be looked up, the
  temporary file can be created beside it and renamed over it.
\<close>

definition replaceable :: "'w view \<Rightarrow> 'w job_env \<Rightarrow> string \<Rightarrow> files \<Rightarrow> bool" where
  "replaceable v env dp D0 =
     (v_supports_write_at (je_dst env) \<and> D0 dp \<noteq> None \<and> rename_works env dp \<and> temp_works env dp \<and>
      (\<nexists>w e w'. in_dst v w = D0 \<and> v_metadata (je_dst env) dp w = (Inl e, w')))"

lemma lookup_triple:
  assumes laws: "session_laws v env"
  shows "triple (with_files v B (\<lambda>S D. S = S0 \<and> D = D0)) (on_world (v_metadata (je_dst env) dp))
     (\<lambda>r. with_files v B (\<lambda>S D. S = S0 \<and> D = D0 \<and> (case r of Inl _ \<Rightarrow> \<not> replaceable v env dp D0 | Inr _ \<Rightarrow> True)))"
proof (rule on_world_triple)
  fix w r w'
  assume P: "in_src v w = S0 \<and> in_dst v w = D0" and w: "v_metadata (je_dst env) dp w = (r, w')"
  have "contents v w' = contents v w \<and> same_streams v w w'"
    using read_parts(2) [OF session_parts(2) [OF laws]] w unfolding reads_def by blast
  moreover have "case r of Inl _ \<Rightarrow> \<not> replaceable v env dp D0 | Inr _ \<Rightarrow> True"
    using P w unfolding replaceable_def by (cases r) auto
  ultimately show "(in_src v w' = S0 \<and> in_dst v w' = D0 \<and>
      (case r of Inl _ \<Rightarrow> \<not> replaceable v env dp D0 | Inr _ \<Rightarrow> True)) \<and> same_streams v w w'"
    using P by (simp add: contents_def)
qed

lemma copy_file_triple:
  assumes laws: "session_laws v env" and src: "S0 sp = Some c" and temp: "temp_path_of env dp \<noteq> dp"
  shows "triple (with_files v any_files (\<lambda>S D. S = S0 \<and> D = D0)) (copy_file env sp dp expected)
     (\<lambda>r. with_files v any_files (copy_post (replaceable v env dp D0) (touched env dp) S0 D0 dp c expected r))"
proof -
  let ?safe = "replaceable v env dp D0" and ?X = "touched env dp"
  let ?post = "\<lambda>r. with_files v any_files (copy_post ?safe ?X S0 D0 dp c expected r)"
  let ?same = "with_files v any_files (\<lambda>S D. S = S0 \<and> D = D0)"
  have X: "dp \<in> ?X" "temp_path_of env dp \<in> ?X" "probe_path_of env dp \<in> ?X" by (simp_all add: touched_def)
  have kept: "triple ?same (ret (Inl e)) ?post" for e
    by (rule files_pre [OF kept_failed]) (simp add: dest_kept_def unchanged_but_def)
  show ?thesis
  proof (cases "v_supports_write_at (je_dst env)")
    case False
    then have "\<not> ?safe" by (simp add: replaceable_def)
    then show ?thesis
      using False copy_file_whole_triple [where ?S0.0 = S0 and dp = dp, OF laws src X(1,3)] by (simp add: copy_file_def)
  next
    case True
    have fresh: "triple (with_files v any_files (\<lambda>S D. S = S0 \<and> D = D0 \<and> \<not> ?safe))
        (stream_verified env (direct sp dp expected)) ?post"
      unfolding conj_assoc [symmetric]
    proof (rule files_assume)
      assume "\<not> ?safe"
      then show "triple ?same (stream_verified env (direct sp dp expected)) ?post"
        using files_pre [OF stream_direct_triple [where ?S0.0 = S0 and ?D0.0 = D0 and expected = expected and dp = dp,
            OF laws src X(1)], of "\<lambda>S D. S = S0 \<and> D = D0"]
        by (simp add: unchanged_but_def)
    qed
    have over: "triple ?same (copy_over env sp dp expected existing) ?post" for existing
      by (rule files_pre, rule copy_over_triple [where ?S0.0 = S0 and safe = ?safe, OF laws src X(1,2) temp])
        (simp_all add: replaceable_def dest_kept_def unchanged_but_def)
    show ?thesis
      unfolding copy_file_def using True
      by (simp only: not_True_eq_False if_False)
        (rule triple_andThen [OF lookup_triple [OF laws]], rule triple_case_sum; simp only: sum.case HOL.simp_thms;
         (rule fresh | intro triple_if kept over))
  qed
qed

text \<open>The files of both sessions in a state of the job, and a job whose next streams are unused.\<close>

definition src_files :: "'w view \<Rightarrow> 'w job \<Rightarrow> files" where
  "src_files v s = in_src v (jb_world s)"

definition dst_files :: "'w view \<Rightarrow> 'w job \<Rightarrow> files" where
  "dst_files v s = in_dst v (jb_world s)"

definition fresh_streams :: "'w view \<Rightarrow> 'w job \<Rightarrow> bool" where
  "fresh_streams v s = (\<forall>n \<ge> jb_streams s. in_stream v (jb_world s) n = {})"

lemma with_filesI: "fresh_streams v s \<Longrightarrow> P (src_files v s) (dst_files v s) \<Longrightarrow> with_files v any_files P s"
  by (auto simp: with_files_def any_files_def fresh_streams_def src_files_def dst_files_def not_less)

lemma copy_file_run:
  assumes "session_laws v env" and "fresh_streams v s" and "src_files v s sp = Some c" and "temp_path_of env dp \<noteq> dp"
    and "copy_file env sp dp expected s = (r, s')"
  shows "copy_post (replaceable v env dp (dst_files v s)) (touched env dp) (src_files v s) (dst_files v s) dp c expected r
      (src_files v s') (dst_files v s')"
proof -
  have "with_files v any_files (\<lambda>S D. S = src_files v s \<and> D = dst_files v s) s"
    by (rule with_filesI [OF assms(2)]) simp
  from tripleD [OF copy_file_triple [where ?S0.0 = "src_files v s", OF assms(1,3,4)] this assms(5)]
  show ?thesis by (simp add: with_files_def src_files_def dst_files_def)
qed

text \<open>
  C17: A file copy that reports success has put exactly the announced number of bytes of the source
  under the destination's name; whatever the result, the source session is unchanged, and so is
  every file of the destination but the destination itself, its temporary file and the probe file.
\<close>

theorem copy_file_writes_source:
  assumes "session_laws v env" and "fresh_streams v s" and "src_files v s sp = Some c"
    and "temp_path_of env dp \<noteq> dp" and "copy_file env sp dp expected s = (r, s')"
  shows "src_files v s' = src_files v s \<and>
     {p. dst_files v s' p \<noteq> dst_files v s p} \<subseteq> touched env dp \<and>
     (case r of Inr _ \<Rightarrow> expected \<le> length c \<and> dst_files v s' dp = Some (take expected c) | Inl _ \<Rightarrow> True)"
  using copy_file_run [OF assms] by (auto simp: copy_post_def split: sum.splits)


end
