(* ===== verification/TransferMove.thy ===== *)
theory TransferMove
  imports TransferFile
begin

section \<open>Moving\<close>

text \<open>
  A move deletes from the source. Up to the calls that do, a job between two sessions leaves the
  files of the source as they are; the calls come after every copy has been verified.
\<close>

subsection \<open>The source is left alone\<close>

definition src_is :: "'w view \<Rightarrow> files \<Rightarrow> 'w job \<Rightarrow> bool" where
  "src_is v S0 s = (src_files v s = S0)"

named_theorems src_rules \<open>actions that leave the source alone\<close>

lemma src_world:
  assumes "\<And>w x w'. m w = (x, w') \<Longrightarrow> in_src v w' = in_src v w"
  shows "keeps (src_is v S0) (on_world m)"
  by (rule keepsI) (auto simp: src_is_def src_files_def on_world_def dest: assms split: prod.splits)

lemma src_reads: "reads v m \<Longrightarrow> keeps (src_is v S0) (on_world m)"
  by (rule src_world) (auto simp: reads_def contents_def)

lemma src_write: "write_law v st p off d m \<Longrightarrow> keeps (src_is v S0) (on_world m)"
  by (rule src_world) (auto simp: write_law_def)

lemma src_finish: "finish_law v n m \<Longrightarrow> keeps (src_is v S0) (on_world m)"
  by (rule src_world) (auto simp: finish_law_def)

lemma src_remove_dst:
  assumes "dst_laws v fs"
  shows "keeps (src_is v S0) (on_world (v_remove_file fs p))"
proof (rule src_world)
  fix w r w'
  assume "v_remove_file fs p w = (r, w')"
  then have "contents v w' = (case r of Inr _ \<Rightarrow> (in_src v w, (in_dst v w)(p := None)) | Inl _ \<Rightarrow> contents v w)"
    using assms unfolding dst_laws_def by blast
  then show "in_src v w' = in_src v w" by (simp add: contents_def split: sum.splits)
qed

text \<open>Every call of either session that the job makes before it deletes.\<close>

lemma src_calls [src_rules]:
  assumes "session_laws v env"
  shows "keeps (src_is v S0) (on_world (v_list_dir (je_src env) p))"
    and "keeps (src_is v S0) (on_world (v_metadata (je_src env) p))"
    and "keeps (src_is v S0) (on_world (v_read_file (je_src env) p))"
    and "keeps (src_is v S0) (on_world (v_read_range_in (je_src env) n p i k))"
    and "keeps (src_is v S0) (on_world (v_exists (je_src env) p))"
    and "keeps (src_is v S0) (on_world (v_finish_stream (je_src env) n))"
    and "keeps (src_is v S0) (on_world (v_abandon_stream (je_src env) n))"
  using session_parts [OF assms] by (simp_all add: src_reads read_parts src_laws_def)

lemma dst_calls [src_rules]:
  assumes "session_laws v env"
  shows "keeps (src_is v S0) (on_world (v_metadata (je_dst env) p))"
    and "keeps (src_is v S0) (on_world (v_exists (je_dst env) p))"
    and "keeps (src_is v S0) (on_world (v_set_permissions (je_dst env) p mode))"
    and "keeps (src_is v S0) (on_world (v_create_dir (je_dst env) p))"
    and "keeps (src_is v S0) (on_world (v_write_file (je_dst env) p d))"
    and "keeps (src_is v S0) (on_world (v_write_at (je_dst env) p i d))"
    and "keeps (src_is v S0) (on_world (v_write_at_in (je_dst env) n p i d))"
    and "keeps (src_is v S0) (on_world (v_finish_stream (je_dst env) n))"
    and "keeps (src_is v S0) (on_world (v_remove_file (je_dst env) p))"
    and "keeps (src_is v S0) (on_world (v_rename (je_dst env) p p'))"
proof -
  note r = read_parts [OF session_parts(2) [OF assms]] and d = session_parts(4) [OF assms]
  have rename: "keeps (src_is v S0) (on_world (v_rename (je_dst env) p p'))"
    by (rule src_world) (use d in \<open>unfold dst_laws_def, blast\<close>)
  note calls = r [THEN src_reads] write_parts(1-3) [OF d, THEN src_write] write_parts(4) [OF d, THEN src_finish]
    src_remove_dst [OF d] rename
  show "keeps (src_is v S0) (on_world (v_metadata (je_dst env) p))"
    and "keeps (src_is v S0) (on_world (v_exists (je_dst env) p))"
    and "keeps (src_is v S0) (on_world (v_set_permissions (je_dst env) p mode))"
    and "keeps (src_is v S0) (on_world (v_create_dir (je_dst env) p))"
    and "keeps (src_is v S0) (on_world (v_write_file (je_dst env) p d))"
    and "keeps (src_is v S0) (on_world (v_write_at (je_dst env) p i d))"
    and "keeps (src_is v S0) (on_world (v_write_at_in (je_dst env) n p i d))"
    and "keeps (src_is v S0) (on_world (v_finish_stream (je_dst env) n))"
    and "keeps (src_is v S0) (on_world (v_remove_file (je_dst env) p))"
    and "keeps (src_is v S0) (on_world (v_rename (je_dst env) p p'))"
    by (rule calls)+
qed

lemma src_modify: "(\<And>s. jb_world (f s) = jb_world s) \<Longrightarrow> keeps (src_is v S0) (modify f)"
  by (rule keepsI) (auto simp: modify_def src_is_def src_files_def)

lemma src_now [src_rules]: "keeps (src_is v S0) now"
  by (rule keepsI) (auto simp: now_def src_is_def src_files_def split: list.splits)

lemma src_new_stream [src_rules]: "keeps (src_is v S0) new_stream"
  by (rule keepsI) (auto simp: new_stream_def src_is_def src_files_def)

lemma src_others [src_rules]: "keeps (src_is v S0) others_act"
  unfolding others_act_def by (rule src_modify) (simp split: list.split)

lemma src_cancelled [src_rules]: "keeps (src_is v S0) (job_cancelled env)"
  unfolding job_cancelled_def by (intro hoare_rules src_rules)

lemma src_set_total [src_rules]: "keeps (src_is v S0) (job_set_total env n)"
  unfolding job_set_total_def by (intro hoare_rules src_rules src_modify) simp

lemma src_progress [src_rules]: "keeps (src_is v S0) (add_progress env n)"
  unfolding add_progress_def by (intro hoare_rules src_rules src_modify) simp_all

lemma src_unprogress [src_rules]: "keeps (src_is v S0) (unprogress n)"
  unfolding unprogress_def by (intro src_modify) simp

lemma src_discard [src_rules]: "session_laws v env \<Longrightarrow> keeps (src_is v S0) (discard_partial env p)"
  unfolding discard_partial_def by (intro hoare_rules src_rules)

lemma src_create_empty [src_rules]: "session_laws v env \<Longrightarrow> keeps (src_is v S0) (create_empty env p)"
  unfolding create_empty_def by (intro hoare_rules src_rules)

lemma src_src_sees [src_rules]: "session_laws v env \<Longrightarrow> keeps (src_is v S0) (src_sees env p)"
  unfolding src_sees_def by (intro hoare_rules src_rules)

lemma src_probe_alias [src_rules]: "session_laws v env \<Longrightarrow> keeps (src_is v S0) (probe_alias env d n)"
  unfolding probe_alias_def Let_def by (intro hoare_rules src_rules)

lemma src_find_alias [src_rules]: "session_laws v env \<Longrightarrow> keeps (src_is v S0) (find_alias env a b t)"
  unfolding find_alias_def Let_def by (intro hoare_rules src_rules src_modify) simp_all

lemma src_check [src_rules]: "session_laws v env \<Longrightarrow> keeps (src_is v S0) (check_not_same_file env sp dp t)"
  unfolding check_not_same_file_def Let_def by (intro hoare_rules src_rules)

lemma src_guard [src_rules]: "session_laws v env \<Longrightarrow> keeps (src_is v S0) (guard_in_place_same_file env sp dp e)"
  unfolding guard_in_place_same_file_def by (intro hoare_rules src_rules)

lemma src_commit [src_rules]:
  "session_laws v env \<Longrightarrow> keeps (src_is v S0) (commit_temp env temp dp)"
  unfolding commit_temp_def by (intro hoare_rules src_rules)

lemma src_read_step [src_rules]: "session_laws v env \<Longrightarrow> keeps (src_is v S0) (read_step env n sp ex off want)"
  unfolding read_step_def by (intro hoare_rules src_rules)

lemma src_chunk_loop [src_rules]:
  assumes laws: "session_laws v env"
  shows "keeps (src_is v S0) (chunk_loop env a rd wr chunk offset wrote)"
proof (induction "sa_expected a - offset" arbitrary: offset wrote chunk rule: less_induct)
  case less
  have "sa_expected a - (offset + length (take (sa_expected a - offset) d)) < sa_expected a - offset"
    if "d \<noteq> []" "\<not> offset \<ge> sa_expected a" for d :: bytes
    using that by (auto simp: neq_Nil_conv)
  then show ?case
    unfolding chunk_loop.simps [of env a rd wr chunk offset wrote] Let_def using laws
    by (intro hoare_rules src_rules less.hyps) 
qed

lemma src_stream_chunks [src_rules]: "session_laws v env \<Longrightarrow> keeps (src_is v S0) (stream_chunks env a rd wr)"
  unfolding stream_chunks_def by (intro hoare_rules src_rules)

lemma src_end_streams [src_rules]: "session_laws v env \<Longrightarrow> keeps (src_is v S0) (end_streams env a rd wr r)"
  unfolding end_streams_def by (intro hoare_rules src_rules)

lemma src_verify_size [src_rules]: "session_laws v env \<Longrightarrow> keeps (src_is v S0) (verify_size env p t n b)"
  unfolding verify_size_def by (intro hoare_rules src_rules)

lemma src_stream_verified [src_rules]: "session_laws v env \<Longrightarrow> keeps (src_is v S0) (stream_verified env a)"
  unfolding stream_verified_def by (intro hoare_rules src_rules)

lemma src_read_loop [src_rules]:
  assumes laws: "session_laws v env"
  shows "keeps (src_is v S0) (read_loop env sp expected rd chunk offset buf)"
proof (induction "expected - offset" arbitrary: offset buf chunk rule: less_induct)
  case less
  have "expected - (offset + length (take (expected - offset) d)) < expected - offset"
    if "d \<noteq> []" "\<not> offset \<ge> expected" for d :: bytes
    using that by (auto simp: neq_Nil_conv)
  then show ?case
    unfolding read_loop.simps [of env sp expected rd chunk offset buf] Let_def using laws
    by (intro hoare_rules src_rules less.hyps)
qed

lemma src_copy_whole [src_rules]: "session_laws v env \<Longrightarrow> keeps (src_is v S0) (copy_file_whole env sp dp n)"
  unfolding copy_file_whole_def read_chunks_def by (intro hoare_rules src_rules)

lemma keeps_case_commit [hoare_rules]:
  "keeps I a \<Longrightarrow> (\<And>x. keeps I (f x)) \<Longrightarrow> (\<And>x. keeps I (g x)) \<Longrightarrow>
   keeps I (case c of C_Done \<Rightarrow> a | C_NotAllowed x \<Rightarrow> f x | C_OldRemoved x \<Rightarrow> g x)"
  by (cases c) auto

lemma keeps_case_copy_error [hoare_rules]:
  "keeps I a \<Longrightarrow> (\<And>m. keeps I (f m)) \<Longrightarrow> keeps I (case e of CE_Cancelled \<Rightarrow> a | CE_Failed m \<Rightarrow> f m)"
  by (cases e) auto

lemma src_replace [src_rules]:
  "session_laws v env \<Longrightarrow> keeps (src_is v S0) (replace_by_temp env sp temp dp n)"
  unfolding replace_by_temp_def by (intro hoare_rules src_rules)

lemma src_permissions [src_rules]: "session_laws v env \<Longrightarrow> keeps (src_is v S0) (keep_permissions env t e)"
  unfolding keep_permissions_def by (intro hoare_rules src_rules)

lemma src_copy_file [src_rules]:
  "session_laws v env \<Longrightarrow> keeps (src_is v S0) (copy_file env sp dp n)"
  unfolding copy_file_def copy_over_def Let_def by (intro hoare_rules src_rules)

subsection \<open>Folders\<close>

lemma src_plan_entry [src_rules]: "session_laws v env \<Longrightarrow> keeps (src_is v S0) (plan_entry env root sd dd k e p)"
  unfolding plan_entry_def Let_def by (intro hoare_rules src_rules)

lemma src_plan_entries [src_rules]: "session_laws v env \<Longrightarrow> keeps (src_is v S0) (plan_entries env root sd dd k es p)"
  by (induction es arbitrary: p) (simp_all add: hoare_rules src_rules)

text \<open>An invariant of the loop over the stack of folders.\<close>

lemma plan_loop_inv:
  assumes cancelled: "\<And>p s b s'. I p s \<Longrightarrow> job_cancelled env s = (b, s') \<Longrightarrow> I p s'"
    and unlisted: "\<And>p s sd dd k rest e s'. I p s \<Longrightarrow> pl_stack p = (sd, dd, k) # rest \<Longrightarrow>
        on_world (v_list_dir (je_src env) sd) s = (Inl e, s') \<Longrightarrow>
        I (p\<lparr>pl_stack := rest, pl_failures := pl_failures p @ [sd @ '': '' @ error_text e]\<rparr>) s'"
    and listed: "\<And>p s sd dd k rest es t p' s'. I p s \<Longrightarrow> pl_stack p = (sd, dd, k) # rest \<Longrightarrow>
        on_world (v_list_dir (je_src env) sd) s = (Inr es, t) \<Longrightarrow>
        plan_entries env root sd dd k es (p\<lparr>pl_stack := rest\<rparr>) t = (p', s') \<Longrightarrow> I p' s'"
  shows "I p s \<Longrightarrow> plan_loop env root p s = (r, s') \<Longrightarrow> (case r of Inr q \<Rightarrow> I q s' | Inl _ \<Rightarrow> \<exists>q. I q s')"
  using cancelled unlisted listed
proof (induction env root p s arbitrary: r s' rule: plan_loop.induct)
  case (1 env root p s)
  note I = "1.prems"(3-5)
  show ?case
  proof (cases "pl_stack p")
    case Nil
    then show ?thesis using "1.prems"(1,2) by (auto simp: plan_loop.simps [of env root p s])
  next
    case (Cons d rest)
    obtain sd dd k where d: "d = (sd, dd, k)" by (cases d)
    note st = Cons [unfolded d]
    obtain b s1 where c: "job_cancelled env s = (b, s1)" by fastforce
    note I1 = I(1) [OF "1.prems"(1) c]
    obtain l s2 where l: "on_world (v_list_dir (je_src env) sd) s1 = (l, s2)" by fastforce
    consider (stop) b | (bad) e where "\<not> b" "l = Inl e" | (good) es where "\<not> b" "l = Inr es"
      by (cases b; cases l) auto
    then show ?thesis
    proof cases
      case stop
      then show ?thesis using "1.prems"(2) st c I1 by (auto simp: plan_loop.simps [of env root p s])
    next
      case (bad e)
      note I2 = I(2) [OF I1 st l [unfolded bad(2)]]
      show ?thesis
      proof (cases "k = 0")
        case True
        then show ?thesis using "1.prems"(2) st c l bad I2 by (auto simp: plan_loop.simps [of env root p s])
      next
        case False
        have run: "plan_loop env root (p\<lparr>pl_stack := rest, pl_failures := pl_failures p @ [sd @ '': '' @ error_text e]\<rparr>) s2 = (r, s')"
          using "1.prems"(2) st c l bad False by (simp add: plan_loop.simps [of env root p s])
        show ?thesis
          by (rule "1.IH"(1) [OF st refl refl c [symmetric] _ l [symmetric] bad(2) False I2 run I])
            (use bad in simp)
      qed
    next
      case (good es)
      obtain p' s3 where e: "plan_entries env root sd dd k es (p\<lparr>pl_stack := rest\<rparr>) s2 = (p', s3)" by fastforce
      note I3 = I(3) [OF I1 st l [unfolded good(2)] e]
      have run: "plan_loop env root p' s3 = (r, s')"
        using "1.prems"(2) st c l good e by (simp add: plan_loop.simps [of env root p s])
      show ?thesis
        by (rule "1.IH"(2) [OF st refl refl c [symmetric] _ l [symmetric] good(2) e [symmetric] I3 run I])
          (use good in simp)
    qed
  qed
qed

lemma src_plan_loop [src_rules]:
  assumes laws: "session_laws v env"
  shows "keeps (src_is v S0) (plan_loop env root p)"
proof (rule keepsI)
  fix s r s'
  assume pre: "src_is v S0 s" and run: "plan_loop env root p s = (r, s')"
  have "case r of Inr q \<Rightarrow> src_is v S0 s' | Inl _ \<Rightarrow> \<exists>q :: plan. src_is v S0 s'"
  proof (rule plan_loop_inv [where I = "\<lambda>_. src_is v S0", OF _ _ _ pre run])
    show "src_is v S0 s'" if "src_is v S0 s" "job_cancelled env s = (b, s')" for s b s'
      by (rule keepsD [OF src_cancelled that])
    show "src_is v S0 s'" if "src_is v S0 s" "on_world (v_list_dir (je_src env) sd) s = (Inl e, s')" for s sd e s'
      by (rule keepsD [OF src_calls(1) [OF laws] that])
    show "src_is v S0 s'" if "src_is v S0 s" "on_world (v_list_dir (je_src env) sd) s = (Inr es, t)"
      "plan_entries env root sd dd k es (p\<lparr>pl_stack := rest\<rparr>) t = (p', s')" for p p' s sd dd k rest es t s'
      by (rule keepsD [OF src_plan_entries [OF laws] keepsD [OF src_calls(1) [OF laws] that(1,2)] that(3)])
  qed
  then show "src_is v S0 s'" by (simp split: sum.splits)
qed

lemma src_create_dirs [src_rules]: "session_laws v env \<Longrightarrow> keeps (src_is v S0) (create_dirs env first ds fs)"
  by (induction ds arbitrary: first fs) (auto intro!: hoare_rules src_rules)

lemma src_case_insensitive [src_rules]: "session_laws v env \<Longrightarrow> keeps (src_is v S0) (dest_case_insensitive env d)"
  unfolding dest_case_insensitive_def Let_def by (intro hoare_rules src_rules)

lemma src_refuse [src_rules]: "session_laws v env \<Longrightarrow> keeps (src_is v S0) (refuse_collisions env d p)"
  unfolding refuse_collisions_def Let_def by (intro hoare_rules src_rules)

lemma src_copy_files [src_rules]: "session_laws v env \<Longrightarrow> keeps (src_is v S0) (copy_files env fs c e)"
  by (induction fs arbitrary: c e) (auto intro!: hoare_rules src_rules)

subsection \<open>What a job leaves of its source\<close>

definition kept_unless_moved :: "bool \<Rightarrow> 'w view \<Rightarrow> files \<Rightarrow> outcome \<Rightarrow> 'w job \<Rightarrow> bool" where
  "kept_unless_moved is_move v S0 out s = (src_is v S0 s \<or> is_move \<and> (\<exists>note. out = O_Completed note))"

lemma kept_ret: "triple (src_is v S0) (ret out) (kept_unless_moved is_move v S0)"
  by (rule triple_retI) (simp add: kept_unless_moved_def)

lemma moved_ret: "is_move \<Longrightarrow> triple P (ret (O_Completed n)) (kept_unless_moved is_move v S0)"
  by (rule triple_retI) (simp add: kept_unless_moved_def)

lemma triple_any: "triple P m (\<lambda>_ _. True)"
  by (rule tripleI) simp

lemma finish_dir_source:
  assumes "session_laws v env"
  shows "triple (src_is v S0) (finish_dir env sr is_move root_is_link p copied failures) (kept_unless_moved is_move v S0)"
  unfolding finish_dir_def
  by (intro triple_if kept_ret after_keep [OF src_cancelled] triple_andThen [OF triple_any moved_ret]) simp

lemma triple_case_prod: "(\<And>a b. x = (a, b) \<Longrightarrow> triple P (f a b) Q) \<Longrightarrow> triple P (case x of (a, b) \<Rightarrow> f a b) Q"
  by (cases x) simp

lemma triple_case_option:
  "(x = None \<Longrightarrow> triple P m Q) \<Longrightarrow> (\<And>y. x = Some y \<Longrightarrow> triple P (f y) Q) \<Longrightarrow>
   triple P (case x of None \<Rightarrow> m | Some y \<Rightarrow> f y) Q"
  by (cases x) simp_all

lemma triple_case_copy_error:
  "triple P m Q \<Longrightarrow> (\<And>t. triple P (f t) Q) \<Longrightarrow> triple P (case e of CE_Cancelled \<Rightarrow> m | CE_Failed t \<Rightarrow> f t) Q"
  by (cases e) simp_all

lemma transfer_dir_source:
  assumes laws: "session_laws v env"
  shows "triple (src_is v S0) (transfer_dir env sr dr is_move root_is_link) (kept_unless_moved is_move v S0)"
  unfolding transfer_dir_def
  by (intro after_keep [OF src_plan_loop [OF laws]] triple_case_sum kept_ret after_keep [OF src_create_dirs [OF laws]]
      after_keep [OF src_refuse [OF laws]] after_keep [OF src_set_total] after_keep [OF src_copy_files [OF laws]]
      triple_case_prod finish_dir_source [OF laws])

lemma transfer_file_source:
  assumes laws: "session_laws v env"
  shows "triple (src_is v S0) (transfer_file env sp dp sz is_move) (kept_unless_moved is_move v S0)"
proof -
  have gone: "triple (src_is v S0) (on_world (v_remove_file (je_src env) p))
      (\<lambda>d. case d of Inl _ \<Rightarrow> src_is v S0 | Inr _ \<Rightarrow> \<lambda>_. True)" for p
  proof (rule tripleI)
    fix s r s'
    assume pre: "src_is v S0 s" and run: "on_world (v_remove_file (je_src env) p) s = (r, s')"
    obtain w' where w: "v_remove_file (je_src env) p (jb_world s) = (r, w')" and s': "s' = s\<lparr>jb_world := w'\<rparr>"
      using run by (auto simp: on_world_def split: prod.splits)
    have "contents v w' = (case r of Inr _ \<Rightarrow> ((in_src v (jb_world s))(p := None), in_dst v (jb_world s))
        | Inl _ \<Rightarrow> contents v (jb_world s))"
      using session_parts(3) [OF laws] w unfolding src_laws_def by blast
    then show "(case r of Inl _ \<Rightarrow> src_is v S0 | Inr _ \<Rightarrow> \<lambda>_. True) s'"
      using pre unfolding s' by (simp add: src_is_def src_files_def contents_def split: sum.splits)
  qed
  have last: "triple (case d of Inl _ \<Rightarrow> src_is v S0 | Inr _ \<Rightarrow> \<lambda>_. True)
      (ret (case d of Inl e \<Rightarrow> O_Failed (msg e) | Inr _ \<Rightarrow> O_Completed None)) (kept_unless_moved is_move v S0)"
    if "\<not> \<not> is_move" for d :: "unit core_result" and msg
    by (rule triple_retI) (use that in \<open>auto simp: kept_unless_moved_def split: sum.splits\<close>)
  have sized: "keeps (src_is v S0) (dest_has_size env dp sz)"
    unfolding dest_has_size_def using laws by (intro hoare_rules src_rules)
  show ?thesis
    unfolding transfer_file_def
    by (intro after_keep [OF src_set_total] after_keep [OF src_copy_file [OF laws]] triple_case_sum
        triple_case_copy_error triple_if kept_ret after_keep [OF src_cancelled] after_keep [OF sized]
        triple_andThen [OF gone] last)
qed

text \<open>A job between two sessions: nothing is run on a server.\<close>

lemma src_is_link: "session_laws v env \<Longrightarrow> keeps (src_is v S0) (is_link env p)"
  unfolding is_link_def Let_def by (intro hoare_rules src_rules)

lemma keeps_link_check:
  "session_laws v env \<Longrightarrow> keeps (src_is v S0) (if b then is_link env p else ret False)"
  by (intro keeps_if keeps_ret src_is_link)

lemma run_streaming_source:
  assumes laws: "session_laws v env"
  shows "triple (src_is v S0) (run_streaming env meta sp dp is_move) (kept_unless_moved is_move v S0)"
proof -
  have dir: "triple (src_is v S0) (andThen (if is_move \<and> v_protocol (je_src env) \<noteq> S3 then is_link env sp else ret False)
      (transfer_dir env sp dp is_move)) (kept_unless_moved is_move v S0)"
    by (rule after_keep [OF keeps_link_check [OF laws] transfer_dir_source [OF laws]])
  show ?thesis
    unfolding run_streaming_def
    by (intro triple_case_option triple_if kept_ret dir transfer_file_source [OF laws])
qed

lemma run_found_source:
  assumes laws: "session_laws v env" and two: "\<not> je_same_session env"
  shows "triple (src_is v S0) (run_found env meta sp dp is_move) (kept_unless_moved is_move v S0)"
proof -
  have stream: "triple (src_is v S0) (andThen (ret None)
      (\<lambda>r. case r of Some out \<Rightarrow> ret out | None \<Rightarrow> run_streaming env meta sp dp is_move)) (kept_unless_moved is_move v S0)"
    by (simp add: andThen_def ret_def run_streaming_source [OF laws])
  show ?thesis
    unfolding run_found_def Let_def using two stream by (auto intro!: triple_if kept_ret split: prod.split)
qed

lemma job_run_source:
  assumes laws: "session_laws v env" and two: "\<not> je_same_session env"
  shows "triple (src_is v S0) (job_run env sp dp is_move) (kept_unless_moved is_move v S0)"
  unfolding job_run_def
  by (intro after_keep [OF src_calls(2) [OF laws]] triple_case_sum after_keep [OF src_calls(1) [OF laws]]
      run_found_source [OF laws two] kept_ret)

text \<open>
  C19: A transfer between two sessions that is not a completed move leaves every file of the source
  as it was: a copy always, and a move of a file or of a whole folder whenever it fails, is
  refused or is cancelled, at whatever point.
\<close>

theorem source_kept_unless_moved:
  assumes "session_laws v env" and "\<not> je_same_session env" and "job_run env sp dp is_move s = (out, s')"
  shows "if is_move then (case out of O_Completed _ \<Rightarrow> True | _ \<Rightarrow> src_files v s' = src_files v s)
     else src_files v s' = src_files v s"
  using tripleD [OF job_run_source [OF assms(1,2)] _ assms(3), of "src_files v s"]
  by (auto simp: src_is_def kept_unless_moved_def split: outcome.split)

subsection \<open>What a completed transfer has done\<close>

definition file_done :: "bool \<Rightarrow> files \<Rightarrow> files \<Rightarrow> string \<Rightarrow> string \<Rightarrow> bytes \<Rightarrow> nat \<Rightarrow> outcome \<Rightarrow> files \<Rightarrow> files \<Rightarrow> bool" where
  "file_done is_move S0 D0 sp dp c sz out S D =
     (case out of
        O_Completed _ \<Rightarrow> sz \<le> length c \<and> D dp = Some (take sz c) \<and> S = (if is_move then S0(sp := None) else S0)
      | _ \<Rightarrow> S = S0)"

lemma remove_src_triple:
  assumes laws: "session_laws v env"
    and "\<And>S D. P S D \<Longrightarrow> Q (Inr ()) (S(p := None)) D" and "\<And>e S D. P S D \<Longrightarrow> Q (Inl e) S D"
  shows "triple (with_files v B P) (on_world (v_remove_file (je_src env) p)) (\<lambda>r. with_files v B (Q r))"
proof (rule on_world_triple)
  fix w r w'
  assume P: "P (in_src v w) (in_dst v w)" and w: "v_remove_file (je_src env) p w = (r, w')"
  have "same_streams v w w' \<and> contents v w' =
      (case r of Inr _ \<Rightarrow> ((in_src v w)(p := None), in_dst v w) | Inl _ \<Rightarrow> contents v w)"
    using session_parts(3) [OF laws] w unfolding src_laws_def by blast
  then show "Q r (in_src v w') (in_dst v w') \<and> same_streams v w w'"
    using assms(2,3) [OF P] by (cases r) (auto simp: contents_def)
qed

lemma transfer_file_triple:
  assumes laws: "session_laws v env" and src: "S0 sp = Some c" and temp: "temp_path_of env dp \<noteq> dp"
  shows "triple (with_files v any_files (\<lambda>S D. S = S0 \<and> D = D0)) (transfer_file env sp dp sz is_move)
     (\<lambda>out. with_files v any_files (file_done is_move S0 D0 sp dp c sz out))"
proof -
  let ?post = "\<lambda>out. with_files v any_files (file_done is_move S0 D0 sp dp c sz out)"
  let ?copied = "\<lambda>r. copy_post (replaceable v env dp D0) (touched env dp) S0 D0 dp c sz r"
  have other: "triple (with_files v any_files (?copied r)) (ret out) ?post" if "\<And>n. out \<noteq> O_Completed n" for r out
    by (rule files_retI) (use that in \<open>simp add: file_done_def copy_post_def split: outcome.split\<close>)
  have copied: "triple (with_files v any_files (?copied (Inr u))) (ret (O_Completed None)) ?post" if "\<not> is_move" for u
    by (rule files_retI) (use that in \<open>simp add: file_done_def copy_post_def\<close>)
  have gone: "triple (with_files v any_files (?copied (Inr u))) (on_world (v_remove_file (je_src env) sp))
      (\<lambda>d. with_files v any_files (\<lambda>S D. case d of Inl _ \<Rightarrow> S = S0 | Inr _ \<Rightarrow> file_done True S0 D0 sp dp c sz (O_Completed None) S D))" for u
    by (rule remove_src_triple [OF laws]) (auto simp: file_done_def copy_post_def)
  have last: "triple (with_files v any_files (\<lambda>S D. case d of Inl _ \<Rightarrow> S = S0
        | Inr _ \<Rightarrow> file_done True S0 D0 sp dp c sz (O_Completed None) S D))
      (ret (case d of Inl e \<Rightarrow> O_Failed (msg e) | Inr _ \<Rightarrow> O_Completed None)) ?post"
    if "\<not> \<not> is_move" for d :: "unit core_result" and msg
    by (rule files_retI) (use that in \<open>auto simp: file_done_def split: sum.splits\<close>)
  have sized: "keeps (with_files v any_files P) (dest_has_size env dp sz)" for P
    unfolding dest_has_size_def by (intro hoare_rules read_parts session_parts [OF laws])
  have deleted: "triple (with_files v any_files (?copied (Inr u)))
      (andThen (on_world (v_remove_file (je_src env) sp))
        (\<lambda>d. ret (case d of Inl e \<Rightarrow> O_Failed (msg e) | Inr _ \<Rightarrow> O_Completed None))) ?post"
    if "\<not> \<not> is_move" for u msg
    by (rule triple_andThen [OF gone last [OF that]])
  have cancelled: "triple (with_files v any_files (?copied r)) (ret O_Cancelled) ?post" for r by (rule other) simp
  have failed: "triple (with_files v any_files (?copied r)) (ret (O_Failed m)) ?post" for r m by (rule other) simp
  show ?thesis
    unfolding transfer_file_def
    by (intro after_keep [OF keeps_set_total] triple_andThen [OF copy_file_triple [where ?S0.0 = S0, OF laws src temp]]
        triple_case_sum triple_case_copy_error triple_if after_keep [OF keeps_cancelled] after_keep [OF sized]
        cancelled failed; hypsubst; rule copied deleted)
qed

text \<open>
  A file transfer that reports completion has put the announced content under the
  destination's name, and a move has then deleted the source file and no other; with every other
  result the source session is unchanged. A move never deletes a file it has not copied.
\<close>

theorem completed_file_transfer:
  assumes "session_laws v env" and "fresh_streams v s" and "src_files v s sp = Some c"
    and "temp_path_of env dp \<noteq> dp" and "transfer_file env sp dp sz is_move s = (out, s')"
  shows "case out of
      O_Completed _ \<Rightarrow> sz \<le> length c \<and> dst_files v s' dp = Some (take sz c) \<and>
        src_files v s' = (if is_move then (src_files v s)(sp := None) else src_files v s)
    | _ \<Rightarrow> src_files v s' = src_files v s"
proof -
  have "with_files v any_files (\<lambda>S D. S = src_files v s \<and> D = dst_files v s) s"
    by (rule with_filesI [OF assms(2)]) simp
  note end_state = tripleD [OF transfer_file_triple [where ?S0.0 = "src_files v s", OF assms(1,3,4)] this assms(5)]
  from with_filesD [OF end_state]
  show ?thesis unfolding src_files_def dst_files_def file_done_def .
qed

subsection \<open>Folders: only what has been copied is deleted\<close>

type_synonym planned = "(string \<times> string \<times> nat) list"

definition planned_files :: "'w job_env \<Rightarrow> string \<Rightarrow> string \<Rightarrow> 'w job \<Rightarrow> planned" where
  "planned_files env sr dr s =
     (case plan_loop env dr (start_plan sr dr) s of (Inr p, _) \<Rightarrow> pl_files p | (Inl _, _) \<Rightarrow> [])"

text \<open>No file is written where another one's destination, temporary file or probe file is.\<close>

fun independent :: "'w job_env \<Rightarrow> planned \<Rightarrow> bool" where
  "independent env [] = True"
| "independent env ((_, dp, _) # fs) =
     (temp_path_of env dp \<noteq> dp \<and> list_all (\<lambda>(_, dp', _). dp \<notin> touched env dp') fs \<and> independent env fs)"

definition copies :: "planned \<Rightarrow> files \<Rightarrow> files \<Rightarrow> string set" where
  "copies fs S0 D = {sp. \<exists>dp sz c. (sp, dp, sz) \<in> set fs \<and> S0 sp = Some c \<and> D dp = Some (take sz c)}"

lemma copies_append: "copies (fs @ gs) S0 D = copies fs S0 D \<union> copies gs S0 D"
  by (auto simp: copies_def)

lemma copies_frame:
  assumes "\<And>p. p \<notin> X \<Longrightarrow> D' p = D p" and "list_all (\<lambda>(_, dp, _). dp \<notin> X) fs"
  shows "copies fs S0 D' = copies fs S0 D"
proof -
  have "D' dp = D dp" if "(sp, dp, sz) \<in> set fs" for sp dp sz
    using that assms by (auto simp: list_all_iff)
  then show ?thesis unfolding copies_def by (intro Collect_cong) metis
qed

definition copied_ok :: "planned \<Rightarrow> files \<Rightarrow> string list \<Rightarrow> files \<Rightarrow> files \<Rightarrow> bool" where
  "copied_ok before S0 copied S D = (S = S0 \<and> set copied \<subseteq> copies before S0 D)"

lemma copy_one_triple:
  assumes laws: "session_laws v env" and src: "S0 sp = Some c" and temp: "temp_path_of env dp \<noteq> dp"
    and free: "list_all (\<lambda>(_, dp', _). dp' \<notin> touched env dp) before"
  shows "triple (with_files v any_files (copied_ok before S0 copied)) (copy_file env sp dp sz)
     (\<lambda>r. with_files v any_files (copied_ok (before @ [(sp, dp, sz)]) S0
        (case r of Inr _ \<Rightarrow> copied @ [sp] | Inl _ \<Rightarrow> copied)))"
proof -
  have eq: "copied_ok before S0 copied = (\<lambda>S D. S = S0 \<and> copied_ok before S0 copied S D)"
    by (auto simp: copied_ok_def fun_eq_iff)
  have "triple (with_files v any_files (copied_ok before S0 copied)) (copy_file env sp dp sz)
     (\<lambda>r. with_files v any_files (\<lambda>S D. \<exists>D1. copied_ok before S0 copied S0 D1 \<and>
        copy_post (replaceable v env dp D1) (touched env dp) S0 D1 dp c sz r S D))"
    by (subst eq, rule files_each) (rule copy_file_triple [where ?S0.0 = S0, OF laws src temp])
  then show ?thesis
  proof (rule files_post, elim exE conjE)
    fix r S D D1
    assume ok: "copied_ok before S0 copied S0 D1"
      and post: "copy_post (replaceable v env dp D1) (touched env dp) S0 D1 dp c sz r S D"
    have "copies before S0 D = copies before S0 D1"
      by (rule copies_frame [OF _ free]) (use post in \<open>simp add: copy_post_def\<close>)
    then have old: "S = S0" "set copied \<subseteq> copies before S0 D" using ok post by (auto simp: copied_ok_def copy_post_def)
    have "sp \<in> copies [(sp, dp, sz)] S0 D" if "r = Inr u" for u
      using that post src by (simp add: copies_def copy_post_def)
    then show "copied_ok (before @ [(sp, dp, sz)]) S0 (case r of Inr _ \<Rightarrow> copied @ [sp] | Inl _ \<Rightarrow> copied) S D"
      using old by (auto simp: copied_ok_def copies_append split: sum.split)
  qed
qed

lemma copy_files_triple:
  assumes laws: "session_laws v env"
  shows "fst ` set fs \<subseteq> dom S0 \<Longrightarrow> independent env fs \<Longrightarrow>
     list_all (\<lambda>(_, dp, _). list_all (\<lambda>(_, dp', _). dp \<notin> touched env dp') fs) before \<Longrightarrow>
     triple (with_files v any_files (copied_ok before S0 copied)) (copy_files env fs copied failures)
       (\<lambda>r. with_files v any_files (\<lambda>S D. case r of Inl _ \<Rightarrow> S = S0
          | Inr (copied', _) \<Rightarrow> copied_ok (before @ fs) S0 copied' S D))"
proof (induction fs arbitrary: before copied failures)
  case Nil
  show ?case by (simp, rule files_retI) simp
next
  case (Cons f fs)
  obtain sp dp sz where f: "f = (sp, dp, sz)" by (cases f)
  obtain c where c: "S0 sp = Some c" using Cons.prems(1) f by auto
  have temp: "temp_path_of env dp \<noteq> dp" and ind: "independent env fs" and dom: "fst ` set fs \<subseteq> dom S0"
    and here: "list_all (\<lambda>(_, dp', _). dp \<notin> touched env dp') fs"
    using Cons.prems f by auto
  have free: "list_all (\<lambda>(_, dp', _). dp' \<notin> touched env dp) before"
    and rest: "list_all (\<lambda>(_, dp, _). list_all (\<lambda>(_, dp', _). dp \<notin> touched env dp') fs) (before @ [(sp, dp, sz)])"
    using Cons.prems(3) here f by (auto simp: list_all_iff)
  let ?post = "\<lambda>r. with_files v any_files (\<lambda>S D. case r of Inl _ \<Rightarrow> S = S0
          | Inr (copied', _) \<Rightarrow> copied_ok (before @ f # fs) S0 copied' S D)"
  have go: "triple (with_files v any_files (copied_ok (before @ [(sp, dp, sz)]) S0 copied'))
      (copy_files env fs copied' failures') ?post" for copied' failures'
    using Cons.IH [OF dom ind rest, of copied' failures'] by (simp only: f append_assoc append_Cons append_Nil)
  have stop: "triple (with_files v any_files (copied_ok done' S0 copied')) (ret (Inl out)) ?post" for done' copied' out
    by (rule files_retI) (simp add: copied_ok_def)
  show ?case
    unfolding f copy_files.simps
    apply (rule triple_andThen [OF copy_one_triple [where ?S0.0 = S0, OF laws c temp free]])
    apply (rule triple_case_sum; hypsubst; simp only: sum.case)
     apply (rule triple_case_copy_error)
      apply (rule stop [unfolded f])
     apply (rule go [unfolded f])
    apply (rule go [unfolded f])
    done
qed

text \<open>What has been deleted from the source, and what a folder job may delete.\<close>

definition only_deleted :: "planned \<Rightarrow> string set \<Rightarrow> files \<Rightarrow> files \<Rightarrow> files \<Rightarrow> bool" where
  "only_deleted fs X S0 S D = ({p. S p \<noteq> S0 p} \<subseteq> copies fs S0 D \<union> X)"

lemma remove_one_triple:
  assumes "session_laws v env" and "set ps \<subseteq> C" and "p \<in> set ps"
  shows "triple (with_files v B (\<lambda>S D. P D \<and> {q. S q \<noteq> S0 q} \<subseteq> C)) (on_world (v_remove_file (je_src env) p))
     (\<lambda>r. with_files v B (\<lambda>S D. P D \<and> {q. S q \<noteq> S0 q} \<subseteq> C))"
  by (rule remove_src_triple [OF assms(1)]) (use assms(2,3) in auto)

lemma remove_files_keeps:
  assumes "session_laws v env"
  shows "set ps \<subseteq> C \<Longrightarrow> keeps (with_files v B (\<lambda>S D. P D \<and> {q. S q \<noteq> S0 q} \<subseteq> C)) (remove_files env ps n)"
proof (induction ps arbitrary: n)
  case (Cons p ps)
  have "keeps (with_files v B (\<lambda>S D. P D \<and> {q. S q \<noteq> S0 q} \<subseteq> C)) (on_world (v_remove_file (je_src env) p))"
    unfolding keeps_def by (rule remove_one_triple [OF assms Cons.prems]) simp
  then show ?case using Cons by (simp add: keeps_andThen)
qed (simp add: keeps_ret)

lemma remove_dirs_keeps: "session_laws v env \<Longrightarrow> keeps (with_files v B P) (remove_dirs env ds n)"
proof (induction ds arbitrary: n)
  case (Cons d ds)
  then show ?case
    by (cases d) (auto intro!: keeps_andThen reads_keeps read_parts(9) session_parts(1))
qed (simp add: keeps_ret)

lemma remove_sources_keeps:
  assumes "session_laws v env" and "set copied \<subseteq> C"
    and "root_is_link \<Longrightarrow> trim_end_matches is_sep sr \<in> C"
  shows "keeps (with_files v B (\<lambda>S D. P D \<and> {q. S q \<noteq> S0 q} \<subseteq> C)) (remove_sources env sr root_is_link p copied)"
proof -
  have link: "keeps (with_files v B (\<lambda>S D. P D \<and> {q. S q \<noteq> S0 q} \<subseteq> C))
      (on_world (v_remove_file (je_src env) (trim_end_matches is_sep sr)))" if root_is_link
    unfolding keeps_def
    by (rule remove_one_triple [where ps = "[trim_end_matches is_sep sr]", OF assms(1)]) (use assms(3) [OF that] in simp_all)
  show ?thesis
    unfolding remove_sources_def Let_def
    by (intro keeps_if keeps_andThen keeps_ret link remove_files_keeps [OF assms(1,2)] remove_dirs_keeps [OF assms(1)])
qed

definition link_of :: "bool \<Rightarrow> string \<Rightarrow> string set" where
  "link_of root_is_link sr = (if root_is_link then {trim_end_matches is_sep sr} else {})"

lemma finish_dir_triple:
  assumes laws: "session_laws v env"
  shows "triple (with_files v any_files (copied_ok fs S0 copied))
     (finish_dir env sr is_move root_is_link p copied failures)
     (\<lambda>_. with_files v any_files (only_deleted fs (link_of root_is_link sr) S0))"
proof -
  let ?X = "link_of root_is_link sr"
  have none: "triple (with_files v any_files (copied_ok fs S0 copied)) (ret out)
     (\<lambda>_. with_files v any_files (only_deleted fs ?X S0))" for out
    by (rule files_retI) (simp add: copied_ok_def only_deleted_def)
  have remove: "triple (with_files v any_files (copied_ok fs S0 copied)) (remove_sources env sr root_is_link p copied)
     (\<lambda>_. with_files v any_files (only_deleted fs ?X S0))"
  proof (rule tripleI)
    fix s r s'
    assume pre: "with_files v any_files (copied_ok fs S0 copied) s"
      and run: "remove_sources env sr root_is_link p copied s = (r, s')"
    let ?D = "in_dst v (jb_world s)"
    have ok: "copied_ok fs S0 copied (in_src v (jb_world s)) ?D" by (rule with_filesD [OF pre])
    let ?I = "with_files v any_files (\<lambda>S D. D = ?D \<and> {q. S q \<noteq> S0 q} \<subseteq> copies fs S0 ?D \<union> ?X)"
    have "?I s" using pre ok by (simp add: with_files_def copied_ok_def)
    moreover have "keeps ?I (remove_sources env sr root_is_link p copied)"
      by (rule remove_sources_keeps [OF laws]) (use ok in \<open>auto simp: copied_ok_def link_of_def\<close>)
    ultimately have "?I s'" using run by (blast dest: keepsD)
    then show "with_files v any_files (only_deleted fs ?X S0) s'" by (simp add: with_files_def only_deleted_def)
  qed
  have ret: "triple (with_files v any_files (only_deleted fs ?X S0)) (ret out)
     (\<lambda>_. with_files v any_files (only_deleted fs ?X S0))" for out
    by (rule triple_ret)
  show ?thesis
    unfolding finish_dir_def
    by (intro triple_if none after_keep [OF keeps_cancelled] triple_andThen [OF remove ret])
qed

subsection \<open>A folder move\<close>

lemma copies_mono: "set gs \<subseteq> set fs \<Longrightarrow> copies gs S0 D \<subseteq> copies fs S0 D"
  by (auto simp: copies_def)

lemma only_deleted_mono: "set gs \<subseteq> set fs \<Longrightarrow> only_deleted gs X S0 S D \<Longrightarrow> only_deleted fs X S0 S D"
  unfolding only_deleted_def using copies_mono [of gs fs S0 D] by blast

lemma independent_subseq: "subseq gs fs \<Longrightarrow> independent env fs \<Longrightarrow> independent env gs"
proof (induction rule: list_emb.induct)
  case (list_emb_Cons xs ys y)
  then show ?case by (cases y) simp
next
  case (list_emb_Cons2 x y xs ys)
  then show ?case
    by (cases y) (auto simp: list_all_iff dest: list_emb_set)
qed simp

lemma drop_colliding_subseq:
  assumes "length flags = length (pl_files p)"
  shows "subseq (pl_files (drop_colliding flags p)) (pl_files p)"
proof -
  have "subseq (filter (\<lambda>(_, b). \<not> b) (zip (pl_files p) flags)) (zip (pl_files p) flags)" by (rule subseq_filter_left)
  from subseq_map [OF this, of fst] assms show ?thesis by (simp add: drop_colliding_def Let_def)
qed

lemma length_collision_loop: "length (collision_loop win fs seen) = length fs"
  by (induction win fs seen rule: collision_loop.induct) (auto simp: Let_def split: option.splits)

lemma keeps_src_only_create:
  assumes "session_laws v env"
  shows "keeps (with_files v any_files (\<lambda>S D. S = S0)) (create_empty env p)"
proof -
  have "keeps (with_files v any_files (\<lambda>S D. S = S0)) (on_world m)" if "write_law v None p 0 [] m" for m
    unfolding keeps_def by (rule write_triple [OF that]) auto
  then show ?thesis using write_parts [OF session_parts(4) [OF assms]] by (simp add: create_empty_def)
qed

lemma keeps_src_only_discard:
  "session_laws v env \<Longrightarrow> keeps (with_files v any_files (\<lambda>S D. S = S0)) (discard_partial env p)"
  unfolding keeps_def by (erule discard_triple) auto

lemma refuse_collisions_triple:
  assumes laws: "session_laws v env"
  shows "triple (with_files v any_files (\<lambda>S D. S = S0)) (refuse_collisions env dr p)
     (\<lambda>p'. with_files v any_files (\<lambda>S D. S = S0 \<and> subseq (pl_files p') (pl_files p)))"
proof -
  have probe: "keeps (with_files v any_files (\<lambda>S D. S = S0)) (dest_case_insensitive env dr)"
    unfolding dest_case_insensitive_def Let_def
    by (intro hoare_rules keeps_src_only_create [OF laws] keeps_src_only_discard [OF laws] read_parts session_parts [OF laws])
  have dropped: "subseq (pl_files (drop_colliding (colliding win p) p)) (pl_files p)" for win
    by (rule drop_colliding_subseq) (simp add: colliding_def length_collision_loop)
  have same: "triple (with_files v any_files (\<lambda>S D. S = S0)) (ret p)
     (\<lambda>p'. with_files v any_files (\<lambda>S D. S = S0 \<and> subseq (pl_files p') (pl_files p)))"
    by (rule files_retI) simp
  have dropped': "triple (with_files v any_files (\<lambda>S D. S = S0)) (ret (drop_colliding (colliding win p) p))
     (\<lambda>p'. with_files v any_files (\<lambda>S D. S = S0 \<and> subseq (pl_files p') (pl_files p)))" for win
    by (rule files_retI) (simp add: dropped)
  show ?thesis
    unfolding refuse_collisions_def Let_def by (intro triple_if same dropped' after_keep [OF probe])
qed

lemma keeps_plan_entry: "session_laws v env \<Longrightarrow> keeps (with_files v B P) (plan_entry env root sd dd k e p)"
  unfolding plan_entry_def Let_def by (intro hoare_rules read_parts session_parts)

lemma keeps_plan_entries: "session_laws v env \<Longrightarrow> keeps (with_files v B P) (plan_entries env root sd dd k es p)"
  by (induction es arbitrary: p) (simp_all add: hoare_rules keeps_plan_entry)

lemma keeps_list_src: "session_laws v env \<Longrightarrow> keeps (with_files v B P) (on_world (v_list_dir (je_src env) sd))"
  by (intro reads_keeps read_parts session_parts)

lemma keeps_plan_loop:
  assumes laws: "session_laws v env"
  shows "keeps (with_files v B P) (plan_loop env root p)"
proof (rule keepsI)
  fix s r s'
  assume pre: "with_files v B P s" and run: "plan_loop env root p s = (r, s')"
  have "case r of Inr q \<Rightarrow> with_files v B P s' | Inl _ \<Rightarrow> \<exists>q :: plan. with_files v B P s'"
  proof (rule plan_loop_inv [where I = "\<lambda>_. with_files v B P", OF _ _ _ pre run])
    show "with_files v B P s'" if "with_files v B P s" "job_cancelled env s = (b, s')" for s b s'
      by (rule keepsD [OF keeps_cancelled that])
    show "with_files v B P s'" if "with_files v B P s" "on_world (v_list_dir (je_src env) sd) s = (Inl e, s')" for s sd e s'
      by (rule keepsD [OF keeps_list_src [OF laws] that])
    show "with_files v B P s'" if "with_files v B P s" "on_world (v_list_dir (je_src env) sd) s = (Inr es, t)"
      "plan_entries env root sd dd k es (p\<lparr>pl_stack := rest\<rparr>) t = (p', s')" for p p' s sd dd k rest es t s'
      by (rule keepsD [OF keeps_plan_entries [OF laws] keepsD [OF keeps_list_src [OF laws] that(1,2)] that(3)])
  qed
  then show "with_files v B P s'" by (simp split: sum.splits)
qed

lemma keeps_create_dirs: "session_laws v env \<Longrightarrow> keeps (with_files v B P) (create_dirs env first ds fs)"
  by (induction ds arbitrary: first fs) (auto intro!: hoare_rules read_parts session_parts)

text \<open>The part of \<open>transfer_dir\<close> after the planning.\<close>

lemma after_planning:
  assumes laws: "session_laws v env" and dom: "fst ` set (pl_files p) \<subseteq> dom S0" and ind: "independent env (pl_files p)"
  shows "triple (with_files v any_files (\<lambda>S D. S = S0))
     (andThen (create_dirs env True (pl_dirs p) (pl_failures p)) (\<lambda>made. case made of
         Inl out \<Rightarrow> ret out
       | Inr failures \<Rightarrow>
           andThen (refuse_collisions env dr (p\<lparr>pl_failures := failures\<rparr>)) (\<lambda>p.
           andThen (job_set_total env (sum_list (map (\<lambda>(_, _, sz). sz) (pl_files p)))) (\<lambda>_.
           andThen (copy_files env (pl_files p) [] (pl_failures p)) (\<lambda>r. case r of
               Inl out \<Rightarrow> ret out
             | Inr (copied, failures) \<Rightarrow> finish_dir env sr is_move root_is_link p copied failures)))))
     (\<lambda>_. with_files v any_files (only_deleted (pl_files p) (link_of root_is_link sr) S0))"
proof -
  let ?post = "\<lambda>_. with_files v any_files (only_deleted (pl_files p) (link_of root_is_link sr) S0)"
  have stop: "triple (with_files v any_files (\<lambda>S D. S = S0)) (ret out) ?post" for out
    by (rule files_retI) (simp add: only_deleted_def)
  have copy: "triple (with_files v any_files (\<lambda>S D. S = S0 \<and> subseq (pl_files q) (pl_files p)))
     (andThen (job_set_total env n) (\<lambda>_.
      andThen (copy_files env (pl_files q) [] (pl_failures q)) (\<lambda>r. case r of
          Inl out \<Rightarrow> ret out
        | Inr (copied, failures) \<Rightarrow> finish_dir env sr is_move root_is_link q copied failures))) ?post" for q n
  proof (rule files_assume)
    assume sub: "subseq (pl_files q) (pl_files p)"
    have mem: "set (pl_files q) \<subseteq> set (pl_files p)" using list_emb_set [OF sub] by auto
    have dom': "fst ` set (pl_files q) \<subseteq> dom S0" by (rule subset_trans [OF image_mono [OF mem] dom])
    have finish: "triple (with_files v any_files (copied_ok (pl_files q) S0 copied))
        (finish_dir env sr is_move root_is_link q copied failures) ?post" for copied failures
      by (rule files_post [OF finish_dir_triple [OF laws]]) (rule only_deleted_mono [OF mem])
    have copies: "triple (with_files v any_files (\<lambda>S D. S = S0)) (copy_files env (pl_files q) [] (pl_failures q))
       (\<lambda>r. with_files v any_files (\<lambda>S D. case r of Inl _ \<Rightarrow> S = S0
          | Inr (copied', _) \<Rightarrow> copied_ok (pl_files q) S0 copied' S D))"
    proof (rule files_pre)
      show "triple (with_files v any_files (copied_ok [] S0 [])) (copy_files env (pl_files q) [] (pl_failures q))
       (\<lambda>r. with_files v any_files (\<lambda>S D. case r of Inl _ \<Rightarrow> S = S0
          | Inr (copied', _) \<Rightarrow> copied_ok (pl_files q) S0 copied' S D))"
        by (rule copy_files_triple [where before = "[]", OF laws dom' independent_subseq [OF sub ind], unfolded append_Nil]) simp
    qed (simp add: copied_ok_def)
    show "triple (with_files v any_files (\<lambda>S D. S = S0))
       (andThen (job_set_total env n) (\<lambda>_.
        andThen (copy_files env (pl_files q) [] (pl_failures q)) (\<lambda>r. case r of
            Inl out \<Rightarrow> ret out
          | Inr (copied, failures) \<Rightarrow> finish_dir env sr is_move root_is_link q copied failures))) ?post"
      by (rule after_keep [OF keeps_set_total], rule triple_andThen [OF copies], rule triple_case_sum;
          hypsubst; simp only: sum.case)
        (rule stop, rule triple_case_prod, simp only: prod.case, rule finish)
  qed
  show ?thesis
    by (rule after_keep [OF keeps_create_dirs [OF laws]], rule triple_case_sum, rule stop,
        rule triple_andThen [OF refuse_collisions_triple [OF laws]]) (use copy in simp)
qed

lemma transfer_dir_run:
  assumes laws: "session_laws v env" and fresh: "fresh_streams v s"
    and dom: "fst ` set (planned_files env sr dr s) \<subseteq> dom (src_files v s)"
    and ind: "independent env (planned_files env sr dr s)"
    and run: "transfer_dir env sr dr is_move root_is_link s = (out, s')"
  shows "only_deleted (planned_files env sr dr s) (link_of root_is_link sr) (src_files v s) (src_files v s') (dst_files v s')"
proof -
  let ?S = "src_files v s"
  let ?fs = "planned_files env sr dr s"
  obtain r t where plan: "plan_loop env dr (start_plan sr dr) s = (r, t)" by fastforce
  have pre: "with_files v any_files (\<lambda>S D. S = ?S) s" by (rule with_filesI [OF fresh]) simp
  have pre': "with_files v any_files (\<lambda>S D. S = ?S) t" by (rule keepsD [OF keeps_plan_loop [OF laws] pre plan])
  have "with_files v any_files (only_deleted ?fs (link_of root_is_link sr) ?S) s'"
  proof (cases r)
    case (Inl o')
    then have "s' = t" using run plan by (simp add: transfer_dir_def andThen_def ret_def)
    then show ?thesis using pre' by (simp add: with_files_def only_deleted_def)
  next
    case (Inr p)
    have fs: "?fs = pl_files p" using plan Inr by (simp add: planned_files_def)
    note rest = tripleD [OF after_planning [where p = p and ?S0.0 = ?S, OF laws dom [unfolded fs] ind [unfolded fs]] pre']
    show ?thesis unfolding fs
      by (rule rest) (use run plan Inr in \<open>simp add: transfer_dir_def andThen_def\<close>)
  qed
  then show ?thesis by (auto simp: with_files_def src_files_def dst_files_def)
qed

text \<open>
  C20: Where all planned files exist in the source when the job starts and none of them is written
  where another one, or its temporary file, goes, a folder job deletes a file of the source only when
  the bytes that the listing announced for it are at its planned destination at the end. That is all
  the job looks at: of a file that has grown since it was listed, the bytes behind the announced size
  are deleted without a copy. Of a root that is itself a link the link is deleted besides.
\<close>

theorem folder_move_deletes_copied:
  assumes "session_laws v env" and "fresh_streams v s"
    and "fst ` set (planned_files env sr dr s) \<subseteq> dom (src_files v s)"
    and "independent env (planned_files env sr dr s)"
    and "transfer_dir env sr dr is_move root_is_link s = (out, s')"
  shows "{p. src_files v s' p \<noteq> src_files v s p} \<subseteq>
      {sp. \<exists>dp sz c. (sp, dp, sz) \<in> set (planned_files env sr dr s) \<and> src_files v s sp = Some c \<and>
           dst_files v s' dp = Some (take sz c)} \<union>
      (if root_is_link then {trim_end_matches is_sep sr} else {})"
  using transfer_dir_run [OF assms] unfolding only_deleted_def copies_def link_of_def .

subsection \<open>The plan stays inside the destination\<close>

definition below :: "string \<Rightarrow> string \<Rightarrow> bool" where
  "below root d = (is_absolute d = is_absolute root \<and> (\<exists>rs. norm_parts d = norm_parts root @ rs))"

definition plan_ok :: "string \<Rightarrow> plan \<Rightarrow> bool" where
  "plan_ok root p =
     (list_all (\<lambda>(_, d). below root d) (pl_dirs p) \<and> list_all (\<lambda>(_, d, _). below root d \<and> d \<noteq> root) (pl_files p))"

lemma strictly_below: "norm_parts root \<noteq> [] \<Longrightarrow> is_strictly_inside d root \<Longrightarrow> below root d \<and> d \<noteq> root"
  by (auto simp: is_strictly_inside_iff below_def)

lemma plan_resolved_ok:
  "plan_ok root p \<Longrightarrow> below root d \<and> d \<noteq> root \<Longrightarrow> plan_ok root (plan_resolved k sp d l e p)"
  by (auto simp: plan_resolved_def plan_ok_def)

lemma plan_entry_ok:
  assumes "norm_parts root \<noteq> []" and "plan_ok root p" and "plan_entry env root sd dd k e p s = (p', s')"
  shows "plan_ok root p'"
proof -
  have same: "plan_ok root (p\<lparr>pl_refused := n, pl_failures := f\<rparr>)" "plan_ok root (p\<lparr>pl_links := n\<rparr>)" for n f
    using assms(2) by (simp_all add: plan_ok_def)
  show ?thesis
    using assms(3) same assms(2) plan_resolved_ok [OF assms(2) strictly_below [OF assms(1)]]
    by (auto simp: plan_entry_def ret_def andThen_def on_world_def Let_def split: if_splits sum.splits prod.splits)
qed

lemma plan_entries_ok:
  assumes "norm_parts root \<noteq> []"
  shows "plan_ok root p \<Longrightarrow> plan_entries env root sd dd k es p s = (p', s') \<Longrightarrow> plan_ok root p'"
proof (induction es arbitrary: p s)
  case (Cons e es)
  obtain q t where q: "plan_entry env root sd dd k e p s = (q, t)" by fastforce
  then have "plan_entries env root sd dd k es q t = (p', s')" using Cons.prems(2) by (simp add: andThen_def)
  then show ?case using Cons.IH plan_entry_ok [OF assms Cons.prems(1) q] by blast
qed (simp add: ret_def)

lemma plan_loop_ok:
  assumes root: "norm_parts root \<noteq> []" and "plan_ok root p" and "plan_loop env root p s = (Inr q, s')"
  shows "plan_ok root q"
proof -
  have "case (Inr q :: outcome + plan) of Inr q \<Rightarrow> plan_ok root q | Inl _ \<Rightarrow> \<exists>q. plan_ok root q"
  proof (rule plan_loop_inv [where I = "\<lambda>p _. plan_ok root p", OF _ _ _ assms(2,3)])
    show "plan_ok root (p\<lparr>pl_stack := rest, pl_failures := f\<rparr>)" if "plan_ok root p" for p rest f
      using that by (simp add: plan_ok_def)
    show "plan_ok root p'" if "plan_ok root p" "plan_entries env root sd dd k es (p\<lparr>pl_stack := rest\<rparr>) t = (p', s')"
      for p p' rest sd dd k es t s'
      by (rule plan_entries_ok [OF root _ that(2)]) (use that(1) in \<open>simp add: plan_ok_def\<close>)
  qed
  then show ?thesis by simp
qed

text \<open>
  C21: Whatever names a server puts into its listings (parent references, separators, absolute
  paths, links), every folder and every file a folder transfer plans to write lies lexically at or
  below the destination folder, and no file is planned in its place.
\<close>

theorem plan_stays_inside:
  assumes "norm_parts dest_root \<noteq> []"
    and "plan_loop env dest_root (start_plan source_root dest_root) s = (Inr p, s')"
  shows "snd ` set (pl_dirs p) \<union> (fst \<circ> snd) ` set (pl_files p) \<subseteq>
      {d. is_absolute d = is_absolute dest_root \<and> (\<exists>rs. norm_parts d = norm_parts dest_root @ rs)} \<and>
    dest_root \<notin> (fst \<circ> snd) ` set (pl_files p)"
proof -
  have "plan_ok dest_root (start_plan source_root dest_root)" by (simp add: plan_ok_def start_plan_def below_def)
  from plan_loop_ok [OF assms(1) this assms(2)]
  show ?thesis by (fastforce simp: plan_ok_def below_def list_all_iff)
qed

end
