(* ===== verification/TransferExample.thy ===== *)
theory TransferExample
  imports TransferMove
begin

section \<open>Two sessions in memory\<close>

text \<open>
  A pair of sessions that keep their files in memory: they follow the laws the transfer theorems
  ask of a session, and the theorems are applied to a copy, a replacement and moves between them.
\<close>

type_synonym store = "files \<times> files"

definition entry_of :: "string \<Rightarrow> nat \<Rightarrow> file_entry" where
  "entry_of p n =
     \<lparr>fe_name = snd (split_name p), fe_path = p, fe_type = File, fe_size = n, modified_at = None, created_at = None,
      fe_permissions = default_permissions, is_hidden = False\<rparr>"

text \<open>A store is one side of the pair: \<open>get\<close> reads it and \<open>upd\<close> changes it.\<close>

definition mem_read :: "(store \<Rightarrow> files) \<Rightarrow> string \<Rightarrow> (bytes \<Rightarrow> bytes) \<Rightarrow> (store, bytes core_result) act" where
  "mem_read get p part = (\<lambda>w. case get w p of Some c \<Rightarrow> (Inr (part c), w) | None \<Rightarrow> (Inl (NotFound p), w))"

definition mem_write ::
  "(store \<Rightarrow> files) \<Rightarrow> ((files \<Rightarrow> files) \<Rightarrow> store \<Rightarrow> store) \<Rightarrow> string \<Rightarrow> nat \<Rightarrow> bytes \<Rightarrow> (store, unit core_result) act" where
  "mem_write get upd p off d =
     (\<lambda>w. (Inr (), upd (\<lambda>f. f(p := Some (if off = 0 then d
                                        else overwrite off d (case f p of Some c \<Rightarrow> c | None \<Rightarrow> [])))) w))"

definition mem_session ::
  "(store \<Rightarrow> files) \<Rightarrow> ((files \<Rightarrow> files) \<Rightarrow> store \<Rightarrow> store) \<Rightarrow> (string \<Rightarrow> file_entry list) \<Rightarrow> protocol \<Rightarrow> store vfs" where
  "mem_session get upd ls proto =
     \<lparr>v_protocol = proto, v_supports_write_at = True, v_supports_shell = False, v_supports_permissions = False,
      v_list_dir = (\<lambda>p w. (Inr (ls p), w)),
      v_metadata = (\<lambda>p w. case get w p of Some c \<Rightarrow> (Inr (entry_of p (length c)), w) | None \<Rightarrow> (Inl (NotFound p), w)),
      v_read_file = (\<lambda>p. mem_read get p (\<lambda>c. c)),
      v_read_range = (\<lambda>p i k. mem_read get p (\<lambda>c. take k (drop i c))),
      v_read_range_in = (\<lambda>n p i k. mem_read get p (\<lambda>c. take k (drop i c))),
      v_write_file = (\<lambda>p d. mem_write get upd p 0 d),
      v_write_at = mem_write get upd,
      v_write_at_in = (\<lambda>n. mem_write get upd),
      v_finish_stream = (\<lambda>n w. (Inr (), w)), v_abandon_stream = (\<lambda>n w. ((), w)),
      v_create_dir = (\<lambda>p w. (Inr (), w)),
      v_remove_file = (\<lambda>p w. (Inr (), upd (\<lambda>f. f(p := None)) w)),
      v_remove_dir = (\<lambda>p r w. (Inr (), w)),
      v_rename = (\<lambda>a b w. (Inr (), upd (\<lambda>f. f(b := f a, a := if a = b then f a else None)) w)),
      v_set_permissions = (\<lambda>p m w. (Inr (), w)),
      v_exists = (\<lambda>p w. (Inr (get w p \<noteq> None), w)),
      v_execute_command = (\<lambda>c w. (Inl (Protocol c), w))\<rparr>"

definition mem_view :: "store view" where
  "mem_view = \<lparr>in_src = fst, in_dst = snd, in_stream = (\<lambda>_ _. {})\<rparr>"

text \<open>The source folder \<open>/a\<close> holds one file.\<close>

definition mem_ls :: "string \<Rightarrow> file_entry list" where
  "mem_ls p = (if p = ''/a'' then [entry_of ''/a/f'' 3] else [])"

definition mem_env :: "bool \<Rightarrow> store job_env" where
  "mem_env is_move =
     \<lparr>je_id = ''t'', je_tag = ''1'', je_src = mem_session fst apfst mem_ls Sftp, je_dst = mem_session snd apsnd (\<lambda>_. []) Local,
      je_same_session = False, je_is_move = is_move, je_min_chunk = 2, je_max_chunk = 4, je_started = 0, je_windows = False\<rparr>"

definition mem_job :: "store job" where
  "mem_job =
     \<lparr>jb_world = ([''/a/f'' \<mapsto> [1, 2, 3]], [''/b/f'' \<mapsto> [9]]), jb_tasks = [], jb_others = [], jb_clock = [],
      jb_streams = 0, jb_transferred = 0, jb_cache = []\<rparr>"

lemma mem_laws: "session_laws mem_view (mem_env is_move)"
proof -
  have src: "read_laws mem_view (je_src (mem_env is_move))" and dst: "read_laws mem_view (je_dst (mem_env is_move))"
    by (auto simp: read_laws_def reads_def mem_env_def mem_session_def mem_read_def contents_def mem_view_def
        same_streams_def split: option.splits)
  have "src_laws mem_view (je_src (mem_env is_move))"
    by (auto simp: src_laws_def reads_def mem_env_def mem_session_def mem_read_def contents_def mem_view_def
        same_streams_def apfst_def map_prod_def take_is_prefix split: option.splits prod.splits)
  moreover have "dst_laws mem_view (je_dst (mem_env is_move))"
    by (auto simp: dst_laws_def write_law_def finish_law_def mem_env_def mem_session_def mem_write_def contents_def
        mem_view_def same_streams_def apsnd_def map_prod_def entry_of_def is_dir_def split: option.splits prod.splits)
  ultimately show ?thesis using src dst by (simp add: session_laws_def) (simp add: mem_env_def)
qed

lemma mem_start:
  "fresh_streams mem_view mem_job" "src_files mem_view mem_job ''/a/f'' = Some [1, 2, 3]"
  "dst_files mem_view mem_job = [''/b/f'' \<mapsto> [9]]"
  by (simp_all add: fresh_streams_def src_files_def dst_files_def mem_view_def mem_job_def)

lemma mem_temp: "temp_path_of (mem_env m) ''/b/f'' = ''/b/.f.rustscp-1.part''"
  by code_simp

lemma mem_temp_other: "temp_path_of (mem_env m) ''/b/f'' \<noteq> ''/b/f''"
  unfolding mem_temp by simp

lemma mem_replaceable: "replaceable mem_view (mem_env m) ''/b/f'' (dst_files mem_view mem_job)"
  unfolding mem_start(3)
  by (auto simp: replaceable_def rename_works_def temp_works_def mem_view_def mem_env_def mem_session_def
      mem_write_def split: option.splits)

lemma copy_file_writes_source_witness:
  "src_files mem_view (snd (copy_file (mem_env False) ''/a/f'' ''/b/f'' 3 mem_job)) = src_files mem_view mem_job"
  using copy_file_writes_source [OF mem_laws mem_start(1,2) mem_temp_other prod.collapse [symmetric], of False 3] by blast



lemma mem_planned: "planned_files (mem_env True) ''/a'' ''/b'' mem_job = [(''/a/f'', ''/b/f'', 3)]"
  by code_simp

lemma mem_independent: "independent (mem_env True) (planned_files (mem_env True) ''/a'' ''/b'' mem_job)"
  unfolding mem_planned using mem_temp_other by simp

lemma mem_dom: "fst ` set (planned_files (mem_env True) ''/a'' ''/b'' mem_job) \<subseteq> dom (src_files mem_view mem_job)"
  unfolding mem_planned using mem_start(2) by auto

lemma completed_file_transfer_witness:
  "src_files mem_view (snd (transfer_file (mem_env True) ''/a/f'' ''/b/f'' 3 True mem_job)) ''/a/f'' = None \<or>
   src_files mem_view (snd (transfer_file (mem_env True) ''/a/f'' ''/b/f'' 3 True mem_job)) = src_files mem_view mem_job"
  using completed_file_transfer [OF mem_laws [of True] mem_start(1,2) mem_temp_other prod.collapse [symmetric], of 3 True]
  by (auto split: outcome.splits)

lemma mem_two: "\<not> je_same_session (mem_env m)"
  by (simp add: mem_env_def)

lemma source_kept_unless_moved_witness:
  "src_files mem_view (snd (job_run (mem_env False) ''/a/f'' ''/b/f'' False mem_job)) = src_files mem_view mem_job"
  using source_kept_unless_moved [where sp = "''/a/f''" and dp = "''/b/f''" and is_move = False and s = mem_job,
      OF mem_laws [of False] mem_two prod.collapse [symmetric]]
  by simp

lemma folder_move_deletes_copied_witness:
  "{p. src_files mem_view (snd (transfer_dir (mem_env True) ''/a'' ''/b'' True False mem_job)) p
       \<noteq> src_files mem_view mem_job p} \<subseteq> {''/a/f''}"
  using folder_move_deletes_copied [OF mem_laws mem_start(1) mem_dom mem_independent prod.collapse [symmetric], of True False]
  by (auto simp: mem_planned)

lemma mem_root: "norm_parts ''/b'' \<noteq> []"
  by code_simp

lemma mem_plan: "\<exists>p s'. plan_loop (mem_env True) ''/b'' (start_plan ''/a'' ''/b'') mem_job = (Inr p, s')"
  using mem_planned by (auto simp: planned_files_def split: prod.splits sum.splits)

lemma plan_stays_inside_witness:
  "\<exists>p s'. plan_loop (mem_env True) ''/b'' (start_plan ''/a'' ''/b'') mem_job = (Inr p, s') \<and>
     ''/b'' \<notin> (fst \<circ> snd) ` set (pl_files p)"
  using mem_plan plan_stays_inside [OF mem_root] by blast

end
