(* ===== verification/SyncPlan.thy ===== *)
theory SyncPlan
  imports TransferJob
begin

section \<open>Comparing two folders\<close>

text \<open>
  Models \<open>crates/rustscp-core/src/sync.rs\<close>: the plan a synchronization preview shows. Times
  are counted in nanoseconds, so that the whole seconds of a difference are cut off as in the
  code. The maps and sets of the code, all of which it goes through in the order of the names, are
  ordered lists. Both sessions live in one world, as in the transfer job.
\<close>

subsection \<open>Data\<close>

datatype sync_direction = LocalToRemote | RemoteToLocal | Both

datatype sync_action = Upload | Download | DeleteRemote | DeleteLocal | Identical | Conflict

record sync_item =
  si_path :: string
  si_action :: sync_action
  si_local_size :: "nat option"
  si_remote_size :: "nat option"
  si_local_modified :: "int option"
  si_remote_modified :: "int option"

record sync_options =
  so_direction :: sync_direction
  so_mirror_delete :: bool
  so_size_only :: bool
  so_recursive :: bool
  so_max_depth :: "nat option"
  so_mtimes_preserved :: bool

definition default_sync_options :: sync_options where
  "default_sync_options =
     \<lparr>so_direction = LocalToRemote, so_mirror_delete = False, so_size_only = False, so_recursive = False,
      so_max_depth = None, so_mtimes_preserved = False\<rparr>"

definition DEFAULT_SYNC_MAX_DEPTH :: nat where "DEFAULT_SYNC_MAX_DEPTH = 32"
definition MTIME_TOLERANCE_SECS :: int where "MTIME_TOLERANCE_SECS = 2"
definition CONTENT_CHECK_MAX_FILE_BYTES :: nat where "CONTENT_CHECK_MAX_FILE_BYTES = 32 * 1024 * 1024"
definition CONTENT_CHECK_BUDGET_BYTES :: nat where "CONTENT_CHECK_BUDGET_BYTES = 256 * 1024 * 1024"
definition CONTENT_CHECK_CHUNK_BYTES :: nat where "CONTENT_CHECK_CHUNK_BYTES = 4 * 1024 * 1024"

subsection \<open>Which copy is newer\<close>

datatype newer = Newer_Local | Newer_Remote | Newer_Same | Newer_Unknown

text \<open>\<open>num_seconds\<close>: whole seconds, towards zero.\<close>

definition num_seconds :: "int \<Rightarrow> int" where
  "num_seconds d = sgn d * (\<bar>d\<bar> div 1000000000)"

definition newer_side :: "int option \<Rightarrow> int option \<Rightarrow> newer" where
  "newer_side local remote =
     (case (local, remote) of
        (Some l, Some r) \<Rightarrow>
          (let diff = num_seconds (l - r) in
           if diff > MTIME_TOLERANCE_SECS then Newer_Local
           else if diff < - MTIME_TOLERANCE_SECS then Newer_Remote
           else Newer_Same)
      | _ \<Rightarrow> Newer_Unknown)"

subsection \<open>A file on both sides\<close>

datatype decision = Action sync_action | CompareContent sync_action sync_action

fun provisional :: "decision \<Rightarrow> sync_action" where
  "provisional (Action a) = a"
| "provisional (CompareContent if_differs if_unverified) = if_unverified"

definition plan_by_size :: "bool \<Rightarrow> newer \<Rightarrow> sync_direction \<Rightarrow> sync_action" where
  "plan_by_size same_size newer direction =
     (if same_size then Identical
      else case direction of
             LocalToRemote \<Rightarrow> Upload
           | RemoteToLocal \<Rightarrow> Download
           | Both \<Rightarrow> (case newer of Newer_Local \<Rightarrow> Upload | Newer_Remote \<Rightarrow> Download | _ \<Rightarrow> Conflict))"

definition plan_by_time :: "bool \<Rightarrow> newer \<Rightarrow> sync_options \<Rightarrow> decision" where
  "plan_by_time same_size newer options =
     (case so_direction options of
        LocalToRemote \<Rightarrow> Action
          (if same_size then (if newer = Newer_Local then Upload else Identical)
           else if newer = Newer_Remote then Conflict else Upload)
      | RemoteToLocal \<Rightarrow> Action
          (if same_size then (if newer = Newer_Remote then Download else Identical)
           else if newer = Newer_Local then Conflict else Download)
      | Both \<Rightarrow>
          (if same_size
           then (case newer of
                   Newer_Local \<Rightarrow> if so_mtimes_preserved options then Action Upload else CompareContent Upload Upload
                 | Newer_Remote \<Rightarrow> if so_mtimes_preserved options then Action Download
                                  else CompareContent Download Conflict
                 | _ \<Rightarrow> Action Identical)
           else Action (case newer of Newer_Local \<Rightarrow> Upload | Newer_Remote \<Rightarrow> Download | _ \<Rightarrow> Conflict)))"

definition plan_both_present :: "file_entry \<Rightarrow> file_entry \<Rightarrow> sync_options \<Rightarrow> decision" where
  "plan_both_present l r options =
     (let same_size = (fe_size l = fe_size r); newer = newer_side (modified_at l) (modified_at r) in
      if so_size_only options then Action (plan_by_size same_size newer (so_direction options))
      else plan_by_time same_size newer options)"

subsection \<open>The files of one folder\<close>

record content_check =
  cc_index :: nat
  cc_local_path :: string
  cc_remote_path :: string
  cc_size :: nat
  cc_if_differs :: sync_action

definition join_dir :: "string \<Rightarrow> string \<Rightarrow> string" where
  "join_dir dir name =
     (if dir = [] then name
      else let sep = (if CHR 0x5C \<in> set dir \<and> CHR ''/'' \<notin> set dir then CHR 0x5C else CHR ''/'') in
        if ends_with dir [sep] then dir @ name else dir @ [sep] @ name)"

definition join_rel :: "string \<Rightarrow> string \<Rightarrow> string" where
  "join_rel pre name = (if pre = [] then name else pre @ ''/'' @ name)"

definition only_local :: "sync_options \<Rightarrow> sync_action option" where
  "only_local options =
     (case so_direction options of
        RemoteToLocal \<Rightarrow> if so_mirror_delete options then Some DeleteLocal else None
      | _ \<Rightarrow> Some Upload)"

definition only_remote :: "sync_options \<Rightarrow> sync_action option" where
  "only_remote options =
     (case so_direction options of
        LocalToRemote \<Rightarrow> if so_mirror_delete options then Some DeleteRemote else None
      | _ \<Rightarrow> Some Download)"

definition item_of :: "string \<Rightarrow> sync_action \<Rightarrow> file_entry option \<Rightarrow> file_entry option \<Rightarrow> sync_item" where
  "item_of path action l r =
     \<lparr>si_path = path, si_action = action, si_local_size = map_option fe_size l, si_remote_size = map_option fe_size r,
      si_local_modified = Option.bind l modified_at, si_remote_modified = Option.bind r modified_at\<rparr>"

text \<open>What \<open>plan_files\<close> adds for one name: an item, and the check of its content.\<close>

definition plan_name ::
  "sync_options \<Rightarrow> string \<Rightarrow> string option \<Rightarrow> string option \<Rightarrow> string \<Rightarrow> file_entry option \<Rightarrow> file_entry option
   \<Rightarrow> sync_item list \<times> content_check list \<Rightarrow> sync_item list \<times> content_check list" where
  "plan_name options pre l_dir r_dir name l r acc =
     (case acc of (plan, checks) \<Rightarrow>
      (let path = join_rel pre name in
       case (l, r) of
         (Some _, None) \<Rightarrow> (case only_local options of Some a \<Rightarrow> (plan @ [item_of path a l r], checks) | None \<Rightarrow> (plan, checks))
       | (None, Some _) \<Rightarrow> (case only_remote options of Some a \<Rightarrow> (plan @ [item_of path a l r], checks) | None \<Rightarrow> (plan, checks))
       | (Some lf, Some rf) \<Rightarrow>
           (let decision = plan_both_present lf rf options in
            (plan @ [item_of path (provisional decision) l r],
             case (decision, l_dir, r_dir) of
               (CompareContent if_differs _, Some ld, Some rd) \<Rightarrow>
                 checks @ [\<lparr>cc_index = length plan, cc_local_path = join_dir ld name, cc_remote_path = join_dir rd name,
                            cc_size = fe_size lf, cc_if_differs = if_differs\<rparr>]
             | _ \<Rightarrow> checks))
       | (None, None) \<Rightarrow> (plan, checks)))"

type_synonym entries = "(string, file_entry) bmap"

fun plan_names ::
  "sync_options \<Rightarrow> string \<Rightarrow> string option \<Rightarrow> string option \<Rightarrow> entries \<Rightarrow> entries \<Rightarrow> string list
   \<Rightarrow> sync_item list \<times> content_check list \<Rightarrow> sync_item list \<times> content_check list" where
  "plan_names options pre l_dir r_dir lm rm [] acc = acc"
| "plan_names options pre l_dir r_dir lm rm (n # ns) acc =
     plan_names options pre l_dir r_dir lm rm ns
       (plan_name options pre l_dir r_dir n (bm_get lm n) (bm_get rm n) acc)"

definition plan_files ::
  "sync_options \<Rightarrow> string \<Rightarrow> string option \<Rightarrow> string option \<Rightarrow> entries \<Rightarrow> entries
   \<Rightarrow> sync_item list \<times> content_check list \<Rightarrow> sync_item list \<times> content_check list" where
  "plan_files options pre l_dir r_dir lm rm =
     plan_names options pre l_dir r_dir lm rm (bs_of (map fst lm @ map fst rm))"

text \<open>A listing: its files by name (a later entry of a name replaces an earlier one), its folders.\<close>

fun split_entries :: "file_entry list \<Rightarrow> entries \<times> string bset \<Rightarrow> entries \<times> string bset" where
  "split_entries [] acc = acc"
| "split_entries (f # fs) (files, dirs) =
     split_entries fs (if is_dir f then (files, bs_insert (fe_name f) dirs)
                       else (bm_insert (fe_name f) f files, dirs))"

subsection \<open>Content checks\<close>

record check_limits =
  cl_max_file :: nat
  cl_budget :: nat
  cl_chunk :: nat

definition default_limits :: check_limits where
  "default_limits =
     \<lparr>cl_max_file = CONTENT_CHECK_MAX_FILE_BYTES, cl_budget = CONTENT_CHECK_BUDGET_BYTES,
      cl_chunk = CONTENT_CHECK_CHUNK_BYTES\<rparr>"

datatype check_result = CC_Equal | CC_Differs | CC_Unverified

text \<open>The loop of \<open>compare_contents\<close>, with the rest of the budget beside its result.\<close>

function compare_loop ::
  "'w vfs \<Rightarrow> 'w vfs \<Rightarrow> content_check \<Rightarrow> nat \<Rightarrow> nat \<Rightarrow> nat \<Rightarrow> ('w, check_result \<times> nat) act" where
  "compare_loop lv rv check chunk offset budget =
     (if offset \<ge> cc_size check then ret (CC_Equal, budget)
      else let want = min (max chunk 1) (cc_size check - offset); budget' = budget - want in
        andThen (v_read_range lv (cc_local_path check) offset want) (\<lambda>l.
        andThen (v_read_range rv (cc_remote_path check) offset want) (\<lambda>r.
        case (l, r) of
          (Inr ld, Inr rd) \<Rightarrow>
            if length ld \<noteq> want \<or> length rd \<noteq> want then ret (CC_Unverified, budget')
            else if ld \<noteq> rd then ret (CC_Differs, budget')
            else compare_loop lv rv check chunk (offset + want) budget'
        | _ \<Rightarrow> ret (CC_Unverified, budget'))))"
  by pat_completeness auto

termination
  by (relation "measure (\<lambda>(lv, rv, check, chunk, offset, budget). cc_size check - offset)") auto

declare compare_loop.simps [simp del]

definition compare_contents ::
  "'w vfs \<Rightarrow> 'w vfs \<Rightarrow> content_check \<Rightarrow> check_limits \<Rightarrow> nat \<Rightarrow> ('w, check_result \<times> nat) act" where
  "compare_contents lv rv check limits budget =
     (if cc_size check = 0 then ret (CC_Equal, budget)
      else if cc_size check > cl_max_file limits \<or> cc_size check > budget then ret (CC_Unverified, budget)
      else compare_loop lv rv check (cl_chunk limits) 0 budget)"

fun set_action :: "check_result \<Rightarrow> content_check \<Rightarrow> sync_item list \<Rightarrow> sync_item list" where
  "set_action CC_Equal check plan = plan[cc_index check := (plan ! cc_index check)\<lparr>si_action := Identical\<rparr>]"
| "set_action CC_Differs check plan = plan[cc_index check := (plan ! cc_index check)\<lparr>si_action := cc_if_differs check\<rparr>]"
| "set_action CC_Unverified check plan = plan"

fun run_checks ::
  "'w vfs \<Rightarrow> 'w vfs \<Rightarrow> check_limits \<Rightarrow> content_check list \<Rightarrow> nat \<Rightarrow> sync_item list
   \<Rightarrow> ('w, sync_item list \<times> nat) act" where
  "run_checks lv rv limits [] budget plan = ret (plan, budget)"
| "run_checks lv rv limits (c # cs) budget plan =
     andThen (compare_contents lv rv c limits budget) (\<lambda>(r, budget').
       run_checks lv rv limits cs budget' (set_action r c plan))"

subsection \<open>Walking both trees\<close>

type_synonym sync_stack = "(string \<times> string option \<times> string option \<times> nat) list"

definition list_side :: "'w vfs \<Rightarrow> string \<Rightarrow> string \<Rightarrow> ('w, file_entry list core_result) act" where
  "list_side fs dir side =
     andThen (v_list_dir fs dir) (\<lambda>r. ret (case r of
         Inr es \<Rightarrow> Inr es
       | Inl e \<Rightarrow> Inl (General (''Could not read '' @ side @ '' folder '' @ quote dir @ '': '' @ error_text e))))"

definition list_opt :: "'w vfs \<Rightarrow> string option \<Rightarrow> string \<Rightarrow> ('w, file_entry list core_result) act" where
  "list_opt fs dir side = (case dir of Some d \<Rightarrow> list_side fs d side | None \<Rightarrow> ret (Inr []))"

definition sub_folder ::
  "string \<Rightarrow> string option \<Rightarrow> string option \<Rightarrow> nat \<Rightarrow> string bset \<Rightarrow> string bset \<Rightarrow> string
   \<Rightarrow> string \<times> string option \<times> string option \<times> nat" where
  "sub_folder pre l_dir r_dir depth ld rd name =
     (join_rel pre name,
      if name \<in> set ld then map_option (\<lambda>d. join_dir d name) l_dir else None,
      if name \<in> set rd then map_option (\<lambda>d. join_dir d name) r_dir else None,
      depth + 1)"

text \<open>The folders pushed for one folder, the one that is popped first in front.\<close>

definition sub_folders ::
  "nat \<Rightarrow> string \<Rightarrow> string option \<Rightarrow> string option \<Rightarrow> nat \<Rightarrow> string bset \<Rightarrow> string bset \<Rightarrow> sync_stack" where
  "sub_folders max_depth pre l_dir r_dir depth ld rd =
     (if depth < max_depth
      then rev (map (sub_folder pre l_dir r_dir depth ld rd)
                 (filter (\<lambda>n. n \<noteq> ''.'' \<and> n \<noteq> ''..'') (bs_of (ld @ rd))))
      else [])"

lemma sub_folders_depth:
  "\<forall>k \<in> set (map (\<lambda>(_, _, _, k). k) (sub_folders max_depth pre l_dir r_dir depth ld rd)).
     k = depth + 1 \<and> k \<le> max_depth"
  by (auto simp: sub_folders_def sub_folder_def)

function walk ::
  "'w vfs \<Rightarrow> 'w vfs \<Rightarrow> sync_options \<Rightarrow> nat \<Rightarrow> sync_stack \<Rightarrow> sync_item list \<times> content_check list
   \<Rightarrow> ('w, (sync_item list \<times> content_check list) core_result) act" where
  "walk lv rv options max_depth [] acc = ret (Inr acc)"
| "walk lv rv options max_depth ((pre, l_dir, r_dir, depth) # stack) acc =
     andThen (list_opt lv l_dir ''local'') (\<lambda>l. case l of
         Inl e \<Rightarrow> ret (Inl e)
       | Inr ls \<Rightarrow> andThen (list_opt rv r_dir ''remote'') (\<lambda>r. case r of
             Inl e \<Rightarrow> ret (Inl e)
           | Inr rs \<Rightarrow>
               (case (split_entries ls ([], []), split_entries rs ([], [])) of ((lm, ld), (rm, rd)) \<Rightarrow>
                 walk lv rv options max_depth (sub_folders max_depth pre l_dir r_dir depth ld rd @ stack)
                   (plan_files options pre l_dir r_dir lm rm acc))))"
  by pat_completeness auto

termination
proof (relation "inv_image (mult less_than)
    (\<lambda>(lv, rv, options, max_depth, stack, acc). depth_rank max_depth (map (\<lambda>(_, _, _, k). k) stack))", goal_cases)
  case 1
  show ?case by (simp add: wf_mult)
next
  case (2 lv rv options max_depth pre l_dir r_dir depth stack acc)
  then show ?case
    using depth_rank_less [OF sub_folders_depth, where rest = "map (\<lambda>(_, _, _, k). k) stack"] by simp
qed

declare walk.simps [simp del]

definition sync_depth :: "sync_options \<Rightarrow> nat" where
  "sync_depth options =
     (if so_recursive options then (case so_max_depth options of Some d \<Rightarrow> d | None \<Rightarrow> DEFAULT_SYNC_MAX_DEPTH) else 0)"

definition compare_with_limits ::
  "'w vfs \<Rightarrow> 'w vfs \<Rightarrow> string \<Rightarrow> string \<Rightarrow> sync_options \<Rightarrow> check_limits \<Rightarrow> ('w, sync_item list core_result) act" where
  "compare_with_limits lv rv local_dir remote_dir options limits =
     andThen (walk lv rv options (sync_depth options) [([], Some local_dir, Some remote_dir, 0)] ([], [])) (\<lambda>r. case r of
         Inl e \<Rightarrow> ret (Inl e)
       | Inr (plan, checks) \<Rightarrow>
           andThen (run_checks lv rv limits (sort_key cc_size checks) (cl_budget limits) plan)
             (\<lambda>(plan', _). ret (Inr (sort_key si_path plan'))))"

definition compare_directories ::
  "'w vfs \<Rightarrow> 'w vfs \<Rightarrow> string \<Rightarrow> string \<Rightarrow> sync_options \<Rightarrow> ('w, sync_item list core_result) act" where
  "compare_directories lv rv local_dir remote_dir options =
     compare_with_limits lv rv local_dir remote_dir options default_limits"

subsection \<open>What a plan may do\<close>

definition allowed :: "sync_options \<Rightarrow> sync_action set" where
  "allowed options =
     {Identical, Conflict} \<union>
     (case so_direction options of
        LocalToRemote \<Rightarrow> if so_mirror_delete options then {Upload, DeleteRemote} else {Upload}
      | RemoteToLocal \<Rightarrow> if so_mirror_delete options then {Download, DeleteLocal} else {Download}
      | Both \<Rightarrow> {Upload, Download})"

definition side_newer :: "sync_item \<Rightarrow> newer" where
  "side_newer i = newer_side (si_local_modified i) (si_remote_modified i)"

definition on_both_sides :: "sync_item \<Rightarrow> bool" where
  "on_both_sides i = (si_local_size i \<noteq> None \<and> si_remote_size i \<noteq> None)"

text \<open>An action fits an item: nothing is replaced by an older copy, only what is missing on the
  other side is deleted.\<close>

fun action_fits :: "sync_options \<Rightarrow> sync_item \<Rightarrow> sync_action \<Rightarrow> bool" where
  "action_fits options i Upload =
     (si_local_size i \<noteq> None \<and> (so_size_only options \<or> \<not> on_both_sides i \<or> side_newer i \<noteq> Newer_Remote))"
| "action_fits options i Download =
     (si_remote_size i \<noteq> None \<and> (so_size_only options \<or> \<not> on_both_sides i \<or> side_newer i \<noteq> Newer_Local))"
| "action_fits options i DeleteRemote = (si_local_size i = None \<and> si_remote_size i \<noteq> None)"
| "action_fits options i DeleteLocal = (si_remote_size i = None \<and> si_local_size i \<noteq> None)"
| "action_fits options i _ = on_both_sides i"

definition item_ok :: "sync_options \<Rightarrow> sync_item \<Rightarrow> bool" where
  "item_ok options i = (si_action i \<in> allowed options \<and> action_fits options i (si_action i))"

definition check_ok :: "sync_options \<Rightarrow> sync_item list \<Rightarrow> content_check \<Rightarrow> bool" where
  "check_ok options plan c =
     (cc_index c < length plan \<and> on_both_sides (plan ! cc_index c) \<and>
      cc_if_differs c \<in> allowed options \<and> action_fits options (plan ! cc_index c) (cc_if_differs c))"

definition acc_ok :: "sync_options \<Rightarrow> sync_item list \<times> content_check list \<Rightarrow> bool" where
  "acc_ok options acc = (list_all (item_ok options) (fst acc) \<and> list_all (check_ok options (fst acc)) (snd acc))"

lemma plan_both_present_ok:
  assumes "i = item_of path (provisional (plan_both_present l r options)) (Some l) (Some r)"
  shows "item_ok options i" and
    "plan_both_present l r options = CompareContent d u \<Longrightarrow> d \<in> allowed options \<and> action_fits options i d"
  using assms
  by (auto simp: item_ok_def plan_both_present_def plan_by_size_def plan_by_time_def item_of_def allowed_def Let_def
      side_newer_def on_both_sides_def split: sync_direction.splits newer.splits if_splits)

lemma check_ok_append: "check_ok options plan c \<Longrightarrow> check_ok options (plan @ ys) c"
  by (auto simp: check_ok_def nth_append)

lemma acc_ok_add:
  "acc_ok options (plan, checks) \<Longrightarrow> item_ok options i \<Longrightarrow> acc_ok options (plan @ [i], checks)"
  by (auto simp: acc_ok_def list_all_iff check_ok_append)

lemma plan_name_ok:
  assumes "acc_ok options acc"
  shows "acc_ok options (plan_name options pre ld rd n l r acc)"
proof -
  obtain plan checks where acc: "acc = (plan, checks)" by (cases acc)
  note ok = assms [unfolded acc]
  show ?thesis
  proof (cases l; cases r)
    fix lf rf
    assume lr: "l = Some lf" "r = Some rf"
    define i where "i = item_of (join_rel pre n) (provisional (plan_both_present lf rf options)) (Some lf) (Some rf)"
    note i = plan_both_present_ok [OF i_def]
    have both: "on_both_sides i" by (simp add: i_def on_both_sides_def item_of_def)
    have "acc_ok options (plan @ [i], checks)" by (rule acc_ok_add [OF ok i(1)])
    then show ?thesis
      using i both
      by (auto simp: acc lr plan_name_def Let_def i_def [symmetric] acc_ok_def check_ok_def
          split: decision.split option.split)
  qed (use ok in \<open>auto simp: acc plan_name_def only_local_def only_remote_def item_ok_def allowed_def item_of_def
      on_both_sides_def split: sync_direction.split intro!: acc_ok_add\<close>)
qed

lemma plan_names_ok: "acc_ok options acc \<Longrightarrow> acc_ok options (plan_names options pre ld rd lm rm ns acc)"
  by (induction ns arbitrary: acc) (simp_all add: plan_name_ok)

lemma walk_ok:
  "acc_ok options acc \<Longrightarrow> walk lv rv options m stack acc s = (Inr acc', s') \<Longrightarrow> acc_ok options acc'"
proof (induction lv rv options m stack acc arbitrary: s rule: walk.induct)
  case (1 lv rv options m acc)
  then show ?case by (simp add: walk.simps ret_def)
next
  case (2 lv rv options m pre ld rd depth stack acc)
  obtain l t where l: "list_opt lv ld ''local'' s = (l, t)" by fastforce
  obtain r u where r: "list_opt rv rd ''remote'' t = (r, u)" by fastforce
  obtain ls rs where lr: "l = Inr ls" "r = Inr rs"
    using 2(3) l r by (cases l; cases r) (auto simp: walk.simps andThen_def ret_def)
  obtain lm ldirs rm rdirs where e: "split_entries ls ([], []) = (lm, ldirs)" "split_entries rs ([], []) = (rm, rdirs)"
    by fastforce
  have ok: "acc_ok options (plan_files options pre ld rd lm rm acc)"
    unfolding plan_files_def by (rule plan_names_ok [OF 2(2)])
  have run: "walk lv rv options m (sub_folders m pre ld rd depth ldirs rdirs @ stack)
      (plan_files options pre ld rd lm rm acc) u = (Inr acc', s')"
    using 2(3) l r lr e by (simp add: walk.simps andThen_def)
  show ?case by (rule 2(1) [OF refl e(1) [symmetric] e(2) [symmetric] ok run])
qed

lemma set_action_ok:
  assumes "acc_ok options (plan, checks)" and "check_ok options plan c"
  shows "acc_ok options (set_action r c plan, checks)"
proof -
  have same: "check_ok options (plan[k := (plan ! k)\<lparr>si_action := a\<rparr>]) d" if "check_ok options plan d" for d k a
    using that by (cases "k = cc_index d"; cases "cc_if_differs d")
      (auto simp: check_ok_def on_both_sides_def side_newer_def)
  have set_ok: "acc_ok options (plan[cc_index c := (plan ! cc_index c)\<lparr>si_action := a\<rparr>], checks)"
    if "a \<in> allowed options" "action_fits options (plan ! cc_index c) a" for a
  proof -
    have "item_ok options ((plan ! cc_index c)\<lparr>si_action := a\<rparr>)"
      using that by (cases a) (auto simp: item_ok_def on_both_sides_def side_newer_def)
    then show ?thesis
      using assms(1) same by (auto simp: acc_ok_def list_all_iff dest!: set_update_subset_insert [THEN subsetD])
  qed
  show ?thesis
    using assms set_ok [of Identical] set_ok [of "cc_if_differs c"]
    by (cases r) (auto simp: check_ok_def allowed_def)
qed

lemma set_action_checks:
  "check_ok options plan d \<Longrightarrow> check_ok options (set_action r c plan) d"
  by (cases r; cases "cc_index c = cc_index d"; cases "cc_if_differs d")
    (auto simp: check_ok_def on_both_sides_def side_newer_def)

lemma run_checks_ok:
  "list_all (item_ok options) plan \<Longrightarrow> list_all (check_ok options plan) cs \<Longrightarrow>
   run_checks lv rv limits cs budget plan s = ((plan', b), s') \<Longrightarrow> list_all (item_ok options) plan'"
proof (induction cs arbitrary: budget plan s)
  case (Cons c cs)
  obtain r b1 t where c: "compare_contents lv rv c limits budget s = ((r, b1), t)" by (metis prod.exhaust)
  have "acc_ok options (set_action r c plan, [])"
    by (rule set_action_ok) (use Cons.prems in \<open>auto simp: acc_ok_def\<close>)
  moreover have "list_all (check_ok options (set_action r c plan)) cs"
    using Cons.prems(2) set_action_checks by (auto simp: list_all_iff)
  ultimately show ?case using Cons.IH Cons.prems(3) c by (auto simp: acc_ok_def andThen_def)
qed (simp add: ret_def)

lemma compare_ok:
  assumes "compare_with_limits lv rv ld rd options limits s = (Inr plan, s')"
  shows "list_all (item_ok options) plan"
proof -
  obtain w t where w: "walk lv rv options (sync_depth options) [([], Some ld, Some rd, 0)] ([], []) s = (w, t)" by fastforce
  obtain p checks where acc: "w = Inr (p, checks)" using assms w by (cases w) (auto simp: compare_with_limits_def andThen_def ret_def)
  obtain p' b u where c: "run_checks lv rv limits (sort_key cc_size checks) (cl_budget limits) p t = ((p', b), u)"
    by (metis prod.exhaust)
  have "acc_ok options (p, checks)" by (rule walk_ok [OF _ w [unfolded acc]]) (simp add: acc_ok_def)
  then have "list_all (item_ok options) p'" using run_checks_ok [OF _ _ c, of options] by (simp add: acc_ok_def list_all_iff)
  moreover have "plan = sort_key si_path p'" using assms w acc c by (simp add: compare_with_limits_def andThen_def ret_def)
  ultimately show ?thesis by (simp add: list_all_iff)
qed

lemma item_ok_action:
  "item_ok options i \<Longrightarrow> si_action i \<in> {Identical, Conflict} \<union>
      (case so_direction options of
         LocalToRemote \<Rightarrow> {Upload} \<union> (if so_mirror_delete options then {DeleteRemote} else {})
       | RemoteToLocal \<Rightarrow> {Download} \<union> (if so_mirror_delete options then {DeleteLocal} else {})
       | Both \<Rightarrow> {Upload, Download})"
  by (auto simp: item_ok_def allowed_def split: sync_direction.splits if_splits)

lemma item_ok_fits:
  "item_ok options i \<Longrightarrow> (case si_action i of
         DeleteRemote \<Rightarrow> si_local_size i = None | DeleteLocal \<Rightarrow> si_remote_size i = None
       | Upload \<Rightarrow> \<not> (\<not> so_size_only options \<and> si_remote_size i \<noteq> None \<and>
                     newer_side (si_local_modified i) (si_remote_modified i) = Newer_Remote)
       | Download \<Rightarrow> \<not> (\<not> so_size_only options \<and> si_local_size i \<noteq> None \<and>
                       newer_side (si_local_modified i) (si_remote_modified i) = Newer_Local)
       | _ \<Rightarrow> si_local_size i \<noteq> None \<and> si_remote_size i \<noteq> None)"
  by (cases "si_action i") (auto simp: item_ok_def on_both_sides_def side_newer_def)

subsection \<open>Content checks\<close>

text \<open>What the comparison relies on of \<open>read_range\<close>: in the worlds in which the file holds the
  bytes \<open>c\<close> it returns those from the offset on, exactly as many as asked for unless the file ends
  before, and a read does not leave these worlds.\<close>

definition range_law :: "'w set \<Rightarrow> 'w vfs \<Rightarrow> string \<Rightarrow> bytes \<Rightarrow> bool" where
  "range_law W fs p c =
     (\<nexists>i k w r w'. w \<in> W \<and> v_read_range fs p i k w = (r, w') \<and>
        (w' \<notin> W \<or> (\<exists>d. r = Inr d \<and> d \<noteq> take k (drop i c))))"

lemma range_lawD:
  assumes "range_law W fs p c" and "v_read_range fs p i k w = (r, w')" and "w \<in> W"
  shows "w' \<in> W" and "r = Inr d \<Longrightarrow> d = take k (drop i c)"
  using assms unfolding range_law_def by blast+

definition check_meaning :: "nat \<Rightarrow> bytes \<Rightarrow> bytes \<Rightarrow> check_result \<Rightarrow> bool" where
  "check_meaning sz lc rc r =
     (case r of CC_Equal \<Rightarrow> take sz lc = take sz rc | CC_Differs \<Rightarrow> lc \<noteq> rc | CC_Unverified \<Rightarrow> True)"

lemma compare_loop_meaning:
  assumes "range_law W lv (cc_local_path check) lc" and "range_law W rv (cc_remote_path check) rc"
  shows "s \<in> W \<Longrightarrow> take offset lc = take offset rc \<Longrightarrow> cc_size check - offset \<le> budget \<Longrightarrow> offset \<le> cc_size check \<Longrightarrow>
     compare_loop lv rv check chunk offset budget s = ((r, b), s') \<Longrightarrow>
     check_meaning (cc_size check) lc rc r \<and> b \<le> budget \<and> budget - b \<le> cc_size check - offset"
proof (induction "cc_size check - offset" arbitrary: offset budget s rule: less_induct)
  case less
  show ?case
  proof (cases "offset \<ge> cc_size check")
    case True
    then have "offset = cc_size check" using less.prems(4) by simp
    then show ?thesis using less.prems by (auto simp: compare_loop.simps [of lv] ret_def check_meaning_def)
  next
    case False
    define want where "want = min (max chunk 1) (cc_size check - offset)"
    have w: "0 < want" "want \<le> cc_size check - offset" using False by (auto simp: want_def)
    obtain l t where l: "v_read_range lv (cc_local_path check) offset want s = (l, t)" by fastforce
    obtain x u where x: "v_read_range rv (cc_remote_path check) offset want t = (x, u)" by fastforce
    have w': "t \<in> W" by (rule range_lawD(1) [OF assms(1) l less.prems(1)])
    have u: "u \<in> W" by (rule range_lawD(1) [OF assms(2) x w'])
    note run = less.prems(5) [unfolded compare_loop.simps [of lv rv check chunk offset budget] Let_def, folded want_def]
    show ?thesis
    proof (cases "\<exists>d. l = Inr d \<and> x = Inr d \<and> length d = want")
      case True
      then obtain d where d: "l = Inr d" "x = Inr d" "length d = want" by blast
      have "d = take want (drop offset lc)" "d = take want (drop offset rc)"
        by (rule range_lawD(2) [OF assms(1) l less.prems(1) d(1)], rule range_lawD(2) [OF assms(2) x w' d(2)])
      then have next_eq: "take (offset + want) lc = take (offset + want) rc" using less.prems(2) by (simp add: take_add)
      have go: "compare_loop lv rv check chunk (offset + want) (budget - want) u = ((r, b), s')"
        using run False l x d by (simp add: andThen_def)
      have "check_meaning (cc_size check) lc rc r \<and> b \<le> budget - want \<and> budget - want - b \<le> cc_size check - (offset + want)"
        by (rule less.hyps [OF _ u next_eq _ _ go]) (use w less.prems(3,4) False in auto)
      then show ?thesis using w less.prems(3) by auto
    next
      case False
      have stop: "r \<noteq> CC_Equal \<and> b = budget - want \<and> (r = CC_Differs \<longrightarrow> (\<exists>ld rd. l = Inr ld \<and> x = Inr rd \<and> ld \<noteq> rd))"
        using run False \<open>\<not> offset \<ge> cc_size check\<close> l x
        by (auto simp: andThen_def ret_def split: sum.splits if_splits)
      moreover have "lc \<noteq> rc" if "l = Inr ld" "x = Inr rd" "ld \<noteq> rd" for ld rd
        using that range_lawD(2) [OF assms(1) l less.prems(1)] range_lawD(2) [OF assms(2) x w'] by metis
      ultimately show ?thesis using w less.prems(3) by (cases r) (auto simp: check_meaning_def)
    qed
  qed
qed

text \<open>
  The content check tells the truth: files reported equal agree in all the bytes that were
  listed for them, files reported different do differ, and a check takes no more from the budget
  than the size of the file, which it never exceeds.
\<close>

theorem compare_contents_correct:
  assumes "range_law W lv (cc_local_path check) lc" and "range_law W rv (cc_remote_path check) rc" and "s \<in> W"
    and "compare_contents lv rv check limits budget s = ((r, b), s')"
  shows "(case r of CC_Equal \<Rightarrow> take (cc_size check) lc = take (cc_size check) rc
      | CC_Differs \<Rightarrow> lc \<noteq> rc | CC_Unverified \<Rightarrow> True) \<and> b \<le> budget \<and> budget - b \<le> cc_size check"
  using compare_loop_meaning [OF assms(1-3), of 0 budget "cl_chunk limits" r b s'] assms(4)
  by (auto simp: compare_contents_def check_meaning_def ret_def split: if_splits)

subsection \<open>Nothing is left out\<close>

text \<open>The file a listing has under a name: the last entry of that name which is no folder.\<close>

definition last_file :: "file_entry list \<Rightarrow> string \<Rightarrow> file_entry option" where
  "last_file es n =
     (case filter (\<lambda>f. \<not> is_dir f \<and> fe_name f = n) es of [] \<Rightarrow> None | fs \<Rightarrow> Some (last fs))"

lemma last_file_simps [simp]:
  "last_file [] n = None"
  "last_file (f # es) n = (case last_file es n of Some g \<Rightarrow> Some g
     | None \<Rightarrow> if \<not> is_dir f \<and> fe_name f = n then Some f else None)"
  by (simp_all add: last_file_def split: list.split)

definition planned :: "sync_options \<Rightarrow> file_entry option \<Rightarrow> file_entry option \<Rightarrow> bool" where
  "planned options l r =
     (case (l, r) of (Some _, Some _) \<Rightarrow> True | (Some _, None) \<Rightarrow> only_local options \<noteq> None
      | (None, Some _) \<Rightarrow> only_remote options \<noteq> None | (None, None) \<Rightarrow> False)"

definition item_sizes :: "(string \<Rightarrow> file_entry option) \<Rightarrow> (string \<Rightarrow> file_entry option) \<Rightarrow> sync_item \<Rightarrow> bool" where
  "item_sizes l r i = (si_local_size i = map_option fe_size (l (si_path i)) \<and>
                       si_remote_size i = map_option fe_size (r (si_path i)))"

lemma split_entries_files:
  "split_entries es (m, d) = (m', d') \<Longrightarrow>
     bm_get m' n = (case last_file es n of Some f \<Rightarrow> Some f | None \<Rightarrow> bm_get m n) \<and>
     set (map fst m') = set (map fst m) \<union> fe_name ` {f \<in> set es. \<not> is_dir f}"
proof (induction es arbitrary: m d)
  case (Cons f es)
  then show ?case
    by (auto split: if_splits option.splits)
qed simp

lemma plan_name_paths:
  "map si_path (fst (plan_name options pre ld rd n l r acc)) =
     map si_path (fst acc) @ (if planned options l r then [join_rel pre n] else [])"
  by (cases acc) (auto simp: plan_name_def planned_def item_of_def Let_def split: option.split)

lemma plan_names_paths:
  "map si_path (fst (plan_names options pre ld rd lm rm ns acc)) =
     map si_path (fst acc) @ map (join_rel pre) (filter (\<lambda>n. planned options (bm_get lm n) (bm_get rm n)) ns)"
  by (induction ns arbitrary: acc) (simp_all add: plan_name_paths)

lemma plan_name_sizes:
  "list_all (item_sizes l r) (fst acc) \<Longrightarrow> list_all (item_sizes l r) (fst (plan_name options [] ld rd n (l n) (r n) acc))"
  by (cases acc) (auto simp: plan_name_def item_sizes_def item_of_def join_rel_def Let_def split: option.split)

lemma plan_names_sizes:
  "list_all (item_sizes (bm_get lm) (bm_get rm)) (fst acc) \<Longrightarrow>
   list_all (item_sizes (bm_get lm) (bm_get rm)) (fst (plan_names options [] ld rd lm rm ns acc))"
  by (induction ns arbitrary: acc) (simp_all add: plan_name_sizes)

lemma set_action_keeps:
  "map si_path (set_action res c plan) = map si_path plan"
  "list_all (item_sizes lf rf) plan \<Longrightarrow> list_all (item_sizes lf rf) (set_action res c plan)"
proof -
  have p: "map si_path (plan[k := (plan ! k)\<lparr>si_action := a\<rparr>]) = map si_path plan" for k a
    by (cases "k < length plan") (simp_all add: map_update list_update_same_conv list_update_beyond)
  have s: "list_all (item_sizes lf rf) (plan[k := (plan ! k)\<lparr>si_action := a\<rparr>])" if "list_all (item_sizes lf rf) plan" for k a
    using that by (cases "k < length plan")
      (auto simp: list_update_beyond list_all_iff item_sizes_def dest!: set_update_subset_insert [THEN subsetD])
  show "map si_path (set_action res c plan) = map si_path plan" by (cases res) (simp_all add: p)
  show "list_all (item_sizes lf rf) plan \<Longrightarrow> list_all (item_sizes lf rf) (set_action res c plan)"
    by (cases res) (simp_all add: s)
qed

lemma run_checks_keeps:
  "run_checks lv rv limits cs budget plan s = ((plan', b), s') \<Longrightarrow>
   map si_path plan' = map si_path plan \<and>
   (list_all (item_sizes lf rf) plan \<longrightarrow> list_all (item_sizes lf rf) plan')"
proof (induction cs arbitrary: budget plan s)
  case (Cons c cs)
  obtain r b1 t where "compare_contents lv rv c limits budget s = ((r, b1), t)" by (metis prod.exhaust)
  then show ?case using Cons set_action_keeps [where res = r and c = c and plan = plan] by (fastforce simp: andThen_def)
qed (simp add: ret_def)

text \<open>
  A comparison that does not go into subfolders has, in the order of their names and once each,
  the files that are on both sides, and those on one side when the direction acts on them; folders
  and everything else are left out. The sizes of an item are those the listings give.
\<close>

theorem flat_plan_complete:
  assumes "\<not> so_recursive options" and "v_list_dir lv local_dir s = (Inr ls, t)" and "v_list_dir rv remote_dir t = (Inr rs, u)"
    and "compare_with_limits lv rv local_dir remote_dir options limits s = (Inr plan, s')"
  shows "map si_path plan =
           filter (\<lambda>n. planned options (last_file ls n) (last_file rs n))
             (bs_of (map fe_name (filter (\<lambda>f. \<not> is_dir f) (ls @ rs)))) \<and>
         set plan \<subseteq> {i. si_local_size i = map_option fe_size (last_file ls (si_path i)) \<and>
                        si_remote_size i = map_option fe_size (last_file rs (si_path i))}"
proof -
  obtain lm ldirs rm rdirs where e: "split_entries ls ([], []) = (lm, ldirs)" "split_entries rs ([], []) = (rm, rdirs)"
    by fastforce
  have get: "bm_get lm = last_file ls" "bm_get rm = last_file rs"
    using split_entries_files [OF e(1)] split_entries_files [OF e(2)] by (auto simp: fun_eq_iff split: option.splits)
  have keys: "bs_of (map fst lm @ map fst rm) = bs_of (map fe_name (filter (\<lambda>f. \<not> is_dir f) (ls @ rs)))"
    by (rule bset_eqI) (use split_entries_files [OF e(1)] split_entries_files [OF e(2)] in auto)
  define acc where "acc = plan_files options [] (Some local_dir) (Some remote_dir) lm rm ([], [])"
  obtain p checks where acc': "acc = (p, checks)" by (cases acc)
  have walk: "walk lv rv options 0 [([], Some local_dir, Some remote_dir, 0)] ([], []) s = (Inr (p, checks), u)"
    using assms(2,3) e by (simp add: walk.simps list_opt_def list_side_def andThen_def ret_def sub_folders_def
        acc' [symmetric] acc_def)
  obtain p' b v where run: "run_checks lv rv limits (sort_key cc_size checks) (cl_budget limits) p u = ((p', b), v)"
    by (metis prod.exhaust)
  have plan: "plan = sort_key si_path p'"
    using assms(1,4) walk run by (simp add: compare_with_limits_def sync_depth_def andThen_def ret_def)
  have "map si_path (fst acc) = filter (\<lambda>n. planned options (last_file ls n) (last_file rs n))
             (bs_of (map fe_name (filter (\<lambda>f. \<not> is_dir f) (ls @ rs))))"
    unfolding acc_def plan_files_def keys plan_names_paths get by (simp add: join_rel_def [abs_def])
  then have paths: "map si_path p = filter (\<lambda>n. planned options (last_file ls n) (last_file rs n))
             (bs_of (map fe_name (filter (\<lambda>f. \<not> is_dir f) (ls @ rs))))"
    by (simp only: acc' fst_conv)
  have "list_all (item_sizes (last_file ls) (last_file rs)) (fst acc)"
    unfolding acc_def plan_files_def get [symmetric] by (rule plan_names_sizes) simp
  then have "list_all (item_sizes (last_file ls) (last_file rs)) p"
    by (simp only: acc' fst_conv)
  then have "map si_path p' = map si_path p" and sizes: "list_all (item_sizes (last_file ls) (last_file rs)) p'"
    using run_checks_keeps [OF run] by blast+
  moreover have "sorted (map si_path p)" 
    unfolding paths using bset_ok_filter [OF bset_ok_of] unfolding bset_ok_def by blast
  ultimately have "plan = p'" by (simp add: plan sort_key_id_if_sorted)
  then show ?thesis using paths sizes \<open>map si_path p' = map si_path p\<close>
    by (auto simp: list_all_iff item_sizes_def)
qed

subsection \<open>Where the items of a plan come from\<close>

text \<open>The worlds a comparison passes while it lists folders.\<close>

inductive during :: "'w vfs \<Rightarrow> 'w vfs \<Rightarrow> 'w \<Rightarrow> 'w \<Rightarrow> bool" for lv rv s where
  during_start: "during lv rv s s"
| during_local: "during lv rv s w \<Longrightarrow> v_list_dir lv d w = (r, w') \<Longrightarrow> during lv rv s w'"
| during_remote: "during lv rv s w \<Longrightarrow> v_list_dir rv d w = (r, w') \<Longrightarrow> during lv rv s w'"

text \<open>A successful listing of a folder; a folder that is not there holds nothing.\<close>

definition shown :: "'w vfs \<Rightarrow> 'w vfs \<Rightarrow> 'w \<Rightarrow> 'w vfs \<Rightarrow> string option \<Rightarrow> file_entry list \<Rightarrow> bool" where
  "shown lv rv s fs dir es =
     (case dir of None \<Rightarrow> es = [] | Some d \<Rightarrow> \<exists>w w'. during lv rv s w \<and> v_list_dir fs d w = (Inr es, w'))"

definition has_folder :: "file_entry list \<Rightarrow> string \<Rightarrow> bool" where
  "has_folder es name = list_ex (\<lambda>f. is_dir f \<and> fe_name f = name) es"

text \<open>
  The folders compared with each other, by their path below the roots: a side is missing only when a
  successful listing of the folder above does not have it.
\<close>

inductive folder_pair :: "'w vfs \<Rightarrow> 'w vfs \<Rightarrow> 'w \<Rightarrow> string \<Rightarrow> string \<Rightarrow> string \<Rightarrow> string option \<Rightarrow> string option \<Rightarrow> bool"
  for lv rv s local_dir remote_dir where
  pair_root: "folder_pair lv rv s local_dir remote_dir [] (Some local_dir) (Some remote_dir)"
| pair_sub: "folder_pair lv rv s local_dir remote_dir pre l r \<Longrightarrow> shown lv rv s lv l ls \<Longrightarrow> shown lv rv s rv r rs \<Longrightarrow>
     has_folder ls name \<or> has_folder rs name \<Longrightarrow>
     folder_pair lv rv s local_dir remote_dir (join_rel pre name)
       (if has_folder ls name then map_option (\<lambda>d. join_dir d name) l else None)
       (if has_folder rs name then map_option (\<lambda>d. join_dir d name) r else None)"

text \<open>An item that says what successful listings of both its folders have under its name.\<close>

definition backed :: "'w vfs \<Rightarrow> 'w vfs \<Rightarrow> 'w \<Rightarrow> string \<Rightarrow> string \<Rightarrow> sync_item \<Rightarrow> bool" where
  "backed lv rv s local_dir remote_dir i =
     (\<exists>pre name l r ls rs. folder_pair lv rv s local_dir remote_dir pre l r \<and>
        shown lv rv s lv l ls \<and> shown lv rv s rv r rs \<and> si_path i = join_rel pre name \<and>
        si_local_size i = map_option fe_size (last_file ls name) \<and>
        si_remote_size i = map_option fe_size (last_file rs name) \<and>
        si_local_modified i = Option.bind (last_file ls name) modified_at \<and>
        si_remote_modified i = Option.bind (last_file rs name) modified_at)"

lemma backed_action [simp]: "backed lv rv s ld rd (i\<lparr>si_action := a\<rparr>) = backed lv rv s ld rd i"
  by (simp add: backed_def)

lemma split_entries_dirs:
  "split_entries es (m, d) = (m', d') \<Longrightarrow> set d' = set d \<union> {n. has_folder es n}"
proof (induction es arbitrary: m d)
  case (Cons f es)
  then show ?case by (auto simp: has_folder_def split: if_splits)
qed (auto simp: has_folder_def)

lemma plan_name_adds:
  "fst (plan_name options pre ld rd n l r acc) = fst acc \<or>
    (\<exists>a. fst (plan_name options pre ld rd n l r acc) = fst acc @ [item_of (join_rel pre n) a l r])"
proof (cases acc)
  case (Pair plan checks)
  show ?thesis
    by (cases l; cases r; cases "only_local options"; cases "only_remote options")
      (auto simp: Pair plan_name_def Let_def)
qed

lemma plan_name_backed:
  assumes "folder_pair lv rv s local_dir remote_dir pre l r" "shown lv rv s lv l ls" "shown lv rv s rv r rs"
    and "list_all (backed lv rv s local_dir remote_dir) (fst acc)"
  shows "list_all (backed lv rv s local_dir remote_dir)
    (fst (plan_name options pre ld rd n (last_file ls n) (last_file rs n) acc))"
proof -
  have item: "backed lv rv s local_dir remote_dir (item_of (join_rel pre n) a (last_file ls n) (last_file rs n))" for a
    unfolding backed_def using assms(1-3)
    by (rule_tac exI [of _ pre], rule_tac exI [of _ n], rule_tac exI [of _ l], rule_tac exI [of _ r],
        rule_tac exI [of _ ls], rule_tac exI [of _ rs]) (simp add: item_of_def)
  show ?thesis
    using plan_name_adds [of options pre ld rd n "last_file ls n" "last_file rs n" acc] assms(4) item
    by (elim disjE exE) simp_all
qed

lemma plan_names_backed:
  assumes "folder_pair lv rv s local_dir remote_dir pre l r" "shown lv rv s lv l ls" "shown lv rv s rv r rs"
    and "bm_get lm = last_file ls" "bm_get rm = last_file rs"
  shows "list_all (backed lv rv s local_dir remote_dir) (fst acc) \<Longrightarrow>
    list_all (backed lv rv s local_dir remote_dir) (fst (plan_names options pre ld rd lm rm ns acc))"
  by (induction ns arbitrary: acc) (simp_all add: plan_name_backed [OF assms(1-3)] assms(4,5))

lemma list_opt_shown:
  assumes "list_opt fs dir side w = (Inr es, w')" and "during lv rv s w" and "fs = lv \<or> fs = rv"
  shows "shown lv rv s fs dir es \<and> during lv rv s w'"
proof (cases dir)
  case (Some d)
  obtain r u where r: "v_list_dir fs d w = (r, u)" by fastforce
  then have "r = Inr es" "u = w'" using assms(1) Some by (auto simp: list_opt_def list_side_def andThen_def ret_def split: sum.splits)
  then have u: "v_list_dir fs d w = (Inr es, w')" using r by simp
  then have "during lv rv s w'" using assms(2,3) by (metis during_local during_remote)
  then show ?thesis using u assms(2) Some by (auto simp: shown_def)
qed (use assms in \<open>simp add: list_opt_def ret_def shown_def\<close>)

lemma walk_backed:
  assumes "list_all (\<lambda>(pre, l, r, _). folder_pair lv rv s0 local_dir remote_dir pre l r) stack"
    and "list_all (backed lv rv s0 local_dir remote_dir) (fst acc)" and "during lv rv s0 s"
    and "walk lv rv options m stack acc s = (Inr acc', s')"
  shows "list_all (backed lv rv s0 local_dir remote_dir) (fst acc')"
  using assms
proof (induction lv rv options m stack acc arbitrary: s rule: walk.induct)
  case (1 lv rv options m acc)
  then show ?case by (simp add: walk.simps ret_def)
next
  case (2 lv rv options m pre ld rd depth stack acc)
  obtain l t where l: "list_opt lv ld ''local'' s = (l, t)" by fastforce
  obtain r u where r: "list_opt rv rd ''remote'' t = (r, u)" by fastforce
  obtain ls rs where lr: "l = Inr ls" "r = Inr rs"
    using 2(5) l r by (cases l; cases r) (auto simp: walk.simps andThen_def ret_def)
  obtain lm ldirs rm rdirs where e: "split_entries ls ([], []) = (lm, ldirs)" "split_entries rs ([], []) = (rm, rdirs)"
    by fastforce
  have get: "bm_get lm = last_file ls" "bm_get rm = last_file rs"
    using split_entries_files [OF e(1)] split_entries_files [OF e(2)] by (auto simp: fun_eq_iff split: option.splits)
  have dirs: "set ldirs = {n. has_folder ls n}" "set rdirs = {n. has_folder rs n}"
    using split_entries_dirs [OF e(1)] split_entries_dirs [OF e(2)] by simp_all
  have pair: "folder_pair lv rv s0 local_dir remote_dir pre ld rd" using 2(2) by simp
  have sl: "shown lv rv s0 lv ld ls" "during lv rv s0 t" using list_opt_shown [OF l [unfolded lr] 2(4)] by simp_all
  have sr: "shown lv rv s0 rv rd rs" "during lv rv s0 u" using list_opt_shown [OF r [unfolded lr] sl(2)] by simp_all
  have ok: "list_all (backed lv rv s0 local_dir remote_dir) (fst (plan_files options pre ld rd lm rm acc))"
    unfolding plan_files_def by (rule plan_names_backed [OF pair sl(1) sr(1) get 2(3)])
  have "folder_pair lv rv s0 local_dir remote_dir (join_rel pre n)
      (if n \<in> set ldirs then map_option (\<lambda>d. join_dir d n) ld else None)
      (if n \<in> set rdirs then map_option (\<lambda>d. join_dir d n) rd else None)" if "n \<in> set (ldirs @ rdirs)" for n
    using pair_sub [OF pair sl(1) sr(1), of n] that dirs by simp
  then have subs: "list_all (\<lambda>(pre, l, r, _). folder_pair lv rv s0 local_dir remote_dir pre l r)
      (sub_folders m pre ld rd depth ldirs rdirs @ stack)"
    using 2(2) by (auto simp: list_all_iff sub_folders_def sub_folder_def)
  have run: "walk lv rv options m (sub_folders m pre ld rd depth ldirs rdirs @ stack)
      (plan_files options pre ld rd lm rm acc) u = (Inr acc', s')"
    using 2(5) l r lr e by (simp add: walk.simps andThen_def)
  show ?case by (rule 2(1) [OF refl e(1) [symmetric] e(2) [symmetric] subs ok sr(2) run])
qed

lemma set_action_backed:
  "list_all (backed lv rv s ld rd) plan \<Longrightarrow> list_all (backed lv rv s ld rd) (set_action res c plan)"
proof -
  assume "list_all (backed lv rv s ld rd) plan"
  then have "list_all (backed lv rv s ld rd) (plan[k := (plan ! k)\<lparr>si_action := a\<rparr>])" for k a
    by (cases "k < length plan") (auto simp: list_update_beyond list_all_iff dest!: set_update_subset_insert [THEN subsetD])
  then show ?thesis using \<open>list_all (backed lv rv s ld rd) plan\<close> by (cases res) simp_all
qed

lemma run_checks_backed:
  "run_checks lv' rv' limits cs budget plan w = ((plan', b), w') \<Longrightarrow>
   list_all (backed lv rv s ld rd) plan \<Longrightarrow> list_all (backed lv rv s ld rd) plan'"
proof (induction cs arbitrary: budget plan w)
  case (Cons c cs)
  obtain r b1 t where "compare_contents lv' rv' c limits budget w = ((r, b1), t)" by (metis prod.exhaust)
  then show ?case using Cons set_action_backed [of lv rv s ld rd plan r c] by (auto simp: andThen_def)
qed (simp add: ret_def)

lemma compare_backed:
  assumes "compare_with_limits lv rv ld rd options limits s = (Inr plan, s')"
  shows "list_all (backed lv rv s ld rd) plan"
proof -
  obtain w t where w: "walk lv rv options (sync_depth options) [([], Some ld, Some rd, 0)] ([], []) s = (w, t)" by fastforce
  obtain p checks where acc: "w = Inr (p, checks)" using assms w by (cases w) (auto simp: compare_with_limits_def andThen_def ret_def)
  obtain p' b u where c: "run_checks lv rv limits (sort_key cc_size checks) (cl_budget limits) p t = ((p', b), u)"
    by (metis prod.exhaust)
  have "list_all (backed lv rv s ld rd) (fst (p, checks))"
    by (rule walk_backed [OF _ _ during_start w [unfolded acc]]) (simp_all add: pair_root)
  then have "list_all (backed lv rv s ld rd) p'" using run_checks_backed [OF c] by simp
  moreover have "plan = sort_key si_path p'" using assms w acc c by (simp add: compare_with_limits_def andThen_def ret_def)
  ultimately show ?thesis by (simp add: list_all_iff)
qed


end
