(* ===== verification/SyncExample.thy ===== *)
theory SyncExample
  imports SyncPlan TransferExample
begin

section \<open>A comparison in memory\<close>

text \<open>
  Two sessions that keep their files in memory are compared in both directions: the same file has the
  same size on both sides, is newer on this one, and its bytes differ.
\<close>


definition ex_entry :: "int \<Rightarrow> file_entry" where
  "ex_entry t = (entry_of ''f'' 3)\<lparr>modified_at := Some t\<rparr>"

definition ex_local :: "store vfs" where
  "ex_local = mem_session fst apfst (\<lambda>_. [ex_entry 9000000000]) Local"

definition ex_remote :: "store vfs" where
  "ex_remote = mem_session snd apsnd (\<lambda>_. [ex_entry 0]) Sftp"

definition ex_world :: store where
  "ex_world = ([''/a/f'' \<mapsto> [1, 2, 3]], [''/b/f'' \<mapsto> [1, 2, 9]])"

definition ex_both :: sync_options where
  "ex_both = default_sync_options\<lparr>so_direction := Both\<rparr>"

definition ex_limits :: check_limits where
  "ex_limits = \<lparr>cl_max_file = 10, cl_budget = 10, cl_chunk = 2\<rparr>"

definition ex_check :: content_check where
  "ex_check = \<lparr>cc_index = 0, cc_local_path = ''/a/f'', cc_remote_path = ''/b/f'', cc_size = 3, cc_if_differs = Upload\<rparr>"

lemma ex_contents: "compare_contents ex_local ex_remote ex_check ex_limits 10 ex_world = ((CC_Differs, 7), ex_world)"
  by (simp add: compare_contents_def compare_loop.simps ex_check_def ex_limits_def ex_local_def ex_remote_def
      mem_session_def mem_read_def ex_world_def andThen_def ret_def)

lemma ex_plan:
  "compare_with_limits ex_local ex_remote ''/a'' ''/b'' ex_both ex_limits ex_world =
     (Inr [item_of ''f'' Upload (Some (ex_entry 9000000000)) (Some (ex_entry 0))], ex_world)"
proof -
  have ls: "list_opt ex_local (Some d) side ex_world = (Inr [ex_entry 9000000000], ex_world)"
    "list_opt ex_remote (Some d) side ex_world = (Inr [ex_entry 0], ex_world)" for d side
    by (simp_all add: list_opt_def list_side_def ex_local_def ex_remote_def mem_session_def andThen_def ret_def)
  have files: "plan_files ex_both [] (Some ''/a'') (Some ''/b'')
      [(''f'', ex_entry 9000000000)] [(''f'', ex_entry 0)] ([], []) =
      ([item_of ''f'' Upload (Some (ex_entry 9000000000)) (Some (ex_entry 0))], [ex_check])"
    by code_simp
  have "\<not> is_dir (ex_entry t)" "fe_name (ex_entry t) = ''f''" for t
    by (simp_all add: ex_entry_def entry_of_def is_dir_def split_name_def) code_simp
  note entry = this
  have "walk ex_local ex_remote ex_both 0 [([], Some ''/a'', Some ''/b'', 0)] ([], []) ex_world =
      (Inr ([item_of ''f'' Upload (Some (ex_entry 9000000000)) (Some (ex_entry 0))], [ex_check]), ex_world)"
    by (simp add: walk.simps andThen_def ls entry files sub_folders_def ret_def)
  moreover have "sync_depth ex_both = 0" by code_simp
  ultimately show ?thesis
    using ex_contents
    by (simp add: compare_with_limits_def andThen_def ret_def ex_limits_def ex_check_def item_of_def)
qed


lemma compare_contents_correct_witness: "[1, 2, 3] \<noteq> ([1, 2, 9] :: bytes) \<and> 10 - 7 \<le> cc_size ex_check"
proof -
  have l: "range_law {ex_world} ex_local (cc_local_path ex_check) [1, 2, 3]"
    by (auto simp: range_law_def ex_local_def mem_session_def mem_read_def ex_world_def ex_check_def)
  have r: "range_law {ex_world} ex_remote (cc_remote_path ex_check) [1, 2, 9]"
    by (auto simp: range_law_def ex_remote_def mem_session_def mem_read_def ex_world_def ex_check_def)
  show ?thesis using compare_contents_correct [OF l r singletonI ex_contents] by simp
qed

lemma flat_plan_complete_witness:
  "[''f''] = filter (\<lambda>n. planned ex_both (last_file [ex_entry 9000000000] n) (last_file [ex_entry 0] n))
     (bs_of (map fe_name (filter (\<lambda>f. \<not> is_dir f) ([ex_entry 9000000000] @ [ex_entry 0]))))"
proof -
  have flat: "\<not> so_recursive ex_both" by (simp add: ex_both_def default_sync_options_def)
  have l: "v_list_dir ex_local ''/a'' ex_world = (Inr [ex_entry 9000000000], ex_world)"
    and r: "v_list_dir ex_remote ''/b'' ex_world = (Inr [ex_entry 0], ex_world)"
    by (simp_all add: ex_local_def ex_remote_def mem_session_def)
  show ?thesis using conjunct1 [OF flat_plan_complete [OF flat l r ex_plan]] by (simp add: item_of_def)
qed

end
