(* ===== verification/ContinuousSync.thy ===== *)
theory ContinuousSync
  imports Machine CoreTypes "HOL-Library.AList"
begin

section \<open>Keeping the remote side up to date\<close>

text \<open>
  Models \<open>crates/rustscp-core/src/continuous_sync.rs\<close>: the coalescing of raw file-system
  notifications per path, the polls that report the settled ones, and the worker that hands the
  events to the consumer. A path is the list of its components. The clock and what the disk shows
  during a poll are arguments. Times are counted in nanoseconds. The hash map of the waiting paths
  is a list of pairs in the order in which the map is gone through.
\<close>

subsection \<open>Data\<close>

type_synonym path = "string list"

datatype watch_event_kind = Changed | Removed

record watch_event =
  we_path :: path
  we_relative :: string
  we_is_dir :: bool
  we_kind :: watch_event_kind

definition is_removal :: "watch_event \<Rightarrow> bool" where
  "is_removal e = (we_kind e = Removed)"

definition from_millis :: "nat \<Rightarrow> nat" where "from_millis n = n * 1000000"

definition DEFAULT_DEBOUNCE :: nat where "DEFAULT_DEBOUNCE = from_millis 750"
definition STABILITY_RECHECK :: nat where "STABILITY_RECHECK = from_millis 300"
definition MAX_PENDING :: nat where "MAX_PENDING = from_millis 10000"
definition MAX_DIR_WALK_ENTRIES :: nat where "MAX_DIR_WALK_ENTRIES = 20000"
definition MAX_OUTBOX :: nat where "MAX_OUTBOX = 100000"
definition MAX_KNOWN_PATHS :: nat where "MAX_KNOWN_PATHS = 200000"

definition DEFAULT_IGNORED_DIRS :: "string list" where
  "DEFAULT_IGNORED_DIRS = [''.git'', ''node_modules'', ''.svn'', ''.hg'']"

definition temporary_name :: "string \<Rightarrow> bool" where
  "temporary_name name =
     (let lower = to_ascii_lowercase name in
      ends_with lower ''.tmp'' \<or> ends_with lower ''.swp'' \<or> ends_with lower ''.swx'' \<or> ends_with lower ''.crdownload''
      \<or> ends_with name ''~'' \<or> starts_with name ''.#'' \<or> starts_with name ''~$'' \<or> name = ''.DS_Store''
      \<or> ends_with name ''___jb_tmp___'' \<or> ends_with name ''___jb_old___'')"

fun is_ignored_from :: "string option \<Rightarrow> path \<Rightarrow> string list \<Rightarrow> bool" where
  "is_ignored_from last_name [] ignored = (case last_name of Some name \<Rightarrow> temporary_name name | None \<Rightarrow> False)"
| "is_ignored_from last_name (c # cs) ignored = (c \<in> set ignored \<or> is_ignored_from (Some c) cs ignored)"

definition is_ignored_path :: "path \<Rightarrow> string list \<Rightarrow> bool" where
  "is_ignored_path rel ignored = is_ignored_from None rel ignored"

subsection \<open>Raw notifications\<close>

record raw_hint =
  h_created :: bool
  h_gone :: bool
  h_renamed :: bool

definition hint_of :: "bool \<Rightarrow> bool \<Rightarrow> bool \<Rightarrow> raw_hint" where
  "hint_of created gone renamed = \<lparr>h_created = created, h_gone = gone, h_renamed = renamed\<rparr>"

text \<open>The kinds of a notification the code tells apart, and the rest.\<close>

datatype event_kind = Kind_Access | Kind_Metadata | Kind_Create | Kind_Remove | Kind_Name_Both | Kind_Name_From
  | Kind_Name_Other | Kind_Other

fun classify_event :: "event_kind \<Rightarrow> path list \<Rightarrow> (path \<times> raw_hint) list" where
  "classify_event Kind_Access ps = []"
| "classify_event Kind_Metadata ps = []"
| "classify_event Kind_Create ps = map (\<lambda>p. (p, hint_of True False False)) ps"
| "classify_event Kind_Remove ps = map (\<lambda>p. (p, hint_of False True False)) ps"
| "classify_event Kind_Name_Both [] = []"
| "classify_event Kind_Name_Both (src # ps) =
     (src, hint_of False True False) # map (\<lambda>p. (p, hint_of False False True)) ps"
| "classify_event Kind_Name_From ps = map (\<lambda>p. (p, hint_of False True False)) ps"
| "classify_event Kind_Name_Other ps = map (\<lambda>p. (p, hint_of False True True)) ps"
| "classify_event Kind_Other ps = map (\<lambda>p. (p, hint_of False False False)) ps"

subsection \<open>The debouncer\<close>

type_synonym signature = "nat \<times> int option"

record pending =
  pd_first_seen :: nat
  pd_hint :: raw_hint
  pd_last_sig :: "signature option"
  pd_next_check :: nat

record debouncer =
  db_roots :: "path list"
  db_excluded :: "path list"
  db_ignored_dirs :: "string list"
  db_debounce :: nat
  db_pending :: "(path \<times> pending) list"
  db_known :: "path list"

definition remember_one :: "watch_event \<Rightarrow> path list \<Rightarrow> path list" where
  "remember_one e known =
     (if is_removal e then removeAll (we_path e) known
      else List.insert (we_path e) (if length known \<ge> MAX_KNOWN_PATHS then [] else known))"

definition remember :: "watch_event list \<Rightarrow> debouncer \<Rightarrow> debouncer" where
  "remember es db = db\<lparr>db_known := fold remember_one es (db_known db)\<rparr>"

fun relative_to :: "path list \<Rightarrow> path \<Rightarrow> path option" where
  "relative_to [] p = None"
| "relative_to (root # roots) p =
     (if prefix root p
      then (let rel = drop (length root) p in if rel = [] then None else Some rel)
      else relative_to roots p)"

definition relative_path :: "debouncer \<Rightarrow> path \<Rightarrow> path option" where
  "relative_path db p = (if list_ex (\<lambda>ex. prefix ex p) (db_excluded db) then None else relative_to (db_roots db) p)"

definition merge_hint :: "raw_hint \<Rightarrow> raw_hint \<Rightarrow> raw_hint" where
  "merge_hint h k = hint_of (h_created h \<or> h_created k) (h_gone h \<or> h_gone k) (h_renamed h \<or> h_renamed k)"

definition record_entry :: "debouncer \<Rightarrow> raw_hint \<Rightarrow> nat \<Rightarrow> pending \<Rightarrow> pending" where
  "record_entry db hint now entry =
     entry\<lparr>pd_next_check := min (now + db_debounce db) (pd_first_seen entry + MAX_PENDING), pd_last_sig := None,
           pd_hint := merge_hint (pd_hint entry) hint\<rparr>"

definition record_hint :: "path \<Rightarrow> raw_hint \<Rightarrow> nat \<Rightarrow> debouncer \<Rightarrow> debouncer" where
  "record_hint p hint now db =
     (case relative_path db p of
        None \<Rightarrow> db
      | Some rel \<Rightarrow>
          if is_ignored_path rel (db_ignored_dirs db) then db
          else let entry = (case map_of (db_pending db) p of Some e \<Rightarrow> e
                   | None \<Rightarrow> \<lparr>pd_first_seen = now, pd_hint = hint_of False False False, pd_last_sig = None,
                             pd_next_check = now + db_debounce db\<rparr>)
               in db\<lparr>db_pending := AList.update p (record_entry db hint now entry) (db_pending db)\<rparr>)"

definition make_event :: "debouncer \<Rightarrow> path \<Rightarrow> bool \<Rightarrow> watch_event_kind \<Rightarrow> watch_event option" where
  "make_event db p dir kind =
     (case relative_path db p of
        None \<Rightarrow> None
      | Some rel \<Rightarrow> Some \<lparr>we_path = p, we_relative = join ''/'' rel, we_is_dir = dir, we_kind = kind\<rparr>)"

subsection \<open>What a poll sees of the disk\<close>

record meta =
  mt_is_symlink :: bool
  mt_is_dir :: bool
  mt_len :: nat
  mt_modified :: "int option"

datatype lstat = Found meta | Not_Found | Stat_Error

text \<open>\<open>dk_read_dir\<close>: the names of a folder with their types, or \<open>None\<close> when it cannot be read; the type
  is \<open>None\<close> where it is not known.\<close>

record disk =
  dk_symlink_metadata :: "path \<Rightarrow> lstat"
  dk_metadata :: "path \<Rightarrow> meta option"
  dk_read_dir :: "path \<Rightarrow> (string \<times> bool option) list option"

subsection \<open>A folder that just appeared\<close>

record dir_walk =
  dw_stack :: "path list"
  dw_out :: "watch_event list"
  dw_emitted :: nat

fun walk_entries :: "debouncer \<Rightarrow> path \<Rightarrow> (string \<times> bool option) list \<Rightarrow> dir_walk \<Rightarrow> bool \<times> dir_walk" where
  "walk_entries db d [] w = (True, w)"
| "walk_entries db d ((name, kind) # es) w =
     (if dw_emitted w \<ge> MAX_DIR_WALK_ENTRIES then (False, w)
      else let p = d @ [name] in
        case relative_path db p of
          None \<Rightarrow> walk_entries db d es w
        | Some rel \<Rightarrow>
            if is_ignored_path rel (db_ignored_dirs db) then walk_entries db d es w
            else case kind of
              None \<Rightarrow> walk_entries db d es w
            | Some dir \<Rightarrow>
                let w' = (if dir then w\<lparr>dw_stack := p # dw_stack w\<rparr> else w) in
                case make_event db p dir Changed of
                  None \<Rightarrow> walk_entries db d es w'
                | Some e \<Rightarrow> walk_entries db d es (w'\<lparr>dw_out := dw_out w @ [e], dw_emitted := dw_emitted w + 1\<rparr>))"

lemma walk_entries_rank:
  "walk_entries db d es w = (go, w') \<Longrightarrow>
     length (dw_stack w') + (MAX_DIR_WALK_ENTRIES - dw_emitted w') \<le> length (dw_stack w) + (MAX_DIR_WALK_ENTRIES - dw_emitted w)"
proof (induction db d es w rule: walk_entries.induct)
  case (2 db d name kind es w)
  then show ?case
    by (fastforce simp: Let_def make_event_def split: if_splits option.splits)
qed simp

function walk_dirs :: "debouncer \<Rightarrow> disk \<Rightarrow> dir_walk \<Rightarrow> watch_event list" where
  "walk_dirs db dk w =
     (case dw_stack w of
        [] \<Rightarrow> dw_out w
      | d # stack \<Rightarrow>
          (case dk_read_dir dk d of
             None \<Rightarrow> walk_dirs db dk (w\<lparr>dw_stack := stack\<rparr>)
           | Some es \<Rightarrow>
               (case walk_entries db d es (w\<lparr>dw_stack := stack\<rparr>) of
                  (go, w') \<Rightarrow> if go then walk_dirs db dk w' else dw_out w')))"
  by pat_completeness auto

termination
  by (relation "measure (\<lambda>(db, dk, w). length (dw_stack w) + (MAX_DIR_WALK_ENTRIES - dw_emitted w))")
    (auto dest!: sym [of "(_, _)"] walk_entries_rank)

declare walk_dirs.simps [simp del]

definition walk_new_dir :: "debouncer \<Rightarrow> disk \<Rightarrow> path \<Rightarrow> watch_event list" where
  "walk_new_dir db dk dir = walk_dirs db dk \<lparr>dw_stack = [dir], dw_out = [], dw_emitted = 0\<rparr>"

subsection \<open>A poll\<close>

record poll_state =
  po_pending :: "(path \<times> pending) list"
  po_dirs :: "watch_event list"
  po_files :: "watch_event list"
  po_removed :: "path list"

definition forget :: "path \<Rightarrow> poll_state \<Rightarrow> poll_state" where
  "forget p s = s\<lparr>po_pending := AList.delete p (po_pending s)\<rparr>"

text \<open>What a path is: a link counts as what it points to, one that points nowhere as an error.\<close>

definition followed :: "disk \<Rightarrow> path \<Rightarrow> lstat" where
  "followed dk p =
     (case dk_symlink_metadata dk p of
        Found m \<Rightarrow> (if mt_is_symlink m then (case dk_metadata dk p of Some m' \<Rightarrow> Found m' | None \<Rightarrow> Stat_Error)
                    else Found m)
      | r \<Rightarrow> r)"

definition settle_dir :: "debouncer \<Rightarrow> disk \<Rightarrow> path \<Rightarrow> raw_hint \<Rightarrow> poll_state \<Rightarrow> poll_state" where
  "settle_dir db dk p hint s =
     (if h_created hint \<or> h_renamed hint \<or> h_gone hint
      then let own = (case make_event db p True Changed of Some e \<Rightarrow> [e] | None \<Rightarrow> []);
               children = walk_new_dir db dk p in
        s\<lparr>po_dirs := po_dirs s @ own @ filter we_is_dir children,
          po_files := po_files s @ filter (\<lambda>e. \<not> we_is_dir e) children\<rparr>
      else s)"

definition settle_file :: "debouncer \<Rightarrow> nat \<Rightarrow> path \<Rightarrow> pending \<Rightarrow> signature \<Rightarrow> poll_state \<Rightarrow> poll_state" where
  "settle_file db now p pd sig s =
     (let overdue = (now - pd_first_seen pd \<ge> MAX_PENDING) in
      if pd_last_sig pd = Some sig \<or> overdue
      then (forget p s)\<lparr>po_files := po_files s @ (case make_event db p False Changed of Some e \<Rightarrow> [e] | None \<Rightarrow> [])\<rparr>
      else s\<lparr>po_pending := AList.update p (pd\<lparr>pd_last_sig := Some sig, pd_next_check := now + STABILITY_RECHECK\<rparr>)
                             (po_pending s)\<rparr>)"

definition settle_gone :: "debouncer \<Rightarrow> path \<Rightarrow> raw_hint \<Rightarrow> poll_state \<Rightarrow> poll_state" where
  "settle_gone db p hint s =
     (if h_created hint \<and> \<not> h_renamed hint \<and> p \<notin> set (db_known db) then forget p s
      else (forget p s)\<lparr>po_removed := po_removed s @ [p]\<rparr>)"

definition settle :: "debouncer \<Rightarrow> disk \<Rightarrow> nat \<Rightarrow> path \<Rightarrow> poll_state \<Rightarrow> poll_state" where
  "settle db dk now p s =
     (case map_of (po_pending s) p of
        None \<Rightarrow> s
      | Some pd \<Rightarrow>
          (case followed dk p of
             Found m \<Rightarrow> if mt_is_dir m then settle_dir db dk p (pd_hint pd) (forget p s)
                        else settle_file db now p pd (mt_len m, mt_modified m) s
           | Not_Found \<Rightarrow> settle_gone db p (pd_hint pd) s
           | Stat_Error \<Rightarrow> forget p s))"

text \<open>\<open>retain (seen.insert)\<close>: keeps the first event of each path.\<close>

fun retain_new :: "path list \<Rightarrow> watch_event list \<Rightarrow> watch_event list \<times> path list" where
  "retain_new seen [] = ([], seen)"
| "retain_new seen (e # es) =
     (if we_path e \<in> set seen then retain_new seen es
      else let (kept, seen') = retain_new (we_path e # seen) es in (e # kept, seen'))"

definition removal_events :: "debouncer \<Rightarrow> path list \<Rightarrow> watch_event list" where
  "removal_events db removed =
     List.map_filter (\<lambda>p. if list_ex (\<lambda>q. strict_prefix q p) removed then None else make_event db p False Removed)
       (sort_key length removed)"

definition due_paths :: "debouncer \<Rightarrow> nat \<Rightarrow> path list" where
  "due_paths db now = map fst (filter (\<lambda>(_, pd). pd_next_check pd \<le> now) (db_pending db))"

definition poll :: "disk \<Rightarrow> nat \<Rightarrow> debouncer \<Rightarrow> watch_event list \<times> debouncer" where
  "poll dk now db =
     (let due = due_paths db now in
      if due = [] then ([], db)
      else let s = fold (settle db dk now) due
                     \<lparr>po_pending = db_pending db, po_dirs = [], po_files = [], po_removed = []\<rparr>;
               (dirs, seen) = retain_new [] (sort_key (\<lambda>e. length (we_path e)) (po_dirs s));
               (files, _) = retain_new seen (po_files s);
               out = dirs @ files @ removal_events db (po_removed s)
           in (out, remember out (db\<lparr>db_pending := po_pending s\<rparr>)))"

definition next_deadline :: "debouncer \<Rightarrow> nat option" where
  "next_deadline db =
     (case map (\<lambda>(_, pd). pd_next_check pd) (db_pending db) of [] \<Rightarrow> None | t # ts \<Rightarrow> Some (fold min ts t))"

subsection \<open>The worker\<close>

text \<open>What one wait on the channel of raw notifications brings.\<close>

datatype received = Burst "(path \<times> raw_hint) list" nat | Timed_Out | Hung_Up

datatype sent = Sent | Channel_Full | Channel_Closed

record worker =
  wk_debouncer :: debouncer
  wk_outbox :: "watch_event list"
  wk_disconnected :: bool

definition IDLE :: nat where "IDLE = from_millis 500"

definition next_wait :: "worker \<Rightarrow> nat \<Rightarrow> nat" where
  "next_wait wk now =
     (let wait = min (case next_deadline (wk_debouncer wk) of Some d \<Rightarrow> d - now | None \<Rightarrow> IDLE) IDLE;
          wait' = (if wk_outbox wk \<noteq> [] then min wait (from_millis 100) else wait)
      in max wait' (from_millis 10))"

text \<open>\<open>None\<close>: the worker ends, since no notification can come any more and nothing is left to do.\<close>

definition receive :: "received \<Rightarrow> worker \<Rightarrow> worker option" where
  "receive r wk =
     (if \<not> wk_disconnected wk
      then Some (case r of
             Burst items now \<Rightarrow> wk\<lparr>wk_debouncer := fold (\<lambda>(p, hint). record_hint p hint now) items (wk_debouncer wk)\<rparr>
           | Timed_Out \<Rightarrow> wk
           | Hung_Up \<Rightarrow> wk\<lparr>wk_disconnected := True\<rparr>)
      else if db_pending (wk_debouncer wk) = [] \<and> wk_outbox wk = [] then None
      else Some wk)"

text \<open>The events sent, those that stay, and whether the consumer is gone. The answers of the channel
  are given; once they are used up it is full.\<close>

fun deliver :: "watch_event list \<Rightarrow> sent list \<Rightarrow> watch_event list \<times> watch_event list \<times> bool" where
  "deliver [] rs = ([], [], False)"
| "deliver (e # es) (Sent # rs) = (case deliver es rs of (out, rest, closed) \<Rightarrow> (e # out, rest, closed))"
| "deliver (e # es) (Channel_Closed # rs) = ([], es, True)"
| "deliver (e # es) (Channel_Full # rs) = ([], e # es, False)"
| "deliver (e # es) [] = ([], e # es, False)"

definition trim_outbox :: "watch_event list \<Rightarrow> watch_event list" where
  "trim_outbox outbox = (if length outbox > MAX_OUTBOX then drop (length outbox - MAX_OUTBOX) outbox else outbox)"

text \<open>One turn of the loop of \<open>run_debouncer\<close>: whether the worker was told to stop before and after
  the wait, what it received, and the poll.\<close>

record turn =
  tn_stop_before :: bool
  tn_received :: received
  tn_stop_after :: bool
  tn_disk :: disk
  tn_now :: nat
  tn_sends :: "sent list"

definition worker_turn :: "turn \<Rightarrow> worker \<Rightarrow> watch_event list \<times> worker option" where
  "worker_turn t wk =
     (if tn_stop_before t then ([], None)
      else case receive (tn_received t) wk of
        None \<Rightarrow> ([], None)
      | Some wk1 \<Rightarrow>
          if tn_stop_after t then ([], None)
          else (case poll (tn_disk t) (tn_now t) (wk_debouncer wk1) of
            (es, db) \<Rightarrow> (case deliver (trim_outbox (wk_outbox wk1 @ es)) (tn_sends t) of
              (out, rest, closed) \<Rightarrow>
                (out, if closed then None else Some (wk1\<lparr>wk_debouncer := db, wk_outbox := rest\<rparr>)))))"

fun run_worker :: "turn list \<Rightarrow> worker \<Rightarrow> watch_event list \<times> worker option" where
  "run_worker [] wk = ([], Some wk)"
| "run_worker (t # ts) wk =
     (case worker_turn t wk of
        (out, None) \<Rightarrow> (out, None)
      | (out, Some wk') \<Rightarrow> (case run_worker ts wk' of (out', r) \<Rightarrow> (out @ out', r)))"

subsection \<open>The watcher\<close>

record watcher =
  cw_local_root :: path
  cw_watching :: bool
  cw_debounce :: nat
  cw_ignored_dirs :: "string list"
  cw_excluded :: "path list"
  cw_stop_flag :: bool

definition new_watcher :: "path \<Rightarrow> watcher" where
  "new_watcher root =
     \<lparr>cw_local_root = root, cw_watching = False, cw_debounce = DEFAULT_DEBOUNCE, cw_ignored_dirs = DEFAULT_IGNORED_DIRS,
      cw_excluded = [], cw_stop_flag = False\<rparr>"

definition with_debounce :: "nat \<Rightarrow> watcher \<Rightarrow> watcher" where
  "with_debounce d w = w\<lparr>cw_debounce := d\<rparr>"

definition with_ignored_dirs :: "string list \<Rightarrow> watcher \<Rightarrow> watcher" where
  "with_ignored_dirs names w = w\<lparr>cw_ignored_dirs := names\<rparr>"

definition exclude_path :: "(path \<Rightarrow> path option) \<Rightarrow> path \<Rightarrow> watcher \<Rightarrow> watcher" where
  "exclude_path canonicalize p w =
     w\<lparr>cw_excluded := cw_excluded w @ (case canonicalize p of Some c \<Rightarrow> if c \<noteq> p then [c] else [] | None \<Rightarrow> []) @ [p]\<rparr>"

definition watch_roots :: "(path \<Rightarrow> path option) \<Rightarrow> path \<Rightarrow> path list" where
  "watch_roots canonicalize root =
     (let roots = (case canonicalize root of Some c \<Rightarrow> [c] | None \<Rightarrow> []) in
      if root \<in> set roots then roots else roots @ [root])"

definition new_debouncer :: "(path \<Rightarrow> path option) \<Rightarrow> watcher \<Rightarrow> debouncer" where
  "new_debouncer canonicalize w =
     \<lparr>db_roots = watch_roots canonicalize (cw_local_root w), db_excluded = cw_excluded w,
      db_ignored_dirs = cw_ignored_dirs w, db_debounce = cw_debounce w, db_pending = [], db_known = []\<rparr>"

text \<open>\<open>start\<close>: the operating system says whether the root is a folder, whether the file watcher could be
  made, watch the folder and its worker thread start (else why not).\<close>

definition watcher_start ::
  "(path \<Rightarrow> path option) \<Rightarrow> (path \<Rightarrow> bool) \<Rightarrow> string option \<Rightarrow> string option \<Rightarrow> string option \<Rightarrow> (path \<Rightarrow> string) \<Rightarrow> watcher
   \<Rightarrow> (core_error + worker option) \<times> watcher" where
  "watcher_start canonicalize is_folder create_error watch_error spawn_error shown w =
     (if cw_watching w then (Inr None, w)
      else if \<not> is_folder (cw_local_root w)
      then (Inl (NotFound (''Local folder '' @ quote (shown (cw_local_root w)) @ '' does not exist or is not a folder'')), w)
      else let w' = w\<lparr>cw_stop_flag := False\<rparr> in
        case create_error of
          Some e \<Rightarrow> (Inl (General (''Failed to create file watcher: '' @ e)), w')
        | None \<Rightarrow> (case watch_error of
            Some e \<Rightarrow> (Inl (General (''Failed to watch directory: '' @ e)), w')
          | None \<Rightarrow> (case spawn_error of
              Some e \<Rightarrow> (Inl (General (''Failed to start sync worker: '' @ e)), w')
            | None \<Rightarrow>
                (Inr (Some \<lparr>wk_debouncer = new_debouncer canonicalize w', wk_outbox = [], wk_disconnected = False\<rparr>),
                 w'\<lparr>cw_watching := True\<rparr>))))"

definition watcher_stop :: "watcher \<Rightarrow> watcher" where
  "watcher_stop w = w\<lparr>cw_stop_flag := True, cw_watching := False\<rparr>"

subsection \<open>The manager\<close>

text \<open>\<open>'tx\<close> is the sending end of the channel that cancels the running watcher.\<close>

record 'tx sync_manager =
  sm_running :: bool
  sm_cancel :: "'tx option"

definition new_manager :: "'tx sync_manager" where
  "new_manager = \<lparr>sm_running = False, sm_cancel = None\<rparr>"

definition manager_set_active :: "'tx \<Rightarrow> 'tx sync_manager \<Rightarrow> 'tx sync_manager" where
  "manager_set_active tx m = m\<lparr>sm_cancel := Some tx, sm_running := True\<rparr>"

text \<open>The channels the stop is sent on, and the manager afterwards.\<close>

definition manager_stop :: "'tx sync_manager \<Rightarrow> 'tx list \<times> 'tx sync_manager" where
  "manager_stop m = (case sm_cancel m of Some tx \<Rightarrow> [tx] | None \<Rightarrow> [], m\<lparr>sm_cancel := None, sm_running := False\<rparr>)"

end
