(* ===== verification/ContinuousSyncFacts.thy ===== *)
theory ContinuousSyncFacts
  imports ContinuousSync
begin

section \<open>What continuous sync reports\<close>

text \<open>
  The effect of a poll path by path, the invariant of the debouncer between its inputs (an instance
  of the machines of \<open>Machine\<close>), and what follows: when and in which order changes and removals are
  reported, and that the worker keeps that order.
\<close>

subsection \<open>What a poll does, path by path\<close>

definition settled_entry :: "disk \<Rightarrow> nat \<Rightarrow> path \<Rightarrow> pending \<Rightarrow> pending option" where
  "settled_entry dk now p pd =
     (case followed dk p of
        Found m \<Rightarrow>
          if mt_is_dir m \<or> pd_last_sig pd = Some (mt_len m, mt_modified m) \<or> now - pd_first_seen pd \<ge> MAX_PENDING then None
          else Some (pd\<lparr>pd_last_sig := Some (mt_len m, mt_modified m), pd_next_check := now + STABILITY_RECHECK\<rparr>)
      | _ \<Rightarrow> None)"

definition opt_list :: "'a option \<Rightarrow> 'a list" where
  "opt_list r = (case r of Some x \<Rightarrow> [x] | None \<Rightarrow> [])"

definition appeared :: "disk \<Rightarrow> path \<Rightarrow> pending \<Rightarrow> bool" where
  "appeared dk p pd =
     ((h_created (pd_hint pd) \<or> h_renamed (pd_hint pd) \<or> h_gone (pd_hint pd)) \<and>
      (case followed dk p of Found m \<Rightarrow> mt_is_dir m | _ \<Rightarrow> False))"

definition dirs_of :: "debouncer \<Rightarrow> disk \<Rightarrow> path \<Rightarrow> pending \<Rightarrow> watch_event list" where
  "dirs_of db dk p pd =
     (if appeared dk p pd then opt_list (make_event db p True Changed) @ filter we_is_dir (walk_new_dir db dk p) else [])"

definition files_of :: "debouncer \<Rightarrow> disk \<Rightarrow> nat \<Rightarrow> path \<Rightarrow> pending \<Rightarrow> watch_event list" where
  "files_of db dk now p pd =
     (if appeared dk p pd then filter (\<lambda>e. \<not> we_is_dir e) (walk_new_dir db dk p)
      else case followed dk p of
             Found m \<Rightarrow> if \<not> mt_is_dir m \<and> settled_entry dk now p pd = None then opt_list (make_event db p False Changed) else []
           | _ \<Rightarrow> [])"

definition removed_of :: "debouncer \<Rightarrow> disk \<Rightarrow> path \<Rightarrow> pending \<Rightarrow> path list" where
  "removed_of db dk p pd =
     (if followed dk p = Not_Found \<and> \<not> (h_created (pd_hint pd) \<and> \<not> h_renamed (pd_hint pd) \<and> p \<notin> set (db_known db))
      then [p] else [])"

lemma settle_eq:
  "map_of (po_pending s) p = None \<Longrightarrow> settle db dk now p s = s"
  "map_of (po_pending s) p = Some pd \<Longrightarrow>
     map_of (po_pending (settle db dk now p s)) = (map_of (po_pending s))(p := settled_entry dk now p pd) \<and>
     po_dirs (settle db dk now p s) = po_dirs s @ dirs_of db dk p pd \<and>
     po_files (settle db dk now p s) = po_files s @ files_of db dk now p pd \<and>
     po_removed (settle db dk now p s) = po_removed s @ removed_of db dk p pd"
  by (auto simp: settle_def settled_entry_def dirs_of_def files_of_def removed_of_def settle_dir_def settle_file_def
      settle_gone_def forget_def appeared_def opt_list_def Let_def delete_conv' update_conv' split: lstat.splits option.splits)

lemma settle_keys:
  "distinct (map fst (po_pending s)) \<Longrightarrow> distinct (map fst (po_pending (settle db dk now p s)))"
  by (auto simp: settle_def settle_dir_def settle_file_def settle_gone_def forget_def Let_def distinct_delete distinct_update
      split: lstat.splits option.splits)

definition each_due :: "(path \<Rightarrow> pending \<Rightarrow> 'a list) \<Rightarrow> (path \<times> pending) list \<Rightarrow> path list \<Rightarrow> 'a list" where
  "each_due f m ps = concat (map (\<lambda>p. case map_of m p of Some pd \<Rightarrow> f p pd | None \<Rightarrow> []) ps)"

lemma each_due_cong:
  "(\<And>q. q \<in> set ps \<Longrightarrow> map_of m q = map_of m' q) \<Longrightarrow> each_due f m ps = each_due f m' ps"
  by (auto simp: each_due_def intro!: arg_cong [where f = concat])

lemma settle_other: "q \<noteq> p \<Longrightarrow> map_of (po_pending (settle db dk now p s)) q = map_of (po_pending s) q"
  using settle_eq [where s = s and p = p] by (cases "map_of (po_pending s) p") auto

lemma settle_all:
  "distinct ps \<Longrightarrow>
     (map_of (po_pending (fold (settle db dk now) ps s)) q =
       (if q \<in> set ps then Option.bind (map_of (po_pending s) q) (settled_entry dk now q) else map_of (po_pending s) q)) \<and>
     po_dirs (fold (settle db dk now) ps s) = po_dirs s @ each_due (dirs_of db dk) (po_pending s) ps \<and>
     po_files (fold (settle db dk now) ps s) = po_files s @ each_due (files_of db dk now) (po_pending s) ps \<and>
     po_removed (fold (settle db dk now) ps s) = po_removed s @ each_due (removed_of db dk) (po_pending s) ps"
proof (induction ps arbitrary: s)
  case (Cons p ps)
  then have new: "p \<notin> set ps" by simp
  have same: "each_due f (po_pending (settle db dk now p s)) ps = each_due f (po_pending s) ps"
    for f :: "path \<Rightarrow> pending \<Rightarrow> 'b list"
    by (rule each_due_cong) (use new in \<open>auto intro: settle_other\<close>)
  show ?case
    using Cons.IH [of "settle db dk now p s"] Cons.prems settle_eq [where s = s and p = p and db = db and dk = dk and now = now]
    by (cases "map_of (po_pending s) p") (auto simp: same settle_other, auto simp: each_due_def)
qed (simp add: each_due_def)

lemma settle_all_keys:
  "distinct (map fst (po_pending s)) \<Longrightarrow> distinct (map fst (po_pending (fold (settle db dk now) ps s)))"
  by (induction ps arbitrary: s) (simp_all add: settle_keys)

subsection \<open>The state between two polls\<close>

definition watched :: "debouncer \<Rightarrow> path \<Rightarrow> bool" where
  "watched db p = (case relative_path db p of Some rel \<Rightarrow> \<not> is_ignored_path rel (db_ignored_dirs db) | None \<Rightarrow> False)"

definition same_settings :: "debouncer \<Rightarrow> debouncer \<Rightarrow> bool" where
  "same_settings db db' = (db_roots db' = db_roots db \<and> db_excluded db' = db_excluded db \<and>
     db_ignored_dirs db' = db_ignored_dirs db \<and> db_debounce db' = db_debounce db)"

definition waits :: "debouncer \<Rightarrow> path \<Rightarrow> pending option" where
  "waits db = map_of (db_pending db)"

text \<open>No path waits longer than the bound, and only watched paths wait.\<close>

definition db_ok :: "debouncer \<Rightarrow> bool" where
  "db_ok db = (distinct (map fst (db_pending db)) \<and>
     (\<forall>p pd. waits db p = Some pd \<longrightarrow>
        watched db p \<and> pd_next_check pd \<le> pd_first_seen pd + MAX_PENDING + STABILITY_RECHECK))"

lemma watched_cong: "same_settings db db' \<Longrightarrow> watched db' p = watched db p"
  by (auto simp: same_settings_def watched_def relative_path_def split: option.split)

lemma make_event_cong: "same_settings db db' \<Longrightarrow> make_event db' = make_event db"
  by (auto simp: same_settings_def make_event_def relative_path_def fun_eq_iff split: option.split)

lemma record_settings: "same_settings db (record_hint p hint now db)"
  by (simp add: same_settings_def record_hint_def Let_def split: option.split)

lemma poll_settings: "same_settings db (snd (poll dk now db))"
  by (simp add: same_settings_def poll_def remember_def Let_def split: prod.split)

lemma record_keys:
  "distinct (map fst (db_pending db)) \<Longrightarrow> distinct (map fst (db_pending (record_hint p hint now db)))"
  by (simp add: record_hint_def Let_def distinct_update split: option.split)

lemma record_waits:
  "waits (record_hint p hint now db) =
     (if watched db p
      then (waits db)(p \<mapsto> record_entry db hint now (case waits db p of Some e \<Rightarrow> e
             | None \<Rightarrow> \<lparr>pd_first_seen = now, pd_hint = hint_of False False False, pd_last_sig = None,
                       pd_next_check = now + db_debounce db\<rparr>))
      else waits db)"
  by (simp add: record_hint_def Let_def watched_def waits_def update_conv' split: option.split)

lemma record_ok: "db_ok db \<Longrightarrow> db_ok (record_hint p hint now db)"
  using watched_cong [OF record_settings] record_keys
  by (auto simp: db_ok_def record_waits record_entry_def split: option.splits if_splits)

lemma due_paths:
  assumes "distinct (map fst (db_pending db))"
  shows "distinct (due_paths db now)"
    and "q \<in> set (due_paths db now) \<longleftrightarrow> (\<exists>pd. waits db q = Some pd \<and> pd_next_check pd \<le> now)"
  using assms
  by (auto simp: due_paths_def waits_def distinct_map_filter map_of_eq_Some_iff image_iff)

lemma poll_waits:
  assumes "distinct (map fst (db_pending db))"
  shows "waits (snd (poll dk now db)) q =
     (case waits db q of None \<Rightarrow> None
      | Some pd \<Rightarrow> if pd_next_check pd \<le> now then settled_entry dk now q pd else Some pd)"
proof -
  note due = due_paths [OF assms, where now = now]
  define s where "s = \<lparr>po_pending = db_pending db, po_dirs = [], po_files = [], po_removed = []\<rparr>"
  have "waits (snd (poll dk now db)) q = map_of (po_pending (fold (settle db dk now) (due_paths db now) s)) q"
    by (simp add: poll_def waits_def remember_def Let_def s_def split: prod.split)
  also have "\<dots> = (if q \<in> set (due_paths db now) then Option.bind (waits db q) (settled_entry dk now q) else waits db q)"
    using settle_all [OF due(1), where s = s] by (simp add: s_def waits_def)
  finally show ?thesis using due(2) [of q] by (cases "waits db q") auto
qed

lemma poll_keys:
  "distinct (map fst (db_pending db)) \<Longrightarrow> distinct (map fst (db_pending (snd (poll dk now db))))"
  by (simp add: poll_def remember_def Let_def settle_all_keys split: prod.split)

lemma settled_entry_Some:
  "settled_entry dk now p pd = Some pd' \<Longrightarrow>
     pd_first_seen pd' = pd_first_seen pd \<and> pd_next_check pd' < pd_first_seen pd + MAX_PENDING + STABILITY_RECHECK"
  by (auto simp: settled_entry_def MAX_PENDING_def from_millis_def split: lstat.splits if_splits)

lemma poll_ok: "db_ok db \<Longrightarrow> db_ok (snd (poll dk now db))"
  unfolding db_ok_def
  using watched_cong [OF poll_settings] poll_keys
  by (auto simp: poll_waits watched_cong [OF poll_settings] split: option.splits if_splits dest!: settled_entry_Some)

subsection \<open>The events of a poll\<close>

lemma retain_new:
  "retain_new seen es = (kept, seen') \<Longrightarrow>
     subseq kept es \<and> we_path ` set kept = we_path ` set es - set seen \<and> distinct (map we_path kept) \<and>
     set seen' = set seen \<union> we_path ` set kept"
proof (induction seen es arbitrary: kept seen' rule: retain_new.induct)
  case (2 seen e es)
  show ?case
  proof (cases "we_path e \<in> set seen")
    case True
    then have run: "retain_new seen es = (kept, seen')" using 2(3) by simp
    have "subseq kept es \<and> we_path ` set kept = we_path ` set es - set seen \<and> distinct (map we_path kept) \<and>
        set seen' = set seen \<union> we_path ` set kept"
      by (rule 2(1) [OF True run])
    then show ?thesis using True by auto
  next
    case False
    then obtain k where k: "retain_new (we_path e # seen) es = (k, seen')" "kept = e # k"
      using 2(3) by (auto split: prod.splits)
    have "subseq k es \<and> we_path ` set k = we_path ` set es - set (we_path e # seen) \<and> distinct (map we_path k) \<and>
        set seen' = set (we_path e # seen) \<union> we_path ` set k"
      by (rule 2(2) [OF False k(1)])
    then show ?thesis using False k(2) by auto
  qed
qed auto

definition due_dirs :: "debouncer \<Rightarrow> disk \<Rightarrow> nat \<Rightarrow> watch_event list" where
  "due_dirs db dk now = sort_key (\<lambda>e. length (we_path e)) (each_due (dirs_of db dk) (db_pending db) (due_paths db now))"

definition due_files :: "debouncer \<Rightarrow> disk \<Rightarrow> nat \<Rightarrow> watch_event list" where
  "due_files db dk now = each_due (files_of db dk now) (db_pending db) (due_paths db now)"

definition due_removed :: "debouncer \<Rightarrow> disk \<Rightarrow> nat \<Rightarrow> path list" where
  "due_removed db dk now = each_due (removed_of db dk) (db_pending db) (due_paths db now)"

lemma poll_events:
  assumes "distinct (map fst (db_pending db))"
  obtains dirs files seen seen' where
    "fst (poll dk now db) = dirs @ files @ removal_events db (due_removed db dk now)"
    "retain_new [] (due_dirs db dk now) = (dirs, seen)" "retain_new seen (due_files db dk now) = (files, seen')"
proof -
  obtain dirs seen where d: "retain_new [] (due_dirs db dk now) = (dirs, seen)" by fastforce
  obtain files seen' where f: "retain_new seen (due_files db dk now) = (files, seen')" by fastforce
  define s where "s = \<lparr>po_pending = db_pending db, po_dirs = [], po_files = [], po_removed = []\<rparr>"
  note all = settle_all [OF due_paths(1) [OF assms], where s = s, THEN conjunct2]
  have "fst (poll dk now db) = dirs @ files @ removal_events db (due_removed db dk now)"
  proof (cases "due_paths db now = []")
    case True
    then show ?thesis using d f by (simp add: poll_def due_dirs_def due_files_def due_removed_def each_due_def
        removal_events_def map_filter_simps)
  next
    case False
    then show ?thesis
      using d f all by (simp add: poll_def Let_def due_dirs_def due_files_def due_removed_def s_def)
  qed
  then show thesis using d f by (rule that)
qed

lemma in_each_due:
  "distinct (map fst (db_pending db)) \<Longrightarrow> x \<in> set (each_due f (db_pending db) (due_paths db now)) \<longleftrightarrow>
     (\<exists>p pd. waits db p = Some pd \<and> pd_next_check pd \<le> now \<and> x \<in> set (f p pd))"
  by (force simp: each_due_def due_paths waits_def split: option.splits)

lemma make_event_Some:
  "make_event db p dir k = Some e \<Longrightarrow> we_path e = p \<and> we_is_dir e = dir \<and> we_kind e = k"
  by (auto simp: make_event_def split: option.splits)

lemma watched_event: "watched db p \<Longrightarrow> \<exists>e. make_event db p dir k = Some e"
  by (auto simp: watched_def make_event_def split: option.splits)

definition event_ok :: "debouncer \<Rightarrow> watch_event_kind \<Rightarrow> watch_event \<Rightarrow> bool" where
  "event_ok db k e = (watched db (we_path e) \<and> make_event db (we_path e) (we_is_dir e) k = Some e)"

lemma event_okI: "watched db p \<Longrightarrow> make_event db p dir k = Some e \<Longrightarrow> event_ok db k e"
  using make_event_Some [of db p dir k e] by (simp add: event_ok_def)

lemma walk_entries_ok:
  "walk_entries db d es w = (go, w') \<Longrightarrow> list_all (event_ok db Changed) (dw_out w) \<Longrightarrow>
     list_all (event_ok db Changed) (dw_out w')"
proof (induction es arbitrary: w)
  case (Cons x es)
  obtain name kind where x: "x = (name, kind)" by (cases x)
  have "event_ok db Changed e" if "make_event db p dir Changed = Some e" "relative_path db p = Some rel"
    "\<not> is_ignored_path rel (db_ignored_dirs db)" for p dir e rel
    using that by (intro event_okI) (simp_all add: watched_def)
  note ok = this
  show ?case
    using Cons.prems
    by (auto simp: x Let_def dest!: Cons.IH intro: ok split: if_splits option.splits)
qed simp

lemma walk_dirs_ok:
  "list_all (event_ok db Changed) (dw_out w) \<Longrightarrow> list_all (event_ok db Changed) (walk_dirs db dk w)"
proof (induction db dk w rule: walk_dirs.induct)
  case (1 db dk w)
  then show ?case
    by (subst walk_dirs.simps) (auto simp: walk_entries_ok split: list.split option.split prod.split)
qed

lemma walk_new_dir_ok: "e \<in> set (walk_new_dir db dk p) \<Longrightarrow> event_ok db Changed e"
  using walk_dirs_ok [of db "\<lparr>dw_stack = [p], dw_out = [], dw_emitted = 0\<rparr>" dk]
  by (simp add: walk_new_dir_def list_all_iff)

lemma opt_list_event: "watched db p \<Longrightarrow> e \<in> set (opt_list (make_event db p dir k)) \<Longrightarrow> event_ok db k e \<and> we_is_dir e = dir"
  using make_event_Some [of db p dir k e] by (auto simp: opt_list_def intro: event_okI split: option.splits)

lemma of_due_ok:
  assumes "watched db p"
  shows "e \<in> set (dirs_of db dk p pd) \<Longrightarrow> event_ok db Changed e"
    and "e \<in> set (files_of db dk now p pd) \<Longrightarrow> event_ok db Changed e \<and> \<not> we_is_dir e"
  using opt_list_event [OF assms]
  by (auto simp: dirs_of_def files_of_def walk_new_dir_ok split: if_splits lstat.splits)

lemma due_ok:
  assumes "db_ok db"
  shows "e \<in> set (due_dirs db dk now) \<Longrightarrow> event_ok db Changed e"
    and "e \<in> set (due_files db dk now) \<Longrightarrow> event_ok db Changed e \<and> \<not> we_is_dir e"
    and "p \<in> set (due_removed db dk now) \<Longrightarrow> watched db p \<and> followed dk p = Not_Found"
proof -
  have keys: "distinct (map fst (db_pending db))" and w: "waits db p = Some pd \<Longrightarrow> watched db p" for p pd
    using assms by (auto simp: db_ok_def)
  show "e \<in> set (due_dirs db dk now) \<Longrightarrow> event_ok db Changed e"
    by (auto simp: due_dirs_def in_each_due [OF keys] intro: of_due_ok(1) w)
  show "e \<in> set (due_files db dk now) \<Longrightarrow> event_ok db Changed e \<and> \<not> we_is_dir e"
    using of_due_ok(2) [OF w] by (fastforce simp: due_files_def in_each_due [OF keys])
  show "p \<in> set (due_removed db dk now) \<Longrightarrow> watched db p \<and> followed dk p = Not_Found"
    using w by (auto simp: due_removed_def in_each_due [OF keys] removed_of_def split: if_splits)
qed

lemma distinct_each_due:
  assumes "distinct ps" and "\<And>p pd. f p pd = [] \<or> f p pd = [p]"
  shows "distinct (each_due f m ps)"
proof -
  have "each_due f m ps = filter (\<lambda>p. case map_of m p of Some pd \<Rightarrow> f p pd \<noteq> [] | None \<Rightarrow> False) ps"
    by (induction ps) (use assms(2) in \<open>auto simp: each_due_def split: option.splits\<close>)
  then show ?thesis using assms(1) by simp
qed

lemma removal_events:
  assumes "e \<in> set (removal_events db ps)"
  shows "is_removal e" "we_path e \<in> set ps" "list_all (\<lambda>q. \<not> strict_prefix q (we_path e)) ps" "\<not> we_is_dir e"
proof -
  obtain p where p: "p \<in> set ps" "\<not> list_ex (\<lambda>q. strict_prefix q p) ps" "make_event db p False Removed = Some e"
    using assms by (auto simp: removal_events_def map_filter_def split: if_splits)
  show "is_removal e" "we_path e \<in> set ps" "list_all (\<lambda>q. \<not> strict_prefix q (we_path e)) ps" "\<not> we_is_dir e"
    using p make_event_Some [OF p(3)] by (simp_all add: is_removal_def list_ex_iff list_all_iff)
qed

lemma removal_paths:
  "map we_path (removal_events db ps) =
     filter (\<lambda>p. \<not> list_ex (\<lambda>q. strict_prefix q p) ps \<and> relative_path db p \<noteq> None) (sort_key length ps)"
proof -
  have "map we_path (List.map_filter (\<lambda>p. if X p then None else make_event db p False Removed) xs) =
      filter (\<lambda>p. \<not> X p \<and> relative_path db p \<noteq> None) xs" for X xs
    by (induction xs) (auto simp: map_filter_def make_event_def split: option.splits)
  then show ?thesis by (simp add: removal_events_def)
qed

subsection \<open>Runs\<close>

datatype watch_input = Hint path raw_hint nat | Poll disk nat

fun watch_step :: "watch_input \<Rightarrow> debouncer \<Rightarrow> debouncer" where
  "watch_step (Hint p hint now) db = record_hint p hint now db"
| "watch_step (Poll dk now) db = snd (poll dk now db)"

fun watch_events :: "watch_input list \<Rightarrow> debouncer \<Rightarrow> watch_event list" where
  "watch_events [] db = []"
| "watch_events (i # ins) db =
     (case i of Poll dk now \<Rightarrow> fst (poll dk now db) | _ \<Rightarrow> []) @ watch_events ins (watch_step i db)"

interpretation watching: machine watch_step db_ok
proof
  fix db :: debouncer and i
  show "db_ok db \<Longrightarrow> db_ok (watch_step i db)" by (cases i) (simp_all add: record_ok poll_ok)
qed

lemma new_debouncer_ok: "db_ok (new_debouncer canonicalize w)"
  by (simp add: db_ok_def new_debouncer_def waits_def)

text \<open>What the debouncer of a watcher has become after some inputs.\<close>

definition watching_after :: "(path \<Rightarrow> path option) \<Rightarrow> watcher \<Rightarrow> watch_input list \<Rightarrow> debouncer" where
  "watching_after canonicalize w ins = fold watch_step ins (new_debouncer canonicalize w)"

lemma watching_after_ok: "db_ok (watching_after canonicalize w ins)"
  unfolding watching_after_def by (rule watching.run_inv [OF new_debouncer_ok])

lemma file_poll:
  assumes "db_ok db" and "waits db p = Some pd"
    and "case followed dk p of Found m \<Rightarrow> \<not> mt_is_dir m | _ \<Rightarrow> False"
  shows "(\<exists>e \<in> set (fst (poll dk now db)). we_path e = p \<and> we_kind e = Changed) \<or>
         (\<exists>pd'. waits (snd (poll dk now db)) p = Some pd' \<and> pd_first_seen pd' = pd_first_seen pd)"
    and "pd_first_seen pd + MAX_PENDING + STABILITY_RECHECK \<le> now \<Longrightarrow>
         \<exists>e \<in> set (fst (poll dk now db)). we_path e = p \<and> we_kind e = Changed"
proof -
  have keys: "distinct (map fst (db_pending db))" and w: "watched db p"
    and bound: "pd_next_check pd \<le> pd_first_seen pd + MAX_PENDING + STABILITY_RECHECK"
    using assms(1,2) by (auto simp: db_ok_def)
  have reported: "\<exists>e \<in> set (fst (poll dk now db)). we_path e = p \<and> we_kind e = Changed"
    if "pd_next_check pd \<le> now" "settled_entry dk now p pd = None"
  proof -
    obtain e where e: "make_event db p False Changed = Some e" using watched_event [OF w] by blast
    have "e \<in> set (files_of db dk now p pd)"
      using assms(3) that e by (auto simp: files_of_def appeared_def opt_list_def split: lstat.splits)
    then have "e \<in> set (due_files db dk now)"
      using that assms(2) by (auto simp: due_files_def in_each_due [OF keys])
    moreover obtain dirs files seen seen' where out:
      "fst (poll dk now db) = dirs @ files @ removal_events db (due_removed db dk now)"
      "retain_new [] (due_dirs db dk now) = (dirs, seen)" "retain_new seen (due_files db dk now) = (files, seen')"
      by (rule poll_events [OF keys])
    ultimately have "we_path e \<in> we_path ` set dirs \<union> we_path ` set files"
      using retain_new [OF out(2)] retain_new [OF out(3)] by auto
    then have "p \<in> we_path ` set (dirs @ files)" using make_event_Some [OF e] by (simp add: image_Un)
    then obtain e' where e': "e' \<in> set (dirs @ files)" "we_path e' = p" by auto
    have "set dirs \<subseteq> set (due_dirs db dk now)" "set files \<subseteq> set (due_files db dk now)"
      using retain_new [OF out(2)] retain_new [OF out(3)] by (auto dest: list_emb_set)
    then have "event_ok db Changed e'" using e'(1) due_ok [OF assms(1)] by auto
    then have "we_kind e' = Changed" by (auto simp: event_ok_def dest: make_event_Some)
    then show ?thesis using e' out(1) by auto
  qed
  show "(\<exists>e \<in> set (fst (poll dk now db)). we_path e = p \<and> we_kind e = Changed) \<or>
         (\<exists>pd'. waits (snd (poll dk now db)) p = Some pd' \<and> pd_first_seen pd' = pd_first_seen pd)"
    using reported poll_waits [OF keys, of dk now p] assms(2)
    by (cases "pd_next_check pd \<le> now"; cases "settled_entry dk now p pd") (auto dest: settled_entry_Some)
  assume "pd_first_seen pd + MAX_PENDING + STABILITY_RECHECK \<le> now"
  moreover from this have "settled_entry dk now p pd = None"
    by (auto simp: settled_entry_def split: lstat.split)
  ultimately show "\<exists>e \<in> set (fst (poll dk now db)). we_path e = p \<and> we_kind e = Changed"
    using reported bound by simp
qed

fun shows_file :: "path \<Rightarrow> watch_input \<Rightarrow> bool" where
  "shows_file p (Hint q hint now) = True"
| "shows_file p (Poll dk now) = (case followed dk p of Found m \<Rightarrow> \<not> mt_is_dir m | _ \<Rightarrow> False)"

definition changed_paths :: "watch_event list \<Rightarrow> path list" where
  "changed_paths es = map we_path (filter (\<lambda>e. \<not> is_removal e) es)"

definition removed_paths :: "watch_event list \<Rightarrow> path list" where
  "removed_paths es = map we_path (filter is_removal es)"

lemma changed_pathsI: "e \<in> set es \<Longrightarrow> we_path e = p \<Longrightarrow> we_kind e = Changed \<Longrightarrow> p \<in> set (changed_paths es)"
  by (force simp: changed_paths_def is_removal_def)

lemma waiting_reported:
  assumes "db_ok db" and "waits db p = Some pd" and "pd_first_seen pd + MAX_PENDING + STABILITY_RECHECK \<le> now"
    and "list_all (shows_file p) (ins @ [Poll dk now])"
  shows "p \<in> set (changed_paths (watch_events (ins @ [Poll dk now]) db))"
  using assms
proof (induction ins arbitrary: db pd)
  case Nil
  then show ?case using file_poll(2) [OF Nil(1,2)] by (auto intro: changed_pathsI)
next
  case (Cons i ins)
  have ok: "db_ok (watch_step i db)" by (rule watching.step_inv [OF Cons.prems(1)])
  have rest: "list_all (shows_file p) (ins @ [Poll dk now])" using Cons.prems(4) by simp
  show ?case
  proof (cases i)
    case (Hint q hint t)
    obtain pd' where "waits (watch_step i db) p = Some pd'" "pd_first_seen pd' = pd_first_seen pd"
      using Cons.prems(2)
      by (cases "watched db q"; cases "q = p") (auto simp: Hint record_waits record_entry_def)
    then show ?thesis using Cons.IH [OF ok _ _ rest] Cons.prems(3) by (simp add: Hint)
  next
    case (Poll dk' t)
    have "case followed dk' p of Found m \<Rightarrow> \<not> mt_is_dir m | _ \<Rightarrow> False" using Cons.prems(4) by (simp add: Poll)
    then consider e where "e \<in> set (fst (poll dk' t db))" "we_path e = p" "we_kind e = Changed"
      | pd' where "waits (watch_step i db) p = Some pd'" "pd_first_seen pd' = pd_first_seen pd"
      using file_poll(1) [OF Cons.prems(1,2), of dk' t] unfolding Poll watch_step.simps by blast
    then show ?thesis
    proof cases
      case 1
      then show ?thesis by (auto simp: Poll intro!: changed_pathsI)
    next
      case 2
      then show ?thesis using Cons.IH [OF ok 2(1) _ rest] Cons.prems(3) by (simp add: changed_paths_def)
    qed
  qed
qed

fun not_after :: "nat \<Rightarrow> watch_input \<Rightarrow> bool" where
  "not_after t (Hint p hint now) = (now \<le> t)"
| "not_after t (Poll dk now) = True"

lemma first_seen_le:
  assumes "list_all (not_after t) ins"
  shows "db_ok db \<Longrightarrow> (\<And>p pd. waits db p = Some pd \<Longrightarrow> pd_first_seen pd \<le> t) \<Longrightarrow>
    waits (fold watch_step ins db) p = Some pd \<Longrightarrow> pd_first_seen pd \<le> t"
  using assms
proof (induction ins arbitrary: db)
  case (Cons i ins)
  have step: "waits (watch_step i db) q = Some pd' \<Longrightarrow> pd_first_seen pd' \<le> t" for q pd'
  proof (cases i)
    case (Hint r hint now)
    then show "waits (watch_step i db) q = Some pd' \<Longrightarrow> pd_first_seen pd' \<le> t"
      using Cons.prems(2,4) by (auto simp: record_waits record_entry_def split: if_splits option.splits)
  next
    case (Poll dk now)
    have "distinct (map fst (db_pending db))" using Cons.prems(1) by (simp add: db_ok_def)
    then show "waits (watch_step i db) q = Some pd' \<Longrightarrow> pd_first_seen pd' \<le> t"
      using Cons.prems(2) by (auto simp: Poll poll_waits dest!: settled_entry_Some split: option.splits if_splits)
  qed
  show ?case
    by (rule Cons.IH [OF watching.step_inv [OF Cons.prems(1)] step]) (use Cons.prems in auto)
qed auto

text \<open>
  C23: A file that keeps changing is still reported. Once a watched path was noticed, every poll from
  10.3 seconds on (the longest waiting time of 10 seconds and one more stability check of 0.3 seconds)
  finds it reported as changed, by then or by itself, whatever notifications came and polls were made
  in between, as long as the polls found a file there. Ten seconds alone are not enough: a poll just
  before them can put the next check off by those 0.3 seconds.
\<close>

theorem busy_file_reported:
  assumes "watched (watching_after canonicalize w earlier) p"
    and "list_all (not_after t) earlier"
    and "t + MAX_PENDING + STABILITY_RECHECK \<le> now"
    and "list_all (shows_file p) (later @ [Poll dk now])"
  shows "p \<in> set (changed_paths
      (watch_events (Hint p hint t # later @ [Poll dk now]) (watching_after canonicalize w earlier)))"
proof -
  let ?db = "watching_after canonicalize w earlier"
  have "pd_first_seen pd \<le> t" if "waits ?db q = Some pd" for q pd
    using that unfolding watching_after_def
    by (rule first_seen_le [OF assms(2) new_debouncer_ok, rotated]) (simp add: new_debouncer_def waits_def)
  then obtain pd where "waits (record_hint p hint t ?db) p = Some pd" "pd_first_seen pd \<le> t"
    using assms(1) by (auto simp: record_waits record_entry_def split: option.split)
  then show ?thesis
    using waiting_reported [OF record_ok [OF watching_after_ok], of p hint t canonicalize w earlier p pd now later dk] assms(3,4)
    by simp
qed

lemma sorted_wrt_subseq: "subseq xs ys \<Longrightarrow> sorted_wrt P ys \<Longrightarrow> sorted_wrt P xs"
  by (induction rule: list_emb.induct) (auto dest: list_emb_set)

text \<open>An event may be applied before another one: the later one is not the folder it is inside of, and a
  change does not come after a removal.\<close>

definition applies_before :: "watch_event \<Rightarrow> watch_event \<Rightarrow> bool" where
  "applies_before e f =
     (\<not> (we_is_dir f \<and> strict_prefix (we_path f) (we_path e)) \<and> \<not> (is_removal e \<and> \<not> is_removal f))"

lemma applies_before_append:
  assumes "sorted_wrt (\<lambda>e f. length (we_path e) \<le> length (we_path f)) dirs"
    and "\<And>e. e \<in> set dirs \<Longrightarrow> \<not> is_removal e" and "\<And>e. e \<in> set files \<Longrightarrow> \<not> is_removal e \<and> \<not> we_is_dir e"
    and "\<And>e. e \<in> set removals \<Longrightarrow> is_removal e \<and> \<not> we_is_dir e"
  shows "sorted_wrt applies_before (dirs @ files @ removals)"
proof -
  have "sorted_wrt applies_before dirs"
    using assms(1)
  proof (rule sorted_wrt_mono_rel [rotated])
    fix e f :: watch_event
    assume "e \<in> set dirs" "length (we_path e) \<le> length (we_path f)"
    then show "applies_before e f"
      using assms(2) prefix_length_less [of "we_path f" "we_path e"] by (auto simp: applies_before_def)
  qed
  moreover have "sorted_wrt applies_before files"
    by (rule sorted_wrt_mono_rel [of _ "\<lambda>_ _. True"]) (auto simp: applies_before_def assms(3) sorted_wrt_true)
  moreover have "sorted_wrt applies_before removals"
    by (rule sorted_wrt_mono_rel [of _ "\<lambda>_ _. True"]) (auto simp: applies_before_def assms(4) sorted_wrt_true)
  ultimately show ?thesis
    unfolding sorted_wrt_append by (auto simp: applies_before_def assms(2-4))
qed

text \<open>
  What a poll hands on can be applied in its order: every event that says a path is a folder
  stands before the events of what is inside that folder, all changes stand before all removals, no
  path is reported twice as changed or twice as removed, and no removal lies below another one.
\<close>

theorem poll_order:
  "sorted_wrt applies_before (fst (poll dk now (watching_after canonicalize w ins))) \<and>
   distinct (changed_paths (fst (poll dk now (watching_after canonicalize w ins)))) \<and>
   distinct (removed_paths (fst (poll dk now (watching_after canonicalize w ins)))) \<and>
   {(p, q). p \<in> set (removed_paths (fst (poll dk now (watching_after canonicalize w ins)))) \<and>
            q \<in> set (removed_paths (fst (poll dk now (watching_after canonicalize w ins)))) \<and> strict_prefix p q} = {}"
proof -
  let ?db = "watching_after canonicalize w ins"
  have ok: "db_ok ?db" by (rule watching_after_ok)
  then have keys: "distinct (map fst (db_pending ?db))" by (simp add: db_ok_def)
  obtain dirs files seen seen' where out:
    "fst (poll dk now ?db) = dirs @ files @ removal_events ?db (due_removed ?db dk now)"
    "retain_new [] (due_dirs ?db dk now) = (dirs, seen)" "retain_new seen (due_files ?db dk now) = (files, seen')"
    by (rule poll_events [OF keys])
  note r = removal_events [where db = ?db and ps = "due_removed ?db dk now"]
  have d: "event_ok ?db Changed e" if "e \<in> set dirs" for e
    using retain_new [OF out(2)] that due_ok(1) [OF ok] by (auto dest: list_emb_set)
  have f: "event_ok ?db Changed e \<and> \<not> we_is_dir e" if "e \<in> set files" for e
    using retain_new [OF out(3)] that due_ok(2) [OF ok] by (auto dest: list_emb_set)
  have nr: "\<not> is_removal e" if "event_ok ?db Changed e" for e
    using that by (auto simp: event_ok_def is_removal_def dest: make_event_Some)
  have "filter (\<lambda>e. \<not> is_removal e) (fst (poll dk now ?db)) = dirs @ files"
    using d f nr r(1) by (auto simp: out(1) filter_id_conv filter_empty_conv)
  then have changed: "changed_paths (fst (poll dk now ?db)) = map we_path dirs @ map we_path files"
    by (simp add: changed_paths_def)
  have "filter is_removal (fst (poll dk now ?db)) = removal_events ?db (due_removed ?db dk now)"
    using d f nr r(1) by (auto simp: out(1) filter_id_conv filter_empty_conv)
  then have removed: "removed_paths (fst (poll dk now ?db)) = map we_path (removal_events ?db (due_removed ?db dk now))"
    by (simp add: removed_paths_def)
  have "sorted (map (\<lambda>e. length (we_path e)) (due_dirs ?db dk now))" by (simp add: due_dirs_def)
  then have "sorted_wrt (\<lambda>e f. length (we_path e) \<le> length (we_path f)) dirs"
    by (simp only: sorted_map sorted_wrt_subseq [OF conjunct1 [OF retain_new [OF out(2)]]])
  then have 2: "sorted_wrt applies_before (fst (poll dk now ?db))"
    unfolding out(1) by (rule applies_before_append) (use d f nr r(1,4) in blast)+
  have "distinct (due_removed ?db dk now)"
    unfolding due_removed_def by (rule distinct_each_due [OF due_paths(1) [OF keys]]) (simp add: removed_of_def)
  then have 3: "distinct (removed_paths (fst (poll dk now ?db)))" by (simp add: removed removal_paths)
  have 4: "distinct (changed_paths (fst (poll dk now ?db)))"
    using retain_new [OF out(2)] retain_new [OF out(3)] by (auto simp: changed)
  have "\<not> strict_prefix p q" if "p \<in> set (removed_paths (fst (poll dk now ?db)))" "q \<in> set (removed_paths (fst (poll dk now ?db)))" for p q
    using that r(2,3) by (fastforce simp: removed list_all_iff)
  then show ?thesis using 2 3 4 by blast
qed

lemma event_okD: "event_ok db k e \<Longrightarrow> watched db (we_path e) \<and> we_kind e = k"
  using make_event_Some [of db "we_path e" "we_is_dir e" k e] by (simp add: event_ok_def)

text \<open>
  Only what is watched is reported (nothing outside the roots, excluded or ignored), and a path is
  reported as removed only when the disk says it is gone.
\<close>

theorem only_watched_reported:
  "set (fst (poll dk now (watching_after canonicalize w ins)))
     \<subseteq> {e. watched (watching_after canonicalize w ins) (we_path e)} \<and>
   set (removed_paths (fst (poll dk now (watching_after canonicalize w ins)))) \<subseteq> {p. followed dk p = Not_Found}"
proof -
  let ?db = "watching_after canonicalize w ins"
  have ok: "db_ok ?db" by (rule watching_after_ok)
  then have keys: "distinct (map fst (db_pending ?db))" by (simp add: db_ok_def)
  obtain dirs files seen seen' where out:
    "fst (poll dk now ?db) = dirs @ files @ removal_events ?db (due_removed ?db dk now)"
    "retain_new [] (due_dirs ?db dk now) = (dirs, seen)" "retain_new seen (due_files ?db dk now) = (files, seen')"
    by (rule poll_events [OF keys])
  have r: "watched ?db (we_path e) \<and> followed dk (we_path e) = Not_Found"
    if "e \<in> set (removal_events ?db (due_removed ?db dk now))" for e
    by (rule due_ok(3) [OF ok removal_events(2) [OF that]])
  have d: "event_ok ?db Changed e" if "e \<in> set (dirs @ files)" for e
    using that retain_new [OF out(2)] retain_new [OF out(3)] due_ok(1,2) [OF ok] by (auto dest: list_emb_set)
  then have "\<not> is_removal e \<and> watched ?db (we_path e)" if "e \<in> set (dirs @ files)" for e
    using event_okD [OF d [OF that]] by (simp add: is_removal_def)
  then show ?thesis using r by (auto simp: out(1) removed_paths_def)
qed

text \<open>
  A removal is not lost: when a path that was reported before has waited long enough and is gone,
  the poll reports it, or a folder above it that is gone as well, as removed.
\<close>

theorem reported_then_removed:
  assumes "p \<in> set (db_known (watching_after canonicalize w ins))"
    and "waits (watching_after canonicalize w ins) p = Some pd" and "pd_next_check pd \<le> now"
    and "followed dk p = Not_Found"
  shows "set (removed_paths (fst (poll dk now (watching_after canonicalize w ins)))) \<inter>
           {q. prefix q p \<and> followed dk q = Not_Found} \<noteq> {}"
proof -
  let ?db = "watching_after canonicalize w ins"
  have ok: "db_ok ?db" by (rule watching_after_ok)
  then have keys: "distinct (map fst (db_pending ?db))" by (simp add: db_ok_def)
  obtain dirs files where out: "fst (poll dk now ?db) = dirs @ files @ removal_events ?db (due_removed ?db dk now)"
    by (rule poll_events [OF keys])
  have p: "p \<in> set (due_removed ?db dk now)"
    using assms by (auto simp: due_removed_def in_each_due [OF keys] removed_of_def)
  define Q where "Q q = (q \<in> set (due_removed ?db dk now) \<and> prefix q p)" for q
  have "Q p" using p by (simp add: Q_def)
  then obtain q where q: "Q q" and least: "\<And>r. Q r \<Longrightarrow> length q \<le> length r"
    using ex_has_least_nat [of Q p length] by blast
  have "\<not> strict_prefix r q" if "r \<in> set (due_removed ?db dk now)" for r
  proof
    assume "strict_prefix r q"
    moreover from this have "Q r" using q that by (auto simp: Q_def strict_prefix_def intro: prefix_order.trans)
    ultimately show False using least [of r] prefix_length_less [of r q] by simp
  qed
  moreover have "watched ?db q \<and> followed dk q = Not_Found" using q due_ok(3) [OF ok] by (auto simp: Q_def)
  ultimately have "q \<in> we_path ` set (removal_events ?db (due_removed ?db dk now))" and gone: "followed dk q = Not_Found"
    using q by (auto simp: removal_paths [unfolded list.set_map [symmetric]] Q_def list_ex_iff watched_def
        simp flip: list.set_map split: option.splits)
  then obtain e where "e \<in> set (removal_events ?db (due_removed ?db dk now))" "we_path e = q" by blast
  then have "q \<in> set (removed_paths (fst (poll dk now ?db)))"
    using removal_events(1) by (force simp: out removed_paths_def)
  then show ?thesis using q gone by (auto simp: Q_def)
qed

fun turn_events :: "turn \<Rightarrow> worker \<Rightarrow> watch_event list" where
  "turn_events t wk =
     (if tn_stop_before t then []
      else case receive (tn_received t) wk of
        None \<Rightarrow> []
      | Some wk1 \<Rightarrow> if tn_stop_after t then [] else fst (poll (tn_disk t) (tn_now t) (wk_debouncer wk1)))"

text \<open>The events of all polls of a run.\<close>

fun worker_events :: "turn list \<Rightarrow> worker \<Rightarrow> watch_event list" where
  "worker_events [] wk = []"
| "worker_events (t # ts) wk =
     turn_events t wk @ (case worker_turn t wk of (_, Some wk') \<Rightarrow> worker_events ts wk' | _ \<Rightarrow> [])"

lemma deliver_parts:
  "deliver es rs = (out, rest, closed) \<Longrightarrow>
     (\<exists>gone. es = out @ gone @ rest \<and> (\<not> closed \<longrightarrow> gone = []))"
  by (induction es rs arbitrary: out rest rule: deliver.induct) (auto split: prod.splits)

lemma trim_outbox_suffix: "suffix (trim_outbox es) es"
  by (simp add: trim_outbox_def suffix_drop)

lemma receive_outbox: "receive r wk = Some wk' \<Longrightarrow> wk_outbox wk' = wk_outbox wk"
  by (auto simp: receive_def split: if_splits received.splits)

lemma worker_turn_order:
  assumes "worker_turn t wk = (out, r)"
  shows "case r of None \<Rightarrow> subseq out (wk_outbox wk @ turn_events t wk)
    | Some wk' \<Rightarrow> suffix (out @ wk_outbox wk') (wk_outbox wk @ turn_events t wk) \<and>
        (length (wk_outbox wk @ turn_events t wk) \<le> MAX_OUTBOX \<longrightarrow> out @ wk_outbox wk' = wk_outbox wk @ turn_events t wk)"
proof (cases "tn_stop_before t \<or> tn_stop_after t \<or> receive (tn_received t) wk = None")
  case True
  then show ?thesis using assms by (auto simp: worker_turn_def split: if_splits option.splits)
next
  case False
  then obtain wk1 where wk1: "receive (tn_received t) wk = Some wk1" by blast
  obtain es db where es: "poll (tn_disk t) (tn_now t) (wk_debouncer wk1) = (es, db)" by fastforce
  obtain sent rest closed where d: "deliver (trim_outbox (wk_outbox wk1 @ es)) (tn_sends t) = (sent, rest, closed)"
    by (metis prod.exhaust)
  have ev: "wk_outbox wk @ turn_events t wk = wk_outbox wk1 @ es"
    using False wk1 es receive_outbox [OF wk1] by simp
  have res: "out = sent" "r = (if closed then None else Some (wk1\<lparr>wk_debouncer := db, wk_outbox := rest\<rparr>))"
    using assms False wk1 es d by (auto simp: worker_turn_def)
  obtain gone where gone: "trim_outbox (wk_outbox wk1 @ es) = sent @ gone @ rest" "\<not> closed \<Longrightarrow> gone = []"
    using deliver_parts [OF d] by blast
  have part: "suffix (sent @ gone @ rest) (wk_outbox wk1 @ es)" using trim_outbox_suffix [of "wk_outbox wk1 @ es"] gone(1) by simp
  have sub: "subseq sent (wk_outbox wk1 @ es)"
    using suffix_imp_subseq [OF part] by (metis subseq_append_le_same_iff subseq_order.trans list_emb_append2 subseq_order.refl prefix_imp_subseq prefixI)
  show ?thesis
    using res ev part sub gone by (auto simp: trim_outbox_def)
qed

text \<open>
  The worker hands the events on in the order of the polls and invents or repeats none; none is lost
  either while it runs, unless more events than the outbox holds were waiting.
\<close>

theorem worker_keeps_order:
  "case run_worker ts wk of
     (out, None) \<Rightarrow> subseq out (wk_outbox wk @ worker_events ts wk)
   | (out, Some wk') \<Rightarrow>
       if length (wk_outbox wk @ worker_events ts wk) \<le> MAX_OUTBOX
       then out @ wk_outbox wk' = wk_outbox wk @ worker_events ts wk
       else subseq (out @ wk_outbox wk') (wk_outbox wk @ worker_events ts wk)"
proof (induction ts arbitrary: wk)
  case (Cons t ts)
  obtain out1 r where t: "worker_turn t wk = (out1, r)" by fastforce
  note order = worker_turn_order [OF t]
  show ?case
  proof (cases r)
    case None
    then show ?thesis using t order by simp
  next
    case (Some wk1)
    let ?A = "wk_outbox wk @ turn_events t wk" and ?B = "worker_events ts wk1"
    have a: "suffix (out1 @ wk_outbox wk1) ?A" "length ?A \<le> MAX_OUTBOX \<longrightarrow> out1 @ wk_outbox wk1 = ?A"
      using order Some by simp_all
    have lift: "subseq (out1 @ xs) (?A @ ?B)" if "subseq xs (wk_outbox wk1 @ ?B)" for xs
    proof -
      have "subseq (out1 @ xs) ((out1 @ wk_outbox wk1) @ ?B)"
        using that by (simp add: subseq_append_le_same_iff list_emb_append_mono)
      moreover have "subseq ((out1 @ wk_outbox wk1) @ ?B) (?A @ ?B)"
        by (rule list_emb_append_mono [OF suffix_imp_subseq [OF a(1)] subseq_order.refl])
      ultimately show ?thesis by (rule subseq_order.trans)
    qed
    obtain out2 q where run: "run_worker ts wk1 = (out2, q)" by fastforce
    have rest: "case q of None \<Rightarrow> subseq out2 (wk_outbox wk1 @ ?B)
      | Some wk' \<Rightarrow> if length (wk_outbox wk1 @ ?B) \<le> MAX_OUTBOX then out2 @ wk_outbox wk' = wk_outbox wk1 @ ?B
                    else subseq (out2 @ wk_outbox wk') (wk_outbox wk1 @ ?B)"
      using Cons.IH [of wk1] unfolding run by (simp only: prod.case)
    show ?thesis
    proof (cases q)
      case None
      then show ?thesis using rest lift [of out2] by (simp add: t Some run)
    next
      case q: (Some wk')
      have "subseq (out2 @ wk_outbox wk') (wk_outbox wk1 @ ?B)" using rest q by (auto split: if_splits)
      note sub = lift [OF this]
      have "out1 @ out2 @ wk_outbox wk' = ?A @ ?B" if le: "length (?A @ ?B) \<le> MAX_OUTBOX"
      proof -
        have same: "out1 @ wk_outbox wk1 = ?A" using a(2) le by simp
        then have "length out1 + length (wk_outbox wk1) = length ?A" by (metis length_append)
        then have "length (wk_outbox wk1 @ ?B) \<le> MAX_OUTBOX" using le by simp
        then have "out2 @ wk_outbox wk' = wk_outbox wk1 @ ?B" using rest q by simp
        then show ?thesis by (metis same append_assoc)
      qed
      then show ?thesis using sub by (simp add: t Some run q)
    qed
  qed
qed simp

subsection \<open>A file in a watched folder\<close>

definition demo_watcher :: watcher where "demo_watcher = new_watcher [''home'', ''site'']"

definition demo_path :: path where "demo_path = [''home'', ''site'', ''a.html'']"

definition demo_disk :: "bool \<Rightarrow> disk" where
  "demo_disk there =
     \<lparr>dk_symlink_metadata = (\<lambda>p. if there then Found \<lparr>mt_is_symlink = False, mt_is_dir = False, mt_len = 3, mt_modified = None\<rparr>
                                else Not_Found),
      dk_metadata = (\<lambda>p. None), dk_read_dir = (\<lambda>p. None)\<rparr>"

lemma demo_name: "\<not> temporary_name ''a.html''"
  by code_simp

definition demo_start :: debouncer where "demo_start = watching_after (\<lambda>_. None) demo_watcher []"

lemma demo_start_eq:
  "demo_start = \<lparr>db_roots = [[''home'', ''site'']], db_excluded = [], db_ignored_dirs = DEFAULT_IGNORED_DIRS,
     db_debounce = DEFAULT_DEBOUNCE, db_pending = [], db_known = []\<rparr>"
  by (simp add: demo_start_def watching_after_def demo_watcher_def new_watcher_def new_debouncer_def watch_roots_def)

lemma demo_relative:
  "db_roots db = [[''home'', ''site'']] \<Longrightarrow> db_excluded db = [] \<Longrightarrow> relative_path db demo_path = Some [''a.html'']"
  by (simp add: relative_path_def demo_path_def)

lemma demo_ignored: "\<not> is_ignored_path [''a.html''] DEFAULT_IGNORED_DIRS"
  using demo_name by (simp add: is_ignored_path_def DEFAULT_IGNORED_DIRS_def)

lemma demo_watched: "watched (watching_after (\<lambda>_. None) demo_watcher []) demo_path"
  by (simp add: demo_start_def [symmetric] watched_def demo_relative demo_ignored, simp add: demo_start_eq demo_relative demo_ignored)

lemma busy_file_reported_witness:
  "demo_path \<in> set (changed_paths
      (watch_events (Hint demo_path (hint_of True False False) 0 # [Hint demo_path (hint_of False False False) 9000000000]
          @ [Poll (demo_disk True) (MAX_PENDING + STABILITY_RECHECK)])
        (watching_after (\<lambda>_. None) demo_watcher [])))"
  by (rule busy_file_reported [OF demo_watched]) (simp_all add: followed_def demo_disk_def)

definition demo_inputs :: "watch_input list" where
  "demo_inputs =
     [Hint demo_path (hint_of False False False) 0, Poll (demo_disk True) MAX_PENDING, Hint demo_path (hint_of False True False) MAX_PENDING]"

lemma demo_gone:
  "demo_path \<in> set (db_known (watching_after (\<lambda>_. None) demo_watcher demo_inputs))"
  "waits (watching_after (\<lambda>_. None) demo_watcher demo_inputs) demo_path = Some
     \<lparr>pd_first_seen = MAX_PENDING, pd_hint = hint_of False True False, pd_last_sig = None,
      pd_next_check = MAX_PENDING + DEFAULT_DEBOUNCE\<rparr>"
proof -
  let ?pd = "\<lparr>pd_first_seen = 0, pd_hint = hint_of False False False, pd_last_sig = None, pd_next_check = DEFAULT_DEBOUNCE\<rparr>"
  let ?known = "demo_start\<lparr>db_known := [demo_path]\<rparr>"
  have one: "record_hint demo_path (hint_of False False False) 0 demo_start = demo_start\<lparr>db_pending := [(demo_path, ?pd)]\<rparr>"
    by (simp add: record_hint_def demo_start_eq demo_relative demo_ignored record_entry_def merge_hint_def hint_of_def
        DEFAULT_DEBOUNCE_def MAX_PENDING_def from_millis_def)
  have two: "snd (poll (demo_disk True) MAX_PENDING (demo_start\<lparr>db_pending := [(demo_path, ?pd)]\<rparr>)) = ?known"
    by (simp add: poll_def due_paths_def settle_def followed_def demo_disk_def settle_file_def forget_def make_event_def
        demo_start_eq demo_relative remember_def remember_one_def is_removal_def removal_events_def map_filter_simps
        DEFAULT_DEBOUNCE_def MAX_PENDING_def MAX_KNOWN_PATHS_def from_millis_def)
  have after: "watching_after (\<lambda>_. None) demo_watcher demo_inputs = record_hint demo_path (hint_of False True False) MAX_PENDING ?known"
    unfolding watching_after_def demo_inputs_def fold_simps comp_apply id_apply watch_step.simps
      demo_start_def [unfolded watching_after_def, simplified, symmetric] one two by (rule refl)
  show "demo_path \<in> set (db_known (watching_after (\<lambda>_. None) demo_watcher demo_inputs))"
    by (simp add: after record_hint_def demo_start_eq demo_relative demo_ignored)
  show "waits (watching_after (\<lambda>_. None) demo_watcher demo_inputs) demo_path = Some
     \<lparr>pd_first_seen = MAX_PENDING, pd_hint = hint_of False True False, pd_last_sig = None,
      pd_next_check = MAX_PENDING + DEFAULT_DEBOUNCE\<rparr>"
    by (simp add: after waits_def record_hint_def demo_start_eq demo_relative demo_ignored record_entry_def merge_hint_def
        hint_of_def DEFAULT_DEBOUNCE_def MAX_PENDING_def from_millis_def)
qed

lemma reported_then_removed_witness:
  "set (removed_paths (fst (poll (demo_disk False) (MAX_PENDING + DEFAULT_DEBOUNCE)
       (watching_after (\<lambda>_. None) demo_watcher demo_inputs)))) \<inter>
     {q. prefix q demo_path \<and> followed (demo_disk False) q = Not_Found} \<noteq> {}"
  by (rule reported_then_removed [OF demo_gone]) (simp_all add: followed_def demo_disk_def)

end
