(* ===== verification/FileMasks.thy ===== *)
theory FileMasks
  imports Glob
begin

section \<open>File masks\<close>

text \<open>
  Models \<open>crates/rustscp-core/src/file_masks.rs\<close>: masks such as \<open>*.txt; !*.bak\<close>. The regular
  expressions are those of the regex crate: \<open>escape\<close> is its escaping of one character, and \<open>build\<close>
  compiles a pattern, ignoring case or not, to what it matches, or fails.
\<close>

type_synonym regex = "string \<Rightarrow> bool"

record mask_filter =
  fm_raw_mask :: string
  fm_include :: "regex list"
  fm_exclude :: "regex list"
  fm_has_include :: bool
  fm_invalid :: "string list"

definition wildcard_char :: "(char \<Rightarrow> string) \<Rightarrow> char \<Rightarrow> string" where
  "wildcard_char escape c = (if c = CHR ''*'' then ''.*'' else if c = CHR ''?'' then ''.'' else escape c)"

definition wildcard_to_regex :: "(char \<Rightarrow> string) \<Rightarrow> string \<Rightarrow> string" where
  "wildcard_to_regex escape w = ''^'' @ concat (map (wildcard_char escape) w) @ ''$''"

text \<open>One part of a mask between semicolons: whether it excludes, and its pattern.\<close>

definition mask_part :: "string \<Rightarrow> bool \<times> string" where
  "mask_part part = (case strip_prefix ''!'' part of Some rest \<Rightarrow> (True, trim rest) | None \<Rightarrow> (False, part))"

definition mask_parts :: "string \<Rightarrow> string list" where
  "mask_parts mask_str = filter (\<lambda>s. s \<noteq> []) (map trim (split_on (\<lambda>c. c = CHR '';'') mask_str))"

definition add_part ::
  "(bool \<Rightarrow> string \<Rightarrow> regex option) \<Rightarrow> (char \<Rightarrow> string) \<Rightarrow> bool \<Rightarrow> string \<Rightarrow> mask_filter \<Rightarrow> mask_filter" where
  "add_part build escape case_sensitive part f =
     (let (is_exclude, pattern) = mask_part part in
      if pattern = [] then f
      else let f' = (if is_exclude then f else f\<lparr>fm_has_include := True\<rparr>) in
        case build (\<not> case_sensitive) (wildcard_to_regex escape pattern) of
          Some re \<Rightarrow> if is_exclude then f'\<lparr>fm_exclude := fm_exclude f' @ [re]\<rparr>
                     else f'\<lparr>fm_include := fm_include f' @ [re]\<rparr>
        | None \<Rightarrow> f'\<lparr>fm_invalid := fm_invalid f' @ [part]\<rparr>)"

definition with_case_sensitivity ::
  "(bool \<Rightarrow> string \<Rightarrow> regex option) \<Rightarrow> (char \<Rightarrow> string) \<Rightarrow> string \<Rightarrow> bool \<Rightarrow> mask_filter" where
  "with_case_sensitivity build escape mask_str case_sensitive =
     fold (add_part build escape case_sensitive) (mask_parts mask_str)
       \<lparr>fm_raw_mask = mask_str, fm_include = [], fm_exclude = [], fm_has_include = False, fm_invalid = []\<rparr>"

definition new_mask :: "(bool \<Rightarrow> string \<Rightarrow> regex option) \<Rightarrow> (char \<Rightarrow> string) \<Rightarrow> string \<Rightarrow> mask_filter" where
  "new_mask build escape mask_str = with_case_sensitivity build escape mask_str False"

definition is_valid :: "mask_filter \<Rightarrow> bool" where
  "is_valid f = (fm_invalid f = [])"

definition mask_matches :: "mask_filter \<Rightarrow> string \<Rightarrow> bool" where
  "mask_matches f filename =
     (if list_ex (\<lambda>ex. ex filename) (fm_exclude f) then False
      else if fm_has_include f then list_ex (\<lambda>inc. inc filename) (fm_include f)
      else True)"

subsection \<open>What the regex crate promises\<close>

text \<open>The expressions a mask is turned into: any text of one line, any character but a line feed, or a
  given character, between the anchors.\<close>

datatype rx = Rx_Star | Rx_Any | Rx_Char char

fun rx_text :: "(char \<Rightarrow> string) \<Rightarrow> rx \<Rightarrow> string" where
  "rx_text escape Rx_Star = ''.*''"
| "rx_text escape Rx_Any = ''.''"
| "rx_text escape (Rx_Char c) = escape c"

definition same_char :: "bool \<Rightarrow> char \<Rightarrow> char \<Rightarrow> bool" where
  "same_char ignore_case c d = (if ignore_case then lower_char c = lower_char d else c = d)"

function rx_matches :: "bool \<Rightarrow> rx list \<Rightarrow> string \<Rightarrow> bool" where
  "rx_matches ic [] s = (s = [])"
| "rx_matches ic (Rx_Star # ps) s =
     (rx_matches ic ps s \<or> (case s of c # cs \<Rightarrow> c \<noteq> CHR 0x0A \<and> rx_matches ic (Rx_Star # ps) cs | [] \<Rightarrow> False))"
| "rx_matches ic (Rx_Any # ps) s = (case s of c # cs \<Rightarrow> c \<noteq> CHR 0x0A \<and> rx_matches ic ps cs | [] \<Rightarrow> False)"
| "rx_matches ic (Rx_Char d # ps) s = (case s of c # cs \<Rightarrow> same_char ic c d \<and> rx_matches ic ps cs | [] \<Rightarrow> False)"
  by pat_completeness auto

termination
  by (relation "measure (\<lambda>(ic, ps, s). length ps + length s)") auto

definition regex_law :: "(bool \<Rightarrow> string \<Rightarrow> regex option) \<Rightarrow> (char \<Rightarrow> string) \<Rightarrow> bool" where
  "regex_law build escape =
     (\<nexists>ic ps m. build ic (''^'' @ concat (map (rx_text escape) ps) @ ''$'') = Some m \<and> m \<noteq> rx_matches ic ps)"

subsection \<open>The meaning of a mask\<close>

definition rx_of :: "char \<Rightarrow> rx" where
  "rx_of c = (if c = CHR ''*'' then Rx_Star else if c = CHR ''?'' then Rx_Any else Rx_Char c)"

lemma wildcard_rx: "wildcard_to_regex escape w = ''^'' @ concat (map (rx_text escape) (map rx_of w)) @ ''$''"
proof -
  have "wildcard_char escape c = rx_text escape (rx_of c)" for c by (simp add: wildcard_char_def rx_of_def)
  then have "wildcard_char escape = rx_text escape \<circ> rx_of" by (simp add: fun_eq_iff)
  then show ?thesis by (simp add: wildcard_to_regex_def)
qed

text \<open>A name under a wildcard pattern, as for host patterns, with or without the case of letters.\<close>

definition name_like :: "bool \<Rightarrow> string \<Rightarrow> string \<Rightarrow> bool" where
  "name_like ignore_case pattern name =
     (if ignore_case then glob_spec (to_lowercase pattern) (to_lowercase name) else glob_spec pattern name)"

lemma lower_symbol: "code d < 65 \<Longrightarrow> lower_char c = d \<longleftrightarrow> c = d"
  by (auto simp: lower_char_def Let_def code_char_of split: if_splits)

lemma lower_star: "lower_char c = CHR ''*'' \<longleftrightarrow> c = CHR ''*''" "lower_char c = CHR ''?'' \<longleftrightarrow> c = CHR ''?''"
  by (rule lower_symbol, simp add: code_def)+

definition folded :: "bool \<Rightarrow> char \<Rightarrow> char" where
  "folded ignore_case = (if ignore_case then lower_char else (\<lambda>c. c))"

lemma folded_simps:
  "folded ic c = CHR ''*'' \<longleftrightarrow> c = CHR ''*''" "folded ic c = CHR ''?'' \<longleftrightarrow> c = CHR ''?''"
  "folded ic c = folded ic d \<longleftrightarrow> same_char ic c d"
  by (simp_all add: folded_def lower_star same_char_def)

lemma name_like_folded: "name_like ic w s = glob_spec (map (folded ic) w) (map (folded ic) s)"
  by (simp add: name_like_def folded_def to_lowercase_def)

lemma rx_glob: "CHR 0x0A \<notin> set s \<Longrightarrow> rx_matches ic (map rx_of w) s = name_like ic w s"
  unfolding name_like_folded
proof (induction w s rule: glob_spec.induct)
  case (2 a p)
  then show ?case by (simp add: rx_of_def folded_simps)
next
  case (3 a p c t)
  then show ?case by (simp add: rx_of_def folded_simps) (auto simp: same_char_def)
qed simp

text \<open>The patterns of a mask that include, and those that exclude.\<close>

definition rules_of :: "bool \<Rightarrow> string list \<Rightarrow> string list" where
  "rules_of excluding parts =
     filter (\<lambda>p. p \<noteq> []) (map snd (filter (\<lambda>r. fst r = excluding) (map mask_part parts)))"

definition mask_rules :: "bool \<Rightarrow> string \<Rightarrow> string list" where
  "mask_rules excluding mask_str = rules_of excluding (mask_parts mask_str)"

definition compiled :: "bool \<Rightarrow> string list \<Rightarrow> regex list" where
  "compiled ic = map (\<lambda>p. rx_matches ic (map rx_of p))"

lemma rules_of_Cons:
  "mask_part part = (x, p) \<Longrightarrow> rules_of e (part # parts) = (if x = e \<and> p \<noteq> [] then [p] else []) @ rules_of e parts"
  by (simp add: rules_of_def)

lemma regex_lawD: "regex_law build escape \<Longrightarrow> build ic (wildcard_to_regex escape w) = Some m \<Longrightarrow> m = rx_matches ic (map rx_of w)"
  unfolding regex_law_def wildcard_rx by blast

lemma invalid_grows: "prefix (fm_invalid f) (fm_invalid (fold (add_part build escape cs) parts f))"
proof (induction parts arbitrary: f)
  case (Cons part parts)
  have "prefix (fm_invalid f) (fm_invalid (add_part build escape cs part f))"
    by (simp add: add_part_def Let_def split: prod.split option.split)
  then show ?case using Cons.IH [of "add_part build escape cs part f"] by (auto intro: prefix_order.trans)
qed simp

lemma add_part_valid:
  assumes "regex_law build escape" and "mask_part part = (x, p)"
    and "is_valid (add_part build escape cs part f)"
  shows "fm_exclude (add_part build escape cs part f) = fm_exclude f @ compiled (\<not> cs) (if x \<and> p \<noteq> [] then [p] else []) \<and>
     fm_include (add_part build escape cs part f) = fm_include f @ compiled (\<not> cs) (if \<not> x \<and> p \<noteq> [] then [p] else []) \<and>
     fm_has_include (add_part build escape cs part f) = (fm_has_include f \<or> \<not> x \<and> p \<noteq> [])"
  using assms(2,3) regex_lawD [OF assms(1), of "\<not> cs" p]
  by (auto simp: add_part_def compiled_def is_valid_def Let_def split: option.splits if_splits)

lemma add_parts:
  assumes "regex_law build escape"
  shows "is_valid (fold (add_part build escape cs) parts f) \<Longrightarrow>
     fm_exclude (fold (add_part build escape cs) parts f) = fm_exclude f @ compiled (\<not> cs) (rules_of True parts) \<and>
     fm_include (fold (add_part build escape cs) parts f) = fm_include f @ compiled (\<not> cs) (rules_of False parts) \<and>
     fm_has_include (fold (add_part build escape cs) parts f) = (fm_has_include f \<or> rules_of False parts \<noteq> [])"
proof (induction parts arbitrary: f)
  case (Cons part parts)
  obtain x p where part: "mask_part part = (x, p)" by fastforce
  have "is_valid (add_part build escape cs part f)"
    using Cons.prems invalid_grows [where f = "add_part build escape cs part f" and build = build and escape = escape and cs = cs and parts = parts]
    by (auto simp: is_valid_def)
  then show ?case
    using Cons.IH [of "add_part build escape cs part f"] Cons.prems add_part_valid [OF assms part]
    by (auto simp: rules_of_Cons [OF part] compiled_def)
qed (simp add: rules_of_def compiled_def)

text \<open>
  C24: A mask whose patterns all compile accepts exactly the names no excluding pattern fits and, when
  it has including patterns, some including pattern fits; a pattern fits as a host pattern does, and
  the case of letters does not matter unless it was asked for.
\<close>

theorem mask_matches_correct:
  assumes "regex_law build escape" and "is_valid (with_case_sensitivity build escape mask_str cs)" and "CHR 0x0A \<notin> set name"
  shows "mask_matches (with_case_sensitivity build escape mask_str cs) name =
     (\<not> list_ex (\<lambda>p. name_like (\<not> cs) p name) (mask_rules True mask_str) \<and>
      (mask_rules False mask_str = [] \<or> list_ex (\<lambda>p. name_like (\<not> cs) p name) (mask_rules False mask_str)))"
proof -
  have "list_ex (\<lambda>m. m name) (compiled ic ps) = list_ex (\<lambda>p. name_like ic p name) ps" for ic ps
    by (simp add: compiled_def list_ex_iff rx_glob [OF assms(3)])
  then show ?thesis
    using add_parts [OF assms(1) assms(2) [unfolded with_case_sensitivity_def]]
    by (simp add: mask_matches_def with_case_sensitivity_def mask_rules_def)
qed

text \<open>An engine for just these expressions, to apply the theorem to a mask.\<close>

definition demo_escape :: "char \<Rightarrow> string" where
  "demo_escape c = [CHR 0x5C, c]"

fun parse_rx :: "string \<Rightarrow> rx list option" where
  "parse_rx [] = None"
| "parse_rx [c] = (if c = CHR ''$'' then Some [] else None)"
| "parse_rx (c # d # s) =
     (if c = CHR ''.'' \<and> d = CHR ''*'' then map_option (Cons Rx_Star) (parse_rx s)
      else if c = CHR ''.'' then map_option (Cons Rx_Any) (parse_rx (d # s))
      else if c = CHR 0x5C then map_option (Cons (Rx_Char d)) (parse_rx s)
      else None)"

definition demo_build :: "bool \<Rightarrow> string \<Rightarrow> regex option" where
  "demo_build ic s = (case s of [] \<Rightarrow> None | c # cs \<Rightarrow> map_option (rx_matches ic) (parse_rx cs))"

lemma parse_rx_text: "parse_rx (concat (map (rx_text demo_escape) ps) @ ''$'') = Some ps"
proof (induction ps)
  case (Cons a ps)
  have "parse_rx (CHR ''.'' # concat (map (rx_text demo_escape) ps) @ ''$'') =
      map_option (Cons Rx_Any) (parse_rx (concat (map (rx_text demo_escape) ps) @ ''$''))"
    by (cases ps; cases "hd ps") (simp_all add: demo_escape_def)
  note any = this
  show ?case
  proof (cases a)
    case Rx_Any
    then show ?thesis using any Cons.IH by simp
  qed (use Cons.IH in \<open>simp_all add: demo_escape_def\<close>)
qed simp

lemma demo_regex: "regex_law demo_build demo_escape"
  using parse_rx_text by (auto simp: regex_law_def demo_build_def)

lemma mask_matches_correct_witness:
  "mask_matches (with_case_sensitivity demo_build demo_escape ''*.TXT; !a*'' False) ''b.txt''"
proof -
  have v: "is_valid (with_case_sensitivity demo_build demo_escape ''*.TXT; !a*'' False)"
    by code_simp
  have "CHR 0x0A \<notin> set ''b.txt''" by simp
  from mask_matches_correct [OF demo_regex v this] show ?thesis
    by (rule iffD2) code_simp
qed

end
