(* ===== verification/CacheNames.thy ===== *)
theory CacheNames
  imports Bytes
begin

section \<open>Names of cached files\<close>

text \<open>
  Models how \<open>crates/rustscp-core/src/disk_cache.rs\<close> names the files of the cache: a remote path
  component becomes a file name that any file system takes, and names never meet, also where the
  case of letters does not count. SHA-256 and the \<open>hex\<close> crate are parameters: \<open>sha\<close> digests bytes
  and writes them in hexadecimal.
\<close>

subsection \<open>The encoding\<close>

definition MAX_ENCODED_COMPONENT_LEN :: nat where "MAX_ENCODED_COMPONENT_LEN = 200"

definition SESSION_ID_SIDECAR :: string where "SESSION_ID_SIDECAR = ''.rustscp-session-id''"
definition TEMP_PREFIX :: string where "TEMP_PREFIX = ''.rustscp-tmp-''"

definition sha256_hex :: "(bytes \<Rightarrow> bytes) \<Rightarrow> (bytes \<Rightarrow> string) \<Rightarrow> bytes \<Rightarrow> string" where
  "sha256_hex digest hex_encode data = hex_encode (digest data)"

definition session_dir_name :: "(bytes \<Rightarrow> string) \<Rightarrow> string \<Rightarrow> string" where
  "session_dir_name sha session_id = sha (as_bytes session_id)"

definition is_windows_reserved_stem :: "string \<Rightarrow> bool" where
  "is_windows_reserved_stem stem =
     (stem \<in> {''con'', ''prn'', ''aux'', ''nul''} \<or>
      (starts_with stem ''com'' \<or> starts_with stem ''lpt'') \<and> length stem = 4 \<and> is_ascii_digit (stem ! 3))"

text \<open>\<open>{:02X}\<close>\<close>

definition hex_digit :: "nat \<Rightarrow> char" where
  "hex_digit d = (if d < 10 then char_of (48 + d) else char_of (55 + d))"

definition hex_upper :: "nat \<Rightarrow> string" where
  "hex_upper n = [hex_digit (n div 16), hex_digit (n mod 16)]"

definition plain_byte :: "nat \<Rightarrow> nat \<Rightarrow> nat \<Rightarrow> bool" where
  "plain_byte i last_index b =
     ((97 \<le> b \<and> b \<le> 122) \<or> (48 \<le> b \<and> b \<le> 57) \<or> b = 95 \<or> b = 45 \<or> (b = 46 \<and> i \<noteq> 0 \<and> i \<noteq> last_index))"

fun encode_bytes :: "nat \<Rightarrow> nat \<Rightarrow> bytes \<Rightarrow> string" where
  "encode_bytes last_index i [] = []"
| "encode_bytes last_index i (b # bs) =
     (if plain_byte i last_index (unat b) then [char_of (unat b)] else CHR ''%'' # hex_upper (unat b))
     @ encode_bytes last_index (Suc i) bs"

definition stem_of :: "string \<Rightarrow> string" where
  "stem_of out = takeWhile (\<lambda>c. c \<noteq> CHR ''.'') out"

text \<open>The output is ASCII, so its length is its number of bytes. A reserved stem is not empty.\<close>

definition escape_reserved :: "string \<Rightarrow> string" where
  "escape_reserved out =
     (if is_windows_reserved_stem (stem_of out) then CHR ''%'' # hex_upper (code (hd out)) @ tl out else out)"

definition encode_component :: "(bytes \<Rightarrow> string) \<Rightarrow> string \<Rightarrow> string" where
  "encode_component sha component =
     (let bytes = as_bytes component;
          out = escape_reserved (encode_bytes (length bytes - 1) 0 bytes)
      in if length out > MAX_ENCODED_COMPONENT_LEN then CHR ''~'' # sha bytes else out)"

definition encoded_components :: "(bytes \<Rightarrow> string) \<Rightarrow> string \<Rightarrow> string list" where
  "encoded_components sha remote_path =
     map (encode_component sha) (filter (\<lambda>c. c \<noteq> [] \<and> c \<noteq> ''.'') (split_on (\<lambda>c. c = CHR ''/'') remote_path))"

definition is_safe_legacy_dir_name :: "string \<Rightarrow> bool" where
  "is_safe_legacy_dir_name name =
     (name \<noteq> [] \<and> str_len name \<le> 128 \<and> name \<noteq> ''.'' \<and> name \<noteq> ''..'' \<and>
      list_all (\<lambda>b. is_ascii_alphanumeric b \<or> b = CHR ''_'' \<or> b = CHR ''-'' \<or> b = CHR ''.'') name)"

definition is_internal_file_name :: "string \<Rightarrow> bool" where
  "is_internal_file_name name = (name = SESSION_ID_SIDECAR \<or> starts_with name TEMP_PREFIX)"

text \<open>Local paths are lists of components, the directory of the cache being \<open>base\<close>.\<close>

definition site_dir :: "(bytes \<Rightarrow> string) \<Rightarrow> string list \<Rightarrow> string \<Rightarrow> string list" where
  "site_dir sha base session_id = base @ [session_dir_name sha session_id]"

definition get_local_file_path :: "(bytes \<Rightarrow> string) \<Rightarrow> string list \<Rightarrow> string \<Rightarrow> string \<Rightarrow> string list option" where
  "get_local_file_path sha base session_id remote_path =
     (let components = encoded_components sha remote_path in
      if components = [] then None else Some (site_dir sha base session_id @ components))"

subsection \<open>Reading an encoded name back\<close>

definition hex_value :: "char \<Rightarrow> nat" where
  "hex_value c = (if code c < 58 then code c - 48 else code c - 87)"

text \<open>Reads a name whose letters are in lower case.\<close>

fun decode_name :: "string \<Rightarrow> nat list" where
  "decode_name [] = []"
| "decode_name (c # s) =
     (if c = CHR ''%'' then
        (case s of h # l # s' \<Rightarrow> (16 * hex_value h + hex_value l) # decode_name s' | _ \<Rightarrow> [])
      else code c # decode_name s)"

lemma hex_value_digit: "d < 16 \<Longrightarrow> hex_value (ascii_lower (hex_digit d)) = d"
proof -
  assume "d < 16"
  then have "d \<in> set [0..<16]" by simp
  then show ?thesis
    by (simp add: upt_rec) (elim disjE; simp add: hex_digit_def; code_simp)
qed

lemma digit_code:
  assumes "d < 16"
  shows "hex_digit d \<noteq> CHR ''%'' \<and> hex_digit d \<noteq> CHR ''.'' \<and>
     (48 \<le> code (hex_digit d) \<and> code (hex_digit d) \<le> 57 \<or> 65 \<le> code (hex_digit d) \<and> code (hex_digit d) \<le> 70)"
proof -
  have "d \<in> set [0..<16]" using assms by simp
  then show ?thesis
    by (simp add: upt_rec) (elim disjE; simp add: hex_digit_def; code_simp)
qed

lemma plain_char:
  assumes "plain_byte i m n"
  shows "code (char_of n) = n \<and> ascii_lower (char_of n) = char_of n \<and> char_of n \<noteq> CHR ''%'' \<and> char_of n \<noteq> CHR ''~''"
proof -
  have n: "n < 256" using assms by (auto simp: plain_byte_def)
  have c: "code (char_of n) = n" by (rule code_char_of [OF n])
  then have "ascii_lower (char_of n) = char_of n"
    using assms by (auto simp: ascii_lower_def is_ascii_upper_def plain_byte_def Let_def)
  moreover have "n \<noteq> 37" "n \<noteq> 126" using assms by (auto simp: plain_byte_def)
  then have "code (char_of n) \<noteq> code (CHR ''%'')" "code (char_of n) \<noteq> code (CHR ''~'')" by (simp_all add: c, simp_all add: code_def)
  then have "char_of n \<noteq> CHR ''%''" "char_of n \<noteq> CHR ''~''" by metis+
  ultimately show ?thesis using c by simp
qed

lemma decode_hex_upper:
  "n < 256 \<Longrightarrow> decode_name (map ascii_lower (CHR ''%'' # hex_upper n @ s)) = n # decode_name (map ascii_lower s)"
proof -
  assume "n < 256"
  then have "hex_value (ascii_lower (hex_digit (n div 16))) = n div 16" "hex_value (ascii_lower (hex_digit (n mod 16))) = n mod 16"
    by (simp_all add: hex_value_digit less_mult_imp_div_less)
  moreover have "ascii_lower (CHR ''%'') = CHR ''%''" by code_simp
  ultimately show ?thesis by (simp add: hex_upper_def)
qed

lemma decode_encode: "decode_name (map ascii_lower (encode_bytes m i bs)) = map unat bs"
proof (induction bs arbitrary: i)
  case (Cons b bs)
  show ?case
  proof (cases "plain_byte i m (unat b)")
    case True
    then show ?thesis using plain_char [OF True] Cons.IH by simp
  next
    case False
    then show ?thesis using decode_hex_upper [OF byte_less [of b]] Cons.IH by simp
  qed
qed simp

lemma reserved_first:
  assumes "is_windows_reserved_stem (stem_of out)"
  obtains c rest where "out = c # rest" "97 \<le> code c" "code c \<le> 122"
proof -
  obtain c st where st: "stem_of out = c # st" "c \<in> {CHR ''c'', CHR ''p'', CHR ''a'', CHR ''n'', CHR ''l''}"
    using assms by (cases "stem_of out") (auto simp: is_windows_reserved_stem_def starts_with_def)
  then obtain rest where "out = c # rest" by (cases out) (auto simp: stem_of_def split: if_splits)
  then show thesis using st(2) by (intro that) (auto simp: code_def)
qed

lemma decode_escaped: "decode_name (map ascii_lower (escape_reserved out)) = decode_name (map ascii_lower out)"
proof (cases "is_windows_reserved_stem (stem_of out)")
  case True
  then obtain c rest where out: "out = c # rest" "97 \<le> code c" "code c \<le> 122" by (rule reserved_first)
  then have "ascii_lower c = c" "c \<noteq> CHR ''%''" by (auto simp: ascii_lower_def is_ascii_upper_def Let_def code_def)
  then show ?thesis using True decode_hex_upper [OF code_less [of c], of rest] by (simp add: escape_reserved_def out(1))
qed (simp add: escape_reserved_def)

lemma no_tilde: "escape_reserved (encode_bytes m i bs) \<noteq> CHR ''~'' # s"
proof -
  have "encode_bytes m i bs \<noteq> CHR ''~'' # s"
    using plain_char [of i m "unat (hd bs)"] by (cases bs) auto
  then show ?thesis by (simp add: escape_reserved_def)
qed

text \<open>What is needed of the digest: 64 digits, the letters in lower case.\<close>

definition hex_law :: "(bytes \<Rightarrow> string) \<Rightarrow> bool" where
  "hex_law sha = (\<forall>bs. length (sha bs) = 64 \<and> list_all (\<lambda>c. is_ascii_digit c \<or> 97 \<le> code c \<and> code c \<le> 102) (sha bs))"

lemma hex_lower: "hex_law sha \<Longrightarrow> map ascii_lower (sha bs) = sha bs"
proof (intro map_idI)
  fix c
  assume "hex_law sha" "c \<in> set (sha bs)"
  then have "is_ascii_digit c \<or> 97 \<le> code c \<and> code c \<le> 102" by (simp add: hex_law_def list_all_iff)
  then show "ascii_lower c = c" by (auto simp: ascii_lower_def is_ascii_upper_def is_ascii_digit_def Let_def)
qed

lemma lower_tilde: "ascii_lower c = CHR ''~'' \<longleftrightarrow> c = CHR ''~''"
proof
  assume a: "ascii_lower c = CHR ''~''"
  show "c = CHR ''~''"
  proof (cases "is_ascii_upper c")
    case True
    then have "code (ascii_lower c) \<le> 122"
      by (auto simp: ascii_lower_def is_ascii_upper_def Let_def code_char_of)
    then show ?thesis using a by (simp add: code_def)
  qed (use a in \<open>simp add: ascii_lower_def\<close>)
next
  assume c: "c = CHR ''~''"
  show "ascii_lower c = CHR ''~''" unfolding c by code_simp
qed

lemma as_bytes_unat: "map unat (as_bytes a) = map unat (as_bytes b) \<Longrightarrow> a = b"
  by (metis as_bytes_inj inj_map_eq_map inj_on_def unsigned_word_eqI)

lemma encode_inj:
  assumes "hex_law sha" and same: "map ascii_lower (encode_component sha a) = map ascii_lower (encode_component sha b)"
  shows "a = b \<or> sha (as_bytes a) = sha (as_bytes b)"
proof -
  define out where "out c = escape_reserved (encode_bytes (length (as_bytes c) - 1) 0 (as_bytes c))" for c
  have enc: "encode_component sha c = (if length (out c) > MAX_ENCODED_COMPONENT_LEN then CHR ''~'' # sha (as_bytes c) else out c)" for c
    by (simp add: encode_component_def out_def Let_def)
  have dec: "decode_name (map ascii_lower (out c)) = map unat (as_bytes c)" for c
    by (simp add: out_def decode_escaped decode_encode)
  have short: "map ascii_lower (out c) \<noteq> CHR ''~'' # s" for c s
    using no_tilde by (auto simp: out_def lower_tilde)
  have long: "map ascii_lower (CHR ''~'' # sha x) = CHR ''~'' # sha x" for x
    using hex_lower [OF assms(1)] lower_tilde by simp
  show ?thesis
  proof (cases "length (out a) > MAX_ENCODED_COMPONENT_LEN"; cases "length (out b) > MAX_ENCODED_COMPONENT_LEN")
    assume "length (out a) > MAX_ENCODED_COMPONENT_LEN" "length (out b) > MAX_ENCODED_COMPONENT_LEN"
    then show ?thesis using same by (simp only: enc if_True long list.inject) simp
  next
    assume "\<not> length (out a) > MAX_ENCODED_COMPONENT_LEN" "\<not> length (out b) > MAX_ENCODED_COMPONENT_LEN"
    then show ?thesis using same as_bytes_unat [of a b] by (simp only: enc if_False flip: dec) simp
  qed (use same short in \<open>simp_all only: enc if_True if_False long simp_thms\<close>, metis+)
qed


subsection \<open>Portable names\<close>

definition portable_char :: "char \<Rightarrow> bool" where
  "portable_char c =
     (is_ascii_lower c \<or> is_ascii_digit c \<or> 65 \<le> code c \<and> code c \<le> 70 \<or> code c \<in> {95, 45, 46, 37, 126})"

text \<open>A file name every file system takes: only these characters, no dot at an end (so neither \<open>.\<close>
  nor \<open>..\<close>), no device name of Windows before the first dot.\<close>

definition portable_name :: "string \<Rightarrow> bool" where
  "portable_name s = (s \<noteq> [] \<and> list_all portable_char s \<and> hd s \<noteq> CHR ''.'' \<and> last s \<noteq> CHR ''.'' \<and>
     \<not> is_windows_reserved_stem (stem_of s) \<and> length s \<le> MAX_ENCODED_COMPONENT_LEN)"

lemma portable_plain: "plain_byte i m n \<Longrightarrow> portable_char (char_of n) \<and> (char_of n = CHR ''.'' \<longrightarrow> i \<noteq> 0 \<and> i \<noteq> m)"
  using plain_char [of i m n]
  by (auto simp: portable_char_def is_ascii_lower_def is_ascii_digit_def plain_byte_def Let_def) (auto simp: code_def)

lemma portable_hex:
  assumes "n < 256"
  shows "list_all portable_char (CHR ''%'' # hex_upper n) \<and> last (hex_upper n) \<noteq> CHR ''.''"
proof -
  have "n div 16 < 16" "n mod 16 < 16" using assms by auto
  then have "portable_char (hex_digit (n div 16))" "portable_char (hex_digit (n mod 16))" "hex_digit (n mod 16) \<noteq> CHR ''.''"
    using digit_code [of "n div 16"] digit_code [of "n mod 16"] by (auto simp: portable_char_def is_ascii_digit_def Let_def)
  moreover have "portable_char (CHR ''%'')" by (simp add: portable_char_def code_def)
  ultimately show ?thesis by (simp add: hex_upper_def)
qed

lemma encode_bytes_portable: "list_all portable_char (encode_bytes m i bs)"
proof (induction bs arbitrary: i)
  case (Cons b bs)
  then show ?case using portable_plain [of i m "unat b"] portable_hex [OF byte_less [of b]] by auto
qed simp

lemma hex_upper_not_Nil: "hex_upper n \<noteq> []"
  by (simp add: hex_upper_def)

lemma encode_bytes_last: "bs \<noteq> [] \<Longrightarrow> m = i + length bs - 1 \<Longrightarrow> encode_bytes m i bs \<noteq> [] \<and> last (encode_bytes m i bs) \<noteq> CHR ''.''"
proof (induction bs arbitrary: i)
  case (Cons b bs)
  show ?case
  proof (cases bs)
    case Nil
    then show ?thesis
      using portable_plain [of i m "unat b"] portable_hex [OF byte_less [of b]] Cons.prems hex_upper_not_Nil by auto
  next
    case Cons': (Cons c cs)
    then show ?thesis using Cons.IH [of "Suc i"] Cons.prems by simp
  qed
qed simp

lemma encode_bytes_first: "bs \<noteq> [] \<Longrightarrow> hd (encode_bytes m 0 bs) \<noteq> CHR ''.''"
  using portable_plain [of 0 m "unat (hd bs)"] by (cases bs) auto

lemma escaped_not_reserved: "c = CHR ''%'' \<or> c = CHR ''~'' \<Longrightarrow> \<not> is_windows_reserved_stem (stem_of (c # s))"
  by (auto simp: is_windows_reserved_stem_def stem_of_def starts_with_def)

lemma portable_escaped:
  assumes "out \<noteq> []" and "list_all portable_char out" and "hd out \<noteq> CHR ''.''" and "last out \<noteq> CHR ''.''"
    and "length (escape_reserved out) \<le> MAX_ENCODED_COMPONENT_LEN"
  shows "portable_name (escape_reserved out)"
proof (cases "is_windows_reserved_stem (stem_of out)")
  case True
  then obtain c rest where out: "out = c # rest" by (rule reserved_first)
  have "rest \<noteq> []"
    using True by (auto simp: out is_windows_reserved_stem_def stem_of_def starts_with_def split: if_splits)
  then have "last (escape_reserved out) = last out" by (simp add: escape_reserved_def True out)
  then show ?thesis
    using True assms portable_hex [OF code_less [of c]] escaped_not_reserved
    by (simp add: portable_name_def escape_reserved_def out)
qed (use assms in \<open>simp add: portable_name_def escape_reserved_def\<close>)

lemma portable_hashed:
  assumes "hex_law sha"
  shows "portable_name (CHR ''~'' # sha bs)"
proof -
  have law: "length (sha bs) = 64" "list_all (\<lambda>c. is_ascii_digit c \<or> 97 \<le> code c \<and> code c \<le> 102) (sha bs)"
    using assms by (simp_all add: hex_law_def)
  have "portable_char c \<and> c \<noteq> CHR ''.''" if "c \<in> set (sha bs)" for c
    using that law(2) by (auto simp: list_all_iff portable_char_def is_ascii_lower_def Let_def is_ascii_digit_def code_def)
  then have chars: "list_all portable_char (sha bs)" and "\<And>c. c \<in> set (sha bs) \<Longrightarrow> c \<noteq> CHR ''.''" by (auto simp: list_all_iff)
  moreover have "sha bs \<noteq> []" using law(1) by auto
  ultimately have "last (sha bs) \<noteq> CHR ''.''" "sha bs \<noteq> []" by auto
  moreover have "portable_char (CHR ''~'')" by (simp add: portable_char_def code_def)
  ultimately show ?thesis
    using chars law(1) escaped_not_reserved by (simp add: portable_name_def MAX_ENCODED_COMPONENT_LEN_def)
qed

lemma encode_portable:
  assumes "hex_law sha" and "c \<noteq> []"
  shows "portable_name (encode_component sha c)"
proof -
  let ?out = "encode_bytes (length (as_bytes c) - 1) 0 (as_bytes c)"
  have ne: "as_bytes c \<noteq> []" using assms(2) as_bytes_inj [of c "[]"] by (auto simp: as_bytes_def)
  have out: "?out \<noteq> []" "last ?out \<noteq> CHR ''.''" using encode_bytes_last [OF ne, of _ 0] by simp_all
  note short = portable_escaped [OF out(1) encode_bytes_portable encode_bytes_first [OF ne] out(2)]
  show ?thesis
  proof (cases "length (escape_reserved ?out) > MAX_ENCODED_COMPONENT_LEN")
    case True
    then show ?thesis using portable_hashed [OF assms(1)] by (simp only: encode_component_def Let_def if_True)
  next
    case False
    then show ?thesis using short by (auto simp: encode_component_def Let_def not_less)
  qed
qed

text \<open>
  Whatever a remote path holds, each of its components becomes a file name that every file system
  takes: of harmless characters only, never \<open>.\<close> or \<open>..\<close>, no device name and not too long.
\<close>

theorem cache_names_portable:
  assumes "hex_law sha"
  shows "list_all portable_name (encoded_components sha remote_path)"
  using encode_portable [OF assms] by (auto simp: encoded_components_def list_all_iff)

text \<open>A digest for the witnesses.\<close>

definition demo_sha :: "bytes \<Rightarrow> string" where
  "demo_sha bs = concat (replicate 8 ''0a1b2c3d'')"

lemma demo_hex: "hex_law demo_sha"
  by (auto simp: hex_law_def demo_sha_def numeral_eq_Suc is_ascii_digit_def Let_def code_def)

lemma cache_names_portable_witness: "list_all portable_name (encoded_components demo_sha ''/www/../con.txt/Index.html'')"
  by (rule cache_names_portable [OF demo_hex])

definition remote_names :: "string \<Rightarrow> string list" where
  "remote_names remote_path = filter (\<lambda>c. c \<noteq> [] \<and> c \<noteq> ''.'') (split_on (\<lambda>c. c = CHR ''/'') remote_path)"

lemma encoded_names: "encoded_components sha p = map (encode_component sha) (remote_names p)"
  by (simp add: encoded_components_def remote_names_def)

text \<open>Two lists hold different names at the same place that the digest does not tell apart.\<close>

definition collision :: "(bytes \<Rightarrow> string) \<Rightarrow> string list \<Rightarrow> string list \<Rightarrow> bool" where
  "collision sha xs ys = list_ex (\<lambda>(x, y). x \<noteq> y \<and> sha (as_bytes x) = sha (as_bytes y)) (zip xs ys)"

lemma encode_all_inj:
  assumes "hex_law sha"
  shows "map (map ascii_lower \<circ> encode_component sha) xs = map (map ascii_lower \<circ> encode_component sha) ys \<Longrightarrow>
     xs = ys \<or> collision sha xs ys"
proof (induction xs arbitrary: ys)
  case (Cons x xs)
  then obtain y ys' where ys: "ys = y # ys'" by (cases ys) auto
  then show ?case using Cons encode_inj [OF assms, of x y] by (auto simp: collision_def)
qed (simp add: collision_def)

lemma portable_digest:
  assumes "hex_law sha"
  shows "portable_name (sha bs)"
proof -
  have law: "length (sha bs) = 64" "list_all (\<lambda>c. is_ascii_digit c \<or> 97 \<le> code c \<and> code c \<le> 102) (sha bs)"
    using assms by (simp_all add: hex_law_def)
  have c: "portable_char c \<and> c \<noteq> CHR ''.''" if "c \<in> set (sha bs)" for c
    using that law(2) by (auto simp: list_all_iff portable_char_def is_ascii_lower_def Let_def is_ascii_digit_def code_def)
  have ne: "sha bs \<noteq> []" using law(1) by auto
  have "stem_of (sha bs) = sha bs" unfolding stem_of_def using c by (auto intro: takeWhile_eq_all_conv [THEN iffD2])
  then have "\<not> is_windows_reserved_stem (stem_of (sha bs))" using law(1) by (auto simp: is_windows_reserved_stem_def)
  then show ?thesis
    using c ne law(1) hd_in_set [OF ne] last_in_set [OF ne] by (auto simp: portable_name_def list_all_iff MAX_ENCODED_COMPONENT_LEN_def)
qed

text \<open>
  C25: Two remote files share a cache file only when they are the same path of the same session (up to
  empty and \<open>.\<close> components), also where file names do not differ by case, unless the digest does
  not tell two of their names apart; and no cache file lies outside the folder of its session:
  below the folder of the cache its path goes on with the name of the session and at least one more
  name, all of them plain file names, without a separator and never \<open>.\<close> or \<open>..\<close>, whatever the remote
  path holds.
\<close>

theorem cache_files_distinct:
  assumes "hex_law sha"
    and "get_local_file_path sha base s p = Some f" and "get_local_file_path sha base t q = Some g"
    and "map to_ascii_lowercase f = map to_ascii_lowercase g"
  shows "(s = t \<and> remote_names p = remote_names q \<or> collision sha (s # remote_names p) (t # remote_names q)) \<and>
     (\<exists>names. f = base @ session_dir_name sha s # names \<and> names \<noteq> [] \<and> list_all portable_name (session_dir_name sha s # names))"
proof -
  have f: "f = site_dir sha base s @ encoded_components sha p" "encoded_components sha p \<noteq> []"
    and g: "g = site_dir sha base t @ encoded_components sha q"
    using assms(2,3) by (auto simp: get_local_file_path_def Let_def split: if_splits)
  have "map to_ascii_lowercase (sha (as_bytes s) # encoded_components sha p) =
      map to_ascii_lowercase (sha (as_bytes t) # encoded_components sha q)"
    using assms(4) by (simp add: f g site_dir_def session_dir_name_def)
  then have "sha (as_bytes s) = sha (as_bytes t)"
    "map (map ascii_lower \<circ> encode_component sha) (remote_names p) =
     map (map ascii_lower \<circ> encode_component sha) (remote_names q)"
    by (simp_all add: to_ascii_lowercase_def hex_lower [OF assms(1)] encoded_names comp_def)
  then have "s = t \<and> remote_names p = remote_names q \<or> collision sha (s # remote_names p) (t # remote_names q)"
    using encode_all_inj [OF assms(1), of "remote_names p" "remote_names q"] by (auto simp: collision_def)
  moreover have "list_all portable_name (encoded_components sha p)" using encode_portable [OF assms(1)]
    by (auto simp: encoded_components_def list_all_iff)
  ultimately show ?thesis using f portable_digest [OF assms(1)]
    by (auto simp: site_dir_def session_dir_name_def)
qed

lemma cache_files_distinct_witness:
  "\<exists>names. site_dir demo_sha [''cache''] ''s'' @ [''%2E%2E'', ''a.txt''] = [''cache''] @ session_dir_name demo_sha ''s'' # names \<and>
     names \<noteq> [] \<and> list_all portable_name (session_dir_name demo_sha ''s'' # names)"
proof -
  have "get_local_file_path demo_sha [''cache''] ''s'' ''/./../a.txt'' = Some (site_dir demo_sha [''cache''] ''s'' @ [''%2E%2E'', ''a.txt''])"
    by code_simp
  from cache_files_distinct [OF demo_hex this this refl] show ?thesis by (rule conjunct2)
qed

end
