(* ===== verification/LruIndex.thy ===== *)
theory LruIndex
  imports Prelude "HOL-Library.AList"
begin

section \<open>The index of least recent use\<close>

text \<open>
  Models \<open>ContentIndex\<close> of \<open>crates/rustscp-core/src/disk_cache.rs\<close>: sizes and ticks of the cached
  files by path, and the paths by tick. Its specification is one list of paths and sizes, the one
  used least recently in front. Ticks and totals of 64 bits are natural numbers: they count calls
  and bytes on a disk.
\<close>

subsection \<open>The code\<close>

type_synonym local_path = "string list"

record content_index =
  ci_loaded :: bool
  ci_total :: nat
  ci_clock :: nat
  ci_files :: "(local_path \<times> nat \<times> nat) list"
  ci_order :: "(nat, local_path) bmap"

definition empty_index :: content_index where
  "empty_index = \<lparr>ci_loaded = False, ci_total = 0, ci_clock = 0, ci_files = [], ci_order = []\<rparr>"

definition ci_remove :: "local_path \<Rightarrow> content_index \<Rightarrow> nat option \<times> content_index" where
  "ci_remove p idx =
     (case map_of (ci_files idx) p of
        None \<Rightarrow> (None, idx)
      | Some (n, tick) \<Rightarrow>
          (Some n, idx\<lparr>ci_files := AList.delete p (ci_files idx), ci_order := bm_remove tick (ci_order idx),
                          ci_total := ci_total idx - n\<rparr>))"

definition ci_insert :: "local_path \<Rightarrow> nat \<Rightarrow> content_index \<Rightarrow> content_index" where
  "ci_insert p n idx =
     (let idx1 = snd (ci_remove p idx); clock = ci_clock idx1 + 1 in
      idx1\<lparr>ci_clock := clock, ci_files := AList.update p (n, clock) (ci_files idx1),
           ci_order := bm_insert clock p (ci_order idx1), ci_total := ci_total idx1 + n\<rparr>)"

definition ci_touch :: "local_path \<Rightarrow> content_index \<Rightarrow> content_index" where
  "ci_touch p idx =
     (case map_of (ci_files idx) p of
        None \<Rightarrow> idx
      | Some (n, tick) \<Rightarrow>
          let clock = ci_clock idx + 1 in
          idx\<lparr>ci_clock := clock, ci_files := AList.update p (n, clock) (ci_files idx),
              ci_order := bm_insert clock p (bm_remove tick (ci_order idx))\<rparr>)"

definition ci_remove_prefix :: "local_path \<Rightarrow> content_index \<Rightarrow> content_index" where
  "ci_remove_prefix pre idx = fold (\<lambda>p idx. snd (ci_remove p idx)) (filter (prefix pre) (map fst (ci_files idx))) idx"

definition ci_pop_oldest :: "content_index \<Rightarrow> (local_path \<times> nat) option \<times> content_index" where
  "ci_pop_oldest idx =
     (case ci_order idx of
        [] \<Rightarrow> (None, idx)
      | (tick, p) # _ \<Rightarrow>
          let idx1 = idx\<lparr>ci_order := bm_remove tick (ci_order idx)\<rparr> in
          (case map_of (ci_files idx1) p of
             None \<Rightarrow> (None, idx1)
           | Some (n, _) \<Rightarrow>
               (Some (p, n), idx1\<lparr>ci_files := AList.delete p (ci_files idx1), ci_total := ci_total idx1 - n\<rparr>)))"

definition ci_reset :: "content_index \<Rightarrow> content_index" where
  "ci_reset idx = empty_index"

subsection \<open>The interface\<close>

text \<open>
  What the cache relies on: the index behaves like a list of paths with their sizes in the order of
  use, whatever it is made of.
\<close>

locale lru =
  fixes good :: "'i \<Rightarrow> bool" and uses :: "'i \<Rightarrow> ('p \<times> nat) list" and total :: "'i \<Rightarrow> nat"
    and insert :: "'p \<Rightarrow> nat \<Rightarrow> 'i \<Rightarrow> 'i" and remove :: "'p \<Rightarrow> 'i \<Rightarrow> nat option \<times> 'i"
    and pop :: "'i \<Rightarrow> ('p \<times> nat) option \<times> 'i"
  assumes distinct_uses: "good i \<Longrightarrow> distinct (map fst (uses i))"
    and total_uses: "good i \<Longrightarrow> total i = sum_list (map snd (uses i))"
    and good_insert: "good i \<Longrightarrow> good (insert p n i)"
    and uses_insert: "good i \<Longrightarrow> uses (insert p n i) = filter (\<lambda>u. fst u \<noteq> p) (uses i) @ [(p, n)]"
    and good_remove: "good i \<Longrightarrow> good (snd (remove p i))"
    and uses_remove: "good i \<Longrightarrow> uses (snd (remove p i)) = filter (\<lambda>u. fst u \<noteq> p) (uses i)"
    and pop_none: "good i \<Longrightarrow> uses i = [] \<Longrightarrow> pop i = (None, i)"
    and pop_some: "good i \<Longrightarrow> uses i = u # us \<Longrightarrow> \<exists>i'. pop i = (Some u, i') \<and> good i' \<and> uses i' = us"
begin

lemma total_pop: "good i \<Longrightarrow> pop i = (Some u, i') \<Longrightarrow> total i = snd u + total i'"
  using pop_none [of i] pop_some [of i] by (cases "uses i") (fastforce simp: total_uses)+

end

subsection \<open>The index is such a list\<close>

definition size_in :: "content_index \<Rightarrow> local_path \<Rightarrow> nat" where
  "size_in idx p = (case map_of (ci_files idx) p of Some (n, _) \<Rightarrow> n | None \<Rightarrow> 0)"

definition ci_uses :: "content_index \<Rightarrow> (local_path \<times> nat) list" where
  "ci_uses idx = map (\<lambda>(_, p). (p, size_in idx p)) (ci_order idx)"

text \<open>Both maps hold the same paths and ticks, no tick is ahead of the clock, the total is right.\<close>

definition maps_agree :: "content_index \<Rightarrow> bool" where
  "maps_agree idx =
     (distinct (map fst (ci_files idx)) \<and> bmap_ok (ci_order idx) \<and>
      (\<forall>p t. (t, p) \<in> set (ci_order idx) \<longleftrightarrow> (\<exists>n. map_of (ci_files idx) p = Some (n, t))) \<and>
      (\<forall>t \<in> fst ` set (ci_order idx). t \<le> ci_clock idx))"

definition index_ok :: "content_index \<Rightarrow> bool" where
  "index_ok idx = (maps_agree idx \<and> ci_total idx = sum_list (map snd (ci_uses idx)))"

lemma uses_paths: "map fst (ci_uses idx) = map snd (ci_order idx)"
  by (simp add: ci_uses_def case_prod_beta comp_def)

lemma in_order: "maps_agree idx \<Longrightarrow> (t, p) \<in> set (ci_order idx) \<longleftrightarrow> (\<exists>n. map_of (ci_files idx) p = Some (n, t))"
  by (simp add: maps_agree_def)

lemma agree_tick: "maps_agree idx \<Longrightarrow> map_of (ci_files idx) p = Some (n, t) \<Longrightarrow> (t', q) \<in> set (ci_order idx) \<Longrightarrow> t' = t \<longleftrightarrow> q = p"
proof -
  assume a: "maps_agree idx" "map_of (ci_files idx) p = Some (n, t)" "(t', q) \<in> set (ci_order idx)"
  then have "(t, p) \<in> set (ci_order idx)" "distinct (map fst (ci_order idx))" "q = p \<Longrightarrow> t' = t"
    by (auto simp: maps_agree_def bmap_ok_def)
  then show ?thesis using a(3) by (auto dest: eq_key_imp_eq_value)
qed

lemma agree_distinct: "maps_agree idx \<Longrightarrow> distinct (map snd (ci_order idx))"
proof -
  assume a: "maps_agree idx"
  then have "distinct (ci_order idx)" by (auto simp: maps_agree_def bmap_ok_def distinct_map)
  moreover have "inj_on snd (set (ci_order idx))"
  proof (rule inj_onI)
    fix x y
    assume "x \<in> set (ci_order idx)" "y \<in> set (ci_order idx)" "snd x = snd y"
    moreover obtain t p where "x = (t, p)" by fastforce
    moreover obtain t' where "y = (t', p)" using calculation(3,4) by (metis prod.collapse snd_conv)
    ultimately show "x = y" using in_order [OF a, of t p] in_order [OF a, of t' p] by auto
  qed
  ultimately show ?thesis by (simp add: distinct_map)
qed

lemma sum_without:
  "distinct (map fst us) \<Longrightarrow> (p, n) \<in> set us \<Longrightarrow>
     sum_list (map snd us) = (n :: nat) + sum_list (map snd (filter (\<lambda>u. fst u \<noteq> p) us))"
proof (induction us)
  case (Cons u us)
  show ?case
  proof (cases "fst u = p")
    case True
    then have "(p, n) \<notin> set us" using Cons.prems(1) by (force simp: image_iff)
    then have "u = (p, n)" using Cons.prems(2) by simp
    moreover have "filter (\<lambda>v. fst v \<noteq> p) us = us" using Cons.prems True 
      by (intro filter_True ballI) (metis Cons.prems(1) True distinct.simps(2) imageI list.simps(9) list.set_map)
    ultimately show ?thesis by simp
  qed (use Cons in auto)
qed simp

lemma bm_insert_last: "(\<And>k. k \<in> fst ` set m \<Longrightarrow> k < c) \<Longrightarrow> bm_insert c v m = m @ [(c, v)]" for c :: nat
  by (induction m) fastforce+

text \<open>Dropping a path, with its tick, from both maps.\<close>

lemma drop_path:
  assumes "maps_agree idx" and "map_of (ci_files idx) p = Some (n, t)"
    and "idx' = idx\<lparr>ci_files := AList.delete p (ci_files idx), ci_order := bm_remove t (ci_order idx), ci_total := x\<rparr>"
  shows "maps_agree idx'" and "ci_uses idx' = filter (\<lambda>u. fst u \<noteq> p) (ci_uses idx)"
    and "sum_list (map snd (ci_uses idx)) = n + sum_list (map snd (ci_uses idx'))"
proof -
  show ok: "maps_agree idx'"
    using assms(1) agree_tick [OF assms(1,2)]
    by (auto simp: assms(3) maps_agree_def distinct_delete delete_conv' bm_remove_def bmap_ok_def sorted_filter distinct_map_filter)
  have "filter (\<lambda>e. fst e \<noteq> t) (ci_order idx) = filter (\<lambda>e. snd e \<noteq> p) (ci_order idx)"
    by (rule filter_cong [OF refl]) (use agree_tick [OF assms(1,2)] in force)
  moreover have "size_in idx' q = size_in idx q" if "q \<noteq> p" for q
    using that by (simp add: assms(3) size_in_def delete_conv')
  ultimately show u: "ci_uses idx' = filter (\<lambda>u. fst u \<noteq> p) (ci_uses idx)"
    by (simp add: assms(3) ci_uses_def bm_remove_def filter_map comp_def case_prod_beta)
  have "(p, n) \<in> set (ci_uses idx)"
    using in_order [OF assms(1), of t p] assms(2) by (force simp: ci_uses_def size_in_def)
  then show "sum_list (map snd (ci_uses idx)) = n + sum_list (map snd (ci_uses idx'))"
    using sum_without [of "ci_uses idx" p n] agree_distinct [OF assms(1)] by (simp add: u uses_paths)
qed

lemma remove_ok:
  assumes "index_ok idx"
  shows "index_ok (snd (ci_remove p idx)) \<and> ci_uses (snd (ci_remove p idx)) = filter (\<lambda>u. fst u \<noteq> p) (ci_uses idx) \<and>
     ci_clock (snd (ci_remove p idx)) = ci_clock idx \<and> map_of (ci_files (snd (ci_remove p idx))) p = None"
proof (cases "map_of (ci_files idx) p")
  case None
  have agree: "maps_agree idx" using assms by (simp add: index_ok_def)
  have "(t, p) \<notin> set (ci_order idx)" for t
    using None in_order [OF agree, of t p] by auto
  then have "filter (\<lambda>u. fst u \<noteq> p) (ci_uses idx) = ci_uses idx"
    by (intro filter_True) (auto simp: ci_uses_def)
  moreover have "snd (ci_remove p idx) = idx" using None by (simp add: ci_remove_def)
  ultimately show ?thesis using assms None by simp
next
  case (Some e)
  obtain n t where e: "e = (n, t)" by (cases e)
  have agree: "maps_agree idx" using assms by (simp add: index_ok_def)
  note d = drop_path [OF agree Some [unfolded e] refl, of "ci_total idx - n"]
  have run: "snd (ci_remove p idx) =
      idx\<lparr>ci_files := AList.delete p (ci_files idx), ci_order := bm_remove t (ci_order idx), ci_total := ci_total idx - n\<rparr>"
    using Some by (simp add: ci_remove_def e)
  have "ci_total idx = sum_list (map snd (ci_uses idx))" using assms by (simp add: index_ok_def)
  then show ?thesis using d unfolding run index_ok_def by (simp add: delete_conv')
qed

text \<open>A path that is in neither map comes last.\<close>

lemma add_path:
  assumes "maps_agree idx" and "map_of (ci_files idx) p = None"
    and "ci_clock idx' = ci_clock idx + 1" and "ci_order idx' = bm_insert (ci_clock idx + 1) p (ci_order idx)"
    and "map_of (ci_files idx') = (map_of (ci_files idx))(p \<mapsto> (n, ci_clock idx + 1))"
    and "distinct (map fst (ci_files idx'))"
  shows "maps_agree idx'" and "ci_uses idx' = ci_uses idx @ [(p, n)]"
proof -
  have ticks: "\<And>k. k \<in> fst ` set (ci_order idx) \<Longrightarrow> k < ci_clock idx + 1"
    using assms(1) by (auto simp: maps_agree_def)
  have order: "ci_order idx' = ci_order idx @ [(ci_clock idx + 1, p)]"
    unfolding assms(4) by (rule bm_insert_last [OF ticks])
  have new: "(t, p) \<notin> set (ci_order idx)" for t
    using assms(2) in_order [OF assms(1), of t p] by auto
  have "(t, q) \<in> set (ci_order idx') \<longleftrightarrow> (\<exists>m. map_of (ci_files idx') q = Some (m, t))" for t q
    using in_order [OF assms(1), of t q] new by (auto simp: assms(5) order)
  moreover have "bmap_ok (ci_order idx')" using assms(1) by (simp add: assms(4) maps_agree_def)
  moreover have "\<forall>t \<in> fst ` set (ci_order idx'). t \<le> ci_clock idx'" using ticks by (fastforce simp: assms(3) order)
  ultimately show "maps_agree idx'" using assms(6) by (simp add: maps_agree_def)
  have "size_in idx' q = (if q = p then n else size_in idx q)" for q
    by (simp add: assms(5) size_in_def)
  moreover have "q \<noteq> p" if "(t, q) \<in> set (ci_order idx)" for t q using that new by auto
  ultimately show "ci_uses idx' = ci_uses idx @ [(p, n)]"
    by (auto simp: ci_uses_def order)
qed

lemma insert_ok:
  assumes "index_ok idx"
  shows "index_ok (ci_insert p n idx) \<and> ci_uses (ci_insert p n idx) = filter (\<lambda>u. fst u \<noteq> p) (ci_uses idx) @ [(p, n)]"
proof -
  let ?r = "snd (ci_remove p idx)" and ?i = "ci_insert p n idx"
  note r = remove_ok [OF assms, of p]
  have agree: "maps_agree ?r" and total: "ci_total ?r = sum_list (map snd (ci_uses ?r))" using r by (simp_all add: index_ok_def)
  have "maps_agree ?i" and u: "ci_uses ?i = ci_uses ?r @ [(p, n)]"
    using add_path [OF agree, of p ?i n] r agree
    by (simp_all add: ci_insert_def Let_def update_conv' distinct_update maps_agree_def)
  moreover have "ci_total ?i = ci_total ?r + n" by (simp add: ci_insert_def Let_def)
  ultimately show ?thesis using r total by (simp add: index_ok_def)
qed

lemma touch_ok:
  assumes "index_ok idx"
  shows "index_ok (ci_touch p idx) \<and> ci_uses (ci_touch p idx) =
     (case map_of (ci_uses idx) p of Some n \<Rightarrow> filter (\<lambda>u. fst u \<noteq> p) (ci_uses idx) @ [(p, n)] | None \<Rightarrow> ci_uses idx)"
proof -
  have agree: "maps_agree idx" and total: "ci_total idx = sum_list (map snd (ci_uses idx))" using assms by (simp_all add: index_ok_def)
  have dist: "distinct (map fst (ci_uses idx))" using agree_distinct [OF agree] by (simp add: uses_paths)
  show ?thesis
  proof (cases "map_of (ci_files idx) p")
    case None
    then have "(t, p) \<notin> set (ci_order idx)" for t using in_order [OF agree, of t p] by auto
    then have "map_of (ci_uses idx) p = None" by (auto simp: map_of_eq_None_iff ci_uses_def)
    then show ?thesis using assms None by (simp add: ci_touch_def)
  next
    case (Some e)
    obtain n t where e: "map_of (ci_files idx) p = Some (n, t)" using Some by (cases e) auto
    define mid where "mid = idx\<lparr>ci_files := AList.delete p (ci_files idx), ci_order := bm_remove t (ci_order idx), ci_total := 0\<rparr>"
    note d = drop_path [OF agree e mid_def]
    have "maps_agree (ci_touch p idx)" and u: "ci_uses (ci_touch p idx) = ci_uses mid @ [(p, n)]"
      using add_path [OF d(1), of p "ci_touch p idx" n] e agree
      by (simp_all add: ci_touch_def mid_def delete_conv' update_conv' distinct_update maps_agree_def)
    moreover have "ci_total (ci_touch p idx) = ci_total idx" using e by (simp add: ci_touch_def)
    moreover have "(p, n) \<in> set (ci_uses idx)"
      using in_order [OF agree, of t p] e by (force simp: ci_uses_def size_in_def)
    then have "map_of (ci_uses idx) p = Some n" using dist by simp
    ultimately show ?thesis using d(2,3) total by (simp add: index_ok_def)
  qed
qed

lemma pop_ok:
  assumes "index_ok idx"
  shows "ci_uses idx = [] \<Longrightarrow> ci_pop_oldest idx = (None, idx)"
    and "ci_uses idx = u # us \<Longrightarrow> \<exists>idx'. ci_pop_oldest idx = (Some u, idx') \<and> index_ok idx' \<and> ci_uses idx' = us"
proof -
  show "ci_uses idx = [] \<Longrightarrow> ci_pop_oldest idx = (None, idx)" by (simp add: ci_uses_def ci_pop_oldest_def)
  assume u: "ci_uses idx = u # us"
  have agree: "maps_agree idx" and total: "ci_total idx = sum_list (map snd (ci_uses idx))" using assms by (simp_all add: index_ok_def)
  obtain t p es where order: "ci_order idx = (t, p) # es" using u by (cases "ci_order idx") (auto simp: ci_uses_def)
  then obtain n where n: "map_of (ci_files idx) p = Some (n, t)" using in_order [OF agree, of t p] by auto
  have up: "u = (p, n)" using u order n by (simp add: ci_uses_def size_in_def)
  define idx' where "idx' = idx\<lparr>ci_files := AList.delete p (ci_files idx), ci_order := bm_remove t (ci_order idx), ci_total := ci_total idx - n\<rparr>"
  note d = drop_path [OF agree n idx'_def]
  have "distinct (map fst (ci_uses idx))" using agree_distinct [OF agree] by (simp add: uses_paths)
  then have "p \<notin> fst ` set us" by (simp add: u up)
  then have "filter (\<lambda>u. fst u \<noteq> p) us = us" by (intro filter_True) force
  then have us: "ci_uses idx' = us" using d(2) by (simp add: u up)
  have "ci_total idx' = sum_list (map snd (ci_uses idx'))" using d(3) total by (simp add: idx'_def)
  then have "index_ok idx'" using d(1) by (simp add: index_ok_def)
  moreover have "ci_pop_oldest idx = (Some u, idx')" using order n by (simp add: ci_pop_oldest_def idx'_def up)
  ultimately show "\<exists>idx'. ci_pop_oldest idx = (Some u, idx') \<and> index_ok idx' \<and> ci_uses idx' = us" using us by blast
qed

interpretation content: lru index_ok ci_uses ci_total ci_insert ci_remove ci_pop_oldest
proof
  fix i :: content_index and p n u us
  show "index_ok i \<Longrightarrow> distinct (map fst (ci_uses i))"
    using agree_distinct by (simp add: uses_paths index_ok_def)
  show "index_ok i \<Longrightarrow> ci_total i = sum_list (map snd (ci_uses i))" by (simp add: index_ok_def)
qed (simp_all add: insert_ok remove_ok pop_ok)

text \<open>A removal of everything below a path.\<close>

lemma remove_prefix_ok:
  assumes "index_ok idx"
  shows "index_ok (ci_remove_prefix pre idx) \<and> ci_uses (ci_remove_prefix pre idx) = filter (\<lambda>u. \<not> prefix pre (fst u)) (ci_uses idx)"
proof -
  have loop: "index_ok (fold (\<lambda>p idx. snd (ci_remove p idx)) ps i) \<and>
      ci_uses (fold (\<lambda>p idx. snd (ci_remove p idx)) ps i) = filter (\<lambda>u. fst u \<notin> set ps) (ci_uses i)"
    if "index_ok i" for ps i
    using that
  proof (induction ps arbitrary: i)
    case (Cons p ps)
    then show ?case using remove_ok [of i p] by (auto intro!: filter_cong)
  qed simp
  have "maps_agree idx" using assms by (simp add: index_ok_def)
  note o = in_order [OF this]
  have "fst u \<in> set (map fst (ci_files idx))" if "u \<in> set (ci_uses idx)" for u
    using that o by (auto simp: ci_uses_def dest!: map_of_SomeD) (metis fst_conv imageI)
  then have "filter (\<lambda>u. fst u \<notin> set (filter (prefix pre) (map fst (ci_files idx)))) (ci_uses idx) =
      filter (\<lambda>u. \<not> prefix pre (fst u)) (ci_uses idx)"
    by (intro filter_cong) auto
  then show ?thesis using loop [OF assms] by (simp add: ci_remove_prefix_def)
qed

subsection \<open>Any sequence of calls\<close>

datatype index_op = Op_Insert local_path nat | Op_Touch local_path | Op_Remove local_path
  | Op_Remove_Prefix local_path | Op_Pop | Op_Reset

fun index_step :: "index_op \<Rightarrow> content_index \<Rightarrow> content_index" where
  "index_step (Op_Insert p n) idx = ci_insert p n idx"
| "index_step (Op_Touch p) idx = ci_touch p idx"
| "index_step (Op_Remove p) idx = snd (ci_remove p idx)"
| "index_step (Op_Remove_Prefix pre) idx = ci_remove_prefix pre idx"
| "index_step Op_Pop idx = snd (ci_pop_oldest idx)"
| "index_step Op_Reset idx = ci_reset idx"

text \<open>The specification: one list, moved to its end by every use.\<close>

fun use_step :: "index_op \<Rightarrow> (local_path \<times> nat) list \<Rightarrow> (local_path \<times> nat) list" where
  "use_step (Op_Insert p n) us = filter (\<lambda>u. fst u \<noteq> p) us @ [(p, n)]"
| "use_step (Op_Touch p) us = filter (\<lambda>u. fst u \<noteq> p) us @ filter (\<lambda>u. fst u = p) us"
| "use_step (Op_Remove p) us = filter (\<lambda>u. fst u \<noteq> p) us"
| "use_step (Op_Remove_Prefix pre) us = filter (\<lambda>u. \<not> prefix pre (fst u)) us"
| "use_step Op_Pop us = tl us"
| "use_step Op_Reset us = []"

lemma empty_index_ok: "index_ok empty_index" "ci_uses empty_index = []"
  by (simp_all add: index_ok_def maps_agree_def empty_index_def ci_uses_def)

lemma filter_key:
  "distinct (map fst us) \<Longrightarrow> filter (\<lambda>u. fst u = p) us = (case map_of us p of Some n \<Rightarrow> [(p, n)] | None \<Rightarrow> [])"
proof (induction us)
  case (Cons u us)
  show ?case
  proof (cases "fst u = p")
    case True
    then have "p \<notin> fst ` set us" using Cons.prems by simp
    then have "filter (\<lambda>v. fst v = p) us = []" by (auto simp: filter_empty_conv)
    then show ?thesis using True by (cases u) simp
  qed (use Cons in \<open>cases u; simp\<close>)
qed simp

lemma index_step_ok:
  assumes "index_ok idx"
  shows "index_ok (index_step c idx) \<and> ci_uses (index_step c idx) = use_step c (ci_uses idx)"
proof (cases c)
  case (Op_Touch p)
  have "p \<notin> fst ` set (ci_uses idx)" if "map_of (ci_uses idx) p = None" using that by (simp add: map_of_eq_None_iff)
  then have "filter (\<lambda>u. fst u \<noteq> p) (ci_uses idx) = ci_uses idx" if "map_of (ci_uses idx) p = None"
    using that by (intro filter_True) force
  then show ?thesis
    using touch_ok [OF assms, of p] filter_key [OF content.distinct_uses [OF assms], of p]
    by (auto simp: Op_Touch split: option.splits)
next
  case Op_Pop
  then show ?thesis
    using assms content.pop_none [OF assms] content.pop_some [OF assms] by (cases "ci_uses idx") auto
qed (simp_all add: assms insert_ok remove_ok remove_prefix_ok ci_reset_def empty_index_ok)

text \<open>
  C26: The index of the cached files is a list in the order of their last use, after any calls: it holds
  what that list holds, its total is the sum of the sizes, and the file it gives up next is the one
  used least recently.
\<close>

theorem index_is_lru:
  "ci_uses (fold index_step cs empty_index) = fold use_step cs [] \<and>
   ci_total (fold index_step cs empty_index) = sum_list (map snd (fold use_step cs [])) \<and>
   fst (ci_pop_oldest (fold index_step cs empty_index)) = (case fold use_step cs [] of [] \<Rightarrow> None | u # us \<Rightarrow> Some u)"
proof -
  have "index_ok (fold index_step cs i) \<and> ci_uses (fold index_step cs i) = fold use_step cs (ci_uses i)" if "index_ok i" for i
    using that by (induction cs arbitrary: i) (simp_all add: index_step_ok)
  from this [OF empty_index_ok(1)] have ok: "index_ok (fold index_step cs empty_index)"
    and uses: "ci_uses (fold index_step cs empty_index) = fold use_step cs []" by (simp_all add: empty_index_ok)
  show ?thesis
    using content.total_uses [OF ok] content.pop_none [OF ok] content.pop_some [OF ok]
    by (cases "fold use_step cs []") (auto simp: uses)
qed

end
