(* ===== verification/CacheDisk.thy ===== *)
theory CacheDisk
  imports CacheNames LruIndex CoreTypes Effects
begin

section \<open>The disk under the cache\<close>

text \<open>
  The state of \<open>ManagedDiskCache\<close> in \<open>crates/rustscp-core/src/disk_cache.rs\<close>, the system calls it
  makes, its atomic writes and its walks through the folders. The disk is a list of paths with what
  is there; every system call takes its outcome from a list, so that any of them may fail, also
  halfway. Instants and times are nanoseconds. File modes are left out.
\<close>

subsection \<open>The disk\<close>

datatype node = Dir_Node | File_Node bytes

type_synonym fs = "(local_path \<times> node) list"

datatype io_error = Io_Not_Found | Io_Other

record catalog_entry =
  ca_entries :: "file_entry list"
  ca_cached_at :: nat

record entry_metadata =
  em_entry :: file_entry
  em_cached_at :: nat

type_synonym catalog_key = "string \<times> string"

text \<open>The cache and what surrounds it: the disk, the outcomes of the calls to come, the unique names to
  come, which paths the scans can read, and the times of last access and change of the files.\<close>

record cache =
  dc_base :: local_path
  dc_max_bytes :: nat
  dc_catalog_ttl_secs :: nat
  dc_catalog :: "(catalog_key \<times> catalog_entry) list"
  dc_entry_cache :: "(catalog_key \<times> entry_metadata) list"
  dc_catalog_inserts :: nat
  dc_index :: content_index
  dc_fs :: fs
  dc_io :: "io list"
  dc_uuids :: "string list"
  dc_readable :: "local_path \<Rightarrow> bool"
  dc_accessed :: "local_path \<Rightarrow> nat"
  dc_modified :: "local_path \<Rightarrow> nat"

type_synonym 'a dc_act = "(cache, 'a) act"

definition next_io :: "io dc_act" where
  "next_io = (\<lambda>c. (case dc_io c of [] \<Rightarrow> (Io_Ok, c) | r # rs \<Rightarrow> (r, c\<lparr>dc_io := rs\<rparr>)))"

definition on_fs :: "(io \<Rightarrow> fs \<Rightarrow> 'a \<times> fs) \<Rightarrow> 'a dc_act" where
  "on_fs f = andThen next_io (\<lambda>r c. (case f r (dc_fs c) of (x, fs) \<Rightarrow> (x, c\<lparr>dc_fs := fs\<rparr>)))"

definition node_at :: "fs \<Rightarrow> local_path \<Rightarrow> node option" where
  "node_at fs p = (if p = [] then Some Dir_Node else map_of fs p)"

definition sys_exists :: "local_path \<Rightarrow> bool dc_act" where
  "sys_exists p = on_fs (\<lambda>r fs. (case r of Io_Ok \<Rightarrow> node_at fs p \<noteq> None | Io_Fails k \<Rightarrow> False, fs))"

definition sys_lstat :: "local_path \<Rightarrow> (io_error + node) dc_act" where
  "sys_lstat p = on_fs (\<lambda>r fs. (case r of
       Io_Ok \<Rightarrow> (case node_at fs p of Some n \<Rightarrow> Inr n | None \<Rightarrow> Inl Io_Not_Found)
     | Io_Fails k \<Rightarrow> Inl Io_Other, fs))"

definition sys_read :: "local_path \<Rightarrow> (io_error + bytes) dc_act" where
  "sys_read p = on_fs (\<lambda>r fs. (case r of
       Io_Ok \<Rightarrow> (case node_at fs p of Some (File_Node d) \<Rightarrow> Inr d | Some Dir_Node \<Rightarrow> Inl Io_Other | None \<Rightarrow> Inl Io_Not_Found)
     | Io_Fails k \<Rightarrow> Inl Io_Other, fs))"

definition missing_dirs :: "fs \<Rightarrow> local_path \<Rightarrow> local_path list" where
  "missing_dirs fs p = filter (\<lambda>q. node_at fs q = None) (prefixes p)"

definition all_dirs :: "fs \<Rightarrow> local_path \<Rightarrow> bool" where
  "all_dirs fs p = list_all (\<lambda>q. node_at fs q \<in> {None, Some Dir_Node}) (prefixes p)"

definition add_dirs :: "local_path list \<Rightarrow> fs \<Rightarrow> fs" where
  "add_dirs ps fs = fs @ map (\<lambda>q. (q, Dir_Node)) ps"

definition create_private_dir_all :: "local_path \<Rightarrow> (io_error + unit) dc_act" where
  "create_private_dir_all p = on_fs (\<lambda>r fs.
     if \<not> all_dirs fs p then (Inl Io_Other, fs)
     else case r of Io_Ok \<Rightarrow> (Inr (), add_dirs (missing_dirs fs p) fs)
                  | Io_Fails k \<Rightarrow> (Inl Io_Other, add_dirs (take k (missing_dirs fs p)) fs))"

definition sys_remove_file :: "local_path \<Rightarrow> (io_error + unit) dc_act" where
  "sys_remove_file p = on_fs (\<lambda>r fs.
     (case r of
        Io_Fails k \<Rightarrow> (Inl Io_Other, fs)
      | Io_Ok \<Rightarrow> (case node_at fs p of
          Some (File_Node d) \<Rightarrow> (Inr (), AList.delete p fs) | Some Dir_Node \<Rightarrow> (Inl Io_Other, fs) | None \<Rightarrow> (Inl Io_Not_Found, fs))))"

definition below :: "local_path \<Rightarrow> fs \<Rightarrow> local_path list" where
  "below p fs = filter (prefix p) (map fst fs)"

definition drop_paths :: "local_path list \<Rightarrow> fs \<Rightarrow> fs" where
  "drop_paths ps fs = filter (\<lambda>e. fst e \<notin> set ps) fs"

definition sys_remove_dir_all :: "local_path \<Rightarrow> (io_error + unit) dc_act" where
  "sys_remove_dir_all p = on_fs (\<lambda>r fs.
     (case node_at fs p of
        Some Dir_Node \<Rightarrow> (case r of
            Io_Ok \<Rightarrow> (Inr (), drop_paths (below p fs) fs)
          | Io_Fails k \<Rightarrow> (Inl Io_Other, drop_paths (take k (below p fs)) fs))
      | Some (File_Node d) \<Rightarrow> (Inl Io_Other, fs)
      | None \<Rightarrow> (Inl Io_Not_Found, fs)))"

subsection \<open>Files\<close>

definition new_uuid :: "string dc_act" where
  "new_uuid = (\<lambda>c. (case dc_uuids c of [] \<Rightarrow> ([], c) | u # us \<Rightarrow> (u, c\<lparr>dc_uuids := us\<rparr>)))"

definition create_new :: "local_path \<Rightarrow> (io_error + unit) dc_act" where
  "create_new p = on_fs (\<lambda>r fs.
     if node_at fs (butlast p) \<noteq> Some Dir_Node \<or> node_at fs p \<noteq> None \<or> r \<noteq> Io_Ok then (Inl Io_Other, fs)
     else (Inr (), AList.update p (File_Node []) fs))"

definition write_all :: "local_path \<Rightarrow> bytes \<Rightarrow> (io_error + unit) dc_act" where
  "write_all p data = on_fs (\<lambda>r fs. (case r of
       Io_Ok \<Rightarrow> (Inr (), AList.update p (File_Node data) fs)
     | Io_Fails k \<Rightarrow> (Inl Io_Other, AList.update p (File_Node (take k data)) fs)))"

definition flush_file :: "(io_error + unit) dc_act" where
  "flush_file = on_fs (\<lambda>r fs. (case r of Io_Ok \<Rightarrow> Inr () | Io_Fails k \<Rightarrow> Inl Io_Other, fs))"

definition rename_file :: "local_path \<Rightarrow> local_path \<Rightarrow> (io_error + unit) dc_act" where
  "rename_file tmp p = on_fs (\<lambda>r fs.
     (case (r, node_at fs tmp) of
        (Io_Ok, Some (File_Node d)) \<Rightarrow>
          if node_at fs p = Some Dir_Node then (Inl Io_Other, fs)
          else (Inr (), AList.update p (File_Node d) (AList.delete tmp fs))
      | _ \<Rightarrow> (Inl Io_Other, fs)))"

definition write_private_atomic :: "local_path \<Rightarrow> bytes \<Rightarrow> (io_error + unit) dc_act" where
  "write_private_atomic p data =
     andThen new_uuid (\<lambda>u.
       let tmp = butlast p @ [TEMP_PREFIX @ u] in
       andThen (try_then (create_new tmp) (\<lambda>_. try_then (write_all tmp data) (\<lambda>_.
                try_then flush_file (\<lambda>_. rename_file tmp p))))
         (\<lambda>result. case result of
            Inl e \<Rightarrow> andThen (sys_remove_file tmp) (\<lambda>_. ret (Inl e))
          | Inr _ \<Rightarrow> ret (Inr ())))"

definition remove_path :: "local_path \<Rightarrow> (io_error + unit) dc_act" where
  "remove_path p =
     andThen (sys_lstat p) (\<lambda>r. case r of
         Inr Dir_Node \<Rightarrow> sys_remove_dir_all p
       | Inr (File_Node d) \<Rightarrow> sys_remove_file p
       | Inl Io_Not_Found \<Rightarrow> ret (Inr ())
       | Inl e \<Rightarrow> ret (Inl e))"

subsection \<open>Walking the folders of the cache\<close>

text \<open>What \<open>read_dir\<close> lists of a folder.\<close>

definition children :: "fs \<Rightarrow> local_path \<Rightarrow> local_path list" where
  "children fs d = remdups (filter (\<lambda>p. p \<noteq> [] \<and> butlast p = d) (map fst fs))"

definition sub_dirs :: "(local_path \<Rightarrow> bool) \<Rightarrow> fs \<Rightarrow> local_path \<Rightarrow> local_path list" where
  "sub_dirs readable fs d = filter (\<lambda>p. readable p \<and> node_at fs p = Some Dir_Node) (children fs d)"

definition own_files :: "(local_path \<Rightarrow> bool) \<Rightarrow> fs \<Rightarrow> local_path \<Rightarrow> (local_path \<times> nat) list" where
  "own_files readable fs d =
     List.map_filter (\<lambda>p. case node_at fs p of
         Some (File_Node b) \<Rightarrow> if readable p \<and> \<not> is_internal_file_name (last p) then Some (p, length b) else None
       | _ \<Rightarrow> None) (children fs d)"

definition below_count :: "fs \<Rightarrow> local_path \<Rightarrow> nat" where
  "below_count fs d = length (filter (\<lambda>e. strict_prefix d (fst e)) fs)"

lemma filter_length_mono: "(\<And>x. P x \<Longrightarrow> Q x) \<Longrightarrow> length (filter P xs) \<le> length (filter Q xs)"
  by (induction xs) auto

lemma disjoint_counts:
  assumes "distinct cs" and "\<And>c. c \<in> set cs \<Longrightarrow> length c = n"
  shows "sum_list (map (\<lambda>c. length (filter (\<lambda>e. prefix c (fst e)) es)) cs) \<le>
         length (filter (\<lambda>e. \<exists>c \<in> set cs. prefix c (fst e)) es)"
proof (induction es)
  case (Cons e es)
  have "sum_list (map (\<lambda>c. if prefix c (fst e) then 1 else 0 :: nat) cs) \<le> (if \<exists>c \<in> set cs. prefix c (fst e) then 1 else 0)"
    using assms
  proof (induction cs)
    case (Cons c cs)
    have "\<not> prefix d (fst e)" if "prefix c (fst e)" "d \<in> set cs" for d
    proof
      assume "prefix d (fst e)"
      then have "d = c" using that Cons.prems prefix_same_cases [of c "fst e" d]
        by (metis append_eq_conv_conj prefix_def list.set_intros take_all_iff order_refl)
      then show False using that(2) Cons.prems(1) by simp
    qed
    then have "sum_list (map (\<lambda>c. if prefix c (fst e) then 1 else 0 :: nat) cs) = 0" if "prefix c (fst e)"
      using that by auto
    then show ?case using Cons by (auto split: if_splits)
  qed simp
  moreover have "length (filter (\<lambda>e. \<exists>c \<in> set cs. prefix c (fst e)) (e # es)) =
      (if \<exists>c \<in> set cs. prefix c (fst e) then 1 else 0) + length (filter (\<lambda>e. \<exists>c \<in> set cs. prefix c (fst e)) es)"
    by simp
  moreover have "sum_list (map (\<lambda>c. length (filter (\<lambda>e. prefix c (fst e)) (e # es))) cs) =
      sum_list (map (\<lambda>c. if prefix c (fst e) then 1 else 0) cs) + sum_list (map (\<lambda>c. length (filter (\<lambda>e. prefix c (fst e)) es)) cs)"
    by (induction cs) auto
  ultimately show ?case using Cons by linarith
qed simp

definition dir_rank :: "fs \<Rightarrow> local_path list \<Rightarrow> nat" where
  "dir_rank fs stack = sum_list (map (\<lambda>d. 1 + below_count fs d) stack)"

lemma dir_rank_less: "dir_rank fs (rev (sub_dirs readable fs d) @ stack) < dir_rank fs (d # stack)"
proof -
  let ?cs = "sub_dirs readable fs d"
  have child: "c \<noteq> [] \<and> butlast c = d \<and> c \<in> set (map fst fs)" if "c \<in> set ?cs" for c
    using that by (auto simp: sub_dirs_def children_def)
  have len: "length c = Suc (length d)" if "c \<in> set ?cs" for c
    using child [OF that] by (cases c rule: rev_cases) auto
  have "1 + below_count fs c \<le> length (filter (\<lambda>e. prefix c (fst e)) fs)" if "c \<in> set ?cs" for c
  proof -
    have "length (filter (\<lambda>e. prefix c (fst e)) fs) = below_count fs c + length (filter (\<lambda>e. fst e = c) fs)"
      unfolding below_count_def by (induction fs) (auto simp: strict_prefix_def)
    moreover have "filter (\<lambda>e. fst e = c) fs \<noteq> []" using child [OF that] by (auto simp: filter_empty_conv)
    ultimately show ?thesis by (cases "filter (\<lambda>e. fst e = c) fs") auto
  qed
  then have "sum_list (map (\<lambda>c. 1 + below_count fs c) ?cs) \<le> sum_list (map (\<lambda>c. length (filter (\<lambda>e. prefix c (fst e)) fs)) ?cs)"
    by (rule sum_list_mono)
  also have "\<dots> \<le> length (filter (\<lambda>e. \<exists>c \<in> set ?cs. prefix c (fst e)) fs)"
    by (rule disjoint_counts [OF _ len]) (simp add: sub_dirs_def children_def)
  also have "\<dots> \<le> below_count fs d"
  proof -
    have "strict_prefix d p" if "c \<in> set ?cs" "prefix c p" for c p
    proof -
      have "strict_prefix d c" using child [OF that(1)] by (metis append_butlast_last_id prefixI strict_prefix_def not_Cons_self2 append_self_conv)
      then show ?thesis using that(2) by (rule prefix_order.less_le_trans)
    qed
    then show ?thesis unfolding below_count_def by (intro filter_length_mono) auto
  qed
  finally show ?thesis by (simp add: dir_rank_def rev_map [symmetric])
qed

text \<open>The stack of folders to walk, the one popped next in front.\<close>

function scan_dirs ::
  "(local_path \<Rightarrow> bool) \<Rightarrow> fs \<Rightarrow> local_path list \<Rightarrow> (local_path \<times> nat) list \<Rightarrow> (local_path \<times> nat) list" where
  "scan_dirs readable fs [] found = found"
| "scan_dirs readable fs (d # stack) found =
     (if readable d then scan_dirs readable fs (rev (sub_dirs readable fs d) @ stack) (found @ own_files readable fs d)
      else scan_dirs readable fs stack found)"
  by pat_completeness auto

termination
  by (relation "measure (\<lambda>(readable, fs, stack, found). dir_rank fs stack)")
    (simp_all add: dir_rank_less, simp add: dir_rank_def)

definition scan_cached_files :: "cache \<Rightarrow> local_path \<Rightarrow> (local_path \<times> nat) list" where
  "scan_cached_files c base =
     sort_key (\<lambda>f. dc_accessed c (fst f)) (scan_dirs (dc_readable c) (dc_fs c) [base] [])"

text \<open>Size, number of files and latest change below a folder.\<close>

definition inspect_dir_size :: "cache \<Rightarrow> local_path \<Rightarrow> nat \<times> nat \<times> nat" where
  "inspect_dir_size c dir =
     (let files = scan_dirs (dc_readable c) (dc_fs c) [dir] [] in
      (sum_list (map snd files), length files, fold (\<lambda>f t. max t (dc_modified c (fst f))) files 0))"

end
