(* ===== verification/DiskCache.thy ===== *)
theory DiskCache
  imports CacheDisk
begin

section \<open>The disk cache\<close>

text \<open>
  Models the methods of \<open>ManagedDiskCache\<close> of \<open>crates/rustscp-core/src/disk_cache.rs\<close>: the catalog of
  listings in memory and the cached contents on disk. Methods run one after the other. \<open>sha\<close> is the
  digest in hexadecimal, the clock is an argument.
\<close>

subsection \<open>The catalog\<close>

definition CATALOG_PURGE_INTERVAL :: nat where "CATALOG_PURGE_INTERVAL = 256"
definition MAX_CATALOG_DIRS :: nat where "MAX_CATALOG_DIRS = 20000"
definition MAX_CATALOG_ITEMS :: nat where "MAX_CATALOG_ITEMS = 250000"
definition LARGE_FILE_DIVISOR :: nat where "LARGE_FILE_DIVISOR = 4"

definition new_cache :: "local_path \<Rightarrow> nat \<Rightarrow> fs \<Rightarrow> io list \<Rightarrow> string list \<Rightarrow> (local_path \<Rightarrow> bool)
    \<Rightarrow> (local_path \<Rightarrow> nat) \<Rightarrow> (local_path \<Rightarrow> nat) \<Rightarrow> cache" where
  "new_cache base max_bytes fs io uuids readable accessed modified =
     \<lparr>dc_base = base, dc_max_bytes = max_bytes, dc_catalog_ttl_secs = 300, dc_catalog = [], dc_entry_cache = [],
      dc_catalog_inserts = 0, dc_index = empty_index, dc_fs = fs, dc_io = io, dc_uuids = uuids, dc_readable = readable,
      dc_accessed = accessed, dc_modified = modified\<rparr>"

definition catalog_path :: "string \<Rightarrow> string" where
  "catalog_path p = (let clean = trim_end_matches (\<lambda>c. c = CHR ''/'') p in if clean = [] then ''/'' else clean)"

definition catalog_key :: "string \<Rightarrow> string \<Rightarrow> catalog_key" where
  "catalog_key session_id p = (session_id, catalog_path p)"

definition catalog_ttl :: "cache \<Rightarrow> nat" where
  "catalog_ttl c = dc_catalog_ttl_secs c * 1000000000"

definition set_catalog_ttl_secs :: "nat \<Rightarrow> cache \<Rightarrow> cache" where
  "set_catalog_ttl_secs secs c = c\<lparr>dc_catalog_ttl_secs := secs\<rparr>"

definition get_catalog :: "string \<Rightarrow> string \<Rightarrow> nat \<Rightarrow> cache \<Rightarrow> file_entry list option" where
  "get_catalog session_id p now c =
     (case map_of (dc_catalog c) (catalog_key session_id p) of
        Some e \<Rightarrow> if now - ca_cached_at e < catalog_ttl c then Some (ca_entries e) else None
      | None \<Rightarrow> None)"

definition get_entry_metadata :: "string \<Rightarrow> string \<Rightarrow> nat \<Rightarrow> cache \<Rightarrow> file_entry option" where
  "get_entry_metadata session_id p now c =
     (case map_of (dc_entry_cache c) (catalog_key session_id p) of
        Some e \<Rightarrow> if now - em_cached_at e < catalog_ttl c then Some (em_entry e) else None
      | None \<Rightarrow> None)"

text \<open>\<open>select_nth_unstable\<close> finds the element a sorted list has at that place.\<close>

definition drop_oldest_half :: "('v \<Rightarrow> nat) \<Rightarrow> ('k \<times> 'v) list \<Rightarrow> ('k \<times> 'v) list" where
  "drop_oldest_half cached_at m =
     (let times = map (\<lambda>e. cached_at (snd e)) m in
      if times = [] then m
      else let cutoff = sort times ! (length times div 2) in filter (\<lambda>e. cached_at (snd e) \<ge> cutoff) m)"

definition purge_map :: "('v \<Rightarrow> nat) \<Rightarrow> nat \<Rightarrow> nat \<Rightarrow> nat \<Rightarrow> ('k \<times> 'v) list \<Rightarrow> ('k \<times> 'v) list" where
  "purge_map cached_at cap ttl now m =
     (let fresh = filter (\<lambda>e. now - cached_at (snd e) < ttl) m in
      if length fresh > cap then drop_oldest_half cached_at fresh else fresh)"

definition purge_expired_catalogs :: "nat \<Rightarrow> cache \<Rightarrow> nat \<times> cache" where
  "purge_expired_catalogs now c =
     (let catalog = purge_map ca_cached_at MAX_CATALOG_DIRS (catalog_ttl c) now (dc_catalog c);
          entries = purge_map em_cached_at MAX_CATALOG_ITEMS (catalog_ttl c) now (dc_entry_cache c)
      in (length (dc_catalog c) - length catalog + (length (dc_entry_cache c) - length entries),
          c\<lparr>dc_catalog := catalog, dc_entry_cache := entries\<rparr>))"

definition maybe_purge_catalogs :: "nat \<Rightarrow> cache \<Rightarrow> cache" where
  "maybe_purge_catalogs now c =
     (let n = dc_catalog_inserts c + 1; c' = c\<lparr>dc_catalog_inserts := n\<rparr>;
          over_cap = (length (dc_catalog c) > MAX_CATALOG_DIRS \<or> length (dc_entry_cache c) > MAX_CATALOG_ITEMS)
      in if n mod CATALOG_PURGE_INTERVAL \<noteq> 0 \<and> \<not> over_cap then c' else snd (purge_expired_catalogs now c'))"

definition put_entry :: "string \<Rightarrow> nat \<Rightarrow> file_entry \<Rightarrow> (catalog_key \<times> entry_metadata) list \<Rightarrow> (catalog_key \<times> entry_metadata) list" where
  "put_entry session_id now e m =
     AList.update (catalog_key session_id (fe_path e)) \<lparr>em_entry = e, em_cached_at = now\<rparr> m"

definition put_catalog :: "string \<Rightarrow> string \<Rightarrow> file_entry list \<Rightarrow> nat \<Rightarrow> cache \<Rightarrow> cache" where
  "put_catalog session_id p entries now c =
     maybe_purge_catalogs now
       (c\<lparr>dc_catalog := AList.update (catalog_key session_id p) \<lparr>ca_entries = entries, ca_cached_at = now\<rparr> (dc_catalog c),
          dc_entry_cache := fold (put_entry session_id now) entries (dc_entry_cache c)\<rparr>)"

definition put_entry_metadata :: "string \<Rightarrow> file_entry \<Rightarrow> nat \<Rightarrow> cache \<Rightarrow> cache" where
  "put_entry_metadata session_id e now c =
     maybe_purge_catalogs now (c\<lparr>dc_entry_cache := put_entry session_id now e (dc_entry_cache c)\<rparr>)"

definition is_below :: "string \<Rightarrow> string \<Rightarrow> catalog_key \<Rightarrow> bool" where
  "is_below session_id clean_path k =
     (fst k = session_id \<and> (clean_path = [] \<or> starts_with (snd k) (clean_path @ ''/'')))"

text \<open>What stands before the last slash.\<close>

definition catalog_parent :: "string \<Rightarrow> string" where
  "catalog_parent clean_path =
     (if CHR ''/'' \<in> set clean_path then rev (tl (dropWhile (\<lambda>c. c \<noteq> CHR ''/'') (rev clean_path))) else ''/'')"

definition invalidate_catalog :: "string \<Rightarrow> string \<Rightarrow> cache \<Rightarrow> cache" where
  "invalidate_catalog session_id p c =
     (let clean_path = trim_end_matches (\<lambda>x. x = CHR ''/'') p;
          exact_key = catalog_key session_id clean_path;
          parent_key = catalog_key session_id (catalog_parent clean_path)
      in c\<lparr>dc_catalog := filter (\<lambda>e. \<not> is_below session_id clean_path (fst e))
                           (AList.delete parent_key (AList.delete exact_key (dc_catalog c))),
            dc_entry_cache := filter (\<lambda>e. \<not> is_below session_id clean_path (fst e))
                           (AList.delete exact_key (dc_entry_cache c))\<rparr>)"

subsection \<open>Contents\<close>

definition on_index :: "(content_index \<Rightarrow> content_index) \<Rightarrow> unit dc_act" where
  "on_index f = modify (\<lambda>c. c\<lparr>dc_index := f (dc_index c)\<rparr>)"

definition local_file :: "(bytes \<Rightarrow> string) \<Rightarrow> string \<Rightarrow> string \<Rightarrow> cache \<Rightarrow> local_path option" where
  "local_file sha session_id remote_path c = get_local_file_path sha (dc_base c) session_id remote_path"

text \<open>The modes of the folders, which \<open>restrict_dir\<close> sets, are not part of the model.\<close>

definition ensure_site_dir :: "(bytes \<Rightarrow> string) \<Rightarrow> string \<Rightarrow> (io_error + local_path) dc_act" where
  "ensure_site_dir sha session_id =
     andThen (gets dc_base) (\<lambda>base.
     andThen (sys_exists base) (\<lambda>there.
     try_then (if there then ret (Inr ()) else create_private_dir_all base) (\<lambda>_.
     let site = site_dir sha base session_id; sidecar = site @ [SESSION_ID_SIDECAR] in
     try_then (create_private_dir_all site) (\<lambda>_.
     andThen (sys_exists sidecar) (\<lambda>has.
     andThen (if has then ret (Inr ()) else write_private_atomic sidecar (as_bytes session_id)) (\<lambda>_.
     ret (Inr site)))))))"

fun clear_way :: "local_path \<Rightarrow> string list \<Rightarrow> (io_error + unit) dc_act" where
  "clear_way cur [] = ret (Inr ())"
| "clear_way cur (name # names) =
     (let cur' = cur @ [name] in
      andThen (sys_lstat cur') (\<lambda>r. case r of
          Inr (File_Node d) \<Rightarrow>
            try_then (sys_remove_file cur') (\<lambda>_. andThen (on_index (\<lambda>i. snd (ci_remove cur' i))) (\<lambda>_. clear_way cur' names))
        | _ \<Rightarrow> clear_way cur' names))"

text \<open>The cache file always has a parent; \<open>site\<close> is above it.\<close>

definition ensure_parent_dirs :: "local_path \<Rightarrow> local_path \<Rightarrow> (io_error + unit) dc_act" where
  "ensure_parent_dirs site p =
     (let parent = butlast p in
      andThen (create_private_dir_all parent) (\<lambda>r. case r of
          Inr _ \<Rightarrow> ret (Inr ())
        | Inl _ \<Rightarrow>
            let rel = (if prefix site parent then drop (length site) parent else parent) in
            try_then (clear_way site rel) (\<lambda>_. create_private_dir_all parent)))"

definition get_file_content :: "(bytes \<Rightarrow> string) \<Rightarrow> string \<Rightarrow> string \<Rightarrow> bytes option dc_act" where
  "get_file_content sha session_id remote_path =
     andThen (gets (local_file sha session_id remote_path)) (\<lambda>f. case f of
         None \<Rightarrow> ret None
       | Some p \<Rightarrow> andThen (sys_read p) (\<lambda>r. case r of
             Inr d \<Rightarrow> andThen (on_index (ci_touch p)) (\<lambda>_. ret (Some d))
           | Inl _ \<Rightarrow> ret None))"

definition ensure_index_loaded :: "unit dc_act" where
  "ensure_index_loaded = modify (\<lambda>c.
     if ci_loaded (dc_index c) then c
     else c\<lparr>dc_index := (fold (\<lambda>(p, n) i. ci_insert p n i) (scan_cached_files c (dc_base c)) (ci_reset (dc_index c)))
                         \<lparr>ci_loaded := True\<rparr>\<rparr>)"

text \<open>The loop of \<open>evict_locked\<close>: at most as many turns as there are entries. The files that could
  not be removed are put back at the end.\<close>

fun evict_loop :: "nat \<Rightarrow> nat \<Rightarrow> (local_path \<times> nat) list \<Rightarrow> (local_path \<times> nat) list dc_act" where
  "evict_loop 0 max_limit kept = ret kept"
| "evict_loop (Suc turns) max_limit kept =
     andThen (gets dc_index) (\<lambda>idx.
       if ci_total idx > max_limit
       then (case ci_pop_oldest idx of
           (None, idx') \<Rightarrow> andThen (on_index (\<lambda>_. idx')) (\<lambda>_. ret kept)
         | (Some (p, n), idx') \<Rightarrow>
             andThen (on_index (\<lambda>_. idx')) (\<lambda>_.
             andThen (sys_remove_file p) (\<lambda>r. case r of
                 Inr _ \<Rightarrow> evict_loop turns max_limit kept
               | Inl Io_Not_Found \<Rightarrow> evict_loop turns max_limit kept
               | Inl _ \<Rightarrow> evict_loop turns max_limit (kept @ [(p, n)]))))
       else ret kept)"

definition evict_locked :: "nat \<Rightarrow> unit dc_act" where
  "evict_locked max_limit =
     andThen (gets (\<lambda>c. length (ci_order (dc_index c)) + 1)) (\<lambda>turns.
     andThen (evict_loop turns max_limit []) (\<lambda>kept.
     on_index (fold (\<lambda>(p, n) i. ci_insert p n i) kept)))"

definition enforce_lru :: "unit dc_act" where
  "enforce_lru =
     andThen (gets dc_max_bytes) (\<lambda>max_limit. andThen ensure_index_loaded (\<lambda>_. evict_locked max_limit))"

definition set_max_size :: "nat \<Rightarrow> unit dc_act" where
  "set_max_size bytes = andThen (modify (\<lambda>c. c\<lparr>dc_max_bytes := bytes\<rparr>)) (\<lambda>_. enforce_lru)"

text \<open>\<open>shown\<close> is the text of an error of the operating system.\<close>

definition write_error :: "(io_error \<Rightarrow> string) \<Rightarrow> io_error \<Rightarrow> core_error" where
  "write_error shown e = General (''Failed to write to local cache: '' @ shown e)"

definition io_then :: "(io_error \<Rightarrow> core_error) \<Rightarrow> (io_error + 'a) dc_act \<Rightarrow> ('a \<Rightarrow> 'b core_result dc_act) \<Rightarrow> 'b core_result dc_act" where
  "io_then err m f = andThen m (\<lambda>r. case r of Inl e \<Rightarrow> ret (Inl (err e)) | Inr x \<Rightarrow> f x)"

definition drop_stale_folder :: "local_path \<Rightarrow> unit dc_act" where
  "drop_stale_folder p =
     andThen (sys_lstat p) (\<lambda>r. case r of
         Inr Dir_Node \<Rightarrow> andThen (sys_remove_dir_all p) (\<lambda>_. on_index (ci_remove_prefix p))
       | _ \<Rightarrow> ret ())"

definition put_small :: "(bytes \<Rightarrow> string) \<Rightarrow> (io_error \<Rightarrow> string) \<Rightarrow> string \<Rightarrow> local_path \<Rightarrow> nat \<Rightarrow> bytes \<Rightarrow> unit core_result dc_act" where
  "put_small sha shown session_id p max_limit data =
     io_then (write_error shown) (ensure_site_dir sha session_id) (\<lambda>site.
     io_then (write_error shown) (ensure_parent_dirs site p) (\<lambda>_.
     andThen (drop_stale_folder p) (\<lambda>_.
     io_then (write_error shown) (write_private_atomic p data) (\<lambda>_.
     andThen ensure_index_loaded (\<lambda>_.
     andThen (on_index (ci_insert p (length data))) (\<lambda>_.
     andThen (evict_locked max_limit) (\<lambda>_. ret (Inr ()))))))))"

definition put_file_content ::
  "(bytes \<Rightarrow> string) \<Rightarrow> (io_error \<Rightarrow> string) \<Rightarrow> string \<Rightarrow> string \<Rightarrow> bytes \<Rightarrow> unit core_result dc_act" where
  "put_file_content sha shown session_id remote_path data =
     andThen (gets (local_file sha session_id remote_path)) (\<lambda>f. case f of
         None \<Rightarrow> ret (Inl (InvalidPath (''cannot cache content for '' @ quote remote_path)))
       | Some p \<Rightarrow>
           andThen (gets dc_max_bytes) (\<lambda>max_limit.
             if length data > max_limit div LARGE_FILE_DIVISOR
             then andThen (remove_path p) (\<lambda>_. andThen (on_index (ci_remove_prefix p)) (\<lambda>_. ret (Inr ())))
             else put_small sha shown session_id p max_limit data))"

definition invalidate_content :: "(bytes \<Rightarrow> string) \<Rightarrow> string \<Rightarrow> string \<Rightarrow> unit dc_act" where
  "invalidate_content sha session_id remote_path =
     andThen (gets (\<lambda>c. case local_file sha session_id remote_path c of Some p \<Rightarrow> p | None \<Rightarrow> site_dir sha (dc_base c) session_id))
       (\<lambda>target. andThen (remove_path target) (\<lambda>_. on_index (ci_remove_prefix target)))"

subsection \<open>Management\<close>

fun clear_dirs :: "local_path list \<Rightarrow> unit dc_act" where
  "clear_dirs [] = ret ()"
| "clear_dirs (d # ds) =
     andThen (sys_exists d) (\<lambda>there.
     andThen (if there then andThen (sys_remove_dir_all d) (\<lambda>_. ret ()) else ret ()) (\<lambda>_.
     andThen (on_index (ci_remove_prefix d)) (\<lambda>_. clear_dirs ds)))"

definition clear_session :: "(bytes \<Rightarrow> string) \<Rightarrow> string \<Rightarrow> unit core_result dc_act" where
  "clear_session sha session_id =
     andThen (gets dc_base) (\<lambda>base.
     andThen (clear_dirs (site_dir sha base session_id # (if is_safe_legacy_dir_name session_id then [base @ [session_id]] else []))) (\<lambda>_.
     andThen (modify (\<lambda>c. c\<lparr>dc_catalog := filter (\<lambda>e. fst (fst e) \<noteq> session_id) (dc_catalog c),
                             dc_entry_cache := filter (\<lambda>e. fst (fst e) \<noteq> session_id) (dc_entry_cache c)\<rparr>)) (\<lambda>_.
     ret (Inr ()))))"

definition clear_all :: "unit core_result dc_act" where
  "clear_all =
     andThen (gets dc_base) (\<lambda>base.
     andThen (sys_exists base) (\<lambda>there.
     andThen (if there then andThen (sys_remove_dir_all base) (\<lambda>_. andThen (create_private_dir_all base) (\<lambda>_. ret ())) else ret ()) (\<lambda>_.
     andThen (modify (\<lambda>c. c\<lparr>dc_index := ci_reset (dc_index c), dc_catalog := [], dc_entry_cache := []\<rparr>)) (\<lambda>_.
     ret (Inr ())))))"

fun prune_dirs :: "nat \<Rightarrow> local_path list \<Rightarrow> nat \<Rightarrow> nat dc_act" where
  "prune_dirs cutoff [] pruned = ret pruned"
| "prune_dirs cutoff (d # ds) pruned =
     andThen (gets (\<lambda>c. case inspect_dir_size c d of (_, _, last_t) \<Rightarrow> last_t)) (\<lambda>last_t.
       if last_t < cutoff
       then andThen (sys_remove_dir_all d) (\<lambda>_. andThen (on_index (ci_remove_prefix d)) (\<lambda>_. prune_dirs cutoff ds (pruned + 1)))
       else prune_dirs cutoff ds pruned)"

text \<open>\<open>cutoff\<close> is the time \<open>max_days\<close> ago.\<close>

definition prune_stale :: "nat \<Rightarrow> nat core_result dc_act" where
  "prune_stale cutoff =
     andThen (gets (\<lambda>c. if dc_readable c (dc_base c) then sub_dirs (dc_readable c) (dc_fs c) (dc_base c) else [])) (\<lambda>dirs.
     andThen (prune_dirs cutoff dirs 0) (\<lambda>n. ret (Inr n)))"

subsection \<open>Statistics\<close>

record site_cache_stats =
  ss_session_id :: string
  ss_session_name :: string
  ss_total_bytes :: nat
  ss_file_count :: nat
  ss_last_accessed :: string

record cache_stats =
  st_total_bytes :: nat
  st_max_bytes :: nat
  st_file_count :: nat
  st_catalog_folders_count :: nat
  st_catalog_items_count :: nat
  st_sites :: "site_cache_stats list"

definition session_of_dir :: "cache \<Rightarrow> local_path \<Rightarrow> string" where
  "session_of_dir c d =
     (case node_at (dc_fs c) (d @ [SESSION_ID_SIDECAR]) of
        Some (File_Node b) \<Rightarrow> (case from_utf8 b of
            Some s \<Rightarrow> if dc_readable c (d @ [SESSION_ID_SIDECAR]) \<and> s \<noteq> [] then s else last d
          | None \<Rightarrow> last d)
      | _ \<Rightarrow> last d)"

definition count_dir :: "cache \<Rightarrow> local_path \<Rightarrow> (string \<times> nat \<times> nat \<times> nat) list \<Rightarrow> (string \<times> nat \<times> nat \<times> nat) list" where
  "count_dir c d m =
     (let sid = session_of_dir c d; (bytes, count, t) = inspect_dir_size c d;
          (b0, n0, t0) = (case map_of m sid of Some slot \<Rightarrow> slot | None \<Rightarrow> (0, 0, 0))
      in AList.update sid (b0 + bytes, n0 + count, max t0 t) m)"

text \<open>The map of the sites is gone through in the order in which they were found. \<open>rfc3339\<close> writes a time.\<close>

definition get_stats :: "(nat \<Rightarrow> string) \<Rightarrow> (string \<times> string) list \<Rightarrow> cache \<Rightarrow> cache_stats" where
  "get_stats rfc3339 session_names c =
     (let dirs = (if dc_readable c (dc_base c) then sub_dirs (dc_readable c) (dc_fs c) (dc_base c) else []);
          sizes = map (inspect_dir_size c) dirs;
          m = fold (count_dir c) dirs [];
          sites = map (\<lambda>(sid, bytes, count, t).
            \<lparr>ss_session_id = sid, ss_session_name = (case map_of session_names sid of Some n \<Rightarrow> n | None \<Rightarrow> sid),
             ss_total_bytes = bytes, ss_file_count = count, ss_last_accessed = rfc3339 t\<rparr>) m
      in \<lparr>st_total_bytes = sum_list (map fst sizes), st_max_bytes = dc_max_bytes c,
          st_file_count = sum_list (map (\<lambda>s. fst (snd s)) sizes), st_catalog_folders_count = length (dc_catalog c),
          st_catalog_items_count = length (dc_entry_cache c),
          st_sites = rev (sort_key ss_total_bytes (rev sites))\<rparr>)"

end
