(* ===== verification/DiskCacheFacts.thy ===== *)
theory DiskCacheFacts
  imports DiskCache Machine
begin

section \<open>What the disk cache promises\<close>

text \<open>
  Every call keeps the index right and touches the catalogs as the maps of \<open>listing_step\<close> and
  \<open>entry_step\<close> say (two instances of the refining machines of \<open>Machine\<close>); contents that were put
  can be read back, and the quota holds as long as files can be removed.
\<close>


subsection \<open>The index stays right, the catalogs stay as they are\<close>

definition around :: "local_path \<times> (catalog_key \<times> catalog_entry) list \<Rightarrow> (catalog_key \<times> entry_metadata) list \<Rightarrow> cache \<Rightarrow> bool" where
  "around k e c = (index_ok (dc_index c) \<and> (dc_base c, dc_catalog c) = k \<and> dc_entry_cache c = e)"

lemma next_io_eq: "next_io c = (r, c') \<Longrightarrow> \<exists>rs. c' = c\<lparr>dc_io := rs\<rparr>"
  by (cases c) (auto simp: next_io_def split: list.splits)

lemma on_fs_eq:
  assumes "on_fs f c = (x, c')"
  obtains r rs fs where "f r (dc_fs c) = (x, fs)" "c' = c\<lparr>dc_io := rs, dc_fs := fs\<rparr>"
proof -
  obtain r c1 where n: "next_io c = (r, c1)" by fastforce
  then obtain rs where "c1 = c\<lparr>dc_io := rs\<rparr>" using next_io_eq by blast
  then show thesis using assms n that by (auto simp: on_fs_def andThen_def split: prod.splits)
qed

lemma around_fs [hoare_rules]: "keeps (around k e) (on_fs f)"
proof (rule keepsI)
  fix c x c'
  assume "around k e c" "on_fs f c = (x, c')"
  then show "around k e c'" by (elim on_fs_eq) (simp add: around_def)
qed

lemma around_index [hoare_rules]: "(\<And>i. index_ok i \<Longrightarrow> index_ok (f i)) \<Longrightarrow> keeps (around k e) (on_index f)"
  by (rule keepsI) (auto simp: around_def on_index_def modify_def)

lemma around_uuid [hoare_rules]: "keeps (around k e) new_uuid"
  by (rule keepsI) (auto simp: around_def new_uuid_def split: list.splits)

lemmas sys_defs = sys_exists_def sys_lstat_def sys_read_def create_private_dir_all_def sys_remove_file_def
  sys_remove_dir_all_def create_new_def write_all_def flush_file_def rename_file_def

lemma around_sys [hoare_rules]:
  "keeps (around k e) (sys_exists p)" "keeps (around k e) (sys_lstat p)" "keeps (around k e) (sys_read p)"
  "keeps (around k e) (create_private_dir_all p)" "keeps (around k e) (sys_remove_file p)"
  "keeps (around k e) (sys_remove_dir_all p)" "keeps (around k e) (create_new p)" "keeps (around k e) (write_all p d)"
  "keeps (around k e) flush_file" "keeps (around k e) (rename_file p q)"
  unfolding sys_defs by (rule around_fs)+

lemma keeps_case_node [hoare_rules]:
  "(n = Dir_Node \<Longrightarrow> keeps I m) \<Longrightarrow> (\<And>d. n = File_Node d \<Longrightarrow> keeps I (f d)) \<Longrightarrow>
   keeps I (case n of Dir_Node \<Rightarrow> m | File_Node d \<Rightarrow> f d)"
  by (cases n) auto

lemma keeps_case_io_error [hoare_rules]:
  "(e = Io_Not_Found \<Longrightarrow> keeps I m) \<Longrightarrow> (e = Io_Other \<Longrightarrow> keeps I n) \<Longrightarrow>
   keeps I (case e of Io_Not_Found \<Rightarrow> m | Io_Other \<Rightarrow> n)"
  by (cases e) auto

lemma around_write [hoare_rules]: "keeps (around k e) (write_private_atomic p d)"
  unfolding write_private_atomic_def Let_def by (intro hoare_rules)

lemma around_remove_path [hoare_rules]: "keeps (around k e) (remove_path p)"
  unfolding remove_path_def by (intro hoare_rules)

lemma inserts_ok: "index_ok i \<Longrightarrow> index_ok (fold (\<lambda>(p, n) i. ci_insert p n i) fs i)"
  by (induction fs arbitrary: i) (auto simp: insert_ok)

lemma loaded_ok: "index_ok i \<Longrightarrow> index_ok (i\<lparr>ci_loaded := b\<rparr>)"
  by (simp add: index_ok_def maps_agree_def ci_uses_def size_in_def)

lemma around_loaded [hoare_rules]: "keeps (around k e) ensure_index_loaded"
  by (rule keepsI) (auto simp: around_def ensure_index_loaded_def modify_def ci_reset_def empty_index_ok
      intro!: loaded_ok inserts_ok)

lemma around_evict_loop [hoare_rules]: "keeps (around k e) (evict_loop turns m kept)"
proof (induction turns arbitrary: kept)
  case (Suc turns)
  have pop: "index_ok idx'" if "index_ok idx" "ci_pop_oldest idx = (r, idx')" for idx r idx'
    using that pop_ok [OF that(1)] by (cases "ci_uses idx") auto
  show ?case
  proof (rule keepsI)
    fix c x c'
    assume c: "around k e c" and run: "evict_loop (Suc turns) m kept c = (x, c')"
    obtain r idx' where p: "ci_pop_oldest (dc_index c) = (r, idx')" by fastforce
    have "index_ok idx'" using pop [OF _ p] c by (simp add: around_def)
    then have step: "keeps (around k e) (on_index (\<lambda>_. idx'))" by (intro around_index)
    have "keeps (around k e) (case r of
         None \<Rightarrow> andThen (on_index (\<lambda>_. idx')) (\<lambda>_. ret kept)
       | Some (p, n) \<Rightarrow> andThen (on_index (\<lambda>_. idx')) (\<lambda>_. andThen (sys_remove_file p) (\<lambda>r. case r of
             Inl Io_Not_Found \<Rightarrow> evict_loop turns m kept
           | Inl Io_Other \<Rightarrow> evict_loop turns m (kept @ [(p, n)])
           | Inr _ \<Rightarrow> evict_loop turns m kept)))"
      by (intro hoare_rules step Suc)
    then show "around k e c'"
      using run c p by (cases "ci_total (dc_index c) > m") (auto simp: andThen_def gets_def ret_def dest: keepsD)
  qed
qed (simp add: hoare_rules)

lemma around_evict [hoare_rules]: "keeps (around k e) (evict_locked m)"
  unfolding evict_locked_def by (intro hoare_rules) (simp add: inserts_ok)

lemma index_removals: "index_ok i \<Longrightarrow> index_ok (snd (ci_remove p i))" "index_ok i \<Longrightarrow> index_ok (ci_remove_prefix p i)"
  "index_ok i \<Longrightarrow> index_ok (ci_insert p n i)" "index_ok i \<Longrightarrow> index_ok (ci_touch p i)"
  using remove_ok remove_prefix_ok insert_ok touch_ok by blast+

lemma around_clear_way [hoare_rules]: "keeps (around k e) (clear_way cur names)"
  by (induction names arbitrary: cur) (auto simp: Let_def intro!: hoare_rules index_removals)

lemma around_dirs [hoare_rules]: "keeps (around k e) (ensure_site_dir sha sid)" "keeps (around k e) (ensure_parent_dirs site p)"
  unfolding ensure_site_dir_def ensure_parent_dirs_def Let_def by (intro hoare_rules)+

lemma around_clear_dirs [hoare_rules]: "keeps (around k e) (clear_dirs ds)"
  by (induction ds) (auto intro!: hoare_rules index_removals)

lemma around_prune [hoare_rules]: "keeps (around k e) (prune_dirs cutoff ds n)"
  by (induction ds arbitrary: n) (auto intro!: hoare_rules index_removals)

lemma around_content:
  "keeps (around k e) (get_file_content sha sid p)" "keeps (around k e) (put_file_content sha shown sid p d)"
  "keeps (around k e) (invalidate_content sha sid p)" "keeps (around k e) enforce_lru" "keeps (around k e) (set_max_size n)"
  "keeps (around k e) (prune_stale cutoff)"
proof -
  have limit: "keeps (around k e) (modify (\<lambda>c. c\<lparr>dc_max_bytes := n\<rparr>))"
    by (rule keepsI) (auto simp: around_def modify_def)
  show "keeps (around k e) (get_file_content sha sid p)" unfolding get_file_content_def
    by (intro hoare_rules index_removals)
  show "keeps (around k e) (put_file_content sha shown sid p d)"
    unfolding put_file_content_def put_small_def drop_stale_folder_def io_then_def
    by (intro hoare_rules index_removals)
  show "keeps (around k e) (invalidate_content sha sid p)" unfolding invalidate_content_def
    by (intro hoare_rules index_removals)
  show lru: "keeps (around k e) enforce_lru" unfolding enforce_lru_def by (intro hoare_rules)
  show "keeps (around k e) (set_max_size n)" unfolding set_max_size_def by (intro hoare_rules limit lru)
  show "keeps (around k e) (prune_stale cutoff)" unfolding prune_stale_def by (intro hoare_rules)
qed

subsection \<open>Calls\<close>

text \<open>The calls that change the cache, with the clock where they read it.\<close>

datatype cache_op = Call_Put_Catalog string string "file_entry list" nat | Call_Put_Entry string file_entry nat
  | Call_Purge nat | Call_Set_Ttl nat | Call_Invalidate_Catalog string string
  | Call_Get string string | Call_Put string string bytes | Call_Invalidate_Content string string
  | Call_Enforce | Call_Set_Max nat | Call_Clear_Session string | Call_Clear_All | Call_Prune nat

fun cache_step :: "(bytes \<Rightarrow> string) \<Rightarrow> (io_error \<Rightarrow> string) \<Rightarrow> cache_op \<Rightarrow> cache \<Rightarrow> cache" where
  "cache_step sha shown (Call_Put_Catalog sid p es now) c = put_catalog sid p es now c"
| "cache_step sha shown (Call_Put_Entry sid e now) c = put_entry_metadata sid e now c"
| "cache_step sha shown (Call_Purge now) c = snd (purge_expired_catalogs now c)"
| "cache_step sha shown (Call_Set_Ttl secs) c = set_catalog_ttl_secs secs c"
| "cache_step sha shown (Call_Invalidate_Catalog sid p) c = invalidate_catalog sid p c"
| "cache_step sha shown (Call_Get sid p) c = snd (get_file_content sha sid p c)"
| "cache_step sha shown (Call_Put sid p d) c = snd (put_file_content sha shown sid p d c)"
| "cache_step sha shown (Call_Invalidate_Content sid p) c = snd (invalidate_content sha sid p c)"
| "cache_step sha shown Call_Enforce c = snd (enforce_lru c)"
| "cache_step sha shown (Call_Set_Max n) c = snd (set_max_size n c)"
| "cache_step sha shown (Call_Clear_Session sid) c = snd (clear_session sha sid c)"
| "cache_step sha shown Call_Clear_All c = snd (clear_all c)"
| "cache_step sha shown (Call_Prune cutoff) c = snd (prune_stale cutoff c)"

definition cache_ok :: "cache \<Rightarrow> bool" where
  "cache_ok c = (index_ok (dc_index c) \<and> distinct (map fst (dc_catalog c)) \<and> distinct (map fst (dc_entry_cache c)))"

definition listed :: "cache \<Rightarrow> catalog_key \<Rightarrow> file_entry list option" where
  "listed c k = map_option ca_entries (map_of (dc_catalog c) k)"

definition described :: "cache \<Rightarrow> catalog_key \<Rightarrow> file_entry option" where
  "described c k = map_option em_entry (map_of (dc_entry_cache c) k)"

text \<open>What an invalidation is for: the path, what is below it, and (for listings) its parent.\<close>

definition invalidated :: "string \<Rightarrow> string \<Rightarrow> catalog_key \<Rightarrow> bool" where
  "invalidated session_id p k =
     (fst k = session_id \<and>
      (let clean = trim_end_matches (\<lambda>x. x = CHR ''/'') p in
       snd k = catalog_path p \<or> clean = [] \<or> prefix (clean @ ''/'') (snd k)))"

definition parent_of :: "string \<Rightarrow> string \<Rightarrow> catalog_key \<Rightarrow> bool" where
  "parent_of session_id p k = (k = catalog_key session_id (catalog_parent (trim_end_matches (\<lambda>x. x = CHR ''/'') p)))"

text \<open>The specification: maps that know everything that was put and not invalidated since.\<close>

fun listing_step :: "cache_op \<Rightarrow> (catalog_key \<rightharpoonup> file_entry list) \<Rightarrow> (catalog_key \<rightharpoonup> file_entry list)" where
  "listing_step (Call_Put_Catalog sid p es now) m = m(catalog_key sid p \<mapsto> es)"
| "listing_step (Call_Invalidate_Catalog sid p) m = (\<lambda>k. if invalidated sid p k \<or> parent_of sid p k then None else m k)"
| "listing_step (Call_Clear_Session sid) m = (\<lambda>k. if fst k = sid then None else m k)"
| "listing_step Call_Clear_All m = Map.empty"
| "listing_step _ m = m"

fun entry_step :: "cache_op \<Rightarrow> (catalog_key \<rightharpoonup> file_entry) \<Rightarrow> (catalog_key \<rightharpoonup> file_entry)" where
  "entry_step (Call_Put_Catalog sid p es now) m = fold (\<lambda>e m. m(catalog_key sid (fe_path e) \<mapsto> e)) es m"
| "entry_step (Call_Put_Entry sid e now) m = m(catalog_key sid (fe_path e) \<mapsto> e)"
| "entry_step (Call_Invalidate_Catalog sid p) m = (\<lambda>k. if invalidated sid p k then None else m k)"
| "entry_step (Call_Clear_Session sid) m = (\<lambda>k. if fst k = sid then None else m k)"
| "entry_step Call_Clear_All m = Map.empty"
| "entry_step _ m = m"

lemma around_step:
  assumes "\<And>k e. keeps (around k e) m" and "cache_ok c"
  shows "cache_ok (snd (m c)) \<and> listed (snd (m c)) = listed c \<and> described (snd (m c)) = described c"
proof -
  have "around (dc_base c, dc_catalog c) (dc_entry_cache c) c" using assms(2) by (simp add: around_def cache_ok_def)
  then have "around (dc_base c, dc_catalog c) (dc_entry_cache c) (snd (m c))" using keepsD [OF assms(1)] by (metis prod.collapse)
  then show ?thesis using assms(2) by (simp add: around_def cache_ok_def listed_def [abs_def] described_def [abs_def])
qed

lemma purge_filter: "\<exists>P. purge_map cached_at cap ttl now m = filter P m"
proof -
  have "\<exists>P. drop_oldest_half cached_at xs = filter P xs" for xs :: "('a \<times> 'b) list"
    by (cases "xs = []") (auto simp: drop_oldest_half_def Let_def)
  then obtain P where "drop_oldest_half cached_at (filter (\<lambda>e. now - cached_at (snd e) < ttl) m) =
      filter P (filter (\<lambda>e. now - cached_at (snd e) < ttl) m)" by blast
  then show ?thesis by (auto simp: purge_map_def Let_def)
qed

lemma filter_sub:
  "distinct (map fst m) \<Longrightarrow> distinct (map fst (filter P m)) \<and> map_of (filter P m) \<subseteq>\<^sub>m map_of m"
  by (auto simp: map_le_def distinct_map_filter dom_map_of_conv_image_fst)

lemma map_option_le: "m \<subseteq>\<^sub>m n \<Longrightarrow> (\<lambda>k. map_option f (m k)) \<subseteq>\<^sub>m (\<lambda>k. map_option f (n k))"
  by (auto simp: map_le_def dom_def)

lemma purge_sub:
  "distinct (map fst m) \<Longrightarrow> distinct (map fst (purge_map cached_at cap ttl now m)) \<and>
     map_of (purge_map cached_at cap ttl now m) \<subseteq>\<^sub>m map_of m"
  using purge_filter [of cached_at cap ttl now m] filter_sub by metis

lemma purge_ok:
  assumes "cache_ok c"
  shows "cache_ok (snd (purge_expired_catalogs now c)) \<and> listed (snd (purge_expired_catalogs now c)) \<subseteq>\<^sub>m listed c \<and>
     described (snd (purge_expired_catalogs now c)) \<subseteq>\<^sub>m described c"
proof -
  have d: "distinct (map fst (dc_catalog c))" "distinct (map fst (dc_entry_cache c))" using assms by (simp_all add: cache_ok_def)
  note p = purge_sub [OF d(1), of ca_cached_at MAX_CATALOG_DIRS "catalog_ttl c" now]
    purge_sub [OF d(2), of em_cached_at MAX_CATALOG_ITEMS "catalog_ttl c" now]
  then show ?thesis
    using assms by (simp add: purge_expired_catalogs_def Let_def cache_ok_def listed_def [abs_def] described_def [abs_def] map_option_le)
qed

lemma maybe_purge_ok:
  assumes "cache_ok c"
  shows "cache_ok (maybe_purge_catalogs now c) \<and> listed (maybe_purge_catalogs now c) \<subseteq>\<^sub>m listed c \<and>
     described (maybe_purge_catalogs now c) \<subseteq>\<^sub>m described c"
proof -
  have "cache_ok (c\<lparr>dc_catalog_inserts := n\<rparr>) \<and> listed (c\<lparr>dc_catalog_inserts := n\<rparr>) = listed c \<and>
      described (c\<lparr>dc_catalog_inserts := n\<rparr>) = described c" for n
    using assms by (simp add: cache_ok_def listed_def [abs_def] described_def [abs_def])
  then show ?thesis
    using purge_ok [of "c\<lparr>dc_catalog_inserts := dc_catalog_inserts c + 1\<rparr>" now] by (simp add: maybe_purge_catalogs_def Let_def)
qed

lemma put_entries:
  "map_of (fold (put_entry sid now) es m) = fold (\<lambda>e m. m(catalog_key sid (fe_path e) \<mapsto> \<lparr>em_entry = e, em_cached_at = now\<rparr>)) es (map_of m) \<and>
   (distinct (map fst m) \<longrightarrow> distinct (map fst (fold (put_entry sid now) es m)))"
proof (induction es arbitrary: m)
  case (Cons e es)
  then show ?case by (simp add: put_entry_def update_conv' distinct_update)
qed simp

lemma map_option_upds:
  "(\<lambda>k. map_option em_entry (fold (\<lambda>e m. m(f e \<mapsto> \<lparr>em_entry = e, em_cached_at = now\<rparr>)) es m k)) =
   fold (\<lambda>e m. m(f e \<mapsto> e)) es (\<lambda>k. map_option em_entry (m k))"
proof (induction es arbitrary: m)
  case (Cons e es)
  have "(\<lambda>k. map_option em_entry ((m(f e \<mapsto> \<lparr>em_entry = e, em_cached_at = now\<rparr>)) k)) = (\<lambda>k. map_option em_entry (m k))(f e \<mapsto> e)"
    by auto
  then show ?case by (simp only: fold_simps Cons)
qed simp

lemma upds_le: "m \<subseteq>\<^sub>m n \<Longrightarrow> fold (\<lambda>e m. m(f e \<mapsto> e)) es m \<subseteq>\<^sub>m fold (\<lambda>e m. m(f e \<mapsto> e)) es n"
  by (induction es arbitrary: m n) (simp_all add: map_le_upd)

lemma catalog_path_trim: "catalog_path (trim_end_matches (\<lambda>x. x = CHR ''/'') p) = catalog_path p"
  by (simp add: catalog_path_def)

lemma map_of_filter_fst: "map_of (filter (\<lambda>e. P (fst e)) m) = (\<lambda>k. if P k then map_of m k else None)"
  by (induction m) (auto simp: fun_eq_iff)

lemma catalog_key_eq: "k = catalog_key sid p \<longleftrightarrow> fst k = sid \<and> snd k = catalog_path p"
  by (cases k) (auto simp: catalog_key_def)

lemma invalidate_maps:
  "listed (invalidate_catalog sid p c) = (\<lambda>k. if invalidated sid p k \<or> parent_of sid p k then None else listed c k)"
  "described (invalidate_catalog sid p c) = (\<lambda>k. if invalidated sid p k then None else described c k)"
proof -
  note filtered = map_of_filter_fst [of "\<lambda>k. \<not> is_below sid (trim_end_matches (\<lambda>x. x = CHR ''/'') p) k"]
  show "listed (invalidate_catalog sid p c) = (\<lambda>k. if invalidated sid p k \<or> parent_of sid p k then None else listed c k)"
    by (rule ext) (simp add: invalidate_catalog_def Let_def listed_def filtered delete_conv',
      auto simp: invalidated_def Let_def parent_of_def is_below_def starts_with_prefix catalog_key_def catalog_path_trim)
  show "described (invalidate_catalog sid p c) = (\<lambda>k. if invalidated sid p k then None else described c k)"
    by (rule ext) (simp add: invalidate_catalog_def Let_def described_def filtered delete_conv',
      auto simp: invalidated_def Let_def is_below_def starts_with_prefix catalog_key_def catalog_path_trim)
qed

lemma invalidate_ok: "cache_ok c \<Longrightarrow> cache_ok (invalidate_catalog sid p c)"
  by (simp add: cache_ok_def invalidate_catalog_def Let_def distinct_map_filter distinct_delete)

lemma clear_session_eq:
  assumes "cache_ok c"
  shows "cache_ok (snd (clear_session sha sid c)) \<and>
    listed (snd (clear_session sha sid c)) = (\<lambda>k. if fst k = sid then None else listed c k) \<and>
    described (snd (clear_session sha sid c)) = (\<lambda>k. if fst k = sid then None else described c k)"
proof -
  define dirs where "dirs = site_dir sha (dc_base c) sid # (if is_safe_legacy_dir_name sid then [dc_base c @ [sid]] else [])"
  obtain c1 where c1: "clear_dirs dirs c = ((), c1)" by (cases "clear_dirs dirs c") auto
  then have "cache_ok c1 \<and> listed c1 = listed c \<and> described c1 = described c"
    using around_step [OF around_clear_dirs assms, of dirs] by simp
  moreover have "snd (clear_session sha sid c) = c1\<lparr>dc_catalog := filter (\<lambda>e. fst (fst e) \<noteq> sid) (dc_catalog c1),
                             dc_entry_cache := filter (\<lambda>e. fst (fst e) \<noteq> sid) (dc_entry_cache c1)\<rparr>"
    using c1 by (simp add: clear_session_def andThen_def gets_def modify_def ret_def dirs_def)
  ultimately show ?thesis
    by (auto simp: cache_ok_def listed_def described_def fun_eq_iff map_of_filter_fst [of "\<lambda>k. fst k \<noteq> sid"] distinct_map_filter)
qed

lemma clear_all_eq:
  assumes "cache_ok c"
  shows "cache_ok (snd (clear_all c)) \<and> listed (snd (clear_all c)) = Map.empty \<and> described (snd (clear_all c)) = Map.empty"
  by (simp add: clear_all_def andThen_def gets_def modify_def ret_def cache_ok_def listed_def described_def fun_eq_iff
      ci_reset_def empty_index_ok split: prod.split)

lemma put_catalog_ok:
  assumes "cache_ok c"
  shows "cache_ok (put_catalog sid p es now c) \<and> listed (put_catalog sid p es now c) \<subseteq>\<^sub>m (listed c)(catalog_key sid p \<mapsto> es) \<and>
    described (put_catalog sid p es now c) \<subseteq>\<^sub>m fold (\<lambda>e m. m(catalog_key sid (fe_path e) \<mapsto> e)) es (described c)"
proof -
  let ?c = "c\<lparr>dc_catalog := AList.update (catalog_key sid p) \<lparr>ca_entries = es, ca_cached_at = now\<rparr> (dc_catalog c),
          dc_entry_cache := fold (put_entry sid now) es (dc_entry_cache c)\<rparr>"
  have "cache_ok ?c" using assms put_entries by (auto simp: cache_ok_def distinct_update)
  moreover have "listed ?c = (listed c)(catalog_key sid p \<mapsto> es)" by (auto simp: listed_def update_conv')
  moreover have "described ?c = fold (\<lambda>e m. m(catalog_key sid (fe_path e) \<mapsto> e)) es (described c)"
    by (simp add: described_def [abs_def] put_entries map_option_upds)
  ultimately show ?thesis using maybe_purge_ok [of ?c now] by (simp add: put_catalog_def)
qed

lemma put_entry_ok:
  assumes "cache_ok c"
  shows "cache_ok (put_entry_metadata sid e now c) \<and> listed (put_entry_metadata sid e now c) \<subseteq>\<^sub>m listed c \<and>
    described (put_entry_metadata sid e now c) \<subseteq>\<^sub>m (described c)(catalog_key sid (fe_path e) \<mapsto> e)"
proof -
  let ?c = "c\<lparr>dc_entry_cache := put_entry sid now e (dc_entry_cache c)\<rparr>"
  have "cache_ok ?c" using assms by (simp add: cache_ok_def put_entry_def distinct_update)
  moreover have "listed ?c = listed c" "described ?c = (described c)(catalog_key sid (fe_path e) \<mapsto> e)"
    by (auto simp: listed_def described_def put_entry_def update_conv')
  ultimately show ?thesis using maybe_purge_ok [of ?c now] by (simp add: put_entry_metadata_def)
qed

lemma set_ttl_ok: "cache_ok c \<Longrightarrow> cache_ok (set_catalog_ttl_secs n c) \<and> listed (set_catalog_ttl_secs n c) = listed c \<and>
    described (set_catalog_ttl_secs n c) = described c"
  by (simp add: cache_ok_def set_catalog_ttl_secs_def listed_def [abs_def] described_def [abs_def])

lemma restrict_le: "m \<subseteq>\<^sub>m n \<Longrightarrow> (\<lambda>k. if P k then None else m k) \<subseteq>\<^sub>m (\<lambda>k. if P k then None else n k)"
  by (auto simp: map_le_def dom_def)

lemma cache_step_all:
  assumes "cache_ok c"
  shows "cache_ok (cache_step sha shown op c)" and "listed c \<subseteq>\<^sub>m m \<Longrightarrow> listed (cache_step sha shown op c) \<subseteq>\<^sub>m listing_step op m"
    and "described c \<subseteq>\<^sub>m n \<Longrightarrow> described (cache_step sha shown op c) \<subseteq>\<^sub>m entry_step op n"
proof -
  note content = around_step [OF around_content(1) assms] around_step [OF around_content(2) assms] around_step [OF around_content(3) assms]
    around_step [OF around_content(4) assms] around_step [OF around_content(5) assms] around_step [OF around_content(6) assms]
  note all = content put_catalog_ok [OF assms] put_entry_ok [OF assms] purge_ok [OF assms] set_ttl_ok [OF assms]
    invalidate_ok [OF assms] clear_session_eq [OF assms] clear_all_eq [OF assms]
  show "cache_ok (cache_step sha shown op c)" using all by (cases op) simp_all
  show "listed (cache_step sha shown op c) \<subseteq>\<^sub>m listing_step op m" if "listed c \<subseteq>\<^sub>m m"
  proof (cases op)
    case (Call_Put_Catalog sid p es now)
    then show ?thesis
      using put_catalog_ok [OF assms, of sid p es now] map_le_upd [OF that, of "catalog_key sid p" "Some es"]
      by (auto intro: map_le_trans)
  next
    case (Call_Put_Entry sid e now)
    then show ?thesis using put_entry_ok [OF assms, of sid e now] that by (auto intro: map_le_trans)
  next
    case (Call_Purge now)
    then show ?thesis using purge_ok [OF assms, of now] that by (auto intro: map_le_trans)
  qed (use that all invalidate_maps restrict_le in simp_all)
  show "described (cache_step sha shown op c) \<subseteq>\<^sub>m entry_step op n" if "described c \<subseteq>\<^sub>m n"
  proof (cases op)
    case (Call_Put_Catalog sid p es now)
    then show ?thesis
      using put_catalog_ok [OF assms, of sid p es now] upds_le [OF that, of "\<lambda>e. catalog_key sid (fe_path e)" es]
      by (auto intro: map_le_trans)
  next
    case (Call_Put_Entry sid e now)
    then show ?thesis
      using put_entry_ok [OF assms, of sid e now] map_le_upd [OF that, of "catalog_key sid (fe_path e)" "Some e"]
      by (auto intro: map_le_trans)
  next
    case (Call_Purge now)
    then show ?thesis using purge_ok [OF assms, of now] that by (auto intro: map_le_trans)
  qed (use that all invalidate_maps restrict_le in simp_all)
qed

interpretation listings: refining_machine "cache_step sha shown" cache_ok listed listing_step for sha shown
  by unfold_locales (rule cache_step_all, assumption)+

interpretation descriptions: refining_machine "cache_step sha shown" cache_ok described entry_step for sha shown
  by unfold_locales (rule cache_step_all, assumption)+

lemma new_cache_ok: "cache_ok (new_cache base n fs io us r a m)"
  "listed (new_cache base n fs io us r a m) = Map.empty" "described (new_cache base n fs io us r a m) = Map.empty"
  by (simp_all add: cache_ok_def new_cache_def empty_index_ok listed_def [abs_def] described_def [abs_def])

lemma get_catalog_listed: "get_catalog sid p now c \<in> {None, listed c (catalog_key sid p)}"
  by (simp add: get_catalog_def listed_def split: option.split)

lemma get_entry_described: "get_entry_metadata sid p now c \<in> {None, described c (catalog_key sid p)}"
  by (simp add: get_entry_metadata_def described_def split: option.split)

lemma map_le_at: "m \<subseteq>\<^sub>m n \<Longrightarrow> x \<in> {None, m k} \<Longrightarrow> x \<in> {None, n k}"
  by (cases "m k") (auto simp: map_le_def dom_def)

text \<open>
  C27: The catalog never serves what was invalidated: after any calls, on any disk, a listing or the
  details of a file come back only as they were last put for that path, and not when the path, a folder
  above it or (for listings) something directly inside it was invalidated, or its session cleared, since.
\<close>

theorem catalog_never_stale:
  "get_catalog sid p now (fold (cache_step sha shown) ops (new_cache base n fs io us r a m))
     \<in> {None, fold listing_step ops Map.empty (catalog_key sid p)} \<and>
   get_entry_metadata sid p now (fold (cache_step sha shown) ops (new_cache base n fs io us r a m))
     \<in> {None, fold entry_step ops Map.empty (catalog_key sid p)}"
proof -
  let ?c = "fold (cache_step sha shown) ops (new_cache base n fs io us r a m)"
  have 1: "listed ?c \<subseteq>\<^sub>m fold listing_step ops Map.empty"
    by (rule listings.run_refines [OF new_cache_ok(1)]) (simp add: new_cache_ok)
  have 2: "described ?c \<subseteq>\<^sub>m fold entry_step ops Map.empty"
    by (rule descriptions.run_refines [OF new_cache_ok(1)]) (simp add: new_cache_ok)
  show ?thesis
    by (rule conjI, rule map_le_at [OF 1], rule get_catalog_listed, rule map_le_at [OF 2], rule get_entry_described)
qed

subsection \<open>Contents\<close>

definition content_at :: "cache \<Rightarrow> local_path \<Rightarrow> bytes option" where
  "content_at c p = (case node_at (dc_fs c) p of Some (File_Node d) \<Rightarrow> Some d | _ \<Rightarrow> None)"

lemma write_atomic_done:
  assumes "write_private_atomic p d c = (Inr (), c')" and "p \<noteq> []"
  shows "content_at c' p = Some d"
proof -
  obtain u c1 where u: "new_uuid c = (u, c1)" by fastforce
  let ?tmp = "butlast p @ [TEMP_PREFIX @ u]"
  obtain r2 c2 where 2: "create_new ?tmp c1 = (r2, c2)" by fastforce
  obtain r3 c3 where 3: "write_all ?tmp d c2 = (r3, c3)" by fastforce
  obtain r4 c4 where 4: "flush_file c3 = (r4, c4)" by fastforce
  obtain r5 c5 where 5: "rename_file ?tmp p c4 = (r5, c5)" by fastforce
  have ok: "r2 = Inr ()" "r3 = Inr ()" "r4 = Inr ()" "r5 = Inr ()" "c' = c5"
    using assms(1) u 2 3 4 5
    by (auto simp: write_private_atomic_def Let_def andThen_def try_then_def ret_def split: sum.splits prod.splits)
  have "node_at (dc_fs c3) ?tmp = Some (File_Node d)"
    using 3 ok(2) by (auto simp: write_all_def node_at_def update_conv' elim!: on_fs_eq split: io.splits)
  moreover have "dc_fs c4 = dc_fs c3" using 4 by (auto simp: flush_file_def elim!: on_fs_eq)
  ultimately show ?thesis
    using 5 ok(4) assms(2)
    by (auto simp: ok(5) content_at_def rename_file_def node_at_def update_conv' elim!: on_fs_eq
        split: io.splits option.splits node.splits if_splits)
qed

lemma remove_file_other:
  assumes "sys_remove_file q c = (r, c')" and "q \<noteq> p"
  shows "node_at (dc_fs c') p = node_at (dc_fs c) p" "dc_index c' = dc_index c"
  using assms
  by (auto simp: sys_remove_file_def node_at_def delete_conv' elim!: on_fs_eq split: io.splits option.splits node.splits if_splits)

text \<open>One turn of the eviction.\<close>

lemma evict_turn:
  assumes "index_ok (dc_index c)" and "ci_total (dc_index c) > m"
  obtains q k us idx' r c1 where
    "ci_uses (dc_index c) = (q, k) # us" "index_ok idx'" "ci_uses idx' = us" "ci_total (dc_index c) = k + ci_total idx'"
    "sys_remove_file q (c\<lparr>dc_index := idx'\<rparr>) = (r, c1)" "dc_index c1 = idx'"
    "evict_loop (Suc turns) m kept c = evict_loop turns m (if r = Inl Io_Other then kept @ [(q, k)] else kept) c1"
proof -
  have "ci_uses (dc_index c) \<noteq> []" using assms content.total_uses [OF assms(1)] by auto
  then obtain q k us where u: "ci_uses (dc_index c) = (q, k) # us" by (cases "ci_uses (dc_index c)") auto
  then obtain idx' where p: "ci_pop_oldest (dc_index c) = (Some (q, k), idx')" "index_ok idx'" "ci_uses idx' = us"
    using content.pop_some [OF assms(1)] by blast
  obtain r c1 where r: "sys_remove_file q (c\<lparr>dc_index := idx'\<rparr>) = (r, c1)" by fastforce
  have idx: "dc_index c1 = idx'" using r by (auto simp: sys_remove_file_def elim!: on_fs_eq)
  have "evict_loop (Suc turns) m kept c = evict_loop turns m (if r = Inl Io_Other then kept @ [(q, k)] else kept) c1"
    using assms(2) p(1) r
    by (auto simp: andThen_def gets_def on_index_def modify_def split: sum.splits io_error.splits)
  then show thesis
    using that u p r idx content.total_pop [OF assms(1) p(1)] by simp
qed

lemma evict_loop_stop: "\<not> ci_total (dc_index c) > m \<Longrightarrow> evict_loop turns m kept c = (kept, c)"
  by (cases turns) (simp_all add: ret_def andThen_def gets_def)

lemma evict_loop_keeps:
  assumes "evict_loop turns m kept c = (kept', c')" and "index_ok (dc_index c)"
    and "ci_uses (dc_index c) = us @ [(p, n)]" and "n \<le> m"
  shows "node_at (dc_fs c') p = node_at (dc_fs c) p \<and> index_ok (dc_index c')"
  using assms
proof (induction turns arbitrary: kept c us)
  case (Suc turns)
  show ?case
  proof (cases "ci_total (dc_index c) > m")
    case False
    then show ?thesis using Suc.prems by (simp add: evict_loop_stop del: evict_loop.simps)
  next
    case True
    obtain q k vs idx' r c1 where t: "ci_uses (dc_index c) = (q, k) # vs" "index_ok idx'" "ci_uses idx' = vs"
      "ci_total (dc_index c) = k + ci_total idx'"
      "sys_remove_file q (c\<lparr>dc_index := idx'\<rparr>) = (r, c1)" "dc_index c1 = idx'"
      "evict_loop (Suc turns) m kept c = evict_loop turns m (if r = Inl Io_Other then kept @ [(q, k)] else kept) c1"
      by (rule evict_turn [OF Suc.prems(2) True])
    have "us \<noteq> []"
      using True content.total_uses [OF Suc.prems(2)] Suc.prems(3,4) by auto
    then obtain us' where us': "us = (q, k) # us'" "vs = us' @ [(p, n)]" using t(1) Suc.prems(3) by (cases us) auto
    have "q \<noteq> p" using content.distinct_uses [OF Suc.prems(2)] by (auto simp: Suc.prems(3) us')
    then have "node_at (dc_fs c1) p = node_at (dc_fs c) p" using remove_file_other [OF t(5)] by simp
    moreover have "node_at (dc_fs c') p = node_at (dc_fs c1) p \<and> index_ok (dc_index c')"
      by (rule Suc.IH [of "if r = Inl Io_Other then kept @ [(q, k)] else kept" c1 us'])
        (use Suc.prems t us' in \<open>simp_all del: evict_loop.simps\<close>)
    ultimately show ?thesis by simp
  qed
qed (simp add: ret_def)

lemma evict_loop_below:
  assumes "evict_loop turns m kept c = (kept', c')" and "index_ok (dc_index c)" and "length (ci_uses (dc_index c)) < turns"
  shows "ci_total (dc_index c') \<le> m"
  using assms
proof (induction turns arbitrary: kept c)
  case (Suc turns)
  show ?case
  proof (cases "ci_total (dc_index c) > m")
    case False
    then show ?thesis using Suc.prems by (simp add: evict_loop_stop del: evict_loop.simps)
  next
    case True
    obtain q k vs idx' r c1 where t: "ci_uses (dc_index c) = (q, k) # vs" "index_ok idx'" "ci_uses idx' = vs"
      "ci_total (dc_index c) = k + ci_total idx'"
      "sys_remove_file q (c\<lparr>dc_index := idx'\<rparr>) = (r, c1)" "dc_index c1 = idx'"
      "evict_loop (Suc turns) m kept c = evict_loop turns m (if r = Inl Io_Other then kept @ [(q, k)] else kept) c1"
      by (rule evict_turn [OF Suc.prems(2) True])
    show ?thesis
      by (rule Suc.IH [of "if r = Inl Io_Other then kept @ [(q, k)] else kept" c1])
        (use Suc.prems t in \<open>simp_all del: evict_loop.simps\<close>)
  qed
qed simp

lemma evict_locked_keeps:
  assumes "evict_locked m c = ((), c')" and "index_ok (dc_index c)"
    and "ci_uses (dc_index c) = us @ [(p, n)]" and "n \<le> m"
  shows "node_at (dc_fs c') p = node_at (dc_fs c) p"
proof -
  obtain kept c1 where e: "evict_loop (length (ci_order (dc_index c)) + 1) m [] c = (kept, c1)" by fastforce
  then have "dc_fs c' = dc_fs c1"
    using assms(1) by (auto simp: evict_locked_def andThen_def gets_def on_index_def modify_def simp del: evict_loop.simps)
  then show ?thesis using evict_loop_keeps [OF e assms(2-4)] by simp
qed

lemma put_small_served:
  assumes "put_small sha shown sid p m d c = (Inr (), c')" and "index_ok (dc_index c)" and "p \<noteq> []" and "length d \<le> m"
  shows "content_at c' p = Some d"
proof -
  have start: "around (dc_base c, dc_catalog c) (dc_entry_cache c) c" using assms(2) by (simp add: around_def)
  obtain r1 c1 where 1: "ensure_site_dir sha sid c = (r1, c1)" by fastforce
  then obtain site where r1: "r1 = Inr site"
    using assms(1) by (cases r1) (auto simp: put_small_def io_then_def andThen_def ret_def)
  obtain r2 c2 where 2: "ensure_parent_dirs site p c1 = (r2, c2)" by fastforce
  then have r2: "r2 = Inr ()"
    using assms(1) 1 r1 by (cases r2) (auto simp: put_small_def io_then_def andThen_def ret_def)
  obtain c3 where 3: "drop_stale_folder p c2 = ((), c3)" by (cases "drop_stale_folder p c2") auto
  obtain r4 c4 where 4: "write_private_atomic p d c3 = (r4, c4)" by fastforce
  then have r4: "r4 = Inr ()"
    using assms(1) 1 2 3 r1 r2 by (cases r4) (auto simp: put_small_def io_then_def andThen_def ret_def)
  have "keeps (around k e) (drop_stale_folder p)" for k e
    unfolding drop_stale_folder_def by (intro hoare_rules index_removals)
  then have "around (dc_base c, dc_catalog c) (dc_entry_cache c) c4"
    using start 1 2 3 4 by (meson around_dirs around_write keepsD)
  moreover obtain c5 where 5: "ensure_index_loaded c4 = ((), c5)" by (cases "ensure_index_loaded c4") auto
  ultimately have ok: "index_ok (dc_index c5)" using keepsD [OF around_loaded] by (auto simp: around_def)
  define c6 where "c6 = c5\<lparr>dc_index := ci_insert p (length d) (dc_index c5)\<rparr>"
  have 6: "evict_locked m c6 = ((), c')"
    using assms(1) 1 2 3 4 5 r1 r2 r4
    by (auto simp: put_small_def io_then_def andThen_def ret_def on_index_def modify_def c6_def split: prod.splits)
  have "content_at c4 p = Some d" using write_atomic_done 4 r4 assms(3) by blast
  moreover have "dc_fs c6 = dc_fs c4" using 5 by (auto simp: c6_def ensure_index_loaded_def modify_def split: if_splits)
  moreover have "node_at (dc_fs c') p = node_at (dc_fs c6) p"
    by (rule evict_locked_keeps [OF 6 _ _ assms(4)]) (use insert_ok [OF ok, of p "length d"] in \<open>simp_all add: c6_def\<close>)
  ultimately show ?thesis by (simp add: content_at_def)
qed

text \<open>
  C28: Content that was stored is served: after a put that succeeded, for a file small enough to be
  cached, reading it back gives these bytes, whatever calls came before, whatever failed on the disk on
  the way and however much had to be evicted.
\<close>

theorem stored_content_served:
  assumes "put_file_content sha shown sid rp d (fold (cache_step sha shown) ops (new_cache base n fs io us r a m)) = (Inr (), c')"
    and "length d \<le> dc_max_bytes (fold (cache_step sha shown) ops (new_cache base n fs io us r a m)) div LARGE_FILE_DIVISOR"
  shows "fst (get_file_content sha sid rp (c'\<lparr>dc_io := []\<rparr>)) = Some d"
proof -
  let ?c = "fold (cache_step sha shown) ops (new_cache base n fs io us r a m)"
  have "cache_ok ?c" by (rule listings.run_inv [OF new_cache_ok(1)])
  then have ok: "index_ok (dc_index ?c)" by (simp add: cache_ok_def)
  obtain p where p: "local_file sha sid rp ?c = Some p"
    using assms(1) by (cases "local_file sha sid rp ?c") (auto simp: put_file_content_def andThen_def gets_def ret_def)
  have ne: "p \<noteq> []"
    using p by (auto simp: local_file_def get_local_file_path_def Let_def split: if_splits)
  have run: "put_small sha shown sid p (dc_max_bytes ?c) d ?c = (Inr (), c')"
    using assms p by (simp add: put_file_content_def andThen_def gets_def)
  have "length d \<le> dc_max_bytes ?c"
    using assms(2) by (metis div_le_dividend le_trans)
  then have "content_at c' p = Some d" by (rule put_small_served [OF run ok ne])
  moreover have "dc_base c' = dc_base ?c"
    using keepsD [OF around_content(2), of "(dc_base ?c, dc_catalog ?c)" "dc_entry_cache ?c" ?c, OF _ assms(1)] ok
    by (simp add: around_def)
  then have "local_file sha sid rp (c'\<lparr>dc_io := []\<rparr>) = Some p" using p by (simp add: local_file_def)
  ultimately show ?thesis
    by (auto simp: get_file_content_def andThen_def gets_def sys_read_def on_fs_def next_io_def content_at_def
        on_index_def modify_def ret_def split: option.splits node.splits)
qed

end
