(* ===== verification/DiskCacheLimits.thy ===== *)
theory DiskCacheLimits
  imports DiskCacheFacts
begin

section \<open>The limits of the disk cache\<close>

text \<open>
  Facts about the amounts the cache of \<open>crates/rustscp-core/src/disk_cache.rs\<close> keeps: the quota of the
  contents and the caps of the catalog; and the concrete caches that show the hypotheses can hold.
\<close>

lemma uses_order: "length (ci_order i) = length (ci_uses i)"
  by (simp add: ci_uses_def)

text \<open>On a disk where every call works and no indexed path has become a folder, each turn removes a file.\<close>

lemma remove_file_works:
  assumes "sys_remove_file q c = (r, c')" and "dc_io c = []" and "node_at (dc_fs c) q \<noteq> Some Dir_Node"
  shows "r \<noteq> Inl Io_Other" and "c' = c\<lparr>dc_fs := filter (\<lambda>e. fst e \<noteq> q) (dc_fs c)\<rparr>"
proof -
  have q: "q \<noteq> []" using assms(3) by (auto simp: node_at_def)
  show "r \<noteq> Inl Io_Other"
    using assms by (auto simp: sys_remove_file_def on_fs_def andThen_def next_io_def split: option.splits node.splits)
  show "c' = c\<lparr>dc_fs := filter (\<lambda>e. fst e \<noteq> q) (dc_fs c)\<rparr>"
  proof (cases "node_at (dc_fs c) q")
    case None
    then have "filter (\<lambda>e. fst e \<noteq> q) (dc_fs c) = dc_fs c"
      using q by (intro filter_True) (auto simp: node_at_def map_of_eq_None_iff)
    then show ?thesis using assms(1,2) None by (simp add: sys_remove_file_def on_fs_def andThen_def next_io_def)
  next
    case (Some n)
    then obtain d where "n = File_Node d" using assms(3) by (cases n) auto
    moreover have "AList.delete q fs = filter (\<lambda>e. fst e \<noteq> q) fs" for fs :: fs
      by (auto simp: AList.delete_eq intro!: filter_cong)
    ultimately show ?thesis using assms(1,2) Some by (simp add: sys_remove_file_def on_fs_def andThen_def next_io_def)
  qed
qed

definition without :: "local_path set \<Rightarrow> fs \<Rightarrow> fs" where
  "without S fs = filter (\<lambda>e. fst e \<notin> S) fs"

lemma node_without:
  assumes "p \<noteq> []"
  shows "node_at (without S fs) p = (if p \<in> S then None else node_at fs p)"
proof -
  have "map_of (without S fs) p = (if p \<in> S then None else map_of fs p)"
    unfolding without_def by (induction fs) auto
  then show ?thesis using assms by (simp add: node_at_def)
qed

lemma evict_loop_evicts:
  assumes "evict_loop turns m kept c = (kept', c')" and "index_ok (dc_index c)" and "dc_io c = []"
    and "list_all (\<lambda>u. node_at (dc_fs c) (fst u) \<noteq> Some Dir_Node) (ci_uses (dc_index c))"
  shows "\<exists>ev. ci_uses (dc_index c) = ev @ ci_uses (dc_index c') \<and> kept' = kept \<and> index_ok (dc_index c') \<and>
    (ev = [] \<or> m < snd (last ev) + sum_list (map snd (ci_uses (dc_index c')))) \<and>
    dc_fs c' = without (fst ` set ev) (dc_fs c) \<and> dc_base c' = dc_base c \<and> dc_readable c' = dc_readable c"
  using assms
proof (induction turns arbitrary: c)
  case 0
  then show ?case by (auto simp: ret_def without_def)
next
  case (Suc turns)
  show ?case
  proof (cases "ci_total (dc_index c) > m")
    case False
    then show ?thesis using Suc.prems by (auto simp: evict_loop_stop without_def simp del: evict_loop.simps)
  next
    case True
    obtain q k vs idx' r c1 where t: "ci_uses (dc_index c) = (q, k) # vs" "index_ok idx'" "ci_uses idx' = vs"
      "ci_total (dc_index c) = k + ci_total idx'"
      "sys_remove_file q (c\<lparr>dc_index := idx'\<rparr>) = (r, c1)" "dc_index c1 = idx'"
      "evict_loop (Suc turns) m kept c = evict_loop turns m (if r = Inl Io_Other then kept @ [(q, k)] else kept) c1"
      by (rule evict_turn [OF Suc.prems(2) True])
    have q: "node_at (dc_fs c) q \<noteq> Some Dir_Node" using Suc.prems(4) t(1) by simp
    then have r: "r \<noteq> Inl Io_Other" and c1: "c1 = c\<lparr>dc_index := idx', dc_fs := filter (\<lambda>e. fst e \<noteq> q) (dc_fs c)\<rparr>"
      using remove_file_works [OF t(5)] Suc.prems(3) by simp_all
    have "node_at (dc_fs c1) (fst u) \<noteq> Some Dir_Node" if "u \<in> set vs" for u
    proof -
      have "fst u \<noteq> []" "node_at (dc_fs c) (fst u) \<noteq> Some Dir_Node" using Suc.prems(4) that t(1) by (auto simp: list_all_iff node_at_def)
      then show ?thesis using node_without [of "fst u" "{q}" "dc_fs c"] by (simp add: c1 without_def)
    qed
    then have files: "list_all (\<lambda>u. node_at (dc_fs c1) (fst u) \<noteq> Some Dir_Node) (ci_uses (dc_index c1))"
      using t(3,6) by (simp add: list_all_iff)
    obtain ev where ev: "ci_uses (dc_index c1) = ev @ ci_uses (dc_index c')" "kept' = kept" "index_ok (dc_index c')"
      "ev = [] \<or> m < snd (last ev) + sum_list (map snd (ci_uses (dc_index c')))" "dc_fs c' = without (fst ` set ev) (dc_fs c1)"
      "dc_base c' = dc_base c1" "dc_readable c' = dc_readable c1"
      using Suc.IH [of c1] Suc.prems t r files by (auto simp: c1 simp del: evict_loop.simps)
    have "dc_fs c' = without (fst ` set ((q, k) # ev)) (dc_fs c)"
      unfolding ev(5) by (auto simp: without_def c1 intro!: filter_cong)
    moreover have "m < snd (last ((q, k) # ev)) + sum_list (map snd (ci_uses (dc_index c')))"
      using ev(1,4) True t(3,4,6) content.total_uses [OF t(2)] by (cases "ev = []") simp_all
    ultimately show ?thesis using ev t(1,3,6) by (intro exI [of _ "(q, k) # ev"]) (simp add: c1)
  qed
qed

subsection \<open>What is on the disk\<close>

definition file_size :: "fs \<Rightarrow> local_path \<Rightarrow> nat" where
  "file_size fs p = (case node_at fs p of Some (File_Node d) \<Rightarrow> length d | _ \<Rightarrow> 0)"

text \<open>The bytes of all cached files that a walk through the folder of the cache finds.\<close>

definition bytes_on_disk :: "cache \<Rightarrow> nat" where
  "bytes_on_disk c = (\<Sum>p \<in> fst ` set (scan_cached_files c (dc_base c)). file_size (dc_fs c) p)"

lemma own_files_node:
  "(p, n) \<in> set (own_files readable fs d) \<Longrightarrow> node_at fs p \<noteq> Some Dir_Node \<and> node_at fs p \<noteq> None \<and> n = file_size fs p"
  by (auto simp: own_files_def file_size_def map_filter_def split: option.splits node.splits if_splits)

lemma scan_dirs_node:
  "(p, n) \<in> set (scan_dirs readable fs stack found) \<Longrightarrow>
   (p, n) \<in> set found \<or> node_at fs p \<noteq> Some Dir_Node \<and> node_at fs p \<noteq> None \<and> n = file_size fs p"
proof (induction readable fs stack found rule: scan_dirs.induct)
  case (2 readable fs d stack found)
  then show ?case using own_files_node [of p n readable fs d] by (auto split: if_splits)
qed simp

lemma children_without: "children (without S fs) d = filter (\<lambda>p. p \<notin> S) (children fs d)"
proof -
  have "map fst (without S fs) = filter (\<lambda>p. p \<notin> S) (map fst fs)"
    by (simp add: without_def filter_map comp_def)
  then show ?thesis by (simp add: children_def remdups_filter conj_commute)
qed

lemma child_not_Nil: "p \<in> set (children fs d) \<Longrightarrow> p \<noteq> []"
  by (auto simp: children_def)

lemma sub_dirs_without:
  assumes "\<And>p. p \<in> S \<Longrightarrow> node_at fs p \<noteq> Some Dir_Node"
  shows "sub_dirs readable (without S fs) d = sub_dirs readable fs d"
proof -
  have "p \<notin> S \<and> readable p \<and> node_at (without S fs) p = Some Dir_Node \<longleftrightarrow> readable p \<and> node_at fs p = Some Dir_Node"
    if "p \<in> set (children fs d)" for p
    using node_without [OF child_not_Nil [OF that], of S fs] assms by auto
  then show ?thesis unfolding sub_dirs_def children_without filter_filter by (intro filter_cong) auto
qed

lemma own_files_without:
  "own_files readable (without S fs) d = filter (\<lambda>u. fst u \<notin> S) (own_files readable fs d)"
proof -
  let ?f = "\<lambda>fs p. case node_at fs p of
       Some (File_Node b) \<Rightarrow> if readable p \<and> \<not> is_internal_file_name (last p) then Some (p, length b) else None
     | _ \<Rightarrow> None"
  have "List.map_filter (?f (without S fs)) (filter (\<lambda>p. p \<notin> S) ps) =
      filter (\<lambda>u. fst u \<notin> S) (List.map_filter (?f fs) ps)" if "[] \<notin> set ps" for ps
    using that
  proof (induction ps)
    case (Cons p ps)
    then have "node_at (without S fs) p = (if p \<in> S then None else node_at fs p)" by (intro node_without) auto
    then show ?case using Cons by (auto simp: map_filter_simps split: option.split node.split)
  qed (simp add: map_filter_simps)
  moreover have "[] \<notin> set (children fs d)" using child_not_Nil by blast
  ultimately show ?thesis unfolding own_files_def children_without by blast
qed

lemma scan_without:
  assumes "\<And>p. p \<in> S \<Longrightarrow> node_at fs p \<noteq> Some Dir_Node"
  shows "scan_dirs readable (without S fs) stack (filter (\<lambda>u. fst u \<notin> S) found) =
    filter (\<lambda>u. fst u \<notin> S) (scan_dirs readable fs stack found)"
  using assms
proof (induction readable fs stack found rule: scan_dirs.induct)
  case (2 readable fs d stack found)
  show ?case
  proof (cases "readable d")
    case True
    from "2.IH"(1) [OF True 2(3)] show ?thesis
      by (simp add: True sub_dirs_without [of S fs, OF 2(3)] own_files_without)
  next
    case False
    from "2.IH"(2) [OF False 2(3)] show ?thesis by (simp add: False)
  qed
qed simp


lemma uses_inserted:
  "index_ok i \<Longrightarrow> index_ok (fold (\<lambda>(p, n) i. ci_insert p n i) xs i) \<and>
   fst ` set (ci_uses (fold (\<lambda>(p, n) i. ci_insert p n i) xs i)) = fst ` set xs \<union> fst ` set (ci_uses i) \<and>
   set (ci_uses (fold (\<lambda>(p, n) i. ci_insert p n i) xs i)) \<subseteq> set xs \<union> set (ci_uses i)"
proof (induction xs arbitrary: i)
  case (Cons x xs)
  obtain p n where x: "x = (p, n)" by (cases x)
  have u: "ci_uses (ci_insert p n i) = filter (\<lambda>u. fst u \<noteq> p) (ci_uses i) @ [(p, n)]" by (rule content.uses_insert [OF Cons.prems])
  have "insert p (fst ` set (filter (\<lambda>u. fst u \<noteq> p) (ci_uses i))) = insert p (fst ` set (ci_uses i))" by force
  moreover have "index_ok (ci_insert p n i)" by (rule content.good_insert [OF Cons.prems])
  ultimately show ?case using Cons.IH [of "ci_insert p n i"] by (auto simp: x u)
qed simp

lemma loaded_uses:
  assumes "\<not> ci_loaded (dc_index c)" and "i = dc_index (snd (ensure_index_loaded c))"
  shows "index_ok i" and "fst ` set (ci_uses i) = fst ` set (scan_cached_files c (dc_base c))"
    and "(p, n) \<in> set (ci_uses i) \<Longrightarrow> node_at (dc_fs c) p \<noteq> Some Dir_Node \<and> n = file_size (dc_fs c) p"
proof -
  let ?s = "scan_cached_files c (dc_base c)" and ?l = "\<lambda>i. i\<lparr>ci_loaded := True\<rparr>"
  have e: "index_ok (ci_reset x)" "ci_uses (ci_reset x) = []" for x
    by (simp_all add: ci_reset_def empty_index_def index_ok_def maps_agree_def bmap_ok_def ci_uses_def)
  have flag: "index_ok (?l x) = index_ok x" "ci_uses (?l x) = ci_uses x" for x
    by (simp_all add: index_ok_def maps_agree_def ci_uses_def size_in_def)
  have i: "i = ?l (fold (\<lambda>(p, n) i. ci_insert p n i) ?s (ci_reset (dc_index c)))"
    using assms by (simp add: ensure_index_loaded_def modify_def)
  note u = uses_inserted [OF e(1), of ?s "dc_index c"]
  show "index_ok i" "fst ` set (ci_uses i) = fst ` set ?s" using u by (simp_all add: i flag e)
  assume "(p, n) \<in> set (ci_uses i)"
  then have "(p, n) \<in> set ?s" using u by (auto simp: i flag e)
  then have "(p, n) \<in> set (scan_dirs (dc_readable c) (dc_fs c) [dc_base c] [])" by (simp add: scan_cached_files_def)
  from scan_dirs_node [OF this] show "node_at (dc_fs c) p \<noteq> Some Dir_Node \<and> n = file_size (dc_fs c) p" by simp
qed

text \<open>The index lists every cached file on the disk, each with its size.\<close>

definition tracked :: "cache \<Rightarrow> content_index \<Rightarrow> bool" where
  "tracked c i =
     (fst ` set (scan_cached_files c (dc_base c)) \<subseteq> fst ` set (ci_uses i) \<and>
      list_all (\<lambda>(p, n). n = file_size (dc_fs c) p) (ci_uses i))"

lemma bytes_left:
  assumes "tracked c i" and "index_ok i" and "list_all (\<lambda>u. node_at (dc_fs c) (fst u) \<noteq> Some Dir_Node) (ci_uses i)"
    and "ci_uses i = ev @ us" and "dc_fs c' = without (fst ` set ev) (dc_fs c)" "dc_base c' = dc_base c" "dc_readable c' = dc_readable c"
  shows "bytes_on_disk c' \<le> sum_list (map snd us)"
proof -
  let ?S = "fst ` set ev" and ?fs = "dc_fs c"
  have S: "node_at ?fs p \<noteq> Some Dir_Node" if "p \<in> ?S" for p using assms(3,4) that by (auto simp: list_all_iff)
  have "scan_dirs (dc_readable c) (dc_fs c') [dc_base c] [] = filter (\<lambda>u. fst u \<notin> ?S) (scan_dirs (dc_readable c) ?fs [dc_base c] [])"
    using scan_without [of ?S ?fs "dc_readable c" "[dc_base c]" "[]"] S by (simp add: assms(5))
  then have left: "fst ` set (scan_cached_files c' (dc_base c')) = fst ` set (scan_cached_files c (dc_base c)) - ?S"
    by (auto simp: scan_cached_files_def assms(6,7))
  have d: "distinct (map fst us)" "fst ` set us \<inter> ?S = {}" using content.distinct_uses [OF assms(2)] by (auto simp: assms(4))
  have "fst ` set (scan_cached_files c' (dc_base c')) \<subseteq> fst ` set us"
    using assms(1,4) unfolding left tracked_def by auto
  then have "bytes_on_disk c' \<le> (\<Sum>p \<in> fst ` set us. file_size (dc_fs c') p)"
    unfolding bytes_on_disk_def by (intro sum_mono2) auto
  also have "\<dots> = (\<Sum>u \<in> set us. file_size (dc_fs c') (fst u))"
    using d(1) by (intro sum.reindex_cong [of fst]) (auto simp: distinct_map)
  also have "\<dots> = (\<Sum>u \<in> set us. snd u)"
  proof (intro sum.cong refl)
    fix u assume u: "u \<in> set us"
    then have "node_at ?fs (fst u) \<noteq> Some Dir_Node" using assms(3,4) by (simp add: list_all_iff)
    then have "fst u \<noteq> []" by (auto simp: node_at_def)
    moreover have "snd u = file_size ?fs (fst u)" using u assms(1,4) by (auto simp: tracked_def list_all_iff case_prod_beta)
    moreover have "fst u \<notin> ?S" using u d(2) by blast
    ultimately show "file_size (dc_fs c') (fst u) = snd u" using node_without [of "fst u" ?S ?fs] by (simp add: file_size_def assms(5))
  qed
  also have "\<dots> = sum_list (map snd us)" using d(1) by (simp add: sum_list_distinct_conv_sum_set distinct_map)
  finally show ?thesis .
qed

text \<open>
  C29: The quota holds. On a disk where every call works, and where no indexed path has become a
  folder, setting the limit leaves no more cached bytes than the limit in the index, which is read
  from the disk first if it was not yet; the files dropped are those used least recently, no more of
  them than needed, each is removed from the disk and nothing else is; and where the index, as it is
  when just read, lists what is there with its sizes, the files that are left on the disk amount to
  no more than the limit either.
\<close>

theorem quota_enforced:
  assumes "c = fold (cache_step sha shown) ops (new_cache base n fs io us r a m)"
    and "dc_io c = []" and "i = dc_index (snd (ensure_index_loaded c))"
    and "list_all (\<lambda>u. node_at (dc_fs c) (fst u) \<noteq> Some Dir_Node) (ci_uses i)"
    and "set_max_size limit c = ((), c')"
  shows "sum_list (map snd (ci_uses (dc_index c'))) \<le> limit
    \<and> (\<exists>ev. ci_uses i = ev @ ci_uses (dc_index c')
         \<and> (ev = [] \<or> limit < snd (last ev) + sum_list (map snd (ci_uses (dc_index c'))))
         \<and> dc_fs c' = filter (\<lambda>e. fst e \<notin> fst ` set ev) (dc_fs c))
    \<and> (ci_loaded (dc_index c) \<and> \<not> tracked c i \<or> bytes_on_disk c' \<le> limit)"
proof -
  have "cache_ok c" unfolding assms(1) by (rule listings.run_inv [OF new_cache_ok(1)])
  then have ok: "index_ok i"
    using loaded_uses(1) [OF _ assms(3)] assms(3)
    by (cases "ci_loaded (dc_index c)") (auto simp: cache_ok_def ensure_index_loaded_def modify_def)
  define d where "d = c\<lparr>dc_max_bytes := limit, dc_index := i\<rparr>"
  have d: "index_ok (dc_index d)" "dc_io d = []" "dc_index d = i" "dc_fs d = dc_fs c" "dc_base d = dc_base c" "dc_readable d = dc_readable c"
    "list_all (\<lambda>u. node_at (dc_fs d) (fst u) \<noteq> Some Dir_Node) (ci_uses (dc_index d))"
    using assms(2,4) ok by (simp_all add: d_def)
  have "snd (ensure_index_loaded (c\<lparr>dc_max_bytes := limit\<rparr>)) = d"
    using assms(3) by (auto simp: ensure_index_loaded_def modify_def d_def scan_cached_files_def)
  then have run: "c' = snd (evict_locked limit d)"
    using assms(5) by (auto simp: set_max_size_def enforce_lru_def andThen_def gets_def modify_def ensure_index_loaded_def split: prod.splits)
  obtain kept d' where e: "evict_loop (length (ci_order (dc_index d)) + 1) limit [] d = (kept, d')" by fastforce
  obtain ev where ev: "ci_uses i = ev @ ci_uses (dc_index d')" "kept = []" "index_ok (dc_index d')"
    "ev = [] \<or> limit < snd (last ev) + sum_list (map snd (ci_uses (dc_index d')))"
    "dc_fs d' = without (fst ` set ev) (dc_fs c)" "dc_base d' = dc_base c" "dc_readable d' = dc_readable c"
    using evict_loop_evicts [OF e d(1,2,7)] d(3-6) by auto
  have c': "c' = d'" using e ev(2) run by (simp add: evict_locked_def andThen_def gets_def on_index_def modify_def del: evict_loop.simps)
  have "ci_total (dc_index c') \<le> limit"
    using evict_loop_below [OF e d(1)] by (simp add: uses_order c')
  then have total: "sum_list (map snd (ci_uses (dc_index c'))) \<le> limit" using content.total_uses [OF ev(3)] by (simp add: c')
  have "tracked c i" if "\<not> ci_loaded (dc_index c)"
    using loaded_uses(2,3) [OF that assms(3)] by (auto simp: tracked_def list_all_iff)
  then have "ci_loaded (dc_index c) \<and> \<not> tracked c i \<or> bytes_on_disk c' \<le> limit"
    using bytes_left [OF _ ok assms(4) ev(1,5-7)] total by (auto simp: c' intro: order_trans)
  then show ?thesis using total ev(1,4,5) by (auto simp: c' without_def)
qed

lemma fold_put_entry:
  "distinct (map fst m) \<Longrightarrow> distinct (map fst (fold (put_entry sid now) es m)) \<and>
   fst ` set (fold (put_entry sid now) es m) = (\<lambda>e. catalog_key sid (fe_path e)) ` set es \<union> fst ` set m"
proof (induction es arbitrary: m)
  case (Cons e es)
  have "distinct (map fst (put_entry sid now e m))" using Cons.prems by (simp add: put_entry_def distinct_update)
  moreover have "fst ` set (put_entry sid now e m) = insert (catalog_key sid (fe_path e)) (fst ` set m)"
    by (simp add: put_entry_def dom_update)
  ultimately show ?case using Cons.IH [of "put_entry sid now e m"] by auto
qed simp

lemma fold_put_entry_times:
  "e \<in> set (fold (put_entry sid now) es m) \<Longrightarrow> e \<in> set m \<or> em_cached_at (snd e) = now"
proof (induction es arbitrary: m)
  case (Cons x es)
  have "e \<in> set (put_entry sid now x m) \<Longrightarrow> e \<in> set m \<or> em_cached_at (snd e) = now" for e
    by (induction m) (auto simp: put_entry_def split: if_splits)
  then show ?case using Cons by fastforce
qed simp

lemma purge_same_instant:
  assumes "\<And>e. e \<in> set m \<Longrightarrow> cached_at (snd e) = now" and "0 < ttl"
  shows "purge_map cached_at cap ttl now m = m"
proof -
  have times: "map (\<lambda>e. cached_at (snd e)) m = replicate (length m) now"
    using assms(1) by (simp add: map_replicate_const [symmetric] cong: map_cong)
  have "sort (replicate k now) = replicate k now" for k by (rule sorted_sort_id) (simp add: sorted_replicate)
  then have "drop_oldest_half cached_at m = m"
    using assms(1) by (auto simp: drop_oldest_half_def Let_def times simp del: map_map intro!: filter_True)
  moreover have "filter (\<lambda>e. now - cached_at (snd e) < ttl) m = m" using assms by (auto intro!: filter_True)
  ultimately show ?thesis by (simp add: purge_map_def Let_def)
qed

definition numbered :: "nat \<Rightarrow> file_entry" where
  "numbered i =
     \<lparr>fe_name = show_nat i, fe_path = CHR ''/'' # show_nat i, fe_type = File, fe_size = 0, modified_at = None,
      created_at = None, fe_permissions = default_permissions, is_hidden = False\<rparr>"

lemma numbered_path: "catalog_path (fe_path (numbered i)) = CHR ''/'' # show_nat i"
proof -
  have "\<not> CHR ''/'' = c" if "c \<in> set (show_nat i)" for c
    using set_show_nat [OF that] by (auto simp: is_ascii_digit_def Let_def code_def)
  then have "dropWhile (\<lambda>c. c = CHR ''/'') (rev (show_nat i) @ [CHR ''/'']) = rev (show_nat i) @ [CHR ''/'']"
    by (cases "rev (show_nat i)") (auto simp: hd_in_set dropWhile_append1)
  then show ?thesis by (simp add: catalog_path_def Let_def numbered_def trim_end_matches_def)
qed

lemma numbered_inj: "numbered i = numbered j \<longleftrightarrow> i = j" "show_nat i = show_nat j \<longleftrightarrow> i = j"
  by (metis decimal_value_show_nat file_entry.select_convs(1) numbered_def)+

text \<open>
  The cap on the remembered entries does not hold: the entries of one listing all carry the same
  instant, so the purge that is to drop the older half finds none older and drops nothing.
\<close>

theorem big_listing_over_cap:
  "length (dc_entry_cache (put_catalog sid p (map numbered [0..<MAX_CATALOG_ITEMS + 1]) now
     (new_cache base n fs io us r a m))) = MAX_CATALOG_ITEMS + 1"
proof -
  let ?es = "map numbered [0..<MAX_CATALOG_ITEMS + 1]"
  let ?m = "fold (put_entry sid now) ?es []"
  have inj: "inj_on (\<lambda>e. catalog_key sid (fe_path e)) (set ?es)"
    by (auto simp: inj_on_def catalog_key_def numbered_path numbered_inj)
  have "distinct (map fst ?m) \<and> fst ` set ?m = (\<lambda>e. catalog_key sid (fe_path e)) ` set ?es"
    using fold_put_entry [of "[]" sid now ?es] by simp
  then have "length ?m = card ((\<lambda>e. catalog_key sid (fe_path e)) ` set ?es)"
    by (metis distinct_card length_map set_map)
  also have "\<dots> = card (numbered ` {0..<MAX_CATALOG_ITEMS + 1})" using card_image [OF inj] by (simp only: set_map set_upt)
  also have "\<dots> = MAX_CATALOG_ITEMS + 1"
    by (subst card_image) (auto simp: inj_on_def numbered_inj)
  finally have len: "length ?m = MAX_CATALOG_ITEMS + 1" .
  have "purge_map em_cached_at MAX_CATALOG_ITEMS 300000000000 now ?m = ?m"
    by (rule purge_same_instant) (use fold_put_entry_times [of _ sid now ?es "[]"] in \<open>simp_all only: list.set empty_iff simp_thms zero_less_numeral\<close>)
  then show ?thesis using len
    by (simp add: put_catalog_def maybe_purge_catalogs_def new_cache_def Let_def purge_expired_catalogs_def catalog_ttl_def
        CATALOG_PURGE_INTERVAL_def)
qed

text \<open>A disk with one cached file of three bytes, and one with the folder of the cache only.\<close>

definition one_file :: cache where
  "one_file = new_cache [''c''] 100 [([''c''], Dir_Node), ([''c'', ''x''], File_Node [1, 2, 3])] [] []
     (\<lambda>_. True) (\<lambda>_. 0) (\<lambda>_. 0)"

definition no_file :: cache where
  "no_file = new_cache [''c''] 100 [([''c''], Dir_Node)] [] [''u'', ''v''] (\<lambda>_. True) (\<lambda>_. 0) (\<lambda>_. 0)"

lemma quota_enforced_witness:
  "ci_uses (dc_index (snd (ensure_index_loaded one_file))) = [([''c'', ''x''], 3)] \<and>
   bytes_on_disk (snd (set_max_size 2 one_file)) \<le> 2"
proof
  show uses: "ci_uses (dc_index (snd (ensure_index_loaded one_file))) = [([''c'', ''x''], 3)]" by code_simp
  have c: "one_file = fold (cache_step demo_sha (\<lambda>_. [])) [] (new_cache [''c''] 100
      [([''c''], Dir_Node), ([''c'', ''x''], File_Node [1, 2, 3])] [] [] (\<lambda>_. True) (\<lambda>_. 0) (\<lambda>_. 0))"
    by (simp add: one_file_def)
  have io: "dc_io one_file = []" "\<not> ci_loaded (dc_index one_file)" by code_simp+
  have files: "list_all (\<lambda>u. node_at (dc_fs one_file) (fst u) \<noteq> Some Dir_Node) (ci_uses (dc_index (snd (ensure_index_loaded one_file))))"
    unfolding uses by code_simp
  have run: "set_max_size 2 one_file = ((), snd (set_max_size 2 one_file))" by (metis old.unit.exhaust prod.collapse)
  show "bytes_on_disk (snd (set_max_size 2 one_file)) \<le> 2"
    using quota_enforced [OF c io(1) refl files run] io(2) by blast
qed

lemma stored_content_served_witness:
  "fst (get_file_content demo_sha ''s'' ''/a.txt''
     ((snd (put_file_content demo_sha (\<lambda>_. []) ''s'' ''/a.txt'' [1, 2] no_file))\<lparr>dc_io := []\<rparr>)) = Some [1, 2]"
proof -
  let ?r = "put_file_content demo_sha (\<lambda>_. []) ''s'' ''/a.txt'' [1, 2] (fold (cache_step demo_sha (\<lambda>_. [])) []
    (new_cache [''c''] 100 [([''c''], Dir_Node)] [] [''u'', ''v''] (\<lambda>_. True) (\<lambda>_. 0) (\<lambda>_. 0)))"
  have "fst ?r = Inr ()" by code_simp
  then have run: "?r = (Inr (), snd ?r)" by (metis prod.collapse)
  have small: "length [1, 2 :: byte] \<le> dc_max_bytes (fold (cache_step demo_sha (\<lambda>_. [])) []
    (new_cache [''c''] 100 [([''c''], Dir_Node)] [] [''u'', ''v''] (\<lambda>_. True) (\<lambda>_. 0) (\<lambda>_. 0))) div LARGE_FILE_DIVISOR"
    by (simp add: new_cache_def LARGE_FILE_DIVISOR_def)
  from stored_content_served [OF run small] show ?thesis by (simp add: no_file_def)
qed

end
