(* ===== verification/SmartActions.thy ===== *)
theory SmartActions
  imports CoreTypes Complex_Main "HOL-Library.AList"
begin

section \<open>Smart actions\<close>

text \<open>
  Models \<open>crates/rustscp-actions/src/schema.rs\<close> and \<open>executor.rs\<close>: forms with fields, and the
  shell command their values make of a template. The regex crate and the reading of a floating
  point number are parameters, collected in \<open>matchers\<close>: what the two expressions of the executor
  capture, whether a value matches a pattern (or why the pattern is wrong), and numbers.
\<close>

subsection \<open>Actions\<close>

record localized_text =
  en_us :: string
  pt_br :: string

definition localized :: "string \<Rightarrow> string \<Rightarrow> localized_text" where
  "localized en pt = \<lparr>en_us = en, pt_br = pt\<rparr>"

definition localized_get :: "string \<Rightarrow> localized_text \<Rightarrow> string" where
  "localized_get lang t = (if starts_with lang ''pt'' then pt_br t else en_us t)"

datatype risk_level = Risk_Safe | Risk_Warning | Risk_Dangerous

datatype action_scope = Scope_Global | Scope_Selected_Files | Scope_Selected_Dir | Scope_Any

record select_option =
  so_value :: string
  so_label :: localized_text
  so_is_default :: bool

text \<open>A floating point number: a finite one has a rational value.\<close>

datatype f64 = Finite rat | Infinite | Not_A_Number

datatype field_type = Field_Text | Field_Number "rat option" "rat option" "rat option"
  | Field_Select "select_option list" | Field_Checkbox | Field_Path_Picker

record action_field =
  af_id :: string
  af_type :: field_type
  af_label :: localized_text
  af_description :: "localized_text option"
  af_default :: "string option"
  af_required :: bool
  af_validation :: "string option"
  af_risk_warning :: bool

record action_definition =
  ac_id :: string
  ac_category :: string
  ac_icon :: string
  ac_risk :: risk_level
  ac_scope :: action_scope
  ac_name :: localized_text
  ac_description :: localized_text
  ac_fields :: "action_field list"
  ac_template :: string

datatype action_error = Missing_Required_Field string | Regex_Mismatch string string string | Invalid_Option string string
  | Missing_Context string | Template_Error string | Invalid_Number string string | Out_Of_Range string string string

fun action_error_text :: "action_error \<Rightarrow> string" where
  "action_error_text (Missing_Required_Field f) = ''Missing required field: '' @ f"
| "action_error_text (Regex_Mismatch f v p) =
     ''Validation failed for field '' @ quote f @ '': value '' @ quote v @ '' does not match pattern '' @ quote p"
| "action_error_text (Invalid_Option v f) = ''Invalid option '' @ quote v @ '' for field '' @ quote f"
| "action_error_text (Missing_Context m) = ''Missing context: '' @ m"
| "action_error_text (Template_Error m) = ''Template syntax error: '' @ m"
| "action_error_text (Invalid_Number f v) = ''Invalid number '' @ quote v @ '' for field '' @ quote f"
| "action_error_text (Out_Of_Range f v r) =
     ''Value '' @ v @ '' for field '' @ quote f @ '' is outside the allowed range '' @ r"

subsection \<open>What the crates find\<close>

text \<open>A match of the token expression: where it is, and the group that took part.\<close>

datatype token = Context_Var string | Field_Ref string | Tag string

record token_match =
  tm_start :: nat
  tm_end :: nat
  tm_token :: token

text \<open>The groups of the condition expression.\<close>

record cond_match =
  cm_not :: bool
  cm_id :: string
  cm_op :: "string option"
  cm_single :: "string option"
  cm_double :: "string option"
  cm_word :: "string option"

record matchers =
  mx_tokens :: "string \<Rightarrow> token_match list"
  mx_cond :: "string \<Rightarrow> cond_match option"
  mx_is_match :: "string \<Rightarrow> string \<Rightarrow> string + bool"
  mx_parse_f64 :: "string \<Rightarrow> f64 option"
  mx_show_f64 :: "rat \<Rightarrow> string"

subsection \<open>The context\<close>

record action_context =
  cx_selected_paths :: "string list"
  cx_current_remote_dir :: string

definition path_sep :: "char \<Rightarrow> bool" where
  "path_sep c = (c = CHR ''/'' \<or> c = CHR 0x5C)"

definition base_name :: "string \<Rightarrow> string" where
  "base_name p =
     (let trimmed = trim_end_matches path_sep p; piece = last (split_on path_sep trimmed) in
      if piece \<noteq> [] then piece else trimmed)"

definition split_ext :: "string \<Rightarrow> string \<times> string" where
  "split_ext name =
     (case rsplit_once (CHR ''.'') name of
        Some (stem, ext) \<Rightarrow> if stem \<noteq> [] then (stem, ext) else (name, [])
      | None \<Rightarrow> (name, []))"

definition first_selected_name :: "action_context \<Rightarrow> string" where
  "first_selected_name ctx =
     (case cx_selected_paths ctx of
        [] \<Rightarrow> ''item''
      | p # _ \<Rightarrow> if base_name p \<noteq> [] then base_name p else ''item'')"

definition quoted_files :: "action_context \<Rightarrow> string" where
  "quoted_files ctx =
     (if cx_selected_paths ctx = [] then [CHR 0x22, CHR 0x22]
      else join '' '' (map sh_quote (cx_selected_paths ctx)))"

definition raw_var :: "action_context \<Rightarrow> string \<Rightarrow> string option" where
  "raw_var ctx name =
     (let first = (case cx_selected_paths ctx of [] \<Rightarrow> [] | p # _ \<Rightarrow> p);
          first_name = first_selected_name ctx;
          (stem, ext) = split_ext first_name
      in if name = ''selected_dir'' \<or> name = ''current_dir'' then Some (cx_current_remote_dir ctx)
         else if name = ''selected_file'' then Some first
         else if name = ''selected_first_name'' \<or> name = ''selected_name'' then Some first_name
         else if name = ''selected_stem'' then Some stem
         else if name = ''selected_ext'' then Some ext
         else None)"

definition needs_selection :: "string \<Rightarrow> bool" where
  "needs_selection name =
     (name \<in> set [''selected_files'', ''selected_names'', ''selected_file'', ''selected_first_name'', ''selected_name'',
        ''selected_stem'', ''selected_ext''])"

definition quoted_var :: "action_context \<Rightarrow> string \<Rightarrow> action_error + string option" where
  "quoted_var ctx name =
     (if needs_selection name \<and> cx_selected_paths ctx = []
      then Inl (Missing_Context (''this action needs selected files (${'' @ name @ ''})''))
      else if name = ''selected_files'' then Inr (Some (quoted_files ctx))
      else if name = ''selected_names''
      then Inr (Some (join '' '' (map (\<lambda>p. sh_quote (base_name p)) (cx_selected_paths ctx))))
      else Inr (map_option sh_quote (raw_var ctx name)))"

definition bare_char :: "char \<Rightarrow> bool" where
  "bare_char c = (is_ascii_alphanumeric c \<or> c \<in> set ''-_.,:=+@%/'')"

definition quote_if_needed :: "string \<Rightarrow> string" where
  "quote_if_needed raw = (if raw \<noteq> [] \<and> list_all bare_char raw then raw else sh_quote raw)"

definition is_truthy :: "string \<Rightarrow> bool" where
  "is_truthy v = (\<not> (v = [] \<or> v = ''false'' \<or> v = ''0''))"

text \<open>A text_slice of a text.\<close>

definition text_slice :: "string \<Rightarrow> nat \<Rightarrow> nat \<Rightarrow> string" where
  "text_slice s i j = take (j - i) (drop i s)"

fun expand_from :: "matchers \<Rightarrow> action_context \<Rightarrow> string \<Rightarrow> token_match list \<Rightarrow> nat \<Rightarrow> string \<Rightarrow> string" where
  "expand_from mx ctx s [] last_end out = out @ drop last_end s"
| "expand_from mx ctx s (m # ms) last_end out =
     (let replacement = (case tm_token m of Context_Var name \<Rightarrow> raw_var ctx name | _ \<Rightarrow> None);
          text = (case replacement of Some v \<Rightarrow> v | None \<Rightarrow> text_slice s (tm_start m) (tm_end m))
      in expand_from mx ctx s ms (tm_end m) (out @ text_slice s last_end (tm_start m) @ text))"

definition expand_default :: "matchers \<Rightarrow> string \<Rightarrow> action_context \<Rightarrow> string" where
  "expand_default mx s ctx = expand_from mx ctx s (mx_tokens mx s) 0 []"

subsection \<open>Checking values\<close>

definition below_min :: "f64 \<Rightarrow> rat option \<Rightarrow> bool" where
  "below_min n bound = (case (n, bound) of (Finite x, Some b) \<Rightarrow> x < b | _ \<Rightarrow> False)"

definition above_max :: "f64 \<Rightarrow> rat option \<Rightarrow> bool" where
  "above_max n bound = (case (n, bound) of (Finite x, Some b) \<Rightarrow> x > b | _ \<Rightarrow> False)"

definition validate_type :: "matchers \<Rightarrow> action_field \<Rightarrow> string \<Rightarrow> action_error + unit" where
  "validate_type mx field val =
     (case af_type field of
        Field_Select options \<Rightarrow>
          if \<not> list_ex (\<lambda>opt. so_value opt = val) options then Inl (Invalid_Option val (af_id field)) else Inr ()
      | Field_Number lo hi step \<Rightarrow>
          (case mx_parse_f64 mx val of
             None \<Rightarrow> Inl (Invalid_Number (af_id field) val)
           | Some n \<Rightarrow>
               if (case n of Finite x \<Rightarrow> False | _ \<Rightarrow> True) \<or> below_min n lo \<or> above_max n hi
               then Inl (Out_Of_Range (af_id field) val
                 ((case lo of Some b \<Rightarrow> mx_show_f64 mx b | None \<Rightarrow> []) @ ''..'' @ (case hi of Some b \<Rightarrow> mx_show_f64 mx b | None \<Rightarrow> [])))
               else Inr ())
      | _ \<Rightarrow> Inr ())"

definition validate_value :: "matchers \<Rightarrow> action_field \<Rightarrow> string \<Rightarrow> action_error + unit" where
  "validate_value mx field val =
     (if val = [] then Inr ()
      else case af_validation field of
          None \<Rightarrow> validate_type mx field val
        | Some pattern \<Rightarrow>
            (case mx_is_match mx pattern val of
               Inl e \<Rightarrow> Inl (Template_Error e)
             | Inr b \<Rightarrow> if \<not> b then Inl (Regex_Mismatch (af_id field) val pattern) else validate_type mx field val))"

fun validate_params_from :: "matchers \<Rightarrow> action_field list \<Rightarrow> (string \<times> string) list \<Rightarrow> action_error + unit" where
  "validate_params_from mx [] params = Inr ()"
| "validate_params_from mx (field # fs) params =
     (let val_opt = map_option trim (map_of params (af_id field)) in
      if af_required field \<and> (val_opt = None \<or> val_opt = Some []) then Inl (Missing_Required_Field (af_id field))
      else case val_opt of
          None \<Rightarrow> validate_params_from mx fs params
        | Some val \<Rightarrow> (case validate_value mx field val of
              Inl e \<Rightarrow> Inl e
            | Inr _ \<Rightarrow> validate_params_from mx fs params))"

definition validate_params :: "matchers \<Rightarrow> action_definition \<Rightarrow> (string \<times> string) list \<Rightarrow> action_error + unit" where
  "validate_params mx action params = validate_params_from mx (ac_fields action) params"

definition checkbox_value :: "action_field \<Rightarrow> string \<Rightarrow> string" where
  "checkbox_value field val =
     (if af_type field = Field_Checkbox then (if val = ''true'' \<or> val = ''1'' then ''true'' else ''false'') else val)"

definition effective_value :: "matchers \<Rightarrow> action_field \<Rightarrow> action_context \<Rightarrow> (string \<times> string) list \<Rightarrow> action_error + string" where
  "effective_value mx field ctx params =
     (let v = (case map_of params (af_id field) of
                 Some p \<Rightarrow> trim p
               | None \<Rightarrow> (case af_default field of Some d \<Rightarrow> trim (expand_default mx d ctx) | None \<Rightarrow> []))
      in if af_required field \<and> v = [] then Inl (Missing_Required_Field (af_id field))
         else case validate_value mx field v of
             Inl e \<Rightarrow> Inl e
           | Inr _ \<Rightarrow> Inr (checkbox_value field v))"

fun effective_from ::
  "matchers \<Rightarrow> action_field list \<Rightarrow> action_context \<Rightarrow> (string \<times> string) list \<Rightarrow> (string \<times> string) list \<Rightarrow> action_error + (string \<times> string) list" where
  "effective_from mx [] ctx params values = Inr values"
| "effective_from mx (field # fs) ctx params values =
     (case effective_value mx field ctx params of
        Inl e \<Rightarrow> Inl e
      | Inr v \<Rightarrow> effective_from mx fs ctx params (AList.update (af_id field) v values))"

definition effective_values ::
  "matchers \<Rightarrow> action_definition \<Rightarrow> action_context \<Rightarrow> (string \<times> string) list \<Rightarrow> action_error + (string \<times> string) list" where
  "effective_values mx action ctx params = effective_from mx (ac_fields action) ctx params []"

subsection \<open>Rendering\<close>

definition render_field :: "action_field \<Rightarrow> string \<Rightarrow> string" where
  "render_field field val =
     (case af_type field of
        Field_Text \<Rightarrow> sh_quote val
      | Field_Path_Picker \<Rightarrow> sh_quote val
      | Field_Number lo hi step \<Rightarrow> filter (\<lambda>c. is_ascii_digit c \<or> c = CHR ''.'' \<or> c = CHR ''-'') val
      | Field_Select options \<Rightarrow> quote_if_needed val
      | Field_Checkbox \<Rightarrow> val)"

text \<open>The fields by id; a later field replaces an earlier one with the same id.\<close>

definition field_of :: "action_definition \<Rightarrow> string \<Rightarrow> action_field option" where
  "field_of action i = map_of (rev (map (\<lambda>f. (af_id f, f)) (ac_fields action))) i"

definition value_of :: "(string \<times> string) list \<Rightarrow> string \<Rightarrow> string" where
  "value_of values i = (case map_of values i of Some v \<Rightarrow> v | None \<Rightarrow> [])"

definition condition_holds :: "(string \<times> string) list \<Rightarrow> cond_match \<Rightarrow> bool" where
  "condition_holds values c =
     (let val = value_of values (cm_id c);
          result = (case cm_op c of
              Some op \<Rightarrow>
                let rhs = (case cm_single c of Some s \<Rightarrow> s
                  | None \<Rightarrow> (case cm_double c of Some s \<Rightarrow> s
                      | None \<Rightarrow> (case cm_word c of Some s \<Rightarrow> s | None \<Rightarrow> [])))
                in if op = ''=='' then val = rhs else val \<noteq> rhs
            | None \<Rightarrow> is_truthy val)
      in if cm_not c then \<not> result else result)"

text \<open>The stack of open conditionals, the innermost in front: whether the branch is active, and whether
  a branch of the conditional was taken.\<close>

type_synonym branches = "(bool \<times> bool) list"

definition active :: "branches \<Rightarrow> bool" where
  "active stack = list_all fst stack"

definition run_tag :: "matchers \<Rightarrow> (string \<times> string) list \<Rightarrow> string \<Rightarrow> branches \<Rightarrow> action_error + branches" where
  "run_tag mx values stmt0 stack =
     (let stmt = trim stmt0 in
      if stmt = ''endif''
      then (case stack of [] \<Rightarrow> Inl (Template_Error ''unexpected {% endif %}'') | _ # rest \<Rightarrow> Inr rest)
      else if stmt = ''else''
      then (case stack of [] \<Rightarrow> Inl (Template_Error ''unexpected {% else %}'')
            | (_, taken) # rest \<Rightarrow> Inr ((\<not> taken, True) # rest))
      else case mx_cond mx stmt of
          Some c \<Rightarrow> let result = condition_holds values c in Inr ((result, result) # stack)
        | None \<Rightarrow> Inl (Template_Error (''unsupported tag {% '' @ stmt @ '' %}'')))"

definition field_text :: "action_definition \<Rightarrow> (string \<times> string) list \<Rightarrow> string \<Rightarrow> string \<Rightarrow> string" where
  "field_text action values whole i =
     (case field_of action i of Some field \<Rightarrow> render_field field (value_of values i) | None \<Rightarrow> whole)"

fun render_from ::
  "matchers \<Rightarrow> action_definition \<Rightarrow> action_context \<Rightarrow> (string \<times> string) list \<Rightarrow> token_match list
   \<Rightarrow> nat \<Rightarrow> branches \<Rightarrow> string \<Rightarrow> action_error + string" where
  "render_from mx action ctx values [] last_end stack out =
     (if stack \<noteq> [] then Inl (Template_Error ''missing {% endif %}'')
      else Inr (trim (out @ drop last_end (ac_template action))))"
| "render_from mx action ctx values (m # ms) last_end stack out =
     (let template = ac_template action;
          out' = (if active stack then out @ text_slice template last_end (tm_start m) else out);
          whole = text_slice template (tm_start m) (tm_end m)
      in case tm_token m of
          Context_Var name \<Rightarrow>
            if \<not> active stack then render_from mx action ctx values ms (tm_end m) stack out'
            else (case quoted_var ctx name of
                Inl e \<Rightarrow> Inl e
              | Inr r \<Rightarrow> render_from mx action ctx values ms (tm_end m) stack
                           (out' @ (case r of Some v \<Rightarrow> v | None \<Rightarrow> whole)))
        | Field_Ref i \<Rightarrow>
            if \<not> active stack then render_from mx action ctx values ms (tm_end m) stack out'
            else render_from mx action ctx values ms (tm_end m) stack (out' @ field_text action values whole i)
        | Tag stmt \<Rightarrow>
            (case run_tag mx values stmt stack of
               Inl e \<Rightarrow> Inl e
             | Inr stack' \<Rightarrow> render_from mx action ctx values ms (tm_end m) stack' out'))"

definition render_command ::
  "matchers \<Rightarrow> action_definition \<Rightarrow> action_context \<Rightarrow> (string \<times> string) list \<Rightarrow> action_error + string" where
  "render_command mx action ctx params =
     (if ac_scope action = Scope_Selected_Files \<and> cx_selected_paths ctx = []
      then Inl (Missing_Context ''select at least one file for this action'')
      else case effective_values mx action ctx params of
          Inl e \<Rightarrow> Inl e
        | Inr values \<Rightarrow> render_from mx action ctx values (mx_tokens mx (ac_template action)) 0 [] [])"

end
