(* ===== verification/ActionCatalog.thy ===== *)
theory ActionCatalog
  imports SmartActions
begin

section \<open>The built-in actions\<close>

text \<open>
  The data of \<open>crates/rustscp-actions/src/catalog.rs\<close>: the forms and templates of the actions
  RustSCP comes with, one definition each, texts outside ASCII by their character codes.
\<close>

definition tar_compress_action :: action_definition where
  "tar_compress_action =
   \<lparr>ac_id = ''tar-compress'', ac_category = ''compression'', ac_icon = ''file-archive'',
      ac_risk = Risk_Safe, ac_scope = Scope_Selected_Files,
    ac_name = (localized ''Compress with Tar/Gzip'' ''Compactar com Tar/Gzip''),
    ac_description = (localized ''Compress selected files into a .tar.gz archive''
      ''Compacta os arquivos selecionados em um arquivo .tar.gz''),
    ac_fields = [\<lparr>af_id = ''archive_name'', af_type = Field_Text,
      af_label = (localized ''Archive Name'' ''Nome do Arquivo''), af_description = (Some
      (localized ''Output filename ending in .tar.gz'' ''Nome do arquivo final terminando em .tar.gz'')),
      af_default = (Some ''${selected_first_name}.tar.gz''), af_required = True,
      af_validation = (Some (''^[a-zA-Z0-9_'' @ [CHR 0x5C] @ ''-'' @ [CHR 0x5C] @ ''.]+'' @ [CHR 0x5C] @ ''.tar'' @
      [CHR 0x5C] @ ''.gz$'')), af_risk_warning = False\<rparr>,
     \<lparr>af_id = ''compression_level'', af_type = (Field_Select [\<lparr>so_value = ''-1'',
      so_label = (localized ''Fast (1)'' (''R'' @ [CHR 0xE1] @ ''pido (1)'')), so_is_default = False\<rparr>,
      \<lparr>so_value = ''-6'', so_label = (localized ''Balanced (6)'' ''Equilibrado (6)''),
      so_is_default = True\<rparr>, \<lparr>so_value = ''-9'', so_label = (localized ''Maximum (9)'' (''M'' @
      [CHR 0xE1] @ ''ximo (9)'')), so_is_default = False\<rparr>]),
      af_label = (localized ''Compression Level'' (''N'' @ [CHR 0xED] @ ''vel de Compress'' @ [CHR 0xE3] @ ''o'')),
      af_description = None,
      af_default = (Some ''-6''), af_required = True, af_validation = None, af_risk_warning = False\<rparr>],
    ac_template = (''cd ${selected_dir} && for f in ${selected_files}; do printf '' @ [CHR 0x27] @ ''%s'' @
      [CHR 0x5C] @ ''n'' @ [CHR 0x27] @ '' '' @ [CHR 0x22] @ ''./${f##*/}'' @ [CHR 0x22] @
      ''; done | tar -cf - -T - | gzip {{compression_level}} > {{archive_name}}'')\<rparr>"

definition tar_extract_action :: action_definition where
  "tar_extract_action =
   \<lparr>ac_id = ''tar-extract'', ac_category = ''compression'', ac_icon = ''folder-open'',
      ac_risk = Risk_Warning, ac_scope = Scope_Selected_Files,
    ac_name = (localized ''Extract Archive'' ''Descompactar Arquivo''),
    ac_description = (localized
      ''Extract tar.gz, tar.bz2, tar.xz, tar or zip archives'' (''Extrai arquivos compactados no diret'' @
      [CHR 0xF3] @ ''rio atual ou selecionado'')),
    ac_fields = [\<lparr>af_id = ''dest_dir'', af_type = Field_Text,
      af_label = (localized ''Extract to Directory'' ''Extrair para a Pasta''), af_description = (Some
      (localized ''Leave . for current folder'' ''Deixe . para pasta atual'')),
      af_default = (Some ''.''), af_required = True, af_validation = None, af_risk_warning = False\<rparr>],
    ac_template = (''cd ${selected_dir} && for f in ${selected_files}; do case '' @ [CHR 0x22] @ ''$f'' @
      [CHR 0x22] @ '' in *.zip|*.ZIP) unzip -o '' @ [CHR 0x22] @ ''$f'' @ [CHR 0x22] @
      '' -d {{dest_dir}} ;; *) tar -xf '' @ [CHR 0x22] @ ''$f'' @ [CHR 0x22] @
      '' -C {{dest_dir}} ;; esac; done'')\<rparr>"

definition disk_usage_action :: action_definition where
  "disk_usage_action =
   \<lparr>ac_id = ''disk-usage'', ac_category = ''system'', ac_icon = ''hard-drive'', ac_risk = Risk_Safe,
      ac_scope = Scope_Any,
    ac_name = (localized ''Analyze Disk Usage'' ''Analisar Uso de Disco''),
    ac_description = (localized ''Show largest folders and files in current directory'' (''Exibe as maiores pastas e arquivos no diret'' @ [CHR 0xF3] @ ''rio atual'')),
    ac_fields = [\<lparr>af_id = ''limit'', af_type = (Field_Number (Some 5) (Some 50) (Some 5)),
      af_label = (localized ''Number of items'' (''N'' @ [CHR 0xFA] @ ''mero de itens'')), af_description = None,
      af_default = (Some ''15''), af_required = True, af_validation = None, af_risk_warning = False\<rparr>],
    ac_template = ''cd ${selected_dir} && du -sh -- * 2>/dev/null | sort -hr | head -n {{limit}}''\<rparr>"

definition find_files_action :: action_definition where
  "find_files_action =
   \<lparr>ac_id = ''find-files'', ac_category = ''search'', ac_icon = ''search'', ac_risk = Risk_Safe,
      ac_scope = Scope_Any,
    ac_name = (localized ''Search Files (Find)'' ''Buscar Arquivos (Find)''),
    ac_description = (localized ''Locate files by name, extension or pattern''
      (''Localiza arquivos por nome, extens'' @ [CHR 0xE3] @ ''o ou padr'' @ [CHR 0xE3] @ ''o'')),
    ac_fields = [\<lparr>af_id = ''pattern'', af_type = Field_Text,
      af_label = (localized ''File Pattern (e.g. *.log, *.conf)'' (''Padr'' @ [CHR 0xE3] @
      ''o de Nome (ex: *.log, *.conf)'')), af_description = None,
      af_default = (Some ''*.*''), af_required = True, af_validation = None, af_risk_warning = False\<rparr>],
    ac_template = ''cd ${selected_dir} && find . -maxdepth 4 -name {{pattern}}''\<rparr>"

definition visual_chmod_action :: action_definition where
  "visual_chmod_action =
   \<lparr>ac_id = ''visual-chmod'', ac_category = ''permissions'', ac_icon = ''shield'', ac_risk = Risk_Warning,
      ac_scope = Scope_Selected_Files,
    ac_name = (localized ''Change Permissions (chmod)'' (''Alterar Permiss'' @ [CHR 0xF5] @ ''es (chmod)'')),
    ac_description = (localized ''Set numeric octal permissions on selected items'' (''Aplica permiss'' @
      [CHR 0xF5] @ ''es num'' @ [CHR 0xE9] @ ''ricas nos itens selecionados'')),
    ac_fields = [\<lparr>af_id = ''mode'', af_type = (Field_Select [\<lparr>so_value = ''0644'',
      so_label = (localized ''Standard File (0644 - rw-r--r--)'' (''Arquivo Padr'' @ [CHR 0xE3] @
      ''o (0644 - rw-r--r--)'')), so_is_default = True\<rparr>, \<lparr>so_value = ''0755'', so_label =
      (localized ''Script / Folder (0755 - rwxr-xr-x)'' ''Script / Pasta (0755 - rwxr-xr-x)''),
      so_is_default = False\<rparr>, \<lparr>so_value = ''0600'', so_label =
      (localized ''Private / Key (0600 - rw-------)'' ''Privado / Chave (0600 - rw-------)''),
      so_is_default = False\<rparr>, \<lparr>so_value = ''0777'', so_label =
      (localized ''Full Access (0777 - rwxrwxrwx)'' ''Acesso Total (0777 - rwxrwxrwx)''),
      so_is_default = False\<rparr>]),
      af_label = (localized ''Permission Preset'' (''Predefini'' @ [CHR 0xE7] @ [CHR 0xE3] @ ''o de Permiss'' @
      [CHR 0xE3] @ ''o'')), af_description = None,
      af_default = (Some ''0644''), af_required = True, af_validation = None, af_risk_warning = False\<rparr>,
     \<lparr>af_id = ''recursive'', af_type = Field_Checkbox,
      af_label = (localized ''Apply recursively to subfolders'' ''Aplicar recursivamente em subpastas''),
      af_description = None,
      af_default = (Some ''false''), af_required = False, af_validation = None, af_risk_warning = True\<rparr>],
    ac_template = ''chmod $([ {{recursive}} = true ] && printf %s -R) {{mode}} ${selected_files}''\<rparr>"

definition systemctl_manager_action :: action_definition where
  "systemctl_manager_action =
   \<lparr>ac_id = ''systemctl-manager'', ac_category = ''sysadmin'', ac_icon = ''cpu'', ac_risk = Risk_Warning,
      ac_scope = Scope_Global,
    ac_name = (localized ''Systemd Service Manager'' (''Gerenciador de Servi'' @ [CHR 0xE7] @ ''os (systemd)'')),
    ac_description = (localized ''Check status, restart or inspect systemd units''
      (''Verifica status, reinicia ou inspeciona servi'' @ [CHR 0xE7] @ ''os systemd'')),
    ac_fields = [\<lparr>af_id = ''service'', af_type = Field_Text,
      af_label = (localized ''Service Name (e.g. nginx, docker, redis)'' (''Nome do Servi'' @ [CHR 0xE7] @
      ''o (ex: nginx, docker, redis)'')), af_description = None,
      af_default = (Some ''nginx''), af_required = True, af_validation = (Some (''^[a-zA-Z0-9_'' @ [CHR 0x5C] @
      ''-'' @ [CHR 0x5C] @ ''.]+$'')), af_risk_warning = False\<rparr>,
     \<lparr>af_id = ''subcommand'', af_type = (Field_Select [\<lparr>so_value = ''status'', so_label =
      (localized ''Check Status'' ''Verificar Status''), so_is_default = True\<rparr>,
      \<lparr>so_value = ''restart'', so_label = (localized ''Restart Service'' (''Reiniciar Servi'' @ [CHR 0xE7] @
      ''o'')), so_is_default = False\<rparr>, \<lparr>so_value = ''reload'', so_label =
      (localized ''Reload Config'' (''Recarregar Configura'' @ [CHR 0xE7] @ [CHR 0xE3] @ ''o'')),
      so_is_default = False\<rparr>]),
      af_label = (localized ''Action'' (''A'' @ [CHR 0xE7] @ [CHR 0xE3] @ ''o'')), af_description = None,
      af_default = (Some ''status''), af_required = True, af_validation = None, af_risk_warning = False\<rparr>],
    ac_template = ''systemctl {{subcommand}} {{service}}''\<rparr>"

definition docker_ps_action :: action_definition where
  "docker_ps_action =
   \<lparr>ac_id = ''docker-ps'', ac_category = ''containers'', ac_icon = ''box'', ac_risk = Risk_Safe,
      ac_scope = Scope_Global,
    ac_name = (localized ''Docker Containers Status'' ''Status de Containers Docker''),
    ac_description = (localized ''List running containers with status and ports'' (''Lista os containers em execu'' @ [CHR 0xE7] @ [CHR 0xE3] @ ''o com status e portas'')),
    ac_fields = [],
    ac_template = (''docker ps --format '' @ [CHR 0x27] @ ''table {{.Names}}'' @ [CHR 0x09] @ ''{{.Status}}'' @
      [CHR 0x09] @ ''{{.Ports}}'' @ [CHR 0x27])\<rparr>"

definition builtin_actions :: "action_definition list" where
  "builtin_actions =
     [tar_compress_action, tar_extract_action, disk_usage_action, find_files_action, visual_chmod_action,
      systemctl_manager_action, docker_ps_action]"

end
