(* ===== verification/SmartActionFacts.thy ===== *)
theory SmartActionFacts
  imports ActionCatalog
begin

section \<open>What a rendered command contains\<close>

text \<open>
  A rendered command is pieced together from slices of the template and values. Values that are
  free text are quoted: nothing in them is read by the shell as syntax, and they are not scanned for
  placeholders again.
\<close>

subsection \<open>The pieces of a command\<close>

datatype piece = Literal string | Quoted "string list" | Bare string

definition context_piece :: "action_context \<Rightarrow> string \<Rightarrow> string \<Rightarrow> piece" where
  "context_piece ctx name whole =
     (if name = ''selected_files'' then Quoted (cx_selected_paths ctx)
      else if name = ''selected_names'' then Quoted (map base_name (cx_selected_paths ctx))
      else case raw_var ctx name of Some v \<Rightarrow> Quoted [v] | None \<Rightarrow> Literal whole)"

definition field_piece :: "action_definition \<Rightarrow> (string \<times> string) list \<Rightarrow> string \<Rightarrow> string \<Rightarrow> piece" where
  "field_piece action values whole i =
     (case field_of action i of
        None \<Rightarrow> Literal whole
      | Some field \<Rightarrow> (case af_type field of
            Field_Text \<Rightarrow> Quoted [value_of values i]
          | Field_Path_Picker \<Rightarrow> Quoted [value_of values i]
          | Field_Select options \<Rightarrow>
              if value_of values i \<noteq> [] \<and> list_all bare_char (value_of values i) then Bare (value_of values i)
              else Quoted [value_of values i]
          | _ \<Rightarrow> Bare (render_field field (value_of values i))))"

fun pieces_from ::
  "matchers \<Rightarrow> action_definition \<Rightarrow> action_context \<Rightarrow> (string \<times> string) list \<Rightarrow> token_match list \<Rightarrow> nat \<Rightarrow> branches \<Rightarrow> piece list" where
  "pieces_from mx action ctx values [] last_end stack = [Literal (drop last_end (ac_template action))]"
| "pieces_from mx action ctx values (m # ms) last_end stack =
     (let template = ac_template action; whole = text_slice template (tm_start m) (tm_end m) in
      (if active stack then [Literal (text_slice template last_end (tm_start m))] else []) @
      (case tm_token m of
         Context_Var name \<Rightarrow> (if active stack then [context_piece ctx name whole] else []) @
           pieces_from mx action ctx values ms (tm_end m) stack
       | Field_Ref i \<Rightarrow> (if active stack then [field_piece action values whole i] else []) @
           pieces_from mx action ctx values ms (tm_end m) stack
       | Tag stmt \<Rightarrow> (case run_tag mx values stmt stack of
             Inl e \<Rightarrow> []
           | Inr stack' \<Rightarrow> pieces_from mx action ctx values ms (tm_end m) stack')))"

definition command_pieces :: "matchers \<Rightarrow> action_definition \<Rightarrow> action_context \<Rightarrow> (string \<times> string) list \<Rightarrow> piece list" where
  "command_pieces mx action ctx params =
     (case effective_values mx action ctx params of
        Inl e \<Rightarrow> []
      | Inr values \<Rightarrow> pieces_from mx action ctx values (mx_tokens mx (ac_template action)) 0 [])"

fun piece_text :: "piece \<Rightarrow> string" where
  "piece_text (Literal s) = s"
| "piece_text (Quoted vs) = join '' '' (map sh_quote vs)"
| "piece_text (Bare s) = s"

lemma context_text:
  assumes "quoted_var ctx name = Inr r"
  shows "piece_text (context_piece ctx name whole) = (case r of Some v \<Rightarrow> v | None \<Rightarrow> whole)"
proof -
  have "cx_selected_paths ctx \<noteq> []" if "name = ''selected_files''"
    using assms that by (auto simp: quoted_var_def needs_selection_def)
  then show ?thesis
    using assms by (auto simp: quoted_var_def context_piece_def quoted_files_def comp_def split: option.splits if_splits)
qed

lemma field_piece_text: "piece_text (field_piece action values whole i) = field_text action values whole i"
  by (auto simp: field_piece_def field_text_def render_field_def quote_if_needed_def split: option.split field_type.split)

lemma render_from_pieces:
  "render_from mx action ctx values ms last_end stack out = Inr cmd \<Longrightarrow>
   cmd = trim (out @ concat (map piece_text (pieces_from mx action ctx values ms last_end stack)))"
proof (induction ms arbitrary: last_end stack out)
  case (Cons m ms)
  show ?case
  proof (cases "tm_token m")
    case (Context_Var name)
    show ?thesis
    proof (cases "active stack")
      case True
      then obtain r where r: "quoted_var ctx name = Inr r" using Cons.prems Context_Var by (auto simp: Let_def split: sum.splits)
      have "render_from mx action ctx values ms (tm_end m) stack
          (out @ text_slice (ac_template action) last_end (tm_start m) @
           piece_text (context_piece ctx name (text_slice (ac_template action) (tm_start m) (tm_end m)))) = Inr cmd"
        using Cons.prems Context_Var True r by (simp add: Let_def context_text [OF r])
      from Cons.IH [OF this] show ?thesis using Context_Var True by (simp add: Let_def)
    qed (use Cons.prems Cons.IH Context_Var in simp)
  next
    case (Field_Ref i)
    show ?thesis
    proof (cases "active stack")
      case True
      have "render_from mx action ctx values ms (tm_end m) stack
          (out @ text_slice (ac_template action) last_end (tm_start m) @
           piece_text (field_piece action values (text_slice (ac_template action) (tm_start m) (tm_end m)) i)) = Inr cmd"
        using Cons.prems Field_Ref True by (simp add: Let_def field_piece_text)
      from Cons.IH [OF this] show ?thesis using Field_Ref True by (simp add: Let_def)
    qed (use Cons.prems Cons.IH Field_Ref in simp)
  next
    case (Tag stmt)
    then obtain stack' where r: "run_tag mx values stmt stack = Inr stack'"
      using Cons.prems by (auto simp: Let_def split: sum.splits)
    have "render_from mx action ctx values ms (tm_end m) stack'
        (if active stack then out @ text_slice (ac_template action) last_end (tm_start m) else out) = Inr cmd"
      using Cons.prems Tag r by (simp add: Let_def)
    from Cons.IH [OF this] show ?thesis using Tag r by (simp add: Let_def)
  qed
qed (auto split: if_splits)

lemma render_command_pieces:
  "render_command mx action ctx params = Inr cmd \<Longrightarrow> cmd = trim (concat (map piece_text (command_pieces mx action ctx params)))"
  using render_from_pieces [of mx action ctx _ "mx_tokens mx (ac_template action)" 0 "[]" "[]"]
  by (auto simp: render_command_def command_pieces_def split: if_splits sum.splits)

subsection \<open>What a shell sees as syntax\<close>

text \<open>
  Quoting as a POSIX shell reads it: outside quotes every character may be syntax, except one after a
  backslash; between double quotes some still are; between single quotes none is. The characters of
  the first two kinds are kept.
\<close>

datatype quoting = Outside | Escaped | In_Single | In_Double | In_Double_Escaped

fun quoting_step :: "quoting \<Rightarrow> char \<Rightarrow> quoting" where
  "quoting_step Outside c =
     (if c = CHR 0x27 then In_Single else if c = CHR 0x22 then In_Double else if c = CHR 0x5C then Escaped else Outside)"
| "quoting_step Escaped c = Outside"
| "quoting_step In_Single c = (if c = CHR 0x27 then Outside else In_Single)"
| "quoting_step In_Double c =
     (if c = CHR 0x22 then Outside else if c = CHR 0x5C then In_Double_Escaped else In_Double)"
| "quoting_step In_Double_Escaped c = In_Double"

definition seen_char :: "quoting \<Rightarrow> char \<Rightarrow> bool" where
  "seen_char q c = (q = Outside \<and> c \<noteq> CHR 0x27 \<and> c \<noteq> CHR 0x5C \<or> q = In_Double)"

fun syntax_of :: "quoting \<Rightarrow> string \<Rightarrow> string" where
  "syntax_of q [] = []"
| "syntax_of q (c # cs) = (if seen_char q c then [c] else []) @ syntax_of (quoting_step q c) cs"

definition quoting_after :: "quoting \<Rightarrow> string \<Rightarrow> quoting" where
  "quoting_after q s = foldl quoting_step q s"

lemma quoting_after_simps [simp]:
  "quoting_after q [] = q" "quoting_after q (c # s) = quoting_after (quoting_step q c) s"
  "quoting_after q (s @ t) = quoting_after (quoting_after q s) t"
  by (simp_all add: quoting_after_def)

lemma syntax_of_append: "syntax_of q (s @ t) = syntax_of q s @ syntax_of (quoting_after q s) t"
  by (induction s arbitrary: q) simp_all

lemma body_hidden:
  "syntax_of In_Single (sh_quote_body v) = [] \<and> quoting_after In_Single (sh_quote_body v) = In_Single"
  by (induction v) (simp_all add: syntax_of_append seen_char_def)

lemma quote_hidden: "syntax_of Outside (sh_quote v) = []" "quoting_after Outside (sh_quote v) = Outside"
  using body_hidden [of v] by (simp_all add: sh_quote_def syntax_of_append seen_char_def)

lemma quotes_hidden:
  "syntax_of Outside (join '' '' (map sh_quote vs)) = replicate (length vs - 1) CHR '' '' \<and>
   quoting_after Outside (join '' '' (map sh_quote vs)) = Outside"
  by (induction vs rule: induct_list012) (simp_all add: syntax_of_append quote_hidden seen_char_def)

text \<open>A command without the free-text values: blanks stay between several of them.\<close>

fun blanked :: "piece \<Rightarrow> string" where
  "blanked (Literal s) = s"
| "blanked (Quoted vs) = replicate (length vs - 1) CHR '' ''"
| "blanked (Bare s) = s"

text \<open>The template has its free-text values outside quotes.\<close>

fun stand_outside :: "quoting \<Rightarrow> piece list \<Rightarrow> bool" where
  "stand_outside q [] = True"
| "stand_outside q (p # ps) =
     ((case p of Quoted vs \<Rightarrow> q = Outside | _ \<Rightarrow> True) \<and> stand_outside (quoting_after q (blanked p)) ps)"

lemma blanks_outside: "quoting_after Outside (replicate n CHR '' '') = Outside"
  "syntax_of Outside (replicate n CHR '' '') = replicate n CHR '' ''"
  by (induction n) (simp_all add: seen_char_def)

lemma pieces_syntax:
  "stand_outside q ps \<Longrightarrow> syntax_of q (concat (map piece_text ps)) = syntax_of q (concat (map blanked ps))"
proof (induction ps arbitrary: q)
  case (Cons p ps)
  have "syntax_of q (piece_text p) = syntax_of q (blanked p) \<and> quoting_after q (piece_text p) = quoting_after q (blanked p)"
    using Cons.prems quotes_hidden by (cases p) (simp_all add: blanks_outside)
  then show ?case using Cons by (simp add: syntax_of_append)
qed simp

subsection \<open>The tokens of a template\<close>

text \<open>What the token expression of the executor matches, written out for the facts about given templates.\<close>

definition name_start :: "char \<Rightarrow> bool" where
  "name_start c = (is_ascii_alphanumeric c \<and> \<not> is_ascii_digit c \<or> c = CHR ''_'')"

definition name_char :: "char \<Rightarrow> bool" where
  "name_char c = (is_ascii_alphanumeric c \<or> c = CHR ''_'')"

definition context_at :: "string \<Rightarrow> (token \<times> nat) option" where
  "context_at s =
     (if starts_with s ''${''
      then (let name = takeWhile name_char (drop 2 s); rest = drop (2 + length name) s in
        if name \<noteq> [] \<and> name_start (hd name) \<and> starts_with rest ''}'' then Some (Context_Var name, length name + 3) else None)
      else None)"

definition field_at :: "string \<Rightarrow> (token \<times> nat) option" where
  "field_at s =
     (if starts_with s ''{{''
      then (let blanks = takeWhile is_whitespace (drop 2 s); k = 2 + length blanks;
                name = takeWhile (\<lambda>c. name_char c \<or> c = CHR ''-'') (drop k s); l = k + length name;
                n = l + length (takeWhile is_whitespace (drop l s)) in
        if name \<noteq> [] \<and> name_start (hd name) \<and> starts_with (drop n s) ''}}'' then Some (Field_Ref name, n + 2) else None)
      else None)"

definition tag_at :: "string \<Rightarrow> (token \<times> nat) option" where
  "tag_at s =
     (if starts_with s ''{%''
      then (case str_find ''%}'' (drop 2 s) of
          Some i \<Rightarrow> let stmt = trim (take i (drop 2 s)) in
            if CHR 0x0A \<in> set stmt then None else Some (Tag stmt, i + 4)
        | None \<Rightarrow> None)
      else None)"

definition token_at :: "string \<Rightarrow> (token \<times> nat) option" where
  "token_at s =
     (case context_at s of Some t \<Rightarrow> Some t
      | None \<Rightarrow> (case field_at s of Some t \<Rightarrow> Some t | None \<Rightarrow> tag_at s))"

fun scan_from :: "nat \<Rightarrow> nat \<Rightarrow> string \<Rightarrow> token_match list" where
  "scan_from i skip [] = []"
| "scan_from i (Suc skip) (c # s) = scan_from (i + 1) skip s"
| "scan_from i 0 (c # s) =
     (case token_at (c # s) of
        Some (t, n) \<Rightarrow> \<lparr>tm_start = i, tm_end = i + n, tm_token = t\<rparr> # scan_from (i + 1) (n - 1) s
      | None \<Rightarrow> scan_from (i + 1) 0 s)"

definition scan_tokens :: "string \<Rightarrow> token_match list" where
  "scan_tokens s = scan_from 0 0 s"

lemma bare_outside: "list_all bare_char s \<Longrightarrow> quoting_after Outside s = Outside"
proof (induction s)
  case (Cons c s)
  have "\<not> bare_char (CHR 0x27)" "\<not> bare_char (CHR 0x22)" "\<not> bare_char (CHR 0x5C)" by code_simp+
  then have "quoting_step Outside c = Outside" using Cons.prems by auto
  then show ?case using Cons by simp
qed simp

lemma number_outside: "quoting_after Outside (filter (\<lambda>c. is_ascii_digit c \<or> c = CHR ''.'' \<or> c = CHR ''-'') v) = Outside"
  by (rule bare_outside) (auto simp: list_all_iff bare_char_def is_ascii_digit_def is_ascii_alphanumeric_def Let_def)

lemma effective_other:
  "effective_from mx fs ctx params vs = Inr values \<Longrightarrow> i \<notin> af_id ` set fs \<Longrightarrow> map_of values i = map_of vs i"
  by (induction fs arbitrary: vs) (auto simp: update_conv' split: sum.splits)

lemma effective_at:
  assumes "effective_from mx fs ctx params vs = Inr values" and "f \<in> set fs" and "distinct (map af_id fs)"
  shows "\<exists>v. effective_value mx f ctx params = Inr v \<and> map_of values (af_id f) = Some v"
  using assms
proof (induction fs arbitrary: vs)
  case (Cons g fs)
  then obtain v where v: "effective_value mx g ctx params = Inr v" "effective_from mx fs ctx params (AList.update (af_id g) v vs) = Inr values"
    by (auto split: sum.splits)
  show ?case
  proof (cases "f = g")
    case True
    then have "map_of values (af_id f) = Some v" using effective_other [OF v(2), of "af_id g"] Cons.prems(3) by (simp add: update_conv')
    then show ?thesis using v(1) True by blast
  next
    case False
    then show ?thesis using Cons v(2) by auto
  qed
qed simp

subsection \<open>Templates that keep values outside quotes\<close>

definition token_known :: "action_definition \<Rightarrow> token \<Rightarrow> bool" where
  "token_known action t =
     (case t of
        Context_Var name \<Rightarrow> name \<in> set [''selected_files'', ''selected_names'', ''selected_dir'', ''current_dir'',
          ''selected_file'', ''selected_first_name'', ''selected_name'', ''selected_stem'', ''selected_ext'']
      | Field_Ref i \<Rightarrow> i \<in> set (map af_id (ac_fields action))
      | Tag stmt \<Rightarrow> False)"

fun template_stands :: "action_definition \<Rightarrow> token_match list \<Rightarrow> nat \<Rightarrow> quoting \<Rightarrow> bool" where
  "template_stands action [] last_end q = True"
| "template_stands action (m # ms) last_end q =
     (quoting_after q (text_slice (ac_template action) last_end (tm_start m)) = Outside \<and>
      token_known action (tm_token m) \<and> template_stands action ms (tm_end m) Outside)"

definition boxes_plain :: "action_definition \<Rightarrow> (string \<times> string) list \<Rightarrow> bool" where
  "boxes_plain action values =
     (\<forall>f \<in> set (ac_fields action). af_type f = Field_Checkbox \<longrightarrow> value_of values (af_id f) \<in> {''true'', ''false''})"

lemma boxes_bare: "list_all bare_char ''true'' \<and> list_all bare_char ''false''"
  by code_simp

lemma token_outside:
  assumes "token_known action t" and "boxes_plain action values" and "distinct (map af_id (ac_fields action))"
  obtains (var) name p where "t = Context_Var name" "p = context_piece ctx name whole" "(\<exists>vs. p = Quoted vs)"
  | (ref) i p where "t = Field_Ref i" "p = field_piece action values whole i" "(\<exists>vs. p = Quoted vs) \<or> (\<exists>s. p = Bare s \<and> list_all bare_char s)"
proof (cases t)
  case (Context_Var name)
  have "\<exists>vs. context_piece ctx name whole = Quoted vs"
    using assms(1) Context_Var by (auto simp: token_known_def context_piece_def raw_var_def Let_def split: prod.split)
  then show thesis using var Context_Var by blast
next
  case (Field_Ref i)
  have "field_of action i \<noteq> None"
    using assms(1) Field_Ref by (auto simp: token_known_def field_of_def map_of_eq_None_iff comp_def image_iff)
  then obtain f where f: "field_of action i = Some f" by blast
  then have m: "(i, f) \<in> set (map (\<lambda>f. (af_id f, f)) (ac_fields action))"
    using map_of_SomeD by (fastforce simp: field_of_def)
  have num: "list_all bare_char (filter (\<lambda>c. is_ascii_digit c \<or> c = CHR ''.'' \<or> c = CHR ''-'') v)" for v
    by (auto simp: list_all_iff bare_char_def is_ascii_alphanumeric_def Let_def is_ascii_digit_def)
  have box: "list_all bare_char (value_of values i)" if "af_type f = Field_Checkbox"
    using assms(2) m that boxes_bare by (auto simp: boxes_plain_def)
  have "(\<exists>vs. field_piece action values whole i = Quoted vs) \<or> (\<exists>s. field_piece action values whole i = Bare s \<and> list_all bare_char s)"
    using f num box by (auto simp: field_piece_def render_field_def split: field_type.split)
  then show thesis using ref Field_Ref by blast
qed (use assms(1) in \<open>simp add: token_known_def\<close>)

lemma template_pieces:
  assumes "template_stands action ms last_end q" and "boxes_plain action values" and "distinct (map af_id (ac_fields action))"
  shows "stand_outside q (pieces_from mx action ctx values ms last_end [])"
  using assms(1)
proof (induction ms arbitrary: last_end q)
  case (Cons m ms)
  let ?whole = "text_slice (ac_template action) (tm_start m) (tm_end m)"
  have IH: "stand_outside Outside (pieces_from mx action ctx values ms (tm_end m) [])" using Cons by simp
  have q: "quoting_after q (text_slice (ac_template action) last_end (tm_start m)) = Outside" using Cons.prems by simp
  have known: "token_known action (tm_token m)" using Cons.prems by simp
  show ?case
  proof (rule token_outside [OF known assms(2,3), of ctx ?whole])
    fix name p assume "tm_token m = Context_Var name" "p = context_piece ctx name ?whole" "\<exists>vs. p = Quoted vs"
    then show ?thesis using IH q by (auto simp: Let_def active_def blanks_outside)
  next
    fix i p assume "tm_token m = Field_Ref i" "p = field_piece action values ?whole i"
      "(\<exists>vs. p = Quoted vs) \<or> (\<exists>s. p = Bare s \<and> list_all bare_char s)"
    then show ?thesis using IH q by (auto simp: Let_def active_def blanks_outside bare_outside)
  qed
qed simp

lemma builtin_stands:
  "list_all (\<lambda>a. template_stands a (scan_tokens (ac_template a)) 0 Outside \<and> distinct (map af_id (ac_fields a))) builtin_actions"
  by code_simp

lemma effective_boxes:
  assumes "effective_values mx action ctx params = Inr values" and "distinct (map af_id (ac_fields action))"
  shows "boxes_plain action values"
  unfolding boxes_plain_def
proof (intro ballI impI)
  fix f assume f: "f \<in> set (ac_fields action)" "af_type f = Field_Checkbox"
  obtain v where v: "effective_value mx f ctx params = Inr v" "map_of values (af_id f) = Some v"
    using effective_at [OF assms(1) [unfolded effective_values_def] f(1) assms(2)] by blast
  then have "v \<in> {''true'', ''false''}"
    using f(2) by (auto simp: effective_value_def checkbox_value_def Let_def split: if_splits sum.splits)
  then show "value_of values (af_id f) \<in> {''true'', ''false''}" using v(2) by (auto simp: value_of_def)
qed

text \<open>
  C30: Free text cannot inject anything into a built-in action: in the rendered command, what the shell
  can read as syntax is that of the template with every free-text value (texts, paths, names of the
  selected files) left out, whatever these are; values never start or end a quote and are never scanned
  for placeholders.
\<close>

theorem rendered_values_inert:
  assumes "action \<in> set builtin_actions" and "mx_tokens mx (ac_template action) = scan_tokens (ac_template action)"
    and "render_command mx action ctx params = Inr cmd"
  shows "cmd = trim (concat (map piece_text (command_pieces mx action ctx params))) \<and>
     syntax_of Outside (concat (map piece_text (command_pieces mx action ctx params))) =
       syntax_of Outside (concat (map blanked (command_pieces mx action ctx params)))"
proof -
  obtain vals where v: "effective_values mx action ctx params = Inr vals"
    using assms(3) by (auto simp: render_command_def split: if_splits sum.splits)
  have "template_stands action (mx_tokens mx (ac_template action)) 0 Outside" "distinct (map af_id (ac_fields action))"
    using builtin_stands assms(1,2) by (simp_all add: list_all_iff)
  then have "stand_outside Outside (command_pieces mx action ctx params)"
    using template_pieces effective_boxes [OF v] by (simp add: command_pieces_def v)
  then show ?thesis using render_command_pieces [OF assms(3)] pieces_syntax by blast
qed

subsection \<open>Numbers\<close>

text \<open>
  C31: A number is checked as written and rendered as filtered: \<open>5e1\<close> is fifty, within the range of the
  field of the disk usage action, and reaches the command as 51, outside of it.
\<close>

theorem number_checked_is_not_rendered:
  assumes "mx_tokens mx (ac_template disk_usage_action) = scan_tokens (ac_template disk_usage_action)"
    and "mx_parse_f64 mx ''5e1'' = Some (Finite 50)"
  shows "map af_type (ac_fields disk_usage_action) = [Field_Number (Some 5) (Some 50) (Some 5)] \<and>
    render_command mx disk_usage_action \<lparr>cx_selected_paths = [], cx_current_remote_dir = d\<rparr> [(''limit'', ''5e1'')]
      = Inr (''cd '' @ sh_quote d @ '' && du -sh -- * 2>/dev/null | sort -hr | head -n 51'')"
proof -
  let ?d = "\<lparr>cx_selected_paths = [], cx_current_remote_dir = d\<rparr>"
  have tokens: "scan_tokens (ac_template disk_usage_action) =
     [\<lparr>tm_start = 3, tm_end = 18, tm_token = Context_Var ''selected_dir''\<rparr>,
      \<lparr>tm_start = 67, tm_end = 76, tm_token = Field_Ref ''limit''\<rparr>]"
    by code_simp
  obtain f where fs: "ac_fields disk_usage_action = [f]" "af_id f = ''limit''"
    "af_type f = Field_Number (Some 5) (Some 50) (Some 5)" "af_validation f = None" "ac_scope disk_usage_action = Scope_Any"
    by (simp add: disk_usage_action_def)
  have trim: "trim ''5e1'' = ''5e1''" by code_simp
  have slices: "text_slice (ac_template disk_usage_action) 0 3 = ''cd ''"
    "text_slice (ac_template disk_usage_action) 18 67 = '' && du -sh -- * 2>/dev/null | sort -hr | head -n ''"
    "drop 76 (ac_template disk_usage_action) = []" by code_simp+
  have checked: "effective_value mx f ?d [(''limit'', ''5e1'')] = Inr ''5e1''"
    using assms(2) by (simp add: effective_value_def fs trim validate_value_def validate_type_def below_min_def above_max_def
        checkbox_value_def)
  have "effective_values mx disk_usage_action ?d [(''limit'', ''5e1'')] = Inr [(''limit'', ''5e1'')]"
    unfolding effective_values_def fs(1) using checked by (simp add: fs)
  moreover have "quoted_var ?d ''selected_dir'' = Inr (Some (sh_quote d))"
    by (simp add: quoted_var_def needs_selection_def raw_var_def split: prod.split)
  moreover have "field_text disk_usage_action [(''limit'', ''5e1'')] whole ''limit'' = ''51''" for whole
    by (simp add: field_text_def field_of_def fs(1)) (simp add: fs render_field_def value_of_def is_ascii_digit_def Let_def code_def)
  moreover have "trim (''cd '' @ sh_quote d @ '' && du -sh -- * 2>/dev/null | sort -hr | head -n 51'') =
      ''cd '' @ sh_quote d @ '' && du -sh -- * 2>/dev/null | sort -hr | head -n 51''"
    by (rule trim_id) (simp add: trimmed_def is_whitespace_def Let_def code_def)
  ultimately show ?thesis
    using assms(1) by (simp add: render_command_def fs tokens active_def slices)
qed

subsection \<open>Concrete commands\<close>

definition demo_matchers :: matchers where
  "demo_matchers = \<lparr>mx_tokens = scan_tokens, mx_cond = (\<lambda>s. None), mx_is_match = (\<lambda>pattern val. Inr True),
     mx_parse_f64 = (\<lambda>s. if s = ''5e1'' then Some (Finite 50) else None), mx_show_f64 = (\<lambda>x. [])\<rparr>"

lemma number_checked_is_not_rendered_witness:
  "render_command demo_matchers disk_usage_action \<lparr>cx_selected_paths = [], cx_current_remote_dir = ''/srv''\<rparr>
     [(''limit'', ''5e1'')]
   = Inr (''cd '' @ sh_quote ''/srv'' @ '' && du -sh -- * 2>/dev/null | sort -hr | head -n 51'')"
  using number_checked_is_not_rendered [of demo_matchers "''/srv''"] by (simp add: demo_matchers_def)

lemma rendered_values_inert_witness:
  "syntax_of Outside (''cd '' @ sh_quote ''/srv'' @ '' && find . -maxdepth 4 -name '' @ sh_quote ''{{x}}; rm *'') =
   ''cd  && find . -maxdepth 4 -name ''"
proof -
  let ?ctx = "\<lparr>cx_selected_paths = [], cx_current_remote_dir = ''/srv''\<rparr>" and ?params = "[(''pattern'', ''{{x}}; rm *'')]"
  have mem: "find_files_action \<in> set builtin_actions" by (simp add: builtin_actions_def)
  have tokens: "mx_tokens demo_matchers (ac_template find_files_action) = scan_tokens (ac_template find_files_action)"
    by (simp add: demo_matchers_def)
  have run: "render_command demo_matchers find_files_action ?ctx ?params =
      Inr (''cd '' @ sh_quote ''/srv'' @ '' && find . -maxdepth 4 -name '' @ sh_quote ''{{x}}; rm *'')"
    by code_simp
  have whole: "concat (map piece_text (command_pieces demo_matchers find_files_action ?ctx ?params)) =
      ''cd '' @ sh_quote ''/srv'' @ '' && find . -maxdepth 4 -name '' @ sh_quote ''{{x}}; rm *''"
    by code_simp
  have "syntax_of Outside (concat (map blanked (command_pieces demo_matchers find_files_action ?ctx ?params))) =
      ''cd  && find . -maxdepth 4 -name ''"
    by code_simp
  with rendered_values_inert [OF mem tokens run] whole show ?thesis by simp
qed

end
