(* ===== verification/AuditLog.thy ===== *)
theory AuditLog
  imports Bytes Effects "HOL-Library.AList"
begin

section \<open>The activity log of the agents\<close>

text \<open>
  Models \<open>AuditLogger\<close> of \<open>crates/rustscp-mcp/src/audit.rs\<close>: the latest events in memory, the
  observer, and a file of JSON lines that is moved aside when it is full. The state holds the files by
  path and the outcomes of the system calls to come; the ids and times of the events to come are
  arguments. The line of an event (\<open>serde_json::to_string\<close>) is a parameter, as is the parent of a path.
  Modes of files are left out.
\<close>

definition MAX_IN_MEMORY_EVENTS :: nat where "MAX_IN_MEMORY_EVENTS = 1000"
definition MAX_LOG_FILE_BYTES :: nat where "MAX_LOG_FILE_BYTES = 5 * 1024 * 1024"

record audit_event =
  ae_id :: string
  ae_timestamp :: int
  ae_agent_id :: string
  ae_tool_name :: string
  ae_connection_id :: string
  ae_parameters_summary :: string
  ae_status :: string
  ae_diff :: "string option"

text \<open>The logger: \<open>al_shown\<close> is what its observer was called with, where there is one.\<close>

record audit_log =
  al_events :: "audit_event list"
  al_log_file :: "string option"
  al_observer :: bool
  al_shown :: "audit_event list"
  al_files :: "(string \<times> bytes) list"
  al_io :: "io list"

type_synonym 'a al_act = "(audit_log, 'a) act"

record log_codec =
  lc_line :: "audit_event \<Rightarrow> string + bytes"
  lc_parent :: "string \<Rightarrow> string option"

definition new_audit_log :: audit_log where
  "new_audit_log = \<lparr>al_events = [], al_log_file = None, al_observer = False, al_shown = [], al_files = [], al_io = []\<rparr>"

definition with_log_file :: "string \<Rightarrow> audit_log" where
  "with_log_file path = new_audit_log\<lparr>al_log_file := Some path\<rparr>"

definition set_observer :: "unit al_act" where
  "set_observer = modify (\<lambda>l. l\<lparr>al_observer := True\<rparr>)"

subsection \<open>The file\<close>

definition al_call :: "(io \<Rightarrow> (string \<times> bytes) list \<Rightarrow> 'a \<times> (string \<times> bytes) list) \<Rightarrow> 'a al_act" where
  "al_call f = (\<lambda>l. (let (r, rest) = (case al_io l of [] \<Rightarrow> (Io_Ok, []) | r # rs \<Rightarrow> (r, rs));
                       (x, files) = f r (al_files l)
                   in (x, l\<lparr>al_io := rest, al_files := files\<rparr>)))"

definition make_parent :: "log_codec \<Rightarrow> string \<Rightarrow> (string + unit) al_act" where
  "make_parent c path =
     (case lc_parent c path of
        Some parent \<Rightarrow> if parent \<noteq> [] then al_call (\<lambda>r fs. (if r = Io_Ok then Inr () else Inl ''create_dir_all'', fs)) else ret (Inr ())
      | None \<Rightarrow> ret (Inr ()))"

definition file_size :: "string \<Rightarrow> nat option al_act" where
  "file_size path = al_call (\<lambda>r fs. (if r = Io_Ok then map_option length (map_of fs path) else None, fs))"

definition rotate :: "string \<Rightarrow> (string + unit) al_act" where
  "rotate path = al_call (\<lambda>r fs.
     (case (r, map_of fs path) of
        (Io_Ok, Some data) \<Rightarrow> (Inr (), AList.update (path @ ''.1'') data (AList.delete path fs))
      | _ \<Rightarrow> (Inl ''rename'', fs)))"

definition open_append :: "string \<Rightarrow> (string + unit) al_act" where
  "open_append path = al_call (\<lambda>r fs.
     (case r of
        Io_Ok \<Rightarrow> (Inr (), if map_of fs path = None then AList.update path [] fs else fs)
      | Io_Fails k \<Rightarrow> (Inl ''open'', fs)))"

definition append_all :: "string \<Rightarrow> bytes \<Rightarrow> (string + unit) al_act" where
  "append_all path data = al_call (\<lambda>r fs.
     (let old = (case map_of fs path of Some d \<Rightarrow> d | None \<Rightarrow> []) in
      case r of
        Io_Ok \<Rightarrow> (Inr (), AList.update path (old @ data) fs)
      | Io_Fails k \<Rightarrow> (Inl ''write'', AList.update path (old @ take k data) fs)))"

definition flush_log :: "(string + unit) al_act" where
  "flush_log = al_call (\<lambda>r fs. (if r = Io_Ok then Inr () else Inl ''flush'', fs))"

definition append_to_file :: "log_codec \<Rightarrow> string \<Rightarrow> audit_event \<Rightarrow> (string + unit) al_act" where
  "append_to_file c path event =
     try_then (make_parent c path) (\<lambda>_.
     try_then (andThen (file_size path) (\<lambda>size.
       case size of
         Some n \<Rightarrow> if n \<ge> MAX_LOG_FILE_BYTES then rotate path else ret (Inr ())
       | None \<Rightarrow> ret (Inr ()))) (\<lambda>_.
     try_then (open_append path) (\<lambda>_.
     case lc_line c event of
       Inl e \<Rightarrow> ret (Inl e)
     | Inr line \<Rightarrow> try_then (append_all path (line @ [10])) (\<lambda>_. flush_log))))"

subsection \<open>Logging\<close>

definition log_to_file :: "log_codec \<Rightarrow> audit_event \<Rightarrow> unit al_act" where
  "log_to_file c event =
     andThen (gets al_log_file) (\<lambda>file.
       case file of
         None \<Rightarrow> ret ()
       | Some path \<Rightarrow> andThen (append_to_file c path event) (\<lambda>_. ret ()))"

definition show_event :: "audit_event \<Rightarrow> unit al_act" where
  "show_event event = modify (\<lambda>l. if al_observer l then l\<lparr>al_shown := al_shown l @ [event]\<rparr> else l)"

text \<open>\<open>while len > MAX { pop_front }\<close>: what is left are the last ones.\<close>

fun pop_excess :: "nat \<Rightarrow> audit_event list \<Rightarrow> audit_event list" where
  "pop_excess m [] = []"
| "pop_excess m (e # es) = (if length (e # es) > m then pop_excess m es else e # es)"

definition keep_event :: "audit_event \<Rightarrow> unit al_act" where
  "keep_event event = modify (\<lambda>l. l\<lparr>al_events := pop_excess MAX_IN_MEMORY_EVENTS (al_events l @ [event])\<rparr>)"

definition log_event :: "log_codec \<Rightarrow> audit_event \<Rightarrow> unit al_act" where
  "log_event c event = andThen (log_to_file c event) (\<lambda>_. andThen (show_event event) (\<lambda>_. keep_event event))"

definition get_recent_events :: "nat \<Rightarrow> audit_log \<Rightarrow> audit_event list" where
  "get_recent_events limit l = take limit (rev (al_events l))"

definition event_count :: "audit_log \<Rightarrow> nat" where
  "event_count l = length (al_events l)"

subsection \<open>In memory\<close>

lemma pop_excess_drop: "pop_excess m es = drop (length es - m) es"
  by (induction m es rule: pop_excess.induct) (auto simp: Suc_diff_le)

lemma al_call_events: "al_call f l = (x, l') \<Longrightarrow> al_events l' = al_events l \<and> al_log_file l' = al_log_file l \<and> al_observer l' = al_observer l"
  by (auto simp: al_call_def Let_def split: prod.splits list.splits)

definition same_memory :: "audit_log \<Rightarrow> audit_log \<Rightarrow> bool" where
  "same_memory l l' = (al_events l' = al_events l \<and> al_log_file l' = al_log_file l \<and> al_observer l' = al_observer l)"

lemma keeps_memory: "keeps (same_memory l) (al_call f)"
  by (rule keepsI) (auto simp: same_memory_def dest!: al_call_events)

lemma keeps_memory_log: "keeps (same_memory l) (log_to_file c e)"
  unfolding log_to_file_def append_to_file_def make_parent_def file_size_def rotate_def open_append_def append_all_def flush_log_def Let_def
  by (intro hoare_rules keeps_memory)

definition log_all :: "log_codec \<Rightarrow> audit_event list \<Rightarrow> audit_log \<Rightarrow> audit_log" where
  "log_all c es l = fold (\<lambda>e l. snd (log_event c e l)) es l"

lemma log_event_memory:
  "al_events (snd (log_event c e l)) = pop_excess MAX_IN_MEMORY_EVENTS (al_events l @ [e])
   \<and> al_log_file (snd (log_event c e l)) = al_log_file l"
proof -
  obtain u l' where l': "log_to_file c e l = (u, l')" by (cases "log_to_file c e l") auto
  have "same_memory l l'" using keepsD [OF keeps_memory_log _ l'] by (simp add: same_memory_def)
  then show ?thesis by (simp add: log_event_def andThen_def l' show_event_def keep_event_def modify_def same_memory_def)
qed

lemma ring_step:
  assumes "0 < m"
  shows "pop_excess m (drop (length xs - m) xs @ [e]) = drop (length xs + 1 - m) (xs @ [e])"
proof (cases "length xs < m")
  case False
  then have "drop 1 (drop (length xs - m) xs @ [e]) = drop (length xs + 1 - m) (xs @ [e])"
    using assms by (simp add: Suc_diff_le)
  then show ?thesis using False by (simp add: pop_excess_drop)
qed (simp add: pop_excess_drop)

lemma log_all_memory:
  "length (al_events l) \<le> MAX_IN_MEMORY_EVENTS \<Longrightarrow>
   al_events (log_all c es l) = drop (length (al_events l @ es) - MAX_IN_MEMORY_EVENTS) (al_events l @ es)"
proof (induction es rule: rev_induct)
  case (snoc e es)
  have "al_events (log_all c (es @ [e]) l) = pop_excess MAX_IN_MEMORY_EVENTS (al_events (log_all c es l) @ [e])"
    by (simp add: log_all_def log_event_memory)
  also have "\<dots> = drop (length (al_events l @ es) + 1 - MAX_IN_MEMORY_EVENTS) ((al_events l @ es) @ [e])"
    unfolding snoc.IH [OF snoc.prems] by (rule ring_step) (simp add: MAX_IN_MEMORY_EVENTS_def)
  finally show ?case by simp
qed (simp add: log_all_def)

subsection \<open>On disk\<close>

definition event_line :: "log_codec \<Rightarrow> audit_event \<Rightarrow> bytes" where
  "event_line c e = (case lc_line c e of Inr line \<Rightarrow> line @ [10] | Inl _ \<Rightarrow> [])"

definition file_text :: "audit_log \<Rightarrow> string \<Rightarrow> bytes" where
  "file_text l path = (case map_of (al_files l) path of Some d \<Rightarrow> d | None \<Rightarrow> [])"

lemma al_call_ok: "al_io l = [] \<Longrightarrow> al_call f l = (let (x, files) = f Io_Ok (al_files l) in (x, l\<lparr>al_files := files\<rparr>))"
  by (simp add: al_call_def split: prod.split)

lemmas al_ops = file_size_def rotate_def open_append_def append_all_def flush_log_def

lemma append_to_file_ok:
  assumes "al_io l = []" and "lc_line c e = Inr line"
  shows "\<exists>files. append_to_file c path e l = (Inr (), l\<lparr>al_files := files\<rparr>) \<and>
     (if length (file_text l path) \<ge> MAX_LOG_FILE_BYTES
      then map_of files (path @ ''.1'') = map_of (al_files l) path \<and> map_of files path = Some (line @ [10])
      else map_of files (path @ ''.1'') = map_of (al_files l) (path @ ''.1'') \<and> map_of files path = Some (file_text l path @ line @ [10]))"
proof -
  have ne: "path @ ''.1'' \<noteq> path" "path \<noteq> path @ ''.1''" by simp_all
  have mk: "make_parent c path l = (Inr (), l)"
    using assms(1) by (cases "lc_parent c path") (simp_all add: make_parent_def ret_def al_call_ok)
  have pos: "\<not> MAX_LOG_FILE_BYTES \<le> 0" by (simp add: MAX_LOG_FILE_BYTES_def)
  show ?thesis
  proof (cases "map_of (al_files l) path")
    case None
    then show ?thesis using pos
      by (intro exI [of _ "AList.update path (line @ [10]) (al_files l)"])
        (simp add: append_to_file_def andThen_def try_then_def mk assms al_ops al_call_ok ret_def file_text_def update_conv' ne)
  next
    case (Some d)
    show ?thesis
    proof (cases "length d \<ge> MAX_LOG_FILE_BYTES")
      case True
      with Some show ?thesis
        by (intro exI [of _ "AList.update path (line @ [10]) (AList.update (path @ ''.1'') d (AList.delete path (al_files l)))"])
          (simp add: append_to_file_def andThen_def try_then_def mk assms al_ops al_call_ok ret_def file_text_def update_conv' delete_conv' ne)
    next
      case False
      with Some show ?thesis
        by (intro exI [of _ "AList.update path (d @ line @ [10]) (al_files l)"])
          (simp add: append_to_file_def andThen_def try_then_def mk assms al_ops al_call_ok ret_def file_text_def update_conv' ne)
    qed
  qed
qed

lemma log_event_disk:
  assumes "al_io l = []" and "al_log_file l = Some path" and "lc_line c e = Inr line"
  defines "l' \<equiv> snd (log_event c e l)"
  shows "al_io l' = [] \<and>
    (if length (file_text l path) \<ge> MAX_LOG_FILE_BYTES
     then file_text l' (path @ ''.1'') = file_text l path \<and> file_text l' path = event_line c e
     else file_text l' (path @ ''.1'') = file_text l (path @ ''.1'') \<and> file_text l' path = file_text l path @ event_line c e)"
proof -
  obtain files where f: "append_to_file c path e l = (Inr (), l\<lparr>al_files := files\<rparr>)"
    "if length (file_text l path) \<ge> MAX_LOG_FILE_BYTES
      then map_of files (path @ ''.1'') = map_of (al_files l) path \<and> map_of files path = Some (line @ [10])
      else map_of files (path @ ''.1'') = map_of (al_files l) (path @ ''.1'') \<and> map_of files path = Some (file_text l path @ line @ [10])"
    using append_to_file_ok [OF assms(1,3)] by blast
  have l': "al_io l' = [] \<and> al_files l' = files"
    by (simp add: l'_def log_event_def log_to_file_def andThen_def gets_def assms(1,2) f(1) ret_def show_event_def modify_def keep_event_def)
  then show ?thesis using f(2) by (simp add: file_text_def event_line_def assms(3) split: if_splits)
qed

text \<open>
  The events \<open>es\<close> as the two files hold them: the oldest may be gone, but only once the file moved aside
  was full of later ones; the newest is always there; the file is full only by its last line.
\<close>

definition on_disk :: "log_codec \<Rightarrow> audit_event list \<Rightarrow> bytes \<Rightarrow> bytes \<Rightarrow> bool" where
  "on_disk c es aside current =
     (\<exists>gone old cur. es = gone @ old @ cur \<and> aside = concat (map (event_line c) old) \<and>
        current = concat (map (event_line c) cur) \<and> (es = [] \<or> cur \<noteq> []) \<and>
        (if old = [] then gone = [] else length aside \<ge> MAX_LOG_FILE_BYTES) \<and>
        length (concat (map (event_line c) (butlast cur))) < MAX_LOG_FILE_BYTES)"

lemma log_all_disk:
  assumes "al_io l = []" and "al_log_file l = Some path" and "file_text l path = []" and "file_text l (path @ ''.1'') = []"
    and "\<And>e. e \<in> set es \<Longrightarrow> \<exists>line. lc_line c e = Inr line"
  defines "l' \<equiv> log_all c es l"
  shows "al_io l' = [] \<and> al_log_file l' = Some path \<and> on_disk c es (file_text l' (path @ ''.1'')) (file_text l' path)"
  unfolding l'_def using assms(5)
proof (induction es rule: rev_induct)
  case Nil
  then show ?case using assms(1-4) by (simp add: log_all_def on_disk_def MAX_LOG_FILE_BYTES_def)
next
  case (snoc e es)
  let ?l = "log_all c es l" and ?t = "\<lambda>es. concat (map (event_line c) es)"
  have IH: "al_io ?l = []" "al_log_file ?l = Some path" using snoc.IH [OF snoc.prems] by auto
  have "on_disk c es (file_text ?l (path @ ''.1'')) (file_text ?l path)" using snoc.IH [OF snoc.prems] by simp
  then obtain gone old cur where d: "es = gone @ old @ cur" "file_text ?l (path @ ''.1'') = ?t old" "file_text ?l path = ?t cur"
    "if old = [] then gone = [] else length (file_text ?l (path @ ''.1'')) \<ge> MAX_LOG_FILE_BYTES"
    unfolding on_disk_def by blast
  obtain line where line: "lc_line c e = Inr line" using snoc.prems [of e] by auto
  have l': "log_all c (es @ [e]) l = snd (log_event c e ?l)" by (simp add: log_all_def)
  note step = log_event_disk [OF IH line] and keep = log_event_memory [of c e ?l]
  have "on_disk c (es @ [e]) (file_text (log_all c (es @ [e]) l) (path @ ''.1'')) (file_text (log_all c (es @ [e]) l) path)"
  proof (cases "length (?t cur) \<ge> MAX_LOG_FILE_BYTES")
    case True
    then have "cur \<noteq> []" by (auto simp: MAX_LOG_FILE_BYTES_def)
    moreover have "file_text (log_all c (es @ [e]) l) (path @ ''.1'') = ?t cur" "file_text (log_all c (es @ [e]) l) path = ?t [e]"
      using step True d(3) by (simp_all add: l')
    ultimately show ?thesis unfolding on_disk_def using True d(1)
      by (rule_tac exI [of _ "gone @ old"], rule_tac exI [of _ cur], rule_tac exI [of _ "[e]"]) (simp add: MAX_LOG_FILE_BYTES_def)
  next
    case False
    have "file_text (log_all c (es @ [e]) l) (path @ ''.1'') = file_text ?l (path @ ''.1'')"
      "file_text (log_all c (es @ [e]) l) path = ?t (cur @ [e])"
      using step False d(3) by (simp_all add: l')
    then show ?thesis unfolding on_disk_def using False d(1,2,4)
      by (rule_tac exI [of _ gone], rule_tac exI [of _ old], rule_tac exI [of _ "cur @ [e]"]) (simp split: if_splits)
  qed
  then show ?case using step keep IH(2) unfolding l' by simp
qed


definition demo_event :: "string \<Rightarrow> audit_event" where
  "demo_event status = \<lparr>ae_id = ''1'', ae_timestamp = 0, ae_agent_id = ''agent'', ae_tool_name = ''fs_list_dir'',
     ae_connection_id = ''c'', ae_parameters_summary = ''/'', ae_status = status, ae_diff = None\<rparr>"

definition demo_codec :: log_codec where
  "demo_codec = \<lparr>lc_line = (\<lambda>e. Inr (as_bytes (ae_status e))), lc_parent = (\<lambda>p. None)\<rparr>"


end
