(* ===== verification/Base64.thy ===== *)
theory Base64
  imports Bytes
begin

section \<open>Base64\<close>

text \<open>
  Models \<open>base64_encode\<close> and \<open>base64_decode\<close> of \<open>crates/rustscp-mcp/src/server.rs\<close>, in which agents
  send and get binary content: groups of three bytes in a 32-bit word, six bits a character.
\<close>

unbundle bit_operations_syntax

definition B64 :: string where
  "B64 = ''ABCDEFGHIJKLMNOPQRSTUVWXYZabcdefghijklmnopqrstuvwxyz0123456789+/''"

definition join3 :: "byte \<Rightarrow> byte \<Rightarrow> byte \<Rightarrow> 32 word" where
  "join3 a b c = push_bit 16 (ucast a) OR push_bit 8 (ucast b) OR ucast c"

definition sextet :: "nat \<Rightarrow> 32 word \<Rightarrow> char" where
  "sextet k n = B64 ! unat (drop_bit k n AND 63)"

text \<open>One chunk of one to three bytes; missing bytes count as 0.\<close>

fun encode_chunk :: "bytes \<Rightarrow> string" where
  "encode_chunk [a] = (let n = join3 a 0 0 in [sextet 18 n, sextet 12 n, CHR ''='', CHR ''=''])"
| "encode_chunk [a, b] = (let n = join3 a b 0 in [sextet 18 n, sextet 12 n, sextet 6 n, CHR ''=''])"
| "encode_chunk (a # b # c # cs) = (let n = join3 a b c in [sextet 18 n, sextet 12 n, sextet 6 n, sextet 0 n])"
| "encode_chunk [] = []"

fun base64_encode :: "bytes \<Rightarrow> string" where
  "base64_encode (a # b # c # cs) = encode_chunk [a, b, c] @ base64_encode cs"
| "base64_encode [] = []"
| "base64_encode cs = encode_chunk cs"

text \<open>The text is read by its bytes; the values of \<open>-\<close> and \<open>_\<close> are those of the URL alphabet.\<close>

definition ascii_blank :: "byte \<Rightarrow> bool" where
  "ascii_blank b = (b \<in> {9, 10, 12, 13, 32})"

definition sextet_value :: "byte \<Rightarrow> string + 32 word" where
  "sextet_value c =
     (let n = unat c in
      if 65 \<le> n \<and> n \<le> 90 then Inr (of_nat (n - 65))
      else if 97 \<le> n \<and> n \<le> 122 then Inr (of_nat (n - 97 + 26))
      else if 48 \<le> n \<and> n \<le> 57 then Inr (of_nat (n - 48 + 52))
      else if n = 43 \<or> n = 45 then Inr 62
      else if n = 47 \<or> n = 95 then Inr 63
      else Inl (''invalid base64 character '' @ quote [char_of n]))"

fun sextets :: "32 word \<Rightarrow> bytes \<Rightarrow> string + 32 word" where
  "sextets n [] = Inr n"
| "sextets n (c # cs) = (case sextet_value c of Inl e \<Rightarrow> Inl e | Inr v \<Rightarrow> sextets (push_bit 6 n OR v) cs)"

definition pad_of :: "bytes \<Rightarrow> nat" where
  "pad_of q = length (takeWhile (\<lambda>c. c = 61) (rev q))"

definition decode_quad :: "bool \<Rightarrow> bytes \<Rightarrow> string + bytes" where
  "decode_quad is_last q =
     (let pad = pad_of q; data = take (4 - pad) q in
      if pad > 2 \<or> (pad > 0 \<and> \<not> is_last) \<or> 61 \<in> set data then Inl ''invalid base64 padding''
      else case sextets 0 data of
          Inl e \<Rightarrow> Inl e
        | Inr n0 \<Rightarrow> let n = push_bit (6 * pad) n0 in
            Inr (ucast (drop_bit 16 n) # (if pad < 2 then [ucast (drop_bit 8 n)] else []) @ (if pad < 1 then [ucast n] else [])))"

fun decode_quads :: "bytes \<Rightarrow> string + bytes" where
  "decode_quads (a # b # c # d # cs) =
     (case decode_quad (cs = []) [a, b, c, d] of
        Inl e \<Rightarrow> Inl e
      | Inr xs \<Rightarrow> map_sum id ((@) xs) (decode_quads cs))"
| "decode_quads cs = Inr []"

definition base64_decode :: "bytes \<Rightarrow> string + bytes" where
  "base64_decode text_bytes =
     (let clean = filter (\<lambda>b. \<not> ascii_blank b) text_bytes in
      if length clean mod 4 \<noteq> 0 then Inl ''base64 length must be a multiple of 4'' else decode_quads clean)"

subsection \<open>In numbers\<close>

lemma or_shifted: "i < 2 ^ k \<Longrightarrow> push_bit k m OR i = m * 2 ^ k + i" for i m :: nat
proof -
  assume "i < 2 ^ k"
  then have "\<not> bit i n" if "n \<ge> k" for n
    using that by (metis bit_take_bit_iff linorder_not_le take_bit_nat_eq_self)
  then have "\<not> (bit (push_bit k m) n \<and> bit i n)" for n by (auto simp: bit_push_bit_iff)
  then have "push_bit k m + i = push_bit k m OR i" by (intro disjunctive_add_eq_or) (auto simp: bit_eq_iff bit_simps)
  then show ?thesis by (simp add: push_bit_eq_mult)
qed

lemma unat_shift_or:
  fixes w :: "32 word"
  assumes "unat w < 2 ^ 26" and "i < 64"
  shows "unat (push_bit 6 w OR of_nat i) = unat w * 64 + i"
proof -
  have i: "unat (of_nat i :: 32 word) = i" using assms(2) by (simp add: unat_of_nat)
  have "unat (push_bit 6 w) = push_bit 6 (unat w)"
    unfolding unsigned_push_bit_eq using assms(1) by (simp add: take_bit_nat_eq_self push_bit_eq_mult)
  then show ?thesis using or_shifted [of i 6 "unat w"] assms(2) by (simp add: unsigned_or_eq i)
qed

lemma unat_ucast_byte: "unat (ucast (b :: byte) :: 32 word) = unat b"
  using byte_less [of b] by (simp add: unsigned_ucast_eq take_bit_nat_eq_self)

lemma unat_join3: "unat (join3 a b c) = (unat a * 256 + unat b) * 256 + unat c"
proof -
  have ub: "unat a < 256" "unat b < 256" "unat c < 256" using byte_less by blast+
  have p: "unat (push_bit 16 (ucast a :: 32 word)) = unat a * 65536" "unat (push_bit 8 (ucast b :: 32 word)) = unat b * 256"
    unfolding unsigned_push_bit_eq unat_ucast_byte using ub by (simp_all add: take_bit_nat_eq_self push_bit_eq_mult)
  have 1: "(unat a * 65536) OR (unat b * 256) = (unat a * 256 + unat b) * 256"
    using or_shifted [of "unat b * 256" 16 "unat a"] ub by (simp add: push_bit_eq_mult)
  have 2: "((unat a * 256 + unat b) * 256) OR unat c = (unat a * 256 + unat b) * 256 + unat c"
    using or_shifted [of "unat c" 8 "unat a * 256 + unat b"] ub by (simp add: push_bit_eq_mult)
  show ?thesis unfolding join3_def or.assoc [symmetric] unsigned_or_eq p unat_ucast_byte 1 2 by (rule refl)
qed

definition enc :: "nat \<Rightarrow> byte" where
  "enc i = of_nat (code (B64 ! i))"

lemma sextet_nat: "sextet k n = B64 ! (unat n div 2 ^ k mod 64)"
proof -
  have "unat (drop_bit k n) = unat n div 2 ^ k"
    unfolding unsigned_drop_bit_eq using unsigned_less [of n, where 'a = nat] by (simp add: take_bit_nat_eq_self drop_bit_eq_div)
  then have "unat (drop_bit k n AND 63) = unat n div 2 ^ k mod 64"
    using take_bit_eq_mask [of 6 "unat n div 2 ^ k"]
    by (simp add: unsigned_and_eq take_bit_eq_mod mask_eq_exp_minus_1)
  then show ?thesis by (simp add: sextet_def)
qed

lemma code_B64:
  assumes "i < 64"
  shows "code (B64 ! i) = (if i < 26 then 65 + i else if i < 52 then 71 + i else if i < 62 then i - 4 else if i = 62 then 43 else 47)"
proof -
  have "list_all (\<lambda>i. code (B64 ! i) =
      (if i < 26 then 65 + i else if i < 52 then 71 + i else if i < 62 then i - 4 else if i = 62 then 43 else 47)) [0..<64]"
    by code_simp
  then show ?thesis using assms by (simp add: list_all_iff)
qed

lemma enc_values:
  assumes "i < 64"
  shows "sextet_value (enc i) = Inr (of_nat i) \<and> \<not> ascii_blank (enc i) \<and> enc i \<noteq> 61 \<and> utf8_char (B64 ! i) = [enc i]"
proof -
  have u: "unat (enc i) = code (B64 ! i)" unfolding enc_def by (rule unat_byte) (rule code_less)
  have b: "enc i = b \<longleftrightarrow> code (B64 ! i) = unat b" for b using u by (metis word_unat_eq_iff)
  have s: "sextet_value (enc i) = Inr (of_nat i)"
    using assms unfolding sextet_value_def Let_def u code_B64 [OF assms]
    by (cases "i = 62"; cases "i = 63") auto
  have blank: "\<not> ascii_blank (enc i) \<and> enc i \<noteq> 61"
    using assms code_B64 [OF assms] by (auto simp: ascii_blank_def b split: if_splits)
  have "utf8_char (B64 ! i) = [enc i]"
    using assms code_B64 [OF assms] by (auto simp: utf8_char_def enc_def Let_def split: if_splits)
  then show ?thesis using s blank by blast
qed

lemma sextets_step: "i < 64 \<Longrightarrow> sextets n (enc i # cs) = sextets (push_bit 6 n OR of_nat i) cs"
  using enc_values [of i] by simp

lemma as_bytes_simps [simp]: "as_bytes [] = []" "as_bytes (c # s) = utf8_char c @ as_bytes s"
  "as_bytes (s @ t) = as_bytes s @ as_bytes t"
  by (simp_all add: as_bytes_def)

lemma utf8_sextet: "utf8_char (sextet k n) = [enc (unat n div 2 ^ k mod 64)]"
  using enc_values [of "unat n div 2 ^ k mod 64"] by (simp add: sextet_nat)

text \<open>Four characters give back the 24 bits they were cut from.\<close>

lemma sextets_back:
  assumes "unat n < 2 ^ 24"
  shows "sextets 0 [enc (unat n div 2 ^ 18 mod 64), enc (unat n div 2 ^ 12 mod 64), enc (unat n div 2 ^ 6 mod 64), enc (unat n mod 64)]
    = Inr n" (is "sextets 0 [enc ?a, enc ?b, enc ?c, enc ?d] = _")
  and "sextets 0 [enc (unat n div 2 ^ 18 mod 64), enc (unat n div 2 ^ 12 mod 64), enc (unat n div 2 ^ 6 mod 64)]
    = Inr (drop_bit 6 n)"
  and "sextets 0 [enc (unat n div 2 ^ 18 mod 64), enc (unat n div 2 ^ 12 mod 64)] = Inr (drop_bit 12 n)"
proof -
  define w1 :: "32 word" where "w1 = push_bit 6 0 OR of_nat ?a"
  have 1: "unat w1 = ?a" using unat_shift_or [of 0 ?a] by (simp add: w1_def)
  define w2 where "w2 = push_bit 6 w1 OR of_nat ?b"
  have 2: "unat w2 = ?a * 64 + ?b" using unat_shift_or [of w1 ?b] by (simp add: 1 w2_def)
  define w3 where "w3 = push_bit 6 w2 OR of_nat ?c"
  have "?a * 64 + ?b < 2 ^ 26" by (rule le_less_trans [of _ "63 * 64 + 63"]) (auto intro: add_mono)
  then have 3: "unat w3 = (?a * 64 + ?b) * 64 + ?c" using unat_shift_or [of w2 ?c] by (simp add: 2 w3_def)
  define w4 where "w4 = push_bit 6 w3 OR of_nat ?d"
  have "(?a * 64 + ?b) * 64 + ?c < 2 ^ 26" by (rule le_less_trans [of _ "(63 * 64 + 63) * 64 + 63"]) (auto intro!: add_mono mult_mono)
  then have 4: "unat w4 = ((?a * 64 + ?b) * 64 + ?c) * 64 + ?d" using unat_shift_or [of w3 ?d] by (simp add: 3 w4_def)
  have d: "unat n div 2 ^ 6 = unat n div 64" "unat n div 2 ^ 12 = unat n div 64 div 64" "unat n div 2 ^ 18 = unat n div 64 div 64 div 64"
    by (simp_all flip: div_mult2_eq)
  have "unat n div 64 div 64 div 64 < 64" using assms by (simp add: less_mult_imp_div_less flip: div_mult2_eq)
  then have a: "?a = unat n div 64 div 64 div 64" by (simp add: d)
  have dd: "unat (drop_bit k n) = unat n div 2 ^ k" for k
    unfolding unsigned_drop_bit_eq using unsigned_less [of n, where 'a = nat] by (simp add: take_bit_nat_eq_self drop_bit_eq_div)
  have e2: "?a * 64 + ?b = unat n div 2 ^ 12" unfolding a unfolding d by (rule div_mult_mod_eq)
  have e3: "(?a * 64 + ?b) * 64 + ?c = unat n div 2 ^ 6" unfolding e2 unfolding d by (rule div_mult_mod_eq)
  have e4: "((?a * 64 + ?b) * 64 + ?c) * 64 + ?d = unat n" unfolding e3 unfolding d by (rule div_mult_mod_eq)
  have "unat w4 = unat n" unfolding 4 by (rule e4)
  then have w4: "w4 = n" by (rule word_unat_eq_iff [THEN iffD2])
  have "unat w3 = unat (drop_bit 6 n)" unfolding 3 dd by (rule e3)
  then have w3: "w3 = drop_bit 6 n" by (rule word_unat_eq_iff [THEN iffD2])
  have "unat w2 = unat (drop_bit 12 n)" unfolding 2 dd by (rule e2)
  then have w2: "w2 = drop_bit 12 n" by (rule word_unat_eq_iff [THEN iffD2])
  have mod64: "k mod 64 < 64" for k :: nat by simp
  show "sextets 0 [enc ?a, enc ?b, enc ?c, enc ?d] = Inr n"
    unfolding sextets_step [OF mod64] w1_def [symmetric] w2_def [symmetric] w3_def [symmetric] w4_def [symmetric] sextets.simps(1)
    using w4 by (rule arg_cong)
  show "sextets 0 [enc ?a, enc ?b, enc ?c] = Inr (drop_bit 6 n)"
    unfolding sextets_step [OF mod64] w1_def [symmetric] w2_def [symmetric] w3_def [symmetric] sextets.simps(1)
    using w3 by (rule arg_cong)
  show "sextets 0 [enc ?a, enc ?b] = Inr (drop_bit 12 n)"
    unfolding sextets_step [OF mod64] w1_def [symmetric] w2_def [symmetric] sextets.simps(1)
    using w2 by (rule arg_cong)
qed

lemma bytes_of_join3:
  "ucast (drop_bit 16 (join3 a b c)) = a" "ucast (drop_bit 8 (join3 a b c)) = b" "ucast (join3 a b c) = c"
proof -
  have ub: "unat a < 256" "unat b < 256" "unat c < 256" using byte_less by blast+
  have u: "unat (ucast (drop_bit k n) :: byte) = unat n div 2 ^ k mod 256" for k and n :: "32 word"
  proof -
    have "unat (drop_bit k n) = unat n div 2 ^ k"
      unfolding unsigned_drop_bit_eq using unsigned_less [of n, where 'a = nat] by (simp add: take_bit_nat_eq_self drop_bit_eq_div)
    then show ?thesis by (simp add: unsigned_ucast_eq take_bit_eq_mod)
  qed
  have mod256: "(x * 256 + unat c) mod 256 = unat c" for x using ub(3) by simp
  have div256: "(x * 256 + unat c) div 256 = x" for x using ub(3) by simp
  have "unat (ucast (drop_bit 16 (join3 a b c)) :: byte) = unat a"
    unfolding u unat_join3 using ub by (simp add: div_mult2_eq [of _ 256 256, simplified])
  then show "ucast (drop_bit 16 (join3 a b c)) = a" by (rule word_unat_eq_iff [THEN iffD2])
  have "unat (ucast (drop_bit 8 (join3 a b c)) :: byte) = unat b" unfolding u unat_join3 using ub by (simp add: div256 del: distrib_left_numeral distrib_right_numeral)
  then show "ucast (drop_bit 8 (join3 a b c)) = b" by (rule word_unat_eq_iff [THEN iffD2])
  have "unat (ucast (drop_bit 0 (join3 a b c)) :: byte) = unat c"
    unfolding u unat_join3 using ub by (simp add: mod256 del: distrib_left_numeral distrib_right_numeral)
  then show "ucast (join3 a b c) = c" by (simp add: word_unat_eq_iff)
qed

lemma join3_small: "unat (join3 a b c) < 2 ^ 24"
proof -
  have ub: "unat a < 256" "unat b < 256" "unat c < 256" using byte_less by blast+
  then show ?thesis unfolding unat_join3 by simp
qed

lemma upper_bytes:
  fixes n :: "32 word"
  shows "(ucast (drop_bit 16 (push_bit 6 (drop_bit 6 n))) :: byte) = ucast (drop_bit 16 n)"
    "(ucast (drop_bit 8 (push_bit 6 (drop_bit 6 n))) :: byte) = ucast (drop_bit 8 n)"
    "(ucast (drop_bit 16 (push_bit 12 (drop_bit 12 n))) :: byte) = ucast (drop_bit 16 n)"
  by (rule bit_word_eqI; auto simp: bit_simps)+

lemmas enc_facts = enc_values [THEN conjunct1] enc_values [THEN conjunct2, THEN conjunct1]
  enc_values [THEN conjunct2, THEN conjunct2, THEN conjunct1]

lemma pad_of_simps:
  "d \<noteq> 61 \<Longrightarrow> pad_of [a, b, c, d] = 0"
  "c \<noteq> 61 \<Longrightarrow> pad_of [a, b, c, 61] = 1"
  "b \<noteq> 61 \<Longrightarrow> pad_of [a, b, 61, 61] = 2"
  by (simp_all add: pad_of_def)

lemma utf8_pad: "utf8_char (CHR ''='') = [61]" by code_simp

lemma bytes_of_chunk:
  "as_bytes (encode_chunk [a, b, c]) = [enc (unat (join3 a b c) div 2 ^ 18 mod 64), enc (unat (join3 a b c) div 2 ^ 12 mod 64),
     enc (unat (join3 a b c) div 2 ^ 6 mod 64), enc (unat (join3 a b c) mod 64)]"
  "as_bytes (encode_chunk [a, b]) = [enc (unat (join3 a b 0) div 2 ^ 18 mod 64), enc (unat (join3 a b 0) div 2 ^ 12 mod 64),
     enc (unat (join3 a b 0) div 2 ^ 6 mod 64), 61]"
  "as_bytes (encode_chunk [a]) = [enc (unat (join3 a 0 0) div 2 ^ 18 mod 64), enc (unat (join3 a 0 0) div 2 ^ 12 mod 64), 61, 61]"
  by (simp_all add: utf8_sextet utf8_pad Let_def del: power_numeral)

lemma chunk_not_blank:
  assumes "cs \<noteq> []" and "length cs \<le> 3"
  shows "list_all (\<lambda>b. \<not> ascii_blank b) (as_bytes (encode_chunk cs))"
proof -
  have pad: "\<not> ascii_blank 61" by (simp add: ascii_blank_def)
  consider (1) a where "cs = [a]" | (2) a b where "cs = [a, b]" | (3) a b c where "cs = [a, b, c]"
    using assms by (cases cs rule: encode_chunk.cases) (auto simp: Suc_le_eq)
  then show ?thesis by cases (simp_all add: bytes_of_chunk enc_facts pad del: encode_chunk.simps power_numeral)
qed

lemma decode_quad_simps:
  "61 \<notin> {x, y, z, w} \<Longrightarrow> sextets 0 [x, y, z, w] = Inr n \<Longrightarrow>
     decode_quad l [x, y, z, w] = Inr [ucast (drop_bit 16 n), ucast (drop_bit 8 n), ucast n]"
  "61 \<notin> {x, y, z} \<Longrightarrow> sextets 0 [x, y, z] = Inr n \<Longrightarrow>
     decode_quad True [x, y, z, 61] = Inr [ucast (drop_bit 16 (push_bit 6 n)), ucast (drop_bit 8 (push_bit 6 n))]"
  "61 \<notin> {x, y} \<Longrightarrow> sextets 0 [x, y] = Inr n \<Longrightarrow>
     decode_quad True [x, y, 61, 61] = Inr [ucast (drop_bit 16 (push_bit 12 n))]"
  unfolding decode_quad_def by (simp_all add: pad_of_simps Let_def del: sextets.simps push_bit_numeral)

lemma enc_not_pad: "61 \<notin> {enc (i mod 64), enc (j mod 64), enc (k mod 64), enc (m mod 64)}"
  using enc_facts(3) [of "_ mod 64"] by (metis insertE empty_iff mod_less_divisor zero_less_numeral)

lemma decode_chunk:
  "decode_quad l (as_bytes (encode_chunk [a, b, c])) = Inr [a, b, c]"
  "decode_quad True (as_bytes (encode_chunk [a, b])) = Inr [a, b]"
  "decode_quad True (as_bytes (encode_chunk [a])) = Inr [a]"
  unfolding bytes_of_chunk
    decode_quad_simps(1) [OF enc_not_pad sextets_back(1) [OF join3_small]]
    decode_quad_simps(2) [OF _ sextets_back(2) [OF join3_small]]
    decode_quad_simps(3) [OF _ sextets_back(3) [OF join3_small]]
    bytes_of_join3
  subgoal by (rule refl)
  subgoal using enc_not_pad by (subst decode_quad_simps(2) [OF _ sextets_back(2) [OF join3_small]]) (auto simp: upper_bytes bytes_of_join3 simp del: power_numeral)
  subgoal using enc_not_pad by (subst decode_quad_simps(3) [OF _ sextets_back(3) [OF join3_small]]) (auto simp: upper_bytes bytes_of_join3 simp del: power_numeral)
  done

lemma quad_shape: "\<exists>w x y z. as_bytes (encode_chunk [a, b, c]) = [w, x, y, z]"
  by (simp only: bytes_of_chunk) blast

lemma encode_nil: "as_bytes (base64_encode cs) = [] \<longleftrightarrow> cs = []"
  by (cases cs rule: base64_encode.cases) (simp_all add: bytes_of_chunk del: encode_chunk.simps)

lemma decode_quads_step:
  "decode_quads (as_bytes (encode_chunk [a, b, c]) @ cs) =
     map_sum id ((@) [a, b, c]) (decode_quads cs)"
proof -
  obtain w x y z where q: "as_bytes (encode_chunk [a, b, c]) = [w, x, y, z]" using quad_shape by blast
  show ?thesis using decode_chunk(1) [of "cs = []" a b c] unfolding q by simp
qed

lemma decode_quads_last:
  "decode_quads (as_bytes (encode_chunk [a, b])) = Inr [a, b]"
  "decode_quads (as_bytes (encode_chunk [a])) = Inr [a]"
  using decode_chunk(2, 3) [of a] unfolding bytes_of_chunk by simp_all

lemma decode_quads_encode: "decode_quads (as_bytes (base64_encode d)) = Inr d"
  by (induction d rule: base64_encode.induct)
    (simp_all add: decode_quads_step decode_quads_last del: encode_chunk.simps)

lemma encode_length: "length (as_bytes (base64_encode d)) mod 4 = 0"
  by (induction d rule: base64_encode.induct) (simp_all add: bytes_of_chunk del: encode_chunk.simps)

lemma encode_no_blank: "list_all (\<lambda>b. \<not> ascii_blank b) (as_bytes (base64_encode d))"
  by (induction d rule: base64_encode.induct) (simp_all add: chunk_not_blank del: encode_chunk.simps)

lemma base64_back: "base64_decode (as_bytes (base64_encode d)) = Inr d"
proof -
  have "filter (\<lambda>b. \<not> ascii_blank b) (as_bytes (base64_encode d)) = as_bytes (base64_encode d)"
    using encode_no_blank by (simp add: list_all_iff)
  then show ?thesis by (simp add: base64_decode_def encode_length decode_quads_encode)
qed

text \<open>
  Binary content survives its way to an agent and back: whatever bytes are encoded, decoding gives
  exactly them, for every length and its padding.
\<close>

theorem base64_round_trip: "base64_decode (as_bytes (base64_encode d)) = Inr d"
  by (rule base64_back)

end
