(* ===== verification/AgentText.thy ===== *)
theory AgentText
  imports Base64
begin

section \<open>Texts for the agents\<close>

text \<open>
  Models \<open>encode_for_agent\<close>, \<open>trim_output\<close> (\<open>crates/rustscp-mcp/src/server.rs\<close>) and \<open>sanitize_label\<close>
  (\<open>rpc.rs\<close>). Texts from outside are their UTF-8 bytes here, of all characters; \<open>str::from_utf8\<close> is
  written out after its documentation: how far a sequence of bytes is valid, and whether it ends too
  early or is wrong.
\<close>

subsection \<open>UTF-8\<close>

text \<open>\<open>error_len\<close>: \<open>None\<close> where the bytes end within a character.\<close>

record utf8_error =
  valid_up_to :: nat
  error_len :: "nat option"

definition byte_in :: "nat \<Rightarrow> nat \<Rightarrow> byte \<Rightarrow> bool" where
  "byte_in lo hi b = (lo \<le> unat b \<and> unat b \<le> hi)"

text \<open>The ranges of the bytes after the first, by the first; \<open>None\<close> where it starts no character.\<close>

definition tail_ranges :: "byte \<Rightarrow> (nat \<times> nat) list option" where
  "tail_ranges b =
     (let n = unat b; c = (128, 191) in
      if n < 128 then Some []
      else if 194 \<le> n \<and> n \<le> 223 then Some [c]
      else if n = 224 then Some [(160, 191), c]
      else if n = 237 then Some [(128, 159), c]
      else if 225 \<le> n \<and> n \<le> 239 then Some [c, c]
      else if n = 240 then Some [(144, 191), c, c]
      else if 241 \<le> n \<and> n \<le> 243 then Some [c, c, c]
      else if n = 244 then Some [(128, 143), c, c]
      else None)"

text \<open>How many of the next bytes are in their ranges, and whether there was a wrong one.\<close>

datatype tail = Complete | Ends_Early | Wrong nat

fun check_tail :: "nat \<Rightarrow> (nat \<times> nat) list \<Rightarrow> bytes \<Rightarrow> tail" where
  "check_tail k [] bs = Complete"
| "check_tail k (r # rs) [] = Ends_Early"
| "check_tail k ((lo, hi) # rs) (b # bs) = (if byte_in lo hi b then check_tail (k + 1) rs bs else Wrong k)"

function utf8_check :: "nat \<Rightarrow> bytes \<Rightarrow> utf8_error option" where
  "utf8_check i [] = None"
| "utf8_check i (b # bs) =
     (case tail_ranges b of
        None \<Rightarrow> Some \<lparr>valid_up_to = i, error_len = Some 1\<rparr>
      | Some rs \<Rightarrow> (case check_tail 1 rs bs of
            Complete \<Rightarrow> utf8_check (i + 1 + length rs) (drop (length rs) bs)
          | Ends_Early \<Rightarrow> Some \<lparr>valid_up_to = i, error_len = None\<rparr>
          | Wrong k \<Rightarrow> Some \<lparr>valid_up_to = i, error_len = Some k\<rparr>))"
  by pat_completeness auto
termination by (relation "measure (\<lambda>(i, bs). length bs)") auto

definition valid_utf8 :: "bytes \<Rightarrow> bool" where
  "valid_utf8 bs = (utf8_check 0 bs = None)"

text \<open>\<open>is_char_boundary\<close> of a text.\<close>

definition char_boundary :: "bytes \<Rightarrow> nat \<Rightarrow> bool" where
  "char_boundary s i = (i = 0 \<or> i = length s \<or> (i < length s \<and> \<not> byte_in 128 191 (s ! i)))"

subsection \<open>File contents\<close>

datatype encoding = Utf8 | Base64

definition encoding_name :: "encoding \<Rightarrow> string" where
  "encoding_name e = (case e of Utf8 \<Rightarrow> ''utf-8'' | Base64 \<Rightarrow> ''base64'')"

definition encode_for_agent :: "bytes \<Rightarrow> bool \<Rightarrow> bytes \<times> encoding \<times> nat" where
  "encode_for_agent bs truncated =
     (let binary = (as_bytes (base64_encode bs), Base64, length bs) in
      if 0 \<notin> set bs
      then (case utf8_check 0 bs of
          None \<Rightarrow> (bs, Utf8, length bs)
        | Some e \<Rightarrow>
            if error_len e = None \<and> truncated \<and> valid_up_to e > 0
            then (take (valid_up_to e) bs, Utf8, valid_up_to e)
            else binary)
      else binary)"

subsection \<open>Output of commands\<close>

definition MAX_COMMAND_OUTPUT_BYTES :: nat where "MAX_COMMAND_OUTPUT_BYTES = 48 * 1024"

text \<open>The ellipsis U+2026 in UTF-8.\<close>

definition ellipsis :: bytes where
  "ellipsis = [0xE2, 0x80, 0xA6]"

definition omitted_marker :: "nat \<Rightarrow> bytes" where
  "omitted_marker n = [10] @ ellipsis @ as_bytes (''['' @ show_nat n @ '' bytes omitted]'') @ ellipsis @ [10]"

definition first_or :: "nat \<Rightarrow> nat list \<Rightarrow> nat" where
  "first_or d xs = (case xs of x # _ \<Rightarrow> x | [] \<Rightarrow> d)"

definition head_end :: "bytes \<Rightarrow> nat" where
  "head_end s = first_or 0 (filter (char_boundary s) (rev [0..<MAX_COMMAND_OUTPUT_BYTES div 2 + 1]))"

definition tail_start :: "bytes \<Rightarrow> nat" where
  "tail_start s = first_or (length s) (filter (char_boundary s) [length s - MAX_COMMAND_OUTPUT_BYTES div 2..<length s])"

definition trim_output :: "bytes \<Rightarrow> bytes \<times> bool" where
  "trim_output s =
     (if length s \<le> MAX_COMMAND_OUTPUT_BYTES then (s, False)
      else (take (head_end s) s @ omitted_marker (tail_start s - head_end s) @ drop (tail_start s) s, True))"

subsection \<open>Labels\<close>

definition sanitize_label :: "string \<Rightarrow> nat \<Rightarrow> string" where
  "sanitize_label label max_chars = trim (take max_chars (filter (\<lambda>c. \<not> is_control c) label))"

definition MAX_CLIENT_NAME_CHARS :: nat where "MAX_CLIENT_NAME_CHARS = 64"

definition sanitize_client_name :: "string \<Rightarrow> string" where
  "sanitize_client_name name = sanitize_label name MAX_CLIENT_NAME_CHARS"

subsection \<open>Valid texts\<close>

definition fits :: "(nat \<times> nat) list \<Rightarrow> bytes \<Rightarrow> bool" where
  "fits rs bs = (length rs \<le> length bs \<and> list_all2 (\<lambda>(lo, hi) b. byte_in lo hi b) rs (take (length rs) bs))"

lemma check_tail_fits: "check_tail k rs bs = Complete \<longleftrightarrow> fits rs bs"
  by (induction k rs bs rule: check_tail.induct) (auto simp: fits_def)

lemma check_none_shift: "utf8_check i bs = None \<longleftrightarrow> utf8_check j bs = None"
proof (induction i bs arbitrary: j rule: utf8_check.induct)
  case (2 i b bs)
  show ?case
  proof (cases "tail_ranges b")
    case (Some rs)
    show ?thesis
    proof (cases "check_tail 1 rs bs")
      case Complete
      then show ?thesis using 2 [OF Some Complete] Some by simp
    qed (use Some in simp_all)
  qed simp
qed simp

lemma valid_nil [simp]: "valid_utf8 []"
  by (simp add: valid_utf8_def)

lemma valid_Cons:
  "valid_utf8 (b # bs) \<longleftrightarrow> (\<exists>rs. tail_ranges b = Some rs \<and> fits rs bs \<and> valid_utf8 (drop (length rs) bs))"
proof (cases "tail_ranges b")
  case (Some rs)
  have "utf8_check (0 + 1 + length rs) (drop (length rs) bs) = None \<longleftrightarrow> valid_utf8 (drop (length rs) bs)"
    unfolding valid_utf8_def by (rule check_none_shift)
  then show ?thesis using Some check_tail_fits [of 1 rs bs]
    by (cases "check_tail 1 rs bs") (simp_all add: valid_utf8_def [of "b # bs"])
qed (simp add: valid_utf8_def)

lemma valid_induct [consumes 1, case_names Nil Char]:
  assumes "valid_utf8 s" and "P []"
    and "\<And>b bs rs. tail_ranges b = Some rs \<Longrightarrow> fits rs bs \<Longrightarrow> valid_utf8 (drop (length rs) bs) \<Longrightarrow> P (drop (length rs) bs) \<Longrightarrow> P (b # bs)"
  shows "P s"
  using assms(1)
proof (induction "length s" arbitrary: s rule: less_induct)
  case less
  show ?case
  proof (cases s)
    case (Cons b bs)
    then obtain rs where rs: "tail_ranges b = Some rs" "fits rs bs" "valid_utf8 (drop (length rs) bs)"
      using less.prems by (auto simp: valid_Cons)
    then have "P (drop (length rs) bs)" using less.hyps Cons by simp
    then show ?thesis using assms(3) rs Cons by blast
  qed (simp add: assms(2))
qed

lemma fits_append: "fits rs bs \<Longrightarrow> fits rs (bs @ cs)"
  by (auto simp: fits_def)

lemma fits_take: "fits rs bs \<Longrightarrow> length rs \<le> n \<Longrightarrow> fits rs (take n bs)"
  by (auto simp: fits_def min_def)

lemma valid_append: "valid_utf8 s \<Longrightarrow> valid_utf8 t \<Longrightarrow> valid_utf8 (s @ t)"
proof (induction s rule: valid_induct)
  case (Char b bs rs)
  then have "length rs \<le> length bs" by (simp add: fits_def)
  then show ?case using Char by (auto simp: valid_Cons fits_append)
qed simp

lemma tail_byte:
  assumes "tail_ranges b = Some rs" and "fits rs bs" and "i < length rs"
  shows "byte_in 128 191 (bs ! i)"
proof -
  have "\<forall>(lo, hi) \<in> set rs. 128 \<le> lo \<and> hi \<le> 191"
    using assms(1) by (auto simp: tail_ranges_def Let_def split: if_splits)
  moreover have "(case rs ! i of (lo, hi) \<Rightarrow> byte_in lo hi (bs ! i))"
    using assms(2,3) by (auto simp: fits_def dest!: list_all2_nthD)
  moreover have "rs ! i \<in> set rs" using assms(3) by simp
  ultimately show ?thesis by (auto simp: byte_in_def split: prod.splits)
qed

text \<open>A valid text cut at a boundary gives two valid texts.\<close>

lemma valid_cut:
  "valid_utf8 s \<Longrightarrow> char_boundary s i \<Longrightarrow> i \<le> length s \<Longrightarrow> valid_utf8 (take i s) \<and> valid_utf8 (drop i s)"
proof (induction s arbitrary: i rule: valid_induct)
  case (Char b bs rs)
  have len: "length rs \<le> length bs" using Char.hyps(2) by (simp add: fits_def)
  show ?case
  proof (cases i)
    case 0
    then show ?thesis using Char.hyps by (auto simp: valid_Cons)
  next
    case (Suc j)
    have j: "length rs \<le> j"
    proof (rule ccontr)
      assume "\<not> length rs \<le> j"
      then show False using tail_byte [OF Char.hyps(1,2), of j] Char.prems len Suc by (auto simp: char_boundary_def)
    qed
    have "char_boundary (drop (length rs) bs) (j - length rs)"
      using Char.prems Suc j len by (auto simp: char_boundary_def)
    then have "valid_utf8 (take (j - length rs) (drop (length rs) bs)) \<and> valid_utf8 (drop (j - length rs) (drop (length rs) bs))"
      using Char.IH [of "j - length rs"] Char.prems Suc j by (simp add: diff_le_mono)
    then show ?thesis using Char.hyps Suc j by (auto simp: valid_Cons take_drop fits_take)
  qed
qed simp

lemma utf8_check_bound:
  "utf8_check i bs = Some e \<Longrightarrow> i \<le> valid_up_to e \<and> valid_up_to e \<le> i + length bs \<and> valid_utf8 (take (valid_up_to e - i) bs)"
proof (induction i bs rule: utf8_check.induct)
  case (2 i b bs)
  show ?case
  proof (cases "tail_ranges b")
    case (Some rs)
    show ?thesis
    proof (cases "check_tail 1 rs bs")
      case Complete
      then have f: "fits rs bs" by (simp add: check_tail_fits)
      then have len: "length rs \<le> length bs" by (simp add: fits_def)
      let ?j = "i + 1 + length rs"
      have IH: "?j \<le> valid_up_to e \<and> valid_up_to e \<le> ?j + length (drop (length rs) bs)
          \<and> valid_utf8 (take (valid_up_to e - ?j) (drop (length rs) bs))"
        using "2.IH" [OF Some Complete] "2.prems" Some Complete by simp
      then obtain d where d: "valid_up_to e = ?j + d" using le_Suc_ex by blast
      then have "valid_up_to e - i = Suc (length rs + d)" by simp
      then show ?thesis using IH d len Some fits_take [OF f] by (auto simp: valid_Cons take_drop add.commute)
    qed (use "2.prems" Some in auto)
  qed (use "2.prems" in auto)
qed simp

subsection \<open>What an agent reads\<close>

definition agent_decode :: "encoding \<Rightarrow> bytes \<Rightarrow> string + bytes" where
  "agent_decode e content = (case e of Utf8 \<Rightarrow> Inr content | Base64 \<Rightarrow> base64_decode content)"

lemma encode_for_agent_exact:
  assumes "encode_for_agent bs truncated = (content, e, used)"
  shows "used \<le> length bs \<and> agent_decode e content = Inr (take used bs) \<and> (bs \<noteq> [] \<longrightarrow> used > 0) \<and>
    (used < length bs \<longrightarrow> truncated) \<and> (e = Utf8 \<longrightarrow> valid_utf8 content)"
  using assms utf8_check_bound [of 0 bs]
  by (auto simp: encode_for_agent_def agent_decode_def Let_def base64_back valid_utf8_def split: if_splits option.splits)

subsection \<open>Trimmed output\<close>

lemma first_or_down:
  "P j \<Longrightarrow> j < n \<Longrightarrow> j \<le> first_or d (filter P (rev [0..<n])) \<and> P (first_or d (filter P (rev [0..<n]))) \<and> first_or d (filter P (rev [0..<n])) < n"
  by (induction n) (auto simp: first_or_def less_Suc_eq)

lemma first_or_up_aux:
  "P j \<Longrightarrow> a \<le> j \<Longrightarrow> j < a + k \<Longrightarrow> first_or d (filter P [a..<a + k]) \<le> j \<and> P (first_or d (filter P [a..<a + k])) \<and> a \<le> first_or d (filter P [a..<a + k])"
proof (induction k arbitrary: a)
  case (Suc k)
  have u: "[a..<a + Suc k] = a # [Suc a..<Suc a + k]" by (simp add: upt_rec)
  show ?case unfolding u
  proof (cases "P a")
    case False
    then have "Suc a \<le> j" using Suc.prems by (cases "a = j") auto
    then show "first_or d (filter P (a # [Suc a..<Suc a + k])) \<le> j \<and> P (first_or d (filter P (a # [Suc a..<Suc a + k]))) \<and>
        a \<le> first_or d (filter P (a # [Suc a..<Suc a + k]))"
      using Suc.IH [of "Suc a"] Suc.prems False by (auto simp del: upt_Suc)
  qed (use Suc.prems in \<open>auto simp: first_or_def\<close>)
qed simp

lemma first_or_up:
  "P j \<Longrightarrow> a \<le> j \<Longrightarrow> j < b \<Longrightarrow> first_or d (filter P [a..<b]) \<le> j \<and> P (first_or d (filter P [a..<b])) \<and> a \<le> first_or d (filter P [a..<b])"
  using first_or_up_aux [of P j a "b - a" d] by simp

lemma first_or_none: "(\<And>j. a \<le> j \<Longrightarrow> j < b \<Longrightarrow> \<not> P j) \<Longrightarrow> first_or d (filter P [a..<b]) = d"
  by (subst filter_False) (auto simp: first_or_def)

lemma starts_char: "tail_ranges b = Some rs \<Longrightarrow> \<not> byte_in 128 191 b"
  by (auto simp: tail_ranges_def byte_in_def Let_def split: if_splits)

lemma tail_short: "tail_ranges b = Some rs \<Longrightarrow> length rs \<le> 3"
  by (auto simp: tail_ranges_def Let_def split: if_splits)

lemma valid_start: "valid_utf8 s \<Longrightarrow> s \<noteq> [] \<Longrightarrow> \<not> byte_in 128 191 (s ! 0)"
  by (cases s) (auto simp: valid_Cons dest: starts_char)

lemma boundary_shift:
  assumes "valid_utf8 (drop n bs)" and "n \<le> length bs" and "char_boundary (drop n bs) j"
  shows "char_boundary (b # bs) (Suc n + j)"
proof (cases "j = 0")
  case True
  then show ?thesis using valid_start [OF assms(1)] assms(2) by (cases "n = length bs") (auto simp: char_boundary_def)
next
  case False
  then show ?thesis using assms(2,3) by (auto simp: char_boundary_def)
qed

lemma boundary_below: "valid_utf8 s \<Longrightarrow> i \<le> length s \<Longrightarrow> \<exists>j. j \<le> i \<and> i \<le> j + 3 \<and> char_boundary s j"
proof (induction s arbitrary: i rule: valid_induct)
  case (Char b bs rs)
  have len: "length rs \<le> length bs" "length rs \<le> 3" using Char.hyps tail_short by (auto simp: fits_def)
  show ?case
  proof (cases "i \<le> length rs")
    case True
    then show ?thesis using len(2) by (intro exI [of _ 0]) (simp add: char_boundary_def)
  next
    case False
    have le: "i - Suc (length rs) \<le> length (drop (length rs) bs)" using Char.prems False len(1) by simp
    obtain j where j: "j \<le> i - Suc (length rs)" "i - Suc (length rs) \<le> j + 3" "char_boundary (drop (length rs) bs) j"
      using Char.IH [OF le] by blast
    then show ?thesis using boundary_shift [OF Char.hyps(3) len(1) j(3)] False
      by (intro exI [of _ "Suc (length rs) + j"]) auto
  qed
qed (simp add: char_boundary_def)

lemma boundary_above: "valid_utf8 s \<Longrightarrow> i \<le> length s \<Longrightarrow> \<exists>j. i \<le> j \<and> j \<le> i + 3 \<and> j \<le> length s \<and> char_boundary s j"
proof (induction s arbitrary: i rule: valid_induct)
  case (Char b bs rs)
  have len: "length rs \<le> length bs" "length rs \<le> 3" using Char.hyps tail_short by (auto simp: fits_def)
  show ?case
  proof (cases "i = 0")
    case False
    show ?thesis
    proof (cases "i \<le> length rs")
      case True
      then show ?thesis using len False boundary_shift [OF Char.hyps(3) len(1), of 0 b]
        by (intro exI [of _ "Suc (length rs)"]) (auto simp: char_boundary_def)
    next
      case False
      have le: "i - Suc (length rs) \<le> length (drop (length rs) bs)" using Char.prems False len(1) by simp
      obtain j where j: "i - Suc (length rs) \<le> j" "j \<le> i - Suc (length rs) + 3" "j \<le> length bs - length rs" "char_boundary (drop (length rs) bs) j"
        using Char.IH [OF le] by auto
      then show ?thesis using boundary_shift [OF Char.hyps(3) len(1) j(4)] False len
        by (intro exI [of _ "Suc (length rs) + j"]) auto
    qed
  qed (auto simp: char_boundary_def)
qed (simp add: char_boundary_def)

lemma valid_ascii: "list_all (\<lambda>b. unat b < 128) s \<Longrightarrow> valid_utf8 s"
proof (induction s)
  case (Cons b s)
  then show ?case by (auto simp: valid_Cons tail_ranges_def Let_def fits_def)
qed simp

lemma ascii_bytes: "list_all (\<lambda>c. code c < 128) s \<Longrightarrow> list_all (\<lambda>b. unat b < 128) (as_bytes s)"
  by (induction s) (auto simp: as_bytes_def utf8_char_def Let_def unat_byte)

lemma valid_marker: "valid_utf8 (omitted_marker n)"
proof -
  have "list_all (\<lambda>c. code c < 128) (show_nat n)"
    using set_show_nat by (fastforce simp: list_all_iff is_ascii_digit_def Let_def)
  then have mid: "valid_utf8 (as_bytes (''['' @ show_nat n @ '' bytes omitted]''))"
    by (intro valid_ascii ascii_bytes) (simp add: code_def)
  have e: "valid_utf8 ellipsis" "valid_utf8 [10]" by code_simp+
  show ?thesis unfolding omitted_marker_def by (intro valid_append e mid)
qed

text \<open>
  C36: Trimmed output stays a text and keeps both ends: no character is cut, each end keeps between 24 KiB
  less three bytes and 24 KiB, and the marker between them names exactly the bytes left out.
\<close>

theorem trimmed_output_ends:
  assumes "valid_utf8 s"
  shows "valid_utf8 (fst (trim_output s)) \<and>
    (if length s \<le> MAX_COMMAND_OUTPUT_BYTES then trim_output s = (s, False)
     else \<exists>h t. trim_output s = (take h s @ omitted_marker (t - h) @ drop t s, True) \<and> h \<le> t \<and> t \<le> length s \<and>
       24 * 1024 - 3 \<le> h \<and> h \<le> 24 * 1024 \<and> 24 * 1024 - 3 \<le> length s - t \<and> length s - t \<le> 24 * 1024)"
proof (cases "length s \<le> MAX_COMMAND_OUTPUT_BYTES")
  case False
  let ?half = "24 * 1024 :: nat" and ?h = "head_end s" and ?t = "tail_start s"
  have max: "MAX_COMMAND_OUTPUT_BYTES div 2 = ?half" "length s > 2 * ?half" using False by (simp_all add: MAX_COMMAND_OUTPUT_BYTES_def)
  obtain j where j: "j \<le> ?half" "?half \<le> j + 3" "char_boundary s j" using boundary_below [OF assms, of ?half] max by auto
  have h: "j \<le> ?h" "char_boundary s ?h" "?h \<le> ?half"
    using first_or_down [of "char_boundary s" j "?half + 1" 0] j by (auto simp: head_end_def max(1))
  obtain k where k: "length s - ?half \<le> k" "k \<le> length s - ?half + 3" "k \<le> length s" "char_boundary s k"
    using boundary_above [OF assms, of "length s - ?half"] by auto
  have t: "?t \<le> k" "char_boundary s ?t" "length s - ?half \<le> ?t"
    using first_or_up [of "char_boundary s" k "length s - ?half" "length s" "length s"] k max(2)
    by (auto simp: tail_start_def max(1))
  have valid: "valid_utf8 (take ?h s)" "valid_utf8 (drop ?t s)"
    using valid_cut [OF assms h(2)] valid_cut [OF assms t(2)] h t k max by auto
  have trim: "trim_output s = (take ?h s @ omitted_marker (?t - ?h) @ drop ?t s, True)" using False by (simp add: trim_output_def)
  have "valid_utf8 (fst (trim_output s))" unfolding trim by (simp add: valid_append valid valid_marker)
  moreover have "?h \<le> ?t" "?t \<le> length s" "?half - 3 \<le> ?h" "?half - 3 \<le> length s - ?t" "length s - ?t \<le> ?half"
    using h t j k max(2) by linarith+
  ultimately show ?thesis using False trim h(3) by (simp add: MAX_COMMAND_OUTPUT_BYTES_def) blast
qed (use assms in \<open>simp add: trim_output_def\<close>)

lemma trimmed_output_ends_witness: "trim_output [111, 107] = ([111, 107], False)"
proof -
  have "valid_utf8 [111, 107]" by code_simp
  from trimmed_output_ends [OF this] show ?thesis by (simp add: MAX_COMMAND_OUTPUT_BYTES_def)
qed

end
