(* ===== verification/AgentServer.thy ===== *)
theory AgentServer
  imports AuditLog AgentText Policy ActionCatalog Json
begin

section \<open>The server of the agents\<close>

text \<open>
  Models \<open>McpServer\<close> of \<open>crates/rustscp-mcp/src/server.rs\<close>: the connections agents may use, the approver,
  the access level, and every tool call. A call runs among other threads and meets sessions, a person
  and a clock: what these do is an argument, \<open>gate_env\<close>, whose answers may depend on all that happened
  before (the trace). At every \<open>.await\<close> other threads may change the server, and the call may be dropped
  (its agent cancelled or left); a spawned task is never dropped. A call that panics is left out, and so
  is logging.
\<close>

subsection \<open>Requests and answers\<close>

definition DEFAULT_READ_BYTES :: nat where "DEFAULT_READ_BYTES = 65536"
definition MAX_READ_BYTES :: nat where "MAX_READ_BYTES = 1024 * 1024"
definition MAX_HASHED_PREVIOUS_BYTES :: nat where "MAX_HASHED_PREVIOUS_BYTES = 8 * 1024 * 1024"
definition APPROVAL_PREVIEW_BYTES :: nat where "APPROVAL_PREVIEW_BYTES = 4096"
definition WITHDRAWN_STATUS :: string where "WITHDRAWN_STATUS = ''withdrawn: the agent cancelled or disconnected''"
definition DEFAULT_COMMAND_TIMEOUT_SECS :: nat where "DEFAULT_COMMAND_TIMEOUT_SECS = 120"
definition MAX_COMMAND_TIMEOUT_SECS :: nat where "MAX_COMMAND_TIMEOUT_SECS = 1800"

definition tool_requires_approval :: "string \<Rightarrow> bool" where
  "tool_requires_approval tool_name = (tool_name = ''fs_write_file'')"

record connection_info =
  ci_name :: string
  ci_protocol :: string
  ci_host :: string

definition default_info :: connection_info where
  "default_info = \<lparr>ci_name = [], ci_protocol = [], ci_host = []\<rparr>"

datatype approval_kind = Kind_Write | Kind_Command

record approval_request =
  ar_kind :: approval_kind
  ar_agent_id :: string
  ar_tool_name :: string
  ar_connection_id :: string
  ar_connection_name :: string
  ar_path :: string
  ar_summary :: string
  ar_new_size :: nat
  ar_new_sha256 :: string
  ar_previous_size :: "nat option"
  ar_preview :: "bytes option"
  ar_preview_truncated :: bool
  ar_command :: "string option"
  ar_risk :: "string option"

definition new_request :: "approval_kind \<Rightarrow> approval_request" where
  "new_request kind =
     \<lparr>ar_kind = kind, ar_agent_id = [], ar_tool_name = [], ar_connection_id = [], ar_connection_name = [], ar_path = [],
      ar_summary = [], ar_new_size = 0, ar_new_sha256 = [], ar_previous_size = None, ar_preview = None,
      ar_preview_truncated = False, ar_command = None, ar_risk = None\<rparr>"

datatype approval_decision = Approved | Denied string

text \<open>What \<open>json!\<close> is given: texts from outside as their bytes, entries of a listing as they are, the JSON
  text of a value as this value.\<close>

datatype reply_value = R_Null | R_Bool bool | R_Num int | R_Str string | R_Utf8 bytes | R_Entries "file_entry list"
  | R_List "reply_value list" | R_Object "(string \<times> reply_value) list" | R_Json json | R_Json_Text reply_value

text \<open>A text of a result: its bytes, or the JSON text of a value.\<close>

datatype mcp_content = Content_Text bytes | Content_Json reply_value

record tool_result =
  tr_content :: "mcp_content list"
  tr_is_error :: bool

definition success_json :: "reply_value \<Rightarrow> tool_result" where
  "success_json v = \<lparr>tr_content = [Content_Json v], tr_is_error = False\<rparr>"

definition success_text :: "string \<Rightarrow> tool_result" where
  "success_text s = \<lparr>tr_content = [Content_Text (as_bytes s)], tr_is_error = False\<rparr>"

definition failure_text :: "string \<Rightarrow> tool_result" where
  "failure_text s = \<lparr>tr_content = [Content_Text (as_bytes s)], tr_is_error = True\<rparr>"

subsection \<open>State\<close>

text \<open>A session is known by a number, as is an approver.\<close>

record registered_connection =
  rg_info :: connection_info
  rg_session :: nat

record mcp_server =
  sv_connections :: "(string \<times> registered_connection) list"
  sv_approver :: "nat option"
  sv_access :: byte

definition access_code :: "command_access \<Rightarrow> byte" where
  "access_code access = (case access of Access_Off \<Rightarrow> 0 | Access_Ask \<Rightarrow> 1 | Access_Auto \<Rightarrow> 2 | Access_Trusted \<Rightarrow> 3)"

definition access_from_code :: "byte \<Rightarrow> command_access" where
  "access_from_code b =
     (if b = 0 then Access_Off else if b = 2 then Access_Auto else if b = 3 then Access_Trusted else Access_Ask)"

definition new_server :: mcp_server where
  "new_server = \<lparr>sv_connections = [], sv_approver = None, sv_access = access_code default_access\<rparr>"

definition set_command_access :: "command_access \<Rightarrow> mcp_server \<Rightarrow> mcp_server" where
  "set_command_access access sv = sv\<lparr>sv_access := access_code access\<rparr>"

definition current_access :: "mcp_server \<Rightarrow> command_access" where
  "current_access sv = access_from_code (sv_access sv)"

definition set_approver :: "nat \<Rightarrow> mcp_server \<Rightarrow> mcp_server" where
  "set_approver a sv = sv\<lparr>sv_approver := Some a\<rparr>"

definition register_session :: "string \<Rightarrow> connection_info \<Rightarrow> nat \<Rightarrow> mcp_server \<Rightarrow> mcp_server" where
  "register_session i info vfs sv =
     sv\<lparr>sv_connections := AList.update i \<lparr>rg_info = info, rg_session = vfs\<rparr> (sv_connections sv)\<rparr>"

definition register_connection :: "string \<Rightarrow> nat \<Rightarrow> mcp_server \<Rightarrow> mcp_server" where
  "register_connection i vfs sv = register_session i (default_info\<lparr>ci_name := i\<rparr>) vfs sv"

definition unregister_connection :: "string \<Rightarrow> mcp_server \<Rightarrow> bool \<times> mcp_server" where
  "unregister_connection i sv =
     (map_of (sv_connections sv) i \<noteq> None, sv\<lparr>sv_connections := AList.delete i (sv_connections sv)\<rparr>)"

definition connection_ids :: "mcp_server \<Rightarrow> string list" where
  "connection_ids sv = sort (map fst (sv_connections sv))"

definition connection :: "string \<Rightarrow> mcp_server \<Rightarrow> (nat \<times> connection_info) option" where
  "connection conn_id sv = map_option (\<lambda>c. (rg_session c, rg_info c)) (map_of (sv_connections sv) conn_id)"

definition session_summaries :: "mcp_server \<Rightarrow> reply_value list" where
  "session_summaries sv =
     map (\<lambda>i. let info = (case map_of (sv_connections sv) i of Some c \<Rightarrow> rg_info c | None \<Rightarrow> default_info) in
        R_Object [(''connection_id'', R_Str i), (''name'', R_Str (ci_name info)),
                  (''protocol'', R_Str (ci_protocol info)), (''host'', R_Str (ci_host info))])
       (connection_ids sv)"

text \<open>What other threads do to the server.\<close>

datatype server_op = Set_Access command_access | Set_Approver nat | Register string connection_info nat | Unregister string

fun server_step :: "server_op \<Rightarrow> mcp_server \<Rightarrow> mcp_server" where
  "server_step (Set_Access a) sv = set_command_access a sv"
| "server_step (Set_Approver a) sv = set_approver a sv"
| "server_step (Register i info vfs) sv = register_session i info vfs sv"
| "server_step (Unregister i) sv = snd (unregister_connection i sv)"

subsection \<open>The surroundings of a call\<close>

datatype gate_event =
    Ev_Others "server_op list"
  | Ev_Metadata nat string "core_error + file_entry"
  | Ev_Read_File nat string "core_error + bytes"
  | Ev_Read_Range nat string nat nat "core_error + bytes"
  | Ev_Write_File nat string bytes "core_error + unit"
  | Ev_List_Dir nat string "core_error + file_entry list"
  | Ev_Search nat string string nat "core_error + file_entry list"
  | Ev_Execute nat string nat "core_error + (int \<times> bytes \<times> bytes)"
  | Ev_Ask nat approval_request "approval_decision option"
  | Ev_Audit audit_event

type_synonym gate_trace = "gate_event list"

text \<open>An approver that answers \<open>None\<close> is still waiting when the call is dropped.\<close>

record gate_env =
  en_others :: "gate_trace \<Rightarrow> server_op list"
  en_dropped :: "gate_trace \<Rightarrow> bool"
  en_shell :: "nat \<Rightarrow> bool"
  en_metadata :: "gate_trace \<Rightarrow> nat \<Rightarrow> string \<Rightarrow> core_error + file_entry"
  en_read_file :: "gate_trace \<Rightarrow> nat \<Rightarrow> string \<Rightarrow> core_error + bytes"
  en_read_range :: "gate_trace \<Rightarrow> nat \<Rightarrow> string \<Rightarrow> nat \<Rightarrow> nat \<Rightarrow> core_error + bytes"
  en_write_file :: "gate_trace \<Rightarrow> nat \<Rightarrow> string \<Rightarrow> bytes \<Rightarrow> core_error + unit"
  en_list_dir :: "gate_trace \<Rightarrow> nat \<Rightarrow> string \<Rightarrow> core_error + file_entry list"
  en_search :: "gate_trace \<Rightarrow> nat \<Rightarrow> string \<Rightarrow> string \<Rightarrow> nat \<Rightarrow> core_error + file_entry list"
  en_execute :: "gate_trace \<Rightarrow> nat \<Rightarrow> string \<Rightarrow> nat \<Rightarrow> core_error + (int \<times> bytes \<times> bytes)"
  en_approve :: "gate_trace \<Rightarrow> nat \<Rightarrow> approval_request \<Rightarrow> approval_decision option"
  en_runtime :: "gate_trace \<Rightarrow> bool"
  en_new_id :: "gate_trace \<Rightarrow> string"
  en_now :: "gate_trace \<Rightarrow> int"
  en_elapsed :: "gate_trace \<Rightarrow> nat"
  en_sha256 :: "bytes \<Rightarrow> string"
  en_json :: "json \<Rightarrow> string"
  en_log :: log_codec
  en_matchers :: matchers

record gate =
  gt_server :: mcp_server
  gt_audit :: audit_log
  gt_trace :: gate_trace

datatype dropped = Dropped

type_synonym 'a call = "(gate, dropped + 'a) act"

definition happens :: "gate_event \<Rightarrow> gate \<Rightarrow> gate" where
  "happens e g = g\<lparr>gt_trace := gt_trace g @ [e]\<rparr>"

text \<open>An \<open>.await\<close>: others act, and a call that is not a task of its own may end here.\<close>

definition await :: "gate_env \<Rightarrow> bool \<Rightarrow> unit call" where
  "await env spawned = (\<lambda>g.
     let ops = en_others env (gt_trace g) in
     (if \<not> spawned \<and> en_dropped env (gt_trace g) then Inl Dropped else Inr (),
      happens (Ev_Others ops) (g\<lparr>gt_server := fold server_step ops (gt_server g)\<rparr>)))"

definition answer :: "(gate_trace \<Rightarrow> 'a) \<Rightarrow> ('a \<Rightarrow> gate_event) \<Rightarrow> 'a call" where
  "answer f ev = (\<lambda>g. let x = f (gt_trace g) in (Inr x, happens (ev x) g))"

definition metadata :: "gate_env \<Rightarrow> bool \<Rightarrow> nat \<Rightarrow> string \<Rightarrow> (core_error + file_entry) call" where
  "metadata env sp vfs path =
     try_then (await env sp) (\<lambda>_. answer (\<lambda>t. en_metadata env t vfs path) (Ev_Metadata vfs path))"

definition read_file :: "gate_env \<Rightarrow> bool \<Rightarrow> nat \<Rightarrow> string \<Rightarrow> (core_error + bytes) call" where
  "read_file env sp vfs path =
     try_then (await env sp) (\<lambda>_. answer (\<lambda>t. en_read_file env t vfs path) (Ev_Read_File vfs path))"

definition read_range :: "gate_env \<Rightarrow> bool \<Rightarrow> nat \<Rightarrow> string \<Rightarrow> nat \<Rightarrow> nat \<Rightarrow> (core_error + bytes) call" where
  "read_range env sp vfs path off len =
     try_then (await env sp) (\<lambda>_. answer (\<lambda>t. en_read_range env t vfs path off len) (Ev_Read_Range vfs path off len))"

definition write_file :: "gate_env \<Rightarrow> bool \<Rightarrow> nat \<Rightarrow> string \<Rightarrow> bytes \<Rightarrow> (core_error + unit) call" where
  "write_file env sp vfs path data =
     try_then (await env sp) (\<lambda>_. answer (\<lambda>t. en_write_file env t vfs path data) (Ev_Write_File vfs path data))"

definition list_dir :: "gate_env \<Rightarrow> bool \<Rightarrow> nat \<Rightarrow> string \<Rightarrow> (core_error + file_entry list) call" where
  "list_dir env sp vfs path =
     try_then (await env sp) (\<lambda>_. answer (\<lambda>t. en_list_dir env t vfs path) (Ev_List_Dir vfs path))"

definition search_files :: "gate_env \<Rightarrow> bool \<Rightarrow> nat \<Rightarrow> string \<Rightarrow> string \<Rightarrow> nat \<Rightarrow> (core_error + file_entry list) call" where
  "search_files env sp vfs start pattern most =
     try_then (await env sp) (\<lambda>_. answer (\<lambda>t. en_search env t vfs start pattern most) (Ev_Search vfs start pattern most))"

definition execute_command :: "gate_env \<Rightarrow> bool \<Rightarrow> nat \<Rightarrow> string \<Rightarrow> nat \<Rightarrow> (core_error + (int \<times> bytes \<times> bytes)) call" where
  "execute_command env sp vfs cmd secs =
     try_then (await env sp) (\<lambda>_. answer (\<lambda>t. en_execute env t vfs cmd secs) (Ev_Execute vfs cmd secs))"

definition on_audit :: "unit al_act \<Rightarrow> unit call" where
  "on_audit m = (\<lambda>g. case m (gt_audit g) of (_, l) \<Rightarrow> (Inr (), g\<lparr>gt_audit := l\<rparr>))"

definition new_event :: "gate_env \<Rightarrow> string \<Rightarrow> string \<Rightarrow> string \<Rightarrow> string \<Rightarrow> string \<Rightarrow> string option \<Rightarrow> gate \<Rightarrow> audit_event" where
  "new_event env agent tool conn summary status diff g =
     \<lparr>ae_id = en_new_id env (gt_trace g), ae_timestamp = en_now env (gt_trace g), ae_agent_id = agent, ae_tool_name = tool,
      ae_connection_id = conn, ae_parameters_summary = summary, ae_status = status, ae_diff = diff\<rparr>"

text \<open>\<open>AuditLogger::log\<close> as part of a call: it waits for the file, and for the list of events.\<close>

definition audit :: "gate_env \<Rightarrow> bool \<Rightarrow> string \<Rightarrow> string \<Rightarrow> string \<Rightarrow> string \<Rightarrow> string \<Rightarrow> string option \<Rightarrow> unit call" where
  "audit env sp agent tool conn summary status diff =
     andThen (gets (new_event env agent tool conn summary status diff)) (\<lambda>event.
     try_then (await env sp) (\<lambda>_.
     try_then (on_audit (andThen (log_to_file (en_log env) event) (\<lambda>_. show_event event))) (\<lambda>_.
     try_then (await env sp) (\<lambda>_.
     try_then (on_audit (keep_event event)) (\<lambda>_.
     answer (\<lambda>t. ()) (\<lambda>_. Ev_Audit event))))))"

subsection \<open>Asking a person\<close>

definition display_connection_name :: "string \<Rightarrow> connection_info \<Rightarrow> string" where
  "display_connection_name conn_id info = (if ci_name info = [] then conn_id else ci_name info)"

definition write_approval_request ::
  "string \<Rightarrow> string \<Rightarrow> string \<Rightarrow> connection_info \<Rightarrow> string \<Rightarrow> bytes \<Rightarrow> string \<Rightarrow> nat option \<Rightarrow> approval_request" where
  "write_approval_request agent_id tool_name conn_id info path data new_sha256 previous_size =
     (let first = take APPROVAL_PREVIEW_BYTES data;
          truncated = (length first < length data);
          (text, encoding, used) = encode_for_agent first truncated;
          preview = (if encoding = Utf8 then Some text else None);
          summary = (case previous_size of
              Some old \<Rightarrow> ''Replace '' @ path @ '' ('' @ show_nat old @ '' bytes) with '' @ show_nat (length data) @ '' bytes''
            | None \<Rightarrow> ''Create '' @ path @ '' ('' @ show_nat (length data) @ '' bytes)'')
      in (new_request Kind_Write)\<lparr>ar_agent_id := agent_id, ar_tool_name := tool_name, ar_connection_id := conn_id,
           ar_connection_name := display_connection_name conn_id info, ar_path := path, ar_summary := summary,
           ar_new_size := length data, ar_new_sha256 := new_sha256, ar_previous_size := previous_size,
           ar_preview_truncated := preview \<noteq> None \<and> used < length data, ar_preview := preview\<rparr>)"

definition command_approval_request ::
  "string \<Rightarrow> string \<Rightarrow> connection_info \<Rightarrow> string \<Rightarrow> command_risk \<Rightarrow> approval_request" where
  "command_approval_request agent_id conn_id info command risk =
     (new_request Kind_Command)\<lparr>ar_agent_id := agent_id, ar_tool_name := ''run_command'', ar_connection_id := conn_id,
        ar_connection_name := display_connection_name conn_id info,
        ar_summary := ''Run a command on '' @ display_connection_name conn_id info,
        ar_command := Some command, ar_risk := Some (risk_as_str risk)\<rparr>"

text \<open>
  \<open>WithdrawnWriteAudit\<close>: a call dropped while it waits for the answer leaves an entry, made by a task of
  its own where a runtime is left.
\<close>

definition withdrawn :: "gate_env \<Rightarrow> string \<Rightarrow> string \<Rightarrow> string \<Rightarrow> string \<Rightarrow> string \<Rightarrow> gate \<Rightarrow> gate" where
  "withdrawn env agent tool conn path diff g =
     (if en_runtime env (gt_trace g) then snd (audit env True agent tool conn path WITHDRAWN_STATUS (Some diff) g) else g)"

definition ask_person :: "gate_env \<Rightarrow> string \<Rightarrow> string \<Rightarrow> string \<Rightarrow> string \<Rightarrow> string \<Rightarrow> approval_request \<Rightarrow> approval_decision call" where
  "ask_person env agent tool conn path diff request =
     andThen (gets (\<lambda>g. sv_approver (gt_server g))) (\<lambda>approver.
       case approver of
         None \<Rightarrow> ret (Inr (Denied ''no RustSCP window is available to approve it''))
       | Some a \<Rightarrow> (\<lambda>g.
           let decision = en_approve env (gt_trace g) a request;
               g' = happens (Ev_Ask a request decision) g
           in case decision of
             Some d \<Rightarrow> (Inr d, g')
           | None \<Rightarrow> (Inl Dropped, withdrawn env agent tool conn path diff g')))"

subsection \<open>Writing\<close>

definition previous_text :: "gate_env \<Rightarrow> bytes \<Rightarrow> string" where
  "previous_text env old = ''previous: '' @ show_nat (length old) @ '' bytes sha256='' @ en_sha256 env old"

definition write_and_audit ::
  "gate_env \<Rightarrow> nat \<Rightarrow> string \<Rightarrow> string \<Rightarrow> string \<Rightarrow> string \<Rightarrow> bytes \<Rightarrow> string \<Rightarrow> tool_result call" where
  "write_and_audit env vfs agent_id tool_name conn_id path data new_sha256 =
     (let audit' = audit env True agent_id tool_name conn_id path;
          write = (\<lambda>previous.
            let diff = previous @ ''; new: '' @ show_nat (length data) @ '' bytes sha256='' @ new_sha256 in
            try_then (write_file env True vfs path data) (\<lambda>r. case r of
                Inr _ \<Rightarrow> try_then (audit' ''success'' (Some diff)) (\<lambda>_. ret (Inr (success_text
                  (''File written successfully: '' @ path @ '' ('' @ show_nat (length data) @ '' bytes)''))))
              | Inl err \<Rightarrow> try_then (audit' (''error: '' @ error_text err) (Some diff)) (\<lambda>_.
                  ret (Inr (failure_text (''Failed to write file: '' @ error_text err))))))
      in try_then (metadata env True vfs path) (\<lambda>m. case m of
          Inr meta \<Rightarrow>
            if is_dir meta
            then try_then (audit' ''error: is a directory'' None) (\<lambda>_. ret (Inr (failure_text (path @ '' is a directory''))))
            else if fe_size meta \<le> MAX_HASHED_PREVIOUS_BYTES
            then try_then (read_file env True vfs path) (\<lambda>r. write (case r of
                Inr old \<Rightarrow> previous_text env old
              | Inl _ \<Rightarrow> ''previous: '' @ show_nat (fe_size meta) @ '' bytes''))
            else write (''previous: '' @ show_nat (fe_size meta) @ '' bytes (not hashed)'')
        | Inl _ \<Rightarrow> write ''previous: none (new file)''))"

definition decode_content :: "string \<Rightarrow> string \<Rightarrow> (string \<times> string) + bytes" where
  "decode_content encoding content =
     (if encoding \<in> set [''utf-8'', ''utf8'', ''text''] then Inr (as_bytes content)
      else if encoding = ''base64''
      then (case base64_decode (as_bytes content) of
          Inr d \<Rightarrow> Inr d
        | Inl e \<Rightarrow> Inl (''error: '' @ e, ''Invalid base64 content: '' @ e))
      else Inl (''error: unsupported encoding'', ''Unsupported encoding '' @ quote encoding @ '' (use 'utf-8' or 'base64')''))"

definition handle_write_file ::
  "gate_env \<Rightarrow> string \<Rightarrow> string \<Rightarrow> string \<Rightarrow> connection_info \<Rightarrow> nat \<Rightarrow> json \<Rightarrow> tool_result call" where
  "handle_write_file env agent_id tool_name conn_id info vfs arguments =
     (let path = (case str_member ''path'' arguments of Some p \<Rightarrow> p | None \<Rightarrow> []);
          content = (case str_member ''content'' arguments of Some c \<Rightarrow> c | None \<Rightarrow> []);
          encoding = to_ascii_lowercase (case str_member ''encoding'' arguments of Some e \<Rightarrow> e | None \<Rightarrow> ''utf-8'');
          audit' = audit env False agent_id tool_name conn_id path
      in case decode_content encoding content of
        Inl (status, message) \<Rightarrow> try_then (audit' status None) (\<lambda>_. ret (Inr (failure_text message)))
      | Inr data \<Rightarrow>
          try_then (metadata env False vfs path) (\<lambda>m.
            if (case m of Inr meta \<Rightarrow> is_dir meta | Inl _ \<Rightarrow> False)
            then try_then (audit' ''error: is a directory'' None) (\<lambda>_. ret (Inr (failure_text (path @ '' is a directory''))))
            else
              let previous_size = (case m of Inr meta \<Rightarrow> Some (fe_size meta) | Inl _ \<Rightarrow> None);
                  new_sha256 = en_sha256 env data;
                  request = write_approval_request agent_id tool_name conn_id info path data new_sha256 previous_size;
                  diff = ''new: '' @ show_nat (length data) @ '' bytes sha256='' @ new_sha256
              in try_then (ask_person env agent_id tool_name conn_id path diff request) (\<lambda>decision. case decision of
                  Denied reason \<Rightarrow> try_then (audit' (''denied: '' @ reason) (Some diff)) (\<lambda>_. ret (Inr (failure_text
                    (''The write to '' @ path @ '' was not allowed ('' @ reason @ ''). Nothing was changed.''))))
                | Approved \<Rightarrow>
                    try_then (write_and_audit env vfs agent_id tool_name conn_id path data new_sha256) (\<lambda>result.
                    try_then (await env False) (\<lambda>_. ret (Inr result))))))"

subsection \<open>Commands\<close>

definition show_int :: "int \<Rightarrow> string" where
  "show_int n = (if n < 0 then CHR ''-'' # show_nat (nat (- n)) else show_nat (nat n))"

definition clamp :: "nat \<Rightarrow> nat \<Rightarrow> nat \<Rightarrow> nat" where
  "clamp lo hi n = (if n < lo then lo else if n > hi then hi else n)"

definition command_arg :: "json \<Rightarrow> string" where
  "command_arg arguments = trim (case str_member ''command'' arguments of Some c \<Rightarrow> c | None \<Rightarrow> [])"

definition working_dir :: "json \<Rightarrow> string option" where
  "working_dir arguments =
     (case map_option trim (str_member ''working_dir'' arguments) of
        Some d \<Rightarrow> if d \<noteq> [] then Some d else None
      | None \<Rightarrow> None)"

definition timeout_secs :: "json \<Rightarrow> nat" where
  "timeout_secs arguments =
     clamp 1 MAX_COMMAND_TIMEOUT_SECS
       (case u64_member ''timeout_seconds'' arguments of Some n \<Rightarrow> n | None \<Rightarrow> DEFAULT_COMMAND_TIMEOUT_SECS)"

definition effective_command :: "string option \<Rightarrow> string \<Rightarrow> string" where
  "effective_command dir command =
     (case dir of Some d \<Rightarrow> ''cd '' @ sh_quote d @ '' && '' @ command | None \<Rightarrow> command)"

definition command_summary :: "string option \<Rightarrow> string \<Rightarrow> string" where
  "command_summary dir command = (case dir of Some d \<Rightarrow> command @ ''  (in '' @ d @ '')'' | None \<Rightarrow> command)"

definition command_reply :: "int \<Rightarrow> bytes \<Rightarrow> bytes \<Rightarrow> string \<Rightarrow> nat \<Rightarrow> tool_result" where
  "command_reply exit_code out err risk elapsed =
     (let (out_text, out_trunc) = trim_output out; (err_text, err_trunc) = trim_output err in
      success_json (R_Object [(''exit_code'', R_Num exit_code), (''stdout'', R_Utf8 out_text), (''stderr'', R_Utf8 err_text),
        (''stdout_truncated'', R_Bool out_trunc), (''stderr_truncated'', R_Bool err_trunc), (''risk'', R_Str risk),
        (''duration_ms'', R_Num (int elapsed))]))"

text \<open>The task that runs the command.\<close>

definition run_and_audit ::
  "gate_env \<Rightarrow> nat \<Rightarrow> string \<Rightarrow> string \<Rightarrow> string \<Rightarrow> string \<Rightarrow> nat \<Rightarrow> command_risk \<Rightarrow> command_access \<Rightarrow> tool_result call" where
  "run_and_audit env vfs agent conn summary effective secs risk access =
     (let how = ''risk='' @ risk_as_str risk @ '' access='' @ access_as_str access in
      try_then (execute_command env True vfs effective secs) (\<lambda>outcome.
      andThen (gets (\<lambda>g. en_elapsed env (gt_trace g))) (\<lambda>elapsed.
      case outcome of
        Inr (exit_code, out, err) \<Rightarrow>
          try_then (audit env True agent ''run_command'' conn summary (''exit '' @ show_int exit_code)
            (Some (how @ '' exit='' @ show_int exit_code @ '' stdout='' @ show_nat (length out) @ ''B stderr=''
                   @ show_nat (length err) @ ''B '' @ show_nat elapsed @ ''ms''))) (\<lambda>_.
          ret (Inr (command_reply exit_code out err (risk_as_str risk) elapsed)))
      | Inl err \<Rightarrow>
          try_then (audit env True agent ''run_command'' conn summary (''error: '' @ error_text err)
            (Some (how @ '' '' @ show_nat elapsed @ ''ms''))) (\<lambda>_.
          ret (Inr (failure_text (''The command failed: '' @ error_text err)))))))"

definition handle_run_command ::
  "gate_env \<Rightarrow> string \<Rightarrow> string \<Rightarrow> connection_info \<Rightarrow> nat \<Rightarrow> json \<Rightarrow> tool_result call" where
  "handle_run_command env agent_id conn_id info vfs arguments =
     (let command = command_arg arguments; dir = working_dir arguments;
          effective = effective_command dir command; summary = command_summary dir command;
          risk = classify_command command; risk_note = Some (''risk='' @ risk_as_str risk);
          audit' = audit env False agent_id ''run_command'' conn_id;
          stop = (\<lambda>summary status diff message. try_then (audit' summary status diff) (\<lambda>_. ret (Inr (failure_text message))))
      in if command = [] then stop [] ''error: empty command'' None ''command is required and must not be empty''
         else if \<not> en_shell env vfs
         then stop command ''error: no shell on this connection'' None
           (''The '' @ quote (display_connection_name conn_id info) @ '' connection does not run shell commands ''
            @ ''(only SSH/SFTP servers do). Use the file tools instead.'')
         else andThen (gets (\<lambda>g. current_access (gt_server g))) (\<lambda>access.
           let run = try_then (run_and_audit env vfs agent_id conn_id summary effective (timeout_secs arguments) risk access)
                 (\<lambda>result. try_then (await env False) (\<lambda>_. ret (Inr result)))
           in case decide access risk of
             Deny reason \<Rightarrow> stop summary (''denied by policy: '' @ reason) risk_note
               (''This command was not run: '' @ reason @ '' (risk: '' @ risk_as_str risk @ '').'')
           | Ask \<Rightarrow>
               try_then (ask_person env agent_id ''run_command'' conn_id summary (''risk='' @ risk_as_str risk)
                 (command_approval_request agent_id conn_id info command risk)) (\<lambda>decision. case decision of
                   Denied reason \<Rightarrow> stop summary (''denied: '' @ reason) risk_note
                     (''The command was not allowed ('' @ reason @ ''). Nothing was run.'')
                 | Approved \<Rightarrow> run)
           | Allow \<Rightarrow> run))"

subsection \<open>Reading\<close>

text \<open>An operation that is audited as it ends: with success, or with its error.\<close>

definition audited ::
  "gate_env \<Rightarrow> string \<Rightarrow> string \<Rightarrow> string \<Rightarrow> string \<Rightarrow> (core_error + 'a) call \<Rightarrow> ('a \<Rightarrow> tool_result) \<Rightarrow> string \<Rightarrow> tool_result call" where
  "audited env agent tool conn summary m result failed =
     try_then m (\<lambda>r. case r of
         Inr x \<Rightarrow> try_then (audit env False agent tool conn summary ''success'' None) (\<lambda>_. ret (Inr (result x)))
       | Inl err \<Rightarrow> try_then (audit env False agent tool conn summary (''error: '' @ error_text err) None) (\<lambda>_.
           ret (Inr (failure_text (failed @ error_text err)))))"

definition handle_list_dir :: "gate_env \<Rightarrow> string \<Rightarrow> string \<Rightarrow> nat \<Rightarrow> json \<Rightarrow> tool_result call" where
  "handle_list_dir env agent_id conn_id vfs arguments =
     (let path = (case str_member ''path'' arguments of Some p \<Rightarrow> p | None \<Rightarrow> ''/'') in
      audited env agent_id ''fs_list_dir'' conn_id path (list_dir env False vfs path)
        (\<lambda>entries. success_json (R_Object [(''entries'', R_Entries entries)])) ''Failed to list directory: '')"

definition handle_search :: "gate_env \<Rightarrow> string \<Rightarrow> string \<Rightarrow> nat \<Rightarrow> json \<Rightarrow> tool_result call" where
  "handle_search env agent_id conn_id vfs arguments =
     (let pattern = (case str_member ''pattern'' arguments of Some p \<Rightarrow> p | None \<Rightarrow> []);
          start = (case str_member ''root_path'' arguments of Some p \<Rightarrow> p | None \<Rightarrow> ''/'') in
      audited env agent_id ''fs_search'' conn_id (pattern @ '' in '' @ start) (search_files env False vfs start pattern 50)
        (\<lambda>results. success_json (R_Object [(''matches'', R_Entries results)])) ''Search failed: '')"

text \<open>Offsets are 64 bits.\<close>

definition read_reply :: "string \<Rightarrow> nat \<Rightarrow> nat \<Rightarrow> nat option \<Rightarrow> bytes \<Rightarrow> tool_result" where
  "read_reply path off len whole data =
     (let truncated = (case whole of Some t \<Rightarrow> (off + length data) mod 2 ^ 64 < t | None \<Rightarrow> length data = len);
          (content, encoding, used) = encode_for_agent data truncated;
          used_end = (off + used) mod 2 ^ 64;
          more = (truncated \<or> used < length data)
      in \<lparr>tr_content = [Content_Text content, Content_Json (R_Object
            [(''path'', R_Str path), (''offset'', R_Num (int off)), (''bytes_returned'', R_Num (int used)),
             (''next_offset'', R_Num (int used_end)),
             (''total_size'', case whole of Some t \<Rightarrow> R_Num (int t) | None \<Rightarrow> R_Null),
             (''truncated'', R_Bool more), (''encoding'', R_Str (encoding_name encoding))])],
          tr_is_error = False\<rparr>)"

definition read_offset :: "json \<Rightarrow> nat" where
  "read_offset arguments = (case u64_member ''offset'' arguments of Some n \<Rightarrow> n | None \<Rightarrow> 0)"

definition read_length :: "json \<Rightarrow> nat" where
  "read_length arguments = clamp 1 MAX_READ_BYTES (case u64_member ''length'' arguments of Some n \<Rightarrow> n | None \<Rightarrow> DEFAULT_READ_BYTES)"

definition handle_read_file :: "gate_env \<Rightarrow> string \<Rightarrow> string \<Rightarrow> nat \<Rightarrow> json \<Rightarrow> tool_result call" where
  "handle_read_file env agent_id conn_id vfs arguments =
     (let path = (case str_member ''path'' arguments of Some p \<Rightarrow> p | None \<Rightarrow> []);
          off = read_offset arguments; len = read_length arguments;
          summary = path @ '' [offset '' @ show_nat off @ '', length '' @ show_nat len @ '']'' in
      try_then (metadata env False vfs path) (\<lambda>m.
        if (case m of Inr meta \<Rightarrow> is_dir meta | Inl _ \<Rightarrow> False)
        then try_then (audit env False agent_id ''fs_read_file'' conn_id summary ''error: is a directory'' None)
               (\<lambda>_. ret (Inr (failure_text (path @ '' is a directory''))))
        else audited env agent_id ''fs_read_file'' conn_id summary (read_range env False vfs path off len)
               (read_reply path off len (case m of Inr meta \<Rightarrow> Some (fe_size meta) | Inl _ \<Rightarrow> None))
               ''Failed to read file: ''))"

subsection \<open>Sessions and actions\<close>

definition NO_SESSIONS_NOTE :: string where
  "NO_SESSIONS_NOTE = ''No server is connected in RustSCP right now. Ask the user to connect one in the RustSCP app, then call session_list again.''"

definition connection_id_of :: "reply_value \<Rightarrow> reply_value" where
  "connection_id_of v = (case v of R_Object ((k, i) # _) \<Rightarrow> i | _ \<Rightarrow> R_Null)"

definition handle_session_list :: "gate_env \<Rightarrow> string \<Rightarrow> tool_result call" where
  "handle_session_list env agent_id =
     try_then (await env False) (\<lambda>_.
     andThen (gets (\<lambda>g. session_summaries (gt_server g))) (\<lambda>sessions.
     try_then (audit env False agent_id ''session_list'' ''none'' ''listing sessions'' ''success'' None) (\<lambda>_.
     ret (Inr (success_json (R_Object ([(''sessions'', R_List sessions), (''active_sessions'', R_List (map connection_id_of sessions))]
       @ (if sessions = [] then [(''note'', R_Str NO_SESSIONS_NOTE)] else []))))))))"

definition action_params :: "gate_env \<Rightarrow> json \<Rightarrow> (string \<times> string) list" where
  "action_params env arguments =
     (case Option.bind (j_get ''params'' arguments) as_object of
        Some kvs \<Rightarrow> map (\<lambda>(k, v). (k, case as_str v of Some s \<Rightarrow> s | None \<Rightarrow> en_json env v)) kvs
      | None \<Rightarrow> [])"

definition selected_paths :: "json \<Rightarrow> string list" where
  "selected_paths arguments =
     (case Option.bind (j_get ''selected_paths'' arguments) as_array of
        Some vs \<Rightarrow> List.map_filter as_str vs
      | None \<Rightarrow> [])"

definition risk_name :: "risk_level \<Rightarrow> string" where
  "risk_name r = (case r of Risk_Safe \<Rightarrow> ''safe'' | Risk_Warning \<Rightarrow> ''warning'' | Risk_Dangerous \<Rightarrow> ''dangerous'')"

definition handle_smart_action :: "gate_env \<Rightarrow> string \<Rightarrow> string \<Rightarrow> string \<Rightarrow> json \<Rightarrow> tool_result call" where
  "handle_smart_action env agent_id tool_name conn_id arguments =
     (let action_id = (case str_member ''action_id'' arguments of Some i \<Rightarrow> i | None \<Rightarrow> []);
          current_dir = (case str_member ''current_dir'' arguments of Some d \<Rightarrow> d | None \<Rightarrow> ''/'');
          ctx = \<lparr>cx_selected_paths = selected_paths arguments, cx_current_remote_dir = current_dir\<rparr>;
          audit' = audit env False agent_id tool_name conn_id
      in case find (\<lambda>a. ac_id a = action_id) builtin_actions of
          None \<Rightarrow> try_then (audit' action_id ''error: unknown action'' None) (\<lambda>_.
            ret (Inr (failure_text (''Action '' @ quote action_id @ '' not found in catalog''))))
        | Some act \<Rightarrow>
            (case render_command (en_matchers env) act ctx (action_params env arguments) of
               Inr cmd \<Rightarrow> try_then (audit' cmd ''rendered_safe_command'' None) (\<lambda>_.
                 ret (Inr (success_json (R_Object [(''action'', R_Str (en_us (ac_name act))),
                   (''risk_level'', R_Str (risk_name (ac_risk act))), (''rendered_command'', R_Str cmd), (''executed'', R_Bool False)]))))
             | Inl err \<Rightarrow> try_then (audit' action_id (''error: '' @ action_error_text err) None) (\<lambda>_.
                 ret (Inr (failure_text (''Action validation failed: '' @ action_error_text err))))))"

subsection \<open>Tool calls\<close>

definition needs_connection :: "string \<Rightarrow> bool" where
  "needs_connection tool_name =
     (tool_name \<in> set [''fs_list_dir'', ''fs_read_file'', ''fs_write_file'', ''fs_search'', ''run_command''])"

definition call_summary :: "json \<Rightarrow> string" where
  "call_summary arguments =
     (case str_member ''path'' arguments of Some p \<Rightarrow> p
      | None \<Rightarrow> (case str_member ''pattern'' arguments of Some p \<Rightarrow> p
          | None \<Rightarrow> (case str_member ''command'' arguments of Some c \<Rightarrow> c | None \<Rightarrow> [])))"

definition handle_session_tool ::
  "gate_env \<Rightarrow> string \<Rightarrow> string \<Rightarrow> string \<Rightarrow> connection_info \<Rightarrow> nat \<Rightarrow> json \<Rightarrow> tool_result call" where
  "handle_session_tool env agent_id tool_name conn_id info vfs arguments =
     (if tool_name = ''fs_list_dir'' then handle_list_dir env agent_id conn_id vfs arguments
      else if tool_name = ''fs_read_file'' then handle_read_file env agent_id conn_id vfs arguments
      else if tool_name = ''fs_write_file'' then handle_write_file env agent_id tool_name conn_id info vfs arguments
      else if tool_name = ''run_command'' then handle_run_command env agent_id conn_id info vfs arguments
      else handle_search env agent_id conn_id vfs arguments)"

definition handle_tool_call :: "gate_env \<Rightarrow> string \<Rightarrow> string \<Rightarrow> json \<Rightarrow> tool_result call" where
  "handle_tool_call env agent_id tool_name arguments =
     (let conn_arg = str_member ''connection_id'' arguments;
          conn_id = (case conn_arg of Some c \<Rightarrow> c | None \<Rightarrow> ''none'');
          stop = (\<lambda>summary status message. try_then (audit env False agent_id tool_name conn_id summary status None)
                    (\<lambda>_. ret (Inr (failure_text message))))
      in if needs_connection tool_name
         then (case conn_arg of
             None \<Rightarrow> stop (call_summary arguments) ''error: missing connection_id''
               ''connection_id is required: call session_list to get the ids of the connected sessions''
           | Some requested \<Rightarrow>
               try_then (await env False) (\<lambda>_.
               andThen (gets (\<lambda>g. connection requested (gt_server g))) (\<lambda>found. case found of
                   None \<Rightarrow> stop (call_summary arguments) ''error: connection not found''
                     (''Connection '' @ quote conn_id @ '' not found or inactive (call session_list for the connected sessions)'')
                 | Some (vfs, info) \<Rightarrow> handle_session_tool env agent_id tool_name conn_id info vfs arguments)))
         else if tool_name = ''session_list'' then handle_session_list env agent_id
         else if tool_name \<in> set [''render_smart_action'', ''exec_smart_action'']
         then handle_smart_action env agent_id tool_name conn_id arguments
         else stop [] ''error: unknown tool'' (''Unknown tool: '' @ tool_name))"

end
