(* ===== verification/AgentServerFacts.thy ===== *)
theory AgentServerFacts
  imports AgentServer
begin

section \<open>What tool calls do\<close>

text \<open>
  A call is judged by the events it adds to the trace. \<open>emits sv m Q\<close>: from the server \<open>sv\<close> the call \<open>m\<close>
  adds events with \<open>Q\<close>, and the server changes only by what the others do.
\<close>

subsection \<open>Events\<close>

definition others_of :: "gate_trace \<Rightarrow> server_op list" where
  "others_of evs = concat (map (\<lambda>e. case e of Ev_Others ops \<Rightarrow> ops | _ \<Rightarrow> []) evs)"

definition after :: "gate_trace \<Rightarrow> mcp_server \<Rightarrow> mcp_server" where
  "after evs sv = fold server_step (others_of evs) sv"

lemma after_simps [simp]: "after [] sv = sv" "after (a @ b) sv = after b (after a sv)"
  by (simp_all add: after_def others_of_def)

definition emits :: "mcp_server \<Rightarrow> 'a call \<Rightarrow> (dropped + 'a \<Rightarrow> gate_trace \<Rightarrow> bool) \<Rightarrow> bool" where
  "emits sv m Q =
     (\<forall>g r g'. gt_server g = sv \<longrightarrow> m g = (r, g') \<longrightarrow>
        (\<exists>evs. gt_trace g' = gt_trace g @ evs \<and> gt_server g' = after evs sv \<and> Q r evs))"

lemma emitsI:
  "(\<And>g r g'. gt_server g = sv \<Longrightarrow> m g = (r, g') \<Longrightarrow>
     \<exists>evs. gt_trace g' = gt_trace g @ evs \<and> gt_server g' = after evs sv \<and> Q r evs) \<Longrightarrow> emits sv m Q"
  by (simp add: emits_def)

lemma emitsD:
  "emits (gt_server g) m Q \<Longrightarrow> m g = (r, g') \<Longrightarrow>
   \<exists>evs. gt_trace g' = gt_trace g @ evs \<and> gt_server g' = after evs (gt_server g) \<and> Q r evs"
  by (simp add: emits_def)

lemma emits_weaken:
  assumes "emits sv m Q" and "\<And>r evs. Q r evs \<Longrightarrow> Q' r evs"
  shows "emits sv m Q'"
proof (rule emitsI)
  fix g r g' assume g: "gt_server g = sv" "m g = (r, g')"
  have "emits (gt_server g) m Q" using assms(1) g(1) by simp
  from emitsD [OF this g(2)] show "\<exists>evs. gt_trace g' = gt_trace g @ evs \<and> gt_server g' = after evs sv \<and> Q' r evs"
    using assms(2) g(1) by blast
qed

lemma emits_conj: "emits sv m Q \<Longrightarrow> emits sv m R \<Longrightarrow> emits sv m (\<lambda>r evs. Q r evs \<and> R r evs)"
  unfolding emits_def by (metis same_append_eq)

lemma emits_ret: "Q r [] \<Longrightarrow> emits sv (ret r) Q"
  by (rule emitsI) (simp add: ret_def)

lemma emits_try:
  assumes m: "emits sv m R" and l: "\<And>e evs. R (Inl e) evs \<Longrightarrow> Q (Inl e) evs"
    and f: "\<And>x e1. R (Inr x) e1 \<Longrightarrow> emits (after e1 sv) (f x) (\<lambda>r e2. Q r (e1 @ e2))"
  shows "emits sv (try_then m f) Q"
proof (rule emitsI)
  fix g r g'
  assume g: "gt_server g = sv" and run: "try_then m f g = (r, g')"
  obtain r1 g1 where m1: "m g = (r1, g1)" by (cases "m g")
  obtain e1 where e1: "gt_trace g1 = gt_trace g @ e1" "gt_server g1 = after e1 sv" "R r1 e1"
    using emitsD [of g m R] m m1 g by blast
  show "\<exists>evs. gt_trace g' = gt_trace g @ evs \<and> gt_server g' = after evs sv \<and> Q r evs"
  proof (cases r1)
    case (Inl e)
    then have "r = Inl e" "g' = g1" using run m1 by (simp_all add: try_then_def andThen_def ret_def)
    then show ?thesis using e1 l Inl by blast
  next
    case (Inr x)
    then have "f x g1 = (r, g')" using run m1 by (simp add: try_then_def andThen_def)
    then have run2: "f x g1 = (r, g')" by simp
    have "emits (gt_server g1) (f x) (\<lambda>r e2. Q r (e1 @ e2))" using f [of x e1] e1 Inr by simp
    from emitsD [OF this run2] obtain e2 where "gt_trace g' = gt_trace g1 @ e2" "gt_server g' = after e2 (after e1 sv)" "Q r (e1 @ e2)"
      using e1(2) by auto
    then show ?thesis using e1 by (intro exI [of _ "e1 @ e2"]) simp
  qed
qed

lemma emits_gets_server:
  "emits sv (f (h sv)) Q \<Longrightarrow> emits sv (andThen (gets (\<lambda>g. h (gt_server g))) f) Q"
  by (auto simp: emits_def andThen_def gets_def)

lemma emits_gets: "(\<And>x. emits sv (f x) Q) \<Longrightarrow> emits sv (andThen (gets h) f) Q"
  by (auto simp: emits_def andThen_def gets_def)

lemma emits_if: "(b \<Longrightarrow> emits sv m Q) \<Longrightarrow> (\<not> b \<Longrightarrow> emits sv n Q) \<Longrightarrow> emits sv (if b then m else n) Q"
  by simp

subsection \<open>Single steps\<close>

lemma emits_await: "emits sv (await env sp) (\<lambda>r evs. \<exists>ops. evs = [Ev_Others ops] \<and> (sp \<longrightarrow> r = Inr ()))"
  by (rule emitsI) (auto simp: await_def Let_def happens_def after_def others_of_def split: if_splits)

lemma emits_answer:
  "(\<And>x. others_of [ev x] = []) \<Longrightarrow> emits sv (answer f ev) (\<lambda>r evs. \<exists>x. r = Inr x \<and> evs = [ev x])"
  by (rule emitsI) (auto simp: answer_def Let_def happens_def after_def)

text \<open>A call of the surroundings: one event after waiting.\<close>

definition calls :: "mcp_server \<Rightarrow> 'a call \<Rightarrow> bool \<Rightarrow> ('a \<Rightarrow> gate_event) \<Rightarrow> bool" where
  "calls sv m sp ev = emits sv m (\<lambda>r evs. (\<exists>ops. r = Inl Dropped \<and> \<not> sp \<and> evs = [Ev_Others ops]) \<or>
     (\<exists>ops x. r = Inr x \<and> evs = [Ev_Others ops, ev x]))"

lemma calls_waiting:
  assumes "\<And>x. others_of [ev x] = []"
  shows "calls sv (try_then (await env sp) (\<lambda>_. answer f ev)) sp ev"
  unfolding calls_def
proof (rule emits_try [OF emits_await])
  fix e :: dropped and evs assume "\<exists>ops. evs = [Ev_Others ops] \<and> (sp \<longrightarrow> Inl e = Inr ())"
  then show "(\<exists>ops. Inl e = Inl Dropped \<and> \<not> sp \<and> evs = [Ev_Others ops]) \<or> (\<exists>ops x. Inl e = Inr x \<and> evs = [Ev_Others ops, ev x])"
    by (cases e) auto
next
  fix x e1 assume "\<exists>ops. e1 = [Ev_Others ops] \<and> (sp \<longrightarrow> Inr x = Inr ())"
  then show "emits (after e1 sv) (answer f ev) (\<lambda>r e2. (\<exists>ops. r = Inl Dropped \<and> \<not> sp \<and> e1 @ e2 = [Ev_Others ops]) \<or>
      (\<exists>ops x. r = Inr x \<and> e1 @ e2 = [Ev_Others ops, ev x]))"
    by (auto intro: emits_weaken [OF emits_answer [OF assms]])
qed

lemma calls_session:
  "calls sv (metadata env sp vfs path) sp (Ev_Metadata vfs path)"
  "calls sv (read_file env sp vfs path) sp (Ev_Read_File vfs path)"
  "calls sv (read_range env sp vfs path off len) sp (Ev_Read_Range vfs path off len)"
  "calls sv (write_file env sp vfs path data) sp (Ev_Write_File vfs path data)"
  "calls sv (list_dir env sp vfs path) sp (Ev_List_Dir vfs path)"
  "calls sv (search_files env sp vfs start pattern most) sp (Ev_Search vfs start pattern most)"
  "calls sv (execute_command env sp vfs cmd secs) sp (Ev_Execute vfs cmd secs)"
  unfolding metadata_def read_file_def read_range_def write_file_def list_dir_def search_files_def execute_command_def
  by (rule calls_waiting, simp add: others_of_def)+

lemma emits_on_audit: "emits sv (on_audit m) (\<lambda>r evs. r = Inr () \<and> evs = [])"
  by (rule emitsI) (auto simp: on_audit_def split: prod.splits)

text \<open>Quiet events: neither a change nor a question nor an entry of the log.\<close>

definition quiet :: "gate_event \<Rightarrow> bool" where
  "quiet e = (case e of Ev_Write_File _ _ _ _ \<Rightarrow> False | Ev_Execute _ _ _ _ \<Rightarrow> False | Ev_Ask _ _ _ \<Rightarrow> False | Ev_Audit _ \<Rightarrow> False | _ \<Rightarrow> True)"

text \<open>What writing an entry adds: the entry at the end, unless the call was dropped before.\<close>

lemma emits_audit:
  "emits sv (audit env sp agent tool conn summary status diff) (\<lambda>r evs.
     (r = Inl Dropped \<and> \<not> sp \<and> list_all quiet evs) \<or>
     (r = Inr () \<and> (\<exists>evs' e. evs = evs' @ [Ev_Audit e] \<and> list_all quiet evs' \<and> ae_agent_id e = agent \<and> ae_tool_name e = tool
        \<and> ae_connection_id e = conn \<and> ae_parameters_summary e = summary \<and> ae_status e = status \<and> ae_diff e = diff)))"
  (is "emits _ _ ?Q")
  unfolding audit_def
proof (rule emitsI)
  fix g r g' 
  let ?event = "new_event env agent tool conn summary status diff g"
  let ?rest = "try_then (await env sp) (\<lambda>_.
     try_then (on_audit (andThen (log_to_file (en_log env) ?event) (\<lambda>_. show_event ?event))) (\<lambda>_.
     try_then (await env sp) (\<lambda>_. try_then (on_audit (keep_event ?event)) (\<lambda>_. answer (\<lambda>t. ()) (\<lambda>_. Ev_Audit ?event)))))"
  assume g: "gt_server g = sv" and run: "andThen (gets (new_event env agent tool conn summary status diff)) (\<lambda>event.
     try_then (await env sp) (\<lambda>_. try_then (on_audit (andThen (log_to_file (en_log env) event) (\<lambda>_. show_event event))) (\<lambda>_.
     try_then (await env sp) (\<lambda>_. try_then (on_audit (keep_event event)) (\<lambda>_. answer (\<lambda>t. ()) (\<lambda>_. Ev_Audit event)))))) g = (r, g')"
  then have "?rest g = (r, g')" by (simp add: andThen_def gets_def)
  moreover have "emits sv ?rest ?Q"
  proof (rule emits_try [OF emits_await], goal_cases)
    case (1 e evs)
    then show ?case by (cases e) (auto simp: quiet_def)
  next
    case (2 x e1)
    then obtain ops1 where e1: "e1 = [Ev_Others ops1]" by blast
    show ?case
    proof (rule emits_try [OF emits_on_audit], goal_cases)
      case (2 y e2)
      then have e2: "e2 = []" by simp
      show ?case
      proof (rule emits_try [OF emits_await], goal_cases)
        case (1 e evs)
        then show ?case by (cases e) (auto simp: quiet_def e1 e2)
      next
        case (2 z e3)
        then obtain ops3 where e3: "e3 = [Ev_Others ops3]" by blast
        show ?case
        proof (rule emits_try [OF emits_on_audit], goal_cases)
          case (2 w e4)
          then have e4: "e4 = []" by simp
          show ?case
            by (rule emits_weaken [OF emits_answer]) (auto simp: others_of_def e1 e2 e3 e4 quiet_def new_event_def)
        qed auto
      qed
    qed auto
  qed
  ultimately show "\<exists>evs. gt_trace g' = gt_trace g @ evs \<and> gt_server g' = after evs sv \<and> ?Q r evs"
    using emitsD [of g ?rest ?Q] g by blast
qed

subsection \<open>Changes and their permission\<close>

definition changing :: "gate_event \<Rightarrow> bool" where
  "changing e = (case e of Ev_Write_File _ _ _ _ \<Rightarrow> True | Ev_Execute _ _ _ _ \<Rightarrow> True | _ \<Rightarrow> False)"

definition is_entry :: "gate_event \<Rightarrow> bool" where
  "is_entry e = (case e of Ev_Audit _ \<Rightarrow> True | _ \<Rightarrow> False)"

text \<open>The server had a property at some moment before.\<close>

definition once_server :: "(mcp_server \<Rightarrow> bool) \<Rightarrow> mcp_server \<Rightarrow> gate_trace \<Rightarrow> bool" where
  "once_server P sv pre = (\<exists>pre1 pre2. pre = pre1 @ pre2 \<and> P (after pre1 sv))"

text \<open>A person approved a request.\<close>

definition approved_request :: "(approval_request \<Rightarrow> bool) \<Rightarrow> gate_trace \<Rightarrow> bool" where
  "approved_request P pre = (\<exists>a req. Ev_Ask a req (Some Approved) \<in> set pre \<and> P req)"

definition shows_write :: "gate_env \<Rightarrow> string \<Rightarrow> string \<Rightarrow> bytes \<Rightarrow> approval_request \<Rightarrow> bool" where
  "shows_write env conn path data req =
     (ar_kind req = Kind_Write \<and> ar_connection_id req = conn \<and> ar_path req = path \<and> ar_new_size req = length data \<and>
      ar_new_sha256 req = en_sha256 env data)"

definition shows_command :: "string \<Rightarrow> string \<Rightarrow> approval_request \<Rightarrow> bool" where
  "shows_command conn command req =
     (ar_kind req = Kind_Command \<and> ar_connection_id req = conn \<and> ar_command req = Some command \<and>
      ar_risk req = Some (risk_as_str (classify_command command)))"

text \<open>Why a change may happen.\<close>

definition permitted ::
  "gate_env \<Rightarrow> string \<Rightarrow> json \<Rightarrow> string \<Rightarrow> nat \<Rightarrow> mcp_server \<Rightarrow> gate_trace \<Rightarrow> gate_event \<Rightarrow> bool" where
  "permitted env tool args conn vfs sv pre e =
     (case e of
        Ev_Write_File vfs' path data r \<Rightarrow>
          tool = ''fs_write_file'' \<and> vfs' = vfs \<and> approved_request (shows_write env conn path data) pre
      | Ev_Execute vfs' cmd secs r \<Rightarrow>
          tool = ''run_command'' \<and> vfs' = vfs \<and> cmd = effective_command (working_dir args) (command_arg args) \<and>
          1 \<le> secs \<and> secs \<le> MAX_COMMAND_TIMEOUT_SECS \<and>
          (approved_request (shows_command conn (command_arg args)) pre \<or>
           once_server (\<lambda>s. decide (current_access s) (classify_command (command_arg args)) = Allow) sv pre)
      | _ \<Rightarrow> True)"

fun justified :: "(gate_trace \<Rightarrow> gate_event \<Rightarrow> bool) \<Rightarrow> gate_trace \<Rightarrow> bool" where
  "justified ok [] = True"
| "justified ok (e # evs) = (ok [] e \<and> justified (\<lambda>pre. ok (e # pre)) evs)"

definition entries :: "gate_trace \<Rightarrow> nat" where
  "entries evs = length (filter is_entry evs)"

definition changes :: "gate_trace \<Rightarrow> nat" where
  "changes evs = length (filter changing evs)"

text \<open>A proper call: at most one change, one entry unless it was dropped before any change, and every
  change with permission.\<close>

definition proper :: "(gate_trace \<Rightarrow> gate_event \<Rightarrow> bool) \<Rightarrow> dropped + 'a \<Rightarrow> gate_trace \<Rightarrow> bool" where
  "proper ok r evs =
     (entries evs \<le> 1 \<and> changes evs \<le> 1 \<and> (r \<noteq> Inl Dropped \<or> changes evs \<noteq> 0 \<longrightarrow> entries evs = 1) \<and> justified ok evs)"

lemma counts [simp]:
  "entries [] = 0" "changes [] = 0" "entries (a @ b) = entries a + entries b" "changes (a @ b) = changes a + changes b"
  "entries (e # b) = (if is_entry e then 1 else 0) + entries b" "changes (e # b) = (if changing e then 1 else 0) + changes b"
  by (simp_all add: entries_def changes_def)

lemma quiet_counts: "list_all quiet evs \<Longrightarrow> entries evs = 0 \<and> changes evs = 0"
  by (induction evs) (auto simp: quiet_def is_entry_def changing_def split: gate_event.splits)

lemma justified_append: "justified ok (a @ b) \<longleftrightarrow> justified ok a \<and> justified (\<lambda>pre. ok (a @ pre)) b"
  by (induction a arbitrary: ok) auto

lemma justifiedD: "justified ok (pre @ e # post) \<Longrightarrow> ok pre e"
  by (simp add: justified_append)

lemma justified_mono: "justified ok evs \<Longrightarrow> (\<And>pre e. ok pre e \<Longrightarrow> ok' pre e) \<Longrightarrow> justified ok' evs"
  by (induction evs arbitrary: ok ok') auto

lemma justified_unchanged: "changes evs = 0 \<Longrightarrow> (\<And>pre e. \<not> changing e \<Longrightarrow> ok pre e) \<Longrightarrow> justified ok evs"
  by (induction evs arbitrary: ok) (auto split: if_splits)

lemma permitted_unchanged: "\<not> changing e \<Longrightarrow> permitted env tool args conn vfs sv pre e"
  by (simp add: permitted_def changing_def split: gate_event.splits)

lemma once_server_append: "once_server P (after a sv) pre \<Longrightarrow> once_server P sv (a @ pre)"
  unfolding once_server_def by (metis append.assoc after_simps(2))

lemma approved_append: "approved_request P pre \<Longrightarrow> approved_request P (a @ pre)"
  by (auto simp: approved_request_def)

lemma permitted_append:
  "permitted env tool args conn vfs (after a sv) pre e \<Longrightarrow> permitted env tool args conn vfs sv (a @ pre) e"
  by (auto simp: permitted_def once_server_append approved_append split: gate_event.splits)

abbreviation proper_call where
  "proper_call env tool args conn vfs sv \<equiv> proper (permitted env tool args conn vfs sv)"

text \<open>Quiet events before a proper call.\<close>

lemma proper_quiet:
  assumes "list_all quiet a" and "proper_call env tool args conn vfs (after a sv) r b"
  shows "proper_call env tool args conn vfs sv r (a @ b)"
proof -
  have "justified (permitted env tool args conn vfs sv) a"
    using quiet_counts [OF assms(1)] by (auto intro: justified_unchanged permitted_unchanged)
  moreover have "justified (\<lambda>pre. permitted env tool args conn vfs sv (a @ pre)) b"
    using assms(2) by (auto simp: proper_def intro: justified_mono permitted_append)
  ultimately show ?thesis using assms(2) quiet_counts [OF assms(1)] by (simp add: proper_def justified_append)
qed

lemma proper_unchanged: "changes evs = 0 \<Longrightarrow> entries evs \<le> 1 \<Longrightarrow> (r \<noteq> Inl Dropped \<longrightarrow> entries evs = 1) \<Longrightarrow> proper_call env tool args conn vfs sv r evs"
  by (auto simp: proper_def intro: justified_unchanged permitted_unchanged)

text \<open>The two ways calls are built: something quiet and the rest, an entry and the answer.\<close>

definition silent :: "mcp_server \<Rightarrow> 'a call \<Rightarrow> bool" where
  "silent sv m = emits sv m (\<lambda>r evs. list_all quiet evs)"

lemma silent_await: "silent sv (await env sp)"
  unfolding silent_def by (rule emits_weaken [OF emits_await]) (auto simp: quiet_def)

lemma silent_session:
  "silent sv (metadata env sp vfs path)" "silent sv (read_file env sp vfs path)" "silent sv (read_range env sp vfs path off len)"
  "silent sv (list_dir env sp vfs path)" "silent sv (search_files env sp vfs start pattern most)"
  unfolding silent_def
  by (rule emits_weaken [OF calls_session(1) [unfolded calls_def]] emits_weaken [OF calls_session(2) [unfolded calls_def]]
      emits_weaken [OF calls_session(3) [unfolded calls_def]] emits_weaken [OF calls_session(5) [unfolded calls_def]]
      emits_weaken [OF calls_session(6) [unfolded calls_def]], auto simp: quiet_def)+

lemma dropped_all: "(e :: dropped) = Dropped"
  by (cases e) simp

lemma proper_after_silent:
  assumes "silent sv m" and "\<And>x sv'. emits sv' (f x) (proper_call env tool args conn vfs sv')"
  shows "emits sv (try_then m f) (proper_call env tool args conn vfs sv)"
proof (rule emits_try [OF assms(1) [unfolded silent_def]])
  fix e evs assume "list_all quiet evs"
  then show "proper_call env tool args conn vfs sv (Inl e) evs"
    using quiet_counts dropped_all by (auto intro: proper_unchanged)
next
  fix x e1 assume "list_all quiet e1"
  then show "emits (after e1 sv) (f x) (\<lambda>r e2. proper_call env tool args conn vfs sv r (e1 @ e2))"
    by (rule emits_weaken [OF assms(2) proper_quiet])
qed

lemma proper_stop:
  "emits sv (try_then (audit env' False agent tool' conn' summary status diff) (\<lambda>_. ret (Inr x))) (proper_call env tool args conn vfs sv)"
proof (rule emits_try [OF emits_audit], goal_cases)
  case (1 e evs)
  then show ?case using quiet_counts by (cases e) (auto intro!: proper_unchanged)
next
  case (2 y e1)
  then obtain evs' ev where "e1 = evs' @ [Ev_Audit ev]" "list_all quiet evs'" by auto
  then show ?case using quiet_counts [of evs'] by (intro emits_ret proper_unchanged) (auto simp: changing_def is_entry_def)
qed

subsection \<open>Asking and doing\<close>

lemma emits_ask:
  "emits sv (ask_person env agent tool conn path diff req) (\<lambda>r evs.
     (\<exists>reason. r = Inr (Denied reason) \<and> evs = []) \<or> (\<exists>a d. r = Inr d \<and> evs = [Ev_Ask a req (Some d)]) \<or>
     (\<exists>a w. r = Inl Dropped \<and> evs = Ev_Ask a req None # w \<and> changes w = 0 \<and> entries w \<le> 1))"
  unfolding ask_person_def
proof (rule emits_gets_server, cases "sv_approver sv")
  case None
  show "emits sv (case sv_approver sv of None \<Rightarrow> ret (Inr (Denied ''no RustSCP window is available to approve it''))
      | Some a \<Rightarrow> \<lambda>g. let decision = en_approve env (gt_trace g) a req; g' = happens (Ev_Ask a req decision) g
          in case decision of Some d \<Rightarrow> (Inr d, g') | None \<Rightarrow> (Inl Dropped, withdrawn env agent tool conn path diff g'))
     (\<lambda>r evs. (\<exists>reason. r = Inr (Denied reason) \<and> evs = []) \<or> (\<exists>a d. r = Inr d \<and> evs = [Ev_Ask a req (Some d)]) \<or>
       (\<exists>a w. r = Inl Dropped \<and> evs = Ev_Ask a req None # w \<and> changes w = 0 \<and> entries w \<le> 1))"
    by (simp add: None emits_ret)
next
  case (Some a)
  have w: "\<exists>w. gt_trace (withdrawn env agent tool conn path diff g) = gt_trace g @ w \<and>
      gt_server (withdrawn env agent tool conn path diff g) = after w (gt_server g) \<and> changes w = 0 \<and> entries w \<le> 1" for g
  proof (cases "en_runtime env (gt_trace g)")
    case True
    obtain r g' where run: "audit env True agent tool conn path WITHDRAWN_STATUS (Some diff) g = (r, g')"
      by (cases "audit env True agent tool conn path WITHDRAWN_STATUS (Some diff) g")
    from emitsD [OF emits_audit run] quiet_counts show ?thesis
      using True run by (fastforce simp: withdrawn_def changing_def is_entry_def)
  next
    case False
    then show ?thesis by (intro exI [of _ "[]"]) (simp add: withdrawn_def)
  qed
  show "emits sv (case sv_approver sv of None \<Rightarrow> ret (Inr (Denied ''no RustSCP window is available to approve it''))
      | Some a \<Rightarrow> \<lambda>g. let decision = en_approve env (gt_trace g) a req; g' = happens (Ev_Ask a req decision) g
          in case decision of Some d \<Rightarrow> (Inr d, g') | None \<Rightarrow> (Inl Dropped, withdrawn env agent tool conn path diff g'))
     (\<lambda>r evs. (\<exists>reason. r = Inr (Denied reason) \<and> evs = []) \<or> (\<exists>a d. r = Inr d \<and> evs = [Ev_Ask a req (Some d)]) \<or>
       (\<exists>a w. r = Inl Dropped \<and> evs = Ev_Ask a req None # w \<and> changes w = 0 \<and> entries w \<le> 1))"
  proof (rule emitsI, goal_cases)
    case (1 g r g')
    show ?case
    proof (cases "en_approve env (gt_trace g) a req")
      case None
      let ?g = "happens (Ev_Ask a req None) g"
      have run: "r = Inl Dropped" "g' = withdrawn env agent tool conn path diff ?g" using 1(2) Some None by (simp_all add: Let_def)
      obtain w where "gt_trace g' = gt_trace ?g @ w" "gt_server g' = after w (gt_server ?g)" "changes w = 0" "entries w \<le> 1"
        using w [of ?g] run by blast
      then show ?thesis using run 1(1) by (intro exI [of _ "Ev_Ask a req None # w"]) (auto simp: happens_def after_def others_of_def)
    next
      case (Some d)
      then show ?thesis using 1 \<open>sv_approver sv = Some a\<close> by (auto simp: Let_def happens_def after_def others_of_def)
    qed
  qed
qed

lemma after_ask [simp]: "after (Ev_Ask a req d # evs) sv = after evs sv"
  by (simp add: after_def others_of_def)

lemma proper_event:
  assumes "\<not> changing e" and "\<not> is_entry e" and "proper_call env tool args conn vfs (after [e] sv) r b"
  shows "proper_call env tool args conn vfs sv r (e # b)"
proof -
  have "justified (permitted env tool args conn vfs (after [e] sv)) b" using assms(3) by (simp add: proper_def)
  then have "justified (\<lambda>pre. permitted env tool args conn vfs sv (e # pre)) b"
  proof (rule justified_mono)
    fix pre e' assume "permitted env tool args conn vfs (after [e] sv) pre e'"
    then show "permitted env tool args conn vfs sv (e # pre) e'" using permitted_append [of env tool args conn vfs "[e]"] by simp
  qed
  then show ?thesis using assms by (simp add: proper_def permitted_unchanged)
qed

lemma ask_no_change: "\<not> changing (Ev_Ask a req d)" "\<not> is_entry (Ev_Ask a req d)"
  by (simp_all add: changing_def is_entry_def)

lemma proper_ask:
  assumes denied: "\<And>reason sv'. emits sv' (f (Denied reason)) (proper_call env tool args conn vfs sv')"
    and approved: "\<And>a sv'. emits sv' (f Approved) (\<lambda>r evs. proper_call env tool args conn vfs sv' r (Ev_Ask a req (Some Approved) # evs))"
  shows "emits sv (try_then (ask_person env agent tool' conn' path diff req) f) (proper_call env tool args conn vfs sv)"
proof (rule emits_try [OF emits_ask], goal_cases)
  case (1 e evs)
  then obtain a w where w: "evs = Ev_Ask a req None # w" "changes w = 0" "entries w \<le> 1" by auto
  then show ?case by (cases e) (auto intro!: proper_event proper_unchanged simp: ask_no_change)
next
  case (2 d e1)
  then consider (no) reason where "d = Denied reason" "e1 = []" | (asked) a where "e1 = [Ev_Ask a req (Some d)]" by auto
  then show ?case
  proof cases
    case no
    then show ?thesis using denied by simp
  next
    case asked
    show ?thesis
    proof (cases d)
      case Approved
      then show ?thesis using approved asked by simp
    next
      case (Denied reason)
      show ?thesis unfolding asked Denied
        by (rule emits_weaken [OF denied]) (simp add: proper_event ask_no_change)
    qed
  qed
qed

text \<open>A task: it ends, makes one entry and at most one change.\<close>

definition runs_task :: "mcp_server \<Rightarrow> 'a call \<Rightarrow> (gate_event \<Rightarrow> bool) \<Rightarrow> bool" where
  "runs_task sv m W = emits sv m (\<lambda>r evs. (\<exists>x. r = Inr x) \<and> entries evs = 1 \<and> changes evs \<le> 1 \<and>
     (\<forall>e \<in> set evs. changing e \<longrightarrow> W e))"

lemma justified_each: "(\<And>pre e. e \<in> set evs \<Longrightarrow> ok pre e) \<Longrightarrow> justified ok evs"
  by (induction evs arbitrary: ok) auto

lemma proper_task:
  assumes "runs_task sv m W" and c: "\<And>e. e \<in> set c \<Longrightarrow> \<not> changing e \<and> \<not> is_entry e"
    and W: "\<And>pre e. W e \<Longrightarrow> permitted env tool args conn vfs sv (c @ pre) e"
  shows "emits sv (try_then m (\<lambda>res. try_then (await env False) (\<lambda>_. ret (Inr res))))
    (\<lambda>r evs. proper_call env tool args conn vfs sv r (c @ evs))"
proof (rule emits_try [OF assms(1) [unfolded runs_task_def]], goal_cases)
  case (2 x e1)
  have "changes c = 0 \<and> entries c = 0" using c by (induction c) auto
  moreover have "justified (permitted env tool args conn vfs sv) c"
    using c by (intro justified_each) (simp add: permitted_unchanged)
  moreover have "justified (\<lambda>pre. permitted env tool args conn vfs sv (c @ pre)) e1"
    using 2 W by (intro justified_each) (metis permitted_unchanged)
  ultimately have p: "proper_call env tool args conn vfs sv r (c @ e1 @ [Ev_Others ops])" for r :: "dropped + 'b" and ops
    using 2 by (auto simp: proper_def justified_append changing_def is_entry_def permitted_def)
  show ?case
  proof (rule emits_try [OF emits_await], goal_cases)
    case (1 e evs)
    then show ?case using p by auto
  next
    case (2 y e2)
    then show ?case using p by (auto intro!: emits_ret)
  qed
qed auto

lemma task_weaken: "runs_task sv m W \<Longrightarrow> (\<And>e. W e \<Longrightarrow> W' e) \<Longrightarrow> runs_task sv m W'"
  unfolding runs_task_def by (erule emits_weaken) blast

lemma no_changes: "(\<forall>e \<in> set evs. \<not> changing e) \<Longrightarrow> changes evs = 0"
  by (induction evs) auto

lemma task_entry: "runs_task sv (try_then (audit env True agent tool conn summary status diff) (\<lambda>_. ret (Inr x))) W"
  unfolding runs_task_def
proof (rule emits_try [OF emits_audit], goal_cases)
  case (2 y e1)
  then obtain evs' ev where e1: "e1 = evs' @ [Ev_Audit ev]" "list_all quiet evs'" by auto
  then have "\<forall>e \<in> set e1. \<not> changing e" by (auto simp: list_all_iff quiet_def changing_def split: gate_event.splits)
  then show ?case using e1 quiet_counts [of evs'] by (intro emits_ret) (auto simp: is_entry_def changing_def)
qed auto

lemma task_quiet:
  assumes "calls sv m True ev" and "\<And>x. \<not> changing (ev x) \<and> \<not> is_entry (ev x)" and "\<And>x sv'. runs_task sv' (f x) W"
  shows "runs_task sv (try_then m f) W"
  unfolding runs_task_def
proof (rule emits_try [OF assms(1) [unfolded calls_def]], goal_cases)
  case (2 x e1)
  then obtain ops where "e1 = [Ev_Others ops, ev x]" by auto
  then show ?case using assms(2) [of x]
    by (intro emits_weaken [OF assms(3) [unfolded runs_task_def]]) (auto simp: changing_def is_entry_def)
qed auto

lemma task_change:
  assumes "calls sv m True ev" and "\<And>x. W (ev x) \<and> changing (ev x) \<and> \<not> is_entry (ev x)" and "\<And>x sv'. runs_task sv' (f x) (\<lambda>_. False)"
  shows "runs_task sv (try_then m f) W"
  unfolding runs_task_def
proof (rule emits_try [OF assms(1) [unfolded calls_def]], goal_cases)
  case (2 x e1)
  then obtain ops where e1: "e1 = [Ev_Others ops, ev x]" by auto
  show ?case
  proof (rule emits_weaken [OF assms(3) [unfolded runs_task_def]], goal_cases)
    case (1 r e2)
    then have "\<forall>e \<in> set e2. \<not> changing e" by blast
    then have "changes e2 = 0" by (rule no_changes)
    then show ?case using 1 e1 assms(2) [of x] by (auto simp: changing_def is_entry_def)
  qed
qed auto

lemmas event_kinds = changing_def is_entry_def

named_theorems task_rules \<open>rules for tasks, one per form of call\<close>

lemma task_metadata [task_rules]:
  "(\<And>x sv'. runs_task sv' (f x) W) \<Longrightarrow> runs_task sv (try_then (metadata env True vfs path) f) W"
  by (rule task_quiet [OF calls_session(1)]) (auto simp: event_kinds)

lemma task_read_file [task_rules]:
  "(\<And>x sv'. runs_task sv' (f x) W) \<Longrightarrow> runs_task sv (try_then (read_file env True vfs path) f) W"
  by (rule task_quiet [OF calls_session(2)]) (auto simp: event_kinds)

lemma task_write_file [task_rules]:
  "(\<And>x sv'. runs_task sv' (f x) (\<lambda>_. False)) \<Longrightarrow>
   runs_task sv (try_then (write_file env True vfs path data) f) (\<lambda>e. \<exists>r. e = Ev_Write_File vfs path data r)"
  by (rule task_change [OF calls_session(4)]) (auto simp: event_kinds)

lemma task_execute [task_rules]:
  "(\<And>x sv'. runs_task sv' (f x) (\<lambda>_. False)) \<Longrightarrow>
   runs_task sv (try_then (execute_command env True vfs cmd secs) f) (\<lambda>e. \<exists>r. e = Ev_Execute vfs cmd secs r)"
  by (rule task_change [OF calls_session(7)]) (auto simp: event_kinds)

lemma task_gets [task_rules]: "(\<And>x. runs_task sv (f x) W) \<Longrightarrow> runs_task sv (andThen (gets h) f) W"
  unfolding runs_task_def by (rule emits_gets)

lemma task_cases [task_rules]:
  "(\<And>e. runs_task sv (f1 e) W) \<Longrightarrow> (\<And>x. runs_task sv (g1 x) W) \<Longrightarrow> runs_task sv (case r of Inl e \<Rightarrow> f1 e | Inr x \<Rightarrow> g1 x) W"
  "(\<And>x y. runs_task sv (f2 x y) W) \<Longrightarrow> runs_task sv (case p of (x, y) \<Rightarrow> f2 x y) W"
  "runs_task sv m W \<Longrightarrow> runs_task sv n W \<Longrightarrow> runs_task sv (if b then m else n) W"
  by (simp_all split: sum.split prod.split)

declare task_entry [task_rules]

lemma task_write: "runs_task sv (write_and_audit env vfs agent tool conn path data sha) (\<lambda>e. \<exists>r. e = Ev_Write_File vfs path data r)"
  unfolding write_and_audit_def Let_def by (intro task_rules)

lemma task_run: "runs_task sv (run_and_audit env vfs agent conn summary effective secs risk access) (\<lambda>e. \<exists>r. e = Ev_Execute vfs effective secs r)"
  unfolding run_and_audit_def Let_def by (intro task_rules)

subsection \<open>The handlers\<close>

lemma proper_audited:
  assumes "\<And>sv'. silent sv' m"
  shows "emits sv (audited env agent t c summary m result failed) (proper_call env' tool args conn vfs sv)"
  unfolding audited_def by (rule proper_after_silent [OF assms]) (simp add: proper_stop split: sum.split)

lemma proper_reads:
  "emits sv (handle_list_dir env agent c v args') (proper_call env' tool args conn vfs sv)"
  "emits sv (handle_search env agent c v args') (proper_call env' tool args conn vfs sv)"
  "emits sv (handle_read_file env agent c v args') (proper_call env' tool args conn vfs sv)"
  "emits sv (handle_session_list env agent) (proper_call env' tool args conn vfs sv)"
  "emits sv (handle_smart_action env agent t c args') (proper_call env' tool args conn vfs sv)"
  unfolding handle_list_dir_def handle_search_def handle_read_file_def handle_session_list_def handle_smart_action_def Let_def
  by (auto intro!: proper_audited silent_session proper_after_silent silent_await proper_stop emits_gets split: option.split sum.split)

lemma approved_first: "P req \<Longrightarrow> approved_request P (Ev_Ask a req (Some Approved) # pre)"
  by (auto simp: approved_request_def)

lemma proper_write:
  "emits sv (handle_write_file env agent ''fs_write_file'' conn info vfs args) (proper_call env ''fs_write_file'' args conn vfs sv)"
  unfolding handle_write_file_def Let_def
proof (cases "decode_content (to_ascii_lowercase (case str_member ''encoding'' args of Some e \<Rightarrow> e | None \<Rightarrow> ''utf-8''))
    (case str_member ''content'' args of Some c \<Rightarrow> c | None \<Rightarrow> [])", goal_cases)
  case (1 p)
  then show ?case by (simp add: proper_stop split: prod.split)
next
  case (2 data)
  let ?path = "case str_member ''path'' args of Some p \<Rightarrow> p | None \<Rightarrow> []"
  have shows': "shows_write env conn ?path data (write_approval_request agent ''fs_write_file'' conn info ?path data (en_sha256 env data) size)" for size
    by (simp add: shows_write_def write_approval_request_def new_request_def Let_def split: prod.split)
  have rest: "emits sv' (try_then (ask_person env agent ''fs_write_file'' conn ?path diff
        (write_approval_request agent ''fs_write_file'' conn info ?path data (en_sha256 env data) size)) (\<lambda>decision. case decision of
          Denied reason \<Rightarrow> try_then (audit env False agent ''fs_write_file'' conn ?path (''denied: '' @ reason) (Some diff))
            (\<lambda>_. ret (Inr (failure_text (''The write to '' @ ?path @ '' was not allowed ('' @ reason @ ''). Nothing was changed.''))))
        | Approved \<Rightarrow> try_then (write_and_audit env vfs agent ''fs_write_file'' conn ?path data (en_sha256 env data))
            (\<lambda>result. try_then (await env False) (\<lambda>_. ret (Inr result)))))
      (proper_call env ''fs_write_file'' args conn vfs sv')" for sv' diff size
  proof (rule proper_ask, goal_cases)
    case (2 a sv'')
    have "emits sv'' (try_then (write_and_audit env vfs agent ''fs_write_file'' conn ?path data (en_sha256 env data))
            (\<lambda>result. try_then (await env False) (\<lambda>_. ret (Inr result))))
      (\<lambda>r evs. proper_call env ''fs_write_file'' args conn vfs sv'' r ([Ev_Ask a (write_approval_request agent ''fs_write_file'' conn info
        ?path data (en_sha256 env data) size) (Some Approved)] @ evs))"
      by (rule proper_task [OF task_write]) (use shows' in \<open>auto simp: event_kinds permitted_def intro!: approved_first\<close>)
    then show ?case by simp
  qed (simp add: proper_stop)
  show ?case
    unfolding 2 sum.case
    by (intro proper_after_silent silent_session(1) emits_if proper_stop rest)
qed

lemma timeout_bounds: "1 \<le> timeout_secs args \<and> timeout_secs args \<le> MAX_COMMAND_TIMEOUT_SECS"
  by (simp add: timeout_secs_def clamp_def MAX_COMMAND_TIMEOUT_SECS_def)

lemma once_now: "P sv \<Longrightarrow> once_server P sv pre"
  unfolding once_server_def by (intro exI [of _ "[]"] exI [of _ pre]) simp

lemma proper_run:
  "emits sv (handle_run_command env agent conn info vfs args) (proper_call env ''run_command'' args conn vfs sv)"
proof -
  let ?command = "command_arg args" and ?dir = "working_dir args"
  let ?risk = "classify_command ?command" and ?cmd = "effective_command ?dir ?command"
  let ?run = "\<lambda>access. try_then (run_and_audit env vfs agent conn (command_summary ?dir ?command) ?cmd (timeout_secs args) ?risk access)
     (\<lambda>result. try_then (await env False) (\<lambda>_. ret (Inr result)))"
  have allowed: "emits sv' (?run access) (proper_call env ''run_command'' args conn vfs sv')"
    if "decide (current_access sv') ?risk = Allow" for sv' access
  proof -
    have "emits sv' (?run access) (\<lambda>r evs. proper_call env ''run_command'' args conn vfs sv' r ([] @ evs))"
      by (rule proper_task [OF task_run]) (use that in \<open>auto simp: permitted_def timeout_bounds [simplified] intro: once_now\<close>)
    then show ?thesis by simp
  qed
  have asked: "emits sv' (?run access) (\<lambda>r evs. proper_call env ''run_command'' args conn vfs sv' r
      (Ev_Ask a (command_approval_request agent conn info ?command ?risk) (Some Approved) # evs))" for sv' access a
  proof -
    have "shows_command conn ?command (command_approval_request agent conn info ?command ?risk)"
      by (simp add: shows_command_def command_approval_request_def new_request_def)
    then have "emits sv' (?run access) (\<lambda>r evs. proper_call env ''run_command'' args conn vfs sv' r
      ([Ev_Ask a (command_approval_request agent conn info ?command ?risk) (Some Approved)] @ evs))"
      by (intro proper_task [OF task_run]) (auto simp: event_kinds permitted_def timeout_bounds [simplified] intro: approved_first)
    then show ?thesis by simp
  qed
  have rest: "emits sv' (case decide (current_access sv') ?risk of
       Deny reason \<Rightarrow> stop reason
     | Ask \<Rightarrow> try_then (ask_person env agent ''run_command'' conn summary diff (command_approval_request agent conn info ?command ?risk))
         (\<lambda>decision. case decision of Denied reason \<Rightarrow> stop' reason | Approved \<Rightarrow> ?run (current_access sv'))
     | Allow \<Rightarrow> ?run (current_access sv')) (proper_call env ''run_command'' args conn vfs sv')"
    if "\<And>reason sv'. emits sv' (stop reason) (proper_call env ''run_command'' args conn vfs sv')"
      "\<And>reason sv'. emits sv' (stop' reason) (proper_call env ''run_command'' args conn vfs sv')" for sv' stop stop' summary diff
    using that allowed [of sv'] by (cases "decide (current_access sv') ?risk") (auto intro!: proper_ask asked)
  show ?thesis
    unfolding handle_run_command_def Let_def
    by (intro emits_if proper_stop emits_gets_server rest)
qed

lemma proper_tool: "emits sv (handle_session_tool env agent tool conn info vfs args) (proper_call env tool args conn vfs sv)"
  unfolding handle_session_tool_def
  by (intro emits_if proper_reads; simp only: proper_write proper_run)

text \<open>The changes a whole call may make, with the connection as it was looked up.\<close>

definition permitted_change :: "gate_env \<Rightarrow> string \<Rightarrow> json \<Rightarrow> mcp_server \<Rightarrow> gate_trace \<Rightarrow> gate_event \<Rightarrow> bool" where
  "permitted_change env tool args sv pre e =
     (\<exists>conn vfs info. str_member ''connection_id'' args = Some conn \<and>
        once_server (\<lambda>s. connection conn s = Some (vfs, info)) sv pre \<and> permitted env tool args conn vfs sv pre e)"

definition proper_events :: "gate_env \<Rightarrow> string \<Rightarrow> json \<Rightarrow> mcp_server \<Rightarrow> dropped + 'a \<Rightarrow> gate_trace \<Rightarrow> bool" where
  "proper_events env tool args sv = proper (\<lambda>pre e. \<not> changing e \<or> permitted_change env tool args sv pre e)"

lemma proper_events_unchanged: "proper_call env tool args conn vfs sv r evs \<Longrightarrow> changes evs = 0 \<Longrightarrow> proper_events env tool' args' sv r evs"
  by (auto simp: proper_def proper_events_def intro!: justified_unchanged)

lemma proper_events_found:
  assumes "str_member ''connection_id'' args = Some conn" and "connection conn (after [Ev_Others ops] sv) = Some (vfs, info)"
    and "proper_call env tool args conn vfs sv r (Ev_Others ops # evs)"
  shows "proper_events env tool args sv r (Ev_Others ops # evs)"
proof -
  have found: "once_server (\<lambda>s. connection conn s = Some (vfs, info)) sv (Ev_Others ops # pre)" for pre
    unfolding once_server_def using assms(2) by (intro exI [of _ "[Ev_Others ops]"] exI [of _ pre]) simp
  have "justified (\<lambda>pre. permitted env tool args conn vfs sv (Ev_Others ops # pre)) evs"
    using assms(3) by (simp add: proper_def)
  then have "justified (\<lambda>pre e. \<not> changing e \<or> permitted_change env tool args sv (Ev_Others ops # pre) e) evs"
    by (rule justified_mono) (use assms(1) found in \<open>auto simp: permitted_change_def\<close>)
  then show ?thesis using assms(3) by (simp add: proper_events_def proper_def changing_def)
qed

lemma justified_none: "justified ok evs \<Longrightarrow> (\<And>pre e. ok pre e \<Longrightarrow> \<not> changing e) \<Longrightarrow> changes evs = 0"
proof (induction evs arbitrary: ok)
  case (Cons e evs)
  have "changes evs = 0" by (rule Cons.IH [of "\<lambda>pre. ok (e # pre)"]) (use Cons.prems in auto)
  then show ?case using Cons.prems by auto
qed simp

text \<open>What is proper for a tool without a name changes nothing.\<close>

lemma proper_none: "proper_call env [] args conn vfs sv r evs \<Longrightarrow> proper_events env' tool args' sv' r evs"
proof -
  assume p: "proper_call env [] args conn vfs sv r evs"
  then have "changes evs = 0"
    by (intro justified_none [of "permitted env [] args conn vfs sv"]) (auto simp: proper_def permitted_def changing_def split: gate_event.splits)
  then show ?thesis using p by (auto simp: proper_events_def proper_def intro!: justified_unchanged)
qed

lemma proper_stops:
  "emits sv (try_then (audit env False agent t c summary status diff) (\<lambda>_. ret (Inr x))) (proper_events env' tool args sv)"
  "emits sv (handle_session_list env agent) (proper_events env' tool args sv)"
  "emits sv (handle_smart_action env agent t c args') (proper_events env' tool args sv)"
  by (rule emits_weaken [OF proper_stop], erule proper_none)
    (rule emits_weaken [OF proper_reads(4)], erule proper_none, rule emits_weaken [OF proper_reads(5)], erule proper_none)

lemma proper_handle: "emits sv (handle_tool_call env agent tool args) (proper_events env tool args sv)"
proof -
  have found: "emits sv (try_then (await env False) (\<lambda>_. andThen (gets (\<lambda>g. connection requested (gt_server g))) (\<lambda>found. case found of
       None \<Rightarrow> try_then (audit env False agent tool conn summary status None) (\<lambda>_. ret (Inr (failure_text message)))
     | Some (vfs, info) \<Rightarrow> handle_session_tool env agent tool requested info vfs args))) (proper_events env tool args sv)"
    if c: "str_member ''connection_id'' args = Some requested" for requested conn summary status message
  proof (rule emits_try [OF emits_await], goal_cases)
    case (1 e evs)
    then show ?case by (cases e) (auto simp: proper_events_def proper_def changing_def is_entry_def)
  next
    case (2 u e1)
    then obtain ops where e1: "e1 = [Ev_Others ops]" by auto
    have quiet: "list_all quiet e1" by (simp add: e1 quiet_def)
    show ?case
    proof (rule emits_gets_server, cases "connection requested (after e1 sv)")
      case None
      then show "emits (after e1 sv) (case connection requested (after e1 sv) of
          None \<Rightarrow> try_then (audit env False agent tool conn summary status None) (\<lambda>_. ret (Inr (failure_text message)))
        | Some (vfs, info) \<Rightarrow> handle_session_tool env agent tool requested info vfs args)
        (\<lambda>r e2. proper_events env tool args sv r (e1 @ e2))"
        by (simp only: option.case) (rule emits_weaken [OF proper_stop], erule proper_none [OF proper_quiet [OF quiet]])
    next
      case (Some p)
      obtain vfs info where p: "p = (vfs, info)" by (cases p)
      have "proper_events env tool args sv r (e1 @ e2)" if "proper_call env tool args requested vfs (after e1 sv) r e2" for r :: "dropped + tool_result" and e2
        using proper_events_found [OF c, of ops sv vfs info env tool r e2] proper_quiet [OF quiet that] Some p by (simp add: e1)
      then show "emits (after e1 sv) (case connection requested (after e1 sv) of
          None \<Rightarrow> try_then (audit env False agent tool conn summary status None) (\<lambda>_. ret (Inr (failure_text message)))
        | Some (vfs, info) \<Rightarrow> handle_session_tool env agent tool requested info vfs args)
        (\<lambda>r e2. proper_events env tool args sv r (e1 @ e2))"
        unfolding Some p option.case prod.case by (rule emits_weaken [OF proper_tool])
    qed
  qed
  show ?thesis
  proof (cases "str_member ''connection_id'' args")
    case None
    then show ?thesis
      unfolding handle_tool_call_def Let_def None option.case by (intro emits_if proper_stops)
  next
    case (Some requested)
    then show ?thesis
      unfolding handle_tool_call_def Let_def Some option.case by (intro emits_if proper_stops found [OF Some])
  qed
qed

subsection \<open>What stays in the log\<close>

definition entries_in :: "gate_trace \<Rightarrow> audit_event list" where
  "entries_in evs = concat (map (\<lambda>e. case e of Ev_Audit a \<Rightarrow> [a] | _ \<Rightarrow> []) evs)"

text \<open>The log in memory holds the last thousand of the old entries and those of the trace.\<close>

definition logged :: "gate \<Rightarrow> gate \<Rightarrow> bool" where
  "logged g0 g = (\<exists>evs. gt_trace g = gt_trace g0 @ evs \<and>
     al_events (gt_audit g) = (let all = al_events (gt_audit g0) @ entries_in evs in drop (length all - MAX_IN_MEMORY_EVENTS) all))"

lemma entries_in_simps [simp]: "entries_in (a @ b) = entries_in a @ entries_in b" "entries_in [] = []"
  by (simp_all add: entries_in_def)

lemma logged_happens:
  "logged g0 g \<Longrightarrow> entries_in [e] = [] \<Longrightarrow> gt_audit g' = gt_audit g \<Longrightarrow> gt_trace g' = gt_trace g @ [e] \<Longrightarrow> logged g0 g'"
  unfolding logged_def by (auto simp: Let_def)

lemma keeps_await [hoare_rules]: "keeps (logged g0) (await env sp)"
  by (rule keepsI, rule logged_happens) (auto simp: await_def Let_def happens_def entries_in_def split: if_splits)

lemma keeps_answer: "(\<And>x. entries_in [ev x] = []) \<Longrightarrow> keeps (logged g0) (answer f ev)"
  by (rule keepsI, rule logged_happens) (auto simp: answer_def Let_def happens_def)

lemma keeps_session [hoare_rules]:
  "keeps (logged g0) (metadata env sp vfs path)" "keeps (logged g0) (read_file env sp vfs path)"
  "keeps (logged g0) (read_range env sp vfs path off len)" "keeps (logged g0) (write_file env sp vfs path data)"
  "keeps (logged g0) (list_dir env sp vfs path)" "keeps (logged g0) (search_files env sp vfs start pattern most)"
  "keeps (logged g0) (execute_command env sp vfs cmd secs)"
  unfolding metadata_def read_file_def read_range_def write_file_def list_dir_def search_files_def execute_command_def
  by (intro keeps_try keeps_await keeps_answer; simp add: entries_in_def)+

lemma keeps_on_file: "keeps (logged g0) (on_audit (andThen (log_to_file c e) (\<lambda>_. show_event e)))"
proof (rule keepsI)
  fix g x g' assume g: "logged g0 g" and run: "on_audit (andThen (log_to_file c e) (\<lambda>_. show_event e)) g = (x, g')"
  obtain u l where l: "log_to_file c e (gt_audit g) = (u, l)" by (cases "log_to_file c e (gt_audit g)")
  have "same_memory (gt_audit g) l" using keepsD [OF keeps_memory_log _ l] by (simp add: same_memory_def)
  then have "al_events (gt_audit g') = al_events (gt_audit g) \<and> gt_trace g' = gt_trace g"
    using run l by (auto simp: on_audit_def andThen_def show_event_def modify_def same_memory_def)
  then show "logged g0 g'" using g by (simp add: logged_def)
qed

lemma keeps_keep: "keeps (logged g0) (try_then (on_audit (keep_event e)) (\<lambda>_. answer (\<lambda>t. ()) (\<lambda>_. Ev_Audit e)))"
proof (rule keepsI)
  fix g x g' assume g: "logged g0 g" and run: "try_then (on_audit (keep_event e)) (\<lambda>_. answer (\<lambda>t. ()) (\<lambda>_. Ev_Audit e)) g = (x, g')"
  obtain evs where evs: "gt_trace g = gt_trace g0 @ evs" "al_events (gt_audit g) = drop (length (al_events (gt_audit g0) @ entries_in evs) - MAX_IN_MEMORY_EVENTS) (al_events (gt_audit g0) @ entries_in evs)"
    using g by (auto simp: logged_def Let_def)
  let ?all = "al_events (gt_audit g0) @ entries_in evs"
  have g': "gt_trace g' = gt_trace g0 @ evs @ [Ev_Audit e]" "al_events (gt_audit g') = pop_excess MAX_IN_MEMORY_EVENTS (al_events (gt_audit g) @ [e])"
    using run evs(1) by (auto simp: try_then_def andThen_def on_audit_def keep_event_def modify_def answer_def happens_def Let_def)
  have "al_events (gt_audit g') = drop (length ?all + 1 - MAX_IN_MEMORY_EVENTS) (?all @ [e])"
    unfolding g' evs(2) by (rule ring_step) (simp add: MAX_IN_MEMORY_EVENTS_def)
  moreover have "entries_in (evs @ [Ev_Audit e]) = entries_in evs @ [e]" by (simp add: entries_in_def)
  ultimately show "logged g0 g'"
    unfolding logged_def by (intro exI [of _ "evs @ [Ev_Audit e]"]) (simp add: g'(1) Let_def)
qed

lemma keeps_audit [hoare_rules]: "keeps (logged g0) (audit env sp agent tool conn summary status diff)"
  unfolding audit_def by (intro hoare_rules keeps_on_file keeps_keep)

lemma keeps_ask [hoare_rules]: "keeps (logged g0) (ask_person env agent tool conn path diff req)"
  unfolding ask_person_def
proof (intro hoare_rules, rule keepsI, goal_cases)
  case (1 x a g y g')
  have "logged g0 (happens (Ev_Ask a req d) g)" for d
    by (rule logged_happens [OF 1(2)]) (simp_all add: happens_def entries_in_def)
  moreover have "logged g0 (withdrawn env agent tool conn path diff g1)" if "logged g0 g1" for g1
  proof (cases "audit env True agent tool conn path WITHDRAWN_STATUS (Some diff) g1")
    case (Pair y g2)
    then show ?thesis using keepsD [OF keeps_audit that Pair] that by (simp add: withdrawn_def)
  qed
  ultimately show ?case using 1(3) by (auto simp: Let_def split: option.splits)
qed

lemma keeps_write_and_audit [hoare_rules]: "keeps (logged g0) (write_and_audit env vfs agent tool conn path data sha)"
  unfolding write_and_audit_def Let_def by (intro hoare_rules)

lemma keeps_run_and_audit [hoare_rules]: "keeps (logged g0) (run_and_audit env vfs agent conn summary effective secs risk access)"
  unfolding run_and_audit_def Let_def by (intro hoare_rules)

lemma keeps_decision [hoare_rules]:
  "(\<And>s. keeps I (f s)) \<Longrightarrow> keeps I m \<Longrightarrow> keeps I (case d of Approved \<Rightarrow> m | Denied s \<Rightarrow> f s)"
  "keeps I a \<Longrightarrow> keeps I b \<Longrightarrow> (\<And>s. keeps I (f s)) \<Longrightarrow> keeps I (case c of Ask \<Rightarrow> a | Allow \<Rightarrow> b | Deny s \<Rightarrow> f s)"
  by (cases d; simp) (cases c; simp)

lemma keeps_audited [hoare_rules]: "keeps (logged g0) m \<Longrightarrow> keeps (logged g0) (audited env agent t c summary m result failed)"
  unfolding audited_def by (intro hoare_rules)

lemma keeps_handlers:
  "keeps (logged g0) (handle_list_dir env agent c v args)" "keeps (logged g0) (handle_search env agent c v args)"
  "keeps (logged g0) (handle_read_file env agent c v args)" "keeps (logged g0) (handle_session_list env agent)"
  "keeps (logged g0) (handle_smart_action env agent t c args)" "keeps (logged g0) (handle_write_file env agent t c info v args)"
  "keeps (logged g0) (handle_run_command env agent c info v args)"
  unfolding handle_list_dir_def handle_search_def handle_read_file_def handle_session_list_def handle_smart_action_def
    handle_write_file_def handle_run_command_def Let_def
  by (intro hoare_rules)+

lemma keeps_handle: "keeps (logged g0) (handle_tool_call env agent tool args)"
  unfolding handle_tool_call_def handle_session_tool_def Let_def
  by (intro hoare_rules keeps_handlers)

subsection \<open>Properties\<close>

text \<open>
  C33: Whatever an agent calls, and whatever happens around the call, a file is written or a command run
  only with permission: at most one change, on the connection the agent named as it was registered at
  some moment of the call; a write only after a person approved a request that shows exactly this
  connection, path, size and digest; a command only after a person approved its text, as the agent sent
  it, and risk (the folder it runs in is not shown), or where the access level at some moment of the
  call lets such a command run on its own.
\<close>

theorem changes_need_permission:
  assumes "handle_tool_call env agent tool args g = (r, g')"
  shows "\<exists>evs. gt_trace g' = gt_trace g @ evs \<and> changes evs \<le> 1 \<and>
    (\<forall>pre e post. evs = pre @ e # post \<longrightarrow> changing e \<longrightarrow> permitted_change env tool args (gt_server g) pre e)"
proof -
  obtain evs where evs: "gt_trace g' = gt_trace g @ evs" "proper_events env tool args (gt_server g) r evs"
    using emitsD [OF proper_handle assms] by blast
  moreover have "permitted_change env tool args (gt_server g) pre e" if "evs = pre @ e # post" "changing e" for pre e post
    using evs(2) justifiedD [of _ pre e post] that unfolding proper_events_def proper_def by metis
  ultimately show ?thesis by (auto simp: proper_events_def proper_def)
qed

text \<open>
  C34: Every call that ends makes exactly one entry in the activity log, and so does every call that
  changed something, also where it was dropped; none makes two. The log in memory then holds the last
  thousand of all entries.
\<close>

theorem one_entry_per_call:
  assumes "handle_tool_call env agent tool args g = (r, g')" and "length (al_events (gt_audit g)) \<le> MAX_IN_MEMORY_EVENTS"
  shows "\<exists>evs. gt_trace g' = gt_trace g @ evs \<and> length (entries_in evs) \<le> 1 \<and>
    (r \<noteq> Inl Dropped \<or> changes evs \<noteq> 0 \<longrightarrow> length (entries_in evs) = 1) \<and>
    al_events (gt_audit g') =
      (let all = al_events (gt_audit g) @ entries_in evs in drop (length all - MAX_IN_MEMORY_EVENTS) all)"
proof -
  obtain evs where evs: "gt_trace g' = gt_trace g @ evs" "proper_events env tool args (gt_server g) r evs"
    using emitsD [OF proper_handle assms(1)] by blast
  have "logged g g" unfolding logged_def using assms(2) by (intro exI [of _ "[]"]) simp
  then have "logged g g'" using keepsD [OF keeps_handle _ assms(1)] by blast
  moreover have "entries evs = length (entries_in evs)"
    by (induction evs) (auto simp: entries_in_def is_entry_def split: gate_event.split)
  ultimately show ?thesis using evs by (auto simp: logged_def proper_events_def proper_def)
qed

subsection \<open>A concrete call\<close>

text \<open>An agent writes two bytes and a person allows it.\<close>

definition demo_env :: gate_env where
  "demo_env = \<lparr>en_others = (\<lambda>t. []), en_dropped = (\<lambda>t. False), en_shell = (\<lambda>v. True),
     en_metadata = (\<lambda>t v p. Inl (NotFound p)), en_read_file = (\<lambda>t v p. Inr []), en_read_range = (\<lambda>t v p i n. Inr []),
     en_write_file = (\<lambda>t v p d. Inr ()), en_list_dir = (\<lambda>t v p. Inr []), en_search = (\<lambda>t v r p n. Inr []),
     en_execute = (\<lambda>t v c n. Inr (0, [], [])), en_approve = (\<lambda>t a q. Some Approved), en_runtime = (\<lambda>t. True),
     en_new_id = (\<lambda>t. show_nat (length t)), en_now = (\<lambda>t. 0), en_elapsed = (\<lambda>t. 5), en_sha256 = (\<lambda>d. show_nat (length d)),
     en_json = (\<lambda>v. []), en_log = demo_codec,
     en_matchers = \<lparr>mx_tokens = (\<lambda>s. []), mx_cond = (\<lambda>s. None), mx_is_match = (\<lambda>p v. Inr True), mx_parse_f64 = (\<lambda>s. None),
       mx_show_f64 = (\<lambda>x. [])\<rparr>\<rparr>"

definition demo_gate :: gate where
  "demo_gate = \<lparr>gt_server = set_approver 7 (register_connection ''web'' 3 new_server), gt_audit = new_audit_log, gt_trace = []\<rparr>"

definition demo_write :: json where
  "demo_write = JObj [(''connection_id'', JStr ''web''), (''path'', JStr ''/a''), (''content'', JStr ''ok'')]"


lemma pop_one: "pop_excess MAX_IN_MEMORY_EVENTS [e] = [e]"
  by (simp add: MAX_IN_MEMORY_EVENTS_def)

lemma x1: "decode_content ''utf-8'' ''ok'' = Inr [111,107]" by code_simp
lemma x2: "encode_for_agent [111,107] False = ([111,107],Utf8,2)" by code_simp
lemmas run_simps = try_then_def andThen_def ret_def gets_def await_def answer_def happens_def audit_def on_audit_def log_to_file_def
  show_event_def modify_def keep_event_def pop_one new_event_def metadata_def read_file_def write_file_def execute_command_def
  Let_def

lemma demo_server: "connection ''web'' (gt_server demo_gate) = Some (3, default_info\<lparr>ci_name := ''web''\<rparr>)"
  "sv_approver (gt_server demo_gate) = Some 7" by code_simp+

lemma demo_parts: "gt_trace demo_gate = []" "al_events (gt_audit demo_gate) = []" "al_log_file (gt_audit demo_gate) = None" 
  "al_observer (gt_audit demo_gate) = False" 
  by (simp_all add: demo_gate_def new_audit_log_def)

lemma demo_args: "str_member ''connection_id'' demo_write = Some ''web''" "str_member ''path'' demo_write = Some ''/a''"
   "str_member ''content'' demo_write = Some ''ok''" "str_member ''encoding'' demo_write = None" 
  by code_simp+

lemma demo_env_simps: "en_others demo_env t = []" "en_dropped demo_env t = False" "en_metadata demo_env t v p = Inl (NotFound p)"
  "en_write_file demo_env t v p d = Inr ()" "en_approve demo_env t a q = Some Approved" "en_sha256 demo_env d = show_nat (length d)"
  by (simp_all add: demo_env_def)

lemma lower: "to_ascii_lowercase ''utf-8'' = ''utf-8''" by code_simp

lemma demo_result: "filter changing (gt_trace (snd (handle_tool_call demo_env ''agent'' ''fs_write_file'' demo_write demo_gate)))
    = [Ev_Write_File 3 ''/a'' [111, 107] (Inr ())]"
  by (simp add: handle_tool_call_def handle_session_tool_def handle_write_file_def needs_connection_def demo_args lower x1
     write_and_audit_def ask_person_def run_simps demo_env_simps demo_parts demo_server changing_def)

lemma changes_need_permission_witness:
  "\<exists>pre post. gt_trace (snd (handle_tool_call demo_env ''agent'' ''fs_write_file'' demo_write demo_gate)) =
      pre @ Ev_Write_File 3 ''/a'' [111, 107] (Inr ()) # post \<and>
    permitted_change demo_env ''fs_write_file'' demo_write (gt_server demo_gate) pre (Ev_Write_File 3 ''/a'' [111, 107] (Inr ()))"
proof -
  let ?run = "handle_tool_call demo_env ''agent'' ''fs_write_file'' demo_write demo_gate" and ?e = "Ev_Write_File 3 ''/a'' [111, 107] (Inr ())"
  have "?e \<in> set (filter changing (gt_trace (snd ?run)))" unfolding demo_result by simp
  then obtain pre post where split: "gt_trace (snd ?run) = pre @ ?e # post" by (auto dest: split_list)
  have "?run = (fst ?run, snd ?run)" by simp
  from changes_need_permission [OF this] show ?thesis
    using split demo_parts(1) by (intro exI [of _ pre] exI [of _ post]) (auto simp: changing_def)
qed

lemma one_entry_per_call_witness:
  "length (al_events (gt_audit (snd (handle_tool_call demo_env ''agent'' ''fs_write_file'' demo_write demo_gate)))) = 1"
proof -
  let ?run = "handle_tool_call demo_env ''agent'' ''fs_write_file'' demo_write demo_gate"
  have run: "?run = (fst ?run, snd ?run)" by simp
  have "changes (gt_trace (snd ?run)) \<noteq> 0" unfolding changes_def demo_result by simp
  with one_entry_per_call [OF run] show ?thesis
    by (auto simp: demo_parts MAX_IN_MEMORY_EVENTS_def Let_def)
qed

end
