(* ===== verification/AgentTools.thy ===== *)
theory AgentTools
  imports AgentServerFacts
begin

section \<open>The tools announced to agents\<close>

text \<open>
  Models \<open>McpServer::tool_definitions\<close> of \<open>crates/rustscp-mcp/src/server.rs\<close>: names, descriptions (as
  UTF-8), the schemas of the arguments, and the hints. What they promise is proved of the calls.
\<close>

record tool_definition =
  td_name :: string
  td_description :: bytes
  td_input_schema :: json
  td_annotations :: "json option"

definition read_only :: "string \<Rightarrow> json" where
  "read_only title = JObj [(''title'', JStr title), (''readOnlyHint'', JBool True), (''destructiveHint'', JBool False)]"

definition smart_action_schema :: json where
  "smart_action_schema =
     JObj [(''type'', JStr ''object''), (''required'', JArr [JStr ''connection_id'', JStr ''action_id'', JStr ''params'']), 
       (''properties'', JObj [
         (''connection_id'', JObj [(''type'', JStr ''string''), (''description'', JStr ''Session ID'')]),
         (''action_id'', JObj [(''type'', JStr ''string''), (''description'', JStr ''Action ID (e.g. 'tar-compress', 'disk-usage')'')]),
         (''current_dir'', JObj [(''type'', JStr ''string''), (''description'', JStr ''Working directory'')]),
         (''selected_paths'', JObj [(''type'', JStr ''array''), (''items'', JObj [(''type'', JStr ''string'')])]),
         (''params'', JObj [(''type'', JStr ''object''), (''description'', JStr ''Key-value arguments matching the action schema'')])])]"

definition session_list_tool :: tool_definition where
  "session_list_tool = \<lparr>td_name = ''session_list'',
     td_description = as_bytes ''List the server sessions connected in the RustSCP app (connection_id, name, protocol, host). Credentials are never exposed. Call this first: the other tools take one of these connection_id values.'',
     td_input_schema = JObj [(''type'', JStr ''object''), 
       (''properties'', JObj [])],
     td_annotations = Some (read_only ''List connected sessions'')\<rparr>"

definition fs_list_dir_tool :: tool_definition where
  "fs_list_dir_tool = \<lparr>td_name = ''fs_list_dir'',
     td_description = as_bytes ''List directory contents from an active connection'',
     td_input_schema = JObj [(''type'', JStr ''object''), (''required'', JArr [JStr ''connection_id'', JStr ''path'']), 
       (''properties'', JObj [
         (''connection_id'', JObj [(''type'', JStr ''string''), (''description'', JStr ''Session ID from session_list (e.g. 'prod-vps')'')]),
         (''path'', JObj [(''type'', JStr ''string''), (''description'', JStr ''Remote directory path to list'')])])],
     td_annotations = Some (read_only ''List a directory'')\<rparr>"

definition fs_read_file_tool :: tool_definition where
  "fs_read_file_tool = \<lparr>td_name = ''fs_read_file'',
     td_description = as_bytes (''Read part of a file on a connected server. Returns at most `length` bytes (default '' @ show_nat DEFAULT_READ_BYTES @ '', max '' @ show_nat MAX_READ_BYTES @ '') from `offset`, as UTF-8 text or base64 for binary data; a second content item reports encoding, total size and whether more data follows.''),
     td_input_schema = JObj [(''type'', JStr ''object''), (''required'', JArr [JStr ''connection_id'', JStr ''path'']), 
       (''properties'', JObj [
         (''connection_id'', JObj [(''type'', JStr ''string''), (''description'', JStr ''Session ID from session_list'')]),
         (''path'', JObj [(''type'', JStr ''string''), (''description'', JStr ''File path to read'')]),
         (''offset'', JObj [(''type'', JStr ''integer''), (''description'', JStr ''Optional byte offset (default 0)'')]),
         (''length'', JObj [(''type'', JStr ''integer''), (''description'', JStr (''Optional max bytes to read (default '' @ show_nat DEFAULT_READ_BYTES @ '', max '' @ show_nat MAX_READ_BYTES @ '')''))])])],
     td_annotations = Some (read_only ''Read a file'')\<rparr>"

definition fs_write_file_tool :: tool_definition where
  "fs_write_file_tool = \<lparr>td_name = ''fs_write_file'',
     td_description = as_bytes ''Write or replace a file on a connected server. The call waits until the user allows it in the RustSCP window (denied if nobody answers); every write is recorded in the audit log with the previous and new size and SHA-256.'',
     td_input_schema = JObj [(''type'', JStr ''object''), (''required'', JArr [JStr ''connection_id'', JStr ''path'', JStr ''content'']), 
       (''properties'', JObj [
         (''connection_id'', JObj [(''type'', JStr ''string''), (''description'', JStr ''Session ID from session_list'')]),
         (''path'', JObj [(''type'', JStr ''string''), (''description'', JStr ''File path to write'')]),
         (''content'', JObj [(''type'', JStr ''string''), (''description'', JStr (''File content: text, or base64 when encoding is 'base64'' @ [CHR 0x27]))]),
         (''encoding'', JObj [(''type'', JStr ''string''), (''enum'', JArr [JStr ''utf-8'', JStr ''base64'']), (''description'', JStr ''Encoding of content (default 'utf-8')'')])])],
     td_annotations = Some (JObj [(''title'', JStr ''Write a file (needs approval)''), (''readOnlyHint'', JBool False), (''destructiveHint'', JBool True), (''idempotentHint'', JBool True)])\<rparr>"

definition run_command_tool :: tool_definition where
  "run_command_tool = \<lparr>td_name = ''run_command'',
     td_description = as_bytes ''Run a shell command on a connected SSH server and return its exit code, stdout and stderr. The command runs with the credentials RustSCP is already connected with (password, key, PuTTY key or certificate) '' @ [0xE2, 0x80, 0x94] @ as_bytes ('' you never see or send them. Depending on the user's setting each command either runs straight away or waits for the user to allow it in the RustSCP window; a command the user denies, or that nobody answers, does not run. Every command is recorded in the activity log. Default time limit '' @ show_nat DEFAULT_COMMAND_TIMEOUT_SECS @ ''s, maximum '' @ show_nat MAX_COMMAND_TIMEOUT_SECS @ ''s; a command still running at the limit is stopped and reported as an error. Only SSH/SFTP connections run commands (S3 and FTP do not). Prefer one non-interactive command per call; it does not keep a shell between calls, so use 'cd /path && ...' to set the directory.''),
     td_input_schema = JObj [(''type'', JStr ''object''), (''required'', JArr [JStr ''connection_id'', JStr ''command'']), 
       (''properties'', JObj [
         (''connection_id'', JObj [(''type'', JStr ''string''), (''description'', JStr ''Session ID from session_list'')]),
         (''command'', JObj [(''type'', JStr ''string''), (''description'', JStr ''The shell command to run (POSIX sh/bash on the server)'')]),
         (''working_dir'', JObj [(''type'', JStr ''string''), (''description'', JStr ''Optional directory to run in (the server does 'cd' there first)'')]),
         (''timeout_seconds'', JObj [(''type'', JStr ''integer''), (''description'', JStr (''Optional time limit in seconds (default '' @ show_nat DEFAULT_COMMAND_TIMEOUT_SECS @ '', max '' @ show_nat MAX_COMMAND_TIMEOUT_SECS @ '')''))])])],
     td_annotations = Some (JObj [(''title'', JStr ''Run a shell command''), (''readOnlyHint'', JBool False), (''destructiveHint'', JBool True), (''openWorldHint'', JBool True)])\<rparr>"

definition fs_search_tool :: tool_definition where
  "fs_search_tool = \<lparr>td_name = ''fs_search'',
     td_description = as_bytes ''Search for files by pattern inside an active connection'',
     td_input_schema = JObj [(''type'', JStr ''object''), (''required'', JArr [JStr ''connection_id'', JStr ''pattern'']), 
       (''properties'', JObj [
         (''connection_id'', JObj [(''type'', JStr ''string''), (''description'', JStr ''Session ID from session_list'')]),
         (''pattern'', JObj [(''type'', JStr ''string''), (''description'', JStr ''Search pattern (e.g. 'config', '*.rs')'')]),
         (''root_path'', JObj [(''type'', JStr ''string''), (''description'', JStr ''Starting directory (default '/')'')])])],
     td_annotations = Some (read_only ''Search for files'')\<rparr>"

definition render_smart_action_tool :: tool_definition where
  "render_smart_action_tool = \<lparr>td_name = ''render_smart_action'',
     td_description = as_bytes ''Validate parameters and render the shell command of a pre-vetted smart action (e.g. tar-compress, systemctl-manager, disk-usage). The command is returned for review; it is NOT executed.'',
     td_input_schema = smart_action_schema,
     td_annotations = Some (read_only ''Render a smart action'')\<rparr>"

definition exec_smart_action_tool :: tool_definition where
  "exec_smart_action_tool = \<lparr>td_name = ''exec_smart_action'',
     td_description = as_bytes ''Deprecated alias of render_smart_action: renders the command for review and does NOT execute anything.'',
     td_input_schema = smart_action_schema,
     td_annotations = Some (read_only ''Render a smart action (deprecated name)'')\<rparr>"

definition tool_definitions :: "tool_definition list" where
  "tool_definitions =
     [session_list_tool, fs_list_dir_tool, fs_read_file_tool, fs_write_file_tool, run_command_tool, fs_search_tool, render_smart_action_tool, exec_smart_action_tool]"

text \<open>Whether a tool is announced as one that only reads.\<close>

definition announced_read_only :: "tool_definition \<Rightarrow> bool" where
  "announced_read_only t = (Option.bind (td_annotations t) (j_get ''readOnlyHint'') = Some (JBool True))"

text \<open>Events of a call that only reads.\<close>

definition harmless :: "gate_event \<Rightarrow> bool" where
  "harmless e = (\<not> changing e \<and> (\<forall>a q d. e \<noteq> Ev_Ask a q d))"

definition reads :: "mcp_server \<Rightarrow> 'a call \<Rightarrow> bool" where
  "reads sv m = emits sv m (\<lambda>r evs. list_all harmless evs)"

named_theorems reads_rules \<open>rules for calls that only read, one per form of call\<close>

lemma reads_silent: "silent sv m \<Longrightarrow> reads sv m"
  unfolding silent_def reads_def
  by (erule emits_weaken) (auto simp: list_all_iff quiet_def harmless_def changing_def split: gate_event.splits)

lemma reads_try [reads_rules]: "reads sv m \<Longrightarrow> (\<And>x sv'. reads sv' (f x)) \<Longrightarrow> reads sv (try_then m f)"
  unfolding reads_def by (erule emits_try) (auto intro: emits_weaken)

lemma reads_ret [reads_rules]: "reads sv (ret x)"
  unfolding reads_def by (rule emits_ret) simp

lemma reads_gets [reads_rules]: "(\<And>x. reads sv (f x)) \<Longrightarrow> reads sv (andThen (gets h) f)"
  unfolding reads_def by (rule emits_gets)

lemma reads_audit [reads_rules]: "reads sv (audit env sp agent tool conn summary status diff)"
  unfolding reads_def
  by (rule emits_weaken [OF emits_audit])
    (auto simp: list_all_iff quiet_def harmless_def changing_def split: gate_event.splits)

lemmas reads_calls [reads_rules] = silent_session [THEN reads_silent] silent_await [THEN reads_silent]

lemma reads_cases [reads_rules]:
  "(\<And>e. reads sv (f1 e)) \<Longrightarrow> (\<And>x. reads sv (g1 x)) \<Longrightarrow> reads sv (case r of Inl e \<Rightarrow> f1 e | Inr x \<Rightarrow> g1 x)"
  "reads sv m1 \<Longrightarrow> (\<And>x. reads sv (g2 x)) \<Longrightarrow> reads sv (case d of None \<Rightarrow> m1 | Some x \<Rightarrow> g2 x)"
  "(\<And>x y. reads sv (f3 x y)) \<Longrightarrow> reads sv (case p of (x, y) \<Rightarrow> f3 x y)"
  "(b \<Longrightarrow> reads sv m) \<Longrightarrow> (\<not> b \<Longrightarrow> reads sv n) \<Longrightarrow> reads sv (if b then m else n)"
  by (simp_all split: sum.split option.split prod.split)

lemma reads_handlers [reads_rules]:
  "reads sv (handle_list_dir env agent c v args)" "reads sv (handle_search env agent c v args)"
  "reads sv (handle_read_file env agent c v args)" "reads sv (handle_session_list env agent)"
  "reads sv (handle_smart_action env agent t c args)"
  unfolding handle_list_dir_def handle_search_def handle_read_file_def handle_session_list_def handle_smart_action_def audited_def Let_def
  by (intro reads_rules)+

lemma reads_session_tool:
  "tool \<noteq> ''fs_write_file'' \<Longrightarrow> tool \<noteq> ''run_command'' \<Longrightarrow> reads sv (handle_session_tool env agent tool conn info vfs args)"
  unfolding handle_session_tool_def by (simp only: if_False) (intro reads_rules)

lemma reads_tool:
  assumes "tool \<noteq> ''fs_write_file''" and "tool \<noteq> ''run_command''"
  shows "reads sv (handle_tool_call env agent tool args)"
  unfolding handle_tool_call_def Let_def by (intro reads_rules reads_session_tool [OF assms])

lemma announced_names: "map (\<lambda>t. (td_name t, announced_read_only t)) tool_definitions =
  [(''session_list'', True), (''fs_list_dir'', True), (''fs_read_file'', True), (''fs_write_file'', False), (''run_command'', False),
   (''fs_search'', True), (''render_smart_action'', True), (''exec_smart_action'', True)]"
  by (simp add: tool_definitions_def announced_read_only_def j_get_def read_only_def session_list_tool_def fs_list_dir_tool_def
      fs_read_file_tool_def fs_write_file_tool_def run_command_tool_def fs_search_tool_def render_smart_action_tool_def
      exec_smart_action_tool_def)

text \<open>
  C38: What is announced to agents holds: a tool that is announced as reading only writes no file, has no
  command executed and asks nobody, whatever its arguments and whatever happens around the call. (How a
  session answers a call to list or to search is its own: the SFTP session searches by a command.)
\<close>

theorem announced_tools_hold:
  assumes "t \<in> set tool_definitions" and "announced_read_only t" and "handle_tool_call env agent (td_name t) args g = (r, g')"
  shows "\<exists>evs. gt_trace g' = gt_trace g @ evs \<and> changes evs = 0 \<and> (\<forall>a q d. Ev_Ask a q d \<notin> set evs)"
proof -
  have "(td_name t, True) \<in> set (map (\<lambda>t. (td_name t, announced_read_only t)) tool_definitions)"
    using assms(1,2) by (force simp: image_iff)
  then have "td_name t \<noteq> ''fs_write_file''" "td_name t \<noteq> ''run_command''" unfolding announced_names by auto
  from reads_tool [OF this] have "emits (gt_server g) (handle_tool_call env agent (td_name t) args) (\<lambda>r evs. list_all harmless evs)"
    by (simp add: reads_def)
  from emitsD [OF this assms(3)] obtain evs where evs: "gt_trace g' = gt_trace g @ evs" "list_all harmless evs" by blast
  then have "changes evs = 0" by (intro no_changes) (auto simp: list_all_iff harmless_def)
  then show ?thesis using evs by (auto simp: list_all_iff harmless_def)
qed

lemma announced_tools_hold_witness:
  "changes (gt_trace (snd (handle_tool_call demo_env ''agent'' ''fs_search'' demo_write demo_gate))) = 0"
proof -
  have t: "fs_search_tool \<in> set tool_definitions" by (simp add: tool_definitions_def)
  have r: "announced_read_only fs_search_tool" "td_name fs_search_tool = ''fs_search''"
    by (simp_all add: announced_read_only_def fs_search_tool_def read_only_def j_get_def)
  have "handle_tool_call demo_env ''agent'' (td_name fs_search_tool) demo_write demo_gate =
      (fst (handle_tool_call demo_env ''agent'' ''fs_search'' demo_write demo_gate), snd (handle_tool_call demo_env ''agent'' ''fs_search'' demo_write demo_gate))"
    by (simp add: r)
  from announced_tools_hold [OF t r(1) this] show ?thesis by (simp add: demo_parts)
qed

end
