(* ===== verification/AgentCalls.thy ===== *)
theory AgentCalls
  imports AgentTools
begin

section \<open>Reading a file in parts, and two findings\<close>

subsection \<open>An agent that reads a whole file\<close>

text \<open>
  The agent reads from where the last reply ended until a reply says that nothing is left, and decodes
  each part as the reply tells it.
\<close>

definition read_args :: "string \<Rightarrow> string \<Rightarrow> nat \<Rightarrow> nat \<Rightarrow> json" where
  "read_args conn path off len =
     JObj [(''connection_id'', JStr conn), (''path'', JStr path), (''offset'', JNum (int off)), (''length'', JNum (int len))]"

definition part_of :: "tool_result \<Rightarrow> (bytes \<times> bool \<times> nat) option" where
  "part_of r =
     (case tr_content r of
        [Content_Text c, Content_Json (R_Object kvs)] \<Rightarrow>
          (case (map_of kvs ''encoding'', map_of kvs ''truncated'', map_of kvs ''next_offset'') of
             (Some (R_Str e), Some (R_Bool left), Some (R_Num next)) \<Rightarrow>
               if e = ''utf-8'' then Some (c, left, nat next)
               else (case base64_decode c of Inr d \<Rightarrow> Some (d, left, nat next) | Inl _ \<Rightarrow> None)
           | _ \<Rightarrow> None)
      | _ \<Rightarrow> None)"

fun read_all :: "nat \<Rightarrow> gate_env \<Rightarrow> string \<Rightarrow> string \<Rightarrow> string \<Rightarrow> nat \<Rightarrow> nat \<Rightarrow> gate \<Rightarrow> bytes option" where
  "read_all 0 env agent conn path len off g = None"
| "read_all (Suc fuel) env agent conn path len off g =
     (case handle_tool_call env agent ''fs_read_file'' (read_args conn path off len) g of
        (Inr r, g') \<Rightarrow> (case part_of r of
            Some (part, left, next) \<Rightarrow>
              if left then map_option ((@) part) (read_all fuel env agent conn path len next g') else Some part
          | None \<Rightarrow> None)
      | (Inl _, g') \<Rightarrow> None)"

text \<open>A session that serves a file, and nobody who comes between.\<close>

definition serves_file :: "gate_env \<Rightarrow> nat \<Rightarrow> string \<Rightarrow> bytes \<Rightarrow> bool" where
  "serves_file env vfs path data =
     (\<forall>t. en_others env t = [] \<and> \<not> en_dropped env t \<and>
        (case en_metadata env t vfs path of Inr meta \<Rightarrow> \<not> is_dir meta \<and> fe_size meta = length data | Inl _ \<Rightarrow> False) \<and>
        (\<forall>off len. en_read_range env t vfs path off len = Inr (take len (drop off data))))"

lemma read_arg_values:
  "str_member ''connection_id'' (read_args conn path off len) = Some conn"
  "str_member ''path'' (read_args conn path off len) = Some path"
  "off < 2 ^ 64 \<Longrightarrow> read_offset (read_args conn path off len) = off"
  "len < 2 ^ 64 \<Longrightarrow> read_length (read_args conn path off len) = clamp 1 MAX_READ_BYTES len"
proof -
  have "int n < 2 ^ 64" if "n < 2 ^ 64" for n :: nat using that by (metis of_nat_less_iff of_nat_numeral of_nat_power)
  then show "off < 2 ^ 64 \<Longrightarrow> read_offset (read_args conn path off len) = off"
    "len < 2 ^ 64 \<Longrightarrow> read_length (read_args conn path off len) = clamp 1 MAX_READ_BYTES len"
    by (simp_all add: read_offset_def read_length_def u64_member_def j_get_def read_args_def)
qed (simp_all add: str_member_def j_get_def read_args_def)

lemma calm_audit:
  assumes "\<And>t. en_others env t = [] \<and> \<not> en_dropped env t"
  shows "fst (audit env sp agent tool conn summary status diff g) = Inr ()"
    "gt_server (snd (audit env sp agent tool conn summary status diff g)) = gt_server g"
  by (simp_all add: audit_def run_simps(1-4) await_def answer_def happens_def on_audit_def assms Let_def split: prod.split)

lemma read_call:
  assumes served: "serves_file env vfs path data" and conn: "connection conn (gt_server g) = Some (vfs, info)"
    and "off < 2 ^ 64" and "len < 2 ^ 64"
  shows "\<exists>g'. handle_tool_call env agent ''fs_read_file'' (read_args conn path off len) g =
      (Inr (read_reply path off (clamp 1 MAX_READ_BYTES len) (Some (length data)) (take (clamp 1 MAX_READ_BYTES len) (drop off data))), g')
    \<and> gt_server g' = gt_server g"
proof -
  have calm: "en_others env t = [] \<and> \<not> en_dropped env t" for t using served by (simp add: serves_file_def)
  have range: "en_read_range env t vfs path i n = Inr (take n (drop i data))" for t i n using served by (simp add: serves_file_def)
  have "\<exists>meta. en_metadata env t vfs path = Inr meta \<and> \<not> is_dir meta \<and> fe_size meta = length data" for t
    using served by (cases "en_metadata env t vfs path") (auto simp: serves_file_def dest: spec [of _ t])
  then obtain meta where meta: "en_metadata env t vfs path = Inr (meta t)" "\<not> is_dir (meta t)" "fe_size (meta t) = length data" for t
    by metis
  have await: "await env sp g = (Inr (), happens (Ev_Others []) g)" for sp g
    by (cases g) (simp add: await_def calm Let_def happens_def)
  note vals = read_arg_values(3) [OF assms(3)] read_arg_values(4) [OF assms(4)]
  have server: "gt_server (happens e g) = gt_server g" for e g by (simp add: happens_def)
  show ?thesis
    by (simp add: handle_tool_call_def needs_connection_def read_arg_values(1,2) vals handle_session_tool_def handle_read_file_def
        audited_def metadata_def read_range_def run_simps(1-4) await answer_def Let_def conn server meta range case_prod_beta calm_audit [OF calm])
qed

lemma reply_part:
  assumes bs: "bs = take n (drop off data)" and "off \<le> length data" and "0 < n" and "length data < 2 ^ 64"
  shows "\<exists>used. (off + used = length data \<and> part_of (read_reply path off n (Some (length data)) bs) = Some (drop off data, False, length data)) \<or>
    (0 < used \<and> off + used \<le> length data \<and>
     part_of (read_reply path off n (Some (length data)) bs) = Some (take used (drop off data), True, off + used))"
proof -
  let ?t = "off + length bs < length data"
  obtain content e used where enc: "encode_for_agent bs ?t = (content, e, used)" by (metis prod_cases3)
  note exact = encode_for_agent_exact [OF enc]
  have len: "off + length bs \<le> length data" using assms(1,2) by simp
  have small: "(off + length bs) mod 2 ^ 64 = off + length bs" "(off + used) mod 2 ^ 64 = off + used"
    using len exact assms(4) by (intro mod_less; linarith)+
  let ?left = "?t \<or> used < length bs"
  have part: "part_of (read_reply path off n (Some (length data)) bs) = Some (take used bs, ?left, off + used)"
    using exact unfolding read_reply_def Let_def option.case small enc prod.case
    by (cases e) (auto simp: part_of_def encoding_name_def agent_decode_def nat_int_add split: sum.split)
  show ?thesis
  proof (cases ?left)
    case True
    then have "?t" using exact by blast
    then have "bs \<noteq> []" using assms(1-3) by auto
    then have "0 < used" using exact by blast
    moreover have "used \<le> n" using exact len by (simp add: assms(1))
    then have "take used bs = take used (drop off data)" by (simp add: assms(1))
    ultimately show ?thesis using part True len exact by (intro exI [of _ used]) auto
  next
    case False
    then have "used = length bs" "off + length bs = length data" using exact len by auto
    moreover from this have "bs = drop off data" using assms(1,2) by (metis add_diff_cancel_left' length_drop take_all_iff length_take min_def nat_le_linear)
    ultimately show ?thesis using part False by (intro exI [of _ used]) auto
  qed
qed

lemma read_all_from:
  assumes served: "serves_file env vfs path data" and "connection conn (gt_server g) = Some (vfs, info)"
    and "off \<le> length data" and "length data < 2 ^ 64" and "len < 2 ^ 64" and "length data - off < fuel"
  shows "read_all fuel env agent conn path len off g = Some (drop off data)"
  using assms(2,3,6)
proof (induction fuel arbitrary: off g)
  case (Suc fuel)
  let ?n = "clamp 1 MAX_READ_BYTES len"
  have n: "0 < ?n" by (simp add: clamp_def MAX_READ_BYTES_def)
  have off: "off < 2 ^ 64" using Suc.prems(2) assms(4) by linarith
  obtain g' where g': "handle_tool_call env agent ''fs_read_file'' (read_args conn path off len) g =
      (Inr (read_reply path off ?n (Some (length data)) (take ?n (drop off data))), g')" "gt_server g' = gt_server g"
    using read_call [OF served Suc.prems(1) off assms(5)] by blast
  from reply_part [OF refl Suc.prems(2) n assms(4), of path] consider
      (ends) "part_of (read_reply path off ?n (Some (length data)) (take ?n (drop off data))) = Some (drop off data, False, length data)"
    | (goes_on) used where "0 < used" "off + used \<le> length data"
        "part_of (read_reply path off ?n (Some (length data)) (take ?n (drop off data))) = Some (take used (drop off data), True, off + used)"
    by blast
  then show ?case
  proof cases
    case ends
    then show ?thesis by (simp add: g'(1) del: One_nat_def)
  next
    case goes_on
    have "read_all fuel env agent conn path len (off + used) g' = Some (drop (off + used) data)"
      using Suc.IH [of g' "off + used"] Suc.prems g'(2) goes_on(1,2) by simp
    moreover have "take used (drop off data) @ drop (off + used) data = drop off data"
      by (metis append_take_drop_id drop_drop add.commute)
    ultimately show ?thesis using goes_on(3) by (simp add: g'(1) del: One_nat_def)
  qed
qed simp

text \<open>
  C35: An agent that reads a file part by part ends, with exactly the bytes of the file, text or not and
  whatever length it asks for: no character is cut between two parts, each part is decoded as announced,
  and every reply but the last brings it further. One call for every byte and one more always suffice.
\<close>

theorem file_read_in_parts:
  assumes "serves_file env vfs path data" and "connection conn (gt_server g) = Some (vfs, info)"
    and "length data < 2 ^ 64" and "len < 2 ^ 64" and "length data < fuel"
  shows "read_all fuel env agent conn path len 0 g = Some data"
  using read_all_from [OF assms(1,2) _ assms(3,4), of 0 fuel] assms(5) by simp

definition demo_file :: file_entry where
  "demo_file = \<lparr>fe_name = ''a'', fe_path = ''/a'', fe_type = File, fe_size = 2, modified_at = None, created_at = None,
     fe_permissions = default_permissions, is_hidden = False\<rparr>"

lemma file_read_in_parts_witness:
  "read_all 3 (demo_env\<lparr>en_metadata := \<lambda>t v p. Inr demo_file, en_read_range := \<lambda>t v p i n. Inr (take n (drop i [0, 200]))\<rparr>)
     ''agent'' ''web'' ''/a'' 1 0 demo_gate = Some [0, 200]"
proof (rule file_read_in_parts [of _ 3])
  show "serves_file (demo_env\<lparr>en_metadata := \<lambda>t v p. Inr demo_file, en_read_range := \<lambda>t v p i n. Inr (take n (drop i [0, 200]))\<rparr>) 3 ''/a'' [0, 200]"
    by (simp add: serves_file_def demo_env_def demo_file_def is_dir_def)
  show "connection ''web'' (gt_server demo_gate) = Some (3, default_info\<lparr>ci_name := ''web''\<rparr>)" by (rule demo_server(1))
qed simp_all

subsection \<open>Two findings\<close>

lemma sh_quote_inj: "sh_quote v = sh_quote w \<Longrightarrow> v = w"
  using sh_words_sh_quote [of v "[]"] sh_words_sh_quote [of w "[]"] by simp

text \<open>The task of an approved command: the command, and nothing more that changes anything or asks.\<close>

lemma emits_run:
  "emits sv (try_then (run_and_audit env vfs agent conn summary effective secs risk access) (\<lambda>result. try_then (await env False) (\<lambda>_. ret (Inr result))))
     (\<lambda>r evs. \<exists>ops res rest. evs = [Ev_Others ops, Ev_Execute vfs effective secs res] @ rest \<and> list_all harmless rest)"
proof -
  let ?Q = "\<lambda>r evs. \<exists>ops res rest. evs = [Ev_Others ops, Ev_Execute vfs effective secs res] @ rest \<and> list_all harmless rest"
  have after: "emits sv' m (\<lambda>r e2. ?Q r (e1 @ e2))"
    if "reads sv' m" "e1 = [Ev_Others ops, Ev_Execute vfs effective secs x] @ rest" "list_all harmless rest"
    for sv' e1 ops x rest and m :: "'z call"
    using that(1) unfolding reads_def by (rule emits_weaken) (use that(2,3) in auto)
  have run: "emits sv (run_and_audit env vfs agent conn summary effective secs risk access) ?Q"
    unfolding run_and_audit_def Let_def
  proof (rule emits_try [OF calls_session(7) [unfolded calls_def]], goal_cases)
    case (2 x e1)
    then obtain ops where e1: "e1 = [Ev_Others ops, Ev_Execute vfs effective secs x] @ []" by auto
    show ?case by (rule after [OF _ e1]) (intro reads_rules, simp)
  qed auto
  show ?thesis
  proof (rule emits_try [OF run], goal_cases)
    case (2 x e1)
    then obtain ops y rest where e1: "e1 = [Ev_Others ops, Ev_Execute vfs effective secs y] @ rest" "list_all harmless rest" by blast
    show ?case by (rule after [OF _ e1]) (intro reads_rules)
  qed auto
qed

text \<open>A command that a person has to approve, and does.\<close>

lemma approved_command_runs:
  assumes "command_arg args = command" "command \<noteq> []" "en_shell env vfs"
    and "decide (current_access (gt_server g)) (classify_command command) = Ask" and "sv_approver (gt_server g) = Some a"
    and "en_approve env (gt_trace g) a (command_approval_request agent conn info command (classify_command command)) = Some Approved"
  shows "\<exists>ops res rest. gt_trace (snd (handle_run_command env agent conn info vfs args g)) = gt_trace g @
      [Ev_Ask a (command_approval_request agent conn info command (classify_command command)) (Some Approved), Ev_Others ops,
       Ev_Execute vfs (effective_command (working_dir args) command) (timeout_secs args) res] @ rest \<and> list_all harmless rest"
proof -
  let ?q = "command_approval_request agent conn info command (classify_command command)"
  let ?g1 = "happens (Ev_Ask a ?q (Some Approved)) g"
  let ?run = "try_then (run_and_audit env vfs agent conn (command_summary (working_dir args) command)
    (effective_command (working_dir args) command) (timeout_secs args) (classify_command command) (current_access (gt_server g)))
    (\<lambda>result. try_then (await env False) (\<lambda>_. ret (Inr result)))"
  have ask: "ask_person env agent ''run_command'' conn summary diff ?q g = (Inr Approved, ?g1)" for summary diff
    using assms(5,6) by (simp add: ask_person_def andThen_def gets_def Let_def)
  have go: "try_then (ask_person env agent ''run_command'' conn summary diff ?q) f g = f Approved ?g1"
    for summary diff and f :: "approval_decision \<Rightarrow> tool_result call"
    using ask by (simp add: try_then_def andThen_def)
  have get: "andThen (gets h) k g = k (h g) g" for h and k :: "command_access \<Rightarrow> tool_result call"
    by (simp add: andThen_def gets_def)
  have run: "handle_run_command env agent conn info vfs args g = ?run ?g1"
    unfolding handle_run_command_def Let_def assms(1) using assms(2-4) by (simp add: get go)
  obtain r g' where r: "?run ?g1 = (r, g')" by fastforce
  obtain evs where "gt_trace g' = gt_trace ?g1 @ evs" "\<exists>ops res rest. evs =
      [Ev_Others ops, Ev_Execute vfs (effective_command (working_dir args) command) (timeout_secs args) res] @ rest \<and> list_all harmless rest"
    using emitsD [OF emits_run r] by blast
  moreover have "snd (handle_run_command env agent conn info vfs args g) = g'" by (simp only: run r snd_conv)
  moreover have "gt_trace ?g1 = gt_trace g @ [Ev_Ask a ?q (Some Approved)]" by (simp add: happens_def)
  ultimately show ?thesis by auto
qed


text \<open>
  C37: The person who approves a command is not shown where it runs. Take any two calls of the same
  command in different directories, from the same state, for which the access level asks, a person is
  there and approves, whatever else happens: both put the same question and get the same answer, and
  then run two different commands, each of which goes to its own directory first.
\<close>

theorem approval_hides_directory:
  assumes "command_arg args = command" and "command_arg args' = command" and "command \<noteq> []"
    and "working_dir args = Some d" and "working_dir args' = Some d'" and "d \<noteq> d'"
    and "en_shell env vfs" and "decide (current_access (gt_server g)) (classify_command command) = Ask"
    and "sv_approver (gt_server g) = Some a"
    and "en_approve env (gt_trace g) a (command_approval_request agent conn info command (classify_command command)) = Some Approved"
  shows "\<exists>q ops res rest ops' res' rest'.
    gt_trace (snd (handle_run_command env agent conn info vfs args g)) = gt_trace g @
      [Ev_Ask a q (Some Approved), Ev_Others ops, Ev_Execute vfs (''cd '' @ sh_quote d @ '' && '' @ command) (timeout_secs args) res] @ rest \<and>
    gt_trace (snd (handle_run_command env agent conn info vfs args' g)) = gt_trace g @
      [Ev_Ask a q (Some Approved), Ev_Others ops', Ev_Execute vfs (''cd '' @ sh_quote d' @ '' && '' @ command) (timeout_secs args') res'] @ rest' \<and>
    list_all harmless (rest @ rest') \<and> sh_quote d \<noteq> sh_quote d'"
  using approved_command_runs [OF assms(1,3,7-10)] approved_command_runs [OF assms(2,3,7-10)] sh_quote_inj assms(6)
  unfolding effective_command_def assms(4,5) option.case list_all_append by blast

lemma approval_hides_directory_witness:
  "\<exists>q ops res rest. gt_trace (snd (handle_run_command demo_env ''agent'' ''web'' default_info 3
      (JObj [(''command'', JStr ''rm -rf *''), (''working_dir'', JStr ''/'')]) demo_gate)) =
    [Ev_Ask 7 q (Some Approved), Ev_Others ops, Ev_Execute 3 (''cd '' @ sh_quote ''/'' @ '' && rm -rf *'') 120 res] @ rest"
proof -
  let ?a = "\<lambda>d. JObj [(''command'', JStr ''rm -rf *''), (''working_dir'', JStr d)]"
  have args: "command_arg (?a ''/tmp/x'') = ''rm -rf *''" "command_arg (?a ''/'') = ''rm -rf *''" "working_dir (?a ''/tmp/x'') = Some ''/tmp/x''"
    "working_dir (?a ''/'') = Some ''/''" "timeout_secs (?a ''/'') = 120" by code_simp+
  have ask: "decide (current_access (gt_server demo_gate)) (classify_command ''rm -rf *'') = Ask" by code_simp
  have env: "en_shell demo_env 3" "sv_approver (gt_server demo_gate) = Some 7" "en_approve demo_env t 7 q = Some Approved" "gt_trace demo_gate = []" for t q
    by (simp_all add: demo_env_def demo_gate_def set_approver_def)
  from approval_hides_directory [OF args(1,2) _ args(3,4) _ env(1) ask env(2,3)] show ?thesis
    by (simp add: env(4) args(5)) blast
qed

text \<open>An agent that leaves as soon as its part of a file has been read.\<close>

definition leaving_env :: gate_env where
  "leaving_env = demo_env\<lparr>en_dropped := list_ex (\<lambda>e. case e of Ev_Read_Range _ _ _ _ _ \<Rightarrow> True | _ \<Rightarrow> False),
     en_metadata := \<lambda>t v p. Inr demo_file, en_read_range := \<lambda>t v p i n. Inr [1, 2]\<rparr>"

text \<open>
  A call that is dropped while nobody is asked leaves no trace in the log: here a file was read, and
  the log is as before.
\<close>

theorem dropped_read_unrecorded:
  "fst (handle_tool_call leaving_env ''agent'' ''fs_read_file'' (read_args ''web'' ''/a'' 0 2) demo_gate) = Inl Dropped \<and>
   gt_audit (snd (handle_tool_call leaving_env ''agent'' ''fs_read_file'' (read_args ''web'' ''/a'' 0 2) demo_gate)) = gt_audit demo_gate \<and>
   Ev_Read_Range 3 ''/a'' 0 2 (Inr [1, 2]) \<in>
     set (gt_trace (snd (handle_tool_call leaving_env ''agent'' ''fs_read_file'' (read_args ''web'' ''/a'' 0 2) demo_gate)))"
proof -
  have env: "en_others leaving_env t = []" "en_dropped leaving_env t = list_ex (\<lambda>e. case e of Ev_Read_Range _ _ _ _ _ \<Rightarrow> True | _ \<Rightarrow> False) t"
    "en_metadata leaving_env t v p = Inr demo_file" "en_read_range leaving_env t v p i n = Inr [1, 2]" for t v p i n
    by (simp_all add: leaving_env_def demo_env_def)
  have no_dir: "\<not> is_dir demo_file" by (simp add: demo_file_def is_dir_def)
  have len: "read_offset (read_args ''web'' ''/a'' 0 2) = 0" "read_length (read_args ''web'' ''/a'' 0 2) = 2"
    using read_arg_values(3) [of 0] read_arg_values(4) [of 2] by (simp_all add: clamp_def MAX_READ_BYTES_def)
  show ?thesis
    by (simp add: handle_tool_call_def needs_connection_def handle_session_tool_def handle_read_file_def read_arg_values(1,2) len
        audited_def read_range_def metadata_def run_simps env no_dir demo_parts demo_server)
qed

end
