(* ===== verification/AgentRpc.thy ===== *)
theory AgentRpc
  imports AgentTools
begin

section \<open>JSON-RPC\<close>

text \<open>
  Models \<open>crates/rustscp-mcp/src/rpc.rs\<close> with the types of \<open>protocol.rs\<close>: one client's session, which
  answers \<open>initialize\<close>, \<open>ping\<close> and \<open>tools/list\<close> itself and hands \<open>tools/call\<close> to its backend, an argument.
  Reading JSON from a text, the message of a failed reading and the version of the build are arguments
  too; replies are kept as values, which the transport prints.
\<close>

definition PARSE_ERROR :: int where "PARSE_ERROR = -32700"
definition INVALID_REQUEST :: int where "INVALID_REQUEST = -32600"
definition METHOD_NOT_FOUND :: int where "METHOD_NOT_FOUND = -32601"
definition INVALID_PARAMS :: int where "INVALID_PARAMS = -32602"

definition SUPPORTED_PROTOCOL_VERSIONS :: "string list" where
  "SUPPORTED_PROTOCOL_VERSIONS = [''2024-11-05'', ''2025-03-26'', ''2025-06-18'']"

definition SERVER_INSTRUCTIONS :: string where
  "SERVER_INSTRUCTIONS = ''RustSCP gives you the servers the user has connected in the RustSCP app (SFTP, S3, FTP). Call session_list first and pass one of its connection_id values to the other tools. Saved passwords and keys are never exposed. Every call is recorded in the RustSCP activity log, and fs_write_file waits until the user allows the change in the RustSCP window.''"

subsection \<open>Messages\<close>

record rpc_request =
  rq_jsonrpc :: string
  rq_id :: "json option"
  rq_method :: string
  rq_params :: "json option"

record rpc_error =
  re_code :: int
  re_message :: string
  re_data :: "json option"

record rpc_response =
  rs_jsonrpc :: string
  rs_id :: json
  rs_result :: "reply_value option"
  rs_error :: "rpc_error option"

definition rpc_success :: "json \<Rightarrow> reply_value \<Rightarrow> rpc_response" where
  "rpc_success i result = \<lparr>rs_jsonrpc = ''2.0'', rs_id = i, rs_result = Some result, rs_error = None\<rparr>"

definition rpc_failure :: "json \<Rightarrow> int \<Rightarrow> string \<Rightarrow> rpc_response" where
  "rpc_failure i error_code message = \<lparr>rs_jsonrpc = ''2.0'', rs_id = i, rs_result = None,
     rs_error = Some \<lparr>re_code = error_code, re_message = message, re_data = None\<rparr>\<rparr>"

text \<open>\<open>serde_json::from_value\<close>: both texts must be there; \<open>null\<close> is no value of an option.\<close>

definition read_request :: "json \<Rightarrow> rpc_request option" where
  "read_request v =
     (case (str_member ''jsonrpc'' v, str_member ''method'' v) of
        (Some version, Some method) \<Rightarrow>
          let option_member = (\<lambda>k. case j_get k v of Some JNull \<Rightarrow> None | r \<Rightarrow> r) in
          Some \<lparr>rq_jsonrpc = version, rq_id = option_member ''id'', rq_method = method, rq_params = option_member ''params''\<rparr>
      | _ \<Rightarrow> None)"

subsection \<open>State\<close>

text \<open>The backend: its state and what a call does; errors of reading, the version.\<close>

record 'b rpc_backend =
  bk_call :: "string \<Rightarrow> string \<Rightarrow> json \<Rightarrow> ('b, dropped + tool_result) act"
  bk_tools :: "tool_definition list"
  bk_parse :: "string \<Rightarrow> string + json"
  bk_serde_error :: "json \<Rightarrow> string"
  bk_version :: string

record 'b rpc_session =
  se_backend :: 'b
  se_agent_id :: string
  se_transport :: "string option"
  se_initialized :: bool

definition new_session :: "'b \<Rightarrow> string \<Rightarrow> string option \<Rightarrow> 'b rpc_session" where
  "new_session b agent_id transport =
     \<lparr>se_backend = b, se_agent_id = agent_id, se_transport = transport, se_initialized = False\<rparr>"

text \<open>A message whose handling is dropped gets no reply.\<close>

type_synonym ('b, 'a) rpc_act = "('b rpc_session, dropped + 'a) act"

definition reply :: "'a \<Rightarrow> ('b, 'a) rpc_act" where
  "reply x = ret (Inr x)"

definition on_backend :: "('b, dropped + 'a) act \<Rightarrow> ('b, 'a) rpc_act" where
  "on_backend m = (\<lambda>s. case m (se_backend s) of (x, b) \<Rightarrow> (x, s\<lparr>se_backend := b\<rparr>))"

subsection \<open>The methods\<close>

definition negotiated_version :: "json option \<Rightarrow> string" where
  "negotiated_version params =
     (case Option.bind params (str_member ''protocolVersion'') of
        Some v \<Rightarrow> if v \<in> set SUPPORTED_PROTOCOL_VERSIONS then v else last SUPPORTED_PROTOCOL_VERSIONS
      | None \<Rightarrow> last SUPPORTED_PROTOCOL_VERSIONS)"

definition client_label :: "json option \<Rightarrow> string \<Rightarrow> string option" where
  "client_label params transport =
     (case Option.bind (Option.bind params (j_get ''clientInfo'')) (str_member ''name'') of
        Some n \<Rightarrow>
          let client = sanitize_client_name n in
          if client \<noteq> [] then Some (client @ '' ('' @ transport @ '')'') else None
      | None \<Rightarrow> None)"

definition initialize :: "'b rpc_backend \<Rightarrow> json \<Rightarrow> json option \<Rightarrow> ('b, rpc_response) rpc_act" where
  "initialize bk req_id params = (\<lambda>s.
     let label = Option.bind (se_transport s) (client_label params) in
     (Inr (rpc_success req_id (R_Object [(''protocolVersion'', R_Str (negotiated_version params)),
        (''serverInfo'', R_Object [(''name'', R_Str ''RustSCP MCP Gateway''), (''version'', R_Str (bk_version bk))]),
        (''capabilities'', R_Object [(''tools'', R_Object [(''listChanged'', R_Bool False)])]),
        (''instructions'', R_Str SERVER_INSTRUCTIONS)])),
      s\<lparr>se_agent_id := (case label of Some l \<Rightarrow> l | None \<Rightarrow> se_agent_id s), se_initialized := True\<rparr>))"

definition tool_value :: "tool_definition \<Rightarrow> reply_value" where
  "tool_value t =
     R_Object ([(''name'', R_Str (td_name t)), (''description'', R_Utf8 (td_description t)), (''inputSchema'', R_Json (td_input_schema t))]
       @ (case td_annotations t of Some a \<Rightarrow> [(''annotations'', R_Json a)] | None \<Rightarrow> []))"

definition content_value :: "mcp_content \<Rightarrow> reply_value" where
  "content_value c =
     R_Object [(''type'', R_Str ''text''), (''text'', case c of Content_Text b \<Rightarrow> R_Utf8 b | Content_Json v \<Rightarrow> R_Json_Text v)]"

definition result_value :: "tool_result \<Rightarrow> reply_value" where
  "result_value r =
     R_Object [(''content'', R_List (map content_value (tr_content r))), (''isError'', R_Bool (tr_is_error r))]"

definition call_arguments :: "json \<Rightarrow> json option" where
  "call_arguments params =
     (case j_get ''arguments'' params of
        None \<Rightarrow> Some (JObj [])
      | Some JNull \<Rightarrow> Some (JObj [])
      | Some (JObj kvs) \<Rightarrow> Some (JObj kvs)
      | Some v \<Rightarrow> None)"

definition recorded_agent :: "string \<Rightarrow> json \<Rightarrow> string" where
  "recorded_agent agent_id params =
     (case str_member ''agent_id'' params of
        Some claimed \<Rightarrow>
          if claimed \<noteq> agent_id then agent_id @ '' (claimed: '' @ sanitize_client_name claimed @ '')'' else agent_id
      | None \<Rightarrow> agent_id)"

definition tools_call :: "'b rpc_backend \<Rightarrow> json \<Rightarrow> json option \<Rightarrow> ('b, rpc_response) rpc_act" where
  "tools_call bk req_id req_params =
     (let params = (case req_params of Some p \<Rightarrow> p | None \<Rightarrow> JObj []) in
      case str_member ''name'' params of
        None \<Rightarrow> reply (rpc_failure req_id INVALID_PARAMS ''Invalid params: tools/call needs a tool name'')
      | Some tool_name \<Rightarrow>
          (case call_arguments params of
             None \<Rightarrow> reply (rpc_failure req_id INVALID_PARAMS ''Invalid params: arguments must be an object'')
           | Some args \<Rightarrow>
               andThen (gets se_agent_id) (\<lambda>agent_id.
               try_then (on_backend (bk_call bk (recorded_agent agent_id params) tool_name args)) (\<lambda>result.
               reply (rpc_success req_id (result_value result))))))"

definition dispatch :: "'b rpc_backend \<Rightarrow> json \<Rightarrow> rpc_request \<Rightarrow> ('b, rpc_response) rpc_act" where
  "dispatch bk req_id req =
     (if rq_method req = ''initialize'' then initialize bk req_id (rq_params req)
      else if rq_method req = ''tools/list''
      then reply (rpc_success req_id (R_Object [(''tools'', R_List (map tool_value (bk_tools bk)))]))
      else if rq_method req = ''tools/call'' then tools_call bk req_id (rq_params req)
      else if rq_method req = ''ping'' then reply (rpc_success req_id (R_Object []))
      else reply (rpc_failure req_id METHOD_NOT_FOUND (''Method '' @ quote (rq_method req) @ '' not found'')))"

definition is_request_id :: "json \<Rightarrow> bool" where
  "is_request_id v = (is_string v \<or> is_number v)"

definition id_or_null :: "json option \<Rightarrow> json" where
  "id_or_null raw_id = (case raw_id of Some i \<Rightarrow> i | None \<Rightarrow> JNull)"

definition handle_message :: "'b rpc_backend \<Rightarrow> json \<Rightarrow> ('b, rpc_response option) rpc_act" where
  "handle_message bk message =
     (let raw_id = j_get ''id'' message in
      if as_object message = None
      then reply (Some (rpc_failure JNull INVALID_REQUEST ''Invalid Request: expected a JSON object''))
      else if \<not> j_has ''method'' message
      then if j_has ''result'' message \<or> j_has ''error'' message then reply None
           else reply (Some (rpc_failure (id_or_null raw_id) INVALID_REQUEST ''Invalid Request: missing method''))
      else if (case raw_id of Some i \<Rightarrow> \<not> is_request_id i | None \<Rightarrow> False)
      then reply (Some (rpc_failure JNull INVALID_REQUEST ''Invalid Request: id must be a string or a number''))
      else case read_request message of
          None \<Rightarrow> reply (Some (rpc_failure (id_or_null raw_id) INVALID_REQUEST (''Invalid Request: '' @ bk_serde_error bk message)))
        | Some req \<Rightarrow>
            (case rq_id req of
               None \<Rightarrow> reply None
             | Some req_id \<Rightarrow>
                 if rq_jsonrpc req \<noteq> ''2.0''
                 then reply (Some (rpc_failure req_id INVALID_REQUEST (''Invalid Request: jsonrpc must be '' @ [CHR 0x22] @ ''2.0'' @ [CHR 0x22])))
                 else try_then (dispatch bk req_id req) (\<lambda>r. reply (Some r))))"

subsection \<open>Lines and batches\<close>

datatype rpc_reply = Reply_One rpc_response | Reply_Batch "rpc_response list"

fun handle_items :: "'b rpc_backend \<Rightarrow> json list \<Rightarrow> ('b, rpc_response list) rpc_act" where
  "handle_items bk [] = reply []"
| "handle_items bk (item # items) =
     try_then (handle_message bk item) (\<lambda>r.
     try_then (handle_items bk items) (\<lambda>replies.
     reply (case r of Some x \<Rightarrow> x # replies | None \<Rightarrow> replies)))"

definition handle_value :: "'b rpc_backend \<Rightarrow> json \<Rightarrow> ('b, rpc_reply option) rpc_act" where
  "handle_value bk message =
     (case message of
        JArr items \<Rightarrow>
          if items = [] then reply (Some (Reply_One (rpc_failure JNull INVALID_REQUEST ''Invalid Request: empty batch'')))
          else try_then (handle_items bk items) (\<lambda>replies. reply (if replies = [] then None else Some (Reply_Batch replies)))
      | single \<Rightarrow> try_then (handle_message bk single) (\<lambda>r. reply (map_option Reply_One r)))"

definition parse_message :: "'b rpc_backend \<Rightarrow> string \<Rightarrow> rpc_reply + json" where
  "parse_message bk raw =
     (case bk_parse bk raw of
        Inr v \<Rightarrow> Inr v
      | Inl e \<Rightarrow> Inl (Reply_One (rpc_failure JNull PARSE_ERROR (''Parse error: '' @ e))))"

definition handle_line :: "'b rpc_backend \<Rightarrow> string \<Rightarrow> ('b, rpc_reply option) rpc_act" where
  "handle_line bk line =
     (let raw = trim line in
      if raw = [] then reply None
      else case parse_message bk raw of
          Inr message \<Rightarrow> handle_value bk message
        | Inl failure \<Rightarrow> reply (Some failure))"

subsection \<open>The server as backend\<close>

definition DEFAULT_AGENT_ID :: string where "DEFAULT_AGENT_ID = ''ai-agent''"

definition server_backend :: "gate_env \<Rightarrow> (string \<Rightarrow> string + json) \<Rightarrow> (json \<Rightarrow> string) \<Rightarrow> string \<Rightarrow> gate rpc_backend" where
  "server_backend env parse serde_error version =
     \<lparr>bk_call = handle_tool_call env, bk_tools = tool_definitions, bk_parse = parse, bk_serde_error = serde_error, bk_version = version\<rparr>"

definition handle_rpc_as :: "gate rpc_backend \<Rightarrow> string \<Rightarrow> string \<Rightarrow> gate \<Rightarrow> (dropped + rpc_response option) \<times> gate" where
  "handle_rpc_as bk agent_id raw_json g =
     (case bk_parse bk raw_json of
        Inl e \<Rightarrow> (Inr (Some (rpc_failure JNull PARSE_ERROR (''Parse error: '' @ e))), g)
      | Inr message \<Rightarrow> (case handle_message bk message (new_session g agent_id None) of (r, s) \<Rightarrow> (r, se_backend s)))"

definition handle_rpc :: "gate rpc_backend \<Rightarrow> string \<Rightarrow> gate \<Rightarrow> (dropped + rpc_response option) \<times> gate" where
  "handle_rpc bk raw_json g = handle_rpc_as bk DEFAULT_AGENT_ID raw_json g"

subsection \<open>Requests that can be cancelled\<close>

text \<open>The key of a request, its id as JSON text: kept as the id itself, so that \<open>1\<close> and \<open>"1"\<close> differ.\<close>

definition request_key :: "json \<Rightarrow> json option" where
  "request_key i = (if is_string i \<or> is_number i then Some i else None)"

definition cancellable_request :: "json \<Rightarrow> json option" where
  "cancellable_request message =
     (if as_object message = None \<or> str_member ''method'' message = None then None
      else Option.bind (j_get ''id'' message) request_key)"

definition cancel_target :: "json \<Rightarrow> json option" where
  "cancel_target m =
     (if as_object m = None \<or> j_has ''id'' m \<or> str_member ''method'' m \<noteq> Some ''notifications/cancelled'' then None
      else Option.bind (Option.bind (j_get ''params'' m) (j_get ''requestId'')) request_key)"

definition cancelled_requests :: "json \<Rightarrow> json list" where
  "cancelled_requests message =
     (case message of
        JArr items \<Rightarrow> List.map_filter cancel_target items
      | single \<Rightarrow> (case cancel_target single of Some k \<Rightarrow> [k] | None \<Rightarrow> []))"

end
