(* ===== verification/AgentRpcFacts.thy ===== *)
theory AgentRpcFacts
  imports AgentRpc
begin

section \<open>What a client can rely on, and what it cannot forge\<close>

subsection \<open>Answers\<close>

text \<open>A request as it should be, and a notification.\<close>

definition proper_request :: "json \<Rightarrow> json \<Rightarrow> bool" where
  "proper_request message i =
     (as_object message \<noteq> None \<and> j_get ''id'' message = Some i \<and> is_request_id i \<and>
      str_member ''jsonrpc'' message = Some ''2.0'' \<and> str_member ''method'' message \<noteq> None)"

definition notification :: "json \<Rightarrow> bool" where
  "notification message =
     (as_object message \<noteq> None \<and> j_get ''id'' message = None \<and> str_member ''jsonrpc'' message \<noteq> None \<and>
      str_member ''method'' message \<noteq> None)"

definition well_formed_response :: "rpc_response \<Rightarrow> bool" where
  "well_formed_response r = ((rs_result r = None) \<noteq> (rs_error r = None))"

lemma str_member_has: "str_member k v \<noteq> None \<Longrightarrow> j_has k v"
  by (auto simp: str_member_def j_has_def split: Option.bind_splits)

text \<open>What a message does: nothing, one call of the backend, or the naming of the client.\<close>

definition backend_calls :: "'b rpc_backend \<Rightarrow> string \<Rightarrow> 'b \<Rightarrow> 'b \<Rightarrow> bool" where
  "backend_calls bk agent_id b b' =
     (b' = b \<or> (\<exists>params tool args. b' = snd (bk_call bk (recorded_agent agent_id params) tool args b)))"

lemma rpc_values: "well_formed_response (rpc_success i v)" "well_formed_response (rpc_failure i c m)"
  "rs_id (rpc_success i v) = i" "rs_id (rpc_failure i c m) = i"
  by (simp_all add: well_formed_response_def rpc_success_def rpc_failure_def)

lemmas rpc_ops = dispatch_def initialize_def tools_call_def reply_def ret_def try_then_def andThen_def gets_def on_backend_def Let_def

lemma tools_call_result:
  assumes "tools_call bk i params s = (r, s')"
  shows "(\<forall>x. r = Inr x \<longrightarrow> rs_id x = i \<and> well_formed_response x) \<and> backend_calls bk (se_agent_id s) (se_backend s) (se_backend s')
    \<and> se_agent_id s' = se_agent_id s"
proof -
  let ?p = "case params of Some p \<Rightarrow> p | None \<Rightarrow> JObj []"
  show ?thesis
  proof (cases "str_member ''name'' ?p")
    case None
    then show ?thesis using assms by (auto simp: tools_call_def reply_def ret_def rpc_values backend_calls_def)
  next
    case (Some tool)
    show ?thesis
    proof (cases "call_arguments ?p")
      case None
      then show ?thesis using assms Some by (auto simp: tools_call_def reply_def ret_def rpc_values backend_calls_def)
    next
      case args: (Some args)
      obtain x b where b: "bk_call bk (recorded_agent (se_agent_id s) ?p) tool args (se_backend s) = (x, b)"
        by (cases "bk_call bk (recorded_agent (se_agent_id s) ?p) tool args (se_backend s)")
      have run: "tools_call bk i params s = (case x of Inl e \<Rightarrow> Inl e | Inr y \<Rightarrow> Inr (rpc_success i (result_value y)), s\<lparr>se_backend := b\<rparr>)"
        using b Some args by (cases x) (simp_all add: tools_call_def rpc_ops)
      have "b = snd (bk_call bk (recorded_agent (se_agent_id s) ?p) tool args (se_backend s))" using b by simp
      then have "backend_calls bk (se_agent_id s) (se_backend s) b" unfolding backend_calls_def by blast
      then show ?thesis using assms unfolding run by (auto simp: rpc_values split: sum.splits)
    qed
  qed
qed

lemma dispatch_result:
  assumes "dispatch bk i req s = (r, s')"
  shows "(\<forall>x. r = Inr x \<longrightarrow> rs_id x = i \<and> well_formed_response x) \<and> backend_calls bk (se_agent_id s) (se_backend s) (se_backend s')
    \<and> (rq_method req \<noteq> ''initialize'' \<longrightarrow> se_agent_id s' = se_agent_id s)"
proof (cases "rq_method req = ''tools/call''")
  case True
  then have "tools_call bk i (rq_params req) s = (r, s')" using assms by (simp add: dispatch_def)
  then show ?thesis using tools_call_result True by blast
next
  case False
  then show ?thesis using assms
    by (auto simp: dispatch_def initialize_def reply_def ret_def rpc_values backend_calls_def Let_def split: if_splits)
qed

lemma handle_message_request:
  assumes "proper_request message i"
  shows "\<exists>req. rq_id req = Some i \<and> handle_message bk message s = try_then (dispatch bk i req) (\<lambda>r. reply (Some r)) s"
proof -
  have m: "j_has ''method'' message" using assms str_member_has by (simp add: proper_request_def)
  have "i \<noteq> JNull" using assms by (cases i) (auto simp: proper_request_def is_request_id_def)
  then obtain mt where "str_member ''jsonrpc'' message = Some ''2.0''" "str_member ''method'' message = Some mt" "i \<noteq> JNull"
    using assms by (auto simp: proper_request_def)
  then obtain req where "read_request message = Some req" "rq_id req = Some i" "rq_jsonrpc req = ''2.0''"
    using assms by (auto simp: read_request_def proper_request_def Let_def split: json.split)
  then show ?thesis using assms m by (intro exI [of _ req]) (auto simp: handle_message_def proper_request_def Let_def)
qed

text \<open>
  C39: A client can count its answers: a proper request whose handling ends gets exactly one response, with
  its own id and either a result or an error; a notification or a stray response gets none and does
  nothing at all.
\<close>

theorem requests_answered:
  "(proper_request message i \<longrightarrow> handle_message bk message s = (Inr x, s') \<longrightarrow>
     (\<exists>r. x = Some r \<and> rs_id r = i \<and> well_formed_response r)) \<and>
   (notification message \<longrightarrow> handle_message bk message s = (Inr None, s)) \<and>
   (as_object message \<noteq> None \<longrightarrow> \<not> j_has ''method'' message \<longrightarrow> j_has ''result'' message \<or> j_has ''error'' message \<longrightarrow>
     handle_message bk message s = (Inr None, s))"
proof (intro conjI impI)
  assume req: "proper_request message i" and run: "handle_message bk message s = (Inr x, s')"
  obtain req where "handle_message bk message s = try_then (dispatch bk i req) (\<lambda>r. reply (Some r)) s"
    using handle_message_request [OF req] by blast
  moreover obtain r s1 where d: "dispatch bk i req s = (r, s1)" by (cases "dispatch bk i req s")
  ultimately have "\<exists>y. r = Inr y \<and> x = Some y"
    using run by (cases r) (auto simp: try_then_def andThen_def reply_def ret_def)
  then show "\<exists>r. x = Some r \<and> rs_id r = i \<and> well_formed_response r" using dispatch_result [OF d] by blast
next
  assume n: "notification message"
  then have "j_has ''method'' message" using str_member_has by (simp add: notification_def)
  then show "handle_message bk message s = (Inr None, s)"
    using n by (auto simp: notification_def handle_message_def read_request_def reply_def ret_def Let_def)
qed (auto simp: handle_message_def reply_def ret_def Let_def)

lemma requests_answered_witness:
  "\<exists>r. fst (handle_message (server_backend demo_env (\<lambda>t. Inl t) (\<lambda>v. []) ''1'') (JObj [(''jsonrpc'', JStr ''2.0''), (''id'', JNum 7), (''method'', JStr ''ping'')])
      (new_session demo_gate ''a'' None)) = Inr (Some r) \<and> rs_id r = JNum 7 \<and> well_formed_response r"
proof -
  let ?m = "JObj [(''jsonrpc'', JStr ''2.0''), (''id'', JNum 7), (''method'', JStr ''ping'')]" and ?b = "server_backend demo_env (\<lambda>t. Inl t) (\<lambda>v. []) ''1''"
  let ?s = "new_session demo_gate ''a'' None"
  have p: "proper_request ?m (JNum 7)"
    by (simp add: proper_request_def j_get_def is_request_id_def str_member_def)
  have "handle_message ?b ?m ?s = (Inr (Some (rpc_success (JNum 7) (R_Object []))), ?s)"
    by (simp add: handle_message_def j_get_def j_has_def is_request_id_def read_request_def str_member_def Let_def dispatch_def reply_def
        try_then_def andThen_def ret_def)
  with requests_answered [of ?m "JNum 7" ?b ?s] p show ?thesis by auto
qed

subsection \<open>Who is named in the log\<close>

definition names :: "string \<Rightarrow> gate_event \<Rightarrow> bool" where
  "names agent e = (case e of Ev_Audit a \<Rightarrow> ae_agent_id a = agent | Ev_Ask _ q _ \<Rightarrow> ar_agent_id q = agent | _ \<Rightarrow> True)"

definition signed :: "string \<Rightarrow> mcp_server \<Rightarrow> 'a call \<Rightarrow> bool" where
  "signed agent sv m = emits sv m (\<lambda>r evs. list_all (names agent) evs)"

named_theorems signed_rules \<open>rules for who is named, one per form of call\<close>

lemma quiet_names: "list_all quiet evs \<Longrightarrow> list_all (names agent) evs"
  by (auto simp: list_all_iff quiet_def names_def split: gate_event.splits)

lemma signed_try [signed_rules]: "signed agent sv m \<Longrightarrow> (\<And>x sv'. signed agent sv' (f x)) \<Longrightarrow> signed agent sv (try_then m f)"
  unfolding signed_def by (erule emits_try) (auto intro: emits_weaken)

lemma signed_ret [signed_rules]: "signed agent sv (ret x)"
  unfolding signed_def by (rule emits_ret) simp

lemma signed_gets [signed_rules]: "(\<And>x. signed agent sv (f x)) \<Longrightarrow> signed agent sv (andThen (gets h) f)"
  unfolding signed_def by (rule emits_gets)

lemma signed_silent: "silent sv m \<Longrightarrow> signed agent sv m"
  unfolding silent_def signed_def by (erule emits_weaken) (rule quiet_names)

lemmas signed_calls [signed_rules] = silent_session [THEN signed_silent] silent_await [THEN signed_silent]

lemma signed_changes [signed_rules]:
  "signed agent sv (write_file env sp vfs path data)" "signed agent sv (execute_command env sp vfs cmd secs)"
  unfolding signed_def
  by (rule emits_weaken [OF calls_session(4) [unfolded calls_def]] emits_weaken [OF calls_session(7) [unfolded calls_def]];
      auto simp: names_def)+

lemma signed_audit [signed_rules]: "signed agent sv (audit env sp agent tool conn summary status diff)"
  unfolding signed_def by (rule emits_weaken [OF emits_audit]) (auto simp: quiet_names names_def)

lemma signed_cases [signed_rules]:
  "(\<And>e. signed agent sv (f1 e)) \<Longrightarrow> (\<And>x. signed agent sv (g1 x)) \<Longrightarrow> signed agent sv (case r of Inl e \<Rightarrow> f1 e | Inr x \<Rightarrow> g1 x)"
  "signed agent sv m1 \<Longrightarrow> (\<And>x. signed agent sv (g2 x)) \<Longrightarrow> signed agent sv (case d of None \<Rightarrow> m1 | Some x \<Rightarrow> g2 x)"
  "(\<And>x y. signed agent sv (f3 x y)) \<Longrightarrow> signed agent sv (case p of (x, y) \<Rightarrow> f3 x y)"
  "signed agent sv m \<Longrightarrow> signed agent sv n \<Longrightarrow> signed agent sv (if b then m else n)"
  "signed agent sv m4 \<Longrightarrow> (\<And>s. signed agent sv (f4 s)) \<Longrightarrow> signed agent sv (case d4 of Approved \<Rightarrow> m4 | Denied s \<Rightarrow> f4 s)"
  "signed agent sv a5 \<Longrightarrow> signed agent sv b5 \<Longrightarrow> (\<And>s. signed agent sv (f5 s)) \<Longrightarrow> signed agent sv (case d5 of Ask \<Rightarrow> a5 | Allow \<Rightarrow> b5 | Deny s \<Rightarrow> f5 s)"
  by (simp_all split: sum.split option.split prod.split approval_decision.split command_decision.split)

lemma signed_ask:
  assumes "ar_agent_id req = agent"
  shows "signed agent sv (ask_person env agent tool conn path diff req)"
  unfolding signed_def
proof (rule emitsI)
  fix g r g' assume g: "gt_server g = sv" and run: "ask_person env agent tool conn path diff req g = (r, g')"
  have aud: "\<exists>w. gt_trace (snd (audit env True agent tool conn path s d h)) = gt_trace h @ w \<and>
      gt_server (snd (audit env True agent tool conn path s d h)) = after w (gt_server h) \<and> list_all (names agent) w" for s d h
  proof (cases "audit env True agent tool conn path s d h")
    case (Pair x h')
    from emitsD [OF signed_audit [unfolded signed_def] Pair] show ?thesis using Pair by auto
  qed
  have w: "\<exists>w. gt_trace (withdrawn env agent tool conn path diff h) = gt_trace h @ w \<and>
      gt_server (withdrawn env agent tool conn path diff h) = after w (gt_server h) \<and> list_all (names agent) w" for h
    using aud by (cases "en_runtime env (gt_trace h)") (auto simp: withdrawn_def intro!: exI [of _ "[]"])
  have e: "gt_trace (happens (Ev_Ask a req d) h) = gt_trace h @ [Ev_Ask a req d]" "gt_server (happens (Ev_Ask a req d) h) = gt_server h" for a d h
    by (simp_all add: happens_def)
  show "\<exists>evs. gt_trace g' = gt_trace g @ evs \<and> gt_server g' = after evs sv \<and> list_all (names agent) evs"
  proof (cases "sv_approver (gt_server g)")
    case None
    then show ?thesis using run g by (intro exI [of _ "[]"]) (simp add: ask_person_def andThen_def gets_def ret_def)
  next
    case (Some a)
    show ?thesis
    proof (cases "en_approve env (gt_trace g) a req")
      case None
      let ?h = "happens (Ev_Ask a req None) g"
      have "g' = withdrawn env agent tool conn path diff ?h" using run Some None by (simp add: ask_person_def andThen_def gets_def Let_def)
      moreover obtain v where "gt_trace (withdrawn env agent tool conn path diff ?h) = gt_trace ?h @ v"
        "gt_server (withdrawn env agent tool conn path diff ?h) = after v (gt_server ?h)" "list_all (names agent) v" using w by blast
      ultimately show ?thesis using e g assms by (intro exI [of _ "Ev_Ask a req None # v"]) (simp add: names_def)
    next
      case (Some d)
      then have "g' = happens (Ev_Ask a req (Some d)) g" using run \<open>sv_approver (gt_server g) = Some a\<close>
        by (simp add: ask_person_def andThen_def gets_def Let_def)
      then show ?thesis using e g assms by (intro exI [of _ "[Ev_Ask a req (Some d)]"]) (simp add: names_def)
    qed
  qed
qed

lemma request_agents:
  "ar_agent_id (write_approval_request agent tool conn info path data sha old) = agent"
  "ar_agent_id (command_approval_request agent conn info command risk) = agent"
  by (simp_all add: write_approval_request_def command_approval_request_def Let_def split: prod.split)

lemmas signed_asks [signed_rules] = signed_ask [OF request_agents(1)] signed_ask [OF request_agents(2)]

lemma signed_tool: "signed agent sv (handle_tool_call env agent tool args)"
  unfolding handle_tool_call_def handle_session_tool_def handle_list_dir_def handle_search_def handle_read_file_def
    handle_session_list_def handle_smart_action_def handle_write_file_def handle_run_command_def write_and_audit_def
    run_and_audit_def audited_def Let_def
  by (intro signed_rules)

lemma handle_message_backend:
  assumes "handle_message bk message s = (r, s')"
  shows "backend_calls bk (se_agent_id s) (se_backend s) (se_backend s')"
proof -
  have d: "backend_calls bk (se_agent_id s) (se_backend s) (se_backend s2)"
    if run: "try_then (dispatch bk i req) (\<lambda>r. reply (Some r)) s = (r2, s2)" for i req r2 s2
  proof -
    obtain r1 s1 where d: "dispatch bk i req s = (r1, s1)" by (cases "dispatch bk i req s")
    have "s2 = s1" using run d by (cases r1) (auto simp: try_then_def andThen_def reply_def ret_def)
    then show ?thesis using dispatch_result [OF d] by blast
  qed
  show ?thesis using assms d
    unfolding handle_message_def Let_def
    by (auto simp: reply_def ret_def backend_calls_def split: if_splits option.splits)
qed

lemma sanitized:
  "list_all (\<lambda>c. \<not> is_control c) (sanitize_client_name n) \<and> length (sanitize_client_name n) \<le> MAX_CLIENT_NAME_CHARS"
proof -
  let ?t = "take MAX_CLIENT_NAME_CHARS (filter (\<lambda>c. \<not> is_control c) n)"
  have "set ?t \<subseteq> {c. \<not> is_control c}" by (auto dest: in_set_takeD)
  then have "set (trim ?t) \<subseteq> {c. \<not> is_control c}" using set_trim by blast
  moreover have "length (trim ?t) \<le> MAX_CLIENT_NAME_CHARS" using length_trim [of ?t] by (simp add: min_def split: if_splits)
  ultimately show ?thesis unfolding sanitize_client_name_def sanitize_label_def by (auto simp: list_all_iff)
qed

text \<open>A name with what the client claims to be behind it.\<close>

definition named_as :: "string \<Rightarrow> string \<Rightarrow> bool" where
  "named_as label name =
     (name = label \<or> (\<exists>claim. name = label @ '' (claimed: '' @ claim @ '')'' \<and> list_all (\<lambda>c. \<not> is_control c) claim \<and>
        length claim \<le> MAX_CLIENT_NAME_CHARS))"

lemma recorded_named: "named_as label (recorded_agent label params)"
  using sanitized by (auto simp: recorded_agent_def named_as_def split: option.split)

definition labelled_by :: "string option \<Rightarrow> string \<Rightarrow> bool" where
  "labelled_by transport label =
     (\<exists>t client. transport = Some t \<and> label = client @ '' ('' @ t @ '')'' \<and> list_all (\<lambda>c. \<not> is_control c) client \<and>
        length client \<le> MAX_CLIENT_NAME_CHARS)"

lemma client_label_by: "client_label params t = Some l \<Longrightarrow> labelled_by (Some t) l"
  using sanitized unfolding client_label_def labelled_by_def Let_def by (auto split: option.splits if_splits)

lemma dispatch_label:
  assumes "dispatch bk i req s = (r, s')"
  shows "se_agent_id s' = se_agent_id s \<or> labelled_by (se_transport s) (se_agent_id s')"
proof (cases "rq_method req = ''initialize''")
  case True
  show ?thesis
  proof (cases "Option.bind (se_transport s) (client_label (rq_params req))")
    case None
    then show ?thesis using assms True by (auto simp: dispatch_def initialize_def Let_def)
  next
    case (Some l)
    then obtain t where t: "se_transport s = Some t" "client_label (rq_params req) t = Some l" by (cases "se_transport s") auto
    have "se_agent_id s' = l" using assms True Some by (auto simp: dispatch_def initialize_def Let_def)
    then show ?thesis using t client_label_by by simp
  qed
next
  case False
  then show ?thesis using dispatch_result [OF assms] by blast
qed

lemma handle_message_label:
  assumes "handle_message bk message s = (r, s')"
  shows "se_agent_id s' = se_agent_id s \<or> labelled_by (se_transport s) (se_agent_id s')"
proof -
  have d: "se_agent_id s2 = se_agent_id s \<or> labelled_by (se_transport s) (se_agent_id s2)"
    if run: "try_then (dispatch bk i req) (\<lambda>r. reply (Some r)) s = (r2, s2)" for i req r2 s2
  proof -
    obtain r1 s1 where d: "dispatch bk i req s = (r1, s1)" by (cases "dispatch bk i req s")
    have "s2 = s1" using run d by (cases r1) (auto simp: try_then_def andThen_def reply_def ret_def)
    then show ?thesis using dispatch_label [OF d] by blast
  qed
  show ?thesis using assms d
    unfolding handle_message_def Let_def
    by (auto simp: reply_def ret_def split: if_splits option.splits)
qed

lemma message_names:
  assumes "handle_message (server_backend env parse serde_error version) message s = (r, s')"
  shows "\<exists>evs. gt_trace (se_backend s') = gt_trace (se_backend s) @ evs \<and>
    (\<forall>a. Ev_Audit a \<in> set evs \<longrightarrow> named_as (se_agent_id s) (ae_agent_id a)) \<and>
    (\<forall>w q d. Ev_Ask w q d \<in> set evs \<longrightarrow> named_as (se_agent_id s) (ar_agent_id q)) \<and>
    (se_agent_id s' = se_agent_id s \<or> labelled_by (se_transport s) (se_agent_id s'))"
proof -
  have label: "se_agent_id s' = se_agent_id s \<or> labelled_by (se_transport s) (se_agent_id s')" using handle_message_label [OF assms] .
  let ?bk = "server_backend env parse serde_error version"
  from handle_message_backend [OF assms] consider "se_backend s' = se_backend s"
    | (called) params tool args where "se_backend s' = snd (handle_tool_call env (recorded_agent (se_agent_id s) params) tool args (se_backend s))"
    by (auto simp: backend_calls_def server_backend_def)
  then show ?thesis
  proof cases
    case called
    let ?agent = "recorded_agent (se_agent_id s) params"
    obtain x g' where run: "handle_tool_call env ?agent tool args (se_backend s) = (x, g')" by (cases "handle_tool_call env ?agent tool args (se_backend s)")
    from emitsD [OF signed_tool [unfolded signed_def] run] obtain evs where evs: "gt_trace g' = gt_trace (se_backend s) @ evs" "list_all (names ?agent) evs" by blast
    then have "(\<forall>a. Ev_Audit a \<in> set evs \<longrightarrow> ae_agent_id a = ?agent) \<and> (\<forall>w q d. Ev_Ask w q d \<in> set evs \<longrightarrow> ar_agent_id q = ?agent)"
      by (auto simp: list_all_iff names_def)
    then show ?thesis using evs(1) called run recorded_named label by auto
  qed (use label in auto)
qed

lemma dispatch_transport: "dispatch bk i req s = (r, s') \<Longrightarrow> se_transport s' = se_transport s"
  by (auto simp: dispatch_def initialize_def tools_call_def reply_def ret_def on_backend_def try_then_def andThen_def gets_def Let_def
      split: if_splits option.splits prod.splits sum.splits)

lemma handle_message_transport:
  assumes "handle_message bk message s = (r, s')"
  shows "se_transport s' = se_transport s"
proof -
  have d: "se_transport s2 = se_transport s"
    if run: "try_then (dispatch bk i req) (\<lambda>r. reply (Some r)) s = (r2, s2)" for i req r2 s2
  proof -
    obtain r1 s1 where d: "dispatch bk i req s = (r1, s1)" by (cases "dispatch bk i req s")
    have "s2 = s1" using run d by (cases r1) (auto simp: try_then_def andThen_def reply_def ret_def)
    then show ?thesis using dispatch_transport [OF d] by simp
  qed
  show ?thesis using assms d
    unfolding handle_message_def Let_def
    by (auto simp: reply_def ret_def split: if_splits option.splits)
qed

text \<open>A session after the messages it was sent.\<close>

fun handle_all :: "'b rpc_backend \<Rightarrow> json list \<Rightarrow> 'b rpc_session \<Rightarrow> 'b rpc_session" where
  "handle_all bk [] s = s"
| "handle_all bk (m # ms) s = handle_all bk ms (snd (handle_message bk m s))"

lemma handle_all_label:
  "se_transport s = tr \<Longrightarrow> se_agent_id s = agent_id \<or> labelled_by tr (se_agent_id s) \<Longrightarrow>
   se_transport (handle_all bk ms s) = tr \<and>
   (se_agent_id (handle_all bk ms s) = agent_id \<or> labelled_by tr (se_agent_id (handle_all bk ms s)))"
proof (induction ms arbitrary: s)
  case (Cons m ms)
  obtain r s' where m: "handle_message bk m s = (r, s')" by (cases "handle_message bk m s")
  have "se_transport s' = tr" "se_agent_id s' = agent_id \<or> labelled_by tr (se_agent_id s')"
    using handle_message_transport [OF m] handle_message_label [OF m] Cons.prems by auto
  then show ?case using Cons.IH m by simp
qed simp

text \<open>A request in which a client names itself.\<close>

definition introduces :: "json \<Rightarrow> string \<Rightarrow> bool" where
  "introduces message n =
     ((\<exists>i. proper_request message i) \<and> str_member ''method'' message = Some ''initialize'' \<and>
      Option.bind (Option.bind (j_get ''params'' message) (j_get ''clientInfo'')) (str_member ''name'') = Some n)"

lemma introduced:
  assumes "introduces message n" and "se_transport s = Some t" and "sanitize_client_name n \<noteq> []"
  shows "se_agent_id (snd (handle_message bk message s)) = sanitize_client_name n @ '' ('' @ t @ '')''"
proof -
  obtain i where p: "proper_request message i" using assms(1) by (auto simp: introduces_def)
  have m: "str_member ''method'' message = Some ''initialize''" "j_has ''method'' message"
    using assms(1) str_member_has [of "''method''" message] by (simp_all add: introduces_def)
  obtain params ci where params: "j_get ''params'' message = Some params" "j_get ''clientInfo'' params = Some ci" "str_member ''name'' ci = Some n"
    using assms(1) by (auto simp: introduces_def Option.bind_eq_Some_conv)
  have "params \<noteq> JNull" using params(2) by (auto simp: j_get_def)
  moreover have "i \<noteq> JNull" using p by (cases i) (auto simp: proper_request_def is_request_id_def)
  ultimately have req: "read_request message = Some \<lparr>rq_jsonrpc = ''2.0'', rq_id = Some i, rq_method = ''initialize'', rq_params = Some params\<rparr>"
    using p m params(1) by (auto simp: read_request_def proper_request_def Let_def split: json.split)
  have "client_label (Some params) t = Some (sanitize_client_name n @ '' ('' @ t @ '')'')"
    using params(2,3) assms(3) by (simp add: client_label_def Let_def)
  then have "se_agent_id (snd (dispatch bk i \<lparr>rq_jsonrpc = ''2.0'', rq_id = Some i, rq_method = ''initialize'', rq_params = Some params\<rparr> s)) =
      sanitize_client_name n @ '' ('' @ t @ '')''"
    using assms(2) by (simp add: dispatch_def initialize_def Let_def)
  moreover have "snd (try_then m (\<lambda>r. reply (Some r)) s) = snd (m s)" for m :: "('a, rpc_response) rpc_act"
    by (cases "m s"; cases "fst (m s)") (auto simp: try_then_def andThen_def reply_def ret_def split: sum.split)
  moreover have "as_object message \<noteq> None" "j_get ''id'' message = Some i" "is_request_id i"
    using p by (simp_all add: proper_request_def)
  moreover from this(1) obtain members where "as_object message = Some members" by blast
  ultimately show ?thesis using m(2) by (simp add: handle_message_def req Let_def)
qed

text \<open>
  C40: A client cannot act under another name. After any messages, the session is labelled with the name
  its transport gave it, or with a name a client gave, cut to 64 printable characters, with the name of
  the transport behind it; a client that introduces itself with a printable name is labelled so. Whatever
  message comes next, every entry of the activity log and every question to a person names the session
  by that label, with what the request claims to come from only behind it, cut likewise.
\<close>

theorem client_cannot_forge_name:
  assumes "s = handle_all (server_backend env parse serde_error version) messages (new_session g agent_id transport)"
    and "handle_message (server_backend env parse serde_error version) message s = (r, s')"
  shows "(se_agent_id s = agent_id \<or> labelled_by transport (se_agent_id s)) \<and>
    (\<forall>n t. transport = Some t \<longrightarrow> introduces message n \<longrightarrow> sanitize_client_name n \<noteq> [] \<longrightarrow>
       se_agent_id s' = sanitize_client_name n @ '' ('' @ t @ '')'') \<and>
    (\<exists>evs. gt_trace (se_backend s') = gt_trace (se_backend s) @ evs \<and>
       (\<forall>a. Ev_Audit a \<in> set evs \<longrightarrow> named_as (se_agent_id s) (ae_agent_id a)) \<and>
       (\<forall>w q d. Ev_Ask w q d \<in> set evs \<longrightarrow> named_as (se_agent_id s) (ar_agent_id q)))"
proof (intro conjI allI impI)
  have label: "se_transport s = transport" "se_agent_id s = agent_id \<or> labelled_by transport (se_agent_id s)"
    using handle_all_label [of "new_session g agent_id transport" transport agent_id] unfolding assms(1) by (simp_all add: new_session_def)
  show "se_agent_id s = agent_id \<or> labelled_by transport (se_agent_id s)" by (rule label(2))
  fix n t
  assume "transport = Some t" "introduces message n" "sanitize_client_name n \<noteq> []"
  then show "se_agent_id s' = sanitize_client_name n @ '' ('' @ t @ '')''"
    using introduced [of message n s t "server_backend env parse serde_error version"] label(1) assms(2) by simp
next
  show "\<exists>evs. gt_trace (se_backend s') = gt_trace (se_backend s) @ evs \<and>
       (\<forall>a. Ev_Audit a \<in> set evs \<longrightarrow> named_as (se_agent_id s) (ae_agent_id a)) \<and>
       (\<forall>w q d. Ev_Ask w q d \<in> set evs \<longrightarrow> named_as (se_agent_id s) (ar_agent_id q))"
    using message_names [OF assms(2)] by blast
qed

text \<open>A client introduces itself, then claims to be somebody else.\<close>

definition demo_messages :: "json list" where
  "demo_messages =
     [JObj [(''jsonrpc'', JStr ''2.0''), (''id'', JNum 1), (''method'', JStr ''initialize''),
            (''params'', JObj [(''clientInfo'', JObj [(''name'', JStr ''client'')])])]]"

definition demo_call :: json where
  "demo_call = JObj [(''jsonrpc'', JStr ''2.0''), (''id'', JNum 7), (''method'', JStr ''tools/call''),
     (''params'', JObj [(''name'', JStr ''fs_write_file''), (''arguments'', demo_write), (''agent_id'', JStr ''somebody'')])]"

lemma client_cannot_forge_name_witness:
  "\<exists>s evs. se_agent_id s = ''client (stdio)'' \<and>
    gt_trace (se_backend (snd (handle_message (server_backend demo_env (\<lambda>t. Inl t) (\<lambda>v. []) ''1'') demo_call s))) = gt_trace (se_backend s) @ evs \<and>
    (\<forall>a. Ev_Audit a \<in> set evs \<longrightarrow> named_as ''client (stdio)'' (ae_agent_id a))"
proof -
  let ?bk = "server_backend demo_env (\<lambda>t. Inl t) (\<lambda>v. []) ''1''" and ?new = "new_session demo_gate ''mcp-stdio'' (Some ''stdio'')"
  let ?s = "handle_all ?bk demo_messages ?new"
  have i: "introduces (hd demo_messages) ''client''"
    unfolding introduces_def proper_request_def by (simp add: demo_messages_def j_get_def str_member_def is_request_id_def)
  have n: "sanitize_client_name ''client'' = ''client''" by code_simp
  have "se_agent_id (snd (handle_message ?bk (hd demo_messages) (handle_all ?bk [] ?new))) = sanitize_client_name ''client'' @ '' ('' @ ''stdio'' @ '')''"
    using client_cannot_forge_name [OF refl prod.collapse [symmetric], where env = demo_env and parse = "\<lambda>t. Inl t" and serde_error = "\<lambda>v. []"
        and version = "''1''" and message = "hd demo_messages" and messages = "[]" and g = demo_gate
        and agent_id = "''mcp-stdio''" and transport = "Some ''stdio''"] i n by simp
  then have "se_agent_id ?s = ''client (stdio)''" by (simp add: demo_messages_def n)
  then show ?thesis
    using client_cannot_forge_name [OF refl prod.collapse [symmetric], where env = demo_env and parse = "\<lambda>t. Inl t" and serde_error = "\<lambda>v. []"
        and version = "''1''" and message = demo_call and messages = demo_messages and g = demo_gate
        and agent_id = "''mcp-stdio''" and transport = "Some ''stdio''"] by (intro exI [of _ ?s]) auto
qed

end
