(* ===== verification/Spec2Isabelle.thy ===== *)
theory Spec2Isabelle
  imports Policy HostKeyStore ChunkCache SiteUndo SiteIds SiteLoad TransferExample SyncExample
    ContinuousSyncFacts FileMasks DiskCacheLimits SmartActionFacts AgentCalls AgentRpcFacts
begin

text \<open>
  RustSCP, a file transfer client for SFTP, FTP, WebDAV and S3 sites: a model of the parts of its Rust
  code that carry its own logic, and what makes them correct. Paths below are relative to \<open>src/\<close>;
  \<open>core\<close> stands for \<open>crates/rustscp-core/src\<close>.

  \<^bold>\<open>The program.\<close> The desktop application (\<open>apps/rustscp-desktop\<close>) and the gateway for agents
  (\<open>crates/rustscp-mcp\<close>) work on sessions: implementations of one trait, \<open>VirtualFileSystem\<close> in
  \<open>core/vfs.rs\<close>. Saved sites live in folders of a site tree (\<open>core/site_layout.rs\<close>) inside a sealed
  store. A connection to an SSH server is accepted by the host key store (\<open>core/known_hosts.rs\<close>).
  Transfers run as jobs of a queue (\<open>core/transfer_queue.rs\<close>), which reads from one session and writes
  to another; a synchronization first compares two folders (\<open>core/sync.rs\<close>) and plans what to
  transfer; a watched folder reports its settled changes (\<open>core/continuous_sync.rs\<close>). Contents and
  listings are cached in memory (\<open>crates/rustscp-cache\<close>) and on disk (\<open>core/disk_cache.rs\<close>). Agents
  reach the connected sites through a server of tools (\<open>crates/rustscp-mcp\<close>): each call is checked, a
  change waits for a person or for the access level, and everything is entered in a log. Pre-vetted
  shell commands are rendered from a catalog of actions (\<open>crates/rustscp-actions\<close>).

  \<^bold>\<open>Foundations.\<close> \<open>Prelude\<close>: the string operations of the Rust library the code uses, ordered
  sets and maps, the collection \<open>conv\<close> and the lemmas all components share. \<open>Bytes\<close>: bytes, UTF-8 and
  hexadecimal. \<open>Effects\<close>: methods with state and errors, and the rules that prove triples about them
  (\<open>hoare_rules\<close>). \<open>Base64\<close>: the coder and decoder the gateway has of its own, with their round trip.
  \<open>Json\<close>: JSON values and how they are read. \<open>Machine\<close>: the locales \<open>machine\<close>, \<open>refining_machine\<close> for components that are a
  state with calls; each stateful component interprets one of them on its own definitions.
  \<open>DepthStack\<close>: why the walks over folder trees end.

  \<^bold>\<open>Components.\<close>

  \<^item> \<open>Policy\<close> (\<open>policy.rs\<close>): the risk of a command, and the decision for each access level. The
    destructive shapes that are caught in any surroundings, and some that are not.
  \<^item> \<open>CoreTypes\<close> (\<open>core/types.rs\<close>, \<open>core/shell.rs\<close>): errors, entries, permissions, settings, and
    quoting for a shell, which a POSIX shell reads back exactly.
  \<^item> \<open>Sha1\<close>, \<open>Glob\<close>, \<open>KnownHosts\<close>, \<open>HostKeyStore\<close> (\<open>core/known_hosts.rs\<close>): the digest for hashed
    names, the pattern matcher (equivalent to the recursive reading of a pattern), the parser and the
    lookups, and the store over its files. A key is accepted only when listed, or when the host is
    new; trust on first use keeps what it saved.
  \<^item> \<open>ChunkCache\<close> (\<open>rustscp-cache\<close>): the chunks in memory. Dirty data is never lost, nothing stale is
    served, the usage reported is the true one.
  \<^item> \<open>SitePaths\<close>, \<open>SiteLayout\<close>, \<open>SiteOps\<close>, \<open>SiteUndo\<close>, \<open>SiteIds\<close>, \<open>SiteLoad\<close> (\<open>core/site_layout.rs\<close>):
    folder paths, the layout and its repair, the operations, batches and their undo, ids and recents,
    and loading and saving. Batches are all or nothing, keep the layout well formed and can be undone.
  \<^item> \<open>TransferPaths\<close>, \<open>TransferQueue\<close>, \<open>TransferJob\<close>, \<open>TransferCopy\<close>, \<open>TransferFile\<close>, \<open>TransferMove\<close>,
    \<open>TransferExample\<close> (\<open>core/transfer_queue.rs\<close>, \<open>core/vfs.rs\<close>): the queue and its workers as a step
    relation, and the job with every method. What a copy, a replacement and a move leave in both
    sessions, whatever fails; that nothing is planned outside the destination folder.
  \<^item> \<open>SyncPlan\<close>, \<open>SyncExample\<close> (\<open>core/sync.rs\<close>): the comparison of two trees and its plan, which
    respects the direction chosen and misses no file.
  \<^item> \<open>ContinuousSync\<close>, \<open>ContinuousSyncFacts\<close> (\<open>core/continuous_sync.rs\<close>): the debouncer, its polls and
    the worker. A file that never rests is still reported in time; the order of the reports; no
    removal is swallowed.
  \<^item> \<open>FileMasks\<close> (\<open>core/file_masks.rs\<close>): masks and their meaning.
  \<^item> \<open>LruIndex\<close>, \<open>CacheNames\<close>, \<open>CacheDisk\<close>, \<open>DiskCache\<close>, \<open>DiskCacheFacts\<close>, \<open>DiskCacheLimits\<close>
    (\<open>core/disk_cache.rs\<close>): the index of least use as a refinement of a list (locale \<open>lru\<close>), the names
    of cached files, the disk with calls that can fail, every method, and what they promise: files
    never share a name, nothing stale is served, what was stored is served, the quota holds.
  \<^item> \<open>SmartActions\<close>, \<open>ActionCatalog\<close>, \<open>SmartActionFacts\<close> (\<open>crates/rustscp-actions\<close>): schemas, the
    rendering of commands, the built-in catalog. What a shell sees of the values a person enters.
  \<^item> \<open>AuditLog\<close> (\<open>crates/rustscp-mcp/src/audit.rs\<close>): the log in memory and in its files.
  \<^item> \<open>AgentText\<close>, \<open>AgentServer\<close>, \<open>AgentServerFacts\<close>, \<open>AgentCalls\<close>, \<open>AgentTools\<close> (\<open>server.rs\<close>): the texts
    sent to agents, the server with every tool call, and the tools as announced. A call is a
    program over a trace of events, with whatever persons, sessions and cancellations do in between as
    functions of the trace (\<open>gate_env\<close>): no change without permission, one entry per call, files read
    completely, tools announced as reading only change nothing. A person is shown the command an agent
    sends, but not the folder it runs in.
  \<^item> \<open>AgentRpc\<close>, \<open>AgentRpcFacts\<close> (\<open>rpc.rs\<close>, \<open>protocol.rs\<close>): one client's session. One answer per request;
    over a named transport, a client is logged under its name only with the name of the transport behind.

  \<^bold>\<open>How code is read.\<close> A struct is a record, an enum a datatype, an error a value of a sum. A method on
  shared state that holds its lock throughout is one step; where other threads can come between (the
  job, the workers of the queue), what they do is an argument: a list of actions, outcomes, clock
  readings or answers, arbitrary in every theorem. Integers are words where the code computes with
  them to the edge (digests, modes, ports), else natural numbers with saturation written out. A
  \<open>HashMap\<close> is a list of pairs whose order is arbitrary. Code outside the repository (the Base64 of stored keys,
  SHA-256, regular expressions, the sessions' servers) is a parameter; what is relied on is a named
  predicate (\<open>codec_ok\<close>, \<open>hex_law\<close>, \<open>regex_law\<close>, \<open>session_laws\<close>, \<open>range_law\<close>, \<open>codec_laws\<close>), and each
  theorem that needs one has a witness that instantiates it with a concrete function.

  \<^bold>\<open>Idealised.\<close> Two paths of a session are two files, and the two sessions of a job share none: links and
  the other spellings of one file that \<open>check_not_same_file\<close> looks for are modelled as answers of the
  sessions, but \<open>session_laws\<close> does not say what writing through one does to the other. A removal or rename
  that reports an error has done nothing. The lock file of the host key store and the folder made for
  it are left out; a key type is read for characters below U+0100 only. Arithmetic is that of a release
  build: where a debug build panics on overflow, as for the offset of \<open>fs_read_file\<close>, the model wraps.
  Searching is one call of a session, whatever the session does for it.

  \<^bold>\<open>Loops.\<close> Every loop of the modelled code is shown to end. Recursion over data needs no measure; the
  matcher uses the positions left, the walks over remote trees the multiset of the levels left, the
  walk over the cache the number of nodes below the folders on the stack, the search for an unused
  number the finite set of taken ones. Fuel occurs where the bound is known from the state: the
  evictions of both caches take at most as many turns as there are entries, an agent that reads a file
  in parts needs at most one part per byte, and the theorems show that this suffices.

  \<^bold>\<open>Not modelled.\<close> The protocol back ends (\<open>sftp.rs\<close>, \<open>ftp.rs\<close>, \<open>s3.rs\<close>, \<open>exec_sftp.rs\<close>,
  \<open>webdav_server.rs\<close>), which mostly drive libraries and servers; the user interface and the commands that
  connect it (\<open>commands.rs\<close>, \<open>main.rs\<close>, TypeScript); terminals; the sealed store (only what the layout
  needs of it); key files and importers (\<open>ppk.rs\<close>, \<open>winscp.rs\<close>, \<open>embedded_key.rs\<close>); scripting and the
  share server; the gateway's transport (\<open>transport.rs\<close>, \<open>gateway.rs\<close>, \<open>ipc.rs\<close>, \<open>bridge.rs\<close>), and a
  panic inside a task. Logging is left out everywhere.
\<close>

end
